(* ===== verification/Prelude.thy ===== *)
theory Prelude
  imports Main "HOL-Library.Word"
begin

text \<open>
  What the components share: names for the machine integers of the C code, the outcome of a C
  function that can report failure, leave the process or never return, the functions of the C
  string library the sources call, the number scanning and number printing of
  \<^verbatim>\<open>strtoul\<close> and \<^verbatim>\<open>printf\<close>, singly linked lists with a tail pointer, and numbers as bytes.

  A C string is its characters before the terminating zero, a \<^typ>\<open>string\<close>; a pointer into a
  string is an index.  The platform is LP64: \<^verbatim>\<open>unsigned long\<close> has 64 bits.
\<close>

unbundle bit_operations_syntax

named_theorems c_string \<open>facts that rewrite calls of the C string library\<close>
named_theorems c_num \<open>facts on scanning and printing numbers\<close>
named_theorems res_simps \<open>facts that run the outcome type\<close>

section \<open>Machine integers\<close>

type_synonym u8 = "8 word"
type_synonym u16 = "16 word"
type_synonym u32 = "32 word"
type_synonym u64 = "64 word"
type_synonym i32 = "32 word" \<comment> \<open>an \<^verbatim>\<open>int\<close>, read by \<^term>\<open>sint\<close>\<close>
type_synonym bytes = "u8 list"

text \<open>The byte of a \<^verbatim>\<open>char\<close>, and its promotion to \<^verbatim>\<open>int\<close> where \<^verbatim>\<open>char\<close> is signed
  (x86) and where it is not (ARM).\<close>

definition char_byte :: "char \<Rightarrow> u8" where
  "char_byte c = of_char c"

definition byte_char :: "u8 \<Rightarrow> char" where
  "byte_char b = char_of (unat b)"

definition char_int :: "char \<Rightarrow> i32" where
  "char_int c = scast (char_byte c)"

definition uchar_int :: "char \<Rightarrow> i32" where
  "uchar_int c = ucast (char_byte c)"

lemma of_char_char_of_nat [simp]: "n < 256 \<Longrightarrow> of_char (char_of n :: char) = (n::nat)"
  by (simp add: of_char_of)

lemma char_byte_eq_of_nat: "char_byte c = of_nat (of_char c)"
  by (simp only: char_byte_def of_nat_of_char)

lemma unat_char_byte [simp]: "unat (char_byte c) = of_char c"
  using nat_of_char_less_256 [of c]
  by (simp add: char_byte_eq_of_nat unat_of_nat)

lemma char_byte_byte_char [simp]: "char_byte (byte_char b) = b"
  using unsigned_less [of b, where 'a = nat]
  by (simp add: char_byte_eq_of_nat byte_char_def)

lemma byte_char_char_byte [simp]: "byte_char (char_byte c) = c"
  by (simp add: byte_char_def)

text \<open>
  Promoted characters are small integers.  On those the sign tricks of the constant-time code
  are comparisons: an arithmetic shift by 8 is the sign mask, the top bit is the sign.
\<close>

lemma bit_small_int: "- 256 \<le> k \<Longrightarrow> k < 256 \<Longrightarrow> 8 \<le> m \<Longrightarrow> bit (k::int) m \<longleftrightarrow> k < 0"
proof -
  assume a: "- 256 \<le> k" "k < 256" "8 \<le> m"
  have p: "(256::int) \<le> 2 ^ m" using a(3) power_increasing [of 8 m "2::int"] by simp
  show ?thesis
  proof (cases "k < 0")
    case True
    with a p have "k div 2 ^ m = - 1"
      by (intro int_div_pos_eq [where r = "k + 2 ^ m"]) auto
    with True show ?thesis by (simp add: bit_iff_odd)
  next
    case False
    with a p have "k div 2 ^ m = 0" by simp
    with False show ?thesis by (simp add: bit_iff_odd)
  qed
qed

lemma bit_of_int_small [simp]:
  "- 256 \<le> k \<Longrightarrow> k < 256 \<Longrightarrow> 8 \<le> m \<Longrightarrow> bit (word_of_int k :: i32) m \<longleftrightarrow> m < 32 \<and> k < 0"
  by (simp add: bit_word_of_int_iff bit_small_int)

lemma asr8_small:
  "- 256 \<le> k \<Longrightarrow> k < 256 \<Longrightarrow> signed_drop_bit 8 (word_of_int k :: i32) = (if k < 0 then - 1 else 0)"
  by (rule bit_word_eqI) (auto simp: bit_signed_drop_bit_iff)

lemma asr8_and_small:
  "- 256 \<le> a \<Longrightarrow> a < 256 \<Longrightarrow> - 256 \<le> b \<Longrightarrow> b < 256 \<Longrightarrow>
   signed_drop_bit 8 (word_of_int a AND word_of_int b :: i32) = (if a < 0 \<and> b < 0 then - 1 else 0)"
  by (rule bit_word_eqI) (auto simp: bit_signed_drop_bit_iff bit_and_iff)

lemma drop_bit_31: "drop_bit 31 (w :: i32) = of_bool (bit w 31)"
proof (rule bit_word_eqI)
  fix n assume "n < LENGTH(32)"
  show "bit (drop_bit 31 w) n \<longleftrightarrow> bit (of_bool (bit w 31) :: i32) n"
    by (cases n) (auto simp: bit_drop_bit_eq bit_of_bool_iff dest: bit_imp_le_length)
qed

lemma sign_and_small:
  "- 256 \<le> a \<Longrightarrow> a < 256 \<Longrightarrow> - 256 \<le> b \<Longrightarrow> b < 256 \<Longrightarrow>
   drop_bit 31 (word_of_int a AND word_of_int b :: i32) \<noteq> 0 \<longleftrightarrow> a < 0 \<and> b < 0"
  by (simp add: drop_bit_31 bit_and_iff)

text \<open>The value of a signed \<^verbatim>\<open>char\<close>.\<close>

definition char_ord :: "char \<Rightarrow> int" where
  "char_ord c = (let n = of_char c in if n < 128 then n else n - 256)"

lemma signed_take_bit_byte: "0 \<le> k \<Longrightarrow> k < 256 \<Longrightarrow> signed_take_bit 7 k = (if k < 128 then k else k - (256::int))"
proof -
  assume k: "0 \<le> k" "k < 256"
  show ?thesis
  proof (cases "k < 128")
    case True with k show ?thesis by (simp add: signed_take_bit_int_eq_self)
  next
    case False
    have "take_bit 8 k = take_bit 8 (k - 256)" by (simp add: take_bit_eq_mod)
    then have "signed_take_bit 7 k = signed_take_bit 7 (k - 256)"
      by (simp add: signed_take_bit_eq_iff_take_bit_eq)
    with False k show ?thesis by (simp add: signed_take_bit_int_eq_self)
  qed
qed

lemma of_char_int_range: "0 \<le> (of_char c :: int)" "of_char c < (256::int)"
proof -
  have "(of_char c :: int) = int (of_char c)" by (simp only: of_nat_of_char)
  moreover have "(of_char c :: nat) < 256" by simp
  ultimately show "0 \<le> (of_char c :: int)" "of_char c < (256::int)" by linarith+
qed

lemma uint_char_byte: "uint (char_byte c) = of_char c"
proof -
  have "uint (char_byte c) = int (unat (char_byte c))" by (rule uint_nat)
  then show ?thesis by (simp only: unat_char_byte of_nat_of_char)
qed

lemma char_int_eq: "char_int c = word_of_int (char_ord c)"
proof -
  have "sint (char_byte c) = signed_take_bit 7 (uint (char_byte c))"
    by (simp add: sint_uint)
  also have "\<dots> = char_ord c"
    using of_char_int_range [of c] by (simp add: uint_char_byte signed_take_bit_byte char_ord_def Let_def)
  finally show ?thesis by (simp add: char_int_def scast_eq)
qed

lemma uchar_int_eq: "uchar_int c = word_of_int (of_char c)"
  by (simp add: uchar_int_def uint_char_byte flip: uint_char_byte)

section \<open>The outcome of a C function\<close>

text \<open>
  \<^item> \<open>Ok x\<close>: the function returns success with the values it stored through its pointers;
  \<^item> \<open>Fail d\<close>: it prints the diagnostic \<open>d\<close> and returns failure;
  \<^item> \<open>Exit d\<close>: it prints \<open>d\<close> and calls \<^verbatim>\<open>exit(1)\<close>;
  \<^item> \<open>Hang\<close>: it never returns;
  \<^item> \<open>Fault\<close>: it follows a null pointer.
\<close>

datatype ('e, 'a) res = Ok 'a | Fail 'e | Exit 'e | Hang | Fault

fun res_bind :: "('e, 'a) res \<Rightarrow> ('a \<Rightarrow> ('e, 'b) res) \<Rightarrow> ('e, 'b) res" where
  "res_bind (Ok x) f = f x"
| "res_bind (Fail e) f = Fail e"
| "res_bind (Exit e) f = Exit e"
| "res_bind Hang f = Hang"
| "res_bind Fault f = Fault"

lemma res_bind_Ok_iff [res_simps]:
  "res_bind r f = Ok y \<longleftrightarrow> (\<exists>x. r = Ok x \<and> f x = Ok y)"
  by (cases r) auto

lemma res_bind_Fault_iff [res_simps]:
  "res_bind r f = Fault \<longleftrightarrow> r = Fault \<or> (\<exists>x. r = Ok x \<and> f x = Fault)"
  by (cases r) auto

lemma res_bind_Hang_iff [res_simps]:
  "res_bind r f = Hang \<longleftrightarrow> r = Hang \<or> (\<exists>x. r = Ok x \<and> f x = Hang)"
  by (cases r) auto

lemma res_bind_assoc: "res_bind (res_bind r f) g = res_bind r (\<lambda>x. res_bind (f x) g)"
  by (cases r) auto

text \<open>Loops over a list that stop at the first outcome that is not success.\<close>

fun res_fold :: "('s \<Rightarrow> 'x \<Rightarrow> ('e, 's) res) \<Rightarrow> 's \<Rightarrow> 'x list \<Rightarrow> ('e, 's) res" where
  "res_fold f s [] = Ok s"
| "res_fold f s (x # xs) = res_bind (f s x) (\<lambda>t. res_fold f t xs)"

lemma res_fold_append:
  "res_fold f s (xs @ ys) = res_bind (res_fold f s xs) (\<lambda>t. res_fold f t ys)"
  by (induction xs arbitrary: s) (simp_all add: res_bind_assoc)

text \<open>
  An outcome is safe for \<open>P\<close> when success satisfies \<open>P\<close> and no null pointer was followed.
  A loop whose steps are safe for an invariant is safe for it.
\<close>

definition res_ok :: "('a \<Rightarrow> bool) \<Rightarrow> ('e, 'a) res \<Rightarrow> bool" where
  "res_ok P r \<longleftrightarrow> (case r of Ok x \<Rightarrow> P x | Fault \<Rightarrow> False | _ \<Rightarrow> True)"

lemma res_ok_simps [simp]:
  "res_ok P (Ok x) \<longleftrightarrow> P x" "res_ok P (Fail e)" "res_ok P (Exit e)" "res_ok P Hang" "\<not> res_ok P Fault"
  by (simp_all add: res_ok_def)

lemma res_ok_iff: "res_ok P r \<longleftrightarrow> r \<noteq> Fault \<and> (\<forall>x. r = Ok x \<longrightarrow> P x)"
  by (cases r) simp_all

lemma res_okD: "res_ok P r \<Longrightarrow> r = Ok x \<Longrightarrow> P x" and res_ok_no_Fault: "res_ok P r \<Longrightarrow> r \<noteq> Fault"
  by (auto simp: res_ok_iff)

lemma res_ok_mono: "res_ok P r \<Longrightarrow> (\<And>x. P x \<Longrightarrow> Q x) \<Longrightarrow> res_ok Q r"
  by (auto simp: res_ok_iff)

lemma res_ok_bind: "res_ok Q r \<Longrightarrow> (\<And>x. Q x \<Longrightarrow> res_ok P (f x)) \<Longrightarrow> res_ok P (res_bind r f)"
  by (cases r) simp_all

locale step_invariant =
  fixes step :: "'s \<Rightarrow> 'x \<Rightarrow> ('e, 's) res" and inv :: "'s \<Rightarrow> bool"
  assumes step_ok: "inv s \<Longrightarrow> res_ok inv (step s x)"
begin

lemma fold_ok: "inv s \<Longrightarrow> res_ok inv (res_fold step s xs)"
  by (induction xs arbitrary: s) (auto intro: res_ok_bind step_ok)

lemma fold_inv: "inv s \<Longrightarrow> res_fold step s xs = Ok t \<Longrightarrow> inv t"
  using fold_ok by (rule res_okD)

lemma fold_no_Fault: "inv s \<Longrightarrow> res_fold step s xs \<noteq> Fault"
  using fold_ok by (rule res_ok_no_Fault)

end

section \<open>The C string library\<close>

abbreviation NUL :: char where "NUL \<equiv> CHR 0x00"
abbreviation NL :: char where "NL \<equiv> CHR 0x0A"

text \<open>The C string a buffer holds: what comes before the first zero.\<close>

definition cstr :: "string \<Rightarrow> string" where
  "cstr s = takeWhile (\<lambda>c. c \<noteq> NUL) s"

lemma cstr_id [c_string]: "NUL \<notin> set s \<Longrightarrow> cstr s = s"
  by (simp add: cstr_def takeWhile_eq_all_conv) blast

text \<open>\<^verbatim>\<open>tolower\<close> in the C locale, and equality up to case.\<close>

definition c_tolower :: "char \<Rightarrow> char" where
  "c_tolower c = (let n = (of_char c :: nat) in if 65 \<le> n \<and> n \<le> 90 then char_of (n + 32) else c)"

definition strcaseeq :: "string \<Rightarrow> string \<Rightarrow> bool" where
  "strcaseeq a b \<longleftrightarrow> map c_tolower a = map c_tolower b"

lemma of_char_c_tolower:
  "(of_char (c_tolower c) :: nat) =
     (if 65 \<le> (of_char c :: nat) \<and> (of_char c :: nat) \<le> 90 then of_char c + 32 else of_char c)"
  by (simp add: c_tolower_def Let_def)

lemma c_tolower_eq_low: "(of_char ch :: nat) < 65 \<Longrightarrow> c_tolower c = ch \<longleftrightarrow> c = ch"
  using of_char_c_tolower [of c] by (auto simp: c_tolower_def Let_def split: if_splits)

text \<open>\<^verbatim>\<open>!strncasecmp(a, b, n)\<close>.\<close>

definition strncaseeq :: "nat \<Rightarrow> string \<Rightarrow> string \<Rightarrow> bool" where
  "strncaseeq n a b \<longleftrightarrow> strcaseeq (take n a) (take n b)"

lemma strcaseeq_refl [simp]: "strcaseeq a a"
  by (simp add: strcaseeq_def)

lemma strcaseeq_length: "strcaseeq a b \<Longrightarrow> length a = length b"
  by (auto simp: strcaseeq_def dest: map_eq_imp_length_eq)

text \<open>\<^verbatim>\<open>strchr\<close> and \<^verbatim>\<open>strrchr\<close>: the index of the first and of the last occurrence.\<close>

fun strchr :: "string \<Rightarrow> char \<Rightarrow> nat option" where
  "strchr [] c = None"
| "strchr (x # xs) c = (if x = c then Some 0 else map_option Suc (strchr xs c))"

fun strrchr :: "string \<Rightarrow> char \<Rightarrow> nat option" where
  "strrchr [] c = None"
| "strrchr (x # xs) c =
     (case strrchr xs c of Some i \<Rightarrow> Some (Suc i) | None \<Rightarrow> if x = c then Some 0 else None)"

lemma strchr_None_iff [c_string]: "strchr s c = None \<longleftrightarrow> c \<notin> set s"
  by (induction s) auto

lemma strrchr_None_iff [c_string]: "strrchr s c = None \<longleftrightarrow> c \<notin> set s"
  by (induction s) (auto split: option.splits)

lemma strchr_SomeD: "strchr s c = Some i \<Longrightarrow> i < length s \<and> s ! i = c \<and> c \<notin> set (take i s)"
  by (induction s arbitrary: i) (auto split: if_splits)

lemma strrchr_SomeD:
  "strrchr s c = Some i \<Longrightarrow> i < length s \<and> s ! i = c \<and> c \<notin> set (drop (Suc i) s)"
  by (induction s arbitrary: i)
    (auto split: if_splits option.splits simp: strrchr_None_iff)

lemma strchr_append [c_string]: "c \<notin> set a \<Longrightarrow> strchr (a @ c # b) c = Some (length a)"
  by (induction a) auto

lemma strrchr_append [c_string]: "c \<notin> set b \<Longrightarrow> strrchr (a @ c # b) c = Some (length a)"
proof -
  assume b: "c \<notin> set b"
  then have "strrchr (c # b) c = Some 0"
    by (auto simp: strrchr_None_iff split: option.splits dest: strrchr_SomeD)
  then show ?thesis by (induction a) auto
qed

text \<open>\<^verbatim>\<open>strsep(&s, "d")\<close> for a single delimiter: the token, and what the pointer is then.\<close>

definition strsep :: "char \<Rightarrow> string \<Rightarrow> string \<times> string option" where
  "strsep d s = (takeWhile (\<lambda>c. c \<noteq> d) s,
     (case dropWhile (\<lambda>c. c \<noteq> d) s of [] \<Rightarrow> None | _ # r \<Rightarrow> Some r))"

lemma strsep_shorter: "strsep d s = (t, Some r) \<Longrightarrow> length r < length s"
proof -
  assume "strsep d s = (t, Some r)"
  then obtain c where "dropWhile (\<lambda>c. c \<noteq> d) s = c # r"
    by (auto simp: strsep_def split: list.splits)
  then have "length (c # r) \<le> length s" by (metis length_dropWhile_le)
  then show ?thesis by simp
qed

lemma strsep_snd_shorter: "snd (strsep d s) = Some r \<Longrightarrow> length r < length s"
  by (rule strsep_shorter [of d s "fst (strsep d s)"]) (simp add: prod_eq_iff)

lemma strsep_last [c_string]:
  assumes "d \<notin> set s" shows "strsep d s = (s, None)"
proof -
  have "\<forall>x \<in> set s. x \<noteq> d" using assms by blast
  then have tw: "takeWhile (\<lambda>c. c \<noteq> d) s = s" and dw: "dropWhile (\<lambda>c. c \<noteq> d) s = []"
    by (simp_all add: takeWhile_eq_all_conv)
  show ?thesis unfolding strsep_def tw dw by simp
qed

lemma strsep_append [c_string]:
  assumes "d \<notin> set a" shows "strsep d (a @ d # b) = (a, Some b)"
proof -
  have "\<And>x. x \<in> set a \<Longrightarrow> x \<noteq> d" using assms by blast
  then have "takeWhile (\<lambda>c. c \<noteq> d) (a @ d # b) = a" "dropWhile (\<lambda>c. c \<noteq> d) (a @ d # b) = d # b"
    by (simp_all add: takeWhile_append2 dropWhile_append2)
  then show ?thesis by (simp add: strsep_def)
qed

text \<open>The characters \<^verbatim>\<open>isspace\<close> accepts in the C locale.\<close>

definition is_c_space :: "char \<Rightarrow> bool" where
  "is_c_space c = (let n = (of_char c :: nat) in 9 \<le> n \<and> n \<le> 13 \<or> n = 32)"

section \<open>Scanning and printing numbers\<close>

definition digit_val :: "char \<Rightarrow> nat" where
  "digit_val c = (let n = (of_char c :: nat) in
     if 48 \<le> n \<and> n \<le> 57 then n - 48
     else if 97 \<le> n \<and> n \<le> 122 then n - 87
     else if 65 \<le> n \<and> n \<le> 90 then n - 55
     else 255)"

definition is_digit_of :: "nat \<Rightarrow> char \<Rightarrow> bool" where
  "is_digit_of base c \<longleftrightarrow> digit_val c < base"

definition num_of :: "nat \<Rightarrow> string \<Rightarrow> nat" where
  "num_of base ds = foldl (\<lambda>n c. n * base + digit_val c) 0 ds"

text \<open>The optional sign, and the optional \<^verbatim>\<open>0x\<close> of base 16, which counts only when a digit
  follows it.\<close>

fun scan_sign :: "string \<Rightarrow> bool \<times> string" where
  "scan_sign [] = (False, [])"
| "scan_sign (c # r) =
     (if c = CHR ''-'' then (True, r) else if c = CHR ''+'' then (False, r) else (False, c # r))"

definition scan_prefix :: "nat \<Rightarrow> string \<Rightarrow> string" where
  "scan_prefix base s =
     (case s of z # x # d # r \<Rightarrow>
        if base = 16 \<and> z = CHR ''0'' \<and> c_tolower x = CHR ''x'' \<and> is_digit_of 16 d
        then d # r else s
      | _ \<Rightarrow> s)"

text \<open>
  \<^verbatim>\<open>strtoul\<close> and \<^verbatim>\<open>strtoull\<close> at \<open>w\<close> bits: the value and the rest of the string, which
  \<^verbatim>\<open>*end\<close> points to.  White space and a sign are skipped, a value too large saturates, a
  minus sign negates modulo \<open>2 ^ w\<close>, and without digits the result is 0 with nothing consumed.
\<close>

definition strtou :: "nat \<Rightarrow> nat \<Rightarrow> string \<Rightarrow> nat \<times> string" where
  "strtou w base s =
     (let (neg, s1) = scan_sign (dropWhile is_c_space s);
          s2 = scan_prefix base s1;
          ds = takeWhile (is_digit_of base) s2;
          v = num_of base ds
      in if ds = [] then (0, s)
         else (if 2 ^ w \<le> v then 2 ^ w - 1 else if neg then (2 ^ w - v) mod 2 ^ w else v,
               dropWhile (is_digit_of base) s2))"

abbreviation strtoul :: "nat \<Rightarrow> string \<Rightarrow> nat \<times> string" where
  "strtoul \<equiv> strtou 64"

abbreviation strtoull :: "nat \<Rightarrow> string \<Rightarrow> nat \<times> string" where
  "strtoull \<equiv> strtou 64"

text \<open>\<^verbatim>\<open>strtoll\<close>: the signed scanner, which saturates at both ends.\<close>

definition strtoll :: "nat \<Rightarrow> string \<Rightarrow> int \<times> string" where
  "strtoll base s =
     (let (neg, s1) = scan_sign (dropWhile is_c_space s);
          s2 = scan_prefix base s1;
          ds = takeWhile (is_digit_of base) s2;
          v = (if neg then - int (num_of base ds) else int (num_of base ds))
      in if ds = [] then (0, s)
         else (max (- (2 ^ 63)) (min (2 ^ 63 - 1) v), dropWhile (is_digit_of base) s2))"

lemma strtou_bound: "fst (strtou w base s) < 2 ^ w"
  by (auto simp: strtou_def Let_def split: prod.splits)

text \<open>Printing in a base: \<^verbatim>\<open>%u\<close>, \<^verbatim>\<open>%llu\<close> and \<^verbatim>\<open>%x\<close>.\<close>

definition digit_char :: "nat \<Rightarrow> char" where
  "digit_char d = char_of (if d < 10 then 48 + d else 87 + d)"

fun print_num :: "nat \<Rightarrow> nat \<Rightarrow> string" where
  "print_num base n =
     (if n < base \<or> base < 2 then [digit_char n]
      else print_num base (n div base) @ [digit_char (n mod base)])"

declare print_num.simps [simp del]

abbreviation udec :: "nat \<Rightarrow> string" where "udec \<equiv> print_num 10"
abbreviation uhex :: "nat \<Rightarrow> string" where "uhex \<equiv> print_num 16"

lemma digit_val_digit_char [c_num]:
  "d < 16 \<Longrightarrow> digit_val (digit_char d) = d"
  by (simp add: digit_val_def digit_char_def Let_def)

lemma num_of_snoc: "num_of base (ds @ [c]) = num_of base ds * base + digit_val c"
  by (simp add: num_of_def)

lemma print_num_induct [consumes 1, case_names small step]:
  assumes "2 \<le> base"
    and small: "\<And>n. n < base \<Longrightarrow> P n"
    and step: "\<And>n. base \<le> n \<Longrightarrow> P (n div base) \<Longrightarrow> P n"
  shows "P (n::nat)"
proof (induction n rule: less_induct)
  case (less n)
  show ?case
  proof (cases "n < base")
    case False
    with assms(1) have "n div base < n" by simp
    with less False step show ?thesis by simp
  qed (rule small)
qed

lemma print_num_small: "n < base \<Longrightarrow> print_num base n = [digit_char n]"
  by (simp add: print_num.simps)

lemma print_num_step:
  "2 \<le> base \<Longrightarrow> base \<le> n \<Longrightarrow>
   print_num base n = print_num base (n div base) @ [digit_char (n mod base)]"
  by (subst print_num.simps) simp

lemma num_of_print_num [c_num]:
  assumes "2 \<le> base" "base \<le> 16"
  shows "num_of base (print_num base n) = n"
  using assms(1)
proof (induction n rule: print_num_induct)
  case (small n)
  with assms show ?case by (simp add: print_num_small num_of_def digit_val_digit_char)
next
  case (step n)
  have "n mod base < base" using assms by simp
  then have "n mod base < 16" using assms(2) by (rule order_less_le_trans)
  with step assms show ?case
    by (simp add: print_num_step num_of_snoc digit_val_digit_char)
qed

lemma print_num_digits [c_num]:
  assumes "2 \<le> base" "base \<le> 16"
  shows "list_all (is_digit_of base) (print_num base n)"
  using assms(1)
proof (induction n rule: print_num_induct)
  case (small n)
  with assms show ?case by (simp add: print_num_small is_digit_of_def digit_val_digit_char)
next
  case (step n)
  have m: "n mod base < base" using assms by simp
  then have "n mod base < 16" using assms(2) by (rule order_less_le_trans)
  with step m assms show ?case
    by (simp add: print_num_step is_digit_of_def digit_val_digit_char)
qed

lemma print_num_nonempty [simp]: "print_num base n \<noteq> []"
  by (subst print_num.simps) simp

text \<open>Scanning what was printed: digits are neither white space nor signs.\<close>

lemma is_digit_of_bounds:
  "is_digit_of base c \<Longrightarrow> base \<le> 16 \<Longrightarrow> \<not> is_c_space c \<and> c \<noteq> CHR ''-'' \<and> c \<noteq> CHR ''+''"
  by (auto simp: is_digit_of_def digit_val_def is_c_space_def Let_def split: if_splits)

lemma scan_digits:
  assumes "base \<le> 16" "list_all (is_digit_of base) ds" "ds \<noteq> []"
    and "\<And>c r. rest = c # r \<Longrightarrow> \<not> is_digit_of base c"
    and "scan_prefix base (ds @ rest) = ds @ rest"
  shows "strtou w base (ds @ rest) =
    (if 2 ^ w \<le> num_of base ds then 2 ^ w - 1 else num_of base ds, rest)"
proof -
  from assms(2,3) obtain d ds' where ds: "ds = d # ds'" "is_digit_of base d"
    by (cases ds) auto
  with is_digit_of_bounds [OF ds(2) assms(1)]
  have sign: "scan_sign (dropWhile is_c_space (ds @ rest)) = (False, ds @ rest)" by simp
  have all: "\<forall>x \<in> set ds. is_digit_of base x" using assms(2) by (simp add: list_all_iff)
  have rest: "takeWhile (is_digit_of base) rest = []" "dropWhile (is_digit_of base) rest = rest"
    using assms(4) by (cases rest; simp)+
  have "takeWhile (is_digit_of base) (ds @ rest) = ds" "dropWhile (is_digit_of base) (ds @ rest) = rest"
    using all rest by (simp_all add: takeWhile_append2 dropWhile_append2)
  with sign assms(3,5) show ?thesis by (simp add: strtou_def)
qed

lemma scan_prefix_10 [simp]: "scan_prefix 10 s = s"
  by (simp add: scan_prefix_def split: list.splits)

lemma strtou_udec [c_num]:
  assumes "n < 2 ^ w" and "\<And>c r. rest = c # r \<Longrightarrow> \<not> is_digit_of 10 c"
  shows "strtou w 10 (udec n @ rest) = (n, rest)"
  using assms scan_digits [of 10 "udec n" rest w] print_num_digits [of 10 n] num_of_print_num [of 10 n]
  by simp

lemma strtou_udec_all [c_num]: "n < 2 ^ w \<Longrightarrow> strtou w 10 (udec n) = (n, [])"
  using strtou_udec [of n w "[]"] by simp

lemma strtou_0x:
  assumes "list_all (is_digit_of 16) ds" "ds \<noteq> []"
  shows "strtou w 16 (CHR ''0'' # CHR ''x'' # ds) =
    (if 2 ^ w \<le> num_of 16 ds then 2 ^ w - 1 else num_of 16 ds, [])"
proof -
  from assms obtain d ds' where ds: "ds = d # ds'" "is_digit_of 16 d" by (cases ds) auto
  have x: "c_tolower CHR ''x'' = CHR ''x''" by (simp add: c_tolower_def)
  have z: "\<not> is_c_space CHR ''0''" by (simp add: is_c_space_def)
  have all: "\<forall>x \<in> set ds. is_digit_of 16 x" using assms(1) by (simp add: list_all_iff)
  then have tw: "takeWhile (is_digit_of 16) ds' = ds'" and dw: "dropWhile (is_digit_of 16) ds' = []"
    by (simp_all add: takeWhile_eq_all_conv ds(1))
  show ?thesis
    using ds(2) by (simp add: strtou_def z scan_prefix_def ds(1) x Let_def tw dw)
qed

lemma strtou_uhex [c_num]: "n < 2 ^ w \<Longrightarrow> strtou w 16 (CHR ''0'' # CHR ''x'' # uhex n) = (n, [])"
  using strtou_0x [of "uhex n" w] print_num_digits [of 16 n] num_of_print_num [of 16 n] by simp

text \<open>A scan that starts on a digit and reaches the end has read nothing but digits.\<close>

lemma strtou_10_all:
  assumes "strtou w 10 (c # s) = (v, [])" "is_digit_of 10 c"
  shows "list_all (is_digit_of 10) (c # s)"
    and "v = (if 2 ^ w \<le> num_of 10 (c # s) then 2 ^ w - 1 else num_of 10 (c # s))"
proof -
  from is_digit_of_bounds [OF assms(2)] have "\<not> is_c_space c" "c \<noteq> CHR ''-''" "c \<noteq> CHR ''+''" by simp_all
  with assms have "dropWhile (is_digit_of 10) s = []"
    by (simp add: strtou_def Let_def)
  with assms(2) show all: "list_all (is_digit_of 10) (c # s)"
    by (simp add: dropWhile_eq_Nil_conv list_all_iff)
  then show "v = (if 2 ^ w \<le> num_of 10 (c # s) then 2 ^ w - 1 else num_of 10 (c # s))"
    using scan_digits [of 10 "c # s" "[]" w] assms(1) by simp
qed

lemma strtou_16_all:
  assumes "strtou w 16 (CHR ''0'' # CHR ''x'' # s) = (v, [])"
  shows "list_all (is_digit_of 16) s" and "s \<noteq> []"
    and "v = (if 2 ^ w \<le> num_of 16 s then 2 ^ w - 1 else num_of 16 s)"
proof -
  have z: "\<not> is_c_space CHR ''0''" "is_digit_of 16 CHR ''0''" "\<not> is_digit_of 16 CHR ''x''"
    by (simp_all add: is_c_space_def is_digit_of_def digit_val_def)
  have x: "c_tolower CHR ''x'' = CHR ''x''" by (simp add: c_tolower_def)
  obtain d r where s: "s = d # r" and d: "is_digit_of 16 d"
  proof (cases s)
    case Nil
    with assms z show ?thesis by (simp add: strtou_def scan_prefix_def Let_def)
  next
    case (Cons d r)
    with assms z x that show ?thesis
      by (cases "is_digit_of 16 d") (simp_all add: strtou_def scan_prefix_def Let_def)
  qed
  with assms z x have "dropWhile (is_digit_of 16) r = []"
    by (simp add: strtou_def scan_prefix_def Let_def)
  with s d show all: "list_all (is_digit_of 16) s" by (simp add: dropWhile_eq_Nil_conv list_all_iff)
  show ne: "s \<noteq> []" by (simp add: s)
  show "v = (if 2 ^ w \<le> num_of 16 s then 2 ^ w - 1 else num_of 16 s)"
    using strtou_0x [OF all ne, of w] assms by simp
qed

section \<open>Numbers in memory\<close>

text \<open>A number as bytes with the least significant one first.\<close>

fun le_bytes :: "nat \<Rightarrow> nat \<Rightarrow> bytes" where
  "le_bytes 0 v = []"
| "le_bytes (Suc n) v = of_nat v # le_bytes n (v div 256)"

fun of_le :: "bytes \<Rightarrow> nat" where
  "of_le [] = 0"
| "of_le (b # bs) = unat b + 256 * of_le bs"

lemma length_le_bytes [simp]: "length (le_bytes n v) = n"
  by (induction n arbitrary: v) simp_all

lemma of_le_le_bytes: "of_le (le_bytes n v) = v mod 256 ^ n"
proof (induction n arbitrary: v)
  case (Suc n)
  have "unat (of_nat v :: u8) = v mod 256" by (simp add: unat_of_nat)
  moreover have "v mod (256 * 256 ^ n) = 256 * (v div 256 mod 256 ^ n) + v mod 256" by (simp add: mod_mult2_eq)
  ultimately show ?case by (simp add: Suc)
qed simp

lemma of_le_less: "of_le bs < 256 ^ length bs"
proof (induction bs)
  case (Cons b bs)
  have "unat b < 256" using unsigned_less [of b, where 'a = nat] by simp
  with Cons show ?case by simp
qed simp

lemma of_le_append: "of_le (a @ b) = of_le a + 256 ^ length a * of_le b"
  by (induction a) (simp_all add: algebra_simps)

end
