(* ===== verification/Ctype.thy ===== *)
theory Ctype
  imports Prelude
begin

text \<open>
  The character classes of \<^verbatim>\<open>ctype.h\<close>: branch-free reimplementations on the promoted
  \<^verbatim>\<open>int\<close>, with the wrap-around of the unsigned and the \<^verbatim>\<open>unsigned char\<close> conversions
  kept.  Each is the plain character class, on every byte, for signed and for unsigned
  \<^verbatim>\<open>char\<close>, and on \<^verbatim>\<open>EOF\<close>.
\<close>

section \<open>The classes as the header computes them\<close>

definition char_is_space :: "i32 \<Rightarrow> bool" where
  "char_is_space c =
     (let d = (ucast (c - 9) :: u8) in
      drop_bit (unat (d AND 31)) (0x80001F :: u32) AND drop_bit (unat (drop_bit 5 d)) 1 \<noteq> 0)"

definition char_is_digit :: "i32 \<Rightarrow> bool" where
  "char_is_digit c = (drop_bit 31 ((48 - 1 - c) AND (c - (57 + 1))) \<noteq> 0)"

definition char_is_alpha :: "i32 \<Rightarrow> bool" where
  "char_is_alpha c = (drop_bit 31 ((97 - 1 - (c OR 32)) AND ((c OR 32) - (122 + 1))) \<noteq> 0)"

section \<open>The classes as sets of characters\<close>

definition is_c_digit :: "char \<Rightarrow> bool" where
  "is_c_digit c = (let n = (of_char c :: nat) in 48 \<le> n \<and> n \<le> 57)"

definition is_c_alpha :: "char \<Rightarrow> bool" where
  "is_c_alpha c = (let n = (of_char c :: nat) in 65 \<le> n \<and> n \<le> 90 \<or> 97 \<le> n \<and> n \<le> 122)"

lemma is_c_digit_iff: "is_c_digit c \<longleftrightarrow> is_digit_of 10 c"
  by (auto simp: is_c_digit_def is_digit_of_def digit_val_def Let_def)

text \<open>On a small \<^verbatim>\<open>int\<close> each class is a comparison with the bounds of its ranges.\<close>

lemma space_byte:
  "drop_bit (unat ((d::u8) AND 31)) (0x80001F :: u32) AND drop_bit (unat (drop_bit 5 d)) 1 \<noteq> 0
   \<longleftrightarrow> unat d \<in> {0, 1, 2, 3, 4, 23}" (is "?e d \<noteq> 0 \<longleftrightarrow> _")
proof (cases "unat d < 32")
  case True
  have "\<forall>n \<in> set [0..<32]. ?e (of_nat n) \<noteq> 0 \<longleftrightarrow> n \<in> {0, 1, 2, 3, 4, 23}"
    by (simp add: upt_rec)
  moreover have "unat d \<in> set [0..<32]" using True by simp
  ultimately have "?e (of_nat (unat d)) \<noteq> 0 \<longleftrightarrow> unat d \<in> {0, 1, 2, 3, 4, 23}" by (rule bspec)
  then show ?thesis by (simp only: of_nat_unat ucast_id)
next
  case False
  have "unat (drop_bit 5 d) = unat d div 32" using unsigned_less [of d, where 'a = nat]
    by (simp only: unsigned_drop_bit_eq) (simp add: drop_bit_eq_div take_bit_nat_eq_self)
  with False have "0 < unat (drop_bit 5 d)" by simp
  then have "drop_bit (unat (drop_bit 5 d)) (1 :: u32) = 0" by simp
  with False show ?thesis by auto
qed

lemma char_is_space_small:
  assumes "- 128 \<le> k" "k < 256"
  shows "char_is_space (word_of_int k) \<longleftrightarrow> 9 \<le> k \<and> k \<le> 13 \<or> k = 32"
proof -
  let ?d = "ucast ((word_of_int k :: i32) - 9) :: u8"
  have "(word_of_int k :: i32) - 9 = word_of_int (k - 9)" by simp
  then have "?d = word_of_int (k - 9)"
    by (simp only: ucast_eq uint_word_of_int_eq word_of_int_eq_iff take_bit_take_bit) simp
  then have u: "int (unat ?d) = (k - 9) mod 256"
    by (simp only: uint_nat [symmetric] uint_word_of_int) simp
  have k9: "(k - 9) mod 256 = (if 9 \<le> k then k - 9 else k + 247)"
  proof (cases "9 \<le> k")
    case True
    with assms show ?thesis by simp
  next
    case False
    have "(k - 9) mod 256 = (k - 9 + 256) mod 256" by (rule mod_add_self2 [symmetric])
    also have "\<dots> = k - 9 + 256" using False assms by (intro mod_pos_pos_trivial) auto
    finally show ?thesis using False by simp
  qed
  define n where "n = unat ?d"
  have "n \<in> {0, 1, 2, 3, 4, 23} \<longleftrightarrow> 9 \<le> k \<and> k \<le> 13 \<or> k = 32"
    using u [folded n_def, unfolded k9] assms by (auto split: if_splits)
  then show ?thesis
    unfolding char_is_space_def Let_def space_byte n_def .
qed

lemma char_is_digit_small:
  assumes "- 128 \<le> k" "k < 256"
  shows "char_is_digit (word_of_int k) \<longleftrightarrow> 48 \<le> k \<and> k \<le> 57"
proof -
  have "char_is_digit (word_of_int k) =
      (drop_bit 31 (word_of_int (47 - k) AND word_of_int (k - 58) :: i32) \<noteq> 0)"
    by (simp add: char_is_digit_def)
  with assms show ?thesis by (subst (asm) sign_and_small) auto
qed

lemma or_32_range: "0 \<le> k \<Longrightarrow> k < 256 \<Longrightarrow>
  97 \<le> k OR 32 \<and> k OR 32 \<le> (122::int) \<longleftrightarrow> 65 \<le> k \<and> k \<le> 90 \<or> 97 \<le> k \<and> k \<le> 122"
proof -
  assume "0 \<le> k" "k < 256"
  then have "k \<in> set [0..255]" by simp
  moreover have "\<forall>k \<in> set [0..255]. 97 \<le> k OR 32 \<and> k OR 32 \<le> (122::int)
      \<longleftrightarrow> 65 \<le> k \<and> k \<le> 90 \<or> 97 \<le> k \<and> k \<le> 122"
    by (simp add: upto_rec1)
  ultimately show ?thesis by blast
qed

lemma or_32_small: "- 128 \<le> k \<Longrightarrow> k < 256 \<Longrightarrow> - 128 \<le> k OR 32 \<and> k OR 32 < (256::int)"
proof -
  assume k: "- 128 \<le> k" "k < 256"
  have "k OR 32 < 256"
  proof (cases "0 \<le> k")
    case True
    with k OR_upper [of k 8 32] show ?thesis by simp
  next
    case False
    then have "k OR 32 < 0" by simp
    then show ?thesis by linarith
  qed
  with k or_greater_eq [of 32 k] show ?thesis by simp
qed

lemma char_is_alpha_small:
  assumes "- 128 \<le> k" "k < 256"
  shows "char_is_alpha (word_of_int k) \<longleftrightarrow> 65 \<le> k \<and> k \<le> 90 \<or> 97 \<le> k \<and> k \<le> 122"
proof -
  have o: "(word_of_int k :: i32) OR 32 = word_of_int (k OR 32)"
    by (rule bit_word_eqI) (simp add: bit_or_iff bit_word_of_int_iff)
  have "char_is_alpha (word_of_int k) =
      (drop_bit 31 (word_of_int (96 - (k OR 32)) AND word_of_int ((k OR 32) - 123) :: i32) \<noteq> 0)"
    by (simp add: char_is_alpha_def o)
  then have "char_is_alpha (word_of_int k) \<longleftrightarrow> 97 \<le> k OR 32 \<and> k OR 32 \<le> 122"
    using or_32_small [OF assms] by (subst (asm) sign_and_small) auto
  moreover have "k < 0 \<Longrightarrow> \<not> 97 \<le> k OR 32"
    using or_negative_int_iff [of k 32] by linarith
  ultimately show ?thesis
    using assms or_32_range [of k] by (cases "0 \<le> k") auto
qed

lemma char_ord_range: "- 128 \<le> char_ord c" "char_ord c < 256"
  using of_char_int_range [of c] by (auto simp: char_ord_def Let_def)

lemma of_char_int_nat: "(of_char c :: int) = int (of_char c)"
  by (simp only: of_nat_of_char)

lemmas char_class_defs = char_ord_def Let_def is_c_space_def is_c_digit_def is_c_alpha_def

lemma char_class_char [simp]:
  "char_is_space (char_int c) = is_c_space c"
  "char_is_digit (char_int c) = is_c_digit c"
  "char_is_alpha (char_int c) = is_c_alpha c"
proof -
  define n where "n = (of_char c :: nat)"
  then have "n < 256" and i: "(of_char c :: int) = int n" by (simp_all add: of_char_int_nat)
  then show "char_is_space (char_int c) = is_c_space c"
    "char_is_digit (char_int c) = is_c_digit c"
    "char_is_alpha (char_int c) = is_c_alpha c"
    unfolding char_int_eq char_is_space_small [OF char_ord_range]
      char_is_digit_small [OF char_ord_range] char_is_alpha_small [OF char_ord_range]
    by (auto simp: char_class_defs i n_def [symmetric])
qed

lemma char_class_uchar [simp]:
  "char_is_space (uchar_int c) = is_c_space c"
  "char_is_digit (uchar_int c) = is_c_digit c"
  "char_is_alpha (uchar_int c) = is_c_alpha c"
proof -
  have r: "- 128 \<le> (of_char c :: int)" "of_char c < (256::int)"
    using of_char_int_range [of c] by simp_all
  note small = char_is_space_small [OF r] char_is_digit_small [OF r] char_is_alpha_small [OF r]
  show "char_is_space (uchar_int c) = is_c_space c"
    "char_is_digit (uchar_int c) = is_c_digit c"
    "char_is_alpha (uchar_int c) = is_c_alpha c"
    unfolding uchar_int_eq small by (auto simp: char_class_defs of_char_int_nat)
qed

text \<open>\<^verbatim>\<open>EOF\<close> is in no class.\<close>

lemma char_classes_EOF:
  "\<not> char_is_space (- 1)" "\<not> char_is_digit (- 1)" "\<not> char_is_alpha (- 1)"
  by (simp_all add: char_is_space_def char_is_digit_def char_is_alpha_def)

lemma is_c_digit_not_space: "is_c_digit c \<Longrightarrow> \<not> is_c_space c"
  by (auto simp: is_c_digit_def is_c_space_def Let_def)

section \<open>Properties\<close>

text \<open>The three classification functions agree with the C locale on every character, whether
  \<^verbatim>\<open>char\<close> is signed or not, and refuse the end-of-file value.\<close>

theorem ctype_classifies:
  "char_is_space (char_int c) = is_c_space c \<and> char_is_digit (char_int c) = is_c_digit c \<and>
   char_is_alpha (char_int c) = is_c_alpha c \<and>
   char_is_space (uchar_int c) = is_c_space c \<and> char_is_digit (uchar_int c) = is_c_digit c \<and>
   char_is_alpha (uchar_int c) = is_c_alpha c \<and>
   \<not> char_is_space (- 1) \<and> \<not> char_is_digit (- 1) \<and> \<not> char_is_alpha (- 1)"
  by (simp add: char_classes_EOF)

end
