(* ===== verification/Encoding.thy ===== *)
theory Encoding
  imports Ctype
begin

text \<open>
  \<^verbatim>\<open>encoding.c\<close>: the constant-time base64 and hexadecimal codecs of keys.  The definitions keep
  the branch-free arithmetic of the source at its widths (\<^verbatim>\<open>int\<close> and \<^verbatim>\<open>unsigned int\<close>
  are 32 bits, a right shift of an \<^verbatim>\<open>int\<close> is arithmetic).  The decoders return the key, or
  nothing where the C function returns false and leaves the key unspecified.
\<close>

abbreviation (input) WG_KEY_LEN :: nat where "WG_KEY_LEN \<equiv> 32"
abbreviation (input) WG_KEY_LEN_BASE64 :: nat where "WG_KEY_LEN_BASE64 \<equiv> ((WG_KEY_LEN + 2) div 3) * 4 + 1"
abbreviation (input) WG_KEY_LEN_HEX :: nat where "WG_KEY_LEN_HEX \<equiv> WG_KEY_LEN * 2 + 1"

section \<open>Base64\<close>

definition encode_base64_digit :: "u8 \<Rightarrow> char" where
  "encode_base64_digit x =
     (let v = (ucast x :: i32) in
      byte_char (ucast (v + 65
        + (signed_drop_bit 8 (25 - v) AND 6)
        - (signed_drop_bit 8 (51 - v) AND 75)
        - (signed_drop_bit 8 (61 - v) AND 15)
        + (signed_drop_bit 8 (62 - v) AND 3))))"

definition encode_base64 :: "bytes \<Rightarrow> string" where
  "encode_base64 src =
     (let s = (\<lambda>i. (ucast (src ! i) :: i32));
          input = [ucast (signed_drop_bit 2 (s 0) AND 63),
                   ucast ((push_bit 4 (s 0) OR signed_drop_bit 4 (s 1)) AND 63),
                   ucast ((push_bit 2 (s 1) OR signed_drop_bit 6 (s 2)) AND 63),
                   ucast (s 2 AND 63)]
      in map encode_base64_digit input)"

text \<open>The loop fills 40 characters, the last call four more, and the padding replaces the last.\<close>

definition key_to_base64 :: "bytes \<Rightarrow> string" where
  "key_to_base64 key =
     (concat (map (\<lambda>i. encode_base64 (take 3 (drop (i * 3) key))) [0..<WG_KEY_LEN div 3])
        @ encode_base64 [key ! 30, key ! 31, 0])
     [WG_KEY_LEN_BASE64 - 2 := CHR ''='']"

definition decode_base64_digit :: "i32 \<Rightarrow> i32" where
  "decode_base64_digit c =
     - 1
     + (signed_drop_bit 8 (((65 - 1) - c) AND (c - (90 + 1))) AND (c - 64))
     + (signed_drop_bit 8 (((97 - 1) - c) AND (c - (122 + 1))) AND (c - 70))
     + (signed_drop_bit 8 (((48 - 1) - c) AND (c - (57 + 1))) AND (c + 5))
     + (signed_drop_bit 8 (((43 - 1) - c) AND (c - (43 + 1))) AND 63)
     + (signed_drop_bit 8 (((47 - 1) - c) AND (c - (47 + 1))) AND 64)"

definition decode_base64 :: "string \<Rightarrow> i32" where
  "decode_base64 src =
     foldl (\<lambda>val i. val OR push_bit (18 - 6 * i) (decode_base64_digit (char_int (src ! i)))) 0 [0..<4]"

text \<open>\<^verbatim>\<open>1 & ((ret - 1) >> 8)\<close> on the accumulated error byte.\<close>

definition ret_is_zero :: "u8 \<Rightarrow> bool" where
  "ret_is_zero ret = (1 AND signed_drop_bit 8 ((ucast ret :: i32) - 1) \<noteq> 0)"

definition key_from_base64 :: "string \<Rightarrow> bytes option" where
  "key_from_base64 base64 =
     (if length base64 \<noteq> WG_KEY_LEN_BASE64 - 1 \<or> base64 ! (WG_KEY_LEN_BASE64 - 2) \<noteq> CHR ''=''
      then None
      else
        let (ret, key) = foldl (\<lambda>(ret, key) i.
              let val = decode_base64 (take 4 (drop (i * 4) base64)) in
              (ret OR ucast (drop_bit 31 val),
               key @ [ucast (signed_drop_bit 16 val AND 0xff),
                      ucast (signed_drop_bit 8 val AND 0xff),
                      ucast (val AND 0xff)])) (0, []) [0..<WG_KEY_LEN div 3];
            val = decode_base64 [base64 ! 40, base64 ! 41, base64 ! 42, CHR ''A''];
            ret = ret OR ucast (drop_bit 31 val OR (val AND 0xff));
            key = key @ [ucast (signed_drop_bit 16 val AND 0xff),
                         ucast (signed_drop_bit 8 val AND 0xff)]
        in if ret_is_zero ret then Some key else None)"

section \<open>Hexadecimal\<close>

text \<open>A nibble is promoted to \<^verbatim>\<open>unsigned int\<close>, so both shifts are logical.\<close>

definition hex_digit :: "u32 \<Rightarrow> char" where
  "hex_digit x = byte_char (ucast (87 + x + (drop_bit 8 (x - 10) AND NOT 38)))"

definition key_to_hex :: "bytes \<Rightarrow> string" where
  "key_to_hex key = concat (map (\<lambda>b.
     [hex_digit (drop_bit 4 (ucast b)), hex_digit (ucast b AND 0xf)]) key)"

text \<open>One character of \<^verbatim>\<open>key_from_hex\<close>: the value \<^verbatim>\<open>c_val\<close> and the error bits.\<close>

definition hex_nibble :: "char \<Rightarrow> u8 \<times> u8" where
  "hex_nibble ch =
     (let c = char_byte ch;
          c_num = (ucast ((ucast c :: u32) XOR 48) :: u8);
          c_num0 = (ucast (drop_bit 8 ((ucast c_num :: u32) - 10)) :: u8);
          c_alpha = (ucast (((ucast c :: u32) AND NOT 32) - 55) :: u8);
          c_alpha0 = (ucast (drop_bit 8 (((ucast c_alpha :: u32) - 10) XOR ((ucast c_alpha :: u32) - 16))) :: u8);
          err = (ucast (signed_drop_bit 8 ((ucast (c_num0 OR c_alpha0) :: i32) - 1)) :: u8)
      in ((c_num0 AND c_num) OR (c_alpha0 AND c_alpha), err))"

definition key_from_hex :: "string \<Rightarrow> bytes option" where
  "key_from_hex hex =
     (if length hex \<noteq> WG_KEY_LEN_HEX - 1 then None
      else
        let (ret, key) = foldl (\<lambda>(ret, key) i.
              let (v, e) = hex_nibble (hex ! (2 * i));
                  c_acc = v * 16;
                  (v', e') = hex_nibble (hex ! (2 * i + 1))
              in (ret OR e OR e', key @ [c_acc OR v'])) (0, []) [0..<WG_KEY_LEN]
        in if ret_is_zero ret then Some key else None)"

definition key_is_zero :: "bytes \<Rightarrow> bool" where
  "key_is_zero key = ret_is_zero (foldl (OR) 0 key)"

section \<open>The reference tables\<close>

text \<open>The base64 alphabet, and the value of a character by the ranges of the alphabet.\<close>

definition base64_alphabet :: string where
  "base64_alphabet = ''ABCDEFGHIJKLMNOPQRSTUVWXYZabcdefghijklmnopqrstuvwxyz0123456789+/''"

definition base64_value :: "int \<Rightarrow> int option" where
  "base64_value k =
     (if 65 \<le> k \<and> k \<le> 90 then Some (k - 65)
      else if 97 \<le> k \<and> k \<le> 122 then Some (k - 71)
      else if 48 \<le> k \<and> k \<le> 57 then Some (k + 4)
      else if k = 43 then Some 62
      else if k = 47 then Some 63
      else None)"

definition base64_code :: "int \<Rightarrow> int" where
  "base64_code v =
     (if v < 26 then v + 65 else if v < 52 then v + 71 else if v < 62 then v - 4
      else if v = 62 then 43 else 47)"

lemma length_base64_alphabet: "length base64_alphabet = 64"
  by (simp add: base64_alphabet_def)

lemma base64_alphabet_code:
  assumes "n < 64" shows "of_char (base64_alphabet ! n) = base64_code (int n)"
proof -
  have "map of_char base64_alphabet = map base64_code (map int [0..<64])"
    by (simp add: base64_alphabet_def base64_code_def upt_rec)
  then have "map of_char base64_alphabet ! n = map base64_code (map int [0..<64]) ! n" by simp
  with assms show ?thesis by (simp add: length_base64_alphabet)
qed

lemma base64_value_code: "0 \<le> v \<Longrightarrow> v < 64 \<Longrightarrow> base64_value (base64_code v) = Some v"
  by (auto simp: base64_value_def base64_code_def)

lemma base64_code_value: "base64_value k = Some v \<Longrightarrow> base64_code v = k \<and> 0 \<le> v \<and> v < 64"
  by (auto simp: base64_value_def base64_code_def split: if_splits)

lemma base64_code_range: "0 \<le> v \<Longrightarrow> v < 64 \<Longrightarrow> 43 \<le> base64_code v \<and> base64_code v \<le> 122"
  by (auto simp: base64_code_def)

section \<open>The branch-free digits are the tables\<close>

lemma byte_char_of_int:
  assumes "0 \<le> k" "k < 256"
  shows "of_char (byte_char (ucast (word_of_int k :: i32))) = k"
proof -
  have "uint (ucast (word_of_int k :: i32) :: u8) = k"
    using assms by (simp add: ucast_eq uint_word_of_int)
  then have "unat (ucast (word_of_int k :: i32) :: u8) = nat k"
    by (simp add: unat_eq_nat_uint)
  with assms have "(of_char (byte_char (ucast (word_of_int k :: i32))) :: nat) = nat k"
    by (simp add: byte_char_def)
  with assms show ?thesis by (simp add: of_char_int_nat)
qed

lemma encode_base64_digit_code:
  assumes "unat x < 64"
  shows "of_char (encode_base64_digit x) = base64_code (uint x)"
proof -
  define v where "v = uint x"
  have "v = int (unat x)" unfolding v_def by (rule uint_nat)
  then have v: "0 \<le> v" "v < 64" using assms by linarith+
  have x: "(ucast x :: i32) = word_of_int v" unfolding v_def by (rule ucast_eq)
  have m: "signed_drop_bit 8 (25 - word_of_int v :: i32) = (if 25 < v then - 1 else 0)"
    "signed_drop_bit 8 (51 - word_of_int v :: i32) = (if 51 < v then - 1 else 0)"
    "signed_drop_bit 8 (61 - word_of_int v :: i32) = (if 61 < v then - 1 else 0)"
    "signed_drop_bit 8 (62 - word_of_int v :: i32) = (if 62 < v then - 1 else 0)"
    using v asr8_small [of "25 - v"] asr8_small [of "51 - v"] asr8_small [of "61 - v"]
      asr8_small [of "62 - v"] by simp_all
  have "encode_base64_digit x = byte_char (ucast (word_of_int (base64_code v) :: i32))"
  proof -
    consider "v < 26" | "26 \<le> v" "v < 52" | "52 \<le> v" "v < 62" | "v = 62" | "v = 63"
      using v by linarith
    then show ?thesis
      unfolding encode_base64_digit_def Let_def x m by cases (simp_all add: base64_code_def, simp only: add.commute)
  qed
  with byte_char_of_int [of "base64_code v"] base64_code_range [OF v] show ?thesis
    by (simp add: v_def)
qed

lemma encode_base64_digit_table:
  assumes "unat x < 64" shows "encode_base64_digit x = base64_alphabet ! unat x"
proof -
  have "of_char (encode_base64_digit x) = (of_char (base64_alphabet ! unat x) :: int)"
    using assms by (simp add: encode_base64_digit_code base64_alphabet_code)
  then show ?thesis by (simp only: of_char_eq_iff)
qed

lemma decode_base64_digit_small:
  assumes "- 128 \<le> k" "k < 256"
  shows "decode_base64_digit (word_of_int k) =
    word_of_int (case base64_value k of Some v \<Rightarrow> v | None \<Rightarrow> - 1)"
proof -
  have m: "signed_drop_bit 8 ((64 - word_of_int k) AND (word_of_int k - 91) :: i32)
      = (if 64 < k \<and> k < 91 then - 1 else 0)"
    "signed_drop_bit 8 ((96 - word_of_int k) AND (word_of_int k - 123) :: i32)
      = (if 96 < k \<and> k < 123 then - 1 else 0)"
    "signed_drop_bit 8 ((47 - word_of_int k) AND (word_of_int k - 58) :: i32)
      = (if 47 < k \<and> k < 58 then - 1 else 0)"
    "signed_drop_bit 8 ((42 - word_of_int k) AND (word_of_int k - 44) :: i32)
      = (if 42 < k \<and> k < 44 then - 1 else 0)"
    "signed_drop_bit 8 ((46 - word_of_int k) AND (word_of_int k - 48) :: i32)
      = (if 46 < k \<and> k < 48 then - 1 else 0)"
    using assms asr8_and_small [of "64 - k" "k - 91"] asr8_and_small [of "96 - k" "k - 123"]
      asr8_and_small [of "47 - k" "k - 58"] asr8_and_small [of "42 - k" "k - 44"]
      asr8_and_small [of "46 - k" "k - 48"] by simp_all
  have "decode_base64_digit (word_of_int k) = - 1
      + (if 64 < k \<and> k < 91 then word_of_int k - 64 else 0)
      + (if 96 < k \<and> k < 123 then word_of_int k - 70 else 0)
      + (if 47 < k \<and> k < 58 then word_of_int k + 5 else 0)
      + (if 42 < k \<and> k < 44 then 63 else 0) + (if 46 < k \<and> k < 48 then 64 else 0)"
    unfolding decode_base64_digit_def by (simp add: m)
  then show ?thesis by (auto simp: base64_value_def)
qed

text \<open>The character decoder does not depend on the signedness of \<^verbatim>\<open>char\<close>.\<close>

lemma decode_base64_digit_char:
  "decode_base64_digit (char_int c) =
     word_of_int (case base64_value (of_char c) of Some v \<Rightarrow> v | None \<Rightarrow> - 1)"
proof -
  have "base64_value (char_ord c) = base64_value (of_char c)"
    using of_char_int_range [of c] by (auto simp: char_ord_def base64_value_def Let_def)
  then show ?thesis by (simp add: char_int_eq decode_base64_digit_small char_ord_range)
qed

lemma decode_base64_digit_uchar:
  "decode_base64_digit (uchar_int c) = decode_base64_digit (char_int c)"
proof -
  have "- 128 \<le> (of_char c :: int)" "of_char c < (256::int)"
    using of_char_int_range [of c] by simp_all
  then show ?thesis
    by (simp add: uchar_int_eq decode_base64_digit_small decode_base64_digit_char)
qed

section \<open>Groups of four characters and three bytes\<close>

lemma decode_base64_4:
  "decode_base64 [a, b, c, d] =
     push_bit 18 (decode_base64_digit (char_int a)) OR push_bit 12 (decode_base64_digit (char_int b))
     OR push_bit 6 (decode_base64_digit (char_int c)) OR decode_base64_digit (char_int d)"
  by (simp add: decode_base64_def upt_rec or.assoc)

text \<open>A digit that does not decode sets every bit; one that does is below 64.\<close>

lemma decode_digit_cases:
  obtains (bad) "decode_base64_digit (char_int c) = - 1"
  | (good) v where "base64_value (of_char c) = Some v" "0 \<le> v" "v < 64"
      "decode_base64_digit (char_int c) = word_of_int v"
proof (cases "base64_value (of_char c)")
  case None
  then show ?thesis by (intro bad) (simp add: decode_base64_digit_char)
next
  case (Some v)
  with base64_code_value [OF Some] show ?thesis
    by (intro good [of v]) (simp_all add: decode_base64_digit_char)
qed

lemma bit_below_64: "0 \<le> v \<Longrightarrow> v < 64 \<Longrightarrow> bit (word_of_int v :: i32) n \<Longrightarrow> n < 6"
proof -
  assume v: "0 \<le> v" "v < 64" and b: "bit (word_of_int v :: i32) n"
  have "take_bit 6 v = v" using v by (simp add: take_bit_int_eq_self)
  moreover from b have "bit v n" by (simp add: bit_word_of_int_iff)
  ultimately show ?thesis by (metis bit_take_bit_iff)
qed

definition digit_ok :: "char \<Rightarrow> bool" where
  "digit_ok c \<longleftrightarrow> base64_value (of_char c) \<noteq> None"

lemma digit_ok_bits:
  "digit_ok c \<Longrightarrow> bit (decode_base64_digit (char_int c)) n \<Longrightarrow> n < 6"
  by (cases c rule: decode_digit_cases)
    (auto simp: digit_ok_def decode_base64_digit_char intro: bit_below_64 split: option.splits
      dest: base64_code_value)

lemma not_digit_ok: "\<not> digit_ok c \<Longrightarrow> decode_base64_digit (char_int c) = - 1"
  by (simp add: digit_ok_def decode_base64_digit_char)

lemma decode_base64_sign:
  "bit (decode_base64 [a, b, c, d]) 31 \<longleftrightarrow> \<not> (digit_ok a \<and> digit_ok b \<and> digit_ok c \<and> digit_ok d)"
proof -
  have s: "k \<le> 18 \<Longrightarrow> bit (push_bit k (decode_base64_digit (char_int x))) 31 \<longleftrightarrow> \<not> digit_ok x" for k x
  proof (cases "digit_ok x")
    case True
    assume "k \<le> 18"
    with True show ?thesis by (auto simp: bit_push_bit_iff dest: digit_ok_bits)
  next
    case False
    assume "k \<le> 18"
    with False show ?thesis by (simp add: not_digit_ok bit_not_iff bit_mask_iff)
  qed
  show ?thesis
    using s [of 18 a] s [of 12 b] s [of 6 c] s [of 0 d] by (simp add: decode_base64_4 bit_or_iff)
qed

lemma decode_encode_digit:
  assumes "unat x < 64"
  shows "decode_base64_digit (char_int (encode_base64_digit x)) = ucast x"
    and "digit_ok (encode_base64_digit x)"
proof -
  have "uint x = int (unat x)" by (rule uint_nat)
  with assms have u: "0 \<le> uint x" "uint x < 64" by linarith+
  then have "base64_value (of_char (encode_base64_digit x)) = Some (uint x)"
    using assms by (simp add: encode_base64_digit_code base64_value_code)
  then show "decode_base64_digit (char_int (encode_base64_digit x)) = ucast x"
    and "digit_ok (encode_base64_digit x)"
    by (simp_all add: decode_base64_digit_char digit_ok_def)
qed

lemma encode_decode_digit:
  assumes "digit_ok c"
  shows "encode_base64_digit (ucast (decode_base64_digit (char_int c))) = c"
proof -
  from assms obtain v where v: "base64_value (of_char c) = Some v" by (auto simp: digit_ok_def)
  note r = base64_code_value [OF v]
  let ?x = "ucast (decode_base64_digit (char_int c)) :: u8"
  have "uint ?x = v"
    using r v by (simp add: decode_base64_digit_char ucast_eq uint_word_of_int)
  moreover then have "unat ?x < 64" using r by (simp add: unat_eq_nat_uint nat_less_iff)
  ultimately have "of_char (encode_base64_digit ?x) = (of_char c :: int)"
    using r by (simp add: encode_base64_digit_code)
  then show ?thesis by (simp only: of_char_eq_iff)
qed

lemma and_63_less: "unat (x AND 63 :: u8) < 64"
proof -
  have "x AND 63 \<le> (63 :: u8)" by (rule word_and_le1)
  then have "unat (x AND 63) \<le> unat (63 :: u8)" by (simp only: word_le_nat_alt)
  then show ?thesis by simp
qed

text \<open>The three bytes the loop of \<^verbatim>\<open>key_from_base64\<close> stores.\<close>

definition split3 :: "i32 \<Rightarrow> bytes" where
  "split3 val = [ucast (signed_drop_bit 16 val AND 0xff), ucast (signed_drop_bit 8 val AND 0xff),
     ucast (val AND 0xff)]"

definition sextets :: "bytes \<Rightarrow> u8 list" where
  "sextets src =
     (let s = (\<lambda>i. (ucast (src ! i) :: i32)) in
      [ucast (signed_drop_bit 2 (s 0) AND 63),
       ucast ((push_bit 4 (s 0) OR signed_drop_bit 4 (s 1)) AND 63),
       ucast ((push_bit 2 (s 1) OR signed_drop_bit 6 (s 2)) AND 63),
       ucast (s 2 AND 63)])"

lemma encode_base64_sextets: "encode_base64 src = map encode_base64_digit (sextets src)"
  by (simp add: encode_base64_def sextets_def Let_def)

lemma length_encode_base64 [simp]: "length (encode_base64 src) = 4"
  by (simp add: encode_base64_def Let_def)

lemma sextets_less: "x \<in> set (sextets src) \<Longrightarrow> unat x < 64"
  using and_63_less by (auto simp: sextets_def Let_def unsigned_and_eq)

lemma byte_eqI:
  assumes "list_all (\<lambda>n. bit x n \<longleftrightarrow> bit y n) [0, 1, 2, 3, 4, 5, 6, 7]"
  shows "x = (y :: u8)"
proof (rule bit_word_eqI)
  fix n :: nat assume "n < LENGTH(8)"
  then have "n \<in> {0, 1, 2, 3, 4, 5, 6, 7}" by auto
  with assms show "bit x n \<longleftrightarrow> bit y n" by auto
qed

lemma bit_byte_beyond: "8 \<le> n \<Longrightarrow> \<not> bit (x :: u8) n"
  using bit_imp_le_length [of x n] by auto

lemma split3_decode_encode:
  "split3 (decode_base64 (encode_base64 [a, b, c])) = [a, b, c]"
proof -
  let ?v = "decode_base64 (encode_base64 [a, b, c])"
  have v: "?v = push_bit 18 (ucast (sextets [a, b, c] ! 0)) OR push_bit 12 (ucast (sextets [a, b, c] ! 1))
      OR push_bit 6 (ucast (sextets [a, b, c] ! 2)) OR ucast (sextets [a, b, c] ! 3)"
    using sextets_less [of _ "[a, b, c]"]
    by (simp add: encode_base64_sextets decode_base64_4 sextets_def Let_def decode_encode_digit)
  show ?thesis
    unfolding split3_def v
    by (auto intro!: byte_eqI simp: sextets_def bit_simps bit_byte_beyond)
qed

lemma encode_split3_decode:
  assumes "digit_ok a" "digit_ok b" "digit_ok c" "digit_ok d"
  shows "encode_base64 (split3 (decode_base64 [a, b, c, d])) = [a, b, c, d]"
proof -
  let ?d = "\<lambda>x. decode_base64_digit (char_int x)"
  have z: "digit_ok x \<Longrightarrow> 6 \<le> n \<Longrightarrow> \<not> bit (?d x) n" for x n
    using digit_ok_bits [of x n] by auto
  have "sextets (split3 (decode_base64 [a, b, c, d])) = map (\<lambda>x. ucast (?d x)) [a, b, c, d]"
    using assms
    by (auto intro!: byte_eqI simp: sextets_def split3_def decode_base64_4 bit_simps z)
  with assms show ?thesis by (simp add: encode_base64_sextets encode_decode_digit)
qed

section \<open>The loops over a key\<close>

lemma ret_is_zero_iff [simp]: "ret_is_zero r \<longleftrightarrow> r = 0"
proof -
  define k where "k = uint r"
  have k: "0 \<le> k" "k < 256" using uint_lt2p [of r] by (simp_all add: k_def)
  have "(ucast r :: i32) - 1 = word_of_int (k - 1)" by (simp add: k_def)
  then have "ret_is_zero r \<longleftrightarrow> k - 1 < 0"
    unfolding ret_is_zero_def using k by (simp only: asr8_small) simp
  also have "\<dots> \<longleftrightarrow> k = 0" using k by linarith
  finally show ?thesis by (simp add: k_def uint_0_iff)
qed

lemma foldl_accum:
  "foldl (\<lambda>(ret, key) i. (ret OR f i, key @ g i)) (r, k) xs =
     (foldl (OR) r (map f xs), k @ concat (map g xs))"
  by (induction xs arbitrary: r k) auto

lemma or_eq_0_iff: "a OR b = 0 \<longleftrightarrow> a = 0 \<and> b = (0 :: 'a::len word)"
  by (auto simp: bit_eq_iff bit_or_iff)

lemma foldl_or_eq_0: "foldl (OR) r xs = (0 :: u8) \<longleftrightarrow> r = 0 \<and> (\<forall>x \<in> set xs. x = 0)"
  by (induction xs arbitrary: r) (auto simp: or_eq_0_iff)

lemma concat_blocks:
  assumes "\<And>i. length (f i) = n" "i < m"
  shows "take n (drop (i * n) (concat (map f [0..<m]) @ r)) = f i"
proof -
  have len: "length (concat (map f [0..<k])) = k * n" for k
    by (induction k) (simp_all add: assms(1))
  have "[0..<m] = [0..<i] @ i # [Suc i..<m]"
    using assms(2) upt_add_eq_append [of 0 i "m - i"] by (simp add: upt_conv_Cons)
  then have "concat (map f [0..<m]) = concat (map f [0..<i]) @ f i @ concat (map f [Suc i..<m])"
    by simp
  then show ?thesis by (simp add: len assms(1))
qed

lemma take_drop_3: "3 * i + 3 \<le> length xs \<Longrightarrow>
  take 3 (drop (3 * i) xs) = [xs ! (3 * i), xs ! (3 * i + 1), xs ! (3 * i + 2)]"
  by (rule nth_equalityI) (auto simp: less_Suc_eq numeral_3_eq_3 nth_Cons')

lemma take_drop_4: "4 * i + 4 \<le> length xs \<Longrightarrow>
  take 4 (drop (4 * i) xs) = [xs ! (4 * i), xs ! (4 * i + 1), xs ! (4 * i + 2), xs ! (4 * i + 3)]"
  by (auto simp add: list_eq_iff_nth_eq less_Suc_eq numeral_eq_Suc)

lemma length_4E:
  assumes "length xs = 4" obtains a b c d where "xs = [a, b, c, d]"
proof -
  have "length xs = Suc (Suc (Suc (Suc 0)))" using assms by simp
  then show ?thesis using that by (auto simp: length_Suc_conv)
qed

lemma key_to_base64_eq:
  assumes "length key = WG_KEY_LEN"
  shows "key_to_base64 key =
    concat (map (\<lambda>i. encode_base64 (take 3 (drop (i * 3) key))) [0..<10])
    @ take 3 (encode_base64 [key ! 30, key ! 31, 0]) @ ''=''"
proof -
  let ?c = "concat (map (\<lambda>i. encode_base64 (take 3 (drop (i * 3) key))) [0..<10])"
  let ?e = "encode_base64 [key ! 30, key ! 31, 0]"
  have len: "length ?c = 40" by (simp add: upt_rec)
  obtain a b c d where e: "?e = [a, b, c, d]" using length_encode_base64 by (rule length_4E)
  have "key_to_base64 key = (?c @ ?e)[43 := CHR ''='']" by (simp add: key_to_base64_def)
  also have "\<dots> = ?c @ ?e[3 := CHR ''='']" by (simp add: list_update_append len)
  also have "?e[3 := CHR ''=''] = take 3 ?e @ ''=''" by (simp add: e)
  finally show ?thesis .
qed

lemma length_key_to_base64: "length key = WG_KEY_LEN \<Longrightarrow> length (key_to_base64 key) = 44"
  by (simp add: key_to_base64_eq upt_rec)

lemma set_encode_base64: "set (encode_base64 src) \<subseteq> set base64_alphabet"
proof
  fix c assume "c \<in> set (encode_base64 src)"
  then obtain x where x: "x \<in> set (sextets src)" "c = encode_base64_digit x"
    by (auto simp: encode_base64_sextets)
  then have "unat x < length base64_alphabet" by (simp add: sextets_less length_base64_alphabet)
  then have "base64_alphabet ! unat x \<in> set base64_alphabet" by (rule nth_mem)
  with x show "c \<in> set base64_alphabet" by (simp add: encode_base64_digit_table sextets_less)
qed

lemma set_key_to_base64:
  "length key = WG_KEY_LEN \<Longrightarrow> set (key_to_base64 key) \<subseteq> insert (CHR ''='') (set base64_alphabet)"
  using set_encode_base64 set_take_subset by (fastforce simp: key_to_base64_eq)

lemma key_from_base64_iff:
  "key_from_base64 s = Some key \<longleftrightarrow>
     length s = 44 \<and> s ! 43 = CHR ''='' \<and>
     (\<forall>i < 10. \<not> bit (decode_base64 (take 4 (drop (i * 4) s))) 31) \<and>
     \<not> bit (decode_base64 [s ! 40, s ! 41, s ! 42, CHR ''A'']) 31 \<and>
     split3 (decode_base64 [s ! 40, s ! 41, s ! 42, CHR ''A'']) ! 2 = 0 \<and>
     key = concat (map (\<lambda>i. split3 (decode_base64 (take 4 (drop (i * 4) s)))) [0..<10])
       @ take 2 (split3 (decode_base64 [s ! 40, s ! 41, s ! 42, CHR ''A'']))"
proof -
  let ?v = "decode_base64 [s ! 40, s ! 41, s ! 42, CHR ''A'']"
  have sgn: "ucast (drop_bit 31 (w :: i32)) = (0 :: u8) \<longleftrightarrow> \<not> bit w 31" for w
    by (simp add: drop_bit_31)
  have last: "ucast (drop_bit 31 ?v OR (?v AND 255)) = (0 :: u8) \<longleftrightarrow>
      \<not> bit ?v 31 \<and> ucast (?v AND 255) = (0 :: u8)"
    by (simp only: unsigned_or_eq or_eq_0_iff sgn)
  show ?thesis
    unfolding key_from_base64_def Let_def foldl_accum
    by (simp add: foldl_or_eq_0 or_eq_0_iff sgn last split3_def) auto
qed

lemma digit_ok_A: "digit_ok CHR ''A''"
  by (simp add: digit_ok_def base64_value_def)

lemma encode_digit_0: "encode_base64_digit 0 = CHR ''A''"
  by (simp add: encode_base64_digit_table base64_alphabet_def)

lemma encode_base64_ok: "\<not> bit (decode_base64 (encode_base64 src)) 31"
proof -
  obtain a b c d where e: "sextets src = [a, b, c, d]" by (simp add: sextets_def Let_def)
  then have "unat a < 64" "unat b < 64" "unat c < 64" "unat d < 64"
    using sextets_less [of _ src] by simp_all
  then show ?thesis
    by (simp add: encode_base64_sextets e decode_base64_sign decode_encode_digit)
qed

lemma encode_base64_zero: "encode_base64 [a, b, 0] ! 3 = CHR ''A''"
  by (simp add: encode_base64_def encode_digit_0)

lemma concat_groups_3:
  "3 * m \<le> length xs \<Longrightarrow> concat (map (\<lambda>i. take 3 (drop (i * 3) xs)) [0..<m]) = take (3 * m) xs"
proof (induction m)
  case (Suc m)
  have "take (3 * m) xs @ take 3 (drop (3 * m) xs) = take (3 * m + 3) xs" by (rule take_add [symmetric])
  with Suc show ?case by (simp add: mult.commute add.commute)
qed simp

lemma concat_groups_4:
  "4 * m \<le> length xs \<Longrightarrow> concat (map (\<lambda>i. take 4 (drop (i * 4) xs)) [0..<m]) = take (4 * m) xs"
proof (induction m)
  case (Suc m)
  have "take (4 * m) xs @ take 4 (drop (4 * m) xs) = take (4 * m + 4) xs" by (rule take_add [symmetric])
  with Suc show ?case by (simp add: mult.commute add.commute)
qed simp

lemma key_from_to_base64:
  assumes len: "length key = WG_KEY_LEN"
  shows "key_from_base64 (key_to_base64 key) = Some key"
proof -
  let ?s = "key_to_base64 key"
  let ?g = "\<lambda>i. take 3 (drop (i * 3) key)"
  let ?e = "encode_base64 [key ! 30, key ! 31, 0]"
  obtain x y z w where e: "?e = [x, y, z, w]" using length_encode_base64 by (rule length_4E)
  have w: "w = CHR ''A''" using encode_base64_zero [of "key ! 30" "key ! 31"] by (simp add: e)
  have s: "?s = concat (map (\<lambda>i. encode_base64 (?g i)) [0..<10]) @ [x, y, z] @ ''=''"
    using len by (simp add: key_to_base64_eq e)
  have c40: "length (concat (map (\<lambda>i. encode_base64 (?g i)) [0..<10])) = 40" by (simp add: upt_rec)
  have blk: "i < 10 \<Longrightarrow> take 4 (drop (i * 4) ?s) = encode_base64 (?g i)" for i
    unfolding s by (rule concat_blocks) simp_all
  have g: "i < 10 \<Longrightarrow> ?g i = [key ! (3 * i), key ! (3 * i + 1), key ! (3 * i + 2)]" for i
    using len take_drop_3 [of i key] by (simp add: mult.commute)
  have nth: "?s ! 40 = x" "?s ! 41 = y" "?s ! 42 = z" "?s ! 43 = CHR ''=''"
    unfolding s by (simp_all add: nth_append c40)
  have lastv: "decode_base64 [?s ! 40, ?s ! 41, ?s ! 42, CHR ''A''] = decode_base64 ?e"
    by (simp add: nth e w)
  have blocks: "map (\<lambda>i. split3 (decode_base64 (take 4 (drop (i * 4) ?s)))) [0..<10] = map ?g [0..<10]"
    by (rule map_cong) (simp_all add: blk g split3_decode_encode)
  have "key = take 30 key @ [key ! 30, key ! 31]"
    using len append_take_drop_id [of 30 key] Cons_nth_drop_Suc [of 30 key]
      Cons_nth_drop_Suc [of 31 key] by simp
  moreover have "concat (map ?g [0..<10]) = take 30 key"
    using len concat_groups_3 [of 10 key] by simp
  ultimately show ?thesis
    unfolding key_from_base64_iff lastv blocks
    using len by (simp add: length_key_to_base64 nth blk encode_base64_ok split3_decode_encode)
qed

lemma key_from_base64_canonical:
  assumes "key_from_base64 s = Some key"
  shows "length key = WG_KEY_LEN" and "key_to_base64 key = s"
proof -
  let ?q = "\<lambda>i. take 4 (drop (i * 4) s)"
  let ?l = "[s ! 40, s ! 41, s ! 42, CHR ''A'']"
  from assms have len: "length s = 44" and eq: "s ! 43 = CHR ''=''"
    and ok: "\<And>i. i < 10 \<Longrightarrow> \<not> bit (decode_base64 (?q i)) 31"
    and lok: "\<not> bit (decode_base64 ?l) 31" and z: "split3 (decode_base64 ?l) ! 2 = 0"
    and key: "key = concat (map (\<lambda>i. split3 (decode_base64 (?q i))) [0..<10])
      @ take 2 (split3 (decode_base64 ?l))"
    by (auto simp: key_from_base64_iff)
  have s3: "length (split3 v) = 3" for v by (simp add: split3_def)
  have c30: "length (concat (map (\<lambda>i. split3 (decode_base64 (?q i))) [0..<10])) = 30"
    by (simp add: upt_rec s3)
  show l32: "length key = WG_KEY_LEN" by (simp add: key c30 s3)
  have q: "i < 10 \<Longrightarrow> encode_base64 (split3 (decode_base64 (?q i))) = ?q i" for i
  proof -
    assume i: "i < 10"
    then have "length (?q i) = 4" using len by simp
    then obtain a b c d where q: "?q i = [a, b, c, d]" by (rule length_4E)
    with ok [OF i] show ?thesis by (simp add: q decode_base64_sign encode_split3_decode)
  qed
  have blk: "i < 10 \<Longrightarrow> take 3 (drop (i * 3) key) = split3 (decode_base64 (?q i))" for i
    unfolding key by (rule concat_blocks) (simp_all add: s3)
  have tail: "[key ! 30, key ! 31, 0] = split3 (decode_base64 ?l)"
  proof -
    obtain a b c where abc: "split3 (decode_base64 ?l) = [a, b, c]" by (simp add: split3_def)
    with z show ?thesis by (simp add: key nth_append c30)
  qed
  have l: "encode_base64 (split3 (decode_base64 ?l)) = ?l"
    using lok by (simp add: decode_base64_sign encode_split3_decode)
  have "map (\<lambda>i. encode_base64 (take 3 (drop (i * 3) key))) [0..<10] = map ?q [0..<10]"
    by (rule map_cong) (simp_all add: blk q)
  then have "key_to_base64 key = take 40 s @ [s ! 40, s ! 41, s ! 42] @ ''=''"
    using len concat_groups_4 [of 10 s] by (simp only: key_to_base64_eq [OF l32] tail l) simp
  also have "\<dots> = s"
    using len eq append_take_drop_id [of 40 s] Cons_nth_drop_Suc [of 40 s]
      Cons_nth_drop_Suc [of 41 s] Cons_nth_drop_Suc [of 42 s] Cons_nth_drop_Suc [of 43 s] by simp
  finally show "key_to_base64 key = s" .
qed

lemma hex_nibble_table:
  "hex_nibble c = (if is_digit_of 16 c then (of_nat (digit_val c), 0) else (0, 255))"
proof -
  have "\<forall>c. hex_nibble c = (if is_digit_of 16 c then (of_nat (digit_val c), 0) else (0, 255))"
    by code_simp
  then show ?thesis by blast
qed

section \<open>Hexadecimal keys\<close>

lemma hex_pair: "a < 16 \<Longrightarrow> b < 16 \<Longrightarrow> (of_nat a :: u8) * 16 OR of_nat b = of_nat (16 * a + b)"
proof -
  assume ab: "a < 16" "b < 16"
  have p: "(of_nat a :: u8) * 16 = push_bit 4 (of_nat a)"
    by (simp add: push_bit_eq_mult)
  have b: "bit (of_nat b :: u8) n \<Longrightarrow> n < 4" for n
  proof -
    assume "bit (of_nat b :: u8) n"
    then have "bit (int b) n" by (metis bit_word_of_int_iff of_int_of_nat_eq)
    moreover have "take_bit 4 (int b) = int b" using ab by (simp add: take_bit_int_eq_self)
    ultimately show "n < 4" by (metis bit_take_bit_iff)
  qed
  have "push_bit 4 (of_nat a :: u8) + of_nat b = push_bit 4 (of_nat a) OR of_nat b"
  proof (rule disjunctive_add)
    fix n
    show "\<not> bit (push_bit 4 (of_nat a :: u8)) n \<or> \<not> bit (of_nat b :: u8) n"
      using b [of n] by (auto simp: bit_push_bit_iff)
  qed
  moreover have "of_nat (16 * a + b) = (of_nat a :: u8) * 16 + of_nat b"
    by (simp only: of_nat_add of_nat_mult of_nat_numeral mult.commute)
  ultimately show ?thesis by (simp only: p)
qed

lemma hex_digit_char: "n < 16 \<Longrightarrow> hex_digit (of_nat n) = digit_char n"
proof -
  assume "n < 16"
  have "\<forall>n \<in> set [0..<16]. hex_digit (of_nat n) = digit_char n"
    by (simp add: upt_rec hex_digit_def byte_char_def digit_char_def mask_eq_exp_minus_1)
  with \<open>n < 16\<close> show ?thesis by simp
qed

definition hex_value :: "string \<Rightarrow> nat \<Rightarrow> u8" where
  "hex_value s i = of_nat (16 * digit_val (s ! (2 * i)) + digit_val (s ! (2 * i + 1)))"

lemma foldl_hex:
  "foldl (\<lambda>(ret, key) i.
      let (v, e) = hex_nibble (hex ! (2 * i)); c_acc = v * 16;
          (v', e') = hex_nibble (hex ! (2 * i + 1))
      in (ret OR e OR e', key @ [c_acc OR v'])) (r, k) xs =
   (foldl (OR) r (map (\<lambda>i. snd (hex_nibble (hex ! (2 * i))) OR snd (hex_nibble (hex ! (2 * i + 1)))) xs),
    k @ map (\<lambda>i. fst (hex_nibble (hex ! (2 * i))) * 16 OR fst (hex_nibble (hex ! (2 * i + 1)))) xs)"
  by (induction xs arbitrary: r k) (auto simp: or.assoc split: prod.splits)

lemma even_odd_all: "(\<forall>i < n. P (2 * i) \<and> P (2 * i + 1)) \<longleftrightarrow> (\<forall>j < 2 * n. P (j::nat))"
proof safe
  fix j assume a: "\<forall>i<n. P (2 * i) \<and> P (2 * i + 1)" "j < 2 * n"
  then have "j div 2 < n" by auto
  with a(1) have "P (2 * (j div 2)) \<and> P (2 * (j div 2) + 1)" by blast
  then show "P j" by (cases "even j") (auto simp: odd_two_times_div_two_succ)
qed auto

lemma key_from_hex_eq:
  "key_from_hex s =
     (if length s = 64 \<and> list_all (is_digit_of 16) s then Some (map (hex_value s) [0..<32]) else None)"
proof (cases "length s = 64")
  case True
  let ?ok = "\<lambda>j. is_digit_of 16 (s ! j)"
  have e: "snd (hex_nibble (s ! j)) = 0 \<longleftrightarrow> ?ok j" for j by (simp add: hex_nibble_table)
  have "(\<forall>i<32. ?ok (2 * i) \<and> ?ok (2 * i + 1)) \<longleftrightarrow> list_all (is_digit_of 16) s"
    using even_odd_all [of 32 ?ok] True by (simp add: list_all_length)
  then have ret: "foldl (OR) 0 (map (\<lambda>i. snd (hex_nibble (s ! (2 * i)))
      OR snd (hex_nibble (s ! (2 * i + 1)))) [0..<32]) = 0 \<longleftrightarrow> list_all (is_digit_of 16) s"
    by (auto simp: foldl_or_eq_0 or_eq_0_iff e)
  have vals: "list_all (is_digit_of 16) s \<Longrightarrow> i < 32 \<Longrightarrow>
      fst (hex_nibble (s ! (2 * i))) * 16 OR fst (hex_nibble (s ! (2 * i + 1))) = hex_value s i" for i
    using True hex_pair [of "digit_val (s ! (2 * i))" "digit_val (s ! (2 * i + 1))"]
    by (simp add: hex_nibble_table hex_value_def list_all_length is_digit_of_def)
  show ?thesis
    using True ret vals unfolding key_from_hex_def foldl_hex by auto
qed (simp add: key_from_hex_def)

lemma nibbles:
  "(drop_bit 4 (ucast (b :: u8)) :: u32) = of_nat (unat b div 16)"
  "(ucast (b :: u8) AND 0xf :: u32) = of_nat (unat b mod 16)"
proof -
  have b: "unat b < 256" using unsigned_less [of b, where 'a = nat] by simp
  have "unat (drop_bit 4 (ucast b) :: u32) = unat b div 16"
    using b by (simp only: unsigned_drop_bit_eq unsigned_ucast_eq)
      (simp add: drop_bit_eq_div take_bit_nat_eq_self)
  then have "of_nat (unat (drop_bit 4 (ucast b) :: u32)) = (of_nat (unat b div 16) :: u32)" by simp
  then show "(drop_bit 4 (ucast b) :: u32) = of_nat (unat b div 16)"
    by (simp only: of_nat_unat ucast_id)
  have "(ucast b AND 0xf :: u32) = take_bit 4 (ucast b)"
    by (simp add: take_bit_eq_mask mask_eq_exp_minus_1)
  also have "unat (take_bit 4 (ucast b) :: u32) = unat b mod 16"
    using b by (simp only: unsigned_take_bit_eq unsigned_ucast_eq)
      (simp add: take_bit_eq_mod)
  finally have "of_nat (unat (ucast b AND 0xf :: u32)) = (of_nat (unat b mod 16) :: u32)" by simp
  then show "(ucast b AND 0xf :: u32) = of_nat (unat b mod 16)"
    by (simp only: of_nat_unat ucast_id)
qed

lemma key_to_hex_eq:
  "key_to_hex key = concat (map (\<lambda>b. [digit_char (unat b div 16), digit_char (unat b mod 16)]) key)"
proof -
  have b: "unat b < 256" for b :: u8 using unsigned_less [of b, where 'a = nat] by simp
  have "hex_digit (drop_bit 4 (ucast b)) = digit_char (unat b div 16)"
    "hex_digit (ucast b AND 15) = digit_char (unat b mod 16)" for b :: u8
    unfolding nibbles using b [of b] by (simp_all add: hex_digit_char)
  then show ?thesis by (simp only: key_to_hex_def)
qed

lemma concat_pairs_nth:
  "i < length xs \<Longrightarrow> concat (map (\<lambda>x. [f x, g x]) xs) ! (2 * i) = f (xs ! i) \<and>
     concat (map (\<lambda>x. [f x, g x]) xs) ! Suc (2 * i) = g (xs ! i)"
proof (induction xs arbitrary: i)
  case (Cons x xs)
  then show ?case by (cases i) simp_all
qed simp

lemma length_concat_pairs: "length (concat (map (\<lambda>x. [f x, g x]) xs)) = 2 * length xs"
  by (induction xs) simp_all

lemma key_from_to_hex:
  assumes len: "length key = WG_KEY_LEN"
  shows "key_from_hex (key_to_hex key) = Some key"
proof -
  have b: "unat b < 256" for b :: u8 using unsigned_less [of b, where 'a = nat] by simp
  have d: "digit_val (digit_char (unat (b::u8) div 16)) = unat b div 16"
    "digit_val (digit_char (unat b mod 16)) = unat b mod 16" for b
    using b [of b] by (simp_all add: digit_val_digit_char)
  have "list_all (is_digit_of 16) (key_to_hex key)"
    unfolding key_to_hex_eq using b by (auto simp: list_all_iff is_digit_of_def d less_mult_imp_div_less)
  moreover have "length (key_to_hex key) = 64"
    unfolding key_to_hex_eq using len by (simp only: length_concat_pairs)
  moreover have "map (hex_value (key_to_hex key)) [0..<32] = key"
    using len by (intro nth_equalityI) (simp_all add: hex_value_def key_to_hex_eq concat_pairs_nth d)
  ultimately show ?thesis by (simp add: key_from_hex_eq)
qed

lemma key_is_zero_iff: "key_is_zero key \<longleftrightarrow> (\<forall>b \<in> set key. b = 0)"
  by (simp add: key_is_zero_def foldl_or_eq_0)

section \<open>The interface of a key codec\<close>

text \<open>
  What the callers rely on: printing a key and reading it back gives the key.  A codec whose
  reader accepts nothing else is canonical, and then the reader is exactly the inverse of the
  printer.
\<close>

locale key_codec =
  fixes show_key :: "bytes \<Rightarrow> string" and read_key :: "string \<Rightarrow> bytes option"
  assumes read_show: "length k = WG_KEY_LEN \<Longrightarrow> read_key (show_key k) = Some k"
    and read_length: "read_key s = Some k \<Longrightarrow> length k = WG_KEY_LEN"
begin

lemma show_inject:
  assumes "length k = WG_KEY_LEN" "length k' = WG_KEY_LEN" "show_key k = show_key k'"
  shows "k = k'"
proof -
  have "Some k = read_key (show_key k)" by (rule read_show [OF assms(1), symmetric])
  also have "\<dots> = read_key (show_key k')" by (simp only: assms(3))
  also have "\<dots> = Some k'" by (rule read_show [OF assms(2)])
  finally show ?thesis by (rule option.inject [THEN iffD1])
qed

end

locale canonical_codec = key_codec +
  assumes show_read: "read_key s = Some k \<Longrightarrow> show_key k = s"
begin

lemma read_iff: "read_key s = Some k \<longleftrightarrow> length k = WG_KEY_LEN \<and> s = show_key k"
  using read_show read_length show_read by blast

lemma read_None_iff: "read_key s = None \<longleftrightarrow> s \<notin> show_key ` {k. length k = WG_KEY_LEN}"
proof (cases "read_key s")
  case None
  with read_show show ?thesis by auto
next
  case (Some k)
  with read_iff show ?thesis by auto
qed

end

interpretation b64: canonical_codec key_to_base64 key_from_base64
  by unfold_locales (simp_all add: key_from_to_base64 key_from_base64_canonical)

lemma key_from_hex_length: "key_from_hex s = Some k \<Longrightarrow> length k = WG_KEY_LEN"
  by (auto simp: key_from_hex_eq split: if_splits)

interpretation hexk: key_codec key_to_hex key_from_hex
  by unfold_locales (simp_all add: key_from_to_hex key_from_hex_length)

section \<open>Properties\<close>

text \<open>C12. The base64 decoder accepts exactly the encodings of 32-byte keys and gives the key back: the
  two functions are inverse to each other, and a text with other padding bits, another length or
  another character is refused.\<close>

theorem base64_inverse:
  "key_from_base64 s = Some k \<longleftrightarrow> length k = WG_KEY_LEN \<and> s = key_to_base64 k"
  by (rule b64.read_iff)

text \<open>C22. The branch-free arithmetic of the digit functions is the lookup in the base64 alphabet: a
  value below 64 is encoded as the character at that place, a character of the alphabet is decoded
  to its place and every other character, of either signedness, to -1.\<close>

theorem base64_digits_by_table:
  "(unat x < 64 \<longrightarrow> encode_base64_digit x = base64_alphabet ! unat x) \<and>
   decode_base64_digit (char_int c) =
     word_of_int (case base64_value (of_char c) of Some v \<Rightarrow> v | None \<Rightarrow> - 1) \<and>
   decode_base64_digit (uchar_int c) = decode_base64_digit (char_int c)"
  by (simp add: encode_base64_digit_table decode_base64_digit_uchar)
    (rule decode_base64_digit_char)

theorem base64_digits_by_table_witness:
  "unat (62 :: u8) < 64 \<and> encode_base64_digit 62 = CHR ''+''"
  using base64_digits_by_table [of "62 :: u8" "CHR ''+''"] by (simp add: base64_alphabet_def)

text \<open>The hexadecimal decoder accepts exactly 64 hexadecimal digits of either case, pairs them, and
  inverts the encoder on 32-byte keys.\<close>

theorem hex_decodes_digits:
  assumes "length k = WG_KEY_LEN"
  shows "key_from_hex (key_to_hex k) = Some k \<and>
    key_from_hex s =
      (if length s = 64 \<and> list_all (is_digit_of 16) s then Some (map (hex_value s) [0..<32]) else None)"
  using key_from_to_hex [OF assms] key_from_hex_eq [of s] by simp

theorem hex_decodes_digits_witness:
  "key_from_hex (key_to_hex (replicate 32 (0xa5 :: u8))) = Some (replicate 32 0xa5)"
  using hex_decodes_digits [of "replicate 32 (0xa5 :: u8)" "[]"] by simp

text \<open>The accumulated test for the zero key holds of a key whose bytes are all zero and of no other.\<close>

theorem key_is_zero_exact: "key_is_zero key \<longleftrightarrow> key = replicate (length key) 0"
  by (auto simp: key_is_zero_iff replicate_eqI) (metis in_set_replicate)

end
