(* ===== verification/Containers.thy ===== *)
theory Containers
  imports Encoding
begin

text \<open>
  \<^verbatim>\<open>containers.h\<close>: allowed addresses, peers and devices as records, their flag bits, and the
  linked lists the structures form.  A list from \<^verbatim>\<open>first_peer\<close> along \<^verbatim>\<open>next_peer\<close> is
  the list of its nodes; the tail pointers of the parsers (\<^verbatim>\<open>last_peer\<close>,
  \<^verbatim>\<open>last_allowedip\<close>) are indices into those lists, so that linking a node behind a tail
  pointer drops whatever followed it, as the assignment in C does.  The union of an IPv4 and an
  IPv6 address is its 16 bytes in memory, network byte order.
\<close>

named_theorems flag_defs \<open>the bit of each flag\<close>

abbreviation (input) MAX_AWG_STRING_LEN :: nat where "MAX_AWG_STRING_LEN \<equiv> 5 * 1024"

datatype sa_family = AF_UNSPEC | AF_INET | AF_INET6 | AF_OTHER nat

record timespec64 =
  tv_sec :: u64
  tv_nsec :: u64

text \<open>The socket address of an endpoint: \<^verbatim>\<open>sockaddr_in\<close> and \<^verbatim>\<open>sockaddr_in6\<close>.\<close>

record sockaddr =
  sa_fam :: sa_family
  sa_port :: u16
  sa_addr :: bytes
  sa_flowinfo :: u32
  sa_scope :: u32

record wgallowedip =
  a_family :: sa_family
  a_ip :: bytes
  a_cidr :: u8

record wgpeer =
  peer_flags :: u32
  peer_public_key :: bytes
  preshared_key :: bytes
  endpoint :: sockaddr
  last_handshake_time :: timespec64
  rx_bytes :: u64
  tx_bytes :: u64
  persistent_keepalive_interval :: u16
  awg :: bool
  first_allowedip :: "wgallowedip list"

record wgdevice =
  dev_name :: string
  ifindex :: u32
  dev_flags :: u32
  dev_public_key :: bytes
  private_key :: bytes
  fwmark :: u32
  listen_port :: u16
  first_peer :: "wgpeer list"
  junk_packet_count :: u16
  junk_packet_min_size :: u16
  junk_packet_max_size :: u16
  init_packet_junk_size :: u16
  response_packet_junk_size :: u16
  cookie_reply_packet_junk_size :: u16
  transport_packet_junk_size :: u16
  init_packet_magic_header :: "string option"
  response_packet_magic_header :: "string option"
  underload_packet_magic_header :: "string option"
  transport_packet_magic_header :: "string option"
  i1 :: "string option"
  i2 :: "string option"
  i3 :: "string option"
  i4 :: "string option"
  i5 :: "string option"

section \<open>Flags\<close>

definition WGPEER_REMOVE_ME :: u32 where [flag_defs]: "WGPEER_REMOVE_ME = push_bit 0 1"
definition WGPEER_REPLACE_ALLOWEDIPS :: u32 where [flag_defs]: "WGPEER_REPLACE_ALLOWEDIPS = push_bit 1 1"
definition WGPEER_HAS_PUBLIC_KEY :: u32 where [flag_defs]: "WGPEER_HAS_PUBLIC_KEY = push_bit 2 1"
definition WGPEER_HAS_PRESHARED_KEY :: u32 where [flag_defs]: "WGPEER_HAS_PRESHARED_KEY = push_bit 3 1"
definition WGPEER_HAS_PERSISTENT_KEEPALIVE_INTERVAL :: u32 where [flag_defs]:
  "WGPEER_HAS_PERSISTENT_KEEPALIVE_INTERVAL = push_bit 4 1"
definition WGPEER_HAS_AWG :: u32 where [flag_defs]: "WGPEER_HAS_AWG = push_bit 5 1"

definition WGDEVICE_REPLACE_PEERS :: u32 where [flag_defs]: "WGDEVICE_REPLACE_PEERS = push_bit 0 1"
definition WGDEVICE_HAS_PRIVATE_KEY :: u32 where [flag_defs]: "WGDEVICE_HAS_PRIVATE_KEY = push_bit 1 1"
definition WGDEVICE_HAS_PUBLIC_KEY :: u32 where [flag_defs]: "WGDEVICE_HAS_PUBLIC_KEY = push_bit 2 1"
definition WGDEVICE_HAS_LISTEN_PORT :: u32 where [flag_defs]: "WGDEVICE_HAS_LISTEN_PORT = push_bit 3 1"
definition WGDEVICE_HAS_FWMARK :: u32 where [flag_defs]: "WGDEVICE_HAS_FWMARK = push_bit 4 1"
definition WGDEVICE_HAS_JC :: u32 where [flag_defs]: "WGDEVICE_HAS_JC = push_bit 5 1"
definition WGDEVICE_HAS_JMIN :: u32 where [flag_defs]: "WGDEVICE_HAS_JMIN = push_bit 6 1"
definition WGDEVICE_HAS_JMAX :: u32 where [flag_defs]: "WGDEVICE_HAS_JMAX = push_bit 7 1"
definition WGDEVICE_HAS_S1 :: u32 where [flag_defs]: "WGDEVICE_HAS_S1 = push_bit 8 1"
definition WGDEVICE_HAS_S2 :: u32 where [flag_defs]: "WGDEVICE_HAS_S2 = push_bit 9 1"
definition WGDEVICE_HAS_H1 :: u32 where [flag_defs]: "WGDEVICE_HAS_H1 = push_bit 10 1"
definition WGDEVICE_HAS_H2 :: u32 where [flag_defs]: "WGDEVICE_HAS_H2 = push_bit 11 1"
definition WGDEVICE_HAS_H3 :: u32 where [flag_defs]: "WGDEVICE_HAS_H3 = push_bit 12 1"
definition WGDEVICE_HAS_H4 :: u32 where [flag_defs]: "WGDEVICE_HAS_H4 = push_bit 13 1"
definition WGDEVICE_HAS_S3 :: u32 where [flag_defs]: "WGDEVICE_HAS_S3 = push_bit 14 1"
definition WGDEVICE_HAS_S4 :: u32 where [flag_defs]: "WGDEVICE_HAS_S4 = push_bit 15 1"
definition WGDEVICE_HAS_I1 :: u32 where [flag_defs]: "WGDEVICE_HAS_I1 = push_bit 16 1"
definition WGDEVICE_HAS_I2 :: u32 where [flag_defs]: "WGDEVICE_HAS_I2 = push_bit 17 1"
definition WGDEVICE_HAS_I3 :: u32 where [flag_defs]: "WGDEVICE_HAS_I3 = push_bit 18 1"
definition WGDEVICE_HAS_I4 :: u32 where [flag_defs]: "WGDEVICE_HAS_I4 = push_bit 19 1"
definition WGDEVICE_HAS_I5 :: u32 where [flag_defs]: "WGDEVICE_HAS_I5 = push_bit 20 1"

text \<open>\<^verbatim>\<open>flags & f\<close> as a condition.\<close>

definition has :: "u32 \<Rightarrow> u32 \<Rightarrow> bool" where
  "has flags f \<longleftrightarrow> flags AND f \<noteq> 0"

lemma has_or [simp]: "has (a OR b) f \<longleftrightarrow> has a f \<or> has b f"
  by (auto simp: has_def or_eq_0_iff bit.conj_disj_distrib2)

lemma has_0 [simp]: "\<not> has 0 f"
  by (simp add: has_def)

section \<open>Zeroed structures\<close>

text \<open>What \<^verbatim>\<open>calloc\<close> gives.\<close>

definition zero_key :: bytes where "zero_key = replicate WG_KEY_LEN 0"

definition zero_sockaddr :: sockaddr where
  "zero_sockaddr = \<lparr>sa_fam = AF_UNSPEC, sa_port = 0, sa_addr = [], sa_flowinfo = 0, sa_scope = 0\<rparr>"

definition zero_allowedip :: wgallowedip where
  "zero_allowedip = \<lparr>a_family = AF_UNSPEC, a_ip = replicate 16 0, a_cidr = 0\<rparr>"

definition zero_peer :: wgpeer where
  "zero_peer = \<lparr>peer_flags = 0, peer_public_key = zero_key, preshared_key = zero_key,
     endpoint = zero_sockaddr, last_handshake_time = \<lparr>tv_sec = 0, tv_nsec = 0\<rparr>,
     rx_bytes = 0, tx_bytes = 0, persistent_keepalive_interval = 0, awg = False,
     first_allowedip = []\<rparr>"

definition zero_device :: wgdevice where
  "zero_device = \<lparr>dev_name = [], ifindex = 0, dev_flags = 0, dev_public_key = zero_key,
     private_key = zero_key, fwmark = 0, listen_port = 0, first_peer = [],
     junk_packet_count = 0, junk_packet_min_size = 0, junk_packet_max_size = 0,
     init_packet_junk_size = 0, response_packet_junk_size = 0,
     cookie_reply_packet_junk_size = 0, transport_packet_junk_size = 0,
     init_packet_magic_header = None, response_packet_magic_header = None,
     underload_packet_magic_header = None, transport_packet_magic_header = None,
     i1 = None, i2 = None, i3 = None, i4 = None, i5 = None\<rparr>"

section \<open>Linked lists with a tail pointer\<close>

text \<open>
  \<^verbatim>\<open>if (tail) tail->next = x; else first = x; tail = x;\<close> on a list whose tail pointer is an
  index: the new list and the new tail.
\<close>

fun link_after :: "nat option \<Rightarrow> 'a \<Rightarrow> 'a list \<Rightarrow> 'a list \<times> nat option" where
  "link_after None x xs = ([x], Some 0)"
| "link_after (Some i) x xs = (take (Suc i) xs @ [x], Some (Suc i))"

text \<open>The tail pointer is right when it is null on the empty list and the last node otherwise.\<close>

definition tail_ok :: "nat option \<Rightarrow> 'a list \<Rightarrow> bool" where
  "tail_ok t xs \<longleftrightarrow> (case t of None \<Rightarrow> xs = [] | Some i \<Rightarrow> length xs = Suc i)"

lemma link_after_ok:
  assumes "tail_ok t xs"
  shows "fst (link_after t x xs) = xs @ [x]" and "tail_ok (snd (link_after t x xs)) (xs @ [x])"
  using assms by (auto simp: tail_ok_def split: option.splits)

lemma tail_ok_None [simp]: "tail_ok None xs \<longleftrightarrow> xs = []"
  by (simp add: tail_ok_def)

lemma tail_ok_Nil [simp]: "tail_ok t [] \<longleftrightarrow> t = None"
  by (auto simp: tail_ok_def split: option.splits)

section \<open>Well-formed structures\<close>

definition max_cidr :: "sa_family \<Rightarrow> nat" where
  "max_cidr f = (case f of AF_INET \<Rightarrow> 32 | AF_INET6 \<Rightarrow> 128 | _ \<Rightarrow> 0)"

definition wf_allowedip :: "wgallowedip \<Rightarrow> bool" where
  "wf_allowedip a \<longleftrightarrow> (a_family a = AF_INET \<or> a_family a = AF_INET6) \<and> length (a_ip a) = 16 \<and>
     unat (a_cidr a) \<le> max_cidr (a_family a)"

definition wf_peer :: "wgpeer \<Rightarrow> bool" where
  "wf_peer p \<longleftrightarrow> length (peer_public_key p) = WG_KEY_LEN \<and> length (preshared_key p) = WG_KEY_LEN \<and>
     list_all wf_allowedip (first_allowedip p)"

text \<open>A stored header or junk string is not empty and is below the limit.\<close>

definition wf_awg_string :: "string option \<Rightarrow> bool" where
  "wf_awg_string v \<longleftrightarrow> (case v of None \<Rightarrow> True | Some s \<Rightarrow> s \<noteq> [] \<and> length s < MAX_AWG_STRING_LEN)"

definition wf_device :: "wgdevice \<Rightarrow> bool" where
  "wf_device d \<longleftrightarrow> length (dev_public_key d) = WG_KEY_LEN \<and> length (private_key d) = WG_KEY_LEN \<and>
     list_all wf_peer (first_peer d) \<and>
     list_all wf_awg_string [init_packet_magic_header d, response_packet_magic_header d,
       underload_packet_magic_header d, transport_packet_magic_header d,
       i1 d, i2 d, i3 d, i4 d, i5 d]"

lemma wf_zero_peer [simp]: "wf_peer zero_peer"
  by (simp add: wf_peer_def zero_peer_def zero_key_def)

lemma wf_zero_device [simp]: "wf_device zero_device"
  by (simp add: wf_device_def zero_device_def zero_key_def wf_awg_string_def)

end
