(* ===== verification/Sysdeps.thy ===== *)
theory Sysdeps
  imports Containers
begin

text \<open>
  What the tools take from the operating system and its resolver, as a record that every
  definition that needs it has as an argument: text and binary addresses, name resolution, the
  environment, files.  None of it is code of the repository.  A resolver can answer the same
  question differently on each attempt, so \<open>getaddrinfo\<close> takes the number of the attempt.
\<close>

datatype gai_error = EAI_NONAME | EAI_FAIL | EAI_NODATA | EAI_SYSTEM | EAI_OTHER int

record addrinfo =
  ai_family :: sa_family
  ai_addrlen :: nat
  ai_addr :: sockaddr

text \<open>The bytes a stream delivers, and whether it then ends in an error rather than at its end.\<close>

record c_file =
  f_contents :: string
  f_error :: bool

record sys =
  inet_pton :: "sa_family \<Rightarrow> string \<Rightarrow> bytes option"
  inet_ntop :: "sa_family \<Rightarrow> bytes \<Rightarrow> string option"
  getaddrinfo :: "nat \<Rightarrow> string option \<Rightarrow> string \<Rightarrow> gai_error + addrinfo"
  getnameinfo :: "sockaddr \<Rightarrow> nat \<Rightarrow> gai_error + string \<times> string"
  getenv :: "string \<Rightarrow> string option"
  fopen :: "string \<Rightarrow> c_file option"

abbreviation (input) sizeof_sockaddr_in :: nat where "sizeof_sockaddr_in \<equiv> 16"
abbreviation (input) sizeof_sockaddr_in6 :: nat where "sizeof_sockaddr_in6 \<equiv> 28"

text \<open>The test both resolvers of the tools make before they copy an answer.\<close>

definition addrinfo_ok :: "addrinfo \<Rightarrow> bool" where
  "addrinfo_ok ai \<longleftrightarrow> ai_family ai = AF_INET \<and> ai_addrlen ai = sizeof_sockaddr_in \<or>
     ai_family ai = AF_INET6 \<and> ai_addrlen ai = sizeof_sockaddr_in6"

text \<open>\<^verbatim>\<open>inet_pton\<close> stores 4 or 16 bytes at the start of the address union.\<close>

definition store_ip :: "bytes \<Rightarrow> bytes \<Rightarrow> bytes" where
  "store_ip new old = new @ drop (length new) old"

definition addr_len :: "sa_family \<Rightarrow> nat" where
  "addr_len f = (case f of AF_INET \<Rightarrow> 4 | AF_INET6 \<Rightarrow> 16 | _ \<Rightarrow> 0)"

text \<open>What the address functions document: a parsed address has the size of its family.\<close>

definition pton_sizes :: "sys \<Rightarrow> bool" where
  "pton_sizes S \<longleftrightarrow> (\<forall>f s bs. inet_pton S f s = Some bs \<longrightarrow> length bs = addr_len f)"

lemma pton_sizesD: "pton_sizes S \<Longrightarrow> inet_pton S f s = Some bs \<Longrightarrow> length bs = addr_len f"
  by (simp add: pton_sizes_def)

section \<open>A sample system\<close>

text \<open>A system that knows one address of each family, one endpoint and one port, for the examples.\<close>

definition sample_endpoint :: sockaddr where
  "sample_endpoint = \<lparr>sa_fam = AF_INET, sa_port = 51820, sa_addr = [192, 0, 2, 1], sa_flowinfo = 0, sa_scope = 0\<rparr>"

definition sample_ip6 :: bytes where
  "sample_ip6 = [253, 0, 0, 0, 0, 0, 0, 0, 0, 0, 0, 0, 0, 0, 0, 0]"

definition sample_sys :: sys where
  "sample_sys = \<lparr>
     inet_pton = (\<lambda>f s. if f = AF_INET \<and> s = ''10.0.0.0'' then Some [10, 0, 0, 0]
       else if f = AF_INET6 \<and> s = ''fd00::'' then Some sample_ip6 else None),
     inet_ntop = (\<lambda>f bs. if f = AF_INET \<and> bs = [10, 0, 0, 0] then Some ''10.0.0.0''
       else if f = AF_INET6 \<and> bs = sample_ip6 then Some ''fd00::'' else None),
     getaddrinfo = (\<lambda>n node service.
       if node = None \<and> service = ''51820''
       then Inr \<lparr>ai_family = AF_INET, ai_addrlen = sizeof_sockaddr_in,
              ai_addr = sample_endpoint\<lparr>sa_addr := [0, 0, 0, 0]\<rparr>\<rparr>
       else if node = Some ''192.0.2.1'' \<and> service = ''51820''
       then Inr \<lparr>ai_family = AF_INET, ai_addrlen = sizeof_sockaddr_in, ai_addr = sample_endpoint\<rparr>
       else Inl EAI_NONAME),
     getnameinfo = (\<lambda>sa len. if sa = sample_endpoint then Inr (''192.0.2.1'', ''51820'') else Inl EAI_NONAME),
     getenv = (\<lambda>_. None),
     fopen = (\<lambda>_. None)\<rparr>"

lemma pton_sizes_sample [simp]: "pton_sizes sample_sys"
  by (auto simp: pton_sizes_def sample_sys_def sample_ip6_def addr_len_def split: if_splits)

end
