(* ===== verification/Config_Values.thy ===== *)
theory Config_Values
  imports Sysdeps
begin

text \<open>
  The value parsers of \<^verbatim>\<open>config.c\<close>: ports, marks, keys and key files, addresses, endpoints
  with their resolution loop, keepalive intervals, lists of allowed addresses, and the strings,
  numbers and switches of the obfuscation settings.  Each takes the old contents of what its
  pointers refer to where it keeps them, and gives the new contents, or the diagnostic with which
  it fails or ends the process.
\<close>

text \<open>The messages the parsers print.\<close>

datatype diag =
    D_empty_port | D_gai gai_error string | D_no_inet string
  | D_fwmark string | D_key string
  | D_fopen string | D_keyfile_length | D_keyfile_trailing char | D_keyfile_getc
  | D_ip string | D_retries string
  | D_empty_endpoint | D_brace string | D_endpoint_port string
  | D_keepalive string | D_allowedip string
  | D_awg_string string | D_empty_string | D_number string string | D_bool string
  | D_line string | D_no_public_key | D_argument string

text \<open>The character at an index of a C string, the terminator included.\<close>

definition c_at :: "string \<Rightarrow> nat \<Rightarrow> char" where
  "c_at s i = (if i < length s then s ! i else NUL)"

section \<open>Ports, marks, keys\<close>

definition parse_port :: "sys \<Rightarrow> u32 \<Rightarrow> string \<Rightarrow> (diag, u16 \<times> u32) res" where
  "parse_port S flags value =
     (if length value = 0 then Fail D_empty_port
      else case getaddrinfo S 0 None value of
        Inl e \<Rightarrow> Fail (D_gai e value)
      | Inr resolved \<Rightarrow>
          if ai_family resolved = AF_INET \<and> ai_addrlen resolved = sizeof_sockaddr_in
          then Ok (sa_port (ai_addr resolved), flags OR WGDEVICE_HAS_LISTEN_PORT)
          else if ai_family resolved = AF_INET6 \<and> ai_addrlen resolved = sizeof_sockaddr_in6
          then Ok (sa_port (ai_addr resolved), flags OR WGDEVICE_HAS_LISTEN_PORT)
          else Fail (D_no_inet value))"

definition parse_fwmark :: "u32 \<Rightarrow> string \<Rightarrow> (diag, u32 \<times> u32) res" where
  "parse_fwmark flags value =
     (if strcaseeq value ''off'' then Ok (0, flags OR WGDEVICE_HAS_FWMARK)
      else if \<not> char_is_digit (char_int (c_at value 0)) then Fail (D_fwmark value)
      else
        let base = (if length value > 2 \<and> c_at value 0 = CHR ''0'' \<and> c_at value 1 = CHR ''x''
                    then 16 else 10);
            (ret, end) = strtoul base value
        in if end \<noteq> [] \<or> ret > 2 ^ 32 - 1 then Fail (D_fwmark value)
           else Ok (of_nat ret, flags OR WGDEVICE_HAS_FWMARK))"

definition parse_key :: "string \<Rightarrow> (diag, bytes) res" where
  "parse_key value =
     (case key_from_base64 value of None \<Rightarrow> Fail (D_key value) | Some key \<Rightarrow> Ok key)"

text \<open>An empty file, or the null device, is the zero key; anything but white space after the
  44 characters is refused.\<close>

definition parse_keyfile :: "sys \<Rightarrow> string \<Rightarrow> (diag, bytes) res" where
  "parse_keyfile S path =
     (case fopen S path of
        None \<Rightarrow> Fail (D_fopen path)
      | Some f \<Rightarrow>
          if length (f_contents f) < WG_KEY_LEN_BASE64 - 1 then
            (if \<not> f_error f \<and> f_contents f = [] then Ok zero_key else Fail D_keyfile_length)
          else
            let dst = take (WG_KEY_LEN_BASE64 - 1) (f_contents f);
                rest = drop (WG_KEY_LEN_BASE64 - 1) (f_contents f)
            in case dropWhile (\<lambda>c. char_is_space (uchar_int c)) rest of
                 c # _ \<Rightarrow> Fail (D_keyfile_trailing c)
               | [] \<Rightarrow> if f_error f then Fail D_keyfile_getc else parse_key (cstr dst))"

section \<open>Addresses and endpoints\<close>

definition parse_ip :: "sys \<Rightarrow> wgallowedip \<Rightarrow> string \<Rightarrow> (diag, wgallowedip) res" where
  "parse_ip S allowedip value =
     (let f = (if strchr value (CHR '':'') \<noteq> None then AF_INET6 else AF_INET) in
      case inet_pton S f value of
        Some bs \<Rightarrow> Ok (allowedip\<lparr>a_family := f, a_ip := store_ip bs (a_ip allowedip)\<rparr>)
      | None \<Rightarrow> Fail (D_ip value))"

definition parse_dns_retries :: "sys \<Rightarrow> (diag, int) res" where
  "parse_dns_retries S =
     (case getenv S ''WG_ENDPOINT_RESOLUTION_RETRIES'' of
        None \<Rightarrow> Ok 15
      | Some retries \<Rightarrow>
          if retries = ''infinity'' then Ok (- 1)
          else let (ret, end) = strtoul 10 retries in
               if end \<noteq> [] \<or> ret > 2 ^ 31 - 1 then Exit (D_retries retries) else Ok (int ret))"

text \<open>The host and the service of an endpoint, with the bracketed form of IPv6.\<close>

definition split_endpoint :: "string \<Rightarrow> (diag, string \<times> string) res" where
  "split_endpoint value =
     (if length value = 0 then Fail D_empty_endpoint
      else if c_at value 0 = CHR ''['' then
        (case strchr value (CHR '']'') of
           None \<Rightarrow> Fail (D_brace value)
         | Some e \<Rightarrow>
             if c_at value (e + 1) \<noteq> CHR '':'' \<or> c_at value (e + 2) = NUL
             then Fail (D_endpoint_port value)
             else Ok (take (e - 1) (drop 1 value), drop (e + 2) value))
      else
        (case strrchr value (CHR '':'') of
           None \<Rightarrow> Fail (D_endpoint_port value)
         | Some e \<Rightarrow>
             if c_at value (e + 1) = NUL then Fail (D_endpoint_port value)
             else Ok (take e value, drop (e + 1) value)))"

definition gai_permanent :: "gai_error \<Rightarrow> bool" where
  "gai_permanent e \<longleftrightarrow> e = EAI_NONAME \<or> e = EAI_FAIL \<or> e = EAI_NODATA"

definition next_timeout :: "nat \<Rightarrow> nat" where
  "next_timeout timeout = min 20000000 ((timeout * 6 mod 2 ^ 32) div 5)"

text \<open>
  The resolution loop on the answers \<open>q n\<close> of the resolver: the last answer and the
  microseconds slept before each retry.  With \<open>retries\<close> negative it can run forever, and
  then there is no result.
\<close>

partial_function (option) resolve_loop ::
  "(nat \<Rightarrow> gai_error + addrinfo) \<Rightarrow> nat \<Rightarrow> int \<Rightarrow> nat \<Rightarrow> nat list \<Rightarrow> ((gai_error + addrinfo) \<times> nat list) option"
where
  "resolve_loop q n retries timeout slept =
     (case q n of
        Inr ai \<Rightarrow> Some (Inr ai, slept)
      | Inl e \<Rightarrow>
          if gai_permanent e \<or> retries \<ge> 0 \<and> retries = 0 then Some (Inl e, slept)
          else resolve_loop q (Suc n) (if retries \<ge> 0 then retries - 1 else retries)
                 (next_timeout timeout) (slept @ [timeout]))"

definition parse_endpoint :: "sys \<Rightarrow> string \<Rightarrow> (diag, sockaddr) res" where
  "parse_endpoint S value =
     res_bind (parse_dns_retries S) (\<lambda>retries.
     res_bind (split_endpoint value) (\<lambda>(begin, end).
       case resolve_loop (\<lambda>n. getaddrinfo S n (Some begin) end) 0 retries 1000000 [] of
         None \<Rightarrow> Hang
       | Some (Inl e, _) \<Rightarrow> Fail (D_gai e value)
       | Some (Inr resolved, _) \<Rightarrow>
           if addrinfo_ok resolved then Ok (ai_addr resolved) else Fail (D_no_inet value)))"

definition parse_persistent_keepalive :: "u32 \<Rightarrow> string \<Rightarrow> (diag, u16 \<times> u32) res" where
  "parse_persistent_keepalive flags value =
     (if strcaseeq value ''off'' then Ok (0, flags OR WGPEER_HAS_PERSISTENT_KEEPALIVE_INTERVAL)
      else if \<not> char_is_digit (char_int (c_at value 0)) then Fail (D_keepalive value)
      else
        let (ret, end) = strtoul 10 value
        in if end \<noteq> [] \<or> ret > 65535 then Fail (D_keepalive value)
           else Ok (of_nat ret, flags OR WGPEER_HAS_PERSISTENT_KEEPALIVE_INTERVAL))"

section \<open>Allowed addresses\<close>

text \<open>\<^verbatim>\<open>ntohl(ip[i])\<close>.\<close>

definition ntohl_at :: "bytes \<Rightarrow> nat \<Rightarrow> u32" where
  "ntohl_at ip i =
     push_bit 24 (ucast (ip ! (4 * i))) OR push_bit 16 (ucast (ip ! (4 * i + 1)))
     OR push_bit 8 (ucast (ip ! (4 * i + 2))) OR ucast (ip ! (4 * i + 3))"

definition netmask_word_ok :: "bytes \<Rightarrow> nat \<Rightarrow> nat \<Rightarrow> bool" where
  "netmask_word_ok ip cidr i =
     (let mask = (if cidr > 32 * i then drop_bit (cidr - 32 * i) (NOT 0) else NOT 0)
      in ntohl_at ip i AND mask = 0)"

fun validate_netmask_loop :: "bytes \<Rightarrow> nat \<Rightarrow> nat \<Rightarrow> bool" where
  "validate_netmask_loop ip cidr 0 =
     (if cidr \<ge> 32 then True else netmask_word_ok ip cidr 0)"
| "validate_netmask_loop ip cidr (Suc i) =
     (if cidr \<ge> 32 * (Suc i + 1) then True
      else if \<not> netmask_word_ok ip cidr (Suc i) then False
      else validate_netmask_loop ip cidr i)"

definition validate_netmask :: "wgallowedip \<Rightarrow> bool" where
  "validate_netmask a =
     (case a_family a of
        AF_INET \<Rightarrow> validate_netmask_loop (a_ip a) (unat (a_cidr a)) 0
      | AF_INET6 \<Rightarrow> validate_netmask_loop (a_ip a) (unat (a_cidr a)) 3
      | _ \<Rightarrow> True)"

text \<open>One entry of the list: its address, and its mask or the width of the family.\<close>

definition parse_allowedip :: "sys \<Rightarrow> string \<Rightarrow> (diag, wgallowedip) res" where
  "parse_allowedip S entry =
     (let (ip, mask) = strsep (CHR ''/'') entry in
      res_bind (parse_ip S zero_allowedip ip) (\<lambda>new.
        case mask of
          Some m \<Rightarrow>
            if \<not> char_is_digit (char_int (c_at m 0)) then Fail (D_allowedip entry)
            else let (cidr, end) = strtoul 10 m in
              if end \<noteq> [] \<or> cidr > 32 \<and> a_family new = AF_INET \<or> cidr > 128 \<and> a_family new = AF_INET6
              then Fail (D_allowedip entry)
              else Ok (new\<lparr>a_cidr := of_nat cidr\<rparr>)
        | None \<Rightarrow>
            if a_family new = AF_INET then Ok (new\<lparr>a_cidr := 32\<rparr>)
            else if a_family new = AF_INET6 then Ok (new\<lparr>a_cidr := 128\<rparr>)
            else Fail (D_allowedip entry)))"

text \<open>The loop links each new entry behind the tail pointer; the entries with a nonzero host part
  are those it warns of.\<close>

function (sequential) parse_allowedips_loop ::
  "sys \<Rightarrow> wgallowedip list \<Rightarrow> nat option \<Rightarrow> string list \<Rightarrow> string option
   \<Rightarrow> (diag, wgallowedip list \<times> nat option \<times> string list) res"
where
  "parse_allowedips_loop S ips tail warned None = Ok (ips, tail, warned)"
| "parse_allowedips_loop S ips tail warned (Some s) =
     res_bind (parse_allowedip S (fst (strsep (CHR '','') s))) (\<lambda>new.
       let (ips', tail') = link_after tail new ips;
           warned' = (if validate_netmask new then warned else warned @ [fst (strsep (CHR '','') s)])
       in parse_allowedips_loop S ips' tail' warned' (snd (strsep (CHR '','') s)))"
  by pat_completeness auto
termination
  by (relation "measure (\<lambda>(S, ips, tail, warned, s). case s of None \<Rightarrow> 0 | Some s \<Rightarrow> Suc (length s))")
    (auto split: option.splits dest: strsep_snd_shorter)

definition parse_allowedips ::
  "sys \<Rightarrow> wgpeer \<Rightarrow> nat option \<Rightarrow> string \<Rightarrow> (diag, wgpeer \<times> nat option \<times> string list) res"
where
  "parse_allowedips S peer last_allowedip value =
     (let peer = peer\<lparr>peer_flags := peer_flags peer OR WGPEER_REPLACE_ALLOWEDIPS\<rparr> in
      if length value = 0 then Ok (peer, last_allowedip, [])
      else res_bind (parse_allowedips_loop S (first_allowedip peer) last_allowedip [] (Some value))
             (\<lambda>(ips, tail, warned). Ok (peer\<lparr>first_allowedip := ips\<rparr>, tail, warned)))"

section \<open>Obfuscation settings\<close>

definition parse_awg_string :: "string \<Rightarrow> string \<Rightarrow> (diag, string option) res" where
  "parse_awg_string name value =
     (if length value = 0 then Ok None
      else if length value \<ge> MAX_AWG_STRING_LEN then Fail (D_awg_string name)
      else Ok (Some value))"

text \<open>The result of \<^verbatim>\<open>strtoul\<close> is kept in 32 bits before it is compared.\<close>

definition parse_uint16 :: "string \<Rightarrow> string \<Rightarrow> (diag, u16) res" where
  "parse_uint16 name value =
     (if length value = 0 then Fail D_empty_string
      else let (n, end) = strtoul 10 value; ret = (of_nat n :: u32) in
        if end \<noteq> [] \<or> unat ret > 65535 then Exit (D_number name value)
        else Ok (ucast ret))"

definition parse_bool :: "string \<Rightarrow> string \<Rightarrow> (diag, bool) res" where
  "parse_bool name value =
     (if length value = 0 then Fail D_empty_string
      else if strcaseeq value ''off'' then Ok False
      else if strcaseeq value ''on'' then Ok True
      else if \<not> char_is_digit (char_int (c_at value 0)) then Fail (D_bool value)
      else let (n, end) = strtoul 10 value; ret = (of_nat n :: u32) in
        if end \<noteq> [] then Exit (D_number name value) else Ok (ret \<noteq> 0))"

section \<open>Numbers: what is accepted, and what is read back\<close>

definition is_number :: "nat \<Rightarrow> string \<Rightarrow> bool" where
  "is_number base s \<longleftrightarrow> s \<noteq> [] \<and> list_all (is_digit_of base) s"

lemma c_at_Cons [simp]: "c_at (c # s) 0 = c" "c_at (c # s) (Suc i) = c_at s i" "c_at [] i = NUL"
  by (simp_all add: c_at_def)

lemma NUL_not_digit [simp]: "\<not> is_c_digit NUL"
  by (simp add: is_c_digit_def)

lemma is_number_iff_first:
  "is_number base s \<longleftrightarrow> (\<exists>c r. s = c # r \<and> is_digit_of base c \<and> list_all (is_digit_of base) r)"
  by (cases s) (auto simp: is_number_def)

text \<open>A decimal scan that starts on a digit accepts exactly the decimal numbers.\<close>

lemma strtoul_10_number:
  assumes "is_c_digit (c_at v 0)" "b < 2 ^ 64 - 1"
  shows "(\<exists>n. strtoul 10 v = (n, []) \<and> n \<le> b \<and> P n) \<longleftrightarrow>
    is_number 10 v \<and> num_of 10 v \<le> b \<and> P (num_of 10 v)"
proof (cases v)
  case Nil
  with assms show ?thesis by simp
next
  case (Cons c r)
  with assms have d: "is_digit_of 10 c" by (simp add: is_c_digit_iff)
  show ?thesis
  proof (cases "list_all (is_digit_of 10) v")
    case True
    then have "strtoul 10 v = (if 2 ^ 64 \<le> num_of 10 v then 2 ^ 64 - 1 else num_of 10 v, [])"
      using scan_digits [of 10 v "[]" 64] Cons by simp
    with True assms(2) Cons show ?thesis by (auto simp: is_number_def split: if_splits)
  next
    case False
    then have "\<not> (\<exists>n. strtoul 10 v = (n, []))"
      using strtou_10_all(1) [of 64 c r] d Cons by auto
    with False show ?thesis by (auto simp: is_number_def)
  qed
qed

lemma udec_is_number: "is_number 10 (udec n)"
  by (simp add: is_number_def print_num_digits)

lemma udec_first_digit: "is_c_digit (c_at (udec n) 0)"
proof -
  have "is_number 10 (udec n)" by (rule udec_is_number)
  then obtain c r where "udec n = c # r" "is_digit_of 10 c" by (auto simp: is_number_iff_first)
  then show ?thesis by (simp add: is_c_digit_iff)
qed

lemma digit_not_off: "is_c_digit (c_at v 0) \<Longrightarrow> \<not> strcaseeq v ''off'' \<and> \<not> strcaseeq v ''on''"
  by (cases v) (auto simp: strcaseeq_def c_tolower_def is_c_digit_def Let_def split: if_splits)

lemma parse_persistent_keepalive_number:
  assumes "is_c_digit (c_at v 0)"
  shows "parse_persistent_keepalive flags v = Ok (k, flags') \<longleftrightarrow>
    flags' = flags OR WGPEER_HAS_PERSISTENT_KEEPALIVE_INTERVAL \<and>
    is_number 10 v \<and> num_of 10 v \<le> 65535 \<and> k = of_nat (num_of 10 v)"
proof -
  have "parse_persistent_keepalive flags v = Ok (k, flags') \<longleftrightarrow>
      flags' = flags OR WGPEER_HAS_PERSISTENT_KEEPALIVE_INTERVAL \<and>
      (\<exists>n. strtoul 10 v = (n, []) \<and> n \<le> 65535 \<and> k = of_nat n)"
    using assms digit_not_off [OF assms]
    by (auto simp: parse_persistent_keepalive_def split: prod.splits)
  then show ?thesis using strtoul_10_number [OF assms, of 65535 "\<lambda>n. k = of_nat n"] by simp
qed

lemma parse_persistent_keepalive_iff:
  "parse_persistent_keepalive flags v = Ok (k, flags') \<longleftrightarrow>
     flags' = flags OR WGPEER_HAS_PERSISTENT_KEEPALIVE_INTERVAL \<and>
     (strcaseeq v ''off'' \<and> k = 0 \<or>
      is_number 10 v \<and> num_of 10 v \<le> 65535 \<and> k = of_nat (num_of 10 v))"
proof (cases "is_c_digit (c_at v 0)")
  case True
  with parse_persistent_keepalive_number [OF True] digit_not_off [OF True] show ?thesis by simp
next
  case False
  then have "\<not> is_number 10 v" by (auto simp: is_number_iff_first is_c_digit_iff)
  with False show ?thesis by (auto simp: parse_persistent_keepalive_def)
qed

lemma strtoul_hex_number:
  assumes "b < 2 ^ 64 - 1" "ds \<noteq> []"
  shows "(\<exists>n. strtoul 16 (CHR ''0'' # CHR ''x'' # ds) = (n, []) \<and> n \<le> b \<and> P n) \<longleftrightarrow>
    is_number 16 ds \<and> num_of 16 ds \<le> b \<and> P (num_of 16 ds)"
proof (cases "list_all (is_digit_of 16) ds")
  case True
  with strtou_0x [of ds 64] assms show ?thesis by (auto simp: is_number_def split: if_splits)
next
  case False
  with strtou_16_all(1) [of 64 ds] show ?thesis by (auto simp: is_number_def)
qed

lemma parse_fwmark_scan:
  assumes "is_c_digit (c_at v 0)"
  shows "parse_fwmark flags v = Ok (m, flags') \<longleftrightarrow>
    flags' = flags OR WGDEVICE_HAS_FWMARK \<and>
    (\<exists>n. strtoul (if length v > 2 \<and> c_at v 0 = CHR ''0'' \<and> c_at v 1 = CHR ''x'' then 16 else 10) v
       = (n, []) \<and> n \<le> 2 ^ 32 - 1 \<and> m = of_nat n)"
  using assms digit_not_off [OF assms]
  by (auto simp: parse_fwmark_def Let_def split: prod.splits)

lemma parse_fwmark_iff:
  "parse_fwmark flags v = Ok (m, flags') \<longleftrightarrow>
     flags' = flags OR WGDEVICE_HAS_FWMARK \<and>
     (strcaseeq v ''off'' \<and> m = 0 \<or>
      is_number 10 v \<and> num_of 10 v \<le> 2 ^ 32 - 1 \<and> m = of_nat (num_of 10 v) \<or>
      (\<exists>ds. v = ''0x'' @ ds \<and> is_number 16 ds \<and> num_of 16 ds \<le> 2 ^ 32 - 1 \<and> m = of_nat (num_of 16 ds)))"
proof (cases "is_c_digit (c_at v 0)")
  case digit: True
  show ?thesis
  proof (cases "\<exists>d ds. v = CHR ''0'' # CHR ''x'' # d # ds")
    case True
    then obtain ds where v: "v = CHR ''0'' # CHR ''x'' # ds" and ds: "ds \<noteq> []" by auto
    have "\<not> is_number 10 v" by (simp add: v is_number_def is_digit_of_def digit_val_def)
    moreover have "length v > 2" using ds by (cases ds) (simp_all add: v)
    ultimately show ?thesis
      using digit_not_off [OF digit] strtoul_hex_number [of "2 ^ 32 - 1" ds "\<lambda>n. m = of_nat n"] ds
      by (simp add: parse_fwmark_scan [OF digit]) (simp add: v)
  next
    case False
    have "\<not> (length v > 2 \<and> c_at v 0 = CHR ''0'' \<and> c_at v 1 = CHR ''x'')"
    proof
      assume a: "length v > 2 \<and> c_at v 0 = CHR ''0'' \<and> c_at v 1 = CHR ''x''"
      then obtain a b c r where "v = a # b # c # r"
        by (cases v; cases "tl v"; cases "tl (tl v)") auto
      with a False show False by simp
    qed
    moreover have "\<not> (\<exists>ds. v = ''0x'' @ ds \<and> is_number 16 ds)"
      using False by (auto simp: is_number_iff_first)
    ultimately show ?thesis
      using digit_not_off [OF digit] strtoul_10_number [OF digit, of "2 ^ 32 - 1" "\<lambda>n. m = of_nat n"]
      unfolding parse_fwmark_scan [OF digit] by auto
  qed
next
  case False
  then have "\<not> is_number 10 v" by (auto simp: is_number_iff_first is_c_digit_iff)
  moreover have "v \<noteq> ''0x'' @ ds" for ds using False by (auto simp: is_c_digit_def)
  ultimately show ?thesis using False by (auto simp: parse_fwmark_def)
qed

lemma unat_of_nat_u32: "unat (of_nat n :: u32) = n mod 2 ^ 32"
  by (simp add: unsigned_of_nat take_bit_eq_mod)

lemma ucast_of_nat_u32: "(ucast (of_nat n :: u32) :: u16) = of_nat n"
proof -
  have "(ucast (of_nat n :: u32) :: u16) = of_nat (unat (of_nat n :: u32))"
    by (simp only: of_nat_unat)
  also have "\<dots> = of_nat (n mod 2 ^ 32)" by (simp only: unat_of_nat_u32)
  also have "\<dots> = of_nat n"
    by (simp add: word_of_nat_eq_iff take_bit_eq_mod mod_mod_cancel)
  finally show ?thesis .
qed

lemma parse_uint16_iff:
  "parse_uint16 name v = Ok x \<longleftrightarrow>
     v \<noteq> [] \<and> (\<exists>n. strtoul 10 v = (n, []) \<and> n mod 2 ^ 32 \<le> 65535 \<and> x = of_nat n)"
  by (auto simp: parse_uint16_def unat_of_nat_u32 ucast_of_nat_u32 not_less split: prod.splits)

lemma parse_uint16_udec: "unat x = n \<Longrightarrow> parse_uint16 name (udec n) = Ok x"
proof -
  assume n: "unat x = n"
  have "n < 65536" using unsigned_less [of x, where 'a = nat] by (simp add: n [symmetric])
  moreover have "x = of_nat n" by (simp add: n [symmetric])
  ultimately show ?thesis by (simp add: parse_uint16_iff strtou_udec_all)
qed

text \<open>The truncation to 32 bits comes before the range check.\<close>

lemma parse_uint16_wraps:
  assumes "n \<le> 65535" "k < 2 ^ 32"
  shows "parse_uint16 name (udec (2 ^ 32 * k + n)) = Ok (of_nat n)"
proof -
  let ?m = "2 ^ 32 * k + n"
  have "?m < 2 ^ 64" using assms by simp
  moreover have "?m mod 2 ^ 32 = n" using assms by simp
  moreover have "(of_nat ?m :: u16) = of_nat n"
  proof -
    have "?m = n + 2 ^ 16 * (2 ^ 16 * k)" by simp
    then have "?m mod 2 ^ 16 = n mod 2 ^ 16" by (simp only: mod_mult_self2)
    then show ?thesis by (simp only: word_of_nat_eq_iff take_bit_eq_mod) simp
  qed
  ultimately show ?thesis using assms
    by (auto simp: parse_uint16_iff strtou_udec_all intro!: exI [of _ ?m])
qed

section \<open>Netmasks\<close>

text \<open>Bit \<open>j\<close> of an address, counted from its most significant bit.\<close>

definition addr_bit :: "bytes \<Rightarrow> nat \<Rightarrow> bool" where
  "addr_bit ip j \<longleftrightarrow> bit (ip ! (j div 8)) (7 - j mod 8)"

lemma bit_ntohl_at:
  assumes "n < 32"
  shows "bit (ntohl_at ip i) n \<longleftrightarrow> addr_bit ip (32 * i + (31 - n))"
proof -
  have b: "bit (x :: u8) m \<Longrightarrow> m < 8" for x m using bit_byte_beyond [of m x] by (cases "m < 8") auto
  consider "n < 8" | "8 \<le> n" "n < 16" | "16 \<le> n" "n < 24" | "24 \<le> n" using assms by linarith
  then show ?thesis
  proof cases
    case 1
    then have "32 * i + (31 - n) = (7 - n) + (4 * i + 3) * 8" "7 - n < 8" by simp_all
    then have "(32 * i + (31 - n)) div 8 = 4 * i + 3" "(32 * i + (31 - n)) mod 8 = 7 - n"
      by (simp_all only: div_mult_self1 [OF numeral_neq_zero] mod_mult_self1 div_less mod_less add_0_right)
    with 1 show ?thesis by (auto simp: ntohl_at_def addr_bit_def bit_simps dest: b)
  next
    case 2
    then have "32 * i + (31 - n) = (15 - n) + (4 * i + 2) * 8" "15 - n < 8" by simp_all
    then have "(32 * i + (31 - n)) div 8 = 4 * i + 2" "(32 * i + (31 - n)) mod 8 = 15 - n"
      by (simp_all only: div_mult_self1 [OF numeral_neq_zero] mod_mult_self1 div_less mod_less add_0_right)
    with 2 show ?thesis by (auto simp: ntohl_at_def addr_bit_def bit_simps dest: b)
  next
    case 3
    then have "32 * i + (31 - n) = (23 - n) + (4 * i + 1) * 8" "23 - n < 8" by simp_all
    then have "(32 * i + (31 - n)) div 8 = 4 * i + 1" "(32 * i + (31 - n)) mod 8 = 23 - n"
      by (simp_all only: div_mult_self1 [OF numeral_neq_zero] mod_mult_self1 div_less mod_less add_0_right)
    with 3 show ?thesis by (auto simp: ntohl_at_def addr_bit_def bit_simps dest: b)
  next
    case 4
    then have "32 * i + (31 - n) = (31 - n) + (4 * i + 0) * 8" "31 - n < 8" using assms by simp_all
    then have "(32 * i + (31 - n)) div 8 = 4 * i + 0" "(32 * i + (31 - n)) mod 8 = 31 - n"
      by (simp_all only: div_mult_self1 [OF numeral_neq_zero] mod_mult_self1 div_less mod_less add_0_right)
    with 4 assms show ?thesis by (auto simp: ntohl_at_def addr_bit_def bit_simps dest: b)
  qed
qed

lemma netmask_word_ok_iff:
  assumes "cidr < 32 * (i + 1)"
  shows "netmask_word_ok ip cidr i \<longleftrightarrow>
    (\<forall>j. cidr \<le> j \<and> 32 * i \<le> j \<and> j < 32 * (i + 1) \<longrightarrow> \<not> addr_bit ip j)"
proof -
  let ?mask = "(if cidr > 32 * i then drop_bit (cidr - 32 * i) (NOT 0) else NOT 0) :: u32"
  have mask: "n < 32 \<Longrightarrow> bit ?mask n \<longleftrightarrow> cidr \<le> 32 * i + (31 - n)" for n
    using assms by (auto simp: bit_simps)
  have "netmask_word_ok ip cidr i \<longleftrightarrow> (\<forall>n < 32. \<not> (bit (ntohl_at ip i) n \<and> bit ?mask n))"
    by (auto simp: netmask_word_ok_def bit_eq_iff bit_and_iff)
  also have "\<dots> \<longleftrightarrow> (\<forall>n < 32. cidr \<le> 32 * i + (31 - n) \<longrightarrow> \<not> addr_bit ip (32 * i + (31 - n)))"
    by (simp add: bit_ntohl_at mask) blast
  also have "\<dots> \<longleftrightarrow> (\<forall>j. cidr \<le> j \<and> 32 * i \<le> j \<and> j < 32 * (i + 1) \<longrightarrow> \<not> addr_bit ip j)"
  proof safe
    fix j assume a: "\<forall>n<32. cidr \<le> 32 * i + (31 - n) \<longrightarrow> \<not> addr_bit ip (32 * i + (31 - n))"
      and j: "cidr \<le> j" "32 * i \<le> j" "j < 32 * (i + 1)" "addr_bit ip j"
    have "32 * i + (31 - (32 * i + 31 - j)) = j" "32 * i + 31 - j < 32" using j by simp_all
    with a j show False by metis
  qed auto
  finally show ?thesis .
qed

lemma validate_netmask_loop_iff:
  "validate_netmask_loop ip cidr i \<longleftrightarrow> (\<forall>j. cidr \<le> j \<and> j < 32 * (i + 1) \<longrightarrow> \<not> addr_bit ip j)"
proof (induction i)
  case 0
  show ?case by (cases "cidr < 32") (auto simp: netmask_word_ok_iff)
next
  case (Suc i)
  show ?case
  proof (cases "cidr < 32 * (Suc i + 1)")
    case True
    have "(\<forall>j. cidr \<le> j \<and> j < 32 * (Suc i + 1) \<longrightarrow> \<not> addr_bit ip j) \<longleftrightarrow>
        (\<forall>j. cidr \<le> j \<and> 32 * Suc i \<le> j \<and> j < 32 * (Suc i + 1) \<longrightarrow> \<not> addr_bit ip j) \<and>
        (\<forall>j. cidr \<le> j \<and> j < 32 * (i + 1) \<longrightarrow> \<not> addr_bit ip j)"
      by (auto simp: not_le) (meson not_le)
    with True Suc netmask_word_ok_iff [OF True] show ?thesis by simp
  qed auto
qed

lemma validate_netmask_iff:
  assumes "a_family a = AF_INET \<or> a_family a = AF_INET6"
  shows "validate_netmask a \<longleftrightarrow>
    (\<forall>j. unat (a_cidr a) \<le> j \<and> j < max_cidr (a_family a) \<longrightarrow> \<not> addr_bit (a_ip a) j)"
  using assms by (auto simp: validate_netmask_def validate_netmask_loop_iff max_cidr_def)

section \<open>Lists of allowed addresses\<close>

text \<open>The entries of a list: the string cut at its commas.\<close>

function (sequential) entries :: "string option \<Rightarrow> string list" where
  "entries None = []"
| "entries (Some s) = fst (strsep (CHR '','') s) # entries (snd (strsep (CHR '','') s))"
  by pat_completeness auto
termination
  by (relation "measure (\<lambda>s. case s of None \<Rightarrow> 0 | Some s \<Rightarrow> Suc (length s))")
    (auto split: option.splits dest: strsep_snd_shorter)

lemma entries_single [c_string]: "CHR '','' \<notin> set s \<Longrightarrow> entries (Some s) = [s]"
  by (simp add: strsep_last)

lemma entries_append [c_string]:
  "CHR '','' \<notin> set a \<Longrightarrow> entries (Some (a @ CHR '','' # b)) = a # entries (Some b)"
  using strsep_append [of "CHR '',''" a b] by (simp only: entries.simps) simp

declare parse_allowedips_loop.simps(2) [simp del] entries.simps(2) [simp del]

lemma tail_ok_unique: "tail_ok t xs \<Longrightarrow> tail_ok t' xs \<Longrightarrow> t' = t"
  by (cases t; cases t') (auto simp: tail_ok_def)

lemma parse_allowedips_loop_Some:
  assumes "parse_allowedip S (fst (strsep (CHR '','') s)) = Ok new" "tail_ok tail ips"
  shows "\<exists>tail'. tail_ok tail' (ips @ [new]) \<and> link_after tail new ips = (ips @ [new], tail') \<and>
    parse_allowedips_loop S ips tail warned (Some s) =
      parse_allowedips_loop S (ips @ [new]) tail'
        (if validate_netmask new then warned else warned @ [fst (strsep (CHR '','') s)])
        (snd (strsep (CHR '','') s))"
proof -
  obtain ips' tail' where l: "link_after tail new ips = (ips', tail')" by fastforce
  with link_after_ok [OF assms(2), of new] have ok: "ips' = ips @ [new]" "tail_ok tail' (ips @ [new])"
    by simp_all
  with l show ?thesis by (simp add: parse_allowedips_loop.simps(2) assms(1))
qed

lemma parse_allowedips_loop_iff:
  assumes "tail_ok tail ips"
  shows "parse_allowedips_loop S ips tail warned s = Ok r \<longleftrightarrow>
    (\<exists>news tail'. list_all2 (\<lambda>e n. parse_allowedip S e = Ok n) (entries s) news \<and>
       tail_ok tail' (ips @ news) \<and>
       r = (ips @ news, tail', warned @ map fst (filter (\<lambda>(e, n). \<not> validate_netmask n) (zip (entries s) news))))"
  using assms
proof (induction s arbitrary: ips tail warned rule: entries.induct)
  case 1
  then show ?case by (auto dest: tail_ok_unique)
next
  case (2 s)
  let ?e = "fst (strsep (CHR '','') s)" and ?r = "snd (strsep (CHR '','') s)"
  show ?case
  proof (cases "parse_allowedip S ?e")
    case (Ok new)
    let ?w = "if validate_netmask new then warned else warned @ [?e]"
    from parse_allowedips_loop_Some [OF Ok 2(2), of warned]
    obtain tail' where ok: "tail_ok tail' (ips @ [new])"
      and eq: "parse_allowedips_loop S ips tail warned (Some s) =
        parse_allowedips_loop S (ips @ [new]) tail' ?w ?r" by blast
    have w: "?w @ ws = warned @ (if validate_netmask new then ws else ?e # ws)" for ws by simp
    show ?thesis
      unfolding eq 2(1) [OF ok, of ?w] w
      by (cases "validate_netmask new") (fastforce simp: entries.simps(2) list_all2_Cons1 Ok)+
  qed (simp_all add: parse_allowedips_loop.simps(2) entries.simps(2) list_all2_Cons1)
qed

lemma parse_allowedip_safe: "parse_allowedip S e \<noteq> Fault" "parse_allowedip S e \<noteq> Hang"
  by (auto simp: parse_allowedip_def parse_ip_def Let_def res_simps split: prod.splits option.splits)

lemma parse_allowedips_loop_safe:
  "parse_allowedips_loop S ips tail warned s \<noteq> Fault \<and> parse_allowedips_loop S ips tail warned s \<noteq> Hang"
proof (induction S ips tail warned s rule: parse_allowedips_loop.induct)
  case (2 S ips tail warned s)
  show ?case
  proof (cases "parse_allowedip S (fst (strsep (CHR '','') s))")
    case (Ok new)
    obtain ips' tail' where l: "link_after tail new ips = (ips', tail')" by fastforce
    with 2 [OF l [symmetric] refl] show ?thesis by (simp add: parse_allowedips_loop.simps(2) Ok)
  qed (use parse_allowedip_safe in \<open>auto simp: parse_allowedips_loop.simps(2)\<close>)
qed simp

text \<open>An accepted entry is well-formed when the address parser returns addresses of their size.\<close>

lemma parse_allowedip_wf:
  assumes S: "pton_sizes S" and ok: "parse_allowedip S e = Ok a"
  shows "wf_allowedip a"
proof -
  obtain ip mask where e: "strsep (CHR ''/'') e = (ip, mask)" by fastforce
  from ok e obtain new where new: "parse_ip S zero_allowedip ip = Ok new"
    by (auto simp: parse_allowedip_def res_simps)
  then obtain bs where fam: "a_family new = AF_INET \<or> a_family new = AF_INET6"
    and bs: "inet_pton S (a_family new) ip = Some bs" and ip: "a_ip new = store_ip bs (replicate 16 0)"
    by (auto simp: parse_ip_def zero_allowedip_def Let_def split: option.splits)
  have "length bs = 4 \<or> length bs = 16"
    using pton_sizesD [OF S bs] fam by (auto simp: addr_len_def)
  then have len: "length (a_ip new) = 16" by (auto simp: ip store_ip_def)
  have cidr: "c \<le> 128 \<Longrightarrow> unat (of_nat c :: u8) = c" for c
    by (simp add: unsigned_of_nat take_bit_nat_eq_self)
  from ok e new fam len show ?thesis
    by (auto simp: parse_allowedip_def wf_allowedip_def max_cidr_def cidr not_less
        split: option.splits prod.splits if_splits)
qed

text \<open>Without a mask there is no host part to warn of, so the warning never prints a missing mask.\<close>

lemma parse_allowedip_no_mask:
  assumes "parse_allowedip S e = Ok a" "CHR ''/'' \<notin> set e"
  shows "unat (a_cidr a) = max_cidr (a_family a)" and "validate_netmask a"
proof -
  from assms show c: "unat (a_cidr a) = max_cidr (a_family a)"
    by (auto simp: parse_allowedip_def strsep_last parse_ip_def max_cidr_def Let_def res_simps
        split: option.splits if_splits)
  from assms have "a_family a = AF_INET \<or> a_family a = AF_INET6"
    by (auto simp: parse_allowedip_def strsep_last parse_ip_def Let_def res_simps
        split: option.splits if_splits)
  with c show "validate_netmask a" by (auto simp: validate_netmask_iff)
qed

lemma parse_allowedips_iff:
  assumes "tail_ok tail (first_allowedip p)"
  shows "parse_allowedips S p tail v = Ok (p', tail', warned) \<longleftrightarrow>
    (if v = [] then p' = p\<lparr>peer_flags := peer_flags p OR WGPEER_REPLACE_ALLOWEDIPS\<rparr> \<and>
       tail' = tail \<and> warned = []
     else \<exists>news. list_all2 (\<lambda>e n. parse_allowedip S e = Ok n) (entries (Some v)) news \<and>
       p' = p\<lparr>peer_flags := peer_flags p OR WGPEER_REPLACE_ALLOWEDIPS,
         first_allowedip := first_allowedip p @ news\<rparr> \<and>
       tail_ok tail' (first_allowedip p') \<and>
       warned = map fst (filter (\<lambda>(e, n). \<not> validate_netmask n) (zip (entries (Some v)) news)))"
proof (cases "v = []")
  case False
  let ?q = "p\<lparr>peer_flags := peer_flags p OR WGPEER_REPLACE_ALLOWEDIPS\<rparr>"
  have "parse_allowedips S p tail v = Ok (p', tail', warned) \<longleftrightarrow>
      (\<exists>ips. parse_allowedips_loop S (first_allowedip p) tail [] (Some v) = Ok (ips, tail', warned) \<and>
        p' = ?q\<lparr>first_allowedip := ips\<rparr>)"
    using False by (auto simp: parse_allowedips_def Let_def res_simps split: prod.splits)
  with False show ?thesis
    unfolding parse_allowedips_loop_iff [OF assms] by fastforce
qed (auto simp: parse_allowedips_def)

lemma parse_allowedips_safe:
  "parse_allowedips S p tail v \<noteq> Fault" "parse_allowedips S p tail v \<noteq> Hang"
  using parse_allowedips_loop_safe by (auto simp: parse_allowedips_def Let_def res_simps split: prod.splits)

section \<open>Keys and key files\<close>

lemma parse_key_iff: "parse_key v = Ok k \<longleftrightarrow> length k = WG_KEY_LEN \<and> v = key_to_base64 k"
  by (cases "key_from_base64 v") (auto simp: parse_key_def b64.read_iff [symmetric])

lemma parse_key_safe [simp]: "parse_key v \<noteq> Fault" "parse_key v \<noteq> Hang" "parse_key v \<noteq> Exit e"
  by (auto simp: parse_key_def split: option.splits)

lemma parse_keyfile_length: "parse_keyfile S path = Ok k \<Longrightarrow> length k = WG_KEY_LEN"
  by (auto simp: parse_keyfile_def Let_def zero_key_def parse_key_iff split: option.splits list.splits if_splits)

lemma parse_keyfile_safe [simp]: "parse_keyfile S path \<noteq> Fault" "parse_keyfile S path \<noteq> Hang"
  by (auto simp: parse_keyfile_def Let_def split: option.splits list.splits if_splits)

section \<open>Splitting an endpoint\<close>

lemma split_endpoint_brackets:
  assumes "CHR '']'' \<notin> set host" "port \<noteq> []" "NUL \<notin> set port"
  shows "split_endpoint (CHR ''['' # host @ '']:'' @ port) = Ok (host, port)"
proof -
  have i: "strchr (CHR ''['' # host @ '']:'' @ port) (CHR '']'') = Some (Suc (length host))"
    using strchr_append [OF assms(1), of "CHR '':'' # port"] by simp
  have "c_at (CHR ''['' # host @ '']:'' @ port) (Suc (length host) + 2) = port ! 0"
    using assms(2) by (simp add: c_at_def nth_append)
  moreover have "port ! 0 \<noteq> NUL" using assms(2,3) by (cases port) auto
  moreover have "c_at (CHR ''['' # host @ '']:'' @ port) (Suc (length host) + 1) = CHR '':''"
    by (simp add: c_at_def nth_append)
  ultimately show ?thesis unfolding split_endpoint_def i by simp
qed

lemma split_endpoint_plain:
  assumes "CHR '':'' \<notin> set port" "port \<noteq> []" "NUL \<notin> set port" "c_at host 0 \<noteq> CHR ''[''"
  shows "split_endpoint (host @ CHR '':'' # port) = Ok (host, port)"
proof -
  have h: "c_at (host @ CHR '':'' # port) 0 \<noteq> CHR ''[''"
    using assms(4) by (cases host) auto
  have i: "strrchr (host @ CHR '':'' # port) (CHR '':'') = Some (length host)"
    by (rule strrchr_append [OF assms(1)])
  have "c_at (host @ CHR '':'' # port) (length host + 1) = port ! 0"
    using assms(2) by (simp add: c_at_def nth_append)
  moreover have "port ! 0 \<noteq> NUL" using assms(2,3) by (cases port) auto
  ultimately show ?thesis using h by (simp add: split_endpoint_def i)
qed

lemma split_endpoint_safe [simp]:
  "split_endpoint v \<noteq> Fault" "split_endpoint v \<noteq> Hang" "split_endpoint v \<noteq> Exit e"
  by (auto simp: split_endpoint_def split: option.splits)

section \<open>The resolution loop\<close>

text \<open>The loop stops at an answer, at a permanent error, and when the retries are used up.\<close>

definition resolve_stops :: "(nat \<Rightarrow> gai_error + addrinfo) \<Rightarrow> int \<Rightarrow> nat \<Rightarrow> bool" where
  "resolve_stops q retries k \<longleftrightarrow>
     (case q k of Inr _ \<Rightarrow> True | Inl e \<Rightarrow> gai_permanent e) \<or> retries = int k"

text \<open>The microseconds before the retry after attempt \<open>k\<close>.\<close>

definition backoff :: "nat \<Rightarrow> nat" where
  "backoff k = (next_timeout ^^ k) 1000000"

lemma next_timeout_bounds:
  assumes "1000000 \<le> t" "t \<le> 20000000"
  shows "t \<le> next_timeout t" and "next_timeout t \<le> 20000000" and "5 * next_timeout t \<le> 6 * t"
  using assms by (auto simp: next_timeout_def)

lemma backoff_bounds: "1000000 \<le> backoff k \<and> backoff k \<le> 20000000"
  by (induction k) (use next_timeout_bounds in \<open>force simp: backoff_def\<close>)+

lemma backoff_mono: "backoff k \<le> backoff (Suc k)"
  using next_timeout_bounds(1) [of "backoff k"] backoff_bounds [of k] by (simp add: backoff_def)

lemma resolve_loop_run:
  assumes "\<And>i. n \<le> i \<Longrightarrow> i < n + d \<Longrightarrow> \<not> resolve_stops q R i" "resolve_stops q R (n + d)"
    and "R \<ge> 0 \<Longrightarrow> int n \<le> R" "r = (if R \<ge> 0 then R - int n else R)"
  shows "resolve_loop q n r (backoff n) slept =
    Some (q (n + d), slept @ map backoff [n ..< n + d])"
  using assms
proof (induction d arbitrary: n r slept)
  case 0
  then show ?case
    by (subst resolve_loop.simps) (auto simp: resolve_stops_def split: sum.splits)
next
  case (Suc d)
  have "\<not> resolve_stops q R n" using Suc.prems(1) [of n] by simp
  then obtain e where e: "q n = Inl e" "\<not> gai_permanent e" "R \<noteq> int n"
    by (auto simp: resolve_stops_def split: sum.splits)
  let ?r = "if r \<ge> 0 then r - 1 else r"
  have "resolve_loop q n r (backoff n) slept =
      resolve_loop q (Suc n) ?r (backoff (Suc n)) (slept @ [backoff n])"
    using e Suc.prems(3,4) by (subst resolve_loop.simps) (simp add: backoff_def)
  also have "\<dots> = Some (q (Suc n + d), (slept @ [backoff n]) @ map backoff [Suc n ..< Suc n + d])"
    using Suc.prems e(3) by (intro Suc.IH) (auto simp: Suc_le_eq order_less_le)
  finally show ?case by (simp add: upt_conv_Cons del: upt_Suc)
qed

lemma resolve_loop_SomeD:
  assumes "resolve_loop q n R t slept = Some r"
  shows "R < 0 \<longrightarrow> (\<exists>k\<ge>n. case q k of Inr _ \<Rightarrow> True | Inl e \<Rightarrow> gai_permanent e)"
proof (rule resolve_loop.raw_induct [OF _ assms,
      where P = "\<lambda>q n R t slept r. R < 0 \<longrightarrow> (\<exists>k\<ge>n. case q k of Inr _ \<Rightarrow> True | Inl e \<Rightarrow> gai_permanent e)"],
      rule impI)
  fix loop q n and R :: int and t slept r
  assume IH: "\<And>q n R t slept r. loop q n R t slept = Some r \<Longrightarrow>
      R < 0 \<longrightarrow> (\<exists>k\<ge>n. case q k of Inr _ \<Rightarrow> True | Inl e \<Rightarrow> gai_permanent e)"
    and body: "(case q n of Inl e \<Rightarrow>
          if gai_permanent e \<or> 0 \<le> R \<and> R = 0 then Some (Inl e, slept)
          else loop q (Suc n) (if 0 \<le> R then R - 1 else R) (next_timeout t) (slept @ [t])
        | Inr ai \<Rightarrow> Some (Inr ai, slept)) = Some r"
    and R: "R < 0"
  show "\<exists>k\<ge>n. case q k of Inr _ \<Rightarrow> True | Inl e \<Rightarrow> gai_permanent e"
  proof (cases "case q n of Inr _ \<Rightarrow> True | Inl e \<Rightarrow> gai_permanent e")
    case False
    with body R have "loop q (Suc n) R (next_timeout t) (slept @ [t]) = Some r"
      by (simp split: sum.splits)
    from IH [OF this] R show ?thesis using Suc_leD by blast
  qed blast
qed

text \<open>What the loop returns, and when it does not.\<close>

lemma resolve_loop_eq:
  assumes "resolve_stops q R k" "\<forall>i<k. \<not> resolve_stops q R i"
  shows "resolve_loop q 0 R 1000000 [] = Some (q k, map backoff [0..<k])"
  using resolve_loop_run [of 0 k q R R "[]"] assms by (simp add: backoff_def)

lemma resolve_loop_None_iff:
  "resolve_loop q 0 R 1000000 [] = None \<longleftrightarrow> (\<forall>k. \<not> resolve_stops q R k)"
proof
  assume *: "resolve_loop q 0 R 1000000 [] = None"
  show "\<forall>k. \<not> resolve_stops q R k"
  proof (rule ccontr)
    assume "\<not> ?thesis"
    then have "\<exists>k. resolve_stops q R k" by blast
    then obtain k where "resolve_stops q R k" "\<forall>i<k. \<not> resolve_stops q R i"
      using exists_least_iff [of "resolve_stops q R"] by blast
    from resolve_loop_eq [OF this] * show False by simp
  qed
next
  assume *: "\<forall>k. \<not> resolve_stops q R k"
  have "R < 0"
  proof (rule ccontr)
    assume "\<not> R < 0"
    then have "resolve_stops q R (nat R)" by (simp add: resolve_stops_def)
    with * show False by blast
  qed
  with * show "resolve_loop q 0 R 1000000 [] = None"
    using resolve_loop_SomeD [of q 0 R 1000000 "[]"]
    by (cases "resolve_loop q 0 R 1000000 []") (auto simp: resolve_stops_def)
qed

text \<open>With a number of retries the loop ends after at most that many.\<close>

lemma resolve_loop_finite:
  assumes "R \<ge> 0"
  obtains k where "k \<le> nat R" "resolve_stops q R k" "\<forall>i<k. \<not> resolve_stops q R i"
    and "resolve_loop q 0 R 1000000 [] = Some (q k, map backoff [0..<k])"
proof -
  have "resolve_stops q R (nat R)" using assms by (simp add: resolve_stops_def)
  then have "\<exists>k. resolve_stops q R k" by blast
  then obtain k where k: "resolve_stops q R k" "\<forall>i<k. \<not> resolve_stops q R i"
    using exists_least_iff [of "resolve_stops q R"] by blast
  moreover have "k \<le> nat R"
    using k(2) \<open>resolve_stops q R (nat R)\<close> by (meson not_le_imp_less)
  ultimately show ?thesis using resolve_loop_eq [OF k] that by blast
qed

lemma parse_dns_retries_range: "parse_dns_retries S = Ok n \<Longrightarrow> n = -1 \<and> getenv S ''WG_ENDPOINT_RESOLUTION_RETRIES'' = Some ''infinity'' \<or> 0 \<le> n \<and> n < 2 ^ 31"
  by (auto simp: parse_dns_retries_def split: option.splits prod.splits if_splits)

lemma parse_endpoint_no_Fault [simp]: "parse_endpoint S v \<noteq> Fault"
  by (auto simp: parse_endpoint_def parse_dns_retries_def Let_def res_simps split: option.splits prod.splits sum.splits if_splits)

text \<open>Parsing an endpoint does not return exactly when no answer of the resolver ends the loop.\<close>

lemma parse_endpoint_Hang:
  "parse_endpoint S v = Hang \<longleftrightarrow>
     (\<exists>R b e. parse_dns_retries S = Ok R \<and> split_endpoint v = Ok (b, e) \<and>
        (\<forall>k. \<not> resolve_stops (\<lambda>n. getaddrinfo S n (Some b) e) R k))"
proof -
  have "parse_dns_retries S \<noteq> Hang"
    by (auto simp: parse_dns_retries_def split: option.splits prod.splits if_splits)
  moreover have "split_endpoint v \<noteq> Hang"
    by (auto simp: split_endpoint_def Let_def split: option.splits if_splits)
  moreover have "parse_endpoint S v = Hang \<longleftrightarrow> resolve_loop (\<lambda>n. getaddrinfo S n (Some b) e) 0 R 1000000 [] = None"
    if "parse_dns_retries S = Ok R" "split_endpoint v = Ok (b, e)" for R b e
    using that by (auto simp: parse_endpoint_def split: option.split sum.split)
  moreover have "\<exists>R. parse_dns_retries S = Ok R" "\<exists>b e. split_endpoint v = Ok (b, e)" if "parse_endpoint S v = Hang"
    using that calculation(1,2) by (auto simp: parse_endpoint_def res_simps)
  ultimately show ?thesis unfolding resolve_loop_None_iff [symmetric] by metis
qed

section \<open>Properties\<close>

text \<open>A firewall mark is accepted exactly when it is \<^verbatim>\<open>off\<close>, a decimal number or a
  \<^verbatim>\<open>0x\<close> hexadecimal number that fits in 32 bits, and its value is that number.\<close>

theorem fwmark_accepts:
  "parse_fwmark flags v = Ok (m, flags') \<longleftrightarrow>
     flags' = flags OR WGDEVICE_HAS_FWMARK \<and>
     (strcaseeq v ''off'' \<and> m = 0 \<or>
      is_number 10 v \<and> num_of 10 v \<le> 2 ^ 32 - 1 \<and> m = of_nat (num_of 10 v) \<or>
      (\<exists>ds. v = ''0x'' @ ds \<and> is_number 16 ds \<and> num_of 16 ds \<le> 2 ^ 32 - 1 \<and> m = of_nat (num_of 16 ds)))"
  by (rule parse_fwmark_iff)

text \<open>The mask check over 32-bit words of the address accepts an allowed address exactly when every
  bit behind its prefix length is zero.\<close>

theorem netmask_check_by_bits:
  assumes "a_family a = AF_INET \<or> a_family a = AF_INET6"
  shows "validate_netmask a \<longleftrightarrow>
    (\<forall>j. unat (a_cidr a) \<le> j \<and> j < max_cidr (a_family a) \<longrightarrow> \<not> addr_bit (a_ip a) j)"
  using assms by (rule validate_netmask_iff)

theorem netmask_check_by_bits_witness:
  "\<not> addr_bit [192, 168, 0, 0, 0, 0, 0, 0, 0, 0, 0, 0, 0, 0, 0, 0] 20"
proof -
  let ?a = "\<lparr>a_family = AF_INET, a_ip = [192, 168, 0, 0, 0, 0, 0, 0, 0, 0, 0, 0, 0, 0, 0, 0], a_cidr = 16\<rparr>"
  have "validate_netmask ?a" by code_simp
  then show ?thesis using netmask_check_by_bits [of ?a] by (simp add: max_cidr_def)
qed

text \<open>C23. A list of allowed addresses is read completely or refused: on success every entry between the
  commas is a well-formed address, they are appended to the peer's list in their order, and the
  entries with bits behind their prefix are the ones warned of.\<close>

theorem allowedips_appended:
  assumes "tail_ok tail (first_allowedip p)" "pton_sizes S" "v \<noteq> []"
    and "parse_allowedips S p tail v = Ok (p', tail', warned)"
  shows "\<exists>news. list_all2 (\<lambda>e n. parse_allowedip S e = Ok n) (entries (Some v)) news \<and>
    first_allowedip p' = first_allowedip p @ news \<and> list_all wf_allowedip news \<and>
    tail_ok tail' (first_allowedip p') \<and>
    warned = map fst (filter (\<lambda>(e, n). \<not> validate_netmask n) (zip (entries (Some v)) news))"
proof -
  from assms(3,4) obtain news where n: "list_all2 (\<lambda>e n. parse_allowedip S e = Ok n) (entries (Some v)) news"
    "first_allowedip p' = first_allowedip p @ news" "tail_ok tail' (first_allowedip p')"
    "warned = map fst (filter (\<lambda>(e, n). \<not> validate_netmask n) (zip (entries (Some v)) news))"
    by (auto simp: parse_allowedips_iff [OF assms(1)])
  moreover have "list_all wf_allowedip news"
    using n(1) by (induction rule: list_all2_induct) (auto intro: parse_allowedip_wf [OF assms(2)])
  ultimately show ?thesis by blast
qed

theorem allowedips_appended_witness:
  "list_all wf_allowedip [\<lparr>a_family = AF_INET6, a_ip = sample_ip6, a_cidr = 128\<rparr>]"
proof -
  let ?a = "\<lparr>a_family = AF_INET6, a_ip = sample_ip6, a_cidr = 128\<rparr>"
  have a: "parse_allowedip sample_sys ''fd00::'' = Ok ?a"
    by (simp add: parse_allowedip_def strsep_last parse_ip_def zero_allowedip_def sample_sys_def sample_ip6_def
        store_ip_def)
  have mask: "validate_netmask ?a" by (rule parse_allowedip_no_mask(2) [OF a]) simp
  have "strsep (CHR '','') ''fd00::'' = (''fd00::'', None)" by (simp add: strsep_last)
  with a mask have ok: "parse_allowedips sample_sys zero_peer None ''fd00::'' =
      Ok (zero_peer\<lparr>peer_flags := WGPEER_REPLACE_ALLOWEDIPS, first_allowedip := [?a]\<rparr>, Some 0, [])"
    by (simp add: parse_allowedips_def parse_allowedips_loop.simps zero_peer_def)
  have "tail_ok None (first_allowedip zero_peer)" by (simp add: zero_peer_def)
  from allowedips_appended [OF this pton_sizes_sample _ ok] show ?thesis by (auto simp: zero_peer_def)
qed

text \<open>A number setting is kept in 32 bits before its range check, so a value that exceeds a multiple
  of \<open>2 ^ 32\<close> by at most 65535 is accepted as the excess.\<close>

theorem uint16_wraps:
  assumes "n \<le> 65535" "k < 2 ^ 32"
  shows "parse_uint16 name (udec (2 ^ 32 * k + n)) = Ok (of_nat n)"
  using assms by (rule parse_uint16_wraps)

theorem uint16_wraps_witness:
  "parse_uint16 ''Jc'' (udec (2 ^ 32 * 1 + 4)) = Ok 4"
  using uint16_wraps [of 4 1 "''Jc''"] by simp

text \<open>C24. With a bound on the retries the resolution loop ends within that bound: its answer is that of
  the first attempt that succeeds, fails for good or is the last allowed, and it has slept between
  one and twenty seconds before each retry, never less than before.\<close>

theorem resolution_bounded:
  assumes "R \<ge> 0"
  shows "\<exists>k \<le> nat R. resolve_stops q R k \<and> (\<forall>i<k. \<not> resolve_stops q R i) \<and>
    resolve_loop q 0 R 1000000 [] = Some (q k, map backoff [0..<k]) \<and>
    (\<forall>i. 1000000 \<le> backoff i \<and> backoff i \<le> backoff (Suc i) \<and> backoff i \<le> 20000000)"
  using assms backoff_bounds backoff_mono by (metis resolve_loop_finite)

theorem resolution_bounded_witness:
  "\<exists>k \<le> nat 2. resolve_loop (\<lambda>n. Inl EAI_SYSTEM) 0 2 1000000 [] = Some (Inl EAI_SYSTEM, map backoff [0..<k])"
  using resolution_bounded [of 2 "\<lambda>n. Inl EAI_SYSTEM"] by auto

text \<open>C25. Parsing an endpoint never follows a null pointer.  It returns, with the one exception that the environment asks for
  endless retries, the endpoint has a host and a service, and every answer of the resolver for them is a failure other than the three
  permanent ones.\<close>

theorem endpoint_returns:
  "parse_endpoint S v \<noteq> Fault \<and>
   (parse_endpoint S v = Hang \<longleftrightarrow>
      getenv S ''WG_ENDPOINT_RESOLUTION_RETRIES'' = Some ''infinity'' \<and>
      (\<exists>host service. split_endpoint v = Ok (host, service) \<and>
         (\<forall>n. \<exists>e. getaddrinfo S n (Some host) service = Inl e \<and> e \<notin> {EAI_NONAME, EAI_FAIL, EAI_NODATA})))"
proof -
  let ?q = "\<lambda>host service n. getaddrinfo S n (Some host) service"
  have stops: "resolve_stops q (- 1) k \<longleftrightarrow> \<not> (\<exists>e. q k = Inl e \<and> e \<notin> {EAI_NONAME, EAI_FAIL, EAI_NODATA})" for q k
    by (auto simp: resolve_stops_def gai_permanent_def split: sum.splits)
  have "R = - 1 \<and> getenv S ''WG_ENDPOINT_RESOLUTION_RETRIES'' = Some ''infinity''"
    if "parse_dns_retries S = Ok R" "\<forall>k. \<not> resolve_stops q R k" for R q
    using parse_dns_retries_range [OF that(1)] that(2) [THEN spec, of "nat R"] by (auto simp: resolve_stops_def)
  moreover have "parse_dns_retries S = Ok (- 1)" if "getenv S ''WG_ENDPOINT_RESOLUTION_RETRIES'' = Some ''infinity''"
    using that by (simp add: parse_dns_retries_def)
  ultimately have "parse_endpoint S v = Hang \<longleftrightarrow> getenv S ''WG_ENDPOINT_RESOLUTION_RETRIES'' = Some ''infinity'' \<and>
      (\<exists>host service. split_endpoint v = Ok (host, service) \<and> (\<forall>k. \<not> resolve_stops (?q host service) (- 1) k))"
    unfolding parse_endpoint_Hang by blast
  then show ?thesis unfolding stops by simp
qed

end
