(* ===== verification/Config.thy ===== *)
theory Config
  imports Config_Values
begin

text \<open>
  \<^verbatim>\<open>config.c\<close>: the reader of configuration files, a line at a time, and the reader of the
  arguments of \<^verbatim>\<open>wg set\<close>.  Both build a device with its peers, and both end with the
  device freed when a value is refused, which is the outcome \<^term>\<open>Fail\<close> here.
\<close>

section \<open>The state of the readers\<close>

text \<open>\<^verbatim>\<open>struct config_ctx\<close>; the last field collects the warnings printed on the way.  The
  reader of arguments has the first three fields as its local variables.\<close>

record config_ctx =
  ctx_device :: wgdevice
  last_peer :: "nat option"
  last_allowedip :: "nat option"
  is_peer_section :: bool
  is_device_section :: bool
  ctx_warned :: "string list"

text \<open>Accesses through \<^verbatim>\<open>ctx->device\<close> and \<^verbatim>\<open>ctx->last_peer\<close>; a null peer faults.\<close>

definition on_device :: "(wgdevice \<Rightarrow> (diag, wgdevice) res) \<Rightarrow> config_ctx \<Rightarrow> (diag, config_ctx) res" where
  "on_device f ctx = res_bind (f (ctx_device ctx)) (\<lambda>d. Ok (ctx\<lparr>ctx_device := d\<rparr>))"

definition on_last_peer ::
  "(wgpeer \<Rightarrow> nat option \<Rightarrow> (diag, wgpeer \<times> nat option \<times> string list) res) \<Rightarrow> config_ctx
   \<Rightarrow> (diag, config_ctx) res"
where
  "on_last_peer f ctx =
     (case last_peer ctx of
        None \<Rightarrow> Fault
      | Some i \<Rightarrow>
          let d = ctx_device ctx; peers = first_peer d in
          if i < length peers then
            res_bind (f (peers ! i) (last_allowedip ctx)) (\<lambda>(p, ips, warned).
              Ok (ctx\<lparr>ctx_device := d\<lparr>first_peer := peers[i := p]\<rparr>, last_allowedip := ips,
                ctx_warned := ctx_warned ctx @ warned\<rparr>))
          else Fault)"

text \<open>A setting that touches the peer only.\<close>

definition set_peer ::
  "(wgpeer \<Rightarrow> (diag, wgpeer) res) \<Rightarrow> wgpeer \<Rightarrow> nat option \<Rightarrow> (diag, wgpeer \<times> nat option \<times> string list) res"
where
  "set_peer f p ips = res_bind (f p) (\<lambda>p'. Ok (p', ips, []))"

definition link_new_peer :: "wgpeer \<Rightarrow> config_ctx \<Rightarrow> config_ctx" where
  "link_new_peer new_peer ctx =
     (let d = ctx_device ctx; (peers, tail) = link_after (last_peer ctx) new_peer (first_peer d)
      in ctx\<lparr>ctx_device := d\<lparr>first_peer := peers\<rparr>, last_peer := tail, last_allowedip := None\<rparr>)"

section \<open>Settings\<close>

text \<open>What a line of a file and an argument of \<^verbatim>\<open>wg set\<close> do alike: parse the value, store it,
  set its flag.\<close>

definition set_port :: "sys \<Rightarrow> string \<Rightarrow> wgdevice \<Rightarrow> (diag, wgdevice) res" where
  "set_port S value d =
     res_bind (parse_port S (dev_flags d) value) (\<lambda>(p, fl). Ok (d\<lparr>listen_port := p, dev_flags := fl\<rparr>))"

definition set_fwmark :: "string \<Rightarrow> wgdevice \<Rightarrow> (diag, wgdevice) res" where
  "set_fwmark value d =
     res_bind (parse_fwmark (dev_flags d) value) (\<lambda>(m, fl). Ok (d\<lparr>fwmark := m, dev_flags := fl\<rparr>))"

definition set_private_key :: "(diag, bytes) res \<Rightarrow> wgdevice \<Rightarrow> (diag, wgdevice) res" where
  "set_private_key parsed d =
     res_bind parsed (\<lambda>k. Ok (d\<lparr>private_key := k, dev_flags := dev_flags d OR WGDEVICE_HAS_PRIVATE_KEY\<rparr>))"

definition set_uint16 ::
  "string \<Rightarrow> ((u16 \<Rightarrow> u16) \<Rightarrow> wgdevice \<Rightarrow> wgdevice) \<Rightarrow> u32 \<Rightarrow> string \<Rightarrow> wgdevice \<Rightarrow> (diag, wgdevice) res"
where
  "set_uint16 name upd flag value d =
     res_bind (parse_uint16 name value) (\<lambda>x.
       let d' = upd (\<lambda>_. x) d in Ok (d'\<lparr>dev_flags := dev_flags d' OR flag\<rparr>))"

definition set_awg_string ::
  "string \<Rightarrow> ((string option \<Rightarrow> string option) \<Rightarrow> wgdevice \<Rightarrow> wgdevice) \<Rightarrow> u32 \<Rightarrow> string \<Rightarrow> wgdevice
   \<Rightarrow> (diag, wgdevice) res"
where
  "set_awg_string name upd flag value d =
     res_bind (parse_awg_string name value) (\<lambda>s.
       let d' = upd (\<lambda>_. s) d in Ok (d'\<lparr>dev_flags := dev_flags d' OR flag\<rparr>))"

definition set_endpoint :: "sys \<Rightarrow> string \<Rightarrow> wgpeer \<Rightarrow> (diag, wgpeer) res" where
  "set_endpoint S value p = res_bind (parse_endpoint S value) (\<lambda>a. Ok (p\<lparr>endpoint := a\<rparr>))"

definition set_public_key :: "string \<Rightarrow> wgpeer \<Rightarrow> (diag, wgpeer) res" where
  "set_public_key value p =
     res_bind (parse_key value) (\<lambda>k.
       Ok (p\<lparr>peer_public_key := k, peer_flags := peer_flags p OR WGPEER_HAS_PUBLIC_KEY\<rparr>))"

definition set_keepalive :: "string \<Rightarrow> wgpeer \<Rightarrow> (diag, wgpeer) res" where
  "set_keepalive value p =
     res_bind (parse_persistent_keepalive (peer_flags p) value) (\<lambda>(k, fl).
       Ok (p\<lparr>persistent_keepalive_interval := k, peer_flags := fl\<rparr>))"

definition set_preshared_key :: "(diag, bytes) res \<Rightarrow> wgpeer \<Rightarrow> (diag, wgpeer) res" where
  "set_preshared_key parsed p =
     res_bind parsed (\<lambda>k.
       Ok (p\<lparr>preshared_key := k, peer_flags := peer_flags p OR WGPEER_HAS_PRESHARED_KEY\<rparr>))"

definition set_awg :: "string \<Rightarrow> wgpeer \<Rightarrow> (diag, wgpeer) res" where
  "set_awg value p =
     res_bind (parse_bool ''AdvancedSecurity'' value) (\<lambda>b.
       Ok (p\<lparr>awg := b, peer_flags := peer_flags p OR WGPEER_HAS_AWG\<rparr>))"

section \<open>Lines of a configuration file\<close>

definition get_value :: "string \<Rightarrow> string \<Rightarrow> string option" where
  "get_value line key =
     (if length key \<ge> length line then None
      else if \<not> strncaseeq (length key) line key then None
      else Some (drop (length key) line))"

text \<open>\<^verbatim>\<open>if (key_match(key)) f(value) else rest\<close>.\<close>

definition key_match :: "string \<Rightarrow> string \<Rightarrow> (string \<Rightarrow> 'r) \<Rightarrow> 'r \<Rightarrow> 'r" where
  "key_match line key f rest = (case get_value line (key @ ''='') of Some v \<Rightarrow> f v | None \<Rightarrow> rest)"

definition process_device_line :: "sys \<Rightarrow> string \<Rightarrow> wgdevice \<Rightarrow> (diag, wgdevice) res" where
  "process_device_line S line d =
     key_match line ''ListenPort'' (\<lambda>v. set_port S v d) (
     key_match line ''FwMark'' (\<lambda>v. set_fwmark v d) (
     key_match line ''PrivateKey'' (\<lambda>v. set_private_key (parse_key v) d) (
     key_match line ''Jc'' (\<lambda>v. set_uint16 ''Jc'' junk_packet_count_update WGDEVICE_HAS_JC v d) (
     key_match line ''Jmin'' (\<lambda>v. set_uint16 ''Jmin'' junk_packet_min_size_update WGDEVICE_HAS_JMIN v d) (
     key_match line ''Jmax'' (\<lambda>v. set_uint16 ''Jmax'' junk_packet_max_size_update WGDEVICE_HAS_JMAX v d) (
     key_match line ''S1'' (\<lambda>v. set_uint16 ''S1'' init_packet_junk_size_update WGDEVICE_HAS_S1 v d) (
     key_match line ''S2'' (\<lambda>v. set_uint16 ''S2'' response_packet_junk_size_update WGDEVICE_HAS_S2 v d) (
     key_match line ''S3'' (\<lambda>v. set_uint16 ''S3'' cookie_reply_packet_junk_size_update WGDEVICE_HAS_S3 v d) (
     key_match line ''S4'' (\<lambda>v. set_uint16 ''S4'' transport_packet_junk_size_update WGDEVICE_HAS_S4 v d) (
     key_match line ''H1'' (\<lambda>v. set_awg_string ''H1'' init_packet_magic_header_update WGDEVICE_HAS_H1 v d) (
     key_match line ''H2'' (\<lambda>v. set_awg_string ''H2'' response_packet_magic_header_update WGDEVICE_HAS_H2 v d) (
     key_match line ''H3'' (\<lambda>v. set_awg_string ''H3'' underload_packet_magic_header_update WGDEVICE_HAS_H3 v d) (
     key_match line ''H4'' (\<lambda>v. set_awg_string ''H4'' transport_packet_magic_header_update WGDEVICE_HAS_H4 v d) (
     key_match line ''I1'' (\<lambda>v. set_awg_string ''I1'' i1_update WGDEVICE_HAS_I1 v d) (
     key_match line ''I2'' (\<lambda>v. set_awg_string ''I2'' i2_update WGDEVICE_HAS_I2 v d) (
     key_match line ''I3'' (\<lambda>v. set_awg_string ''I3'' i3_update WGDEVICE_HAS_I3 v d) (
     key_match line ''I4'' (\<lambda>v. set_awg_string ''I4'' i4_update WGDEVICE_HAS_I4 v d) (
     key_match line ''I5'' (\<lambda>v. set_awg_string ''I5'' i5_update WGDEVICE_HAS_I5 v d) (
     Fail (D_line line))))))))))))))))))))"

definition process_peer_line :: "sys \<Rightarrow> string \<Rightarrow> config_ctx \<Rightarrow> (diag, config_ctx) res" where
  "process_peer_line S line ctx =
     key_match line ''Endpoint'' (\<lambda>v. on_last_peer (set_peer (set_endpoint S v)) ctx) (
     key_match line ''PublicKey'' (\<lambda>v. on_last_peer (set_peer (set_public_key v)) ctx) (
     key_match line ''AllowedIPs'' (\<lambda>v. on_last_peer (\<lambda>p ips. parse_allowedips S p ips v) ctx) (
     key_match line ''PersistentKeepalive'' (\<lambda>v. on_last_peer (set_peer (set_keepalive v)) ctx) (
     key_match line ''PresharedKey'' (\<lambda>v. on_last_peer (set_peer (set_preshared_key (parse_key v))) ctx) (
     key_match line ''AdvancedSecurity'' (\<lambda>v. on_last_peer (set_peer (set_awg v)) ctx) (
     Fail (D_line line)))))))"

definition process_line :: "sys \<Rightarrow> config_ctx \<Rightarrow> string \<Rightarrow> (diag, config_ctx) res" where
  "process_line S ctx line =
     (if strcaseeq line ''[Interface]''
      then Ok (ctx\<lparr>is_peer_section := False, is_device_section := True\<rparr>)
      else if strcaseeq line ''[Peer]''
      then on_last_peer (set_peer (\<lambda>p. Ok (p\<lparr>peer_flags := peer_flags p OR WGPEER_REPLACE_ALLOWEDIPS\<rparr>)))
             ((link_new_peer zero_peer ctx)\<lparr>is_peer_section := True, is_device_section := False\<rparr>)
      else if is_device_section ctx then on_device (process_device_line S line) ctx
      else if is_peer_section ctx then process_peer_line S line ctx
      else Fail (D_line line))"

text \<open>The first pass of the cleaning of an \<^verbatim>\<open>I1\<close> to \<^verbatim>\<open>I5\<close> line: the end of the value.
  The second: its state is what was written, \<^verbatim>\<open>found_equals\<close> and \<^verbatim>\<open>found_value_start\<close>.\<close>

abbreviation c_space :: "char \<Rightarrow> bool" where "c_space c \<equiv> char_is_space (char_int c)"

fun value_end :: "string \<Rightarrow> nat \<Rightarrow> nat" where
  "value_end input 0 = 0"
| "value_end input (Suc i) = (if \<not> c_space (input ! i) then Suc i else value_end input i)"

fun clean_step :: "string \<times> bool \<times> bool \<Rightarrow> char \<Rightarrow> string \<times> bool \<times> bool" where
  "clean_step (line, found_equals, found_value_start) c =
     (if \<not> found_equals then
        (if c = CHR ''='' then (line @ [c], True, found_value_start)
         else if \<not> c_space c then (line @ [c], found_equals, found_value_start)
         else (line, found_equals, found_value_start))
      else if \<not> found_value_start then
        (if \<not> c_space c then (line @ [c], found_equals, True)
         else (line, found_equals, found_value_start))
      else (line @ [c], found_equals, found_value_start))"

definition clean_special_handshake_line :: "string \<Rightarrow> nat \<Rightarrow> string" where
  "clean_special_handshake_line input len =
     fst (foldl clean_step ([], False, False) (take (value_end input len) input))"

definition awg_special_handshake_keys :: "string list" where
  "awg_special_handshake_keys = [''I1'', ''I2'', ''I3'', ''I4'', ''I5'']"

definition clean_line :: "string \<Rightarrow> string" where
  "clean_line input =
     (let len = (case strchr input (CHR ''#'') of Some i \<Rightarrow> i | None \<Rightarrow> length input) in
      if list_ex (strncaseeq 2 input) awg_special_handshake_keys
      then clean_special_handshake_line input len
      else filter (\<lambda>c. \<not> c_space c) (take len input))"

definition config_read_line :: "sys \<Rightarrow> config_ctx \<Rightarrow> string \<Rightarrow> (diag, config_ctx) res" where
  "config_read_line S ctx input =
     (let line = clean_line input in if line = [] then Ok ctx else process_line S ctx line)"

definition config_read_init :: "bool \<Rightarrow> config_ctx" where
  "config_read_init appending =
     \<lparr>ctx_device = (if appending then zero_device else zero_device\<lparr>dev_flags :=
          dev_flags zero_device OR (WGDEVICE_REPLACE_PEERS OR WGDEVICE_HAS_PRIVATE_KEY OR WGDEVICE_HAS_FWMARK)\<rparr>),
      last_peer = None, last_allowedip = None, is_peer_section = False, is_device_section = False,
      ctx_warned = []\<rparr>"

definition config_read_finish :: "config_ctx \<Rightarrow> (diag, wgdevice) res" where
  "config_read_finish ctx =
     (if list_all (\<lambda>p. has (peer_flags p) WGPEER_HAS_PUBLIC_KEY) (first_peer (ctx_device ctx))
      then Ok (ctx_device ctx) else Fail D_no_public_key)"

section \<open>Arguments of the set command\<close>

definition strip_spaces :: "string \<Rightarrow> string" where
  "strip_spaces s = filter (\<lambda>c. \<not> c_space c) s"

text \<open>\<^verbatim>\<open>if (!strcmp(argv[0], key) && argc >= 2 && guard) f(argv[1]) else rest\<close>.\<close>

definition arg_match :: "string list \<Rightarrow> string \<Rightarrow> bool \<Rightarrow> (string \<Rightarrow> 'r) \<Rightarrow> 'r \<Rightarrow> 'r" where
  "arg_match argv key guard f rest =
     (case argv of k # v # _ \<Rightarrow> if k = key \<and> guard then f v else rest | _ \<Rightarrow> rest)"

definition cmd_device_arg ::
  "sys \<Rightarrow> string list \<Rightarrow> bool \<Rightarrow> wgdevice \<Rightarrow> (diag, wgdevice) res option"
where
  "cmd_device_arg S argv no_peer d =
     arg_match argv ''listen-port'' no_peer (\<lambda>v. Some (set_port S v d)) (
     arg_match argv ''fwmark'' no_peer (\<lambda>v. Some (set_fwmark v d)) (
     arg_match argv ''private-key'' no_peer (\<lambda>v. Some (set_private_key (parse_keyfile S v) d)) (
     arg_match argv ''jc'' no_peer (\<lambda>v. Some (set_uint16 ''jc'' junk_packet_count_update WGDEVICE_HAS_JC v d)) (
     arg_match argv ''jmin'' no_peer (\<lambda>v. Some (set_uint16 ''jmin'' junk_packet_min_size_update WGDEVICE_HAS_JMIN v d)) (
     arg_match argv ''jmax'' no_peer (\<lambda>v. Some (set_uint16 ''jmax'' junk_packet_max_size_update WGDEVICE_HAS_JMAX v d)) (
     arg_match argv ''s1'' no_peer (\<lambda>v. Some (set_uint16 ''s1'' init_packet_junk_size_update WGDEVICE_HAS_S1 v d)) (
     arg_match argv ''s2'' no_peer (\<lambda>v. Some (set_uint16 ''s2'' response_packet_junk_size_update WGDEVICE_HAS_S2 v d)) (
     arg_match argv ''s3'' no_peer (\<lambda>v. Some (set_uint16 ''s3'' cookie_reply_packet_junk_size_update WGDEVICE_HAS_S3 v d)) (
     arg_match argv ''s4'' no_peer (\<lambda>v. Some (set_uint16 ''s4'' transport_packet_junk_size_update WGDEVICE_HAS_S4 v d)) (
     None))))))))))"

definition cmd_device_string_arg ::
  "string list \<Rightarrow> bool \<Rightarrow> wgdevice \<Rightarrow> (diag, wgdevice) res option"
where
  "cmd_device_string_arg argv no_peer d =
     arg_match argv ''h1'' no_peer (\<lambda>v. Some (set_awg_string ''h1'' init_packet_magic_header_update WGDEVICE_HAS_H1 v d)) (
     arg_match argv ''h2'' no_peer (\<lambda>v. Some (set_awg_string ''h2'' response_packet_magic_header_update WGDEVICE_HAS_H2 v d)) (
     arg_match argv ''h3'' no_peer (\<lambda>v. Some (set_awg_string ''h3'' underload_packet_magic_header_update WGDEVICE_HAS_H3 v d)) (
     arg_match argv ''h4'' no_peer (\<lambda>v. Some (set_awg_string ''h4'' transport_packet_magic_header_update WGDEVICE_HAS_H4 v d)) (
     arg_match argv ''i1'' no_peer (\<lambda>v. Some (set_awg_string ''i1'' i1_update WGDEVICE_HAS_I1 v d)) (
     arg_match argv ''i2'' no_peer (\<lambda>v. Some (set_awg_string ''i2'' i2_update WGDEVICE_HAS_I2 v d)) (
     arg_match argv ''i3'' no_peer (\<lambda>v. Some (set_awg_string ''i3'' i3_update WGDEVICE_HAS_I3 v d)) (
     arg_match argv ''i4'' no_peer (\<lambda>v. Some (set_awg_string ''i4'' i4_update WGDEVICE_HAS_I4 v d)) (
     arg_match argv ''i5'' no_peer (\<lambda>v. Some (set_awg_string ''i5'' i5_update WGDEVICE_HAS_I5 v d)) (
     None)))))))))"

text \<open>The arguments of a peer; \<^verbatim>\<open>remove\<close> has no value.\<close>

definition cmd_peer_arg :: "sys \<Rightarrow> string list \<Rightarrow> config_ctx \<Rightarrow> (diag, config_ctx \<times> string list) res" where
  "cmd_peer_arg S argv ctx =
     (let peer = (last_peer ctx \<noteq> None);
          on = (\<lambda>f. res_bind (on_last_peer f ctx) (\<lambda>ctx. Ok (ctx, drop 2 argv)))
      in
     arg_match argv ''peer'' True (\<lambda>v.
       res_bind (on_last_peer (set_peer (set_public_key v)) (link_new_peer zero_peer ctx))
         (\<lambda>ctx. Ok (ctx, drop 2 argv))) (
     if argv \<noteq> [] \<and> hd argv = ''remove'' \<and> peer
     then res_bind (on_last_peer (set_peer (\<lambda>p. Ok (p\<lparr>peer_flags := peer_flags p OR WGPEER_REMOVE_ME\<rparr>))) ctx)
            (\<lambda>ctx. Ok (ctx, drop 1 argv))
     else
     arg_match argv ''endpoint'' peer (\<lambda>v. on (set_peer (set_endpoint S v))) (
     arg_match argv ''allowed-ips'' peer (\<lambda>v. on (\<lambda>p ips. parse_allowedips S p ips (strip_spaces v))) (
     arg_match argv ''persistent-keepalive'' peer (\<lambda>v. on (set_peer (set_keepalive v))) (
     arg_match argv ''preshared-key'' peer (\<lambda>v. on (set_peer (set_preshared_key (parse_keyfile S v)))) (
     arg_match argv ''advanced-security'' peer (\<lambda>v. on (set_peer (set_awg v))) (
     Fail (D_argument (hd argv)))))))))"

text \<open>One round of the loop: the new state and the arguments left.\<close>

definition cmd_step :: "sys \<Rightarrow> config_ctx \<Rightarrow> string list \<Rightarrow> (diag, config_ctx \<times> string list) res" where
  "cmd_step S ctx argv =
     (let no_peer = (last_peer ctx = None);
          dev = (\<lambda>r. res_bind r (\<lambda>d. Ok (ctx\<lparr>ctx_device := d\<rparr>, drop 2 argv)))
      in case cmd_device_arg S argv no_peer (ctx_device ctx) of
           Some r \<Rightarrow> dev r
         | None \<Rightarrow>
             (case cmd_device_string_arg argv no_peer (ctx_device ctx) of
                Some r \<Rightarrow> dev r
              | None \<Rightarrow> cmd_peer_arg S argv ctx))"

lemma cmd_step_shorter: "cmd_step S ctx argv = Ok (ctx', argv') \<Longrightarrow> argv \<noteq> [] \<Longrightarrow> length argv' < length argv"
  by (auto simp: cmd_step_def cmd_peer_arg_def arg_match_def Let_def res_simps
      split: option.splits list.splits if_splits)

function (sequential) cmd_loop :: "sys \<Rightarrow> config_ctx \<Rightarrow> string list \<Rightarrow> (diag, config_ctx) res" where
  "cmd_loop S ctx [] = Ok ctx"
| "cmd_loop S ctx (a # argv) =
     (case cmd_step S ctx (a # argv) of
        Ok (ctx', argv') \<Rightarrow> cmd_loop S ctx' argv'
      | Fail e \<Rightarrow> Fail e | Exit e \<Rightarrow> Exit e | Hang \<Rightarrow> Hang | Fault \<Rightarrow> Fault)"
  by pat_completeness auto
termination
  by (relation "measure (\<lambda>(S, ctx, argv). length argv)") (auto dest: cmd_step_shorter)

definition config_read_cmd :: "sys \<Rightarrow> string list \<Rightarrow> (diag, wgdevice) res" where
  "config_read_cmd S argv =
     res_bind
       (cmd_loop S \<lparr>ctx_device = zero_device, last_peer = None, last_allowedip = None,
          is_peer_section = False, is_device_section = False, ctx_warned = []\<rparr> argv)
       (\<lambda>ctx. Ok (ctx_device ctx))"

section \<open>What a setting may change\<close>

text \<open>A device setting keeps the peers, keeps the flags that are set and keeps the device well-formed.\<close>

definition dev_ok :: "wgdevice \<Rightarrow> wgdevice \<Rightarrow> bool" where
  "dev_ok d d' \<longleftrightarrow> first_peer d' = first_peer d \<and> (wf_device d \<longrightarrow> wf_device d') \<and>
     (\<forall>f. has (dev_flags d) f \<longrightarrow> has (dev_flags d') f)"

text \<open>A peer setting keeps the tail pointer of the allowed addresses right, keeps the flags that are
  set, and keeps the peer well-formed when the address parser keeps its contract.\<close>

definition peer_ok :: "sys \<Rightarrow> wgpeer \<Rightarrow> wgpeer \<times> nat option \<times> string list \<Rightarrow> bool" where
  "peer_ok S p = (\<lambda>(p', ips, _). tail_ok ips (first_allowedip p') \<and>
     (\<forall>f. has (peer_flags p) f \<longrightarrow> has (peer_flags p') f) \<and>
     (pton_sizes S \<longrightarrow> wf_peer p \<longrightarrow> wf_peer p'))"

named_theorems setting_ok \<open>every setting keeps its contract\<close>

lemma wf_awg_string_parse: "parse_awg_string name v = Ok s \<Longrightarrow> wf_awg_string s"
  by (auto simp: parse_awg_string_def wf_awg_string_def split: if_splits)

lemma parsers_no_Fault [simp]:
  "parse_port S fl v \<noteq> Fault" "parse_fwmark fl v \<noteq> Fault" "parse_uint16 n v \<noteq> Fault"
  "parse_awg_string n v \<noteq> Fault" "parse_bool n v \<noteq> Fault" "parse_persistent_keepalive fl v \<noteq> Fault"
  by (auto simp: parse_port_def parse_fwmark_def parse_uint16_def parse_awg_string_def parse_bool_def
      parse_persistent_keepalive_def Let_def split: sum.splits prod.splits if_splits)

lemma parsers_flags:
  "parse_port S fl v = Ok (x, fl') \<Longrightarrow> fl' = fl OR WGDEVICE_HAS_LISTEN_PORT"
  "parse_fwmark fl v = Ok (m, fl') \<Longrightarrow> fl' = fl OR WGDEVICE_HAS_FWMARK"
  "parse_persistent_keepalive fl v = Ok (k, fl') \<Longrightarrow> fl' = fl OR WGPEER_HAS_PERSISTENT_KEEPALIVE_INTERVAL"
  by (auto simp: parse_port_def parse_fwmark_iff parse_persistent_keepalive_iff
      split: sum.splits if_splits)

lemma set_port_ok [setting_ok]: "res_ok (dev_ok d) (set_port S v d)"
  by (auto simp: res_ok_iff set_port_def dev_ok_def wf_device_def res_simps dest: parsers_flags)

lemma set_fwmark_ok [setting_ok]: "res_ok (dev_ok d) (set_fwmark v d)"
  by (auto simp: res_ok_iff set_fwmark_def dev_ok_def wf_device_def res_simps dest: parsers_flags)

lemma set_private_key_ok [setting_ok]:
  "res_ok (dev_ok d) (set_private_key (parse_key v) d)"
  "res_ok (dev_ok d) (set_private_key (parse_keyfile S v) d)"
  by (auto simp: res_ok_iff set_private_key_def dev_ok_def wf_device_def res_simps parse_key_iff
      dest: parse_keyfile_length)

lemma set_uint16_ok [setting_ok]:
  assumes "\<And>x. first_peer (upd (\<lambda>_. x) d) = first_peer d"
    and "\<And>x. dev_flags (upd (\<lambda>_. x) d) = dev_flags d"
    and "\<And>x fl. wf_device d \<longrightarrow> wf_device (upd (\<lambda>_. x) d\<lparr>dev_flags := fl\<rparr>)"
  shows "res_ok (dev_ok d) (set_uint16 name upd flag v d)"
  using assms by (auto simp: res_ok_iff set_uint16_def dev_ok_def res_simps Let_def)

lemma set_awg_string_ok [setting_ok]:
  assumes "\<And>x. first_peer (upd (\<lambda>_. x) d) = first_peer d"
    and "\<And>x. dev_flags (upd (\<lambda>_. x) d) = dev_flags d"
    and "\<And>x fl. wf_awg_string x \<longrightarrow> wf_device d \<longrightarrow> wf_device (upd (\<lambda>_. x) d\<lparr>dev_flags := fl\<rparr>)"
  shows "res_ok (dev_ok d) (set_awg_string name upd flag v d)"
  using assms wf_awg_string_parse [of name v]
  by (auto simp: res_ok_iff set_awg_string_def dev_ok_def res_simps Let_def)

lemma key_match_ok:
  "(\<And>v. res_ok P (f v)) \<Longrightarrow> res_ok P rest \<Longrightarrow> res_ok P (key_match line key f rest)"
  by (auto simp: key_match_def split: option.splits)

lemma process_device_line_ok: "res_ok (dev_ok d) (process_device_line S line d)"
  unfolding process_device_line_def
  by (intro key_match_ok setting_ok) (simp_all add: wf_device_def)

lemma arg_match_option_ok:
  "(\<And>v. res_ok P (f v)) \<Longrightarrow> pred_option (res_ok P) rest \<Longrightarrow>
   pred_option (res_ok P) (arg_match argv key guard (\<lambda>v. Some (f v)) rest)"
  by (auto simp: arg_match_def split: list.splits)

lemma arg_match_ok:
  "(\<And>v. guard \<Longrightarrow> res_ok P (f v)) \<Longrightarrow> res_ok P rest \<Longrightarrow> res_ok P (arg_match argv key guard f rest)"
  by (auto simp: arg_match_def split: list.splits)

lemma cmd_device_arg_ok: "pred_option (res_ok (dev_ok d)) (cmd_device_arg S argv no_peer d)"
  unfolding cmd_device_arg_def
  by (intro arg_match_option_ok setting_ok) (simp_all add: wf_device_def)

lemma cmd_device_string_arg_ok:
  "pred_option (res_ok (dev_ok d)) (cmd_device_string_arg argv no_peer d)"
  unfolding cmd_device_string_arg_def
  by (intro arg_match_option_ok setting_ok) (simp_all add: wf_device_def)

lemma set_peer_ok:
  assumes "tail_ok ips (first_allowedip p)"
    and "res_ok (\<lambda>p'. first_allowedip p' = first_allowedip p \<and>
      (\<forall>f. has (peer_flags p) f \<longrightarrow> has (peer_flags p') f) \<and> (wf_peer p \<longrightarrow> wf_peer p')) (f p)"
  shows "res_ok (peer_ok S p) (set_peer f p ips)"
  using assms by (auto simp: res_ok_iff set_peer_def peer_ok_def res_simps)

lemma set_peer_settings_ok [setting_ok]:
  assumes "tail_ok ips (first_allowedip p)"
  shows "res_ok (peer_ok S p) (set_peer (set_endpoint S' v) p ips)"
    and "res_ok (peer_ok S p) (set_peer (set_public_key v) p ips)"
    and "res_ok (peer_ok S p) (set_peer (set_keepalive v) p ips)"
    and "res_ok (peer_ok S p) (set_peer (set_preshared_key (parse_key v)) p ips)"
    and "res_ok (peer_ok S p) (set_peer (set_preshared_key (parse_keyfile S' v)) p ips)"
    and "res_ok (peer_ok S p) (set_peer (set_awg v) p ips)"
    and "res_ok (peer_ok S p) (set_peer (\<lambda>p. Ok (p\<lparr>peer_flags := peer_flags p OR fl\<rparr>)) p ips)"
  by (rule set_peer_ok [OF assms];
      auto simp: res_ok_iff res_simps set_endpoint_def set_public_key_def set_keepalive_def
        set_preshared_key_def set_awg_def wf_peer_def parse_key_iff
        dest: parsers_flags parse_keyfile_length)+

lemma parse_allowedips_ok [setting_ok]:
  assumes "tail_ok ips (first_allowedip p)"
  shows "res_ok (peer_ok S p) (parse_allowedips S p ips v)"
proof -
  have "peer_ok S p (p', ips', w)" if "parse_allowedips S p ips v = Ok (p', ips', w)" for p' ips' w
  proof (cases "v = []")
    case True
    with that assms show ?thesis
      by (auto simp: parse_allowedips_iff [OF assms] peer_ok_def wf_peer_def)
  next
    case False
    with that obtain news where
      news: "list_all2 (\<lambda>e n. parse_allowedip S e = Ok n) (entries (Some v)) news"
      and p': "p' = p\<lparr>peer_flags := peer_flags p OR WGPEER_REPLACE_ALLOWEDIPS,
         first_allowedip := first_allowedip p @ news\<rparr>"
      and tail: "tail_ok ips' (first_allowedip p')"
      by (auto simp: parse_allowedips_iff [OF assms])
    have "pton_sizes S \<longrightarrow> list_all wf_allowedip news"
      using news by (induction rule: list_all2_induct) (auto intro: parse_allowedip_wf)
    with p' tail show ?thesis by (auto simp: peer_ok_def wf_peer_def)
  qed
  then show ?thesis using parse_allowedips_safe(1) [of S p ips v] by (auto simp: res_ok_iff)
qed

section \<open>The invariant of the readers\<close>

definition ctx_inv :: "sys \<Rightarrow> config_ctx \<Rightarrow> bool" where
  "ctx_inv S ctx \<longleftrightarrow>
     tail_ok (last_peer ctx) (first_peer (ctx_device ctx)) \<and>
     (case last_peer ctx of
        None \<Rightarrow> last_allowedip ctx = None
      | Some i \<Rightarrow> tail_ok (last_allowedip ctx) (first_allowedip (first_peer (ctx_device ctx) ! i))) \<and>
     (is_peer_section ctx \<longrightarrow> last_peer ctx \<noteq> None) \<and>
     (pton_sizes S \<longrightarrow> wf_device (ctx_device ctx))"

text \<open>The peers stay, in their order, and lose no flag.\<close>

abbreviation flags_kept :: "wgpeer \<Rightarrow> wgpeer \<Rightarrow> bool" where
  "flags_kept p p' \<equiv> \<forall>f. has (peer_flags p) f \<longrightarrow> has (peer_flags p') f"

definition ctx_step :: "sys \<Rightarrow> wgpeer list \<Rightarrow> config_ctx \<Rightarrow> bool" where
  "ctx_step S peers ctx' \<longleftrightarrow> ctx_inv S ctx' \<and> list_all2 flags_kept peers (first_peer (ctx_device ctx'))"

lemma on_device_ok:
  assumes "ctx_inv S ctx" "res_ok (dev_ok (ctx_device ctx)) (f (ctx_device ctx))"
  shows "res_ok (ctx_step S (first_peer (ctx_device ctx))) (on_device f ctx)"
  using assms
  by (auto simp: on_device_def res_ok_iff res_simps ctx_inv_def ctx_step_def dev_ok_def list_all2_refl
      split: option.splits)

lemma list_all2_update_self:
  assumes "\<And>x. P x x" "i < length xs" "P (xs ! i) y"
  shows "list_all2 P xs (xs[i := y])"
  using assms by (auto simp: list_all2_conv_all_nth nth_list_update)

lemma on_last_peer_ok:
  assumes inv: "ctx_inv S ctx" and peer: "last_peer ctx \<noteq> None"
    and f: "\<And>p ips. tail_ok ips (first_allowedip p) \<Longrightarrow> res_ok (peer_ok S p) (f p ips)"
  shows "res_ok (ctx_step S (first_peer (ctx_device ctx))) (on_last_peer f ctx)"
proof -
  let ?ps = "first_peer (ctx_device ctx)"
  from peer obtain i where i: "last_peer ctx = Some i" by blast
  with inv have len: "length ?ps = Suc i"
    and tail: "tail_ok (last_allowedip ctx) (first_allowedip (?ps ! i))"
    by (auto simp: ctx_inv_def tail_ok_def)
  have "ctx_step S ?ps (ctx\<lparr>ctx_device := ctx_device ctx\<lparr>first_peer := ?ps[i := p]\<rparr>, last_allowedip := ips,
      ctx_warned := w'\<rparr>)" if "peer_ok S (?ps ! i) (p, ips, w)" for p ips w w'
    unfolding ctx_step_def
  proof
    show "list_all2 flags_kept ?ps (first_peer (ctx_device (ctx\<lparr>ctx_device := ctx_device ctx
        \<lparr>first_peer := ?ps[i := p]\<rparr>, last_allowedip := ips, ctx_warned := w'\<rparr>)))"
      using that len by (simp add: peer_ok_def list_all2_update_self)
    have "list_all wf_peer (?ps[i := p])" if "pton_sizes S"
      using that \<open>peer_ok S (?ps ! i) (p, ips, w)\<close> inv len
      by (simp add: peer_ok_def ctx_inv_def wf_device_def list_all_length nth_list_update)
    with that inv i len show "ctx_inv S (ctx\<lparr>ctx_device := ctx_device ctx\<lparr>first_peer := ?ps[i := p]\<rparr>,
        last_allowedip := ips, ctx_warned := w'\<rparr>)"
      by (simp add: ctx_inv_def peer_ok_def tail_ok_def wf_device_def)
  qed
  moreover have "res_ok (peer_ok S (?ps ! i)) (f (?ps ! i) (last_allowedip ctx))" by (rule f [OF tail])
  ultimately show ?thesis
    using i len by (cases "f (?ps ! i) (last_allowedip ctx)") (auto simp: on_last_peer_def Let_def)
qed

lemma link_new_peer_inv:
  assumes "ctx_inv S ctx" "wf_peer p" "first_allowedip p = []"
  shows "link_new_peer p ctx =
      ctx\<lparr>ctx_device := ctx_device ctx\<lparr>first_peer := first_peer (ctx_device ctx) @ [p]\<rparr>,
        last_peer := Some (length (first_peer (ctx_device ctx))), last_allowedip := None\<rparr>"
    and "ctx_inv S (link_new_peer p ctx)"
proof -
  from assms(1) have "tail_ok (last_peer ctx) (first_peer (ctx_device ctx))" by (simp add: ctx_inv_def)
  then show eq: "link_new_peer p ctx =
      ctx\<lparr>ctx_device := ctx_device ctx\<lparr>first_peer := first_peer (ctx_device ctx) @ [p]\<rparr>,
        last_peer := Some (length (first_peer (ctx_device ctx))), last_allowedip := None\<rparr>"
    by (cases "last_peer ctx") (simp_all add: link_new_peer_def tail_ok_def Let_def)
  show "ctx_inv S (link_new_peer p ctx)"
    unfolding eq using assms by (simp add: ctx_inv_def tail_ok_def wf_device_def)
qed

lemma ctx_inv_sections:
  "ctx_inv S ctx \<Longrightarrow> (a \<longrightarrow> last_peer ctx \<noteq> None) \<Longrightarrow> ctx_inv S (ctx\<lparr>is_peer_section := a, is_device_section := b\<rparr>)"
  by (cases "last_peer ctx") (simp_all add: ctx_inv_def)

lemma process_peer_line_ok:
  assumes "ctx_inv S ctx" "last_peer ctx \<noteq> None"
  shows "res_ok (ctx_step S (first_peer (ctx_device ctx))) (process_peer_line S line ctx)"
  unfolding process_peer_line_def
  by (intro key_match_ok on_last_peer_ok assms setting_ok) simp_all

lemma process_line_ok:
  assumes "ctx_inv S ctx"
  shows "res_ok (ctx_inv S) (process_line S ctx line)"
proof -
  let ?new = "(link_new_peer zero_peer ctx)\<lparr>is_peer_section := True, is_device_section := False\<rparr>"
  have step: "res_ok (ctx_step S ps) r \<Longrightarrow> res_ok (ctx_inv S) r" for ps r
    by (erule res_ok_mono) (simp add: ctx_step_def)
  have z: "wf_peer zero_peer" "first_allowedip zero_peer = []" by (simp, simp add: zero_peer_def)
  have new: "ctx_inv S ?new" "last_peer ?new \<noteq> None"
    using link_new_peer_inv [OF assms z] by (auto intro: ctx_inv_sections)
  have "res_ok (ctx_inv S)
      (on_last_peer (set_peer (\<lambda>p. Ok (p\<lparr>peer_flags := peer_flags p OR WGPEER_REPLACE_ALLOWEDIPS\<rparr>))) ?new)"
    by (rule step, rule on_last_peer_ok [OF new]) (rule setting_ok)
  moreover have "res_ok (ctx_inv S) (on_device (process_device_line S line) ctx)"
    by (rule step, rule on_device_ok [OF assms]) (rule process_device_line_ok)
  moreover have "res_ok (ctx_inv S) (process_peer_line S line ctx)" if "is_peer_section ctx"
    using assms that by (intro step [OF process_peer_line_ok]) (auto simp: ctx_inv_def)
  moreover have "ctx_inv S (ctx\<lparr>is_peer_section := False, is_device_section := True\<rparr>)"
    using assms by (simp add: ctx_inv_sections)
  ultimately show ?thesis by (simp add: process_line_def)
qed

lemma config_read_line_ok: "ctx_inv S ctx \<Longrightarrow> res_ok (ctx_inv S) (config_read_line S ctx input)"
  by (simp add: config_read_line_def process_line_ok Let_def)

lemma config_read_init_inv [simp]: "ctx_inv S (config_read_init a)"
proof -
  have "wf_device (zero_device\<lparr>dev_flags := x\<rparr>)" for x
    using wf_zero_device by (simp add: wf_device_def)
  then show ?thesis by (auto simp: ctx_inv_def config_read_init_def zero_device_def)
qed

interpretation conf: step_invariant "config_read_line S" "ctx_inv S" for S
  by unfold_locales (rule config_read_line_ok)

section \<open>The argument reader\<close>

text \<open>Every peer of the argument reader has its key from the argument that makes it.\<close>

definition cmd_inv :: "sys \<Rightarrow> config_ctx \<Rightarrow> bool" where
  "cmd_inv S ctx \<longleftrightarrow> ctx_inv S ctx \<and>
     list_all (\<lambda>p. has (peer_flags p) WGPEER_HAS_PUBLIC_KEY) (first_peer (ctx_device ctx))"

lemma list_all_flags_kept:
  "list_all2 flags_kept ps qs \<Longrightarrow> list_all (\<lambda>p. has (peer_flags p) f) ps \<Longrightarrow>
   list_all (\<lambda>p. has (peer_flags p) f) qs"
  by (induction rule: list_all2_induct) auto

lemma cmd_inv_step: "cmd_inv S ctx \<Longrightarrow> ctx_step S (first_peer (ctx_device ctx)) ctx' \<Longrightarrow> cmd_inv S ctx'"
  by (auto simp: cmd_inv_def ctx_step_def intro: list_all_flags_kept)

lemma cmd_on_peer_ok:
  assumes "cmd_inv S ctx" "last_peer ctx \<noteq> None"
    and "\<And>p ips. tail_ok ips (first_allowedip p) \<Longrightarrow> res_ok (peer_ok S p) (f p ips)"
  shows "res_ok (\<lambda>(ctx', _). cmd_inv S ctx') (res_bind (on_last_peer f ctx) (\<lambda>ctx'. Ok (ctx', rest)))"
proof (rule res_ok_bind)
  show "res_ok (cmd_inv S) (on_last_peer f ctx)"
    using assms on_last_peer_ok [of S ctx f] cmd_inv_step [OF assms(1)]
    by (auto simp: cmd_inv_def intro: res_ok_mono)
qed simp

lemma cmd_new_peer_ok:
  assumes "cmd_inv S ctx"
  shows "res_ok (\<lambda>(ctx', _). cmd_inv S ctx')
    (res_bind (on_last_peer (set_peer (set_public_key v)) (link_new_peer zero_peer ctx)) (\<lambda>ctx'. Ok (ctx', rest)))"
proof (rule res_ok_bind)
  let ?r = "on_last_peer (set_peer (set_public_key v)) (link_new_peer zero_peer ctx)"
  have z: "wf_peer zero_peer" "first_allowedip zero_peer = []" by (simp, simp add: zero_peer_def)
  from assms have inv: "ctx_inv S ctx" by (simp add: cmd_inv_def)
  note link = link_new_peer_inv [OF inv z]
  have "res_ok (ctx_step S (first_peer (ctx_device (link_new_peer zero_peer ctx)))) ?r"
    by (rule on_last_peer_ok [OF link(2)]) (simp_all add: link(1) setting_ok)
  moreover have "res_ok (\<lambda>ctx'. list_all (\<lambda>p. has (peer_flags p) WGPEER_HAS_PUBLIC_KEY)
      (first_peer (ctx_device ctx'))) ?r"
  proof -
    have "has WGPEER_HAS_PUBLIC_KEY WGPEER_HAS_PUBLIC_KEY" by (simp add: has_def flag_defs)
    then show ?thesis using assms
      by (cases "parse_key v")
        (simp_all add: link(1) on_last_peer_def set_peer_def set_public_key_def cmd_inv_def)
  qed
  ultimately show "res_ok (cmd_inv S) ?r" by (simp add: res_ok_iff cmd_inv_def ctx_step_def)
qed simp

lemma cmd_device_ok:
  assumes "cmd_inv S ctx" "res_ok (dev_ok (ctx_device ctx)) r"
  shows "res_ok (\<lambda>(ctx', _). cmd_inv S ctx') (res_bind r (\<lambda>d. Ok (ctx\<lparr>ctx_device := d\<rparr>, rest)))"
proof (rule res_ok_bind [OF assms(2)])
  fix d assume "dev_ok (ctx_device ctx) d"
  with assms(1) show "res_ok (\<lambda>(ctx', _). cmd_inv S ctx') (Ok (ctx\<lparr>ctx_device := d\<rparr>, rest))"
    by (cases "last_peer ctx") (auto simp: cmd_inv_def ctx_inv_def dev_ok_def)
qed

lemma cmd_peer_arg_ok:
  assumes "cmd_inv S ctx"
  shows "res_ok (\<lambda>(ctx', _). cmd_inv S ctx') (cmd_peer_arg S argv ctx)"
proof -
  let ?remove = "res_bind (on_last_peer (set_peer (\<lambda>p. Ok (p\<lparr>peer_flags := peer_flags p OR WGPEER_REMOVE_ME\<rparr>))) ctx)
            (\<lambda>ctx. Ok (ctx, drop 1 argv))"
  have r: "res_ok (\<lambda>(ctx', _). cmd_inv S ctx') ?remove" if "last_peer ctx \<noteq> None"
    by (rule cmd_on_peer_ok [OF assms that]) (rule setting_ok)
  have cond: "(b \<Longrightarrow> res_ok P x) \<Longrightarrow> res_ok P y \<Longrightarrow> res_ok P (if b then x else y)"
    for b and P :: "config_ctx \<times> string list \<Rightarrow> bool" and x y by simp
  show ?thesis
    unfolding cmd_peer_arg_def Let_def
    by (intro arg_match_ok cond cmd_new_peer_ok cmd_on_peer_ok assms setting_ok r) simp_all
qed

lemma cmd_step_ok:
  assumes "cmd_inv S ctx"
  shows "res_ok (\<lambda>(ctx', _). cmd_inv S ctx') (cmd_step S ctx argv)"
  using cmd_device_arg_ok [of "ctx_device ctx" S argv "last_peer ctx = None"]
    cmd_device_string_arg_ok [of "ctx_device ctx" argv "last_peer ctx = None"]
  by (auto simp: cmd_step_def Let_def intro: cmd_peer_arg_ok [OF assms] cmd_device_ok [OF assms]
      split: option.splits)

lemma cmd_loop_ok: "cmd_inv S ctx \<Longrightarrow> res_ok (cmd_inv S) (cmd_loop S ctx argv)"
proof (induction S ctx argv rule: cmd_loop.induct)
  case (2 S ctx a argv)
  from cmd_step_ok [OF 2(2), of "a # argv"] 2(1) show ?case
    by (cases "cmd_step S ctx (a # argv)") auto
qed simp

lemma config_read_cmd_ok:
  "res_ok (\<lambda>d. list_all (\<lambda>p. has (peer_flags p) WGPEER_HAS_PUBLIC_KEY) (first_peer d) \<and>
     (pton_sizes S \<longrightarrow> wf_device d)) (config_read_cmd S argv)"
  unfolding config_read_cmd_def
proof (rule res_ok_bind, rule cmd_loop_ok)
  show "cmd_inv S \<lparr>ctx_device = zero_device, last_peer = None, last_allowedip = None,
      is_peer_section = False, is_device_section = False, ctx_warned = []\<rparr>"
    by (auto simp: cmd_inv_def ctx_inv_def) (simp_all add: zero_device_def)
qed (simp add: cmd_inv_def ctx_inv_def)

section \<open>Cleaning a line\<close>

lemma value_end_le: "value_end input n \<le> n"
  by (induction n) auto

lemma value_end_last: "value_end input n = Suc k \<Longrightarrow> \<not> c_space (input ! k)"
  by (induction n) (auto split: if_splits)

lemma value_end_spaces: "value_end input n \<le> i \<Longrightarrow> i < n \<Longrightarrow> c_space (input ! i)"
  by (induction n) (auto split: if_splits simp: less_Suc_eq)

lemma clean_step_key:
  "CHR ''='' \<notin> set k \<Longrightarrow>
   foldl clean_step (l, False, False) k = (l @ filter (\<lambda>c. \<not> c_space c) k, False, False)"
  by (induction k arbitrary: l) auto

lemma clean_step_gap:
  "list_all c_space sp \<Longrightarrow> foldl clean_step (l, True, False) sp = (l, True, False)"
  by (induction sp) auto

lemma clean_step_value: "foldl clean_step (l, True, True) v = (l @ v, True, True)"
  by (induction v arbitrary: l) auto

lemma value_end_trim:
  assumes "v \<noteq> []" "\<not> c_space (last v)" "list_all c_space sp"
  shows "value_end (v @ sp @ r) (length v + length sp) = length v"
  using assms(3)
proof (induction sp arbitrary: r rule: rev_induct)
  case Nil
  from assms(1) obtain n where n: "length v = Suc n" by (cases v) auto
  with assms show ?case by (simp add: nth_append last_conv_nth)
next
  case (snoc c sp)
  then show ?case using snoc.IH [of "c # r"] by (simp add: nth_append)
qed

text \<open>A value of \<^verbatim>\<open>I1\<close> to \<^verbatim>\<open>I5\<close> keeps the white space inside it and loses what
  surrounds it; the key loses all of it.\<close>

lemma clean_special_handshake_line_value:
  assumes "CHR ''='' \<notin> set k" "list_all c_space sp" "list_all c_space sp'"
    and "v \<noteq> []" "\<not> c_space (hd v)" "\<not> c_space (last v)"
    and "input = k @ CHR ''='' # sp @ v @ sp' @ r" "len = length (k @ CHR ''='' # sp @ v @ sp')"
  shows "clean_special_handshake_line input len = filter (\<lambda>c. \<not> c_space c) k @ CHR ''='' # v"
proof -
  let ?u = "k @ CHR ''='' # sp @ v"
  have "value_end (?u @ sp' @ r) (length ?u + length sp') = length ?u"
    using assms by (intro value_end_trim) auto
  moreover have "input = ?u @ sp' @ r" "len = length ?u + length sp'" using assms(7,8) by simp_all
  ultimately have "take (value_end input len) input = ?u"
    by (simp only: take_append) simp
  moreover obtain c v' where v: "v = c # v'" using assms(4) by (cases v) auto
  ultimately show ?thesis
    using assms(1,2,5)
    by (simp add: clean_special_handshake_line_def clean_step_key clean_step_gap clean_step_value)
qed

lemma value_end_append: "n \<le> length s \<Longrightarrow> value_end (s @ t) n = value_end s n"
  by (induction n) (auto simp: nth_append)

lemma c_tolower_literals [c_string]:
  "c_tolower (CHR ''A'') = CHR ''a''" "c_tolower (CHR ''B'') = CHR ''b''" "c_tolower (CHR ''C'') = CHR ''c''"
  "c_tolower (CHR ''D'') = CHR ''d''" "c_tolower (CHR ''E'') = CHR ''e''" "c_tolower (CHR ''F'') = CHR ''f''"
  "c_tolower (CHR ''G'') = CHR ''g''" "c_tolower (CHR ''H'') = CHR ''h''" "c_tolower (CHR ''I'') = CHR ''i''"
  "c_tolower (CHR ''J'') = CHR ''j''" "c_tolower (CHR ''K'') = CHR ''k''" "c_tolower (CHR ''L'') = CHR ''l''"
  "c_tolower (CHR ''M'') = CHR ''m''" "c_tolower (CHR ''N'') = CHR ''n''" "c_tolower (CHR ''O'') = CHR ''o''"
  "c_tolower (CHR ''P'') = CHR ''p''" "c_tolower (CHR ''Q'') = CHR ''q''" "c_tolower (CHR ''R'') = CHR ''r''"
  "c_tolower (CHR ''S'') = CHR ''s''" "c_tolower (CHR ''T'') = CHR ''t''" "c_tolower (CHR ''U'') = CHR ''u''"
  "c_tolower (CHR ''V'') = CHR ''v''" "c_tolower (CHR ''W'') = CHR ''w''" "c_tolower (CHR ''X'') = CHR ''x''"
  "c_tolower (CHR ''Y'') = CHR ''y''" "c_tolower (CHR ''Z'') = CHR ''z''" "c_tolower (CHR ''a'') = CHR ''a''"
  "c_tolower (CHR ''b'') = CHR ''b''" "c_tolower (CHR ''c'') = CHR ''c''" "c_tolower (CHR ''d'') = CHR ''d''"
  "c_tolower (CHR ''e'') = CHR ''e''" "c_tolower (CHR ''f'') = CHR ''f''" "c_tolower (CHR ''g'') = CHR ''g''"
  "c_tolower (CHR ''h'') = CHR ''h''" "c_tolower (CHR ''i'') = CHR ''i''" "c_tolower (CHR ''j'') = CHR ''j''"
  "c_tolower (CHR ''k'') = CHR ''k''" "c_tolower (CHR ''l'') = CHR ''l''" "c_tolower (CHR ''m'') = CHR ''m''"
  "c_tolower (CHR ''n'') = CHR ''n''" "c_tolower (CHR ''o'') = CHR ''o''" "c_tolower (CHR ''p'') = CHR ''p''"
  "c_tolower (CHR ''q'') = CHR ''q''" "c_tolower (CHR ''r'') = CHR ''r''" "c_tolower (CHR ''s'') = CHR ''s''"
  "c_tolower (CHR ''t'') = CHR ''t''" "c_tolower (CHR ''u'') = CHR ''u''" "c_tolower (CHR ''v'') = CHR ''v''"
  "c_tolower (CHR ''w'') = CHR ''w''" "c_tolower (CHR ''x'') = CHR ''x''" "c_tolower (CHR ''y'') = CHR ''y''"
  "c_tolower (CHR ''z'') = CHR ''z''" "c_tolower (CHR ''1'') = CHR ''1''" "c_tolower (CHR ''2'') = CHR ''2''"
  "c_tolower (CHR ''3'') = CHR ''3''" "c_tolower (CHR ''4'') = CHR ''4''" "c_tolower (CHR ''5'') = CHR ''5''" "c_tolower (CHR ''='') = CHR ''=''"
  "c_tolower (CHR ''#'') = CHR ''#''" "c_tolower (CHR ''['') = CHR ''[''" "c_tolower (CHR '']'') = CHR '']''"
  by (simp_all add: c_tolower_def char_of_def bit_0)

lemma special_key_comment:
  "list_ex (strncaseeq 2 (s @ CHR ''#'' # c)) awg_special_handshake_keys \<longleftrightarrow>
   list_ex (strncaseeq 2 s) awg_special_handshake_keys"
proof (cases s rule: list.exhaust [case_product list.exhaust [of "tl s"]])
  case (Cons_Cons a s' b s'')
  then have "s = a # b # s''" by simp
  then show ?thesis by (simp add: awg_special_handshake_keys_def strncaseeq_def)
qed (auto simp: awg_special_handshake_keys_def strncaseeq_def strcaseeq_def c_tolower_literals)

lemma clean_line_comment:
  assumes "CHR ''#'' \<notin> set s"
  shows "clean_line (s @ CHR ''#'' # c) = clean_line s"
proof -
  have "strchr (s @ CHR ''#'' # c) (CHR ''#'') = Some (length s)" by (rule strchr_append [OF assms])
  moreover have "strchr s (CHR ''#'') = None" using assms by (simp add: strchr_None_iff)
  ultimately show ?thesis
    using value_end_le [of s "length s"]
    by (simp add: clean_line_def special_key_comment clean_special_handshake_line_def value_end_append Let_def)
qed

section \<open>Matching keys\<close>

lemma get_value_key:
  assumes "strcaseeq k key" "v \<noteq> []"
  shows "get_value (k @ CHR ''='' # v) (key @ ''='') = Some v"
  using assms strcaseeq_length [OF assms(1)]
  by (simp add: get_value_def strncaseeq_def strcaseeq_def)

lemma get_value_SomeD:
  assumes "get_value line (key @ ''='') = Some v"
  shows "\<exists>k. line = k @ CHR ''='' # v \<and> strcaseeq k key \<and> v \<noteq> []"
proof -
  let ?n = "length key"
  from assms have len: "Suc ?n < length line" and eq: "strcaseeq (take (Suc ?n) line) (key @ ''='')"
    and v: "v = drop (Suc ?n) line"
    by (auto simp: get_value_def strncaseeq_def split: if_splits)
  from len have "take (Suc ?n) line = take ?n line @ [line ! ?n]" by (simp add: take_Suc_conv_app_nth)
  with eq have k: "strcaseeq (take ?n line) key" and c: "c_tolower (line ! ?n) = c_tolower (CHR ''='')"
    by (simp_all add: strcaseeq_def)
  then have "line ! ?n = CHR ''=''" unfolding c_tolower_literals by (simp add: c_tolower_eq_low)
  with len k v show ?thesis
    using id_take_nth_drop [of ?n line] by (intro exI [of _ "take ?n line"]) simp
qed

lemma strcaseeq_no_equals: "strcaseeq k key \<Longrightarrow> CHR ''='' \<notin> set key \<Longrightarrow> CHR ''='' \<notin> set k"
proof
  assume eq: "strcaseeq k key" and key: "CHR ''='' \<notin> set key" and "CHR ''='' \<in> set k"
  then have "c_tolower (CHR ''='') \<in> set (map c_tolower k)" by simp
  also have "\<dots> = set (map c_tolower key)" using eq by (simp add: strcaseeq_def)
  finally show False using key by (auto simp: c_tolower_literals dest: sym simp: c_tolower_eq_low)
qed

lemma get_value_eq:
  assumes "CHR ''='' \<notin> set k" "CHR ''='' \<notin> set key"
  shows "get_value (k @ CHR ''='' # v) (key @ ''='') = (if strcaseeq k key \<and> v \<noteq> [] then Some v else None)"
proof (cases "get_value (k @ CHR ''='' # v) (key @ ''='')")
  case None
  then show ?thesis using get_value_key [of k key v] by auto
next
  case (Some v')
  then obtain k' where *: "k @ CHR ''='' # v = k' @ CHR ''='' # v'" "strcaseeq k' key" "v' \<noteq> []"
    using get_value_SomeD by blast
  have "CHR ''='' \<notin> set k'" using strcaseeq_no_equals [OF *(2) assms(2)] .
  from strsep_append [OF this, of v'] strsep_append [OF assms(1), of v] *(1) have "k = k' \<and> v = v'"
    by simp
  with Some * show ?thesis by simp
qed

lemma key_match_eq:
  "CHR ''='' \<notin> set k \<Longrightarrow> CHR ''='' \<notin> set key \<Longrightarrow>
   key_match (k @ CHR ''='' # v) key f rest = (if strcaseeq k key \<and> v \<noteq> [] then f v else rest)"
  by (simp add: key_match_def get_value_eq)

lemma key_match_no_equals: "CHR ''='' \<notin> set line \<Longrightarrow> key_match line key f rest = rest"
  by (auto simp: key_match_def dest!: get_value_SomeD split: option.splits)

text \<open>Every key of the two sections, in any mixture of cases, selects its setting.\<close>

lemma process_device_line_key:
  assumes "v \<noteq> []"
  shows
    "strcaseeq k ''ListenPort'' \<Longrightarrow> process_device_line S (k @ CHR ''='' # v) d = set_port S v d"
    and "strcaseeq k ''FwMark'' \<Longrightarrow> process_device_line S (k @ CHR ''='' # v) d = set_fwmark v d"
    and "strcaseeq k ''PrivateKey'' \<Longrightarrow> process_device_line S (k @ CHR ''='' # v) d = set_private_key (parse_key v) d"
    and "strcaseeq k ''Jc'' \<Longrightarrow> process_device_line S (k @ CHR ''='' # v) d = set_uint16 ''Jc'' junk_packet_count_update WGDEVICE_HAS_JC v d"
    and "strcaseeq k ''Jmin'' \<Longrightarrow> process_device_line S (k @ CHR ''='' # v) d = set_uint16 ''Jmin'' junk_packet_min_size_update WGDEVICE_HAS_JMIN v d"
    and "strcaseeq k ''Jmax'' \<Longrightarrow> process_device_line S (k @ CHR ''='' # v) d = set_uint16 ''Jmax'' junk_packet_max_size_update WGDEVICE_HAS_JMAX v d"
    and "strcaseeq k ''S1'' \<Longrightarrow> process_device_line S (k @ CHR ''='' # v) d = set_uint16 ''S1'' init_packet_junk_size_update WGDEVICE_HAS_S1 v d"
    and "strcaseeq k ''S2'' \<Longrightarrow> process_device_line S (k @ CHR ''='' # v) d = set_uint16 ''S2'' response_packet_junk_size_update WGDEVICE_HAS_S2 v d"
    and "strcaseeq k ''S3'' \<Longrightarrow> process_device_line S (k @ CHR ''='' # v) d = set_uint16 ''S3'' cookie_reply_packet_junk_size_update WGDEVICE_HAS_S3 v d"
    and "strcaseeq k ''S4'' \<Longrightarrow> process_device_line S (k @ CHR ''='' # v) d = set_uint16 ''S4'' transport_packet_junk_size_update WGDEVICE_HAS_S4 v d"
    and "strcaseeq k ''H1'' \<Longrightarrow> process_device_line S (k @ CHR ''='' # v) d = set_awg_string ''H1'' init_packet_magic_header_update WGDEVICE_HAS_H1 v d"
    and "strcaseeq k ''H2'' \<Longrightarrow> process_device_line S (k @ CHR ''='' # v) d = set_awg_string ''H2'' response_packet_magic_header_update WGDEVICE_HAS_H2 v d"
    and "strcaseeq k ''H3'' \<Longrightarrow> process_device_line S (k @ CHR ''='' # v) d = set_awg_string ''H3'' underload_packet_magic_header_update WGDEVICE_HAS_H3 v d"
    and "strcaseeq k ''H4'' \<Longrightarrow> process_device_line S (k @ CHR ''='' # v) d = set_awg_string ''H4'' transport_packet_magic_header_update WGDEVICE_HAS_H4 v d"
    and "strcaseeq k ''I1'' \<Longrightarrow> process_device_line S (k @ CHR ''='' # v) d = set_awg_string ''I1'' i1_update WGDEVICE_HAS_I1 v d"
    and "strcaseeq k ''I2'' \<Longrightarrow> process_device_line S (k @ CHR ''='' # v) d = set_awg_string ''I2'' i2_update WGDEVICE_HAS_I2 v d"
    and "strcaseeq k ''I3'' \<Longrightarrow> process_device_line S (k @ CHR ''='' # v) d = set_awg_string ''I3'' i3_update WGDEVICE_HAS_I3 v d"
    and "strcaseeq k ''I4'' \<Longrightarrow> process_device_line S (k @ CHR ''='' # v) d = set_awg_string ''I4'' i4_update WGDEVICE_HAS_I4 v d"
    and "strcaseeq k ''I5'' \<Longrightarrow> process_device_line S (k @ CHR ''='' # v) d = set_awg_string ''I5'' i5_update WGDEVICE_HAS_I5 v d"
  by (frule strcaseeq_no_equals, simp, simp add: assms process_device_line_def key_match_eq strcaseeq_def c_tolower_literals)+

lemma process_peer_line_key:
  assumes "v \<noteq> []"
  shows
    "strcaseeq k ''Endpoint'' \<Longrightarrow> process_peer_line S (k @ CHR ''='' # v) ctx = on_last_peer (set_peer (set_endpoint S v)) ctx"
    and "strcaseeq k ''PublicKey'' \<Longrightarrow> process_peer_line S (k @ CHR ''='' # v) ctx = on_last_peer (set_peer (set_public_key v)) ctx"
    and "strcaseeq k ''AllowedIPs'' \<Longrightarrow> process_peer_line S (k @ CHR ''='' # v) ctx = on_last_peer (\<lambda>p ips. parse_allowedips S p ips v) ctx"
    and "strcaseeq k ''PersistentKeepalive'' \<Longrightarrow> process_peer_line S (k @ CHR ''='' # v) ctx = on_last_peer (set_peer (set_keepalive v)) ctx"
    and "strcaseeq k ''PresharedKey'' \<Longrightarrow> process_peer_line S (k @ CHR ''='' # v) ctx = on_last_peer (set_peer (set_preshared_key (parse_key v))) ctx"
    and "strcaseeq k ''AdvancedSecurity'' \<Longrightarrow> process_peer_line S (k @ CHR ''='' # v) ctx = on_last_peer (set_peer (set_awg v)) ctx"
  by (frule strcaseeq_no_equals, simp, simp add: assms process_peer_line_def key_match_eq strcaseeq_def c_tolower_literals)+

section \<open>Strings and their flags\<close>

text \<open>In a file a value is never empty, so a flag that announces a string goes with a string.\<close>

definition string_flags :: "wgdevice \<Rightarrow> (u32 \<times> string option) list" where
  "string_flags d =
     [(WGDEVICE_HAS_H1, init_packet_magic_header d), (WGDEVICE_HAS_H2, response_packet_magic_header d),
      (WGDEVICE_HAS_H3, underload_packet_magic_header d), (WGDEVICE_HAS_H4, transport_packet_magic_header d),
      (WGDEVICE_HAS_I1, i1 d), (WGDEVICE_HAS_I2, i2 d), (WGDEVICE_HAS_I3, i3 d), (WGDEVICE_HAS_I4, i4 d),
      (WGDEVICE_HAS_I5, i5 d)]"

definition strings_set :: "wgdevice \<Rightarrow> bool" where
  "strings_set d \<longleftrightarrow> list_all (\<lambda>(f, v). has (dev_flags d) f \<longrightarrow> v \<noteq> None) (string_flags d)"

definition string_mask :: u32 where
  "string_mask = foldl (OR) 0 (map fst (string_flags zero_device))"

lemma strings_set_flags:
  assumes "f AND string_mask = 0" "dev_flags d' = dev_flags d OR f" "string_flags d' = string_flags d"
    and "strings_set d"
  shows "strings_set d'"
proof -
  have "\<not> has f g" if "g AND string_mask = g" for g
  proof -
    have "f AND g = (f AND string_mask) AND g"
      using that by (metis and.assoc and.commute)
    then show ?thesis by (simp add: assms(1) has_def)
  qed
  then have "\<not> has f g" if "(g, v) \<in> set (string_flags d)" for g v
    using that by (auto simp: string_mask_def string_flags_def flag_defs)
  with assms(2-4) show ?thesis by (auto simp: strings_set_def list_all_iff)
qed

lemma key_match_value_ok:
  "(\<And>v. v \<noteq> [] \<Longrightarrow> res_ok P (f v)) \<Longrightarrow> res_ok P rest \<Longrightarrow> res_ok P (key_match line key f rest)"
  using get_value_SomeD [of line key] by (auto simp: key_match_def split: option.splits)

lemma set_uint16_strings:
  assumes "f AND string_mask = 0" "strings_set d"
    and "\<And>x. string_flags (upd (\<lambda>_. x) d) = string_flags d \<and> dev_flags (upd (\<lambda>_. x) d) = dev_flags d"
  shows "res_ok strings_set (set_uint16 n upd f v d)"
proof -
  have "strings_set (upd (\<lambda>_. x) d\<lparr>dev_flags := dev_flags (upd (\<lambda>_. x) d) OR f\<rparr>)" for x
    by (rule strings_set_flags [OF assms(1) _ _ assms(2)]) (use assms(3) in \<open>simp_all add: string_flags_def\<close>)
  then show ?thesis by (auto simp: res_ok_iff set_uint16_def res_simps Let_def)
qed

lemma set_awg_string_strings:
  assumes "v \<noteq> []" "\<And>s. strings_set (let d' = upd (\<lambda>_. Some s) d in d'\<lparr>dev_flags := dev_flags d' OR f\<rparr>)"
  shows "res_ok strings_set (set_awg_string n upd f v d)"
  using assms by (auto simp: res_ok_iff set_awg_string_def parse_awg_string_def res_simps Let_def)

lemma set_first_strings:
  assumes "strings_set d"
  shows "res_ok strings_set (set_port S v d)" "res_ok strings_set (set_fwmark v d)"
    "res_ok strings_set (set_private_key (parse_key v) d)"
proof -
  have "WGDEVICE_HAS_LISTEN_PORT AND string_mask = 0" "WGDEVICE_HAS_FWMARK AND string_mask = 0"
    "WGDEVICE_HAS_PRIVATE_KEY AND string_mask = 0"
    by (simp_all add: string_mask_def string_flags_def flag_defs)
  note this [THEN strings_set_flags, OF _ _ assms]
  note this(1) [of "d\<lparr>listen_port := p, dev_flags := dev_flags d OR WGDEVICE_HAS_LISTEN_PORT\<rparr>" for p]
    this(2) [of "d\<lparr>fwmark := m, dev_flags := dev_flags d OR WGDEVICE_HAS_FWMARK\<rparr>" for m]
    this(3) [of "d\<lparr>private_key := k, dev_flags := dev_flags d OR WGDEVICE_HAS_PRIVATE_KEY\<rparr>" for k]
  then show "res_ok strings_set (set_port S v d)" "res_ok strings_set (set_fwmark v d)"
    "res_ok strings_set (set_private_key (parse_key v) d)"
    by (auto simp: res_ok_iff res_simps set_port_def set_fwmark_def set_private_key_def string_flags_def
        dest!: parsers_flags)
qed

lemma process_device_line_strings:
  assumes "strings_set d" shows "res_ok strings_set (process_device_line S line d)"
  unfolding process_device_line_def
  by (intro key_match_value_ok set_first_strings set_uint16_strings set_awg_string_strings assms)
    (use assms in \<open>simp_all add: strings_set_def string_flags_def string_mask_def Let_def\<close>,
     simp_all add: flag_defs has_def)

lemma on_last_peer_device:
  "on_last_peer f ctx = Ok ctx' \<Longrightarrow> \<exists>ps. ctx_device ctx' = ctx_device ctx\<lparr>first_peer := ps\<rparr>"
  by (auto simp: on_last_peer_def Let_def res_simps split: option.splits if_splits prod.splits)

lemma process_peer_line_device:
  "process_peer_line S line ctx = Ok ctx' \<Longrightarrow> \<exists>ps. ctx_device ctx' = ctx_device ctx\<lparr>first_peer := ps\<rparr>"
  by (auto simp: process_peer_line_def key_match_def dest: on_last_peer_device split: option.splits)

lemma strings_set_peers [simp]: "strings_set (d\<lparr>first_peer := ps\<rparr>) = strings_set d"
  by (simp add: strings_set_def string_flags_def)

lemma link_new_peer_device: "\<exists>ps. ctx_device (link_new_peer p ctx) = ctx_device ctx\<lparr>first_peer := ps\<rparr>"
  by (auto simp: link_new_peer_def Let_def split: prod.splits)

lemma config_read_line_strings:
  assumes "strings_set (ctx_device ctx)" "config_read_line S ctx input = Ok ctx'"
  shows "strings_set (ctx_device ctx')"
proof -
  have "strings_set (ctx_device ctx')" if "process_line S ctx line = Ok ctx'" for line
    using that process_device_line_strings [OF assms(1), of S line] link_new_peer_device [of zero_peer ctx] assms(1)
    by (auto simp: process_line_def on_device_def res_simps res_ok_iff split: if_splits
        dest!: on_last_peer_device process_peer_line_device)
  with assms show ?thesis by (auto simp: config_read_line_def Let_def split: if_splits)
qed

text \<open>Two spellings of a key select alike.\<close>

lemma key_match_spellings:
  assumes "\<And>key. strcaseeq k key \<longleftrightarrow> strcaseeq k' key" "CHR ''='' \<notin> set k" "CHR ''='' \<notin> set k'"
    and "CHR ''='' \<notin> set key" "rest = Ok y \<longleftrightarrow> rest' = Ok y"
  shows "key_match (k @ CHR ''='' # v) key f rest = Ok y \<longleftrightarrow> key_match (k' @ CHR ''='' # v) key f rest' = Ok y"
  using assms by (simp add: key_match_eq)

section \<open>Properties\<close>

text \<open>C4. Reading any lines from the start never follows a null pointer, and keeps the invariant: the tail
  pointers point at the last peer and its last allowed address, a peer section has a peer, and the
  device is well-formed when the address parser returns addresses of the size of their family.\<close>

theorem reader_safe: "res_ok (ctx_inv S) (res_fold (config_read_line S) (config_read_init a) lines)"
  by (rule conf.fold_ok) (rule config_read_init_inv)

text \<open>C26. The loop over the arguments of the set command ends, never follows a null pointer, and gives a
  device in which every peer has a public key and which is well-formed under the same contract.\<close>

theorem arguments_safe:
  "res_ok (\<lambda>d. list_all (\<lambda>p. has (peer_flags p) WGPEER_HAS_PUBLIC_KEY) (first_peer d) \<and>
     (pton_sizes S \<longrightarrow> wf_device d)) (config_read_cmd S argv)"
  by (rule config_read_cmd_ok)

theorem arguments_safe_witness:
  "pton_sizes sample_sys \<and> config_read_cmd sample_sys [''jc'', udec 4] =
     Ok (zero_device\<lparr>junk_packet_count := 4, dev_flags := WGDEVICE_HAS_JC\<rparr>) \<and>
   wf_device (zero_device\<lparr>junk_packet_count := 4, dev_flags := WGDEVICE_HAS_JC\<rparr>)"
proof -
  have "parse_uint16 ''jc'' (udec 4) = Ok 4" by (rule parse_uint16_udec) simp
  then have ok: "config_read_cmd sample_sys [''jc'', udec 4] =
     Ok (zero_device\<lparr>junk_packet_count := 4, dev_flags := WGDEVICE_HAS_JC\<rparr>)"
    by (simp add: config_read_cmd_def cmd_step_def cmd_device_arg_def arg_match_def set_uint16_def zero_device_def)
  with arguments_safe [of sample_sys "[''jc'', udec 4]"] show ?thesis by simp
qed

text \<open>C27. After a configuration file has been read, a flag that announces a header or junk string goes with
  a string; the argument reader breaks this rule on an empty argument.\<close>

theorem file_strings_present:
  assumes "res_fold (config_read_line S) (config_read_init a) lines = Ok ctx"
  shows "strings_set (ctx_device ctx) \<and>
    (\<exists>d. config_read_cmd S [''i1'', []] = Ok d \<and> has (dev_flags d) WGDEVICE_HAS_I1 \<and> i1 d = None)"
proof
  have "strings_set (ctx_device (config_read_init a))"
    by (simp add: config_read_init_def strings_set_def string_flags_def zero_device_def)
      (simp add: has_def flag_defs)
  with assms show "strings_set (ctx_device ctx)"
    by (induction lines arbitrary: ctx rule: rev_induct)
      (auto simp: res_fold_append res_simps intro: config_read_line_strings)
  show "\<exists>d. config_read_cmd S [''i1'', []] = Ok d \<and> has (dev_flags d) WGDEVICE_HAS_I1 \<and> i1 d = None"
    by (simp add: config_read_cmd_def cmd_step_def cmd_device_arg_def cmd_device_string_arg_def arg_match_def
        set_awg_string_def parse_awg_string_def zero_device_def Let_def) (simp add: has_def flag_defs)
qed

theorem file_strings_present_witness:
  "\<exists>ctx. res_fold (config_read_line sample_sys) (config_read_init True) [''[Interface]'', ''I1 = ab''] = Ok ctx \<and>
     has (dev_flags (ctx_device ctx)) WGDEVICE_HAS_I1 \<and> i1 (ctx_device ctx) = Some ''ab'' \<and> strings_set (ctx_device ctx)"
proof -
  let ?d = "zero_device\<lparr>i1 := Some ''ab'', dev_flags := WGDEVICE_HAS_I1\<rparr>"
  let ?ctx = "(config_read_init True)\<lparr>is_device_section := True, ctx_device := ?d\<rparr>"
  have r: "res_fold (config_read_line sample_sys) (config_read_init True) [''[Interface]'', ''I1 = ab''] = Ok ?ctx"
  proof -
    have c: "clean_line ''[Interface]'' = ''[Interface]''" "clean_line ''I1 = ab'' = ''I1=ab''" by code_simp+
    have k: "list_all (\<lambda>k. get_value ''I1=ab'' (k @ ''='') = None) [''ListenPort'', ''FwMark'', ''PrivateKey'', ''Jc'', ''Jmin'', ''Jmax'',
        ''S1'', ''S2'', ''S3'', ''S4'', ''H1'', ''H2'', ''H3'', ''H4'']" "get_value ''I1=ab'' (''I1'' @ ''='') = Some ''ab''" by code_simp+
    have h: "\<not> strcaseeq ''I1=ab'' ''[Interface]''" "\<not> strcaseeq ''I1=ab'' ''[Peer]''" by code_simp+
    have p: "process_device_line sample_sys ''I1=ab'' zero_device = Ok ?d"
      using k unfolding process_device_line_def key_match_def list.pred_inject simp_thms
      by (simp only: option.case set_awg_string_def parse_awg_string_def) (simp add: Let_def zero_device_def)
    have "config_read_line sample_sys (config_read_init True) ''[Interface]'' = Ok ((config_read_init True)\<lparr>is_device_section := True\<rparr>)"
      by (simp add: config_read_line_def c process_line_def strcaseeq_def config_read_init_def)
    moreover have "config_read_line sample_sys ((config_read_init True)\<lparr>is_device_section := True\<rparr>) ''I1 = ab'' = Ok ?ctx"
      using p by (simp add: config_read_line_def c process_line_def h on_device_def config_read_init_def Let_def)
    ultimately show ?thesis by simp
  qed
  from file_strings_present [OF r] r show ?thesis by (intro exI [of _ ?ctx]) (simp add: has_def flag_defs)
qed

text \<open>Keys are matched in any mixture of cases: two spellings of a key that differ only in case have the
  same effect in the section of the interface and in the section of a peer.\<close>

theorem keys_case_insensitive:
  assumes "strcaseeq k k'" "CHR ''='' \<notin> set k" "CHR ''='' \<notin> set k'"
  shows "(process_device_line S (k @ CHR ''='' # v) d = Ok d' \<longleftrightarrow> process_device_line S (k' @ CHR ''='' # v) d = Ok d') \<and>
    (process_peer_line S (k @ CHR ''='' # v) ctx = Ok ctx' \<longleftrightarrow> process_peer_line S (k' @ CHR ''='' # v) ctx = Ok ctx')"
proof -
  have same: "strcaseeq k key \<longleftrightarrow> strcaseeq k' key" for key using assms(1) by (auto simp: strcaseeq_def)
  show ?thesis
    unfolding process_device_line_def process_peer_line_def
    by (intro conjI key_match_spellings [OF same assms(2,3)]) simp_all
qed

theorem keys_case_insensitive_witness:
  "process_device_line sample_sys (''PRIVATEKEY'' @ CHR ''='' # ''x'') zero_device = Ok zero_device \<longleftrightarrow>
   process_device_line sample_sys (''PrivateKey'' @ CHR ''='' # ''x'') zero_device = Ok zero_device"
  using keys_case_insensitive [of "''PRIVATEKEY''" "''PrivateKey''" sample_sys "''x''" zero_device zero_device]
  by (simp add: strcaseeq_def c_tolower_literals)

text \<open>What follows a number sign is ignored, in every section and also in lines that keep their white
  space.\<close>

theorem comments_ignored:
  assumes "CHR ''#'' \<notin> set s"
  shows "config_read_line S ctx (s @ CHR ''#'' # comment) = config_read_line S ctx s"
  using assms by (simp add: config_read_line_def clean_line_comment)

theorem comments_ignored_witness:
  "config_read_line sample_sys (config_read_init True) ''[Peer]# one'' =
   config_read_line sample_sys (config_read_init True) ''[Peer]''"
  using comments_ignored [of "''[Peer]''" sample_sys "config_read_init True" "'' one''"] by simp

text \<open>In a line that starts with one of the keys \<^verbatim>\<open>I1\<close> to \<^verbatim>\<open>I5\<close> the value keeps the white space
  inside it and loses the white space around it, and the key loses all of it.\<close>

theorem special_lines_keep_inner_space:
  assumes "CHR ''='' \<notin> set k" "list_all c_space sp" "list_all c_space sp'"
    and "v \<noteq> []" "\<not> c_space (hd v)" "\<not> c_space (last v)"
  shows "clean_special_handshake_line (k @ CHR ''='' # sp @ v @ sp' @ rest) (length (k @ CHR ''='' # sp @ v @ sp')) =
    filter (\<lambda>c. \<not> c_space c) k @ CHR ''='' # v"
  using assms by (intro clean_special_handshake_line_value) simp_all

theorem special_lines_keep_inner_space_witness:
  "clean_special_handshake_line (''I1 '' @ CHR ''='' # '' '' @ ''<b 0x1f> <r 8>'' @ '' '' @ []) 20 =
    ''I1'' @ CHR ''='' # ''<b 0x1f> <r 8>''"
  using special_lines_keep_inner_space [of "''I1 ''" "'' ''" "'' ''" "''<b 0x1f> <r 8>''" "[]"]
  by (simp add: is_c_space_def eval_nat_numeral)

end
