(* ===== verification/Setconf.thy ===== *)
theory Setconf
  imports Config "HOL-Library.Multiset"
begin

text \<open>
  \<^verbatim>\<open>setconf.c\<close> and \<^verbatim>\<open>set.c\<close>: the commands \<^verbatim>\<open>setconf\<close>, \<^verbatim>\<open>addconf\<close>,
  \<^verbatim>\<open>syncconf\<close> and \<^verbatim>\<open>set\<close>.  They read a configuration, the third of them compares it
  with the peers the interface has, and hand the device to the interface.  The interface is a
  pair of operations on a state of its own, \<^verbatim>\<open>ipc_get_device\<close> and
  \<^verbatim>\<open>ipc_set_device\<close>, which the commands take as arguments.
\<close>

section \<open>Definitions\<close>

text \<open>The two operations; an answer other than 0 is an error number.\<close>

record 'w ipc =
  ipc_get_device :: "'w \<Rightarrow> string \<Rightarrow> int + wgdevice"
  ipc_set_device :: "'w \<Rightarrow> wgdevice \<Rightarrow> int \<times> 'w"

record pubkey_origin =
  pubkey :: bytes
  from_file :: bool

text \<open>The sign of \<^verbatim>\<open>memcmp\<close>: the first byte that differs decides.\<close>

fun memcmp :: "bytes \<Rightarrow> bytes \<Rightarrow> nat \<Rightarrow> int" where
  "memcmp (a # as) (b # bs) (Suc n) =
     (if a < b then - 1 else if b < a then 1 else memcmp as bs n)"
| "memcmp _ _ _ = 0"

definition pubkey_cmp :: "pubkey_origin \<Rightarrow> pubkey_origin \<Rightarrow> int" where
  "pubkey_cmp a b =
     (let ret = memcmp (pubkey a) (pubkey b) WG_KEY_LEN
      in if ret \<noteq> 0 then ret else of_bool (from_file a) - of_bool (from_file b))"

text \<open>\<^verbatim>\<open>qsort\<close>, by insertion; what it promises of any order is in the locale below.\<close>

fun qsort_insert :: "('a \<Rightarrow> 'a \<Rightarrow> int) \<Rightarrow> 'a \<Rightarrow> 'a list \<Rightarrow> 'a list" where
  "qsort_insert cmp x [] = [x]"
| "qsort_insert cmp x (y # ys) = (if cmp x y \<le> 0 then x # y # ys else y # qsort_insert cmp x ys)"

definition qsort :: "('a \<Rightarrow> 'a \<Rightarrow> int) \<Rightarrow> 'a list \<Rightarrow> 'a list" where
  "qsort cmp xs = foldr (qsort_insert cmp) xs []"

text \<open>The scan of the sorted keys, which puts a peer to remove in front of the list for each key
  of the interface that no key of the file follows.\<close>

fun sync_scan :: "pubkey_origin list \<Rightarrow> wgpeer list \<Rightarrow> wgpeer list" where
  "sync_scan [] peers = peers"
| "sync_scan (k # ks) peers =
     (if from_file k then sync_scan ks peers
      else if ks = [] \<or> \<not> from_file (hd ks) \<or> memcmp (pubkey k) (pubkey (hd ks)) WG_KEY_LEN \<noteq> 0
      then sync_scan ks (zero_peer\<lparr>peer_flags := WGPEER_REMOVE_ME, peer_public_key := pubkey k\<rparr> # peers)
      else sync_scan ks peers)"

definition sync_conf :: "'w ipc \<Rightarrow> 'w \<Rightarrow> wgdevice \<Rightarrow> wgdevice option" where
  "sync_conf I w file =
     (if first_peer file = [] then Some file
      else case ipc_get_device I w (dev_name file) of
        Inl _ \<Rightarrow> None
      | Inr runtime \<Rightarrow>
          if first_peer runtime = [] then Some file
          else
            let file = file\<lparr>dev_flags := dev_flags file AND NOT WGDEVICE_REPLACE_PEERS\<rparr>;
                pubkeys = map (\<lambda>p. \<lparr>pubkey = peer_public_key p, from_file = True\<rparr>) (first_peer file) @
                          map (\<lambda>p. \<lparr>pubkey = peer_public_key p, from_file = False\<rparr>) (first_peer runtime)
            in Some (file\<lparr>first_peer := sync_scan (qsort pubkey_cmp pubkeys) (first_peer file)\<rparr>))"

lemma dropWhile_Cons_shorter: "dropWhile P s = n # r \<Longrightarrow> length r < length s"
  using length_dropWhile_le [of P s] by simp

text \<open>\<^verbatim>\<open>getline\<close> until the end: the lines with their newline characters.\<close>

function (sequential) getlines :: "string \<Rightarrow> string list" where
  "getlines [] = []"
| "getlines (c # s) =
     (case dropWhile (\<lambda>x. x \<noteq> NL) (c # s) of
        [] \<Rightarrow> [c # s]
      | n # r \<Rightarrow> (takeWhile (\<lambda>x. x \<noteq> NL) (c # s) @ [n]) # getlines r)"
  by pat_completeness auto
termination
proof (relation "measure length")
  fix c s n r
  assume "dropWhile (\<lambda>x. x \<noteq> NL) (c # s) = n # r"
  then show "(r, c # s) \<in> measure length" using dropWhile_Cons_shorter by fastforce
qed simp

abbreviation (input) IFNAMSIZ :: nat where "IFNAMSIZ \<equiv> 16"

definition read_config :: "sys \<Rightarrow> bool \<Rightarrow> string \<Rightarrow> (diag, wgdevice) res" where
  "read_config S appending contents =
     res_bind (res_fold (config_read_line S) (config_read_init appending) (map cstr (getlines contents)))
       config_read_finish"

text \<open>The exit status and the state of the interface; \<^verbatim>\<open>argv\<close> has the name of the command
  first.\<close>

definition setconf_main :: "sys \<Rightarrow> 'w ipc \<Rightarrow> 'w \<Rightarrow> string list \<Rightarrow> (diag, int \<times> 'w) res" where
  "setconf_main S I w argv =
     (if length argv \<noteq> 3 then Ok (1, w)
      else case fopen S (argv ! 2) of
        None \<Rightarrow> Ok (1, w)
      | Some f \<Rightarrow>
          (case read_config S (argv ! 0 = ''addconf'') (f_contents f) of
             Fail _ \<Rightarrow> Ok (1, w)
           | Exit e \<Rightarrow> Exit e
           | Hang \<Rightarrow> Hang
           | Fault \<Rightarrow> Fault
           | Ok device \<Rightarrow>
               let device = device\<lparr>dev_name := take (IFNAMSIZ - 1) (argv ! 1)\<rparr> in
               case (if argv ! 0 = ''syncconf'' then sync_conf I w device else Some device) of
                 None \<Rightarrow> Ok (1, w)
               | Some device \<Rightarrow>
                   let (ret, w') = ipc_set_device I w device
                   in Ok (if ret \<noteq> 0 then 1 else 0, w')))"

definition set_main :: "sys \<Rightarrow> 'w ipc \<Rightarrow> 'w \<Rightarrow> string list \<Rightarrow> (diag, int \<times> 'w) res" where
  "set_main S I w argv =
     (if length argv < 3 then Ok (1, w)
      else case config_read_cmd S (drop 2 argv) of
        Fail _ \<Rightarrow> Ok (1, w)
      | Exit e \<Rightarrow> Exit e
      | Hang \<Rightarrow> Hang
      | Fault \<Rightarrow> Fault
      | Ok device \<Rightarrow>
          let (ret, w') = ipc_set_device I w (device\<lparr>dev_name := take (IFNAMSIZ - 1) (argv ! 1)\<rparr>)
          in Ok (if ret \<noteq> 0 then 1 else 0, w'))"

section \<open>Sorting by a comparison function\<close>

text \<open>
  What a comparison function has to promise: on the values it is used on it is transitive and
  total.  Then the result is a sorted rearrangement, and when only equal values compare equal, it
  is the only one, so that it does not matter which algorithm the C library has.
\<close>

locale comparison =
  fixes cmp :: "'a \<Rightarrow> 'a \<Rightarrow> int" and ok :: "'a \<Rightarrow> bool"
  assumes cmp_trans: "ok a \<Longrightarrow> ok b \<Longrightarrow> ok c \<Longrightarrow> cmp a b \<le> 0 \<Longrightarrow> cmp b c \<le> 0 \<Longrightarrow> cmp a c \<le> 0"
    and cmp_total: "ok a \<Longrightarrow> ok b \<Longrightarrow> cmp a b \<le> 0 \<or> cmp b a \<le> 0"
begin

abbreviation le :: "'a \<Rightarrow> 'a \<Rightarrow> bool" where "le a b \<equiv> cmp a b \<le> 0"

lemma mset_insert: "mset (qsort_insert cmp x xs) = add_mset x (mset xs)"
  by (induction xs) auto

lemma mset_qsort: "mset (qsort cmp xs) = mset xs"
  by (induction xs) (simp_all add: qsort_def mset_insert)

lemma set_qsort: "set (qsort cmp xs) = set xs"
  using mset_qsort by (rule mset_eq_setD)

lemma sorted_insert:
  assumes "ok x" "\<And>y. y \<in> set xs \<Longrightarrow> ok y" "sorted_wrt le xs"
  shows "sorted_wrt le (qsort_insert cmp x xs)"
  using assms(2,3)
proof (induction xs)
  case (Cons y ys)
  have set: "set (qsort_insert cmp x ys) = insert x (set ys)"
    using mset_insert [of x ys] by (metis set_mset_add_mset_insert set_mset_mset)
  show ?case
  proof (cases "le x y")
    case True
    then have "le x z" if "z \<in> set ys" for z
      using that Cons.prems assms(1) cmp_trans [of x y z] by simp
    with True Cons.prems show ?thesis by simp
  next
    case False
    with cmp_total assms(1) Cons.prems have "le y x" by auto
    with False Cons set show ?thesis by auto
  qed
qed simp

lemma sorted_qsort: "(\<And>x. x \<in> set xs \<Longrightarrow> ok x) \<Longrightarrow> sorted_wrt le (qsort cmp xs)"
proof (induction xs)
  case (Cons x xs)
  then have "sorted_wrt le (qsort_insert cmp x (qsort cmp xs))"
    by (intro sorted_insert) (auto simp: set_qsort)
  then show ?case by (simp add: qsort_def)
qed (simp add: qsort_def)

end

locale strict_comparison = comparison +
  assumes cmp_antisym: "ok a \<Longrightarrow> ok b \<Longrightarrow> cmp a b \<le> 0 \<Longrightarrow> cmp b a \<le> 0 \<Longrightarrow> a = b"
begin

lemma sorted_unique:
  assumes "\<And>x. x \<in> set xs \<Longrightarrow> ok x" "mset xs = mset ys" "sorted_wrt le xs" "sorted_wrt le ys"
  shows "xs = ys"
  using assms
proof (induction xs arbitrary: ys)
  case (Cons x xs)
  then obtain y ys' where ys: "ys = y # ys'" by (cases ys) auto
  have in_y: "x \<in> set ys" and in_x: "y \<in> set (x # xs)"
    using mset_eq_setD [OF Cons.prems(2)] ys by auto
  have "x = y"
  proof (rule ccontr)
    assume "x \<noteq> y"
    with in_y in_x ys have "x \<in> set ys'" "y \<in> set xs" by auto
    with Cons.prems(3,4) ys have "le x y" "le y x" by auto
    with cmp_antisym Cons.prems(1) in_x \<open>x \<noteq> y\<close> show False by auto
  qed
  with Cons ys show ?case by simp
qed simp

lemma qsort_unique:
  assumes "\<And>x. x \<in> set xs \<Longrightarrow> ok x" "mset ys = mset xs" "sorted_wrt le ys"
  shows "qsort cmp xs = ys"
  using assms by (intro sorted_unique) (auto simp: set_qsort mset_qsort sorted_qsort)

end

section \<open>The order of keys\<close>

lemma memcmp_swap: "memcmp b a n = - memcmp a b n"
  by (induction a b n rule: memcmp.induct) auto

lemma memcmp_0_iff: "length a = n \<Longrightarrow> length b = n \<Longrightarrow> memcmp a b n = 0 \<longleftrightarrow> a = b"
  by (induction a b n rule: memcmp.induct) auto

lemma memcmp_trans:
  "length a = n \<Longrightarrow> length b = n \<Longrightarrow> length c = n \<Longrightarrow>
   memcmp a b n \<le> 0 \<Longrightarrow> memcmp b c n \<le> 0 \<Longrightarrow> memcmp a c n \<le> 0"
proof (induction n arbitrary: a b c)
  case (Suc n)
  then obtain x a' y b' z c' where abc: "a = x # a'" "b = y # b'" "c = z # c'"
    by (metis length_Suc_conv)
  with Suc.prems Suc.IH [of a' b' c'] show ?case by (auto split: if_splits)
qed simp

definition key_ok :: "pubkey_origin \<Rightarrow> bool" where
  "key_ok k \<longleftrightarrow> length (pubkey k) = WG_KEY_LEN"

lemma pubkey_cmp_le:
  assumes "key_ok a" "key_ok b"
  shows "pubkey_cmp a b \<le> 0 \<longleftrightarrow> memcmp (pubkey a) (pubkey b) WG_KEY_LEN \<le> 0 \<and>
    (pubkey a = pubkey b \<longrightarrow> from_file a \<longrightarrow> from_file b)"
  using assms memcmp_0_iff [of "pubkey a" WG_KEY_LEN "pubkey b"]
  by (auto simp: pubkey_cmp_def key_ok_def Let_def)

interpretation keys: strict_comparison pubkey_cmp key_ok
proof unfold_locales
  fix a b c assume ok: "key_ok a" "key_ok b" "key_ok c" and le: "pubkey_cmp a b \<le> 0" "pubkey_cmp b c \<le> 0"
  from le ok have "memcmp (pubkey a) (pubkey c) WG_KEY_LEN \<le> 0"
    using memcmp_trans [of "pubkey a" WG_KEY_LEN "pubkey b" "pubkey c"] by (simp add: pubkey_cmp_le key_ok_def)
  moreover have "from_file a \<longrightarrow> from_file c" if "pubkey a = pubkey c"
  proof -
    from le ok that have "memcmp (pubkey a) (pubkey b) WG_KEY_LEN = 0"
      using memcmp_swap [of "pubkey b" "pubkey a" WG_KEY_LEN] by (simp add: pubkey_cmp_le)
    with ok have "pubkey a = pubkey b" by (simp add: memcmp_0_iff key_ok_def)
    with le ok that show ?thesis by (simp add: pubkey_cmp_le)
  qed
  ultimately show "pubkey_cmp a c \<le> 0" using ok by (simp add: pubkey_cmp_le)
next
  fix a b assume ok: "key_ok a" "key_ok b"
  then show "pubkey_cmp a b \<le> 0 \<or> pubkey_cmp b a \<le> 0"
    using memcmp_swap [of "pubkey b" "pubkey a" WG_KEY_LEN] by (auto simp: pubkey_cmp_le)
  assume "pubkey_cmp a b \<le> 0" "pubkey_cmp b a \<le> 0"
  then have "memcmp (pubkey a) (pubkey b) WG_KEY_LEN = 0" "pubkey a = pubkey b \<Longrightarrow> from_file a = from_file b"
    using ok memcmp_swap [of "pubkey b" "pubkey a" WG_KEY_LEN] by (auto simp: pubkey_cmp_le)
  with ok show "a = b" by (simp add: memcmp_0_iff key_ok_def)
qed

section \<open>Synchronising\<close>

text \<open>The keys the scan finds: those of the interface that the file does not have.\<close>

definition removed_peer :: "bytes \<Rightarrow> wgpeer" where
  "removed_peer k = zero_peer\<lparr>peer_flags := WGPEER_REMOVE_ME, peer_public_key := k\<rparr>"

abbreviation twin :: "pubkey_origin \<Rightarrow> pubkey_origin" where
  "twin k \<equiv> \<lparr>pubkey = pubkey k, from_file = True\<rparr>"

text \<open>A key of the interface that the file has is followed by it.\<close>

lemma twin_next_iff:
  assumes sorted: "sorted_wrt keys.le (k # ks)" and ok: "\<And>j. j \<in> set (k # ks) \<Longrightarrow> key_ok j"
    and k: "\<not> from_file k" "\<And>j. j \<in> set ks \<Longrightarrow> \<not> from_file j \<Longrightarrow> pubkey j \<noteq> pubkey k"
  shows "twin k \<in> set ks \<longleftrightarrow>
    ks \<noteq> [] \<and> from_file (hd ks) \<and> memcmp (pubkey k) (pubkey (hd ks)) WG_KEY_LEN = 0"
proof
  assume twin: "twin k \<in> set ks"
  then obtain j js where ks: "ks = j # js" by (cases ks) auto
  have j: "key_ok j" "keys.le k j" "key_ok k" using sorted ok ks by simp_all
  have "keys.le j (twin k)" using twin sorted ks keys.cmp_total [OF j(1) j(1)] by auto
  moreover have "key_ok (twin k)" using j(3) by (simp add: key_ok_def)
  ultimately have eq: "memcmp (pubkey k) (pubkey j) WG_KEY_LEN = 0"
    using j memcmp_swap [of "pubkey j" "pubkey k" WG_KEY_LEN] by (simp add: pubkey_cmp_le)
  then have "pubkey j = pubkey k" using j by (simp add: memcmp_0_iff key_ok_def)
  with k(2) ks have "from_file j" by auto
  with eq show "ks \<noteq> [] \<and> from_file (hd ks) \<and> memcmp (pubkey k) (pubkey (hd ks)) WG_KEY_LEN = 0"
    by (simp add: ks)
next
  assume h: "ks \<noteq> [] \<and> from_file (hd ks) \<and> memcmp (pubkey k) (pubkey (hd ks)) WG_KEY_LEN = 0"
  then have "key_ok (hd ks)" "key_ok k" using ok by simp_all
  with h have "pubkey (hd ks) = pubkey k" by (simp add: memcmp_0_iff key_ok_def)
  with h have "hd ks = twin k" by simp
  with h show "twin k \<in> set ks" by (metis list.set_sel(1))
qed

text \<open>A key of the file precedes no key of the interface that equals it.\<close>

lemma twin_not_before:
  assumes "sorted_wrt keys.le (k # ks)" "\<And>j. j \<in> set (k # ks) \<Longrightarrow> key_ok j"
    and "j \<in> set ks" "\<not> from_file j"
  shows "twin j \<noteq> k"
proof
  assume "twin j = k"
  moreover have "keys.le k j" "key_ok k" "key_ok j" using assms by simp_all
  ultimately show False using assms(4) by (auto simp: pubkey_cmp_le)
qed

lemma sync_scan_eq:
  assumes "sorted_wrt keys.le ks" "\<And>k. k \<in> set ks \<Longrightarrow> key_ok k"
    and "distinct (map pubkey (filter (\<lambda>k. \<not> from_file k) ks))"
  shows "sync_scan ks peers =
    map removed_peer (rev (map pubkey (filter (\<lambda>k. \<not> from_file k \<and> twin k \<notin> set ks) ks))) @ peers"
  using assms
proof (induction ks arbitrary: peers)
  case (Cons k ks)
  have same: "\<not> from_file j \<and> twin j \<notin> set (k # ks) \<longleftrightarrow> \<not> from_file j \<and> twin j \<notin> set ks"
    if "j \<in> set ks" for j
    using twin_not_before [OF Cons.prems(1,2) that] by auto
  show ?case
  proof (cases "from_file k")
    case True
    with Cons same show ?thesis by (simp cong: filter_cong)
  next
    case False
    then have "pubkey j \<noteq> pubkey k" if "j \<in> set ks" "\<not> from_file j" for j
      using Cons.prems(3) that by (auto simp: image_iff)
    note twin_next_iff [OF Cons.prems(1,2) False this]
    moreover have "twin k \<noteq> k" using False by (metis select_convs(2))
    ultimately have "sync_scan (k # ks) peers =
        sync_scan ks ((if twin k \<in> set (k # ks) then [] else [removed_peer (pubkey k)]) @ peers)"
      using False by (auto simp: removed_peer_def)
    with False Cons same show ?thesis by (simp cong: filter_cong)
  qed
qed simp

abbreviation peer_keys :: "wgdevice \<Rightarrow> bytes list" where
  "peer_keys d \<equiv> map peer_public_key (first_peer d)"

text \<open>
  A synchronised file has in front of its peers one peer to remove for each key that only the
  interface has, in decreasing order.
\<close>

lemma sync_conf_eq:
  assumes get: "ipc_get_device I w (dev_name file) = Inr runtime"
    and ne: "first_peer file \<noteq> []" "first_peer runtime \<noteq> []"
    and keys: "list_all (\<lambda>k. length k = WG_KEY_LEN) (peer_keys file @ peer_keys runtime)"
    and dist: "distinct (peer_keys runtime)"
  obtains rs where
    "sync_conf I w file = Some (file\<lparr>dev_flags := dev_flags file AND NOT WGDEVICE_REPLACE_PEERS,
       first_peer := map removed_peer rs @ first_peer file\<rparr>)"
    and "set rs = set (peer_keys runtime) - set (peer_keys file)" and "distinct rs"
    and "sorted_wrt (\<lambda>a b. memcmp b a WG_KEY_LEN \<le> 0) rs"
proof
  define ks where "ks = map (\<lambda>p. \<lparr>pubkey = peer_public_key p, from_file = True\<rparr>) (first_peer file) @
    map (\<lambda>p. \<lparr>pubkey = peer_public_key p, from_file = False\<rparr>) (first_peer runtime)"
  let ?q = "qsort pubkey_cmp ks"
  define rs where "rs = rev (map pubkey (filter (\<lambda>k. \<not> from_file k \<and> twin k \<notin> set ?q) ?q))"
  have ok: "key_ok k" if "k \<in> set ks" for k
    using keys that by (auto simp: ks_def key_ok_def list_all_iff)
  have sorted: "sorted_wrt keys.le ?q" by (rule keys.sorted_qsort) (rule ok)
  have "mset (map pubkey (filter (\<lambda>k. \<not> from_file k) ?q)) = mset (map pubkey (filter (\<lambda>k. \<not> from_file k) ks))"
    by (simp only: mset_map mset_filter keys.mset_qsort)
  also have "map pubkey (filter (\<lambda>k. \<not> from_file k) ks) = peer_keys runtime"
    by (simp add: ks_def filter_map comp_def)
  finally have dist': "distinct (map pubkey (filter (\<lambda>k. \<not> from_file k) ?q))"
    using dist mset_eq_imp_distinct_iff by blast
  show "sync_conf I w file = Some (file\<lparr>dev_flags := dev_flags file AND NOT WGDEVICE_REPLACE_PEERS,
       first_peer := map removed_peer rs @ first_peer file\<rparr>)"
    using sync_scan_eq [OF sorted _ dist', of "first_peer file"] ok get ne
    by (simp add: sync_conf_def Let_def rs_def keys.set_qsort) (simp add: ks_def)
  show "set rs = set (peer_keys runtime) - set (peer_keys file)"
    unfolding rs_def set_rev set_map set_filter keys.set_qsort by (force simp: ks_def image_iff)
  show "distinct rs"
    using distinct_map_filter [OF dist', of "\<lambda>k. twin k \<notin> set ?q"] by (simp add: rs_def conj_commute)
  have "sorted_wrt (\<lambda>a b. memcmp (pubkey a) (pubkey b) WG_KEY_LEN \<le> 0) ?q"
    using sorted by (rule sorted_wrt_mono_rel [rotated]) (auto simp: pubkey_cmp_le ok keys.set_qsort)
  then show "sorted_wrt (\<lambda>a b. memcmp b a WG_KEY_LEN \<le> 0) rs"
    by (simp add: rs_def sorted_wrt_rev sorted_wrt_map sorted_wrt_filter)
qed

section \<open>Reading a whole file\<close>

lemma read_config_ok:
  "res_ok (\<lambda>d. list_all (\<lambda>p. has (peer_flags p) WGPEER_HAS_PUBLIC_KEY) (first_peer d) \<and>
     (pton_sizes S \<longrightarrow> wf_device d)) (read_config S a contents)"
  unfolding read_config_def
proof (rule res_ok_bind)
  show "res_ok (ctx_inv S) (res_fold (config_read_line S) (config_read_init a) (map cstr (getlines contents)))"
    by (rule conf.fold_ok) simp
qed (auto simp: config_read_finish_def ctx_inv_def)

section \<open>Properties\<close>

text \<open>C6. Synchronising compares the keys of the file with those of the interface: the interface is asked to
  remove exactly the peers that only it has, each once, in front of the peers of the file, and not to
  replace all peers.\<close>

theorem sync_removes_stale_peers:
  assumes "ipc_get_device I w (dev_name file) = Inr runtime"
    and "first_peer file \<noteq> []" "first_peer runtime \<noteq> []"
    and "list_all (\<lambda>k. length k = WG_KEY_LEN) (peer_keys file @ peer_keys runtime)"
    and "distinct (peer_keys runtime)"
  shows "\<exists>rs. sync_conf I w file = Some (file\<lparr>dev_flags := dev_flags file AND NOT WGDEVICE_REPLACE_PEERS,
       first_peer := map removed_peer rs @ first_peer file\<rparr>) \<and>
    set rs = set (peer_keys runtime) - set (peer_keys file) \<and> distinct rs"
  using sync_conf_eq [OF assms] by metis

theorem sync_removes_stale_peers_witness:
  "\<exists>rs. set rs = {replicate 32 1 :: bytes, replicate 32 2} - {replicate 32 2} \<and> distinct rs \<and>
     sync_conf \<lparr>ipc_get_device = (\<lambda>w n. Inr (zero_device\<lparr>first_peer :=
           [removed_peer (replicate 32 1), removed_peer (replicate 32 2)]\<rparr>)), ipc_set_device = (\<lambda>w d. (0, w))\<rparr> ()
       (zero_device\<lparr>first_peer := [removed_peer (replicate 32 2)]\<rparr>) =
     Some (zero_device\<lparr>dev_flags := 0, first_peer := map removed_peer rs @ [removed_peer (replicate 32 2)]\<rparr>)"
proof -
  let ?rt = "zero_device\<lparr>first_peer := [removed_peer (replicate 32 1), removed_peer (replicate 32 2)]\<rparr>"
  let ?file = "zero_device\<lparr>first_peer := [removed_peer (replicate 32 2)]\<rparr>"
  let ?I = "\<lparr>ipc_get_device = (\<lambda>w n. Inr ?rt), ipc_set_device = (\<lambda>w d. (0, w))\<rparr>"
  have ne: "replicate 32 (1::u8) \<noteq> replicate 32 2" by simp
  have keys: "peer_public_key (removed_peer k) = k" for k by (simp add: removed_peer_def)
  have fl: "dev_flags zero_device = 0" by (simp add: zero_device_def)
  show ?thesis
    using sync_removes_stale_peers [of ?I "()" ?file ?rt] ne by (simp add: keys fl) metis
qed

text \<open>The order of the keys is total on 32-byte keys, and every sorted rearrangement of the keys is
  the one the model computes, so the result does not depend on the sorting algorithm.\<close>

theorem key_sort_unique:
  assumes "\<And>k. k \<in> set ks \<Longrightarrow> length (pubkey k) = WG_KEY_LEN"
    and "mset ks' = mset ks" "sorted_wrt (\<lambda>a b. pubkey_cmp a b \<le> 0) ks'"
  shows "qsort pubkey_cmp ks = ks' \<and> sorted_wrt (\<lambda>a b. pubkey_cmp a b \<le> 0) (qsort pubkey_cmp ks)"
  using assms keys.qsort_unique [of ks ks'] keys.sorted_qsort [of ks] by (simp add: key_ok_def)

theorem key_sort_unique_witness:
  "qsort pubkey_cmp [\<lparr>pubkey = replicate 32 2, from_file = True\<rparr>, \<lparr>pubkey = replicate 32 1, from_file = False\<rparr>] =
    [\<lparr>pubkey = replicate 32 1, from_file = False\<rparr>, \<lparr>pubkey = replicate 32 2, from_file = True\<rparr>]"
proof -
  have "replicate 32 x = x # replicate 31 x" for x :: u8 by (simp flip: replicate_Suc)
  then have "memcmp (replicate 32 1) (replicate 32 2) 32 = - 1" by (simp add: numeral_eq_Suc)
  then show ?thesis
    by (intro key_sort_unique [THEN conjunct1]) (auto simp: pubkey_cmp_def)
qed

text \<open>C5. A configuration file is applied completely or not at all: when a line or the whole is refused, the
  commands leave the interface as it was and report failure, and a device that is handed to the
  interface has a public key for every peer and, under the contract of the address parser, is
  well-formed.\<close>

theorem setconf_all_or_nothing:
  assumes "fopen S (argv ! 2) = Some f" "length argv = 3"
  shows "(case read_config S (argv ! 0 = ''addconf'') (f_contents f) of
      Fail e \<Rightarrow> setconf_main S I w argv = Ok (1, w)
    | Ok d \<Rightarrow> list_all (\<lambda>p. has (peer_flags p) WGPEER_HAS_PUBLIC_KEY) (first_peer d) \<and>
        (pton_sizes S \<longrightarrow> wf_device d) \<and>
        (argv ! 0 \<noteq> ''syncconf'' \<longrightarrow> setconf_main S I w argv =
          (let (ret, w') = ipc_set_device I w (d\<lparr>dev_name := take 15 (argv ! 1)\<rparr>)
           in Ok (if ret \<noteq> 0 then 1 else 0, w')))
    | Exit e \<Rightarrow> setconf_main S I w argv = Exit e
    | Hang \<Rightarrow> setconf_main S I w argv = Hang
    | Fault \<Rightarrow> False)"
  using read_config_ok [of S "argv ! 0 = ''addconf''" "f_contents f"] assms
  by (cases "read_config S (argv ! 0 = ''addconf'') (f_contents f)")
    (simp_all add: setconf_main_def Let_def)

theorem setconf_all_or_nothing_witness:
  "setconf_main (sample_sys\<lparr>fopen := (\<lambda>_. Some \<lparr>f_contents = ''x'', f_error = False\<rparr>)\<rparr>)
     \<lparr>ipc_get_device = (\<lambda>w n. Inl 1), ipc_set_device = (\<lambda>w d. (0, Suc w))\<rparr> 0 [''setconf'', ''wg0'', ''wg0.conf''] =
   Ok (1, 0)"
proof -
  let ?S = "sample_sys\<lparr>fopen := (\<lambda>_. Some \<lparr>f_contents = ''x'', f_error = False\<rparr>)\<rparr>"
  have "read_config ?S False ''x'' = Fail (D_line ''x'')"
    by (simp add: read_config_def cstr_def config_read_line_def clean_line_def awg_special_handshake_keys_def
        strncaseeq_def strcaseeq_def c_tolower_literals is_c_space_def process_line_def config_read_init_def)
  then show ?thesis
    using setconf_all_or_nothing [of ?S "[''setconf'', ''wg0'', ''wg0.conf'']" "\<lparr>f_contents = ''x'', f_error = False\<rparr>"
        "\<lparr>ipc_get_device = (\<lambda>w n. Inl 1), ipc_set_device = (\<lambda>w d. (0, Suc w))\<rparr>" 0]
    by simp
qed

end
