(* ===== verification/Showconf.thy ===== *)
theory Showconf
  imports Setconf
begin

text \<open>
  \<^verbatim>\<open>showconf.c\<close>: the configuration file of a device, and that reading it back gives the
  device.  The text is what the calls of \<^verbatim>\<open>printf\<close> write, in their order.
\<close>

section \<open>Definitions\<close>

text \<open>\<^verbatim>\<open>printf("%s")\<close> of a pointer that may be null, as glibc and bionic print it.\<close>

definition percent_s :: "string option \<Rightarrow> string" where
  "percent_s v = (case v of None \<Rightarrow> ''(null)'' | Some s \<Rightarrow> s)"

text \<open>\<^verbatim>\<open>printf("Key = %s\n", value)\<close>, and a call that is made under a condition.\<close>

definition conf_line :: "string \<Rightarrow> string \<Rightarrow> string" where
  "conf_line key value = key @ '' = '' @ value @ [NL]"

definition print_if :: "bool \<Rightarrow> string \<Rightarrow> string" where
  "print_if b s = (if b then s else [])"

definition showconf_device :: "wgdevice \<Rightarrow> string" where
  "showconf_device d =
     ''[Interface]'' @ [NL] @
     print_if (listen_port d \<noteq> 0) (conf_line ''ListenPort'' (udec (unat (listen_port d)))) @
     print_if (fwmark d \<noteq> 0) (conf_line ''FwMark'' (''0x'' @ uhex (unat (fwmark d)))) @
     print_if (has (dev_flags d) WGDEVICE_HAS_PRIVATE_KEY) (conf_line ''PrivateKey'' (key_to_base64 (private_key d))) @
     print_if (has (dev_flags d) WGDEVICE_HAS_JC) (conf_line ''Jc'' (udec (unat (junk_packet_count d)))) @
     print_if (has (dev_flags d) WGDEVICE_HAS_JMIN) (conf_line ''Jmin'' (udec (unat (junk_packet_min_size d)))) @
     print_if (has (dev_flags d) WGDEVICE_HAS_JMAX) (conf_line ''Jmax'' (udec (unat (junk_packet_max_size d)))) @
     print_if (has (dev_flags d) WGDEVICE_HAS_S1) (conf_line ''S1'' (udec (unat (init_packet_junk_size d)))) @
     print_if (has (dev_flags d) WGDEVICE_HAS_S2) (conf_line ''S2'' (udec (unat (response_packet_junk_size d)))) @
     print_if (has (dev_flags d) WGDEVICE_HAS_S3) (conf_line ''S3'' (udec (unat (cookie_reply_packet_junk_size d)))) @
     print_if (has (dev_flags d) WGDEVICE_HAS_S4) (conf_line ''S4'' (udec (unat (transport_packet_junk_size d)))) @
     print_if (has (dev_flags d) WGDEVICE_HAS_H1) (conf_line ''H1'' (percent_s (init_packet_magic_header d))) @
     print_if (has (dev_flags d) WGDEVICE_HAS_H2) (conf_line ''H2'' (percent_s (response_packet_magic_header d))) @
     print_if (has (dev_flags d) WGDEVICE_HAS_H3) (conf_line ''H3'' (percent_s (underload_packet_magic_header d))) @
     print_if (has (dev_flags d) WGDEVICE_HAS_H4) (conf_line ''H4'' (percent_s (transport_packet_magic_header d))) @
     print_if (has (dev_flags d) WGDEVICE_HAS_I1) (conf_line ''I1'' (percent_s (i1 d))) @
     print_if (has (dev_flags d) WGDEVICE_HAS_I2) (conf_line ''I2'' (percent_s (i2 d))) @
     print_if (has (dev_flags d) WGDEVICE_HAS_I3) (conf_line ''I3'' (percent_s (i3 d))) @
     print_if (has (dev_flags d) WGDEVICE_HAS_I4) (conf_line ''I4'' (percent_s (i4 d))) @
     print_if (has (dev_flags d) WGDEVICE_HAS_I5) (conf_line ''I5'' (percent_s (i5 d))) @
     [NL]"

text \<open>The bytes of the address a family uses of the union.\<close>

definition ip_bytes :: "wgallowedip \<Rightarrow> bytes" where
  "ip_bytes a = take (addr_len (a_family a)) (a_ip a)"

fun showconf_allowedips :: "sys \<Rightarrow> wgallowedip list \<Rightarrow> string" where
  "showconf_allowedips S [] = []"
| "showconf_allowedips S (a # as) =
     (if a_family a = AF_INET \<or> a_family a = AF_INET6 then
        (case inet_ntop S (a_family a) (ip_bytes a) of
           None \<Rightarrow> []
         | Some ip \<Rightarrow> ip @ ''/'' @ udec (unat (a_cidr a)) @ print_if (as \<noteq> []) '', '')
      else []) @ showconf_allowedips S as"

definition sockaddr_len :: "sockaddr \<Rightarrow> nat" where
  "sockaddr_len sa =
     (if sa_fam sa = AF_INET then sizeof_sockaddr_in
      else if sa_fam sa = AF_INET6 then sizeof_sockaddr_in6 else 0)"

definition format_endpoint :: "sockaddr \<Rightarrow> string \<Rightarrow> string \<Rightarrow> string" where
  "format_endpoint sa host service =
     (if sa_fam sa = AF_INET6 \<and> strchr host (CHR '':'') \<noteq> None
      then ''['' @ host @ '']:'' @ service else host @ '':'' @ service)"

definition showconf_endpoint :: "sys \<Rightarrow> sockaddr \<Rightarrow> string" where
  "showconf_endpoint S sa =
     (if sa_fam sa = AF_INET \<or> sa_fam sa = AF_INET6 then
        (case getnameinfo S sa (sockaddr_len sa) of
           Inl _ \<Rightarrow> []
         | Inr (host, service) \<Rightarrow> conf_line ''Endpoint'' (format_endpoint sa host service))
      else [])"

definition showconf_peer :: "sys \<Rightarrow> bool \<Rightarrow> wgpeer \<Rightarrow> string" where
  "showconf_peer S next_peer p =
     ''[Peer]'' @ [NL] @ conf_line ''PublicKey'' (key_to_base64 (peer_public_key p)) @
     print_if (has (peer_flags p) WGPEER_HAS_PRESHARED_KEY)
       (conf_line ''PresharedKey'' (key_to_base64 (preshared_key p))) @
     print_if (has (peer_flags p) WGPEER_HAS_AWG)
       (conf_line ''AdvancedSecurity'' (if awg p then ''on'' else ''off'')) @
     print_if (first_allowedip p \<noteq> []) (''AllowedIPs = '') @
     showconf_allowedips S (first_allowedip p) @
     print_if (first_allowedip p \<noteq> []) [NL] @
     showconf_endpoint S (endpoint p) @
     print_if (persistent_keepalive_interval p \<noteq> 0)
       (conf_line ''PersistentKeepalive'' (udec (unat (persistent_keepalive_interval p)))) @
     print_if next_peer [NL]"

fun showconf_peers :: "sys \<Rightarrow> wgpeer list \<Rightarrow> string" where
  "showconf_peers S [] = []"
| "showconf_peers S (p # ps) = showconf_peer S (ps \<noteq> []) p @ showconf_peers S ps"

definition showconf :: "sys \<Rightarrow> wgdevice \<Rightarrow> string" where
  "showconf S d = showconf_device d @ showconf_peers S (first_peer d)"

text \<open>The exit status and the output.\<close>

definition showconf_main :: "sys \<Rightarrow> 'w ipc \<Rightarrow> 'w \<Rightarrow> string list \<Rightarrow> int \<times> string" where
  "showconf_main S I w argv =
     (if length argv \<noteq> 2 then (1, [])
      else case ipc_get_device I w (argv ! 1) of
        Inl _ \<Rightarrow> (1, [])
      | Inr device \<Rightarrow> (0, showconf S device))"

section \<open>Reading a printed line\<close>

lemma getlines_line: "NL \<notin> set l \<Longrightarrow> getlines (l @ NL # s) = (l @ [NL]) # getlines s"
proof -
  assume l: "NL \<notin> set l"
  then have tw: "takeWhile (\<lambda>x. x \<noteq> NL) (l @ NL # s) = l" and dw: "dropWhile (\<lambda>x. x \<noteq> NL) (l @ NL # s) = NL # s"
    by (induction l) auto
  obtain c r where cr: "l @ NL # s = c # r" by (cases l) auto
  show ?thesis using tw dw by (simp only: cr getlines.simps) simp
qed

text \<open>Characters that survive the cleaning of a line.\<close>

definition plain :: "string \<Rightarrow> bool" where
  "plain s \<longleftrightarrow> list_all (\<lambda>c. \<not> c_space c \<and> c \<noteq> CHR ''#'' \<and> c \<noteq> NUL) s"

lemma plain_append [simp]: "plain (a @ b) \<longleftrightarrow> plain a \<and> plain b"
  by (simp add: plain_def)

lemma plain_Nil [simp]: "plain []"
  by (simp add: plain_def)

lemma NL_space: "c_space NL"
  by (simp add: char_class_char is_c_space_def)

lemma plainD: "plain s \<Longrightarrow> CHR ''#'' \<notin> set s \<and> NUL \<notin> set s \<and> NL \<notin> set s"
  using NL_space by (auto simp: plain_def list_all_iff)

lemma plain_filter: "plain s \<Longrightarrow> filter (\<lambda>c. \<not> c_space c) s = s"
  by (auto simp: plain_def list_all_iff filter_id_conv)

lemma strncaseeq_append: "n \<le> length a \<Longrightarrow> strncaseeq n (a @ b) = strncaseeq n a"
  by (rule ext) (simp add: strncaseeq_def)

abbreviation special_key :: "string \<Rightarrow> bool" where
  "special_key k \<equiv> list_ex (strncaseeq 2 k) awg_special_handshake_keys"

lemma clean_conf_line:
  assumes "plain k" "2 \<le> length k" "\<not> special_key k" "CHR ''#'' \<notin> set v"
  shows "clean_line (conf_line k v) = k @ CHR ''='' # filter (\<lambda>c. \<not> c_space c) v"
proof -
  have "CHR ''#'' \<notin> set (conf_line k v)"
    using assms(4) plainD [OF assms(1)] by (auto simp: conf_line_def)
  moreover have "filter (\<lambda>c. \<not> c_space c) (conf_line k v) = k @ CHR ''='' # filter (\<lambda>c. \<not> c_space c) v"
    using plain_filter [OF assms(1)] by (simp add: conf_line_def is_c_space_def)
  moreover have "\<not> special_key (conf_line k v)"
    using assms(2,3) by (simp add: conf_line_def strncaseeq_append)
  ultimately show ?thesis using strchr_None_iff [of "conf_line k v" "CHR ''#''"] by (simp add: clean_line_def)
qed

lemma clean_conf_line_special:
  assumes "plain k" "2 \<le> length k" "special_key k" "CHR ''='' \<notin> set k"
    and "v \<noteq> []" "\<not> c_space (hd v)" "\<not> c_space (last v)" "CHR ''#'' \<notin> set v"
  shows "clean_line (conf_line k v) = k @ CHR ''='' # v"
proof -
  have "CHR ''#'' \<notin> set (conf_line k v)"
    using assms(8) plainD [OF assms(1)] by (auto simp: conf_line_def)
  moreover have "special_key (conf_line k v)"
    using assms(2,3) by (simp add: conf_line_def strncaseeq_append)
  moreover have "clean_special_handshake_line (conf_line k v) (length (conf_line k v)) =
      filter (\<lambda>c. \<not> c_space c) (k @ '' '') @ CHR ''='' # v"
    using assms NL_space
    by (intro clean_special_handshake_line_value [where sp = "'' ''" and sp' = "[NL]" and r = "[]"])
      (simp_all add: conf_line_def is_c_space_def)
  ultimately show ?thesis
    using plain_filter [OF assms(1)] strchr_None_iff [of "conf_line k v" "CHR ''#''"]
    by (simp add: clean_line_def is_c_space_def)
qed

lemma NL_not_in_conf_line:
  "plain k \<Longrightarrow> NL \<notin> set v \<Longrightarrow> getlines (conf_line k v @ s) = conf_line k v # getlines s"
  using getlines_line [of "k @ '' = '' @ v" s] plainD [of k] by (simp add: conf_line_def)

lemma cstr_conf_line: "plain k \<Longrightarrow> NUL \<notin> set v \<Longrightarrow> cstr (conf_line k v) = conf_line k v"
  using plainD [of k] by (intro cstr_id) (auto simp: conf_line_def)

lemma blank_line: "clean_line [NL] = []"
  by (simp add: clean_line_def awg_special_handshake_keys_def strncaseeq_def strcaseeq_def
      is_c_space_def)

lemma section_lines:
  "clean_line (''[Interface]'' @ [NL]) = ''[Interface]''" "clean_line (''[Peer]'' @ [NL]) = ''[Peer]''"
  by (simp_all add: clean_line_def awg_special_handshake_keys_def strncaseeq_def strcaseeq_def
      is_c_space_def c_tolower_literals)

section \<open>Values as they are printed\<close>

lemma plain_digits: "list_all (is_digit_of b) s \<Longrightarrow> b \<le> 16 \<Longrightarrow> plain s"
  by (auto simp: plain_def list_all_iff is_digit_of_def digit_val_def is_c_space_def Let_def split: if_splits)

lemma plain_udec [simp]: "plain (udec n)" and plain_uhex [simp]: "plain (uhex n)"
  using print_num_digits [of 10 n] print_num_digits [of 16 n] by (auto intro: plain_digits)

lemma base64_alphabet_plain: "plain base64_alphabet"
  by (simp add: plain_def base64_alphabet_def is_c_space_def)

lemma plain_subset: "plain t \<Longrightarrow> set s \<subseteq> set t \<Longrightarrow> plain s"
  by (auto simp: plain_def list_all_iff)

lemma plain_key [simp]: "length k = WG_KEY_LEN \<Longrightarrow> plain (key_to_base64 k)"
proof -
  assume k: "length k = WG_KEY_LEN"
  have "plain (''='' @ base64_alphabet)"
    using base64_alphabet_plain by (simp add: plain_def is_c_space_def)
  then show ?thesis by (rule plain_subset) (use set_key_to_base64 [OF k] in simp)
qed

lemma key_to_base64_nonempty [simp]: "length k = WG_KEY_LEN \<Longrightarrow> key_to_base64 k \<noteq> []"
  using length_key_to_base64 [of k] by auto

section \<open>What has to hold of the system and of the device\<close>

text \<open>
  The two directions of the address functions agree on the addresses of the device: what one
  prints the other reads.  The printed forms have the characters addresses, host numbers and
  port numbers have.
\<close>

definition showable_ip :: "sys \<Rightarrow> wgallowedip \<Rightarrow> bool" where
  "showable_ip S a \<longleftrightarrow> wf_allowedip a \<and> drop (addr_len (a_family a)) (a_ip a) =
       replicate (16 - addr_len (a_family a)) 0 \<and>
     (case inet_ntop S (a_family a) (ip_bytes a) of
        None \<Rightarrow> False
      | Some s \<Rightarrow> plain s \<and> CHR '','' \<notin> set s \<and> CHR ''/'' \<notin> set s \<and>
          (CHR '':'' \<in> set s \<longleftrightarrow> a_family a = AF_INET6) \<and>
          inet_pton S (a_family a) s = Some (ip_bytes a))"

definition has_endpoint :: "wgpeer \<Rightarrow> bool" where
  "has_endpoint p \<longleftrightarrow> sa_fam (endpoint p) = AF_INET \<or> sa_fam (endpoint p) = AF_INET6"

definition showable_endpoint :: "sys \<Rightarrow> wgpeer \<Rightarrow> bool" where
  "showable_endpoint S p \<longleftrightarrow> (has_endpoint p \<longrightarrow>
     (case getnameinfo S (endpoint p) (sockaddr_len (endpoint p)) of
        Inl _ \<Rightarrow> False
      | Inr (host, service) \<Rightarrow>
          plain host \<and> plain service \<and> service \<noteq> [] \<and> CHR '':'' \<notin> set service \<and>
          (sa_fam (endpoint p) = AF_INET6 \<longrightarrow> CHR '':'' \<in> set host \<and> CHR '']'' \<notin> set host) \<and>
          (sa_fam (endpoint p) = AF_INET \<longrightarrow> c_at host 0 \<noteq> CHR ''['') \<and>
          getaddrinfo S 0 (Some host) service =
            Inr \<lparr>ai_family = sa_fam (endpoint p), ai_addrlen = sockaddr_len (endpoint p),
              ai_addr = endpoint p\<rparr>))"

definition showable_peer :: "sys \<Rightarrow> wgpeer \<Rightarrow> bool" where
  "showable_peer S p \<longleftrightarrow> length (peer_public_key p) = WG_KEY_LEN \<and> length (preshared_key p) = WG_KEY_LEN \<and>
     list_all (showable_ip S) (first_allowedip p) \<and> showable_endpoint S p"

text \<open>A header survives when it has no character the cleaning removes; a junk string may have white
  space inside.\<close>

definition showable_header :: "string option \<Rightarrow> bool" where
  "showable_header v \<longleftrightarrow> (case v of None \<Rightarrow> False
     | Some s \<Rightarrow> s \<noteq> [] \<and> length s < MAX_AWG_STRING_LEN \<and> plain s)"

definition showable_junk :: "string option \<Rightarrow> bool" where
  "showable_junk v \<longleftrightarrow> (case v of None \<Rightarrow> False
     | Some s \<Rightarrow> s \<noteq> [] \<and> length s < MAX_AWG_STRING_LEN \<and> \<not> c_space (hd s) \<and> \<not> c_space (last s) \<and>
         list_all (\<lambda>c. c \<noteq> CHR ''#'' \<and> c \<noteq> NL \<and> c \<noteq> NUL) s)"

definition showable_port :: "sys \<Rightarrow> u16 \<Rightarrow> bool" where
  "showable_port S port \<longleftrightarrow> (port \<noteq> 0 \<longrightarrow>
     (case getaddrinfo S 0 None (udec (unat port)) of
        Inl _ \<Rightarrow> False
      | Inr ai \<Rightarrow> addrinfo_ok ai \<and> sa_port (ai_addr ai) = port))"

definition showable_device :: "sys \<Rightarrow> wgdevice \<Rightarrow> bool" where
  "showable_device S d \<longleftrightarrow> showable_port S (listen_port d) \<and> length (private_key d) = WG_KEY_LEN \<and>
     list_all (\<lambda>(f, v). has (dev_flags d) f \<longrightarrow> showable_header v)
       [(WGDEVICE_HAS_H1, init_packet_magic_header d), (WGDEVICE_HAS_H2, response_packet_magic_header d),
        (WGDEVICE_HAS_H3, underload_packet_magic_header d), (WGDEVICE_HAS_H4, transport_packet_magic_header d)] \<and>
     list_all (\<lambda>(f, v). has (dev_flags d) f \<longrightarrow> showable_junk v)
       [(WGDEVICE_HAS_I1, i1 d), (WGDEVICE_HAS_I2, i2 d), (WGDEVICE_HAS_I3, i3 d),
        (WGDEVICE_HAS_I4, i4 d), (WGDEVICE_HAS_I5, i5 d)]"

section \<open>What is read back\<close>

text \<open>The peer and the device a reader makes of the printed text: what is printed, the rest zero.\<close>

definition flag_if :: "bool \<Rightarrow> u32 \<Rightarrow> u32" where
  "flag_if b f = (if b then f else 0)"

definition peer_image :: "wgpeer \<Rightarrow> wgpeer" where
  "peer_image p = zero_peer\<lparr>
     peer_flags := WGPEER_REPLACE_ALLOWEDIPS OR WGPEER_HAS_PUBLIC_KEY
       OR flag_if (has (peer_flags p) WGPEER_HAS_PRESHARED_KEY) WGPEER_HAS_PRESHARED_KEY
       OR flag_if (has (peer_flags p) WGPEER_HAS_AWG) WGPEER_HAS_AWG
       OR flag_if (persistent_keepalive_interval p \<noteq> 0) WGPEER_HAS_PERSISTENT_KEEPALIVE_INTERVAL,
     peer_public_key := peer_public_key p,
     preshared_key := (if has (peer_flags p) WGPEER_HAS_PRESHARED_KEY then preshared_key p else zero_key),
     awg := (has (peer_flags p) WGPEER_HAS_AWG \<and> awg p),
     first_allowedip := first_allowedip p,
     endpoint := (if has_endpoint p then endpoint p else zero_sockaddr),
     persistent_keepalive_interval := persistent_keepalive_interval p\<rparr>"

text \<open>The device, on the flags \<open>fl\<close> the reader starts with.\<close>

definition device_image :: "u32 \<Rightarrow> wgdevice \<Rightarrow> wgdevice" where
  "device_image fl d =
     (let on = (\<lambda>f. has (dev_flags d) f) in zero_device\<lparr>
        dev_flags := fl OR flag_if (listen_port d \<noteq> 0) WGDEVICE_HAS_LISTEN_PORT
          OR flag_if (fwmark d \<noteq> 0) WGDEVICE_HAS_FWMARK
          OR flag_if (on WGDEVICE_HAS_PRIVATE_KEY) WGDEVICE_HAS_PRIVATE_KEY
          OR flag_if (on WGDEVICE_HAS_JC) WGDEVICE_HAS_JC
          OR flag_if (on WGDEVICE_HAS_JMIN) WGDEVICE_HAS_JMIN
          OR flag_if (on WGDEVICE_HAS_JMAX) WGDEVICE_HAS_JMAX
          OR flag_if (on WGDEVICE_HAS_S1) WGDEVICE_HAS_S1
          OR flag_if (on WGDEVICE_HAS_S2) WGDEVICE_HAS_S2
          OR flag_if (on WGDEVICE_HAS_S3) WGDEVICE_HAS_S3
          OR flag_if (on WGDEVICE_HAS_S4) WGDEVICE_HAS_S4
          OR flag_if (on WGDEVICE_HAS_H1) WGDEVICE_HAS_H1
          OR flag_if (on WGDEVICE_HAS_H2) WGDEVICE_HAS_H2
          OR flag_if (on WGDEVICE_HAS_H3) WGDEVICE_HAS_H3
          OR flag_if (on WGDEVICE_HAS_H4) WGDEVICE_HAS_H4
          OR flag_if (on WGDEVICE_HAS_I1) WGDEVICE_HAS_I1
          OR flag_if (on WGDEVICE_HAS_I2) WGDEVICE_HAS_I2
          OR flag_if (on WGDEVICE_HAS_I3) WGDEVICE_HAS_I3
          OR flag_if (on WGDEVICE_HAS_I4) WGDEVICE_HAS_I4
          OR flag_if (on WGDEVICE_HAS_I5) WGDEVICE_HAS_I5,
        listen_port := listen_port d, fwmark := fwmark d,
        private_key := (if on WGDEVICE_HAS_PRIVATE_KEY then private_key d else zero_key),
        junk_packet_count := (if on WGDEVICE_HAS_JC then junk_packet_count d else 0),
        junk_packet_min_size := (if on WGDEVICE_HAS_JMIN then junk_packet_min_size d else 0),
        junk_packet_max_size := (if on WGDEVICE_HAS_JMAX then junk_packet_max_size d else 0),
        init_packet_junk_size := (if on WGDEVICE_HAS_S1 then init_packet_junk_size d else 0),
        response_packet_junk_size := (if on WGDEVICE_HAS_S2 then response_packet_junk_size d else 0),
        cookie_reply_packet_junk_size := (if on WGDEVICE_HAS_S3 then cookie_reply_packet_junk_size d else 0),
        transport_packet_junk_size := (if on WGDEVICE_HAS_S4 then transport_packet_junk_size d else 0),
        init_packet_magic_header := (if on WGDEVICE_HAS_H1 then init_packet_magic_header d else None),
        response_packet_magic_header := (if on WGDEVICE_HAS_H2 then response_packet_magic_header d else None),
        underload_packet_magic_header := (if on WGDEVICE_HAS_H3 then underload_packet_magic_header d else None),
        transport_packet_magic_header := (if on WGDEVICE_HAS_H4 then transport_packet_magic_header d else None),
        i1 := (if on WGDEVICE_HAS_I1 then i1 d else None),
        i2 := (if on WGDEVICE_HAS_I2 then i2 d else None),
        i3 := (if on WGDEVICE_HAS_I3 then i3 d else None),
        i4 := (if on WGDEVICE_HAS_I4 then i4 d else None),
        i5 := (if on WGDEVICE_HAS_I5 then i5 d else None)\<rparr>)"

section \<open>Reading text line by line\<close>

definition read_text :: "sys \<Rightarrow> config_ctx \<Rightarrow> string \<Rightarrow> (diag, config_ctx) res" where
  "read_text S ctx s = res_fold (config_read_line S) ctx (map cstr (getlines s))"

lemma read_text_Nil [simp]: "read_text S ctx [] = Ok ctx"
  by (simp add: read_text_def)

lemma read_text_line:
  "NL \<notin> set l \<Longrightarrow> NUL \<notin> set l \<Longrightarrow>
   read_text S ctx (l @ NL # s) = res_bind (config_read_line S ctx (l @ [NL])) (\<lambda>c. read_text S c s)"
  using cstr_id [of "l @ [NL]"] by (simp add: read_text_def getlines_line)

lemma read_text_conf_line:
  "plain k \<Longrightarrow> NL \<notin> set v \<Longrightarrow> NUL \<notin> set v \<Longrightarrow>
   read_text S ctx (conf_line k v @ s) = res_bind (config_read_line S ctx (conf_line k v)) (\<lambda>c. read_text S c s)"
  by (simp add: read_text_def NL_not_in_conf_line cstr_conf_line)

lemma read_text_blank [simp]: "read_text S ctx (NL # s) = read_text S ctx s"
  using read_text_line [of "[]" S ctx s] by (simp add: config_read_line_def blank_line)

lemma read_print_if:
  assumes "b \<Longrightarrow> read_text S ctx (l @ s) = read_text S ctx' s" "\<not> b \<Longrightarrow> ctx' = ctx"
  shows "read_text S ctx (print_if b l @ s) = read_text S ctx' s"
  using assms by (cases b) (simp_all add: print_if_def)

lemma not_section_line: "\<not> strcaseeq (k @ CHR ''='' # v) ''[Interface]''" "\<not> strcaseeq (k @ CHR ''='' # v) ''[Peer]''"
  using strcaseeq_no_equals [of "k @ CHR ''='' # v" "''[Interface]''"]
    strcaseeq_no_equals [of "k @ CHR ''='' # v" "''[Peer]''"] by auto

section \<open>Reading a printed peer\<close>

text \<open>The state of the reader inside the peer \<open>q\<close> that follows the peers \<open>ps\<close>.\<close>

definition peer_ctx :: "wgdevice \<Rightarrow> wgpeer list \<Rightarrow> wgpeer \<Rightarrow> nat option \<Rightarrow> string list \<Rightarrow> config_ctx" where
  "peer_ctx d ps q ips w =
     \<lparr>ctx_device = d\<lparr>first_peer := ps @ [q]\<rparr>, last_peer = Some (length ps), last_allowedip = ips,
      is_peer_section = True, is_device_section = False, ctx_warned = w\<rparr>"

lemma on_last_peer_ctx [simp]:
  "on_last_peer f (peer_ctx d ps q ips w) =
     res_bind (f q ips) (\<lambda>(q', ips', w'). Ok (peer_ctx d ps q' ips' (w @ w')))"
  by (simp add: on_last_peer_def peer_ctx_def)

lemma read_peer_line:
  assumes "plain k" "2 \<le> length k" "\<not> special_key k" "CHR ''#'' \<notin> set v"
  shows "config_read_line S (peer_ctx d ps q ips w) (conf_line k v) =
    process_peer_line S (k @ CHR ''='' # filter (\<lambda>c. \<not> c_space c) v) (peer_ctx d ps q ips w)"
  by (simp add: config_read_line_def clean_conf_line [OF assms] process_line_def not_section_line)
    (simp add: peer_ctx_def)

lemma plain_keys [simp]:
  "plain ''PublicKey''" "plain ''PresharedKey''" "plain ''AdvancedSecurity''" "plain ''AllowedIPs''"
  "plain ''Endpoint''" "plain ''PersistentKeepalive''" "plain ''on''" "plain ''off''"
  "plain ''ListenPort''" "plain ''FwMark''" "plain ''PrivateKey''" "plain ''Jc''" "plain ''Jmin''" "plain ''Jmax''"
  "plain ''S1''" "plain ''S2''" "plain ''S3''" "plain ''S4''" "plain ''H1''" "plain ''H2''" "plain ''H3''"
  "plain ''H4''" "plain ''I1''" "plain ''I2''" "plain ''I3''" "plain ''I4''" "plain ''I5''" "plain ''0x''"
  by (simp_all add: plain_def is_c_space_def)

lemma special_keys [simp]:
  "\<not> special_key ''PublicKey''" "\<not> special_key ''PresharedKey''" "\<not> special_key ''AdvancedSecurity''"
  "\<not> special_key ''AllowedIPs''" "\<not> special_key ''Endpoint''" "\<not> special_key ''PersistentKeepalive''"
  "\<not> special_key ''ListenPort''" "\<not> special_key ''FwMark''" "\<not> special_key ''PrivateKey''"
  "\<not> special_key ''Jc''" "\<not> special_key ''Jmin''" "\<not> special_key ''Jmax''"
  "\<not> special_key ''S1''" "\<not> special_key ''S2''" "\<not> special_key ''S3''" "\<not> special_key ''S4''"
  "\<not> special_key ''H1''" "\<not> special_key ''H2''" "\<not> special_key ''H3''" "\<not> special_key ''H4''"
  "special_key ''I1''" "special_key ''I2''" "special_key ''I3''" "special_key ''I4''" "special_key ''I5''"
  by (simp_all add: awg_special_handshake_keys_def strncaseeq_def strcaseeq_def c_tolower_literals)

text \<open>A line of a peer with a plain value.\<close>

lemma read_plain_peer_line:
  assumes "plain k" "2 \<le> length k" "\<not> special_key k" "plain v"
  shows "read_text S (peer_ctx d ps q ips w) (conf_line k v @ s) =
    res_bind (process_peer_line S (k @ CHR ''='' # v) (peer_ctx d ps q ips w)) (\<lambda>c. read_text S c s)"
  using plainD [OF assms(4)] plain_filter [OF assms(4)]
  by (simp add: read_text_conf_line [OF assms(1)] read_peer_line [OF assms(1-3)])

lemma read_peer_setting:
  assumes "plain k" "2 \<le> length k" "\<not> special_key k" "plain v"
    and "process_peer_line S (k @ CHR ''='' # v) (peer_ctx d ps q ips w) =
      on_last_peer (set_peer f) (peer_ctx d ps q ips w)"
    and "b \<Longrightarrow> f q = Ok q'" "\<not> b \<Longrightarrow> q' = q"
  shows "read_text S (peer_ctx d ps q ips w) (print_if b (conf_line k v) @ s) =
    read_text S (peer_ctx d ps q' ips w) s"
  by (rule read_print_if)
    (simp_all add: read_plain_peer_line [OF assms(1-4)] assms(5-7) set_peer_def)

lemma parse_key_to_base64 [simp]: "length k = WG_KEY_LEN \<Longrightarrow> parse_key (key_to_base64 k) = Ok k"
  by (simp add: parse_key_iff)

lemma read_public_key:
  "length k = WG_KEY_LEN \<Longrightarrow>
   read_text S (peer_ctx d ps q ips w) (print_if True (conf_line ''PublicKey'' (key_to_base64 k)) @ s) =
   read_text S (peer_ctx d ps (q\<lparr>peer_public_key := k, peer_flags := peer_flags q OR WGPEER_HAS_PUBLIC_KEY\<rparr>) ips w) s"
  by (rule read_peer_setting [OF _ _ _ _ process_peer_line_key(2) [OF _ strcaseeq_refl]])
    (simp_all add: set_public_key_def)

lemma read_preshared_key:
  "length k = WG_KEY_LEN \<Longrightarrow>
   read_text S (peer_ctx d ps q ips w) (print_if b (conf_line ''PresharedKey'' (key_to_base64 k)) @ s) =
   read_text S (peer_ctx d ps (q\<lparr>preshared_key := (if b then k else preshared_key q),
     peer_flags := peer_flags q OR flag_if b WGPEER_HAS_PRESHARED_KEY\<rparr>) ips w) s"
  by (rule read_peer_setting [OF _ _ _ _ process_peer_line_key(5) [OF _ strcaseeq_refl]])
    (simp_all add: set_preshared_key_def flag_if_def)

lemma read_awg:
  "read_text S (peer_ctx d ps q ips w)
     (print_if b (conf_line ''AdvancedSecurity'' (if a then ''on'' else ''off'')) @ s) =
   read_text S (peer_ctx d ps (q\<lparr>awg := (if b then a else awg q),
     peer_flags := peer_flags q OR flag_if b WGPEER_HAS_AWG\<rparr>) ips w) s"
proof -
  have "parse_bool ''AdvancedSecurity'' (if a then ''on'' else ''off'') = Ok a"
    by (simp add: parse_bool_def strcaseeq_def)
  then show ?thesis
    by (intro read_peer_setting [OF _ _ _ _ process_peer_line_key(6) [OF _ strcaseeq_refl]])
      (simp_all add: set_awg_def flag_if_def)
qed

lemma read_keepalive:
  "read_text S (peer_ctx d ps q ips w)
     (print_if (n \<noteq> 0) (conf_line ''PersistentKeepalive'' (udec (unat n))) @ s) =
   read_text S (peer_ctx d ps (q\<lparr>persistent_keepalive_interval := (if n \<noteq> 0 then n else persistent_keepalive_interval q),
     peer_flags := peer_flags q OR flag_if (n \<noteq> 0) WGPEER_HAS_PERSISTENT_KEEPALIVE_INTERVAL\<rparr>) ips w) s"
proof -
  have "unat n \<le> 65535" using unsigned_less [of n, where 'a = nat] by simp
  then have "parse_persistent_keepalive fl (udec (unat n)) =
      Ok (n, fl OR WGPEER_HAS_PERSISTENT_KEEPALIVE_INTERVAL)" for fl
    using udec_is_number [of "unat n"] by (simp add: parse_persistent_keepalive_iff num_of_print_num)
  then show ?thesis
    by (intro read_peer_setting [OF _ _ _ _ process_peer_line_key(4) [OF _ strcaseeq_refl]])
      (simp_all add: set_keepalive_def flag_if_def)
qed

subsection \<open>Endpoints\<close>

lemma parse_endpoint_first:
  assumes "parse_dns_retries S = Ok R" "split_endpoint v = Ok (host, service)"
    and "getaddrinfo S 0 (Some host) service = Inr ai" "addrinfo_ok ai"
  shows "parse_endpoint S v = Ok (ai_addr ai)"
  using assms by (simp add: parse_endpoint_def resolve_loop.simps)

lemma plain_no_NUL: "plain s \<Longrightarrow> NUL \<notin> set s"
  using plainD by blast

lemma format_endpoint_split:
  assumes "sa_fam sa = AF_INET \<or> sa_fam sa = AF_INET6"
    and "service \<noteq> []" "plain service" "CHR '':'' \<notin> set service"
    and "sa_fam sa = AF_INET6 \<longrightarrow> CHR '':'' \<in> set host \<and> CHR '']'' \<notin> set host"
    and "sa_fam sa = AF_INET \<longrightarrow> c_at host 0 \<noteq> CHR ''[''"
  shows "split_endpoint (format_endpoint sa host service) = Ok (host, service)"
proof (cases "sa_fam sa = AF_INET6")
  case True
  with assms split_endpoint_brackets [of host service] plain_no_NUL [of service] show ?thesis
    using strchr_None_iff [of host "CHR '':''"] by (simp add: format_endpoint_def)
next
  case False
  with assms split_endpoint_plain [of service host] plain_no_NUL [of service] show ?thesis
    by (simp add: format_endpoint_def)
qed

lemma read_endpoint:
  assumes "showable_endpoint S p" "has_endpoint p \<longrightarrow> parse_dns_retries S = Ok R"
  shows "read_text S (peer_ctx d ps q ips w) (showconf_endpoint S (endpoint p) @ s) =
    read_text S (peer_ctx d ps (q\<lparr>endpoint := (if has_endpoint p then endpoint p else endpoint q)\<rparr>) ips w) s"
proof (cases "has_endpoint p")
  case True
  let ?sa = "endpoint p"
  from assms(1) True obtain host service where
    gni: "getnameinfo S ?sa (sockaddr_len ?sa) = Inr (host, service)"
    and h: "plain host" "plain service" "service \<noteq> []" "CHR '':'' \<notin> set service"
      "sa_fam ?sa = AF_INET6 \<longrightarrow> CHR '':'' \<in> set host \<and> CHR '']'' \<notin> set host"
      "sa_fam ?sa = AF_INET \<longrightarrow> c_at host 0 \<noteq> CHR ''[''"
    and gai: "getaddrinfo S 0 (Some host) service =
      Inr \<lparr>ai_family = sa_fam ?sa, ai_addrlen = sockaddr_len ?sa, ai_addr = ?sa\<rparr>"
    by (auto simp: showable_endpoint_def split: sum.splits prod.splits)
  let ?v = "format_endpoint ?sa host service"
  have "addrinfo_ok \<lparr>ai_family = sa_fam ?sa, ai_addrlen = sockaddr_len ?sa, ai_addr = ?sa\<rparr>"
    using True by (auto simp: addrinfo_ok_def sockaddr_len_def has_endpoint_def)
  with assms(2) True gai h have "parse_endpoint S ?v = Ok ?sa"
    by (subst parse_endpoint_first) (auto intro!: format_endpoint_split simp: has_endpoint_def)
  moreover have "plain ?v" "?v \<noteq> []"
    using h(1,2) by (simp_all add: format_endpoint_def, simp_all add: plain_def is_c_space_def)
  moreover have "showconf_endpoint S ?sa = print_if True (conf_line ''Endpoint'' ?v)"
    using True gni by (simp add: showconf_endpoint_def has_endpoint_def print_if_def)
  ultimately show ?thesis
    using True by (simp only:)
      (rule read_peer_setting [OF _ _ _ _ process_peer_line_key(1) [OF _ strcaseeq_refl]];
        simp add: set_endpoint_def)
qed (simp add: showconf_endpoint_def has_endpoint_def)

subsection \<open>Allowed addresses\<close>

text \<open>One printed address, and the list without its white space.\<close>

definition ip_text :: "sys \<Rightarrow> wgallowedip \<Rightarrow> string" where
  "ip_text S a = the (inet_ntop S (a_family a) (ip_bytes a)) @ ''/'' @ udec (unat (a_cidr a))"

fun ips_text :: "sys \<Rightarrow> wgallowedip list \<Rightarrow> string" where
  "ips_text S [] = []"
| "ips_text S [a] = ip_text S a"
| "ips_text S (a # as) = ip_text S a @ CHR '','' # ips_text S as"

lemma udec_no [simp]: "CHR '','' \<notin> set (udec n)" "CHR ''/'' \<notin> set (udec n)"
  using print_num_digits [of 10 n] by (auto simp: list_all_iff is_digit_of_def digit_val_def)

lemma showable_ip_text:
  assumes "showable_ip S a"
  shows "plain (ip_text S a)" "CHR '','' \<notin> set (ip_text S a)" "ip_text S a \<noteq> []"
proof -
  obtain t where t: "inet_ntop S (a_family a) (ip_bytes a) = Some t" "plain t" "CHR '','' \<notin> set t"
    using assms by (auto simp: showable_ip_def split: option.splits)
  have "plain ''/''" by (simp add: plain_def is_c_space_def)
  then have "plain (t @ ''/'' @ udec (unat (a_cidr a)))" using t(2) by (simp only: plain_append plain_udec)
  then show "plain (ip_text S a)" "CHR '','' \<notin> set (ip_text S a)" "ip_text S a \<noteq> []"
    using t(3) by (simp_all add: ip_text_def t(1))
qed

lemma showconf_allowedips_Cons:
  "showable_ip S a \<Longrightarrow>
   showconf_allowedips S (a # as) = ip_text S a @ print_if (as \<noteq> []) '', '' @ showconf_allowedips S as"
  by (auto simp: showable_ip_def ip_text_def wf_allowedip_def split: option.splits)

lemma parse_ip_text:
  assumes "showable_ip S a"
  shows "parse_allowedip S (ip_text S a) = Ok a"
proof -
  obtain t where t: "inet_ntop S (a_family a) (ip_bytes a) = Some t" "CHR ''/'' \<notin> set t"
    "CHR '':'' \<in> set t \<longleftrightarrow> a_family a = AF_INET6" "inet_pton S (a_family a) t = Some (ip_bytes a)"
    using assms by (auto simp: showable_ip_def split: option.splits)
  have wf: "a_family a = AF_INET \<or> a_family a = AF_INET6" "length (a_ip a) = 16"
    "unat (a_cidr a) \<le> max_cidr (a_family a)"
    and z: "drop (addr_len (a_family a)) (a_ip a) = replicate (16 - addr_len (a_family a)) 0"
    using assms by (auto simp: showable_ip_def wf_allowedip_def)
  have fam: "(if strchr t CHR '':'' \<noteq> None then AF_INET6 else AF_INET) = a_family a"
    using t(3) wf(1) strchr_None_iff [of t "CHR '':''"] by auto
  have "store_ip (ip_bytes a) (replicate 16 0) = ip_bytes a @ replicate (16 - addr_len (a_family a)) 0"
    using wf(1,2) by (auto simp: store_ip_def ip_bytes_def addr_len_def)
  also have "\<dots> = a_ip a" by (simp only: z [symmetric] ip_bytes_def append_take_drop_id)
  finally have "store_ip (ip_bytes a) (replicate 16 0) = a_ip a" .
  with fam t(4) have ip: "parse_ip S zero_allowedip t =
      Ok \<lparr>a_family = a_family a, a_ip = a_ip a, a_cidr = 0\<rparr>"
    by (simp add: parse_ip_def zero_allowedip_def)
  have sep: "strsep CHR ''/'' (ip_text S a) = (t, Some (udec (unat (a_cidr a))))"
    using strsep_append [OF t(2)] by (simp add: ip_text_def t(1))
  have num: "strtoul 10 (udec (unat (a_cidr a))) = (unat (a_cidr a), [])"
    using unsigned_less [of "a_cidr a", where 'a = nat] by (intro strtou_udec_all) simp
  have le: "\<not> (unat (a_cidr a) > 32 \<and> a_family a = AF_INET)" "\<not> (unat (a_cidr a) > 128 \<and> a_family a = AF_INET6)"
    using wf(1,3) by (auto simp: max_cidr_def)
  show ?thesis
    using le udec_first_digit [of "unat (a_cidr a)"] by (simp add: parse_allowedip_def sep ip num)
qed

lemma showconf_allowedips_text:
  assumes "list_all (showable_ip S) as"
  shows "filter (\<lambda>c. \<not> c_space c) (showconf_allowedips S as) = ips_text S as"
    and "CHR ''#'' \<notin> set (showconf_allowedips S as) \<and> NL \<notin> set (showconf_allowedips S as) \<and>
      NUL \<notin> set (showconf_allowedips S as)"
proof -
  note [simp del] = showconf_allowedips.simps(2)
  show "filter (\<lambda>c. \<not> c_space c) (showconf_allowedips S as) = ips_text S as"
    using assms
  proof (induction S as rule: ips_text.induct)
    case (3 S a b as)
    moreover have "is_c_space CHR '' ''" "\<not> is_c_space CHR '',''" by (simp_all add: is_c_space_def)
    ultimately show ?case
      using plain_filter [OF showable_ip_text(1)] by (simp add: showconf_allowedips_Cons print_if_def)
  qed (use plain_filter [OF showable_ip_text(1)] in \<open>simp_all add: showconf_allowedips_Cons print_if_def\<close>)
  show "CHR ''#'' \<notin> set (showconf_allowedips S as) \<and> NL \<notin> set (showconf_allowedips S as) \<and>
      NUL \<notin> set (showconf_allowedips S as)"
    using assms plainD [OF showable_ip_text(1)]
    by (induction as) (auto simp: showconf_allowedips_Cons print_if_def)
qed

lemma entries_ips_text:
  "list_all (showable_ip S) as \<Longrightarrow> as \<noteq> [] \<Longrightarrow> entries (Some (ips_text S as)) = map (ip_text S) as"
  by (induction S as rule: ips_text.induct)
    (simp_all add: entries_single entries_append showable_ip_text)

lemma ips_text_nonempty: "list_all (showable_ip S) as \<Longrightarrow> as \<noteq> [] \<Longrightarrow> ips_text S as \<noteq> []"
  by (induction S as rule: ips_text.induct) (simp_all add: showable_ip_text)

lemma parse_ips_text:
  assumes "list_all (showable_ip S) as" "as \<noteq> []" "first_allowedip q = []"
  obtains ips w where "parse_allowedips S q None (ips_text S as) =
    Ok (q\<lparr>peer_flags := peer_flags q OR WGPEER_REPLACE_ALLOWEDIPS, first_allowedip := as\<rparr>, ips, w)"
proof -
  have all: "list_all2 (\<lambda>e n. parse_allowedip S e = Ok n) (map (ip_text S) as) as"
    using assms(1) by (induction as) (simp_all add: parse_ip_text)
  have tail: "tail_ok None (first_allowedip q)" using assms(3) by simp
  have tail': "tail_ok (Some (length as - 1)) as" using assms(2) by (cases as) (simp_all add: tail_ok_def)
  show ?thesis
    using all tail' entries_ips_text [OF assms(1,2)] ips_text_nonempty [OF assms(1,2)] assms(3)
    by (intro that parse_allowedips_iff [OF tail, THEN iffD2]) auto
qed

lemma read_allowedips:
  assumes "list_all (showable_ip S) as" "first_allowedip q = []"
  shows "\<exists>ips w'. read_text S (peer_ctx d ps q None w) (print_if (as \<noteq> []) ''AllowedIPs = '' @
      showconf_allowedips S as @ print_if (as \<noteq> []) [NL] @ s) =
    read_text S (peer_ctx d ps (q\<lparr>peer_flags := peer_flags q OR flag_if (as \<noteq> []) WGPEER_REPLACE_ALLOWEDIPS,
      first_allowedip := as\<rparr>) ips w') s"
proof (cases "as = []")
  case True
  moreover have "q\<lparr>first_allowedip := []\<rparr> = q" using assms(2) by (cases q) simp
  ultimately show ?thesis by (auto simp: print_if_def flag_if_def)
next
  case False
  let ?v = "showconf_allowedips S as"
  have eq: "print_if (as \<noteq> []) ''AllowedIPs = '' @ ?v @ print_if (as \<noteq> []) [NL] @ s =
      conf_line ''AllowedIPs'' ?v @ s"
    using False by (simp add: print_if_def conf_line_def)
  obtain ips w' where p: "parse_allowedips S q None (ips_text S as) =
      Ok (q\<lparr>peer_flags := peer_flags q OR WGPEER_REPLACE_ALLOWEDIPS, first_allowedip := as\<rparr>, ips, w')"
    using parse_ips_text [OF assms(1) False assms(2)] .
  have "config_read_line S (peer_ctx d ps q None w) (conf_line ''AllowedIPs'' ?v) =
      process_peer_line S (''AllowedIPs'' @ CHR ''='' # ips_text S as) (peer_ctx d ps q None w)"
    using showconf_allowedips_text [OF assms(1)] by (subst read_peer_line) simp_all
  also have "\<dots> = on_last_peer (\<lambda>p ips. parse_allowedips S p ips (ips_text S as)) (peer_ctx d ps q None w)"
    by (rule process_peer_line_key(3) [OF ips_text_nonempty [OF assms(1) False] strcaseeq_refl])
  finally show ?thesis
    unfolding eq
    using showconf_allowedips_text(2) [OF assms(1)] False
    by (subst read_text_conf_line) (auto simp: p flag_if_def)
qed

subsection \<open>Peers\<close>

text \<open>A state in which the peers read so far are \<open>ps\<close>.\<close>

definition after_peers :: "wgdevice \<Rightarrow> wgpeer list \<Rightarrow> config_ctx \<Rightarrow> bool" where
  "after_peers d ps ctx \<longleftrightarrow> ctx_device ctx = d\<lparr>first_peer := ps\<rparr> \<and> tail_ok (last_peer ctx) ps"

lemma after_peers_ctx [simp]: "after_peers d (ps @ [q]) (peer_ctx d ps q ips w)"
  by (simp add: after_peers_def peer_ctx_def tail_ok_def)

lemma read_peer_section:
  assumes "after_peers d ps ctx"
  shows "read_text S ctx (''[Peer]'' @ [NL] @ s) =
    read_text S (peer_ctx d ps (zero_peer\<lparr>peer_flags := WGPEER_REPLACE_ALLOWEDIPS\<rparr>) None (ctx_warned ctx)) s"
proof -
  have "(link_new_peer zero_peer ctx)\<lparr>is_peer_section := True, is_device_section := False\<rparr> =
      peer_ctx d ps zero_peer None (ctx_warned ctx)"
    using assms by (cases "last_peer ctx")
      (auto simp: link_new_peer_def after_peers_def peer_ctx_def tail_ok_def Let_def)
  moreover have "\<not> strcaseeq ''[Peer]'' ''[Interface]''" by (simp add: strcaseeq_def)
  moreover have "peer_flags zero_peer = 0" by (simp add: zero_peer_def)
  ultimately have "config_read_line S ctx (''[Peer]'' @ [NL]) =
      Ok (peer_ctx d ps (zero_peer\<lparr>peer_flags := WGPEER_REPLACE_ALLOWEDIPS\<rparr>) None (ctx_warned ctx))"
    unfolding config_read_line_def section_lines process_line_def Let_def by (simp add: set_peer_def)
  then show ?thesis using read_text_line [of "''[Peer]''" S ctx s] by simp
qed

text \<open>The peer after its keys and its switch, before its addresses.\<close>

definition peer_keys_image :: "wgpeer \<Rightarrow> wgpeer" where
  "peer_keys_image p = zero_peer\<lparr>
     peer_flags := WGPEER_REPLACE_ALLOWEDIPS OR WGPEER_HAS_PUBLIC_KEY
       OR flag_if (has (peer_flags p) WGPEER_HAS_PRESHARED_KEY) WGPEER_HAS_PRESHARED_KEY
       OR flag_if (has (peer_flags p) WGPEER_HAS_AWG) WGPEER_HAS_AWG,
     peer_public_key := peer_public_key p,
     preshared_key := (if has (peer_flags p) WGPEER_HAS_PRESHARED_KEY then preshared_key p else zero_key),
     awg := (has (peer_flags p) WGPEER_HAS_AWG \<and> awg p)\<rparr>"

lemma zero_peer_fields [simp]:
  "preshared_key zero_peer = zero_key" "\<not> awg zero_peer" "first_allowedip zero_peer = []"
  "endpoint zero_peer = zero_sockaddr" "persistent_keepalive_interval zero_peer = 0"
  by (simp_all add: zero_peer_def)

lemma peer_image_eq:
  "(let q = peer_keys_image p\<lparr>peer_flags := peer_flags (peer_keys_image p) OR
        flag_if (first_allowedip p \<noteq> []) WGPEER_REPLACE_ALLOWEDIPS, first_allowedip := first_allowedip p\<rparr>;
      q = q\<lparr>endpoint := (if has_endpoint p then endpoint p else endpoint q)\<rparr>
    in q\<lparr>persistent_keepalive_interval := (if persistent_keepalive_interval p \<noteq> 0
          then persistent_keepalive_interval p else persistent_keepalive_interval q),
        peer_flags := peer_flags q OR flag_if (persistent_keepalive_interval p \<noteq> 0)
          WGPEER_HAS_PERSISTENT_KEEPALIVE_INTERVAL\<rparr>) = peer_image p"
proof -
  have or_twice: "(r OR x) OR flag_if b r = r OR x" for r x :: u32 and b
    by (cases b) (simp_all add: flag_if_def or.commute or.left_commute)
  have "peer_flags (peer_keys_image p) OR flag_if b WGPEER_REPLACE_ALLOWEDIPS = peer_flags (peer_keys_image p)" for b
    by (simp add: peer_keys_image_def or_twice)
  then show ?thesis
    by (simp add: Let_def) (simp add: peer_keys_image_def peer_image_def or.assoc)
qed

lemma read_peer_keys:
  assumes "showable_peer S p" "after_peers d ps ctx"
  shows "read_text S ctx (showconf_peer S n p @ s) =
    read_text S (peer_ctx d ps (peer_keys_image p) None (ctx_warned ctx))
      (print_if (first_allowedip p \<noteq> []) ''AllowedIPs = '' @ showconf_allowedips S (first_allowedip p) @
       print_if (first_allowedip p \<noteq> []) [NL] @ showconf_endpoint S (endpoint p) @
       print_if (persistent_keepalive_interval p \<noteq> 0)
         (conf_line ''PersistentKeepalive'' (udec (unat (persistent_keepalive_interval p)))) @
       print_if n [NL] @ s)"
proof -
  from assms(1) have len: "length (peer_public_key p) = WG_KEY_LEN" "length (preshared_key p) = WG_KEY_LEN"
    by (simp_all add: showable_peer_def)
  have first: "showconf_peer S n p @ s = ''[Peer]'' @ [NL] @
      print_if True (conf_line ''PublicKey'' (key_to_base64 (peer_public_key p))) @
      print_if (has (peer_flags p) WGPEER_HAS_PRESHARED_KEY) (conf_line ''PresharedKey'' (key_to_base64 (preshared_key p))) @
      print_if (has (peer_flags p) WGPEER_HAS_AWG) (conf_line ''AdvancedSecurity'' (if awg p then ''on'' else ''off'')) @ r"
    if "r = print_if (first_allowedip p \<noteq> []) ''AllowedIPs = '' @ showconf_allowedips S (first_allowedip p) @
       print_if (first_allowedip p \<noteq> []) [NL] @ showconf_endpoint S (endpoint p) @
       print_if (persistent_keepalive_interval p \<noteq> 0)
         (conf_line ''PersistentKeepalive'' (udec (unat (persistent_keepalive_interval p)))) @
       print_if n [NL] @ s" for r
    using that by (simp add: showconf_peer_def print_if_def)
  show ?thesis
    unfolding first [OF refl] read_peer_section [OF assms(2)] read_public_key [OF len(1)]
      read_preshared_key [OF len(2)] read_awg
    by (rule arg_cong [where f = "\<lambda>q. read_text S (peer_ctx d ps q None (ctx_warned ctx)) _"])
      (auto simp: peer_keys_image_def or.assoc)
qed

lemma read_showconf_peer:
  assumes p: "showable_peer S p" and R: "has_endpoint p \<longrightarrow> parse_dns_retries S = Ok R"
    and ctx: "after_peers d ps ctx"
  shows "\<exists>ips w. read_text S ctx (showconf_peer S n p @ s) = read_text S (peer_ctx d ps (peer_image p) ips w) s"
proof -
  from p have ips: "list_all (showable_ip S) (first_allowedip p)" and ep: "showable_endpoint S p"
    by (simp_all add: showable_peer_def)
  have "first_allowedip (peer_keys_image p) = []" by (simp add: peer_keys_image_def)
  from read_allowedips [OF ips this, of d ps "ctx_warned ctx"]
  have read: "\<And>r. \<exists>ips w. read_text S (peer_ctx d ps (peer_keys_image p) None (ctx_warned ctx))
      (print_if (first_allowedip p \<noteq> []) ''AllowedIPs = '' @ showconf_allowedips S (first_allowedip p) @
       print_if (first_allowedip p \<noteq> []) [NL] @ r) =
      read_text S (peer_ctx d ps (peer_keys_image p\<lparr>peer_flags := peer_flags (peer_keys_image p) OR
        flag_if (first_allowedip p \<noteq> []) WGPEER_REPLACE_ALLOWEDIPS, first_allowedip := first_allowedip p\<rparr>) ips w) r"
    by blast
  have last: "read_text S c (print_if n [NL] @ s) = read_text S c s" for c
    by (simp add: print_if_def)
  show ?thesis
    unfolding read_peer_keys [OF p ctx] peer_image_eq [symmetric] Let_def
    using read [of "showconf_endpoint S (endpoint p) @ print_if (persistent_keepalive_interval p \<noteq> 0)
         (conf_line ''PersistentKeepalive'' (udec (unat (persistent_keepalive_interval p)))) @ print_if n [NL] @ s"]
    unfolding read_endpoint [OF ep R] read_keepalive last .
qed

lemma read_showconf_peers:
  assumes "list_all (showable_peer S) qs" "list_ex has_endpoint qs \<longrightarrow> parse_dns_retries S = Ok R"
    and "after_peers d ps ctx"
  shows "\<exists>ctx'. after_peers d (ps @ map peer_image qs) ctx' \<and> read_text S ctx (showconf_peers S qs) = Ok ctx'"
  using assms
proof (induction qs arbitrary: ps ctx)
  case (Cons q qs)
  then have q: "showable_peer S q" "has_endpoint q \<longrightarrow> parse_dns_retries S = Ok R"
    and qs: "list_all (showable_peer S) qs" "list_ex has_endpoint qs \<longrightarrow> parse_dns_retries S = Ok R"
    by simp_all
  obtain ips w where "read_text S ctx (showconf_peer S (qs \<noteq> []) q @ showconf_peers S qs) =
      read_text S (peer_ctx d ps (peer_image q) ips w) (showconf_peers S qs)"
    using read_showconf_peer [OF q Cons.prems(3)] by blast
  with Cons.IH [OF qs after_peers_ctx, of ps "peer_image q" ips w] show ?case by simp
qed auto

section \<open>Reading a printed device\<close>

definition dev_ctx :: "wgdevice \<Rightarrow> config_ctx" where
  "dev_ctx d = \<lparr>ctx_device = d, last_peer = None, last_allowedip = None,
     is_peer_section = False, is_device_section = True, ctx_warned = []\<rparr>"

lemma read_device_setting:
  assumes "plain k"
    and "b \<Longrightarrow> clean_line (conf_line k v) = k @ CHR ''='' # v \<and> NL \<notin> set v \<and> NUL \<notin> set v"
    and "b \<Longrightarrow> process_device_line S (k @ CHR ''='' # v) d = Ok d'" "\<not> b \<Longrightarrow> d' = d"
  shows "read_text S (dev_ctx d) (print_if b (conf_line k v) @ s) = read_text S (dev_ctx d') s"
proof (rule read_print_if)
  assume b
  then have "config_read_line S (dev_ctx d) (conf_line k v) = Ok (dev_ctx d')"
    using assms(2,3)
    by (simp add: config_read_line_def process_line_def not_section_line) (simp add: dev_ctx_def on_device_def)
  then show "read_text S (dev_ctx d) (conf_line k v @ s) = read_text S (dev_ctx d') s"
    using assms(2) \<open>b\<close> by (simp add: read_text_conf_line [OF assms(1)])
qed (use assms(4) in simp)

text \<open>A setting that is read when it was printed, with its flag.\<close>

definition put ::
  "(('a \<Rightarrow> 'a) \<Rightarrow> wgdevice \<Rightarrow> wgdevice) \<Rightarrow> (wgdevice \<Rightarrow> 'a) \<Rightarrow> u32 \<Rightarrow> bool \<Rightarrow> 'a \<Rightarrow> wgdevice \<Rightarrow> wgdevice"
where
  "put upd sel f b x d = upd (\<lambda>_. if b then x else sel d) d\<lparr>dev_flags := dev_flags d OR flag_if b f\<rparr>"

lemma clean_plain_line:
  "plain k \<Longrightarrow> 2 \<le> length k \<Longrightarrow> \<not> special_key k \<Longrightarrow> plain v \<Longrightarrow>
   clean_line (conf_line k v) = k @ CHR ''='' # v \<and> NL \<notin> set v \<and> NUL \<notin> set v"
  using plainD [of v] plain_filter [of v] by (simp add: clean_conf_line)

lemma read_listen_port:
  assumes "showable_port S port"
  shows "read_text S (dev_ctx d) (print_if (port \<noteq> 0) (conf_line ''ListenPort'' (udec (unat port))) @ s) =
   read_text S (dev_ctx (put listen_port_update listen_port WGDEVICE_HAS_LISTEN_PORT (port \<noteq> 0) port d)) s"
proof (rule read_device_setting)
  assume port: "port \<noteq> 0"
  with assms obtain ai where "getaddrinfo S 0 None (udec (unat port)) = Inr ai" "addrinfo_ok ai"
    "sa_port (ai_addr ai) = port"
    by (auto simp: showable_port_def split: sum.splits)
  then have "parse_port S fl (udec (unat port)) = Ok (port, fl OR WGDEVICE_HAS_LISTEN_PORT)" for fl
    by (auto simp: parse_port_def addrinfo_ok_def)
  then show "process_device_line S (''ListenPort'' @ CHR ''='' # udec (unat port)) d =
      Ok (put listen_port_update listen_port WGDEVICE_HAS_LISTEN_PORT (port \<noteq> 0) port d)"
    using port by (subst process_device_line_key(1)) (simp_all add: set_port_def put_def flag_if_def)
  show "clean_line (conf_line ''ListenPort'' (udec (unat port))) = ''ListenPort'' @ CHR ''='' # udec (unat port) \<and>
      NL \<notin> set (udec (unat port)) \<and> NUL \<notin> set (udec (unat port))"
    by (rule clean_plain_line) simp_all
qed (simp_all add: put_def flag_if_def)

lemma read_fwmark:
  "read_text S (dev_ctx d) (print_if (m \<noteq> 0) (conf_line ''FwMark'' (''0x'' @ uhex (unat m))) @ s) =
   read_text S (dev_ctx (put fwmark_update fwmark WGDEVICE_HAS_FWMARK (m \<noteq> 0) m d)) s"
proof (rule read_device_setting)
  have "unat m \<le> 2 ^ 32 - 1" using unsigned_less [of m, where 'a = nat] by simp
  moreover have "is_number 16 (uhex (unat m))" by (simp add: is_number_def print_num_digits)
  ultimately have "parse_fwmark fl (''0x'' @ uhex (unat m)) = Ok (m, fl OR WGDEVICE_HAS_FWMARK)" for fl
    unfolding parse_fwmark_iff by (intro conjI refl disjI2 exI [of _ "uhex (unat m)"]) (simp_all add: num_of_print_num)
  moreover assume "m \<noteq> 0"
  ultimately show "process_device_line S (''FwMark'' @ CHR ''='' # ''0x'' @ uhex (unat m)) d =
      Ok (put fwmark_update fwmark WGDEVICE_HAS_FWMARK (m \<noteq> 0) m d)"
    by (subst process_device_line_key(2)) (simp_all only: set_fwmark_def put_def flag_if_def res_bind.simps, simp_all)
  have "plain (''0x'' @ uhex (unat m))" by (simp only: plain_append plain_keys plain_uhex)
  then show "clean_line (conf_line ''FwMark'' (''0x'' @ uhex (unat m))) = ''FwMark'' @ CHR ''='' # ''0x'' @ uhex (unat m) \<and>
      NL \<notin> set (''0x'' @ uhex (unat m)) \<and> NUL \<notin> set (''0x'' @ uhex (unat m))"
    by (intro clean_plain_line) simp_all
qed (simp_all add: put_def flag_if_def)

lemma read_private_key:
  "length k = WG_KEY_LEN \<Longrightarrow>
   read_text S (dev_ctx d) (print_if b (conf_line ''PrivateKey'' (key_to_base64 k)) @ s) =
   read_text S (dev_ctx (put private_key_update private_key WGDEVICE_HAS_PRIVATE_KEY b k d)) s"
  by (rule read_device_setting, simp, rule clean_plain_line, simp_all add: put_def flag_if_def del: append.simps)
    (subst process_device_line_key(3); simp add: set_private_key_def)

lemma read_uint16:
  assumes "plain k" "2 \<le> length k" "\<not> special_key k"
    and "process_device_line S (k @ CHR ''='' # udec (unat x)) d = set_uint16 k upd f (udec (unat x)) d"
    and "\<And>g. dev_flags (upd g d) = dev_flags d" "upd (\<lambda>_. sel d) d = d"
  shows "read_text S (dev_ctx d) (print_if b (conf_line k (udec (unat x))) @ s) =
    read_text S (dev_ctx (put upd sel f b x d)) s"
  using assms(4-6)
  by (intro read_device_setting clean_plain_line assms)
    (auto simp: set_uint16_def parse_uint16_udec put_def flag_if_def)

lemma read_header:
  assumes "plain k" "2 \<le> length k" "\<not> special_key k"
    and "\<And>v. v \<noteq> [] \<Longrightarrow> process_device_line S (k @ CHR ''='' # v) d = set_awg_string k upd f v d"
    and "\<And>g. dev_flags (upd g d) = dev_flags d" "upd (\<lambda>_. sel d) d = d"
    and "b \<longrightarrow> showable_header x"
  shows "read_text S (dev_ctx d) (print_if b (conf_line k (percent_s x)) @ s) =
    read_text S (dev_ctx (put upd sel f b x d)) s"
proof (rule read_device_setting [OF assms(1)])
  assume b
  with assms(7) obtain v where v: "x = Some v" "v \<noteq> []" "length v < MAX_AWG_STRING_LEN" "plain v"
    by (auto simp: showable_header_def split: option.splits)
  then show "clean_line (conf_line k (percent_s x)) = k @ CHR ''='' # percent_s x \<and>
      NL \<notin> set (percent_s x) \<and> NUL \<notin> set (percent_s x)"
    using clean_plain_line [OF assms(1-3)] by (simp add: percent_s_def)
  show "process_device_line S (k @ CHR ''='' # percent_s x) d =
      Ok (put upd sel f b x d)"
    using v \<open>b\<close> assms(4,5) by (simp add: percent_s_def set_awg_string_def parse_awg_string_def put_def flag_if_def)
qed (use assms(6) in \<open>simp add: put_def flag_if_def\<close>)

lemma read_junk:
  assumes "plain k" "2 \<le> length k" "special_key k" "CHR ''='' \<notin> set k"
    and "\<And>v. v \<noteq> [] \<Longrightarrow> process_device_line S (k @ CHR ''='' # v) d = set_awg_string k upd f v d"
    and "\<And>g. dev_flags (upd g d) = dev_flags d" "upd (\<lambda>_. sel d) d = d"
    and "b \<longrightarrow> showable_junk x"
  shows "read_text S (dev_ctx d) (print_if b (conf_line k (percent_s x)) @ s) =
    read_text S (dev_ctx (put upd sel f b x d)) s"
proof (rule read_device_setting [OF assms(1)])
  assume b
  with assms(8) obtain v where v: "x = Some v" "v \<noteq> []" "length v < MAX_AWG_STRING_LEN"
    "\<not> c_space (hd v)" "\<not> c_space (last v)" "list_all (\<lambda>c. c \<noteq> CHR ''#'' \<and> c \<noteq> NL \<and> c \<noteq> NUL) v"
    by (auto simp: showable_junk_def split: option.splits)
  then show "clean_line (conf_line k (percent_s x)) = k @ CHR ''='' # percent_s x \<and>
      NL \<notin> set (percent_s x) \<and> NUL \<notin> set (percent_s x)"
    using clean_conf_line_special [OF assms(1-4), of v] by (auto simp: percent_s_def list_all_iff)
  show "process_device_line S (k @ CHR ''='' # percent_s x) d =
      Ok (put upd sel f b x d)"
    using v \<open>b\<close> assms(5,6) by (simp add: percent_s_def set_awg_string_def parse_awg_string_def put_def flag_if_def)
qed (use assms(7) in \<open>simp add: put_def flag_if_def\<close>)

lemma read_numbers:
  "read_text S (dev_ctx d) (print_if b (conf_line ''Jc'' (udec (unat x))) @ s) =
     read_text S (dev_ctx (put junk_packet_count_update junk_packet_count WGDEVICE_HAS_JC b x d)) s"
  "read_text S (dev_ctx d) (print_if b (conf_line ''Jmin'' (udec (unat x))) @ s) =
     read_text S (dev_ctx (put junk_packet_min_size_update junk_packet_min_size WGDEVICE_HAS_JMIN b x d)) s"
  "read_text S (dev_ctx d) (print_if b (conf_line ''Jmax'' (udec (unat x))) @ s) =
     read_text S (dev_ctx (put junk_packet_max_size_update junk_packet_max_size WGDEVICE_HAS_JMAX b x d)) s"
  "read_text S (dev_ctx d) (print_if b (conf_line ''S1'' (udec (unat x))) @ s) =
     read_text S (dev_ctx (put init_packet_junk_size_update init_packet_junk_size WGDEVICE_HAS_S1 b x d)) s"
  "read_text S (dev_ctx d) (print_if b (conf_line ''S2'' (udec (unat x))) @ s) =
     read_text S (dev_ctx (put response_packet_junk_size_update response_packet_junk_size WGDEVICE_HAS_S2 b x d)) s"
  "read_text S (dev_ctx d) (print_if b (conf_line ''S3'' (udec (unat x))) @ s) =
     read_text S (dev_ctx (put cookie_reply_packet_junk_size_update cookie_reply_packet_junk_size WGDEVICE_HAS_S3 b x d)) s"
  "read_text S (dev_ctx d) (print_if b (conf_line ''S4'' (udec (unat x))) @ s) =
     read_text S (dev_ctx (put transport_packet_junk_size_update transport_packet_junk_size WGDEVICE_HAS_S4 b x d)) s"
  by (rule read_uint16; (rule process_device_line_key | simp); simp)+

lemma read_headers:
  assumes "b \<longrightarrow> showable_header x"
  shows "read_text S (dev_ctx d) (print_if b (conf_line ''H1'' (percent_s x)) @ s) =
     read_text S (dev_ctx (put init_packet_magic_header_update init_packet_magic_header WGDEVICE_HAS_H1 b x d)) s"
    and "read_text S (dev_ctx d) (print_if b (conf_line ''H2'' (percent_s x)) @ s) =
     read_text S (dev_ctx (put response_packet_magic_header_update response_packet_magic_header WGDEVICE_HAS_H2 b x d)) s"
    and "read_text S (dev_ctx d) (print_if b (conf_line ''H3'' (percent_s x)) @ s) =
     read_text S (dev_ctx (put underload_packet_magic_header_update underload_packet_magic_header WGDEVICE_HAS_H3 b x d)) s"
    and "read_text S (dev_ctx d) (print_if b (conf_line ''H4'' (percent_s x)) @ s) =
     read_text S (dev_ctx (put transport_packet_magic_header_update transport_packet_magic_header WGDEVICE_HAS_H4 b x d)) s"
  by (rule read_header [OF _ _ _ _ _ _ assms]; (rule process_device_line_key | simp); simp)+

lemma read_junks:
  assumes "b \<longrightarrow> showable_junk x"
  shows "read_text S (dev_ctx d) (print_if b (conf_line ''I1'' (percent_s x)) @ s) =
     read_text S (dev_ctx (put i1_update i1 WGDEVICE_HAS_I1 b x d)) s"
    and "read_text S (dev_ctx d) (print_if b (conf_line ''I2'' (percent_s x)) @ s) =
     read_text S (dev_ctx (put i2_update i2 WGDEVICE_HAS_I2 b x d)) s"
    and "read_text S (dev_ctx d) (print_if b (conf_line ''I3'' (percent_s x)) @ s) =
     read_text S (dev_ctx (put i3_update i3 WGDEVICE_HAS_I3 b x d)) s"
    and "read_text S (dev_ctx d) (print_if b (conf_line ''I4'' (percent_s x)) @ s) =
     read_text S (dev_ctx (put i4_update i4 WGDEVICE_HAS_I4 b x d)) s"
    and "read_text S (dev_ctx d) (print_if b (conf_line ''I5'' (percent_s x)) @ s) =
     read_text S (dev_ctx (put i5_update i5 WGDEVICE_HAS_I5 b x d)) s"
  by (rule read_junk [OF _ _ _ _ _ _ _ assms]; (rule process_device_line_key | simp); simp)+

lemma zero_device_fields [simp]:
  "listen_port zero_device = 0" "fwmark zero_device = 0" "private_key zero_device = zero_key"
  "junk_packet_count zero_device = 0" "junk_packet_min_size zero_device = 0" "junk_packet_max_size zero_device = 0"
  "init_packet_junk_size zero_device = 0" "response_packet_junk_size zero_device = 0"
  "cookie_reply_packet_junk_size zero_device = 0" "transport_packet_junk_size zero_device = 0"
  "init_packet_magic_header zero_device = None" "response_packet_magic_header zero_device = None"
  "underload_packet_magic_header zero_device = None" "transport_packet_magic_header zero_device = None"
  "i1 zero_device = None" "i2 zero_device = None" "i3 zero_device = None" "i4 zero_device = None"
  "i5 zero_device = None" "first_peer zero_device = []" "dev_flags zero_device = 0"
  by (simp_all add: zero_device_def)

lemma read_interface_section:
  "read_text S (config_read_init a) (''[Interface]'' @ [NL] @ s) =
   read_text S (dev_ctx (ctx_device (config_read_init a))) s"
proof -
  have "config_read_line S (config_read_init a) (''[Interface]'' @ [NL]) = Ok (dev_ctx (ctx_device (config_read_init a)))"
    unfolding config_read_line_def section_lines process_line_def Let_def
    by (simp add: config_read_init_def dev_ctx_def)
  then show ?thesis using read_text_line [of "''[Interface]''" S "config_read_init a" s] by simp
qed

lemma showable_deviceD:
  assumes "showable_device S d"
  shows "showable_port S (listen_port d)" "length (private_key d) = WG_KEY_LEN"
    "has (dev_flags d) WGDEVICE_HAS_H1 \<longrightarrow> showable_header (init_packet_magic_header d)"
    "has (dev_flags d) WGDEVICE_HAS_H2 \<longrightarrow> showable_header (response_packet_magic_header d)"
    "has (dev_flags d) WGDEVICE_HAS_H3 \<longrightarrow> showable_header (underload_packet_magic_header d)"
    "has (dev_flags d) WGDEVICE_HAS_H4 \<longrightarrow> showable_header (transport_packet_magic_header d)"
    "has (dev_flags d) WGDEVICE_HAS_I1 \<longrightarrow> showable_junk (i1 d)"
    "has (dev_flags d) WGDEVICE_HAS_I2 \<longrightarrow> showable_junk (i2 d)"
    "has (dev_flags d) WGDEVICE_HAS_I3 \<longrightarrow> showable_junk (i3 d)"
    "has (dev_flags d) WGDEVICE_HAS_I4 \<longrightarrow> showable_junk (i4 d)"
    "has (dev_flags d) WGDEVICE_HAS_I5 \<longrightarrow> showable_junk (i5 d)"
  using assms by (simp_all add: showable_device_def)

text \<open>Groups of settings read one after the other.\<close>

lemma put_numbers:
  "put transport_packet_junk_size_update transport_packet_junk_size WGDEVICE_HAS_S4 b6 x6 (put cookie_reply_packet_junk_size_update cookie_reply_packet_junk_size WGDEVICE_HAS_S3 b5 x5 (put response_packet_junk_size_update response_packet_junk_size WGDEVICE_HAS_S2 b4 x4 (put init_packet_junk_size_update init_packet_junk_size WGDEVICE_HAS_S1 b3 x3 (put junk_packet_max_size_update junk_packet_max_size WGDEVICE_HAS_JMAX b2 x2 (put junk_packet_min_size_update junk_packet_min_size WGDEVICE_HAS_JMIN b1 x1 (put junk_packet_count_update junk_packet_count WGDEVICE_HAS_JC b0 x0 (d))))))) =
   d\<lparr>junk_packet_count := (if b0 then x0 else junk_packet_count d), junk_packet_min_size := (if b1 then x1 else junk_packet_min_size d), junk_packet_max_size := (if b2 then x2 else junk_packet_max_size d), init_packet_junk_size := (if b3 then x3 else init_packet_junk_size d), response_packet_junk_size := (if b4 then x4 else response_packet_junk_size d), cookie_reply_packet_junk_size := (if b5 then x5 else cookie_reply_packet_junk_size d), transport_packet_junk_size := (if b6 then x6 else transport_packet_junk_size d), dev_flags := dev_flags d OR flag_if b0 WGDEVICE_HAS_JC OR flag_if b1 WGDEVICE_HAS_JMIN OR flag_if b2 WGDEVICE_HAS_JMAX OR flag_if b3 WGDEVICE_HAS_S1 OR flag_if b4 WGDEVICE_HAS_S2 OR flag_if b5 WGDEVICE_HAS_S3 OR flag_if b6 WGDEVICE_HAS_S4\<rparr>"
  by (simp add: put_def or.assoc)

lemma put_headers:
  "put transport_packet_magic_header_update transport_packet_magic_header WGDEVICE_HAS_H4 b3 x3 (put underload_packet_magic_header_update underload_packet_magic_header WGDEVICE_HAS_H3 b2 x2 (put response_packet_magic_header_update response_packet_magic_header WGDEVICE_HAS_H2 b1 x1 (put init_packet_magic_header_update init_packet_magic_header WGDEVICE_HAS_H1 b0 x0 (d)))) =
   d\<lparr>init_packet_magic_header := (if b0 then x0 else init_packet_magic_header d), response_packet_magic_header := (if b1 then x1 else response_packet_magic_header d), underload_packet_magic_header := (if b2 then x2 else underload_packet_magic_header d), transport_packet_magic_header := (if b3 then x3 else transport_packet_magic_header d), dev_flags := dev_flags d OR flag_if b0 WGDEVICE_HAS_H1 OR flag_if b1 WGDEVICE_HAS_H2 OR flag_if b2 WGDEVICE_HAS_H3 OR flag_if b3 WGDEVICE_HAS_H4\<rparr>"
  by (simp add: put_def or.assoc)

lemma put_junks:
  "put i5_update i5 WGDEVICE_HAS_I5 b4 x4 (put i4_update i4 WGDEVICE_HAS_I4 b3 x3 (put i3_update i3 WGDEVICE_HAS_I3 b2 x2 (put i2_update i2 WGDEVICE_HAS_I2 b1 x1 (put i1_update i1 WGDEVICE_HAS_I1 b0 x0 (d))))) =
   d\<lparr>i1 := (if b0 then x0 else i1 d), i2 := (if b1 then x1 else i2 d), i3 := (if b2 then x2 else i3 d), i4 := (if b3 then x3 else i4 d), i5 := (if b4 then x4 else i5 d), dev_flags := dev_flags d OR flag_if b0 WGDEVICE_HAS_I1 OR flag_if b1 WGDEVICE_HAS_I2 OR flag_if b2 WGDEVICE_HAS_I3 OR flag_if b3 WGDEVICE_HAS_I4 OR flag_if b4 WGDEVICE_HAS_I5\<rparr>"
  by (simp add: put_def or.assoc)

lemma put_first:
  "put private_key_update private_key WGDEVICE_HAS_PRIVATE_KEY b2 x2 (put fwmark_update fwmark WGDEVICE_HAS_FWMARK b1 x1
     (put listen_port_update listen_port WGDEVICE_HAS_LISTEN_PORT b0 x0 d)) =
   d\<lparr>listen_port := (if b0 then x0 else listen_port d), fwmark := (if b1 then x1 else fwmark d),
     private_key := (if b2 then x2 else private_key d), dev_flags := dev_flags d OR flag_if b0 WGDEVICE_HAS_LISTEN_PORT
       OR flag_if b1 WGDEVICE_HAS_FWMARK OR flag_if b2 WGDEVICE_HAS_PRIVATE_KEY\<rparr>"
  by (simp add: put_def or.assoc)

text \<open>The device after its first three settings, after the numbers, after the headers, after the rest.\<close>

definition image_first :: "u32 \<Rightarrow> wgdevice \<Rightarrow> wgdevice" where
  "image_first fl d = zero_device\<lparr>listen_port := listen_port d, fwmark := fwmark d,
     private_key := (if has (dev_flags d) WGDEVICE_HAS_PRIVATE_KEY then private_key d else zero_key),
     dev_flags := fl OR flag_if (listen_port d \<noteq> 0) WGDEVICE_HAS_LISTEN_PORT
       OR flag_if (fwmark d \<noteq> 0) WGDEVICE_HAS_FWMARK
       OR flag_if (has (dev_flags d) WGDEVICE_HAS_PRIVATE_KEY) WGDEVICE_HAS_PRIVATE_KEY\<rparr>"

definition image_numbers :: "u32 \<Rightarrow> wgdevice \<Rightarrow> wgdevice" where
  "image_numbers fl d = image_first fl d\<lparr>
     junk_packet_count := (if has (dev_flags d) WGDEVICE_HAS_JC then junk_packet_count d else 0),
     junk_packet_min_size := (if has (dev_flags d) WGDEVICE_HAS_JMIN then junk_packet_min_size d else 0),
     junk_packet_max_size := (if has (dev_flags d) WGDEVICE_HAS_JMAX then junk_packet_max_size d else 0),
     init_packet_junk_size := (if has (dev_flags d) WGDEVICE_HAS_S1 then init_packet_junk_size d else 0),
     response_packet_junk_size := (if has (dev_flags d) WGDEVICE_HAS_S2 then response_packet_junk_size d else 0),
     cookie_reply_packet_junk_size := (if has (dev_flags d) WGDEVICE_HAS_S3 then cookie_reply_packet_junk_size d else 0),
     transport_packet_junk_size := (if has (dev_flags d) WGDEVICE_HAS_S4 then transport_packet_junk_size d else 0),
     dev_flags := dev_flags (image_first fl d)
       OR flag_if (has (dev_flags d) WGDEVICE_HAS_JC) WGDEVICE_HAS_JC
       OR flag_if (has (dev_flags d) WGDEVICE_HAS_JMIN) WGDEVICE_HAS_JMIN
       OR flag_if (has (dev_flags d) WGDEVICE_HAS_JMAX) WGDEVICE_HAS_JMAX
       OR flag_if (has (dev_flags d) WGDEVICE_HAS_S1) WGDEVICE_HAS_S1
       OR flag_if (has (dev_flags d) WGDEVICE_HAS_S2) WGDEVICE_HAS_S2
       OR flag_if (has (dev_flags d) WGDEVICE_HAS_S3) WGDEVICE_HAS_S3
       OR flag_if (has (dev_flags d) WGDEVICE_HAS_S4) WGDEVICE_HAS_S4\<rparr>"

definition image_headers :: "u32 \<Rightarrow> wgdevice \<Rightarrow> wgdevice" where
  "image_headers fl d = image_numbers fl d\<lparr>
     init_packet_magic_header := (if has (dev_flags d) WGDEVICE_HAS_H1 then init_packet_magic_header d else None),
     response_packet_magic_header := (if has (dev_flags d) WGDEVICE_HAS_H2 then response_packet_magic_header d else None),
     underload_packet_magic_header := (if has (dev_flags d) WGDEVICE_HAS_H3 then underload_packet_magic_header d else None),
     transport_packet_magic_header := (if has (dev_flags d) WGDEVICE_HAS_H4 then transport_packet_magic_header d else None),
     dev_flags := dev_flags (image_numbers fl d)
       OR flag_if (has (dev_flags d) WGDEVICE_HAS_H1) WGDEVICE_HAS_H1
       OR flag_if (has (dev_flags d) WGDEVICE_HAS_H2) WGDEVICE_HAS_H2
       OR flag_if (has (dev_flags d) WGDEVICE_HAS_H3) WGDEVICE_HAS_H3
       OR flag_if (has (dev_flags d) WGDEVICE_HAS_H4) WGDEVICE_HAS_H4\<rparr>"

definition image_junks :: "u32 \<Rightarrow> wgdevice \<Rightarrow> wgdevice" where
  "image_junks fl d = image_headers fl d\<lparr>
     i1 := (if has (dev_flags d) WGDEVICE_HAS_I1 then i1 d else None),
     i2 := (if has (dev_flags d) WGDEVICE_HAS_I2 then i2 d else None),
     i3 := (if has (dev_flags d) WGDEVICE_HAS_I3 then i3 d else None),
     i4 := (if has (dev_flags d) WGDEVICE_HAS_I4 then i4 d else None),
     i5 := (if has (dev_flags d) WGDEVICE_HAS_I5 then i5 d else None),
     dev_flags := dev_flags (image_headers fl d)
       OR flag_if (has (dev_flags d) WGDEVICE_HAS_I1) WGDEVICE_HAS_I1
       OR flag_if (has (dev_flags d) WGDEVICE_HAS_I2) WGDEVICE_HAS_I2
       OR flag_if (has (dev_flags d) WGDEVICE_HAS_I3) WGDEVICE_HAS_I3
       OR flag_if (has (dev_flags d) WGDEVICE_HAS_I4) WGDEVICE_HAS_I4
       OR flag_if (has (dev_flags d) WGDEVICE_HAS_I5) WGDEVICE_HAS_I5\<rparr>"

lemma image_stages:
  "put private_key_update private_key WGDEVICE_HAS_PRIVATE_KEY (has (dev_flags d) WGDEVICE_HAS_PRIVATE_KEY) (private_key d)
    (put fwmark_update fwmark WGDEVICE_HAS_FWMARK (fwmark d \<noteq> 0) (fwmark d)
    (put listen_port_update listen_port WGDEVICE_HAS_LISTEN_PORT (listen_port d \<noteq> 0) (listen_port d)
    (zero_device\<lparr>dev_flags := fl\<rparr>))) = image_first fl d"
  "put transport_packet_junk_size_update transport_packet_junk_size WGDEVICE_HAS_S4 (has (dev_flags d) WGDEVICE_HAS_S4) (transport_packet_junk_size d)
    (put cookie_reply_packet_junk_size_update cookie_reply_packet_junk_size WGDEVICE_HAS_S3 (has (dev_flags d) WGDEVICE_HAS_S3) (cookie_reply_packet_junk_size d)
    (put response_packet_junk_size_update response_packet_junk_size WGDEVICE_HAS_S2 (has (dev_flags d) WGDEVICE_HAS_S2) (response_packet_junk_size d)
    (put init_packet_junk_size_update init_packet_junk_size WGDEVICE_HAS_S1 (has (dev_flags d) WGDEVICE_HAS_S1) (init_packet_junk_size d)
    (put junk_packet_max_size_update junk_packet_max_size WGDEVICE_HAS_JMAX (has (dev_flags d) WGDEVICE_HAS_JMAX) (junk_packet_max_size d)
    (put junk_packet_min_size_update junk_packet_min_size WGDEVICE_HAS_JMIN (has (dev_flags d) WGDEVICE_HAS_JMIN) (junk_packet_min_size d)
    (put junk_packet_count_update junk_packet_count WGDEVICE_HAS_JC (has (dev_flags d) WGDEVICE_HAS_JC) (junk_packet_count d)
    (image_first fl d))))))) = image_numbers fl d"
  "put transport_packet_magic_header_update transport_packet_magic_header WGDEVICE_HAS_H4 (has (dev_flags d) WGDEVICE_HAS_H4) (transport_packet_magic_header d)
    (put underload_packet_magic_header_update underload_packet_magic_header WGDEVICE_HAS_H3 (has (dev_flags d) WGDEVICE_HAS_H3) (underload_packet_magic_header d)
    (put response_packet_magic_header_update response_packet_magic_header WGDEVICE_HAS_H2 (has (dev_flags d) WGDEVICE_HAS_H2) (response_packet_magic_header d)
    (put init_packet_magic_header_update init_packet_magic_header WGDEVICE_HAS_H1 (has (dev_flags d) WGDEVICE_HAS_H1) (init_packet_magic_header d)
    (image_numbers fl d)))) = image_headers fl d"
  "put i5_update i5 WGDEVICE_HAS_I5 (has (dev_flags d) WGDEVICE_HAS_I5) (i5 d)
    (put i4_update i4 WGDEVICE_HAS_I4 (has (dev_flags d) WGDEVICE_HAS_I4) (i4 d)
    (put i3_update i3 WGDEVICE_HAS_I3 (has (dev_flags d) WGDEVICE_HAS_I3) (i3 d)
    (put i2_update i2 WGDEVICE_HAS_I2 (has (dev_flags d) WGDEVICE_HAS_I2) (i2 d)
    (put i1_update i1 WGDEVICE_HAS_I1 (has (dev_flags d) WGDEVICE_HAS_I1) (i1 d)
    (image_headers fl d))))) = image_junks fl d"
  unfolding put_first put_numbers put_headers put_junks
  by (simp add: image_first_def, simp_all only: image_numbers_def image_headers_def image_junks_def)
    (simp_all add: image_first_def image_numbers_def image_headers_def)

lemma image_junks_eq: "image_junks fl d = device_image fl d"
  by (simp add: image_junks_def image_headers_def image_numbers_def image_first_def device_image_def Let_def or.assoc)

lemma read_showconf_device:
  assumes "showable_device S d"
  shows "read_text S (config_read_init a) (showconf_device d @ s) =
    read_text S (dev_ctx (device_image (dev_flags (ctx_device (config_read_init a))) d)) s"
proof -
  note p = showable_deviceD [OF assms]
  have init: "ctx_device (config_read_init a) = zero_device\<lparr>dev_flags := dev_flags (ctx_device (config_read_init a))\<rparr>"
    by (simp add: config_read_init_def)
  have blank: "read_text S c ([NL] @ s) = read_text S c s" for c by simp
  show ?thesis
    unfolding showconf_device_def append_assoc read_interface_section
      read_listen_port [OF p(1)] read_fwmark read_private_key [OF p(2)] read_numbers
      read_headers [OF p(3)] read_headers [OF p(4)] read_headers [OF p(5)] read_headers [OF p(6)]
      read_junks [OF p(7)] read_junks [OF p(8)] read_junks [OF p(9)] read_junks [OF p(10)] read_junks [OF p(11)]
      blank
    by (subst init) (simp only: image_stages image_junks_eq)
qed

section \<open>The round trip\<close>

text \<open>The device a reader makes of the whole text.\<close>

definition config_image :: "bool \<Rightarrow> wgdevice \<Rightarrow> wgdevice" where
  "config_image appending d =
     (device_image (if appending then 0
        else WGDEVICE_REPLACE_PEERS OR WGDEVICE_HAS_PRIVATE_KEY OR WGDEVICE_HAS_FWMARK) d)
     \<lparr>first_peer := map peer_image (first_peer d)\<rparr>"

lemma init_flags: "dev_flags (ctx_device (config_read_init a)) =
  (if a then 0 else WGDEVICE_REPLACE_PEERS OR WGDEVICE_HAS_PRIVATE_KEY OR WGDEVICE_HAS_FWMARK)"
  by (simp add: config_read_init_def)

lemma peer_image_has_key: "has (peer_flags (peer_image p)) WGPEER_HAS_PUBLIC_KEY"
proof -
  have "has WGPEER_HAS_PUBLIC_KEY WGPEER_HAS_PUBLIC_KEY" by (simp add: has_def flag_defs)
  then show ?thesis by (simp add: peer_image_def)
qed

lemma read_showconf:
  assumes "showable_device S d" "list_all (showable_peer S) (first_peer d)"
    and "list_ex has_endpoint (first_peer d) \<longrightarrow> parse_dns_retries S = Ok R"
  shows "read_config S a (showconf S d) = Ok (config_image a d)"
proof -
  let ?d = "device_image (dev_flags (ctx_device (config_read_init a))) d"
  have start: "read_text S (config_read_init a) (showconf S d) =
      read_text S (dev_ctx ?d) (showconf_peers S (first_peer d))"
    using read_showconf_device [OF assms(1)] by (simp add: showconf_def)
  have "first_peer ?d = []" by (simp add: device_image_def Let_def)
  then have "after_peers ?d [] (dev_ctx ?d)" by (cases ?d) (simp add: after_peers_def dev_ctx_def)
  with read_showconf_peers [OF assms(2,3)] obtain ctx where
    ctx: "after_peers ?d (map peer_image (first_peer d)) ctx" "read_text S (config_read_init a) (showconf S d) = Ok ctx"
    unfolding start by fastforce
  moreover have "list_all (\<lambda>p. has (peer_flags p) WGPEER_HAS_PUBLIC_KEY) (map peer_image (first_peer d))"
    by (simp add: list_all_iff peer_image_has_key)
  ultimately show ?thesis
    by (simp add: read_config_def read_text_def config_read_finish_def after_peers_def config_image_def init_flags)
qed

section \<open>Properties\<close>

text \<open>C1. The printed configuration of a device, read back by the configuration reader, hands the interface
  the same device: its port, mark and private key, every number, header and junk string that is
  announced, and every peer in its order with its keys, allowed addresses, endpoint, keepalive
  interval and switch.  The system has to read back the addresses and ports it printed, and the
  strings must not hold the characters that end a value.\<close>

theorem showconf_setconf_roundtrip:
  assumes "ipc_get_device I w name = Inr d" "showable_device S d" "list_all (showable_peer S) (first_peer d)"
    and "list_ex has_endpoint (first_peer d) \<longrightarrow> parse_dns_retries S = Ok R"
    and "fopen S path = Some \<lparr>f_contents = snd (showconf_main S I w [''showconf'', name]), f_error = False\<rparr>"
    and "cmd = ''setconf'' \<or> cmd = ''addconf''"
  shows "setconf_main S I w [cmd, name', path] =
    (let (ret, w') = ipc_set_device I w ((config_image (cmd = ''addconf'') d)\<lparr>dev_name := take 15 name'\<rparr>)
     in Ok (if ret \<noteq> 0 then 1 else 0, w'))"
proof -
  have shown: "snd (showconf_main S I w [''showconf'', name]) = showconf S d"
    using assms(1) by (simp add: showconf_main_def)
  note read = read_showconf [OF assms(2-4)]
  from assms(6) show ?thesis
    by (rule disjE) (simp_all add: setconf_main_def assms(5) shown read Let_def)
qed

text \<open>A device with a peer, and the system that reads back what is printed of it.\<close>

definition sample_device :: wgdevice where
  "sample_device = zero_device\<lparr>listen_port := 51820, private_key := replicate 32 7, i1 := Some ''<b 0x1f> <r 8>'',
     dev_flags := WGDEVICE_HAS_PRIVATE_KEY OR WGDEVICE_HAS_I1,
     first_peer := [zero_peer\<lparr>peer_public_key := replicate 32 9, peer_flags := WGPEER_HAS_PUBLIC_KEY,
       endpoint := sample_endpoint, persistent_keepalive_interval := 25,
       first_allowedip := [\<lparr>a_family = AF_INET6, a_ip = sample_ip6, a_cidr = 64\<rparr>]\<rparr>]\<rparr>"

lemma sample_port_text: "udec (unat (51820 :: u16)) = ''51820''"
  by (simp add: print_num.simps digit_char_def char_of_def bit_0)

lemma sample_showable:
  "showable_device sample_sys sample_device" "list_all (showable_peer sample_sys) (first_peer sample_device)"
proof -
  have "showable_port sample_sys 51820"
    unfolding showable_port_def sample_port_text
    by (simp add: sample_sys_def addrinfo_ok_def sample_endpoint_def)
  moreover have "showable_junk (Some ''<b 0x1f> <r 8>'')"
    by (simp add: showable_junk_def is_c_space_def)
  ultimately show "showable_device sample_sys sample_device"
    unfolding showable_device_def sample_device_def
    by (simp add: zero_device_def) (simp add: has_def flag_defs)
  have "plain ''fd00::''" "plain ''192.0.2.1''" "plain ''51820''" by (simp_all add: plain_def is_c_space_def)
  then show "list_all (showable_peer sample_sys) (first_peer sample_device)"
    by (simp add: sample_device_def showable_peer_def showable_ip_def showable_endpoint_def has_endpoint_def
        wf_allowedip_def max_cidr_def addr_len_def ip_bytes_def zero_key_def zero_peer_def)
      (simp add: sample_sys_def sample_endpoint_def sample_ip6_def sockaddr_len_def ip_bytes_def addr_len_def)
qed

lemma fopen_not_used:
  "showconf (S\<lparr>fopen := f\<rparr>) d = showconf S d" "showable_device (S\<lparr>fopen := f\<rparr>) d = showable_device S d"
  "showable_peer (S\<lparr>fopen := f\<rparr>) = showable_peer S" "parse_dns_retries (S\<lparr>fopen := f\<rparr>) = parse_dns_retries S"
proof -
  have ips: "showconf_allowedips (S\<lparr>fopen := f\<rparr>) as = showconf_allowedips S as" for as
    by (induction as) simp_all
  have peers: "showconf_peers (S\<lparr>fopen := f\<rparr>) ps = showconf_peers S ps" for ps
    by (induction ps) (simp_all add: showconf_peer_def ips showconf_endpoint_def)
  have ip: "showable_ip (S\<lparr>fopen := f\<rparr>) = showable_ip S" by (simp add: fun_eq_iff showable_ip_def split: option.splits)
  show "showconf (S\<lparr>fopen := f\<rparr>) d = showconf S d" "showable_device (S\<lparr>fopen := f\<rparr>) d = showable_device S d"
    "showable_peer (S\<lparr>fopen := f\<rparr>) = showable_peer S" "parse_dns_retries (S\<lparr>fopen := f\<rparr>) = parse_dns_retries S"
    by (simp_all add: showconf_def peers ip fun_eq_iff showable_device_def showable_port_def showable_peer_def
        showable_endpoint_def parse_dns_retries_def split: sum.splits)
qed

theorem showconf_setconf_roundtrip_witness:
  "setconf_main
     (sample_sys\<lparr>fopen := (\<lambda>_. Some \<lparr>f_contents = showconf sample_sys sample_device, f_error = False\<rparr>)\<rparr>)
     \<lparr>ipc_get_device = (\<lambda>w n. Inr sample_device), ipc_set_device = (\<lambda>w d. (0, d))\<rparr> zero_device
     [''setconf'', ''wg1'', ''wg1.conf''] =
   Ok (0, (config_image False sample_device)\<lparr>dev_name := ''wg1''\<rparr>)"
proof -
  let ?S = "sample_sys\<lparr>fopen := (\<lambda>_. Some \<lparr>f_contents = showconf sample_sys sample_device, f_error = False\<rparr>)\<rparr>"
  let ?I = "\<lparr>ipc_get_device = (\<lambda>w n. Inr sample_device), ipc_set_device = (\<lambda>w d. (0, d))\<rparr>"
  have "parse_dns_retries sample_sys = Ok 15" by (simp add: parse_dns_retries_def sample_sys_def)
  then show ?thesis
    using showconf_setconf_roundtrip [of ?I zero_device "''wg0''" sample_device ?S 15 "''wg1.conf''" "''setconf''" "''wg1''"]
    by (simp add: fopen_not_used sample_showable showconf_main_def)
qed

end
