(* ===== verification/Highlighter.thy ===== *)
theory Highlighter
  imports Config_Values
begin

text \<open>
  \<^verbatim>\<open>contrib/highlighter\<close>: the syntax highlighter of configuration files, which the mobile and
  desktop editors embed, and the small program that colours a file with it.  A span is a pointer
  into the text and a length; the pointer is the rest of the text from there, so that reading one
  character past a span reads the character that follows it, as in C.
\<close>

record string_span =
  sp_s :: string
  sp_len :: nat

text \<open>\<^verbatim>\<open>s.s[i]\<close>, \<^verbatim>\<open>s.s + i\<close>, and the characters of the span.\<close>

abbreviation sp_at :: "string_span \<Rightarrow> nat \<Rightarrow> char" where "sp_at s i \<equiv> c_at (sp_s s) i"

definition span_of :: "string_span \<Rightarrow> nat \<Rightarrow> nat \<Rightarrow> string_span" where
  "span_of s i n = \<lparr>sp_s = drop i (sp_s s), sp_len = n\<rparr>"

definition sp_text :: "string_span \<Rightarrow> string" where
  "sp_text s = take (sp_len s) (sp_s s)"

section \<open>Characters and words\<close>

definition is_decimal :: "char \<Rightarrow> bool" where
  "is_decimal c \<longleftrightarrow> 48 \<le> char_ord c \<and> char_ord c \<le> 57"

definition is_hexadecimal :: "char \<Rightarrow> bool" where
  "is_hexadecimal c \<longleftrightarrow> is_decimal c \<or> 97 \<le> (char_ord c OR 32) \<and> (char_ord c OR 32) \<le> 102"

definition is_alphabet :: "char \<Rightarrow> bool" where
  "is_alphabet c \<longleftrightarrow> 97 \<le> (char_ord c OR 32) \<and> (char_ord c OR 32) \<le> 122"

definition is_same :: "string_span \<Rightarrow> string \<Rightarrow> bool" where
  "is_same s c \<longleftrightarrow> length c = sp_len s \<and> sp_text s = c"

text \<open>\<^verbatim>\<open>if ((unsigned)a - 'a' < 26) a &= 95\<close>.\<close>

definition upcase :: "char \<Rightarrow> char" where
  "upcase a = (if char_int a - 97 < 26 then byte_char (char_byte a AND 95) else a)"

fun caseless_loop :: "string \<Rightarrow> string \<Rightarrow> bool" where
  "caseless_loop (a # as) (b # bs) = (if upcase a \<noteq> upcase b then False else caseless_loop as bs)"
| "caseless_loop _ _ = True"

definition is_caseless_same :: "string_span \<Rightarrow> string \<Rightarrow> bool" where
  "is_caseless_same s c = (if length c \<noteq> sp_len s then False else caseless_loop c (sp_text s))"

section \<open>Values\<close>

definition is_valid_key :: "string_span \<Rightarrow> bool" where
  "is_valid_key s =
     (if sp_len s \<noteq> 44 \<or> sp_at s 43 \<noteq> CHR ''='' then False
      else if \<not> list_all (\<lambda>i. is_decimal (sp_at s i) \<or> is_alphabet (sp_at s i) \<or>
             sp_at s i = CHR ''/'' \<or> sp_at s i = CHR ''+'') [0..<42] then False
      else sp_at s 42 \<in> set ''AEIMQUYcgkosw480'')"

text \<open>The loop of the host name check: the digits and the characters that are not dots, or a refusal.\<close>

fun hostname_loop :: "string \<Rightarrow> nat \<Rightarrow> nat \<Rightarrow> bool" where
  "hostname_loop [] num_digit num_entity = (num_digit \<noteq> num_entity)"
| "hostname_loop (c # cs) num_digit num_entity =
     (if is_decimal c then hostname_loop cs (num_digit + 1) num_entity
      else if c = CHR ''.'' then hostname_loop cs num_digit (num_entity - 1)
      else if \<not> is_alphabet c \<and> c \<noteq> CHR ''-'' then False
      else hostname_loop cs num_digit num_entity)"

definition is_valid_hostname :: "string_span \<Rightarrow> bool" where
  "is_valid_hostname s =
     (if sp_len s > 63 \<or> sp_len s = 0 then False
      else if sp_at s 0 = CHR ''-'' \<or> sp_at s (sp_len s - 1) = CHR ''-'' then False
      else if sp_at s 0 = CHR ''.'' \<or> sp_at s (sp_len s - 1) = CHR ''.'' then False
      else hostname_loop (sp_text s) 0 (sp_len s))"

text \<open>\<^verbatim>\<open>for (j = 0; j < n && pos + j < s.len && p(s.s[pos + j]); ++j)\<close>.\<close>

definition run_of :: "(char \<Rightarrow> bool) \<Rightarrow> nat \<Rightarrow> string_span \<Rightarrow> nat \<Rightarrow> string" where
  "run_of p n s pos = takeWhile p (take n (drop pos (sp_text s)))"

text \<open>The rounds of the IPv4 check that are left, the round \<open>i = 3\<close> being the last.\<close>

fun ipv4_loop :: "string_span \<Rightarrow> nat \<Rightarrow> nat \<Rightarrow> bool" where
  "ipv4_loop s pos 0 = False"
| "ipv4_loop s pos (Suc n) =
     (if \<not> pos < sp_len s then False
      else
        let ds = run_of is_decimal 3 s pos; j = length ds; val = num_of 10 ds in
        if j = 0 \<or> j > 1 \<and> sp_at s pos = CHR ''0'' \<or> val > 255 then False
        else if pos + j = sp_len s \<and> n = 0 then True
        else if sp_at s (pos + j) \<noteq> CHR ''.'' then False
        else ipv4_loop s (pos + j + 1) n)"

definition is_valid_ipv4 :: "string_span \<Rightarrow> bool" where
  "is_valid_ipv4 s = ipv4_loop s 0 4"

function ipv6_loop :: "string_span \<Rightarrow> nat \<Rightarrow> bool \<Rightarrow> nat \<Rightarrow> bool" where
  "ipv6_loop s pos seen_colon i =
     (if \<not> pos < sp_len s then True
      else if sp_at s pos = CHR '':'' \<and> \<not> seen_colon then
        (if pos + 1 = sp_len s then True
         else if i = 7 then False
         else ipv6_loop s (pos + 1) True (i + 1))
      else
        let j = length (run_of is_hexadecimal 4 s pos) in
        if j = 0 then False
        else if pos + j = sp_len s \<and> (seen_colon \<or> i = 7) then True
        else if i = 7 then False
        else if sp_at s (pos + j) \<noteq> CHR '':'' then
          (if sp_at s (pos + j) \<noteq> CHR ''.'' \<or> i < 6 \<and> \<not> seen_colon then False
           else is_valid_ipv4 (span_of s pos (sp_len s - pos)))
        else ipv6_loop s (pos + j + 1) seen_colon (i + 1))"
  by pat_completeness auto
termination
  by (relation "measure (\<lambda>(s, pos, _). sp_len s - pos)") (auto simp: Let_def)

definition is_valid_ipv6 :: "string_span \<Rightarrow> bool" where
  "is_valid_ipv6 s =
     (if sp_len s < 2 then False
      else if sp_at s 0 = CHR '':'' \<and> sp_at s 1 \<noteq> CHR '':'' then False
      else if sp_at s (sp_len s - 1) = CHR '':'' \<and> sp_at s (sp_len s - 2) \<noteq> CHR '':'' then False
      else ipv6_loop s (if sp_at s 0 = CHR '':'' then 1 else 0) False 0)"

text \<open>The two loops of the number check, in 64 bits; a character that is no digit ends them.\<close>

fun uint_hex_loop :: "string \<Rightarrow> u64 \<Rightarrow> u64 option" where
  "uint_hex_loop [] val = Some val"
| "uint_hex_loop (c # cs) val =
     (if char_int c - 48 < 10 then uint_hex_loop cs (16 * val + (scast (char_int c) - 48))
      else if (char_int c OR 32) - 97 < 6
      then uint_hex_loop cs (16 * val + scast (char_int c OR 32) - 97 + 10)
      else None)"

fun uint_dec_loop :: "string \<Rightarrow> u64 \<Rightarrow> u64 option" where
  "uint_dec_loop [] val = Some val"
| "uint_dec_loop (c # cs) val =
     (if \<not> is_decimal c then None else uint_dec_loop cs (10 * val + scast (char_int c) - 48))"

definition is_valid_uint :: "string_span \<Rightarrow> bool \<Rightarrow> u64 \<Rightarrow> u64 \<Rightarrow> bool" where
  "is_valid_uint s support_hex mn mx =
     (if sp_len s > 10 \<or> sp_len s = 0 then False
      else
        case (if support_hex \<and> sp_len s > 2 \<and> sp_at s 0 = CHR ''0'' \<and> sp_at s 1 = CHR ''x''
              then uint_hex_loop (drop 2 (sp_text s)) 0 else uint_dec_loop (sp_text s) 0) of
          None \<Rightarrow> False
        | Some val \<Rightarrow> val \<le> mx \<and> val \<ge> mn)"

definition is_valid_port :: "string_span \<Rightarrow> bool" where
  "is_valid_port s = is_valid_uint s False 0 65535"

definition is_valid_mtu :: "string_span \<Rightarrow> bool" where
  "is_valid_mtu s = is_valid_uint s False 576 65535"

definition is_valid_persistentkeepalive :: "string_span \<Rightarrow> bool" where
  "is_valid_persistentkeepalive s = (if is_same s ''off'' then True else is_valid_uint s False 0 65535)"

definition is_valid_fwmark :: "string_span \<Rightarrow> bool" where
  "is_valid_fwmark s = (if is_same s ''off'' then True else is_valid_uint s True 0 4294967295)"

definition is_valid_table :: "string_span \<Rightarrow> bool" where
  "is_valid_table s =
     (if is_same s ''auto'' then True
      else if is_same s ''off'' then True
      else if sp_len s < 512 then True
      else is_valid_uint s False 0 4294967295)"

definition is_valid_saveconfig :: "string_span \<Rightarrow> bool" where
  "is_valid_saveconfig s \<longleftrightarrow> is_same s ''true'' \<or> is_same s ''false''"

definition is_valid_prepostupdown :: "string_span \<Rightarrow> bool" where
  "is_valid_prepostupdown s \<longleftrightarrow> sp_len s \<noteq> 0"

definition is_valid_scope :: "string_span \<Rightarrow> bool" where
  "is_valid_scope s =
     (if sp_len s > 64 \<or> sp_len s = 0 then False
      else list_all (\<lambda>c. is_alphabet c \<or> is_decimal c \<or> c \<in> set ''_=+.-'') (sp_text s))"

text \<open>The loop over a bracketed endpoint: \<^verbatim>\<open>seen_scope\<close> and \<^verbatim>\<open>hostspan\<close>, the latter as its start
  and length.\<close>

function bracket_loop :: "string_span \<Rightarrow> bool \<Rightarrow> nat \<Rightarrow> nat \<Rightarrow> nat \<Rightarrow> bool" where
  "bracket_loop s seen_scope start len i =
     (if \<not> i < sp_len s then False
      else if sp_at s i = CHR ''%'' then
        (if seen_scope then False
         else if \<not> is_valid_ipv6 (span_of s start len) then False
         else bracket_loop s True (i + 1) 0 (i + 1))
      else if sp_at s i = CHR '']'' then
        (if (if seen_scope then \<not> is_valid_scope (span_of s start len)
             else \<not> is_valid_ipv6 (span_of s start len)) then False
         else if i = sp_len s - 1 \<or> sp_at s (i + 1) \<noteq> CHR '':'' then False
         else is_valid_port (span_of s (i + 2) (sp_len s - i - 2)))
      else bracket_loop s seen_scope start (len + 1) (i + 1))"
  by pat_completeness auto
termination
  by (relation "measure (\<lambda>(s, _, _, _, i). sp_len s - i)") auto

definition is_valid_endpoint :: "string_span \<Rightarrow> bool" where
  "is_valid_endpoint s =
     (if sp_len s = 0 then False
      else if sp_at s 0 = CHR ''['' then bracket_loop s False 1 0 1
      else case strchr (sp_text s) (CHR '':'') of
          Some i \<Rightarrow> is_valid_port (span_of s (i + 1) (sp_len s - i - 1)) \<and>
            (is_valid_ipv4 (span_of s 0 i) \<or> is_valid_hostname (span_of s 0 i))
        | None \<Rightarrow> False)"

definition is_valid_network :: "string_span \<Rightarrow> bool" where
  "is_valid_network s =
     (case strchr (sp_text s) (CHR ''/'') of
        Some i \<Rightarrow>
          let ip = span_of s 0 i; cidr = span_of s (i + 1) (sp_len s - i - 1) in
          if sp_len cidr > 3 \<or> sp_len cidr = 0 then False
          else if \<not> list_all is_decimal (sp_text cidr) then False
          else if is_valid_ipv4 ip then num_of 10 (sp_text cidr) \<le> 32
          else if is_valid_ipv6 ip then num_of 10 (sp_text cidr) \<le> 128
          else False
      | None \<Rightarrow> is_valid_ipv4 s \<or> is_valid_ipv6 s)"

declare ipv6_loop.simps [simp del] bracket_loop.simps [simp del]

section \<open>Characters\<close>

lemma or_32: "k OR 32 = (if odd (k div 32) then k else k + (32 :: int))"
proof -
  have "k OR 32 = set_bit 5 k" by (simp add: set_bit_eq_or)
  then show ?thesis by (simp add: set_bit_eq bit_iff_odd)
qed

lemma char_codeE:
  obtains n where "n < 256" "(of_char c :: nat) = n" "(of_char c :: int) = int n"
  using that [of "of_char c"] by (simp only: of_nat_of_char) simp

lemma is_decimal_iff: "is_decimal c \<longleftrightarrow> is_c_digit c"
  by (rule char_codeE [of c]) (auto simp: is_decimal_def is_c_digit_def char_ord_def Let_def)

lemma letter_range:
  fixes n :: int assumes "97 \<le> b" "b \<le> 122" "- 128 \<le> n" "n < 128"
  shows "97 \<le> (n OR 32) \<and> (n OR 32) \<le> b \<longleftrightarrow> 65 \<le> n \<and> n \<le> b - 32 \<or> 97 \<le> n \<and> n \<le> b"
proof -
  consider "n < 64" | "64 \<le> n" "n < 96" | "96 \<le> n" "n < 128" using assms by linarith
  then show ?thesis
  proof cases
    case 1
    have "n OR 32 \<le> 95" using 1 by (simp add: or_32)
    with 1 assms show ?thesis by linarith
  next
    case 2
    then have "n div 32 = 2" by simp
    with 2 assms show ?thesis by (auto simp: or_32)
  next
    case 3
    then have "n div 32 = 3" by simp
    with 3 assms show ?thesis by (auto simp: or_32)
  qed
qed

lemma char_ord_signed: "- 128 \<le> char_ord c" "char_ord c < 128"
  using of_char_int_range [of c] by (auto simp: char_ord_def Let_def)

lemma is_hexadecimal_iff: "is_hexadecimal c \<longleftrightarrow> is_digit_of 16 c"
proof -
  have "is_hexadecimal c \<longleftrightarrow> is_c_digit c \<or> 65 \<le> char_ord c \<and> char_ord c \<le> 70 \<or> 97 \<le> char_ord c \<and> char_ord c \<le> 102"
    unfolding is_hexadecimal_def is_decimal_iff
    using letter_range [OF _ _ char_ord_signed, of 102 c] by simp
  also have "\<dots> \<longleftrightarrow> is_digit_of 16 c"
    by (rule char_codeE [of c]) (auto simp: is_c_digit_def is_digit_of_def digit_val_def char_ord_def Let_def)
  finally show ?thesis .
qed

lemma base64_char: "is_decimal c \<or> is_alphabet c \<or> c = CHR ''/'' \<or> c = CHR ''+'' \<longleftrightarrow> digit_ok c"
proof -
  have ch: "c = d \<longleftrightarrow> (of_char c :: int) = of_char d" for d by (simp add: of_char_eq_iff)
  have "is_alphabet c \<longleftrightarrow> 65 \<le> char_ord c \<and> char_ord c \<le> 90 \<or> 97 \<le> char_ord c \<and> char_ord c \<le> 122"
    unfolding is_alphabet_def using letter_range [OF _ _ char_ord_signed, of 122 c] by simp
  then show ?thesis
    using of_char_int_range [of c]
    by (auto simp: ch is_decimal_def digit_ok_def base64_value_def char_ord_def Let_def)
qed

lemma last_char: "digit_ok c \<and> 4 dvd the (base64_value (of_char c)) \<longleftrightarrow> c \<in> set ''AEIMQUYcgkosw480''"
proof
  assume "c \<in> set ''AEIMQUYcgkosw480''"
  then show "digit_ok c \<and> 4 dvd the (base64_value (of_char c))"
    by (auto simp: digit_ok_def base64_value_def)
next
  assume a: "digit_ok c \<and> 4 dvd the (base64_value (of_char c))"
  then obtain v where v: "base64_value (of_char c) = Some v" "4 dvd v" by (auto simp: digit_ok_def)
  then have c: "base64_code v = of_char c" and b: "0 \<le> v" "v < 64" using base64_code_value [OF v(1)] by auto
  from v(2) obtain k where k: "v = 4 * k" by (auto elim: dvdE)
  with b have "k \<in> set [0..15]" by auto
  then have "k \<in> {0, 1, 2, 3, 4, 5, 6, 7, 8, 9, 10, 11, 12, 13, 14, 15}"
    by (simp only: upto_rec2 upto_rec1) (simp add: upto_rec1)
  then have "\<exists>d \<in> set ''AEIMQUYcgkosw480''. (of_char d :: int) = base64_code v"
    unfolding k by (elim insertE) (simp_all add: base64_code_def)
  with c show "c \<in> set ''AEIMQUYcgkosw480''" by (metis of_char_eq_iff)
qed

lemma last_group:
  assumes "digit_ok a" "digit_ok b" "digit_ok c"
  shows "split3 (decode_base64 [a, b, c, CHR ''A'']) ! 2 = 0 \<longleftrightarrow> 4 dvd the (base64_value (of_char c))"
proof -
  obtain v where v: "base64_value (of_char c) = Some v" "0 \<le> v" "v < 64"
    using assms(3) base64_code_value by (auto simp: digit_ok_def)
  have A: "decode_base64_digit (char_int CHR ''A'') = 0"
    by (simp add: decode_base64_digit_char base64_value_def)
  have c: "decode_base64_digit (char_int c) = word_of_int v" using v by (simp add: decode_base64_digit_char)
  have mask: "(255 :: i32) = mask 8" by (simp add: mask_eq_exp_minus_1)
  have "split3 (decode_base64 [a, b, c, CHR ''A'']) ! 2 = 0 \<longleftrightarrow> (\<forall>n < 8. \<not> bit (push_bit 6 (word_of_int v :: i32)) n)"
    by (simp add: split3_def decode_base64_4 A c bit_eq_iff bit_simps mask)
  also have "\<dots> \<longleftrightarrow> \<not> bit v 0 \<and> \<not> bit v 1"
  proof -
    have b: "bit (push_bit 6 (word_of_int v :: i32)) n \<longleftrightarrow> 6 \<le> n \<and> bit v (n - 6)" if "n < 8" for n
      using that by (auto simp: bit_simps)
    have n: "n < 8 \<and> 6 \<le> n \<longleftrightarrow> n = 6 \<or> n = 7" for n :: nat by auto
    have "(\<forall>n < 8. \<not> bit (push_bit 6 (word_of_int v :: i32)) n) \<longleftrightarrow> (\<forall>n. n < 8 \<and> 6 \<le> n \<longrightarrow> \<not> bit v (n - 6))"
      using b by blast
    also have "\<dots> \<longleftrightarrow> \<not> bit v 0 \<and> \<not> bit v 1" unfolding n by auto
    finally show ?thesis .
  qed
  also have "\<dots> \<longleftrightarrow> 4 dvd v" by (auto simp: bit_iff_odd) presburger+
  finally show ?thesis by (simp add: v)
qed


lemma all_lt_10_4: "(\<forall>i < 10. P (4 * i) \<and> P (4 * i + 1) \<and> P (4 * i + 2) \<and> P (4 * i + 3)) \<longleftrightarrow> (\<forall>j < 40. P (j::nat))"
proof
  assume a: "\<forall>i < 10. P (4 * i) \<and> P (4 * i + 1) \<and> P (4 * i + 2) \<and> P (4 * i + 3)"
  show "\<forall>j < 40. P j"
  proof (intro allI impI)
    fix j :: nat assume "j < 40"
    then have "j div 4 < 10" by simp
    moreover have "j = 4 * (j div 4) \<or> j = 4 * (j div 4) + 1 \<or> j = 4 * (j div 4) + 2 \<or> j = 4 * (j div 4) + 3"
      by presburger
    ultimately show "P j" using a by metis
  qed
qed auto

lemma key_from_base64_digits:
  "key_from_base64 s \<noteq> None \<longleftrightarrow>
     length s = 44 \<and> s ! 43 = CHR ''='' \<and> (\<forall>j < 42. digit_ok (s ! j)) \<and> s ! 42 \<in> set ''AEIMQUYcgkosw480''"
proof (cases "length s = 44")
  case True
  have g: "bit (decode_base64 (take 4 (drop (i * 4) s))) 31 \<longleftrightarrow>
      \<not> (digit_ok (s ! (4 * i)) \<and> digit_ok (s ! (4 * i + 1)) \<and> digit_ok (s ! (4 * i + 2)) \<and> digit_ok (s ! (4 * i + 3)))"
    if "i < 10" for i
  proof -
    have "take 4 (drop (i * 4) s) = [s ! (4 * i), s ! (4 * i + 1), s ! (4 * i + 2), s ! (4 * i + 3)]"
      using take_drop_4 [of i s] that True by (simp add: mult.commute)
    then show ?thesis by (simp only: decode_base64_sign)
  qed
  have "(\<forall>i < 10. \<not> bit (decode_base64 (take 4 (drop (i * 4) s))) 31) \<longleftrightarrow> (\<forall>j < 40. digit_ok (s ! j))"
    using g all_lt_10_4 [of "\<lambda>j. digit_ok (s ! j)"] by auto
  moreover have "(\<forall>j < 42. digit_ok (s ! j)) \<longleftrightarrow> (\<forall>j < 40. digit_ok (s ! j)) \<and> digit_ok (s ! 40) \<and> digit_ok (s ! 41)"
    by (simp add: eval_nat_numeral less_Suc_eq all_conj_distrib)
  ultimately show ?thesis
    using True last_group [of "s ! 40" "s ! 41" "s ! 42"] last_char [of "s ! 42"] digit_ok_A
    unfolding not_None_eq key_from_base64_iff decode_base64_sign by blast
next
  case False
  then show ?thesis by (auto simp: key_from_base64_iff)
qed

lemma sp_text_nth: "i < sp_len s \<Longrightarrow> sp_len s \<le> length (sp_s s) \<Longrightarrow> sp_text s ! i = sp_at s i"
  by (simp add: sp_text_def c_at_def)

lemma length_sp_text: "sp_len s \<le> length (sp_s s) \<Longrightarrow> length (sp_text s) = sp_len s"
  by (simp add: sp_text_def)

lemma is_valid_key_iff:
  assumes "sp_len s \<le> length (sp_s s)"
  shows "is_valid_key s \<longleftrightarrow> key_from_base64 (sp_text s) \<noteq> None"
proof (cases "sp_len s = 44")
  case True
  have "sp_at s j = sp_text s ! j" if "j < 44" for j using sp_text_nth [of j s] assms True that by simp
  then show ?thesis
    using True length_sp_text [OF assms] unfolding key_from_base64_digits is_valid_key_def
    by (simp add: base64_char list_all_iff) auto
next
  case False
  with length_sp_text [OF assms] show ?thesis unfolding key_from_base64_digits is_valid_key_def by simp
qed


section \<open>Numbers\<close>

lemma u32_less_small:
  assumes "- 256 \<le> k" "k < 256" "0 \<le> b" "b < 256"
  shows "(word_of_int k :: i32) < word_of_int b \<longleftrightarrow> 0 \<le> k \<and> k < b"
proof -
  have b: "b mod 4294967296 = b" using assms by simp
  have k: "k mod 4294967296 = (if k < 0 then k + 4294967296 else k)"
  proof (cases "k < 0")
    case True
    have "k mod 4294967296 = (k + 4294967296) mod 4294967296" by simp
    also have "\<dots> = k + 4294967296" using True assms by (intro mod_pos_pos_trivial) simp_all
    finally show ?thesis using True by simp
  qed (use assms in simp)
  show ?thesis using assms by (simp add: word_less_alt uint_word_of_int b k)
qed

lemma scast_small: "- 256 \<le> k \<Longrightarrow> k < 256 \<Longrightarrow> (scast (word_of_int k :: i32) :: u64) = word_of_int k"
  by (simp add: signed_of_int signed_take_bit_int_eq_self)

lemma digit_val_decimal: "is_decimal c \<Longrightarrow> int (digit_val c) = char_ord c - 48"
  by (rule char_codeE [of c]) (auto simp: is_decimal_def digit_val_def char_ord_def Let_def split: if_splits)

lemma digit_val_letter:
  "97 \<le> (char_ord c OR 32) \<Longrightarrow> (char_ord c OR 32) \<le> 102 \<Longrightarrow> int (digit_val c) = (char_ord c OR 32) - 97 + 10"
proof -
  assume a: "97 \<le> (char_ord c OR 32)" "(char_ord c OR 32) \<le> 102"
  then have "65 \<le> char_ord c \<and> char_ord c \<le> 70 \<or> 97 \<le> char_ord c \<and> char_ord c \<le> 102"
    using letter_range [OF _ _ char_ord_signed, of 102 c] by simp
  then have "65 \<le> char_ord c \<and> char_ord c \<le> 70 \<and> (char_ord c OR 32) = char_ord c + 32 \<or>
      97 \<le> char_ord c \<and> char_ord c \<le> 102 \<and> (char_ord c OR 32) = char_ord c"
    by (auto simp: or_32) presburger+
  then show ?thesis
    by (rule_tac char_codeE [of c]) (auto simp: digit_val_def char_ord_def Let_def split: if_splits)
qed

lemma uint_dec_loop_eq:
  "uint_dec_loop cs val =
     (if list_all (is_digit_of 10) cs then Some (foldl (\<lambda>v c. v * 10 + of_nat (digit_val c)) val cs) else None)"
proof (induction cs arbitrary: val)
  case (Cons c cs)
  have d: "10 * val + scast (char_int c) - 48 = val * 10 + (of_nat (digit_val c) :: u64)" if "is_decimal c"
  proof -
    have "(of_nat (digit_val c) :: u64) = word_of_int (char_ord c - 48)"
      by (simp only: digit_val_decimal [OF that, symmetric] of_int_of_nat_eq)
    then show ?thesis using char_ord_signed [of c] by (simp add: char_int_eq scast_small)
  qed
  have "uint_dec_loop (c # cs) val =
      (if is_decimal c then uint_dec_loop cs (val * 10 + of_nat (digit_val c)) else None)"
    by (cases "is_decimal c")
      (simp_all only: uint_dec_loop.simps d not_True_eq_False not_False_eq_True if_True if_False)
  then show ?case using Cons.IH by (simp add: is_decimal_iff is_c_digit_iff)
qed simp

lemma uint_hex_loop_eq:
  "uint_hex_loop cs val =
     (if list_all (is_digit_of 16) cs then Some (foldl (\<lambda>v c. v * 16 + of_nat (digit_val c)) val cs) else None)"
proof (induction cs arbitrary: val)
  case (Cons c cs)
  note r = char_ord_signed [of c]
  have o: "- 128 \<le> (char_ord c OR 32)" "(char_ord c OR 32) < 160" using r by (auto simp: or_32)
  have d: "char_int c - 48 < 10 \<longleftrightarrow> is_decimal c"
    using u32_less_small [of "char_ord c - 48" 10] r by (auto simp: char_int_eq is_decimal_def)
  have w32: "char_int c OR 32 = word_of_int (char_ord c OR 32)" by (simp add: char_int_eq bit_eq_iff bit_simps)
  have h: "(char_int c OR 32) - 97 < 6 \<longleftrightarrow> 97 \<le> (char_ord c OR 32) \<and> (char_ord c OR 32) \<le> 102"
    using u32_less_small [of "(char_ord c OR 32) - 97" 6] o by (simp add: w32) linarith
  have dv: "16 * val + (scast (char_int c) - 48) = val * 16 + (of_nat (digit_val c) :: u64)" if "is_decimal c"
  proof -
    have "(of_nat (digit_val c) :: u64) = word_of_int (char_ord c - 48)"
      by (simp only: digit_val_decimal [OF that, symmetric] of_int_of_nat_eq)
    then show ?thesis using r by (simp add: char_int_eq scast_small)
  qed
  have hv: "16 * val + scast (char_int c OR 32) - 97 + 10 = val * 16 + (of_nat (digit_val c) :: u64)"
    if "97 \<le> (char_ord c OR 32)" "(char_ord c OR 32) \<le> 102"
  proof -
    have "(of_nat (digit_val c) :: u64) = word_of_int ((char_ord c OR 32) - 97 + 10)"
      by (simp only: digit_val_letter [OF that, symmetric] of_int_of_nat_eq)
    then show ?thesis using o by (simp add: w32 scast_small)
  qed
  show ?case
    using Cons.IH is_hexadecimal_iff [of c] by (auto simp: d h dv hv is_hexadecimal_def)
qed simp


lemma foldl_of_nat:
  "foldl (\<lambda>v c. v * of_nat b + of_nat (digit_val c)) (of_nat n :: u64) cs = of_nat (foldl (\<lambda>n c. n * b + digit_val c) n cs)"
  by (induction cs arbitrary: n) (simp_all flip: of_nat_mult of_nat_add)

lemma num_of_less: "list_all (is_digit_of b) ds \<Longrightarrow> num_of b ds < b ^ length ds"
proof (induction ds rule: rev_induct)
  case (snoc c ds)
  then have "num_of b ds + 1 \<le> b ^ length ds" "digit_val c < b" by (auto simp: is_digit_of_def)
  then have "num_of b ds * b + digit_val c < (num_of b ds + 1) * b" by simp
  also have "\<dots> \<le> b ^ length ds * b" using \<open>num_of b ds + 1 \<le> b ^ length ds\<close> by (rule mult_le_mono1)
  finally show ?case by (simp add: num_of_snoc mult.commute)
qed (simp add: num_of_def)

lemma loop_value:
  assumes "list_all (is_digit_of b) ds" "length ds \<le> 10" "b \<le> 16"
  shows "unat (foldl (\<lambda>v c. v * of_nat b + of_nat (digit_val c)) (0 :: u64) ds) = num_of b ds"
proof -
  have "num_of b ds < b ^ length ds" by (rule num_of_less [OF assms(1)])
  also have "\<dots> \<le> 16 ^ length ds" by (rule power_mono [OF assms(3)]) simp
  also have "\<dots> \<le> 16 ^ 10" by (rule power_increasing [OF assms(2)]) simp
  finally have "num_of b ds < 2 ^ 64" by simp
  with foldl_of_nat [of b 0 ds] show ?thesis
    by (simp add: num_of_def unsigned_of_nat take_bit_eq_mod)
qed

text \<open>The number check in terms of the characters: it never overflows, because ten digits fit.\<close>

lemma is_valid_uint_dec:
  assumes "sp_len s \<le> length (sp_s s)"
  shows "is_valid_uint s False mn mx \<longleftrightarrow>
    is_number 10 (sp_text s) \<and> sp_len s \<le> 10 \<and> unat mn \<le> num_of 10 (sp_text s) \<and> num_of 10 (sp_text s) \<le> unat mx"
  using loop_value [of 10 "sp_text s"] length_sp_text [OF assms]
  by (auto simp: is_valid_uint_def uint_dec_loop_eq is_number_def word_le_nat_alt)

lemma is_valid_uint_hex:
  assumes "sp_len s \<le> length (sp_s s)" "sp_text s = ''0x'' @ ds" "ds \<noteq> []"
  shows "is_valid_uint s True mn mx \<longleftrightarrow>
    is_number 16 ds \<and> length ds \<le> 8 \<and> unat mn \<le> num_of 16 ds \<and> num_of 16 ds \<le> unat mx"
proof -
  have len: "sp_len s = length ds + 2" using length_sp_text [OF assms(1)] assms(2) by simp
  have "sp_at s 0 = CHR ''0''" "sp_at s 1 = CHR ''x''"
    using sp_text_nth [of 0 s] sp_text_nth [of 1 s] assms(1,2) len by auto
  then show ?thesis
    using loop_value [of 16 ds] assms(3) unfolding is_valid_uint_def
    by (auto simp: len assms(2) uint_hex_loop_eq is_number_def word_le_nat_alt)
qed

lemma is_valid_uint_no_prefix:
  assumes "sp_len s \<le> length (sp_s s)" "\<not> (\<exists>ds. sp_text s = ''0x'' @ ds \<and> ds \<noteq> [])"
  shows "is_valid_uint s True mn mx = is_valid_uint s False mn mx"
proof -
  have "\<not> (sp_len s > 2 \<and> sp_at s 0 = CHR ''0'' \<and> sp_at s 1 = CHR ''x'')"
  proof
    assume a: "sp_len s > 2 \<and> sp_at s 0 = CHR ''0'' \<and> sp_at s 1 = CHR ''x''"
    then have "length (sp_text s) > 2" using length_sp_text [OF assms(1)] by simp
    then obtain a b c r where "sp_text s = a # b # c # r"
      by (cases "sp_text s"; cases "tl (sp_text s)"; cases "tl (tl (sp_text s))") auto
    with a sp_text_nth [of 0 s] sp_text_nth [of 1 s] assms show False by auto
  qed
  then show ?thesis by (auto simp: is_valid_uint_def)
qed

lemma is_same_iff: "sp_len s \<le> length (sp_s s) \<Longrightarrow> is_same s c \<longleftrightarrow> sp_text s = c"
  using length_sp_text [of s] by (auto simp: is_same_def)

lemma fwmark_highlight:
  assumes "sp_len s \<le> length (sp_s s)"
  shows "is_valid_fwmark s \<longleftrightarrow>
    (\<exists>m flags'. parse_fwmark flags (sp_text s) = Ok (m, flags')) \<and> sp_len s \<le> 10 \<and>
    (strcaseeq (sp_text s) ''off'' \<longrightarrow> sp_text s = ''off'')"
proof (cases "\<exists>ds. sp_text s = ''0x'' @ ds \<and> ds \<noteq> []")
  case True
  then obtain ds where ds: "sp_text s = ''0x'' @ ds" "ds \<noteq> []" by blast
  have "\<not> strcaseeq (sp_text s) ''off''" "\<not> is_number 10 (sp_text s)"
    by (simp_all add: ds strcaseeq_def c_tolower_def is_number_def is_digit_of_def digit_val_def)
  moreover have "sp_len s = length ds + 2" using length_sp_text [OF assms] ds by simp
  ultimately show ?thesis
    using is_valid_uint_hex [OF assms ds, of 0 4294967295]
    by (auto simp: is_valid_fwmark_def is_same_iff [OF assms] parse_fwmark_iff ds)
next
  case False
  then have "\<not> (\<exists>ds. sp_text s = ''0x'' @ ds \<and> is_number 16 ds)" by (auto simp: is_number_def)
  moreover have "\<not> (strcaseeq (sp_text s) ''off'' \<and> is_number 10 (sp_text s))"
    using digit_not_off [of "sp_text s"] by (auto simp: is_number_iff_first is_c_digit_iff)
  ultimately show ?thesis
    using is_valid_uint_dec [OF assms, of 0 4294967295] is_valid_uint_no_prefix [OF assms False] length_sp_text [OF assms]
    by (auto simp: is_valid_fwmark_def is_same_iff [OF assms] parse_fwmark_iff)
qed

lemma keepalive_highlight:
  assumes "sp_len s \<le> length (sp_s s)"
  shows "is_valid_persistentkeepalive s \<longleftrightarrow>
    (\<exists>k flags'. parse_persistent_keepalive flags (sp_text s) = Ok (k, flags')) \<and> sp_len s \<le> 10 \<and>
    (strcaseeq (sp_text s) ''off'' \<longrightarrow> sp_text s = ''off'')"
proof -
  have "\<not> (strcaseeq (sp_text s) ''off'' \<and> is_number 10 (sp_text s))"
    using digit_not_off [of "sp_text s"] by (auto simp: is_number_iff_first is_c_digit_iff)
  then show ?thesis
    using is_valid_uint_dec [OF assms, of 0 65535] length_sp_text [OF assms]
    by (auto simp: is_valid_persistentkeepalive_def is_same_iff [OF assms] parse_persistent_keepalive_iff)
qed


section \<open>Addresses and names\<close>

lemma digit_char_digit_val: "is_digit_of 10 c \<Longrightarrow> digit_char (digit_val c) = c"
  by (rule char_codeE [of c])
    (auto simp: is_digit_of_def digit_val_def digit_char_def Let_def of_char_eq_iff split: if_splits)

lemma udec_hd: "0 < n \<longrightarrow> hd (udec n) \<noteq> CHR ''0''"
proof -
  have "2 \<le> (10 :: nat)" by simp
  then show ?thesis
  proof (induction n rule: print_num_induct)
    case (small n)
    then show ?case
      by (cases "n = 0") (simp_all add: print_num_small digit_char_def char_of_eq_iff take_bit_eq_mod)
  next
    case (step n)
    then show ?case by (simp add: print_num_step)
  qed
qed

lemma udec_num_of:
  "is_number 10 ds \<Longrightarrow> length ds = 1 \<or> hd ds \<noteq> CHR ''0'' \<Longrightarrow> udec (num_of 10 ds) = ds"
proof (induction ds rule: rev_induct)
  case (snoc c ds)
  then have c: "is_digit_of 10 c" "digit_val c < 10" by (simp_all add: is_number_def is_digit_of_def)
  show ?case
  proof (cases "ds = []")
    case True
    with c show ?thesis by (simp add: num_of_def print_num_small digit_char_digit_val)
  next
    case False
    with snoc.prems have h: "hd ds \<noteq> CHR ''0''" "is_number 10 ds" by (auto simp: is_number_def)
    with snoc.IH have u: "udec (num_of 10 ds) = ds" by simp
    have "num_of 10 ds \<noteq> 0"
    proof
      assume "num_of 10 ds = 0"
      with u have "ds = udec 0" by simp
      with h(1) show False by (simp add: print_num_small digit_char_def char_of_eq_iff)
    qed
    then show ?thesis using c u by (simp add: num_of_snoc print_num_step digit_char_digit_val)
  qed
qed (simp add: is_number_def)

text \<open>One number of a dotted address: the digits that the loop takes are those of a byte in canonical form.\<close>

lemma byte_digits:
  "is_number 10 ds \<and> length ds \<le> 3 \<and> \<not> (length ds > 1 \<and> hd ds = CHR ''0'') \<and> num_of 10 ds \<le> 255 \<longleftrightarrow>
     (\<exists>v \<le> 255. ds = udec v)"
proof
  assume a: "is_number 10 ds \<and> length ds \<le> 3 \<and> \<not> (length ds > 1 \<and> hd ds = CHR ''0'') \<and> num_of 10 ds \<le> 255"
  then have "length ds = 1 \<or> hd ds \<noteq> CHR ''0''" by (cases ds) (auto simp: is_number_def)
  with a udec_num_of [of ds] show "\<exists>v \<le> 255. ds = udec v" by metis
next
  assume "\<exists>v \<le> 255. ds = udec v"
  then obtain v where v: "v \<le> 255" "ds = udec v" by blast
  have "length (udec v) \<le> 3"
  proof -
    have "v div 10 div 10 < 10" using v by simp
    then show ?thesis
      by (cases "v < 10"; cases "v div 10 < 10") (simp_all add: print_num_small print_num_step)
  qed
  moreover have "hd (udec v) \<noteq> CHR ''0''" if "length (udec v) > 1"
    using that udec_hd [of v] by (cases "v = 0") (simp_all add: print_num_small)
  ultimately show "is_number 10 ds \<and> length ds \<le> 3 \<and> \<not> (length ds > 1 \<and> hd ds = CHR ''0'') \<and> num_of 10 ds \<le> 255"
    using v udec_is_number num_of_print_num [of 10 v] by auto
qed

fun dotted :: "nat \<Rightarrow> string \<Rightarrow> bool" where
  "dotted 0 t = False"
| "dotted (Suc 0) t = (\<exists>v \<le> 255. t = udec v)"
| "dotted (Suc n) t = (\<exists>v \<le> 255. \<exists>r. t = udec v @ CHR ''.'' # r \<and> dotted n r)"

lemma dotted_nonempty: "dotted n t \<Longrightarrow> t \<noteq> []"
  by (cases "(n, t)" rule: dotted.cases) (auto intro: print_num_nonempty simp: not_sym [OF print_num_nonempty])

lemma take_digits:
  assumes "v \<le> 255" "\<And>c r. rest = c # r \<Longrightarrow> \<not> is_decimal c"
  shows "takeWhile is_decimal (take 3 (udec v @ rest)) = udec v"
proof -
  have len: "length (udec v) \<le> 3" using byte_digits [of "udec v"] assms(1) by blast
  have "takeWhile is_decimal (take 3 (udec v @ rest)) = udec v @ takeWhile is_decimal (take (3 - length (udec v)) rest)"
    using len print_num_digits [of 10 v]
    by (simp add: takeWhile_append2 list_all_iff is_decimal_iff is_c_digit_iff)
  also have "takeWhile is_decimal (take (3 - length (udec v)) rest) = []"
    using assms(2) by (cases rest; cases "3 - length (udec v)") auto
  finally show ?thesis by simp
qed

lemma dotted_step:
  "dotted (Suc n) t \<longleftrightarrow>
     (let ds = takeWhile is_decimal (take 3 t); r = drop (length ds) t in
      (\<exists>v \<le> 255. ds = udec v) \<and>
      (if n = 0 then r = [] else \<exists>r'. r = CHR ''.'' # r' \<and> dotted n r'))"
proof -
  have dot: "\<not> is_decimal CHR ''.''" by (simp add: is_decimal_def char_ord_def)
  let ?ds = "takeWhile is_decimal (take 3 t)"
  have split: "t = ?ds @ drop (length ?ds) t"
    by (metis append_eq_conv_conj append_take_drop_id takeWhile_dropWhile_id append.assoc)
  show ?thesis
  proof (cases n)
    case 0
    show ?thesis using take_digits [of _ "[]"] split by (auto simp: 0 Let_def)
  next
    case (Suc m)
    have "takeWhile is_decimal (take 3 (udec v @ CHR ''.'' # r)) = udec v" if "v \<le> 255" for v r
      using take_digits [OF that, of "CHR ''.'' # r"] dot by simp
    then show ?thesis using split by (auto simp: Suc Let_def)
  qed
qed

lemma ipv4_loop_dotted:
  assumes "sp_len s \<le> length (sp_s s)"
  shows "ipv4_loop s pos n \<longleftrightarrow> pos < sp_len s \<and> dotted n (drop pos (sp_text s))"
proof (induction n arbitrary: pos)
  case (Suc n)
  show ?case
  proof (cases "pos < sp_len s")
    case True
    define ds where "ds = takeWhile is_decimal (take 3 (drop pos (sp_text s)))"
    note len = length_sp_text [OF assms]
    have r: "run_of is_decimal 3 s pos = ds" by (simp add: run_of_def ds_def)
    have num: "list_all (is_digit_of 10) ds"
      unfolding ds_def by (auto simp: list_all_iff is_decimal_iff is_c_digit_iff dest: set_takeWhileD)
    have dsn: "length ds \<le> 3" "pos + length ds \<le> sp_len s"
      using length_takeWhile_le [of is_decimal "take 3 (drop pos (sp_text s))"] len True by (auto simp: ds_def)
    have hd: "hd ds = sp_at s pos" if "ds \<noteq> []"
    proof -
      have "drop pos (sp_text s) = sp_text s ! pos # drop (Suc pos) (sp_text s)"
        using True len by (simp add: Cons_nth_drop_Suc)
      with that sp_text_nth [OF True assms] show ?thesis by (auto simp: ds_def take_Cons' split: if_splits)
    qed
    have val: "(\<exists>v \<le> 255. ds = udec v) \<longleftrightarrow>
        \<not> (length ds = 0 \<or> length ds > 1 \<and> sp_at s pos = CHR ''0'' \<or> num_of 10 ds > 255)"
      unfolding byte_digits [symmetric] using num hd dsn(1) by (auto simp: is_number_def)
    have dot: "(\<exists>r'. drop (pos + length ds) (sp_text s) = CHR ''.'' # r' \<and> P r') \<longleftrightarrow>
        sp_at s (pos + length ds) = CHR ''.'' \<and> pos + length ds < sp_len s \<and> P (drop (pos + length ds + 1) (sp_text s))" for P
    proof (cases "pos + length ds < sp_len s")
      case True
      then have "drop (pos + length ds) (sp_text s) = sp_at s (pos + length ds) # drop (pos + length ds + 1) (sp_text s)"
        using len sp_text_nth [OF True assms] Cons_nth_drop_Suc [of "pos + length ds" "sp_text s"] by simp
      with True show ?thesis by auto
    qed (use len in simp)
    have step: "ipv4_loop s pos (Suc n) \<longleftrightarrow> (\<exists>v \<le> 255. ds = udec v) \<and>
        (pos + length ds = sp_len s \<and> n = 0 \<or>
         sp_at s (pos + length ds) = CHR ''.'' \<and> ipv4_loop s (pos + length ds + 1) n)"
      unfolding val using True by (auto simp: r Let_def)
    have spec: "dotted (Suc n) (drop pos (sp_text s)) \<longleftrightarrow> (\<exists>v \<le> 255. ds = udec v) \<and>
        (if n = 0 then drop (pos + length ds) (sp_text s) = []
         else \<exists>r'. drop (pos + length ds) (sp_text s) = CHR ''.'' # r' \<and> dotted n r')"
      unfolding dotted_step Let_def ds_def [symmetric] by (simp add: add.commute)
    have nonempty: "dotted n (drop (pos + length ds + 1) (sp_text s)) \<Longrightarrow> pos + length ds + 1 < sp_len s"
      using dotted_nonempty len by (metis drop_all not_le)
    show ?thesis
      unfolding step spec dot Suc.IH using True nonempty dsn(2) len by auto
  qed simp
qed simp


lemma dotted4E:
  assumes "dotted (Suc (Suc (Suc (Suc 0)))) t"
  obtains a b c d where "a \<le> 255" "b \<le> 255" "c \<le> 255" "d \<le> 255"
    "t = udec a @ ''.'' @ udec b @ ''.'' @ udec c @ ''.'' @ udec d"
proof -
  from assms obtain a r where a: "a \<le> 255" "t = udec a @ CHR ''.'' # r" "dotted (Suc (Suc (Suc 0))) r"
    unfolding dotted.simps by blast
  then obtain b r' where b: "b \<le> 255" "r = udec b @ CHR ''.'' # r'" "dotted (Suc (Suc 0)) r'"
    unfolding dotted.simps by blast
  then obtain c d where "c \<le> 255" "d \<le> 255" "r' = udec c @ CHR ''.'' # udec d"
    unfolding dotted.simps by blast
  with a b show ?thesis by (intro that [of a b c d]) simp_all
qed

lemma is_valid_ipv4_dotted:
  assumes "sp_len s \<le> length (sp_s s)"
  shows "is_valid_ipv4 s \<longleftrightarrow>
    (\<exists>a \<le> 255. \<exists>b \<le> 255. \<exists>c \<le> 255. \<exists>d \<le> 255.
      sp_text s = udec a @ ''.'' @ udec b @ ''.'' @ udec c @ ''.'' @ udec d)"
    (is "_ \<longleftrightarrow> ?dotted")
proof -
  have "is_valid_ipv4 s \<longleftrightarrow> dotted 4 (sp_text s)"
    using ipv4_loop_dotted [OF assms, of 0 4] dotted_nonempty length_sp_text [OF assms]
    by (auto simp: is_valid_ipv4_def)
  also have "(4 :: nat) = Suc (Suc (Suc (Suc 0)))" by simp
  also have "dotted \<dots> (sp_text s) \<longleftrightarrow> ?dotted"
  proof
    assume "dotted (Suc (Suc (Suc (Suc 0)))) (sp_text s)"
    then show ?dotted by (elim dotted4E) (rule exI conjI | assumption)+
  qed force
  finally show ?thesis .
qed

lemma hostname_loop_iff:
  assumes "num_digit \<le> num_entity" "length cs \<le> num_entity - num_digit"
  shows "hostname_loop cs num_digit num_entity \<longleftrightarrow>
    list_all (\<lambda>c. is_decimal c \<or> is_alphabet c \<or> c = CHR ''-'' \<or> c = CHR ''.'') cs \<and>
    num_digit + length (filter is_decimal cs) \<noteq> num_entity - length (filter (\<lambda>c. c = CHR ''.'') cs)"
  using assms
proof (induction cs arbitrary: num_digit num_entity)
  case (Cons c cs)
  have dot: "\<not> is_decimal CHR ''.''" by (simp add: is_decimal_def char_ord_def)
  consider "is_decimal c" | "c = CHR ''.''" | "\<not> is_decimal c" "c \<noteq> CHR ''.''" by blast
  then show ?case
  proof cases
    case 1
    with Cons.IH [of "num_digit + 1" num_entity] Cons.prems dot show ?thesis by auto
  next
    case 2
    with Cons.IH [of num_digit "num_entity - 1"] Cons.prems dot show ?thesis by auto
  next
    case 3
    with Cons.IH [of num_digit num_entity] Cons.prems show ?thesis by auto
  qed
qed simp

lemma is_valid_hostname_iff:
  assumes "sp_len s \<le> length (sp_s s)"
  shows "is_valid_hostname s \<longleftrightarrow>
    sp_text s \<noteq> [] \<and> length (sp_text s) \<le> 63 \<and>
    hd (sp_text s) \<notin> {CHR ''-'', CHR ''.''} \<and> last (sp_text s) \<notin> {CHR ''-'', CHR ''.''} \<and>
    list_all (\<lambda>c. is_decimal c \<or> is_alphabet c \<or> c = CHR ''-'' \<or> c = CHR ''.'') (sp_text s) \<and>
    list_ex (\<lambda>c. \<not> is_decimal c \<and> c \<noteq> CHR ''.'') (sp_text s)"
proof (cases "sp_len s = 0")
  case True
  then show ?thesis by (simp add: is_valid_hostname_def sp_text_def)
next
  case False
  let ?t = "sp_text s"
  note len = length_sp_text [OF assms]
  have ends: "hd ?t = sp_at s 0" "last ?t = sp_at s (sp_len s - 1)" "?t \<noteq> []"
    using False len sp_text_nth [of 0 s] sp_text_nth [of "sp_len s - 1" s] assms
      hd_conv_nth [of ?t] last_conv_nth [of ?t] by fastforce+
  have dot: "\<not> is_decimal CHR ''.''" by (simp add: is_decimal_def char_ord_def)
  have "length (filter is_decimal cs) + length (filter (\<lambda>c. c = CHR ''.'') cs) +
      length (filter (\<lambda>c. \<not> is_decimal c \<and> c \<noteq> CHR ''.'') cs) = length cs" for cs
    using dot by (induction cs) auto
  from this [of ?t]
  have "length (filter is_decimal ?t) \<noteq> length ?t - length (filter (\<lambda>c. c = CHR ''.'') ?t) \<longleftrightarrow>
      length (filter (\<lambda>c. \<not> is_decimal c \<and> c \<noteq> CHR ''.'') ?t) \<noteq> 0" by linarith
  also have "\<dots> \<longleftrightarrow> list_ex (\<lambda>c. \<not> is_decimal c \<and> c \<noteq> CHR ''.'') ?t"
    by (simp add: filter_empty_conv list_ex_iff)
  finally show ?thesis
    using hostname_loop_iff [of 0 "sp_len s" ?t] ends len False by (auto simp: is_valid_hostname_def)
qed

text \<open>The comparison of names.\<close>

lemma upcase_code:
  "(of_char (upcase c) :: nat) = (if 97 \<le> (of_char c :: nat) \<and> (of_char c :: nat) \<le> 122 then of_char c - 32 else of_char c)"
proof (rule char_codeE [of c])
  fix n assume n: "n < 256" "(of_char c :: nat) = n" "(of_char c :: int) = int n"
  have k: "char_ord c = (if n < 128 then int n else int n - 256)" using n by (simp add: char_ord_def)
  have "char_int c - 97 < 26 \<longleftrightarrow> 0 \<le> char_ord c - 97 \<and> char_ord c - 97 < 26"
    using u32_less_small [of "char_ord c - 97" 26] char_ord_signed [of c] by (simp add: char_int_eq)
  also have "\<dots> \<longleftrightarrow> 97 \<le> n \<and> n \<le> 122" using n(1) by (auto simp: k)
  finally have cond: "char_int c - 97 < 26 \<longleftrightarrow> 97 \<le> n \<and> n \<le> 122" .
  have "unat (char_byte c AND 95) = n - 32" if r: "97 \<le> n" "n \<le> 122"
  proof -
    have "unat (char_byte c AND 95) = n AND 95"
      using n by (simp add: unsigned_and_eq unat_char_byte)
    moreover have "n AND 95 = n - 32"
    proof -
      have "\<forall>n \<in> set [97..<123]. n AND 95 = n - (32 :: nat)" by simp
      moreover have "n \<in> set [97..<123]" using r by (simp del: upt_rec_numeral)
      ultimately show ?thesis by blast
    qed
    ultimately show ?thesis by simp
  qed
  with n show ?thesis by (auto simp: upcase_def cond byte_char_def)
qed

lemma upcase_tolower: "upcase a = upcase b \<longleftrightarrow> c_tolower a = c_tolower b"
proof -
  define n m where "n = (of_char a :: nat)" and "m = (of_char b :: nat)"
  have "upcase a = upcase b \<longleftrightarrow> (of_char (upcase a) :: nat) = of_char (upcase b)" by (simp only: of_char_eq_iff)
  also have "\<dots> \<longleftrightarrow> (of_char (c_tolower a) :: nat) = of_char (c_tolower b)"
    unfolding upcase_code of_char_c_tolower n_def [symmetric] m_def [symmetric] by auto
  finally show ?thesis by (simp only: of_char_eq_iff)
qed

lemma caseless_loop_iff: "length a = length b \<Longrightarrow> caseless_loop a b \<longleftrightarrow> strcaseeq a b"
  by (induction a b rule: list_induct2) (auto simp: strcaseeq_def upcase_tolower)

lemma is_caseless_same_iff:
  assumes "sp_len s \<le> length (sp_s s)"
  shows "is_caseless_same s c \<longleftrightarrow> strcaseeq (sp_text s) c"
proof (cases "length c = sp_len s")
  case True
  have "strcaseeq c (sp_text s) \<longleftrightarrow> strcaseeq (sp_text s) c" unfolding strcaseeq_def by (rule eq_commute)
  with True caseless_loop_iff [of c "sp_text s"] length_sp_text [OF assms] show ?thesis
    by (simp add: is_caseless_same_def)
next
  case False
  with strcaseeq_length [of "sp_text s" c] length_sp_text [OF assms] show ?thesis
    by (auto simp: is_caseless_same_def)
qed


section \<open>Properties\<close>

text \<open>C29. The editor marks a value as a valid key exactly when the configuration reader decodes it as
  one: the character checks of the highlighter and the branch-free decoder accept the same texts.\<close>

theorem highlighted_keys_decode:
  assumes "sp_len s \<le> length (sp_s s)"
  shows "is_valid_key s \<longleftrightarrow> (\<exists>key. key_from_base64 (sp_text s) = Some key)"
  using is_valid_key_iff [OF assms] by simp

theorem highlighted_keys_decode_witness:
  "\<exists>key. key_from_base64 ''yAnz5TF+lXXJte14tji3zlMNq+hd2rYUIgJBgB3fBmk='' = Some key"
proof -
  let ?s = "\<lparr>sp_s = ''yAnz5TF+lXXJte14tji3zlMNq+hd2rYUIgJBgB3fBmk= # key'', sp_len = 44\<rparr>"
  have "is_valid_key ?s" by code_simp
  moreover have "sp_text ?s = ''yAnz5TF+lXXJte14tji3zlMNq+hd2rYUIgJBgB3fBmk=''" by (simp add: sp_text_def)
  ultimately show ?thesis using highlighted_keys_decode [of ?s] by simp
qed

text \<open>The editor marks a firewall mark or a keepalive interval as valid exactly when the configuration
  reader accepts it, it has at most ten characters, and the word for none is written in lower case; the
  64-bit accumulation of the digits never overflows.\<close>

theorem highlighted_numbers_parse:
  assumes "sp_len s \<le> length (sp_s s)"
  shows "(is_valid_fwmark s \<longleftrightarrow>
      (\<exists>m f. parse_fwmark flags (sp_text s) = Ok (m, f)) \<and>
      sp_len s \<le> 10 \<and> (strcaseeq (sp_text s) ''off'' \<longrightarrow> sp_text s = ''off'')) \<and>
    (is_valid_persistentkeepalive s \<longleftrightarrow>
      (\<exists>k f. parse_persistent_keepalive flags (sp_text s) = Ok (k, f)) \<and>
      sp_len s \<le> 10 \<and> (strcaseeq (sp_text s) ''off'' \<longrightarrow> sp_text s = ''off''))"
  using fwmark_highlight [OF assms] keepalive_highlight [OF assms] by blast

theorem highlighted_numbers_parse_witness:
  "is_valid_fwmark \<lparr>sp_s = ''0xca6c'', sp_len = 6\<rparr> \<and> (\<exists>m f. parse_fwmark 0 ''0xca6c'' = Ok (m, f))"
proof -
  let ?s = "\<lparr>sp_s = ''0xca6c'', sp_len = 6\<rparr>"
  have "is_valid_fwmark ?s" by code_simp
  then show ?thesis using highlighted_numbers_parse [of ?s 0] by (simp add: sp_text_def)
qed

text \<open>A span is marked as an IPv4 address exactly when it is four numbers up to 255 in canonical
  decimal notation, without leading zeros, with dots between them.\<close>

theorem ipv4_is_dotted_quad:
  assumes "sp_len s \<le> length (sp_s s)"
  shows "is_valid_ipv4 s \<longleftrightarrow>
    (\<exists>a \<le> 255. \<exists>b \<le> 255. \<exists>c \<le> 255. \<exists>d \<le> 255.
      sp_text s = udec a @ ''.'' @ udec b @ ''.'' @ udec c @ ''.'' @ udec d)"
  by (rule is_valid_ipv4_dotted [OF assms])

theorem ipv4_is_dotted_quad_witness:
  "is_valid_ipv4 \<lparr>sp_s = ''10.0.200.1/24'', sp_len = 10\<rparr> \<and>
   (\<exists>a \<le> 255. \<exists>b \<le> 255. \<exists>c \<le> 255. \<exists>d \<le> 255.
      ''10.0.200.1'' = udec a @ ''.'' @ udec b @ ''.'' @ udec c @ ''.'' @ udec d)"
proof -
  let ?s = "\<lparr>sp_s = ''10.0.200.1/24'', sp_len = 10\<rparr>"
  have "is_valid_ipv4 ?s" by code_simp
  then show ?thesis using ipv4_is_dotted_quad [of ?s] by (simp add: sp_text_def)
qed

text \<open>A span is marked as a host name exactly when it has between one and 63 letters, digits, hyphens
  and dots, neither starts nor ends with a hyphen or a dot, and is not made of digits and dots only.
  Two dots in a row are not refused, although the code has a test for them.\<close>

theorem hostname_characters:
  assumes "sp_len s \<le> length (sp_s s)"
  shows "is_valid_hostname s \<longleftrightarrow>
    sp_text s \<noteq> [] \<and> length (sp_text s) \<le> 63 \<and>
    hd (sp_text s) \<notin> {CHR ''-'', CHR ''.''} \<and> last (sp_text s) \<notin> {CHR ''-'', CHR ''.''} \<and>
    list_all (\<lambda>c. is_decimal c \<or> is_alphabet c \<or> c = CHR ''-'' \<or> c = CHR ''.'') (sp_text s) \<and>
    list_ex (\<lambda>c. \<not> is_decimal c \<and> c \<noteq> CHR ''.'') (sp_text s)"
  by (rule is_valid_hostname_iff [OF assms])

theorem hostname_characters_witness: "is_valid_hostname \<lparr>sp_s = ''a..b:51820'', sp_len = 4\<rparr>"
proof -
  let ?s = "\<lparr>sp_s = ''a..b:51820'', sp_len = 4\<rparr>"
  have t: "sp_text ?s = ''a..b''" by (simp add: sp_text_def)
  have "is_alphabet CHR ''a''" "is_alphabet CHR ''b''" "\<not> is_decimal CHR ''a''"
    by (simp_all add: is_alphabet_def is_decimal_def char_ord_def)
  then show ?thesis using hostname_characters [of ?s] by (simp add: t)
qed

end
