(* ===== verification/Highlight_Config.thy ===== *)
theory Highlight_Config
  imports Highlighter
begin

text \<open>
  \<^verbatim>\<open>contrib/highlighter\<close>, the second half: the fields, the array of spans, the state machine over
  the characters of a file, and the program \<^verbatim>\<open>highlight.c\<close> that prints a file in colour.
  Offsets are relative to the start of the file; the array grows without limit.
\<close>

section \<open>Definitions\<close>

datatype field =
    InterfaceSection | PrivateKey | ListenPort | Address | DNS | MTU | FwMark | Table
  | PreUp | PostUp | PreDown | PostDown | SaveConfig
  | PeerSection | PublicKey | PresharedKey | AllowedIPs | Endpoint | PersistentKeepalive
  | Invalid

datatype highlight_type =
    HighlightSection | HighlightField | HighlightPrivateKey | HighlightPublicKey | HighlightPresharedKey
  | HighlightIP | HighlightCidr | HighlightHost | HighlightPort | HighlightMTU | HighlightKeepalive
  | HighlightComment | HighlightDelimiter | HighlightTable | HighlightFwMark | HighlightSaveConfig
  | HighlightCmd | HighlightError | HighlightEnd

text \<open>The place of a field in the enumeration, which the comparisons use.\<close>

definition field_order :: "field list" where
  "field_order = [InterfaceSection, PrivateKey, ListenPort, Address, DNS, MTU, FwMark, Table,
     PreUp, PostUp, PreDown, PostDown, SaveConfig,
     PeerSection, PublicKey, PresharedKey, AllowedIPs, Endpoint, PersistentKeepalive, Invalid]"

definition field_num :: "field \<Rightarrow> nat" where
  "field_num f = length (takeWhile (\<lambda>g. g \<noteq> f) field_order)"

definition section_for_field :: "field \<Rightarrow> field" where
  "section_for_field t =
     (if field_num t > field_num InterfaceSection \<and> field_num t < field_num PeerSection then InterfaceSection
      else if field_num t > field_num PeerSection \<and> field_num t < field_num Invalid then PeerSection
      else Invalid)"

definition get_field :: "string_span \<Rightarrow> field" where
  "get_field s =
     (if is_caseless_same s ''PrivateKey'' then PrivateKey
      else if is_caseless_same s ''ListenPort'' then ListenPort
      else if is_caseless_same s ''Address'' then Address
      else if is_caseless_same s ''DNS'' then DNS
      else if is_caseless_same s ''MTU'' then MTU
      else if is_caseless_same s ''PublicKey'' then PublicKey
      else if is_caseless_same s ''PresharedKey'' then PresharedKey
      else if is_caseless_same s ''AllowedIPs'' then AllowedIPs
      else if is_caseless_same s ''Endpoint'' then Endpoint
      else if is_caseless_same s ''PersistentKeepalive'' then PersistentKeepalive
      else if is_caseless_same s ''FwMark'' then FwMark
      else if is_caseless_same s ''Table'' then Table
      else if is_caseless_same s ''PreUp'' then PreUp
      else if is_caseless_same s ''PostUp'' then PostUp
      else if is_caseless_same s ''PreDown'' then PreDown
      else if is_caseless_same s ''PostDown'' then PostDown
      else if is_caseless_same s ''SaveConfig'' then SaveConfig
      else Invalid)"

definition get_sectiontype :: "string_span \<Rightarrow> field" where
  "get_sectiontype s =
     (if is_caseless_same s ''[Peer]'' then PeerSection
      else if is_caseless_same s ''[Interface]'' then InterfaceSection
      else Invalid)"

record highlight_span =
  hs_type :: highlight_type
  hs_start :: nat
  hs_len :: nat

text \<open>A span of the file: where it starts and how long it is.  \<open>view\<close> is the span the validators see.\<close>

type_synonym range = "nat \<times> nat"

definition view :: "string \<Rightarrow> range \<Rightarrow> string_span" where
  "view config r = \<lparr>sp_s = drop (fst r) config, sp_len = snd r\<rparr>"

definition append_highlight_span ::
  "highlight_span list \<Rightarrow> range \<Rightarrow> highlight_type \<Rightarrow> highlight_span list"
where
  "append_highlight_span a r t =
     (if snd r = 0 then a else a @ [\<lparr>hs_type = t, hs_start = fst r, hs_len = snd r\<rparr>])"

definition highlight_multivalue_value ::
  "string \<Rightarrow> highlight_span list \<Rightarrow> range \<Rightarrow> field \<Rightarrow> highlight_span list"
where
  "highlight_multivalue_value config ret r sec =
     (let s = view config r; (start, len) = r in
      case sec of
        DNS \<Rightarrow>
          if is_valid_ipv4 s \<or> is_valid_ipv6 s then append_highlight_span ret r HighlightIP
          else if is_valid_hostname s then append_highlight_span ret r HighlightHost
          else append_highlight_span ret r HighlightError
      | _ \<Rightarrow>
          if sec = Address \<or> sec = AllowedIPs then
            (if \<not> is_valid_network s then append_highlight_span ret r HighlightError
             else case strchr (sp_text s) (CHR ''/'') of
               None \<Rightarrow> append_highlight_span ret r HighlightIP
             | Some slash \<Rightarrow>
                 append_highlight_span
                   (append_highlight_span
                     (append_highlight_span ret (start, slash) HighlightIP)
                     (start + slash, 1) HighlightDelimiter)
                   (start + slash + 1, len - slash - 1) HighlightCidr)
          else append_highlight_span ret r HighlightError)"

text \<open>The state of the loop over a value with commas: the array, the current span and
  \<^verbatim>\<open>len_at_last_space\<close>; \<open>i\<close> is the offset of the character in the file.\<close>

type_synonym multi = "highlight_span list \<times> range \<times> nat"

fun multivalue_step :: "string \<Rightarrow> field \<Rightarrow> multi \<Rightarrow> nat \<Rightarrow> multi" where
  "multivalue_step config sec (ret, (start, len), len_at_last_space) i =
     (if c_at config i = CHR '','' then
        (append_highlight_span (highlight_multivalue_value config ret (start, len_at_last_space) sec)
           (i, 1) HighlightDelimiter, (i + 1, 0), 0)
      else if c_at config i = CHR '' '' \<or> c_at config i = CHR 0x09 then
        (if i = start \<and> len = 0 then (ret, (start + 1, len), len_at_last_space)
         else (ret, (start, len + 1), len_at_last_space))
      else (ret, (start, len + 1), len + 1))"

text \<open>After the loop the last entry of the array is read: without one the access is out of bounds.\<close>

definition highlight_multivalue ::
  "string \<Rightarrow> highlight_span list \<Rightarrow> range \<Rightarrow> field \<Rightarrow> highlight_span list option"
where
  "highlight_multivalue config ret r sec =
     (let (ret, (start, _), len_at_last_space) =
            foldl (multivalue_step config sec) (ret, (fst r, 0), 0) [fst r ..< fst r + snd r]
      in if len_at_last_space \<noteq> 0
         then Some (highlight_multivalue_value config ret (start, len_at_last_space) sec)
         else if ret = [] then None
         else if hs_type (last ret) = HighlightDelimiter
         then Some (butlast ret @ [(last ret)\<lparr>hs_type := HighlightError\<rparr>])
         else Some ret)"

definition value_type :: "field \<Rightarrow> string_span \<Rightarrow> highlight_type option" where
  "value_type sec s =
     (case sec of
        PrivateKey \<Rightarrow> Some (if is_valid_key s then HighlightPrivateKey else HighlightError)
      | PublicKey \<Rightarrow> Some (if is_valid_key s then HighlightPublicKey else HighlightError)
      | PresharedKey \<Rightarrow> Some (if is_valid_key s then HighlightPresharedKey else HighlightError)
      | MTU \<Rightarrow> Some (if is_valid_mtu s then HighlightMTU else HighlightError)
      | SaveConfig \<Rightarrow> Some (if is_valid_saveconfig s then HighlightSaveConfig else HighlightError)
      | FwMark \<Rightarrow> Some (if is_valid_fwmark s then HighlightFwMark else HighlightError)
      | Table \<Rightarrow> Some (if is_valid_table s then HighlightTable else HighlightError)
      | PreUp \<Rightarrow> Some (if is_valid_prepostupdown s then HighlightCmd else HighlightError)
      | PostUp \<Rightarrow> Some (if is_valid_prepostupdown s then HighlightCmd else HighlightError)
      | PreDown \<Rightarrow> Some (if is_valid_prepostupdown s then HighlightCmd else HighlightError)
      | PostDown \<Rightarrow> Some (if is_valid_prepostupdown s then HighlightCmd else HighlightError)
      | ListenPort \<Rightarrow> Some (if is_valid_port s then HighlightPort else HighlightError)
      | PersistentKeepalive \<Rightarrow>
          Some (if is_valid_persistentkeepalive s then HighlightKeepalive else HighlightError)
      | _ \<Rightarrow> None)"

definition highlight_endpoint :: "string \<Rightarrow> highlight_span list \<Rightarrow> range \<Rightarrow> highlight_span list option" where
  "highlight_endpoint config ret r =
     (let s = view config r; (start, len) = r in
      if \<not> is_valid_endpoint s then Some (append_highlight_span ret r HighlightError)
      else case strrchr (sp_text s) (CHR '':'') of
        None \<Rightarrow> None
      | Some colon \<Rightarrow>
          Some (append_highlight_span
            (append_highlight_span
              (append_highlight_span ret (start, colon) HighlightHost)
              (start + colon, 1) HighlightDelimiter)
            (start + colon + 1, len - colon - 1) HighlightPort))"

definition highlight_value ::
  "string \<Rightarrow> highlight_span list \<Rightarrow> range \<Rightarrow> field \<Rightarrow> highlight_span list option"
where
  "highlight_value config ret r sec =
     (case value_type sec (view config r) of
        Some t \<Rightarrow> Some (append_highlight_span ret r t)
      | None \<Rightarrow>
          if sec = Endpoint then highlight_endpoint config ret r
          else if sec = Address \<or> sec = DNS \<or> sec = AllowedIPs
          then highlight_multivalue config ret r sec
          else Some (append_highlight_span ret r HighlightError))"

datatype hl_state = OnNone | OnKey | OnValue | OnComment | OnSection

record hl =
  hl_ret :: "highlight_span list"
  current_span :: range
  current_section :: field
  current_field :: field
  hl_state :: hl_state
  len_at_last_space :: nat
  equals_location :: nat

text \<open>What is emitted at the end of a line, of a comment's left side and of the file.\<close>

definition finish_line :: "string \<Rightarrow> hl \<Rightarrow> hl option" where
  "finish_line config h =
     (let span = (fst (current_span h), len_at_last_space h) in
      case hl_state h of
        OnKey \<Rightarrow> Some (h\<lparr>current_span := span,
          hl_ret := append_highlight_span (hl_ret h) span HighlightError\<rparr>)
      | OnValue \<Rightarrow>
          if snd (current_span h) \<noteq> 0 then
            map_option (\<lambda>ret. h\<lparr>current_span := span, hl_ret := ret\<rparr>)
              (highlight_value config
                (append_highlight_span (hl_ret h) (equals_location h, 1) HighlightDelimiter) span (current_field h))
          else Some (h\<lparr>hl_ret := append_highlight_span (hl_ret h) (equals_location h, 1) HighlightError\<rparr>)
      | OnSection \<Rightarrow>
          let sec = get_sectiontype (view config span) in
          Some (h\<lparr>current_span := span, current_section := sec,
            hl_ret := append_highlight_span (hl_ret h) span
              (if sec = Invalid then HighlightError else HighlightSection)\<rparr>)
      | OnComment \<Rightarrow> Some (h\<lparr>hl_ret := append_highlight_span (hl_ret h) (current_span h) HighlightComment\<rparr>)
      | OnNone \<Rightarrow> Some h)"

definition highlight_step :: "string \<Rightarrow> hl \<Rightarrow> nat \<Rightarrow> hl option" where
  "highlight_step config h i =
     (let c = c_at config i; (start, len) = current_span h in
      if c = NL \<or> hl_state h \<noteq> OnComment \<and> c = CHR ''#'' then
        map_option (\<lambda>h.
          let h = h\<lparr>len_at_last_space := 0, current_field := Invalid\<rparr> in
          if c = CHR ''#'' then h\<lparr>current_span := (i, 1), hl_state := OnComment\<rparr>
          else h\<lparr>current_span := (i + 1, 0), hl_state := OnNone\<rparr>) (finish_line config h)
      else if hl_state h = OnComment then Some (h\<lparr>current_span := (start, len + 1)\<rparr>)
      else if c = CHR '' '' \<or> c = CHR 0x09 then
        Some (h\<lparr>current_span := (if i = start \<and> len = 0 then (start + 1, len) else (start, len + 1))\<rparr>)
      else if c = CHR ''='' \<and> hl_state h = OnKey then
        let span = (start, len_at_last_space h);
            fld = get_field (view config span);
            sec = section_for_field fld
        in Some (h\<lparr>current_field := fld,
             hl_ret := append_highlight_span (hl_ret h) span
               (if sec = Invalid \<or> fld = Invalid \<or> sec \<noteq> current_section h
                then HighlightError else HighlightField),
             equals_location := i, current_span := (i + 1, 0), hl_state := OnValue\<rparr>)
      else
        Some (h\<lparr>hl_state := (if hl_state h = OnNone
                  then (if c = CHR ''['' then OnSection else OnKey) else hl_state h),
             current_span := (start, len + 1), len_at_last_space := len + 1\<rparr>))"

fun highlight_loop :: "string \<Rightarrow> nat list \<Rightarrow> hl \<Rightarrow> hl option" where
  "highlight_loop config [] h = finish_line config h"
| "highlight_loop config (i # is) h =
     Option.bind (highlight_step config h i) (highlight_loop config is)"

definition highlight_start :: hl where
  "highlight_start = \<lparr>hl_ret = [], current_span = (0, 0), current_section = Invalid, current_field = Invalid,
     hl_state = OnNone, len_at_last_space = 0, equals_location = 0\<rparr>"

text \<open>The array ends in a span of type \<^term>\<open>HighlightEnd\<close> whose length is -1 as a \<^verbatim>\<open>size_t\<close>.\<close>

definition highlight_config :: "string \<Rightarrow> highlight_span list option" where
  "highlight_config config =
     map_option (\<lambda>h. append_highlight_span (hl_ret h) (0, 2 ^ 64 - 1) HighlightEnd)
       (highlight_loop config [0..<length config] highlight_start)"

section \<open>The colouring program\<close>

definition esc :: "string \<Rightarrow> string" where
  "esc code = CHR 0x1B # CHR ''['' # code @ ''m''"

definition colormap :: "highlight_type \<Rightarrow> string" where
  "colormap t =
     (case t of
        HighlightSection \<Rightarrow> esc ''30'' @ esc ''1''
      | HighlightField \<Rightarrow> esc ''34'' @ esc ''1''
      | HighlightPrivateKey \<Rightarrow> esc ''33'' @ esc ''1''
      | HighlightPublicKey \<Rightarrow> esc ''33'' @ esc ''1''
      | HighlightPresharedKey \<Rightarrow> esc ''33'' @ esc ''1''
      | HighlightIP \<Rightarrow> esc ''32''
      | HighlightCidr \<Rightarrow> esc ''33''
      | HighlightHost \<Rightarrow> esc ''32'' @ esc ''1''
      | HighlightPort \<Rightarrow> esc ''35''
      | HighlightMTU \<Rightarrow> esc ''34''
      | HighlightKeepalive \<Rightarrow> esc ''34''
      | HighlightComment \<Rightarrow> esc ''36''
      | HighlightDelimiter \<Rightarrow> esc ''36''
      | HighlightTable \<Rightarrow> esc ''34''
      | HighlightFwMark \<Rightarrow> esc ''34''
      | HighlightSaveConfig \<Rightarrow> esc ''34''
      | HighlightCmd \<Rightarrow> esc ''37''
      | HighlightError \<Rightarrow> esc ''31'' @ esc ''4''
      | HighlightEnd \<Rightarrow> [])"

text \<open>What the program writes: pieces of the input, and escape sequences.\<close>

datatype chunk = Raw string | Esc string

fun colour_loop :: "string \<Rightarrow> nat \<Rightarrow> highlight_span list \<Rightarrow> chunk list" where
  "colour_loop input pos [] = []"
| "colour_loop input pos (span # spans) =
     (if hs_type span = HighlightEnd then [Raw (drop pos input)]
      else Raw (take (hs_start span - pos) (drop pos input)) # Esc (colormap (hs_type span)) #
           Raw (take (hs_len span) (drop (hs_start span) input)) # Esc (esc ''0'') #
           colour_loop input (hs_start span + hs_len span) spans)"

definition highlight_main :: "string \<Rightarrow> chunk list option" where
  "highlight_main stdin =
     (let input = take (1024 * 1024 - 1) stdin in
      map_option (\<lambda>spans. Esc (esc ''0'') # colour_loop input 0 spans) (highlight_config (cstr input)))"

section \<open>The spans are in order and inside the file\<close>

definition spans_ok :: "highlight_span list \<Rightarrow> nat \<Rightarrow> bool" where
  "spans_ok ret n \<longleftrightarrow>
     sorted_wrt (\<lambda>a b. hs_start a + hs_len a \<le> hs_start b) ret \<and>
     list_all (\<lambda>a. 0 < hs_len a \<and> hs_start a + hs_len a \<le> n \<and> hs_type a \<noteq> HighlightEnd) ret"

lemma spans_ok_Nil [simp]: "spans_ok [] n"
  by (simp add: spans_ok_def)

lemma spans_ok_mono: "spans_ok ret n \<Longrightarrow> n \<le> m \<Longrightarrow> spans_ok ret m"
  by (auto simp: spans_ok_def list_all_iff)

lemma spans_ok_append:
  assumes "spans_ok ret n" "n \<le> start" "start + len \<le> m" "t \<noteq> HighlightEnd"
  shows "spans_ok (append_highlight_span ret (start, len) t) m"
  using assms by (fastforce simp: append_highlight_span_def spans_ok_def list_all_iff sorted_wrt_append)

lemma append_nonempty: "ret \<noteq> [] \<Longrightarrow> append_highlight_span ret r t \<noteq> []"
  by (simp add: append_highlight_span_def)

lemma append_one_nonempty [simp]: "append_highlight_span ret (i, 1) t \<noteq> []" "append_highlight_span ret (i, Suc 0) t \<noteq> []"
  by (simp_all add: append_highlight_span_def)

lemma strchr_view: "strchr (sp_text (view config (start, len))) c = Some i \<Longrightarrow> i < len"
  using strchr_SomeD [of "sp_text (view config (start, len))" c i] by (simp add: sp_text_def view_def)

lemma strrchr_view: "strrchr (sp_text (view config (start, len))) c = Some i \<Longrightarrow> i < len"
  using strrchr_SomeD [of "sp_text (view config (start, len))" c i] by (simp add: sp_text_def view_def)

lemma spans_ok_split:
  assumes "spans_ok ret start" "k < len" "t1 \<noteq> HighlightEnd" "t2 \<noteq> HighlightEnd" "t3 \<noteq> HighlightEnd"
  shows "spans_ok (append_highlight_span (append_highlight_span (append_highlight_span ret (start, k) t1)
    (start + k, 1) t2) (start + k + 1, len - k - 1) t3) (start + len)"
  using assms
  by (intro spans_ok_append [where n = "start + k + 1"] spans_ok_append [where n = "start + k" and start = "start + k"]
      spans_ok_append [where n = start and start = start]) simp_all

lemma multivalue_value_ok:
  assumes "spans_ok ret start"
  shows "spans_ok (highlight_multivalue_value config ret (start, len) sec) (start + len)"
    and "ret \<noteq> [] \<Longrightarrow> highlight_multivalue_value config ret (start, len) sec \<noteq> []"
proof -
  have one: "spans_ok (append_highlight_span ret (start, len) t) (start + len)" if "t \<noteq> HighlightEnd" for t
    by (rule spans_ok_append [OF assms]) (use that in simp_all)
  have split: "spans_ok (append_highlight_span (append_highlight_span (append_highlight_span ret (start, k) HighlightIP)
      (start + k, 1) HighlightDelimiter) (start + k + 1, len - k - 1) HighlightCidr) (start + len)"
    if "strchr (sp_text (view config (start, len))) (CHR ''/'') = Some k" for k
    by (rule spans_ok_split [OF assms strchr_view [OF that]]) simp_all
  show "spans_ok (highlight_multivalue_value config ret (start, len) sec) (start + len)"
    using one split by (auto simp: highlight_multivalue_value_def Let_def split: field.splits option.splits)
  show "ret \<noteq> [] \<Longrightarrow> highlight_multivalue_value config ret (start, len) sec \<noteq> []"
    by (auto simp: highlight_multivalue_value_def Let_def append_nonempty split: field.splits option.splits)
qed

text \<open>Before the character at \<open>i\<close> the current span ends at \<open>i\<close> and the array ends before it.\<close>

fun multi_ok :: "nat \<Rightarrow> multi \<Rightarrow> bool" where
  "multi_ok i (ret, (start, len), l) \<longleftrightarrow> spans_ok ret start \<and> ret \<noteq> [] \<and> start + len = i \<and> l \<le> len"

lemma multivalue_step_ok:
  assumes "multi_ok i m" shows "multi_ok (i + 1) (multivalue_step config sec m i)"
proof -
  obtain ret start len l where m: "m = (ret, (start, len), l)" by (cases m) auto
  with assms have ok: "spans_ok ret start" "ret \<noteq> []" "start + len = i" "l \<le> len" by auto
  note v = multivalue_value_ok [OF ok(1), of config l sec]
  have "spans_ok (append_highlight_span (highlight_multivalue_value config ret (start, l) sec) (i, 1) HighlightDelimiter) (i + 1)"
    by (rule spans_ok_append [OF v(1)]) (use ok in simp_all)
  with m ok spans_ok_mono [OF ok(1)] show ?thesis by auto
qed

lemma multivalue_loop_ok:
  "multi_ok i m \<Longrightarrow> multi_ok (i + n) (foldl (multivalue_step config sec) m [i ..< i + n])"
proof (induction n arbitrary: i m)
  case (Suc n)
  have "[i ..< i + Suc n] = i # [i + 1 ..< i + 1 + n]" by (simp add: upt_conv_Cons)
  with Suc.IH [OF multivalue_step_ok [OF Suc.prems]] show ?case by simp
qed simp

lemma retype_last_ok:
  "spans_ok ret n \<Longrightarrow> ret \<noteq> [] \<Longrightarrow> spans_ok (butlast ret @ [(last ret)\<lparr>hs_type := HighlightError\<rparr>]) n"
  by (cases ret rule: rev_cases) (auto simp: spans_ok_def sorted_wrt_append)

lemma highlight_multivalue_ok:
  assumes "spans_ok ret start" "ret \<noteq> []"
  shows "\<exists>ret'. highlight_multivalue config ret (start, len) sec = Some ret' \<and> spans_ok ret' (start + len)"
proof -
  have "multi_ok start (ret, (start, 0), 0)" using assms by simp
  from multivalue_loop_ok [OF this, of len config sec]
  obtain ret' start' len' l where
    m: "foldl (multivalue_step config sec) (ret, (start, 0), 0) [start ..< start + len] = (ret', (start', len'), l)"
    and ok: "spans_ok ret' start'" "ret' \<noteq> []" "start' + len' = start + len" "l \<le> len'"
    by (cases "foldl (multivalue_step config sec) (ret, (start, 0), 0) [start ..< start + len]") auto
  have "spans_ok (highlight_multivalue_value config ret' (start', l) sec) (start + len)"
    using multivalue_value_ok(1) [OF ok(1)] ok(3,4) spans_ok_mono by (metis add_le_cancel_left)
  moreover have "spans_ok ret' (start + len)" using ok by (auto intro: spans_ok_mono)
  ultimately show ?thesis
    using ok(2) retype_last_ok by (auto simp: highlight_multivalue_def m)
qed

lemma c_at_in_text: "c_at (sp_s s) i = c \<Longrightarrow> c \<noteq> NUL \<Longrightarrow> i < sp_len s \<Longrightarrow> c \<in> set (sp_text s)"
  by (auto simp: c_at_def sp_text_def in_set_conv_nth split: if_splits)

lemma bracket_loop_colon: "bracket_loop s seen start len i \<Longrightarrow> CHR '':'' \<in> set (sp_text s)"
proof (induction s seen start len i rule: bracket_loop.induct)
  case (1 s seen start len i)
  note now = 1(3) [unfolded bracket_loop.simps [of s seen start len i]]
  then have i: "i < sp_len s" by (simp split: if_splits)
  consider "sp_at s i = CHR ''%''" | "sp_at s i = CHR '']''" | "sp_at s i \<noteq> CHR ''%''" "sp_at s i \<noteq> CHR '']''"
    by blast
  then show ?case
  proof cases
    case 1
    with now i show ?thesis by (intro "1.IH"(1)) (auto split: if_splits)
  next
    case 2
    with now i have "sp_at s (i + 1) = CHR '':''" "i + 1 < sp_len s" by (auto split: if_splits)
    then show ?thesis by (intro c_at_in_text [of s "i + 1"]) auto
  next
    case 3
    with now i show ?thesis by (intro "1.IH"(2)) (auto split: if_splits)
  qed
qed

lemma endpoint_colon: "is_valid_endpoint s \<Longrightarrow> CHR '':'' \<in> set (sp_text s)"
  using strchr_None_iff [of "sp_text s" "CHR '':''"]
  by (auto simp: is_valid_endpoint_def bracket_loop_colon split: if_splits option.splits)

lemma highlight_endpoint_ok:
  assumes "spans_ok ret start"
  shows "\<exists>ret'. highlight_endpoint config ret (start, len) = Some ret' \<and> spans_ok ret' (start + len)"
proof (cases "is_valid_endpoint (view config (start, len))")
  case True
  then obtain k where k: "strrchr (sp_text (view config (start, len))) (CHR '':'') = Some k"
    using endpoint_colon strrchr_None_iff by blast
  with True spans_ok_split [OF assms strrchr_view [OF k]] show ?thesis
    by (simp add: highlight_endpoint_def)
next
  case False
  with spans_ok_append [OF assms, of start len "start + len" HighlightError] show ?thesis
    by (simp add: highlight_endpoint_def)
qed

lemma value_type_not_end: "value_type sec s = Some t \<Longrightarrow> t \<noteq> HighlightEnd"
  by (cases sec) (auto simp: value_type_def split: if_splits)

lemma highlight_value_ok:
  assumes "spans_ok ret start" "ret \<noteq> []"
  shows "\<exists>ret'. highlight_value config ret (start, len) sec = Some ret' \<and> spans_ok ret' (start + len)"
proof (cases "value_type sec (view config (start, len))")
  case (Some t)
  with spans_ok_append [OF assms(1), of start len "start + len" t] value_type_not_end show ?thesis
    by (simp add: highlight_value_def)
next
  case None
  moreover have "spans_ok (append_highlight_span ret (start, len) HighlightError) (start + len)"
    by (rule spans_ok_append [OF assms(1)]) simp_all
  ultimately show ?thesis
    using highlight_endpoint_ok [OF assms(1), of config len] highlight_multivalue_ok [OF assms, of config len sec]
    by (simp add: highlight_value_def)
qed

text \<open>The invariant of the state machine before the character at \<open>i\<close>.\<close>

definition hl_ok :: "nat \<Rightarrow> hl \<Rightarrow> bool" where
  "hl_ok i h \<longleftrightarrow>
     (let (start, len) = current_span h; l = len_at_last_space h in
      start + len = i \<and> (hl_state h = OnValue \<and> len = 0 \<or> l \<le> len) \<and>
      (case hl_state h of
         OnValue \<Rightarrow> spans_ok (hl_ret h) (equals_location h) \<and> equals_location h < start
       | _ \<Rightarrow> spans_ok (hl_ret h) start))"

lemma finish_line_ok:
  assumes "hl_ok i h"
  shows "\<exists>h'. finish_line config h = Some h' \<and> spans_ok (hl_ret h') i"
proof -
  obtain start len where sp: "current_span h = (start, len)" by (cases "current_span h")
  define l where "l = len_at_last_space h"
  from assms have i: "start + len = i" "len \<noteq> 0 \<or> hl_state h \<noteq> OnValue \<Longrightarrow> l \<le> len"
    by (auto simp: hl_ok_def sp l_def)
  have app: "spans_ok (append_highlight_span (hl_ret h) (start, k) t) i"
    if "spans_ok (hl_ret h) start" "k \<le> len" "t \<noteq> HighlightEnd" for k t
    using that i by (intro spans_ok_append) auto
  show ?thesis
  proof (cases "hl_state h")
    case OnValue
    with assms have v: "spans_ok (hl_ret h) (equals_location h)" "equals_location h < start"
      by (simp_all add: hl_ok_def sp)
    have d: "spans_ok (append_highlight_span (hl_ret h) (equals_location h, 1) t) start" if "t \<noteq> HighlightEnd" for t
      using v that by (intro spans_ok_append) auto
    from highlight_value_ok [OF d, of HighlightDelimiter config l "current_field h"]
    obtain ret' where r: "highlight_value config (append_highlight_span (hl_ret h) (equals_location h, 1) HighlightDelimiter)
        (start, l) (current_field h) = Some ret'" and "spans_ok ret' (start + l)" by auto
    with i have "len \<noteq> 0 \<Longrightarrow> spans_ok ret' i" by (auto intro: spans_ok_mono)
    with OnValue r spans_ok_mono [OF d [of HighlightError], of i] i show ?thesis
      by (simp add: finish_line_def Let_def sp l_def [symmetric])
  qed (use assms i app in \<open>auto simp: finish_line_def hl_ok_def sp l_def Let_def intro: spans_ok_mono\<close>)
qed

lemma highlight_step_ok:
  assumes "hl_ok i h"
  shows "\<exists>h'. highlight_step config h i = Some h' \<and> hl_ok (i + 1) h'"
proof -
  obtain start len where sp: "current_span h = (start, len)" by (cases "current_span h")
  obtain h' where f: "finish_line config h = Some h'" "spans_ok (hl_ret h') i"
    using finish_line_ok [OF assms] by blast
  have keys: "spans_ok (append_highlight_span (hl_ret h) (start, len_at_last_space h) t) i"
    if "hl_state h = OnKey" "t \<noteq> HighlightEnd" for t
    using assms that by (intro spans_ok_append) (auto simp: hl_ok_def sp)
  have inv: "start + len = i" using assms by (simp add: hl_ok_def sp)
  let ?c = "c_at config i"
  consider (line) "?c = NL \<or> hl_state h \<noteq> OnComment \<and> ?c = CHR ''#''"
    | (comment) "?c \<noteq> NL" "hl_state h = OnComment"
    | (key) "?c = CHR ''=''" "hl_state h = OnKey"
    | (other) "\<not> (?c = NL \<or> hl_state h \<noteq> OnComment \<and> ?c = CHR ''#'')" "hl_state h \<noteq> OnComment"
        "\<not> (?c = CHR ''='' \<and> hl_state h = OnKey)" by blast
  then show ?thesis
  proof cases
    case line
    with f spans_ok_mono [OF f(2), of "i + 1"] show ?thesis
      by (simp add: highlight_step_def sp hl_ok_def Let_def)
  next
    case comment
    with assms inv show ?thesis by (simp add: highlight_step_def sp hl_ok_def)
  next
    case key
    with keys inv show ?thesis by (simp add: highlight_step_def sp hl_ok_def Let_def)
  next
    case other
    then show ?thesis using assms inv
      by (cases "hl_state h") (auto simp: highlight_step_def sp hl_ok_def Let_def intro: spans_ok_mono)
  qed
qed

lemma highlight_loop_ok:
  "hl_ok i h \<Longrightarrow> \<exists>h'. highlight_loop config [i ..< i + n] h = Some h' \<and> spans_ok (hl_ret h') (i + n)"
proof (induction n arbitrary: i h)
  case 0
  then show ?case using finish_line_ok by simp
next
  case (Suc n)
  from highlight_step_ok [OF Suc.prems, of config] obtain h'
    where s: "highlight_step config h i = Some h'" and ok: "hl_ok (i + 1) h'" by blast
  have "[i ..< i + Suc n] = i # [i + 1 ..< i + 1 + n]" by (simp add: upt_conv_Cons)
  with s Suc.IH [OF ok] show ?case by simp
qed

definition the_end :: highlight_span where
  "the_end = \<lparr>hs_type = HighlightEnd, hs_start = 0, hs_len = 2 ^ 64 - 1\<rparr>"

lemma highlight_config_spans:
  "\<exists>spans. highlight_config config = Some (spans @ [the_end]) \<and> spans_ok spans (length config)"
proof -
  have "hl_ok 0 highlight_start" by (simp add: hl_ok_def highlight_start_def)
  from highlight_loop_ok [OF this, of config "length config"]
  show ?thesis by (auto simp: highlight_config_def append_highlight_span_def the_end_def)
qed

section \<open>The colouring program keeps the text\<close>

fun raw_text :: "chunk list \<Rightarrow> string" where
  "raw_text [] = []"
| "raw_text (Raw s # cs) = s @ raw_text cs"
| "raw_text (Esc s # cs) = raw_text cs"

lemma spans_ok_Cons:
  "spans_ok (a # ret) n \<longleftrightarrow>
     0 < hs_len a \<and> hs_start a + hs_len a \<le> n \<and> hs_type a \<noteq> HighlightEnd \<and> spans_ok ret n \<and>
     list_all (\<lambda>b. hs_start a + hs_len a \<le> hs_start b) ret"
  by (auto simp: spans_ok_def list_all_iff)

lemma take_drop_join:
  "p \<le> q \<Longrightarrow> take (q - p) (drop p xs) @ take n (drop q xs) @ drop (q + n) xs = drop p xs"
  by (metis add.commute append_take_drop_id drop_drop le_add_diff_inverse2)

lemma colour_loop_keeps:
  "spans_ok spans n \<Longrightarrow> list_all (\<lambda>s. pos \<le> hs_start s) spans \<Longrightarrow>
     raw_text (colour_loop input pos (spans @ [the_end])) = drop pos input"
proof (induction spans arbitrary: pos)
  case Nil
  then show ?case by (simp add: the_end_def)
next
  case (Cons a spans)
  then have "raw_text (colour_loop input (hs_start a + hs_len a) (spans @ [the_end])) = drop (hs_start a + hs_len a) input"
    by (simp add: spans_ok_Cons)
  with Cons.prems take_drop_join [of pos "hs_start a" input "hs_len a"] show ?case
    by (simp add: spans_ok_Cons)
qed

lemma highlight_main_text:
  "\<exists>out. highlight_main stdin = Some out \<and> raw_text out = take (1024 * 1024 - 1) stdin"
proof -
  let ?input = "take (1024 * 1024 - 1) stdin"
  obtain spans where s: "highlight_config (cstr ?input) = Some (spans @ [the_end])"
    and ok: "spans_ok spans (length (cstr ?input))"
    using highlight_config_spans by blast
  have "raw_text (colour_loop ?input 0 (spans @ [the_end])) = ?input"
    using colour_loop_keeps [OF ok, of 0 ?input] by (simp add: list_all_iff)
  with s show ?thesis by (simp add: highlight_main_def Let_def)
qed

section \<open>Properties\<close>

text \<open>C14. For every file the highlighter returns spans that are nonempty, in order, do not overlap, lie inside
  the file and end in the one mark of the end.\<close>

theorem highlight_spans_in_order:
  "\<exists>spans. highlight_config config =
       Some (spans @ [\<lparr>hs_type = HighlightEnd, hs_start = 0, hs_len = 2 ^ 64 - 1\<rparr>]) \<and>
     sorted_wrt (\<lambda>a b. hs_start a + hs_len a \<le> hs_start b) spans \<and>
     list_all (\<lambda>a. 0 < hs_len a \<and> hs_start a + hs_len a \<le> length config \<and> hs_type a \<noteq> HighlightEnd) spans"
  using highlight_config_spans [of config] by (simp add: spans_ok_def the_end_def)

text \<open>C28. The colouring program prints the file itself between its escape sequences: without them its
  output is the input, up to the limit of one mebibyte.\<close>

theorem highlight_main_keeps_text:
  "\<exists>out. highlight_main stdin = Some out \<and> raw_text out = take (1024 * 1024 - 1) stdin"
  by (rule highlight_main_text)

end
