(* ===== verification/Ipc_Uapi.thy ===== *)
theory Ipc_Uapi
  imports Showconf
begin

text \<open>
  \<^verbatim>\<open>ipc-uapi.h\<close>, \<^verbatim>\<open>ipc-uapi-unix.h\<close> and \<^verbatim>\<open>ipc.c\<close>: the text protocol with a
  tunnel in user space over a Unix socket, the list of interfaces, and the choice between it and the
  kernel.  The system calls on the socket directory, the process behind the socket and the allocator
  are arguments.  Error numbers are those of Linux.  Lengths are natural numbers, so the sums of string
  lengths in \<^verbatim>\<open>string_list_add\<close> are taken to stay below \<^verbatim>\<open>SIZE_MAX\<close>.
\<close>

abbreviation (input) ENOENT :: int where "ENOENT \<equiv> 2"
abbreviation (input) EBADF :: int where "EBADF \<equiv> 9"
abbreviation (input) ENOMEM :: int where "ENOMEM \<equiv> 12"
abbreviation (input) EINVAL :: int where "EINVAL \<equiv> 22"
abbreviation (input) EPROTO :: int where "EPROTO \<equiv> 71"
abbreviation (input) ENETUNREACH :: int where "ENETUNREACH \<equiv> 101"
abbreviation (input) ECONNREFUSED :: int where "ECONNREFUSED \<equiv> 111"

section \<open>The socket of an interface\<close>

text \<open>
  The calls on the socket directory: each gives 0 or the error number.  \<open>talk\<close> is the stream to the
  process behind a socket: of what was written, the bytes that are read until the stream ends, the
  value of \<^verbatim>\<open>errno\<close> then, and the new state.
\<close>

record 'w unix =
  run_dir :: string
  sys_stat :: "'w \<Rightarrow> string \<Rightarrow> int + bool"
  sys_socket :: "'w \<Rightarrow> int"
  sys_connect :: "'w \<Rightarrow> string \<Rightarrow> int"
  sys_fdopen :: "'w \<Rightarrow> int"
  sys_unlink :: "'w \<Rightarrow> string \<Rightarrow> int \<times> 'w"
  sys_readdir :: "'w \<Rightarrow> string \<Rightarrow> int + string list"
  talk :: "'w \<Rightarrow> string \<Rightarrow> string \<Rightarrow> string \<times> int \<times> 'w"

definition SOCK_SUFFIX :: string where "SOCK_SUFFIX = ''.sock''"

definition SOCK_PATH :: "'w unix \<Rightarrow> string" where "SOCK_PATH U = run_dir U @ ''/amneziawg/''"

text \<open>\<^verbatim>\<open>snprintf\<close> into \<^verbatim>\<open>sun_path\<close>, which has 108 bytes.\<close>

definition sun_path :: "'w unix \<Rightarrow> string \<Rightarrow> string" where
  "sun_path U iface = take 107 (SOCK_PATH U @ iface @ SOCK_SUFFIX)"

text \<open>The path of the connected stream, or the error number.\<close>

definition userspace_interface_file :: "'w unix \<Rightarrow> 'w \<Rightarrow> string \<Rightarrow> (int + string) \<times> 'w" where
  "userspace_interface_file U w iface =
     (let path = sun_path U iface in
      if strchr iface (CHR ''/'') \<noteq> None then (Inl EINVAL, w)
      else case sys_stat U w path of
        Inl e \<Rightarrow> (Inl e, w)
      | Inr False \<Rightarrow> (Inl EBADF, w)
      | Inr True \<Rightarrow>
          if sys_socket U w \<noteq> 0 then (Inl (sys_socket U w), w)
          else if sys_connect U w path \<noteq> 0 then
            (if sys_connect U w path = ECONNREFUSED then
               let (u, w') = sys_unlink U w path in (Inl (if u \<noteq> 0 then u else ECONNREFUSED), w')
             else (Inl (sys_connect U w path), w))
          else if sys_fdopen U w \<noteq> 0 then (Inl (sys_fdopen U w), w)
          else (Inr path, w))"

definition userspace_has_wireguard_interface :: "'w unix \<Rightarrow> 'w \<Rightarrow> string \<Rightarrow> bool \<times> 'w" where
  "userspace_has_wireguard_interface U w iface =
     (let path = sun_path U iface in
      if strchr iface (CHR ''/'') \<noteq> None then (False, w)
      else case sys_stat U w path of
        Inl e \<Rightarrow> (False, w)
      | Inr False \<Rightarrow> (False, w)
      | Inr True \<Rightarrow>
          if sys_socket U w \<noteq> 0 then (False, w)
          else if sys_connect U w path = ECONNREFUSED then (False, snd (sys_unlink U w path))
          else (True, w))"

section \<open>The list of interfaces\<close>

record string_list =
  sl_buffer :: "string option"
  sl_len :: nat
  sl_cap :: nat

definition empty_list :: string_list where
  "empty_list = \<lparr>sl_buffer = None, sl_len = 0, sl_cap = 0\<rparr>"

text \<open>\<^verbatim>\<open>memcpy(buffer + at, bytes, n)\<close>: outside the block it faults.\<close>

definition store_at :: "string option \<Rightarrow> nat \<Rightarrow> string \<Rightarrow> (int, string option) res" where
  "store_at buffer at bytes =
     (case buffer of
        None \<Rightarrow> Fault
      | Some b \<Rightarrow>
          if at + length bytes \<le> length b
          then Ok (Some (take at b @ bytes @ drop (at + length bytes) b)) else Fault)"

text \<open>The allocator gives a block of the size asked for that starts with the old contents, or none.\<close>

type_synonym allocator = "string option \<Rightarrow> nat \<Rightarrow> string option"

definition string_list_grow :: "allocator \<Rightarrow> string_list \<Rightarrow> nat \<Rightarrow> (int, string_list) res" where
  "string_list_grow realloc l len =
     (let new_cap = (if sl_cap l * 2 < sl_len l + len + 1 then sl_len l + len + 1 else sl_cap l * 2) in
      case realloc (sl_buffer l) new_cap of
        None \<Rightarrow> Fail (- ENOMEM)
      | Some b \<Rightarrow> Ok (l\<lparr>sl_buffer := Some b, sl_cap := new_cap\<rparr>))"

definition string_list_store :: "string_list \<Rightarrow> string \<Rightarrow> nat \<Rightarrow> (int, string_list) res" where
  "string_list_store l str len =
     res_bind (store_at (sl_buffer l) (sl_len l) (str @ [NUL])) (\<lambda>b.
     res_bind (store_at b (sl_len l + len) [NUL]) (\<lambda>b.
     Ok (l\<lparr>sl_buffer := b, sl_len := sl_len l + len\<rparr>)))"

definition string_list_add :: "allocator \<Rightarrow> string_list \<Rightarrow> string \<Rightarrow> (int, string_list) res" where
  "string_list_add realloc l str =
     (let len = length str + 1 in
      if len = 1 then Ok l
      else
        res_bind (if len \<ge> sl_cap l - sl_len l then string_list_grow realloc l len else Ok l)
          (\<lambda>l. string_list_store l str len))"

text \<open>The entries of the socket directory that end in the suffix and answer.\<close>

fun interfaces_loop ::
  "'w unix \<Rightarrow> allocator \<Rightarrow> 'w \<Rightarrow> string_list \<Rightarrow> string list \<Rightarrow> (int, string_list) res \<times> 'w"
where
  "interfaces_loop U realloc w l [] = (Ok l, w)"
| "interfaces_loop U realloc w l (d_name # ents) =
     (let len = length d_name; name = take (len - length SOCK_SUFFIX) d_name in
      if len \<le> length SOCK_SUFFIX then interfaces_loop U realloc w l ents
      else if drop (len - length SOCK_SUFFIX) d_name \<noteq> SOCK_SUFFIX then interfaces_loop U realloc w l ents
      else
        let (there, w) = userspace_has_wireguard_interface U w name in
        if \<not> there then interfaces_loop U realloc w l ents
        else case string_list_add realloc l name of
          Ok l \<Rightarrow> interfaces_loop U realloc w l ents
        | r \<Rightarrow> (r, w))"

definition userspace_get_wireguard_interfaces ::
  "'w unix \<Rightarrow> allocator \<Rightarrow> 'w \<Rightarrow> string_list \<Rightarrow> (int, string_list) res \<times> 'w"
where
  "userspace_get_wireguard_interfaces U realloc w l =
     (case sys_readdir U w (SOCK_PATH U) of
        Inl e \<Rightarrow> (if e = ENOENT then Ok l else Fail (- e), w)
      | Inr ents \<Rightarrow> interfaces_loop U realloc w l ents)"

section \<open>The request that configures an interface\<close>

definition uapi_line :: "string \<Rightarrow> string \<Rightarrow> string" where
  "uapi_line key value = key @ ''='' @ value @ [NL]"

definition uapi_device :: "wgdevice \<Rightarrow> string" where
  "uapi_device d =
     uapi_line ''set'' ''1'' @
     print_if (has (dev_flags d) WGDEVICE_HAS_PRIVATE_KEY) (uapi_line ''private_key'' (key_to_hex (private_key d))) @
     print_if (has (dev_flags d) WGDEVICE_HAS_LISTEN_PORT) (uapi_line ''listen_port'' (udec (unat (listen_port d)))) @
     print_if (has (dev_flags d) WGDEVICE_HAS_FWMARK) (uapi_line ''fwmark'' (udec (unat (fwmark d)))) @
     print_if (has (dev_flags d) WGDEVICE_REPLACE_PEERS) (uapi_line ''replace_peers'' ''true'') @
     print_if (has (dev_flags d) WGDEVICE_HAS_JC) (uapi_line ''jc'' (udec (unat (junk_packet_count d)))) @
     print_if (has (dev_flags d) WGDEVICE_HAS_JMIN) (uapi_line ''jmin'' (udec (unat (junk_packet_min_size d)))) @
     print_if (has (dev_flags d) WGDEVICE_HAS_JMAX) (uapi_line ''jmax'' (udec (unat (junk_packet_max_size d)))) @
     print_if (has (dev_flags d) WGDEVICE_HAS_S1) (uapi_line ''s1'' (udec (unat (init_packet_junk_size d)))) @
     print_if (has (dev_flags d) WGDEVICE_HAS_S2) (uapi_line ''s2'' (udec (unat (response_packet_junk_size d)))) @
     print_if (has (dev_flags d) WGDEVICE_HAS_S3) (uapi_line ''s3'' (udec (unat (cookie_reply_packet_junk_size d)))) @
     print_if (has (dev_flags d) WGDEVICE_HAS_S4) (uapi_line ''s4'' (udec (unat (transport_packet_junk_size d)))) @
     print_if (has (dev_flags d) WGDEVICE_HAS_H1) (uapi_line ''h1'' (percent_s (init_packet_magic_header d))) @
     print_if (has (dev_flags d) WGDEVICE_HAS_H2) (uapi_line ''h2'' (percent_s (response_packet_magic_header d))) @
     print_if (has (dev_flags d) WGDEVICE_HAS_H3) (uapi_line ''h3'' (percent_s (underload_packet_magic_header d))) @
     print_if (has (dev_flags d) WGDEVICE_HAS_H4) (uapi_line ''h4'' (percent_s (transport_packet_magic_header d))) @
     print_if (has (dev_flags d) WGDEVICE_HAS_I1) (uapi_line ''i1'' (percent_s (i1 d))) @
     print_if (has (dev_flags d) WGDEVICE_HAS_I2) (uapi_line ''i2'' (percent_s (i2 d))) @
     print_if (has (dev_flags d) WGDEVICE_HAS_I3) (uapi_line ''i3'' (percent_s (i3 d))) @
     print_if (has (dev_flags d) WGDEVICE_HAS_I4) (uapi_line ''i4'' (percent_s (i4 d))) @
     print_if (has (dev_flags d) WGDEVICE_HAS_I5) (uapi_line ''i5'' (percent_s (i5 d)))"

definition uapi_allowedip :: "sys \<Rightarrow> wgallowedip \<Rightarrow> string" where
  "uapi_allowedip S a =
     (if a_family a = AF_INET \<or> a_family a = AF_INET6 then
        (case inet_ntop S (a_family a) (ip_bytes a) of
           None \<Rightarrow> []
         | Some ip \<Rightarrow> uapi_line ''allowed_ip'' (ip @ ''/'' @ udec (unat (a_cidr a))))
      else [])"

definition uapi_endpoint :: "sys \<Rightarrow> sockaddr \<Rightarrow> string" where
  "uapi_endpoint S sa =
     (if sa_fam sa = AF_INET \<or> sa_fam sa = AF_INET6 then
        (case getnameinfo S sa (sockaddr_len sa) of
           Inl _ \<Rightarrow> []
         | Inr (host, service) \<Rightarrow> uapi_line ''endpoint'' (format_endpoint sa host service))
      else [])"

definition uapi_peer :: "sys \<Rightarrow> wgpeer \<Rightarrow> string" where
  "uapi_peer S p =
     uapi_line ''public_key'' (key_to_hex (peer_public_key p)) @
     (if has (peer_flags p) WGPEER_REMOVE_ME then uapi_line ''remove'' ''true''
      else
        print_if (has (peer_flags p) WGPEER_HAS_PRESHARED_KEY)
          (uapi_line ''preshared_key'' (key_to_hex (preshared_key p))) @
        uapi_endpoint S (endpoint p) @
        print_if (has (peer_flags p) WGPEER_HAS_PERSISTENT_KEEPALIVE_INTERVAL)
          (uapi_line ''persistent_keepalive_interval'' (udec (unat (persistent_keepalive_interval p)))) @
        print_if (has (peer_flags p) WGPEER_REPLACE_ALLOWEDIPS) (uapi_line ''replace_allowed_ips'' ''true'') @
        concat (map (uapi_allowedip S) (first_allowedip p)))"

text \<open>What is written for the peers, and whether the loop ran to its end: a peer with the flag of the
  kernel's variant stops it after the key.\<close>

fun uapi_peers :: "sys \<Rightarrow> wgpeer list \<Rightarrow> string \<times> bool" where
  "uapi_peers S [] = ([], True)"
| "uapi_peers S (p # ps) =
     (if has (peer_flags p) WGPEER_HAS_AWG
      then (uapi_line ''public_key'' (key_to_hex (peer_public_key p)), False)
      else let (rest, ok) = uapi_peers S ps in (uapi_peer S p @ rest, ok))"

text \<open>The line that \<^verbatim>\<open>getline\<close> read, split at the first equals sign; the line is a C string.\<close>

definition split_line :: "string \<Rightarrow> (string \<times> string) option" where
  "split_line key =
     (case strchr key (CHR ''='') of
        None \<Rightarrow> None
      | Some i \<Rightarrow> if last key \<noteq> NL then None else Some (take i key, butlast (drop (i + 1) key)))"

text \<open>The answer to a request; \<open>err\<close> is \<^verbatim>\<open>errno\<close> when reading ends.\<close>

fun set_reply :: "int \<Rightarrow> int \<Rightarrow> string list \<Rightarrow> int" where
  "set_reply err set_errno [] = (if err \<noteq> 0 then - err else - EPROTO)"
| "set_reply err set_errno (key # ls) =
     (if key = [NL] then set_errno
      else case split_line key of
        None \<Rightarrow> (if err \<noteq> 0 then - err else - EPROTO)
      | Some (key, value) \<Rightarrow>
          if key = ''errno'' then
            (if c_at value 0 \<noteq> CHR ''-'' \<and> \<not> char_is_digit (char_int (c_at value 0))
             then (if err \<noteq> 0 then - err else - EPROTO)
             else
               let (num, end) = strtoll 10 value in
               if end \<noteq> [] \<or> num > 2 ^ 31 - 1 \<or> num < - (2 ^ 31)
               then (if err \<noteq> 0 then - err else - EPROTO)
               else set_reply err num ls)
          else set_reply err set_errno ls)"

definition userspace_set_device :: "sys \<Rightarrow> 'w unix \<Rightarrow> 'w \<Rightarrow> wgdevice \<Rightarrow> int \<times> 'w" where
  "userspace_set_device S U w dev =
     (case userspace_interface_file U w (dev_name dev) of
        (Inl e, w) \<Rightarrow> (- e, w)
      | (Inr f, w) \<Rightarrow>
          let (peers, ok) = uapi_peers S (first_peer dev) in
          if \<not> ok then (- EINVAL, snd (snd (talk U w f (uapi_device dev @ peers))))
          else
            let (reply, err, w) = talk U w f (uapi_device dev @ peers @ [NL])
            in (set_reply err (- EPROTO) (map cstr (getlines reply)), w))"

section \<open>The answer that describes an interface\<close>

text \<open>How a branch of the loop over the lines ends: \<^verbatim>\<open>break\<close> or \<^verbatim>\<open>goto err\<close> with a result.\<close>

datatype 'a flow = Next 'a | Break | Goto_err int

definition NUM :: "nat \<Rightarrow> string \<Rightarrow> nat option" where
  "NUM bound value =
     (if \<not> char_is_digit (char_int (c_at value 0)) then None
      else let (num, end) = strtoull 10 value in if end \<noteq> [] \<or> num > bound then None else Some num)"

definition num_field :: "nat \<Rightarrow> string \<Rightarrow> (nat \<Rightarrow> 'a) \<Rightarrow> 'a flow option" where
  "num_field bound value f = Some (case NUM bound value of None \<Rightarrow> Break | Some n \<Rightarrow> Next (f n))"

text \<open>The fields before the first peer; \<open>None\<close> when the key is none of them.\<close>

definition get_device_field :: "(bytes \<Rightarrow> bytes) \<Rightarrow> wgdevice \<Rightarrow> string \<Rightarrow> string \<Rightarrow> wgdevice flow option" where
  "get_device_field generate_public d key value =
     (if key = ''private_key'' then
        Some (case key_from_hex value of
            None \<Rightarrow> Break
          | Some k \<Rightarrow> Next (d\<lparr>private_key := k, dev_public_key := generate_public k,
              dev_flags := dev_flags d OR (WGDEVICE_HAS_PRIVATE_KEY OR WGDEVICE_HAS_PUBLIC_KEY)\<rparr>))
      else if key = ''listen_port'' then num_field 0xffff value (\<lambda>n.
        d\<lparr>listen_port := of_nat n, dev_flags := dev_flags d OR WGDEVICE_HAS_LISTEN_PORT\<rparr>)
      else if key = ''fwmark'' then num_field 0xffffffff value (\<lambda>n.
        d\<lparr>fwmark := of_nat n, dev_flags := dev_flags d OR WGDEVICE_HAS_FWMARK\<rparr>)
      else if key = ''jc'' then num_field 0xffff value (\<lambda>n.
        d\<lparr>junk_packet_count := of_nat n, dev_flags := dev_flags d OR WGDEVICE_HAS_JC\<rparr>)
      else if key = ''jmin'' then num_field 0xffff value (\<lambda>n.
        d\<lparr>junk_packet_min_size := of_nat n, dev_flags := dev_flags d OR WGDEVICE_HAS_JMIN\<rparr>)
      else if key = ''jmax'' then num_field 0xffff value (\<lambda>n.
        d\<lparr>junk_packet_max_size := of_nat n, dev_flags := dev_flags d OR WGDEVICE_HAS_JMAX\<rparr>)
      else if key = ''s1'' then num_field 0xffff value (\<lambda>n.
        d\<lparr>init_packet_junk_size := of_nat n, dev_flags := dev_flags d OR WGDEVICE_HAS_S1\<rparr>)
      else if key = ''s2'' then num_field 0xffff value (\<lambda>n.
        d\<lparr>response_packet_junk_size := of_nat n, dev_flags := dev_flags d OR WGDEVICE_HAS_S2\<rparr>)
      else if key = ''s3'' then num_field 0xffff value (\<lambda>n.
        d\<lparr>cookie_reply_packet_junk_size := of_nat n, dev_flags := dev_flags d OR WGDEVICE_HAS_S3\<rparr>)
      else if key = ''s4'' then num_field 0xffff value (\<lambda>n.
        d\<lparr>transport_packet_junk_size := of_nat n, dev_flags := dev_flags d OR WGDEVICE_HAS_S4\<rparr>)
      else if key = ''h1'' then Some (Next (
        d\<lparr>init_packet_magic_header := Some value, dev_flags := dev_flags d OR WGDEVICE_HAS_H1\<rparr>))
      else if key = ''h2'' then Some (Next (
        d\<lparr>response_packet_magic_header := Some value, dev_flags := dev_flags d OR WGDEVICE_HAS_H2\<rparr>))
      else if key = ''h3'' then Some (Next (
        d\<lparr>underload_packet_magic_header := Some value, dev_flags := dev_flags d OR WGDEVICE_HAS_H3\<rparr>))
      else if key = ''h4'' then Some (Next (
        d\<lparr>transport_packet_magic_header := Some value, dev_flags := dev_flags d OR WGDEVICE_HAS_H4\<rparr>))
      else if key = ''i1'' then Some (Next (d\<lparr>i1 := Some value, dev_flags := dev_flags d OR WGDEVICE_HAS_I1\<rparr>))
      else if key = ''i2'' then Some (Next (d\<lparr>i2 := Some value, dev_flags := dev_flags d OR WGDEVICE_HAS_I2\<rparr>))
      else if key = ''i3'' then Some (Next (d\<lparr>i3 := Some value, dev_flags := dev_flags d OR WGDEVICE_HAS_I3\<rparr>))
      else if key = ''i4'' then Some (Next (d\<lparr>i4 := Some value, dev_flags := dev_flags d OR WGDEVICE_HAS_I4\<rparr>))
      else if key = ''i5'' then Some (Next (d\<lparr>i5 := Some value, dev_flags := dev_flags d OR WGDEVICE_HAS_I5\<rparr>))
      else None)"

text \<open>The fields of a peer: the peer and the tail of its list of addresses.\<close>

definition get_endpoint :: "sys \<Rightarrow> wgpeer \<Rightarrow> string \<Rightarrow> wgpeer flow" where
  "get_endpoint S p value =
     (case split_endpoint value of
        Ok (begin, end) \<Rightarrow>
          (case getaddrinfo S 0 (Some begin) end of
             Inl _ \<Rightarrow> Goto_err ENETUNREACH
           | Inr resolved \<Rightarrow> if addrinfo_ok resolved then Next (p\<lparr>endpoint := ai_addr resolved\<rparr>) else Break)
      | _ \<Rightarrow> Break)"

definition get_allowed_ip :: "sys \<Rightarrow> string \<Rightarrow> wgallowedip option" where
  "get_allowed_ip S value =
     (case strchr value (CHR ''/'') of
        None \<Rightarrow> None
      | Some i \<Rightarrow>
          let ip = take i value; mask = drop (i + 1) value in
          if \<not> char_is_digit (char_int (c_at mask 0)) then None
          else
            let f = (if strchr ip (CHR '':'') \<noteq> None then AF_INET6 else AF_INET);
                a = (case inet_pton S f ip of
                       Some bs \<Rightarrow> zero_allowedip\<lparr>a_family := f, a_ip := store_ip bs (a_ip zero_allowedip)\<rparr>
                     | None \<Rightarrow> zero_allowedip);
                (num, end) = strtoul 10 mask;
                a = a\<lparr>a_cidr := of_nat num\<rparr>
            in if end \<noteq> [] \<or> a_family a = AF_UNSPEC \<or> a_family a = AF_INET6 \<and> a_cidr a > 128 \<or>
                  a_family a = AF_INET \<and> a_cidr a > 32
               then None else Some a)"

definition get_peer_field ::
  "sys \<Rightarrow> wgpeer \<times> nat option \<Rightarrow> string \<Rightarrow> string \<Rightarrow> (wgpeer \<times> nat option) flow option"
where
  "get_peer_field S pt key value =
     (let (p, t) = pt in
      if key = ''preshared_key'' then
        Some (case key_from_hex value of
            None \<Rightarrow> Break
          | Some k \<Rightarrow> Next (p\<lparr>preshared_key := k,
              peer_flags := (if \<not> key_is_zero k then peer_flags p OR WGPEER_HAS_PRESHARED_KEY else peer_flags p)\<rparr>, t))
      else if key = ''endpoint'' then
        Some (case get_endpoint S p value of Next p \<Rightarrow> Next (p, t) | Break \<Rightarrow> Break | Goto_err e \<Rightarrow> Goto_err e)
      else if key = ''persistent_keepalive_interval'' then num_field 0xffff value (\<lambda>n.
        (p\<lparr>persistent_keepalive_interval := of_nat n,
           peer_flags := peer_flags p OR WGPEER_HAS_PERSISTENT_KEEPALIVE_INTERVAL\<rparr>, t))
      else if key = ''allowed_ip'' then
        Some (case get_allowed_ip S value of
            None \<Rightarrow> Break
          | Some a \<Rightarrow> let (as, t) = link_after t a (first_allowedip p) in Next (p\<lparr>first_allowedip := as\<rparr>, t))
      else if key = ''last_handshake_time_sec'' then num_field 0x7fffffffffffffff value (\<lambda>n.
        (p\<lparr>last_handshake_time := (last_handshake_time p)\<lparr>tv_sec := of_nat n\<rparr>\<rparr>, t))
      else if key = ''last_handshake_time_nsec'' then num_field 0x7fffffffffffffff value (\<lambda>n.
        (p\<lparr>last_handshake_time := (last_handshake_time p)\<lparr>tv_nsec := of_nat n\<rparr>\<rparr>, t))
      else if key = ''rx_bytes'' then num_field 0xffffffffffffffff value (\<lambda>n. (p\<lparr>rx_bytes := of_nat n\<rparr>, t))
      else if key = ''tx_bytes'' then num_field 0xffffffffffffffff value (\<lambda>n. (p\<lparr>tx_bytes := of_nat n\<rparr>, t))
      else None)"

record get_state =
  g_dev :: wgdevice
  g_peer :: "nat option"
  g_allowedip :: "nat option"
  g_ret :: int

definition get_public_key :: "get_state \<Rightarrow> string \<Rightarrow> get_state flow" where
  "get_public_key st value =
     (let (ps, t) = link_after (g_peer st) zero_peer (first_peer (g_dev st)) in
      case key_from_hex value of
        None \<Rightarrow> Break
      | Some k \<Rightarrow>
          Next (st\<lparr>g_allowedip := None, g_peer := t,
            g_dev := (g_dev st)\<lparr>first_peer := ps[the t := (ps ! the t)\<lparr>peer_public_key := k,
              peer_flags := peer_flags (ps ! the t) OR WGPEER_HAS_PUBLIC_KEY\<rparr>]\<rparr>\<rparr>))"

definition get_errno :: "get_state \<Rightarrow> string \<Rightarrow> get_state flow" where
  "get_errno st value =
     (case NUM 0x7fffffff value of None \<Rightarrow> Break | Some n \<Rightarrow> Next (st\<lparr>g_ret := - int n\<rparr>))"

definition get_line :: "sys \<Rightarrow> (bytes \<Rightarrow> bytes) \<Rightarrow> get_state \<Rightarrow> string \<Rightarrow> string \<Rightarrow> get_state flow" where
  "get_line S generate_public st key value =
     (case (if g_peer st = None then get_device_field generate_public (g_dev st) key value else None) of
        Some (Next d) \<Rightarrow> Next (st\<lparr>g_dev := d\<rparr>)
      | Some Break \<Rightarrow> Break
      | Some (Goto_err e) \<Rightarrow> Goto_err e
      | None \<Rightarrow>
          if key = ''public_key'' then get_public_key st value
          else
            case (case g_peer st of
                    None \<Rightarrow> None
                  | Some i \<Rightarrow> get_peer_field S (first_peer (g_dev st) ! i, g_allowedip st) key value) of
              Some (Next (p, t)) \<Rightarrow>
                Next (st\<lparr>g_allowedip := t,
                  g_dev := (g_dev st)\<lparr>first_peer := (first_peer (g_dev st))[the (g_peer st) := p]\<rparr>\<rparr>)
            | Some Break \<Rightarrow> Break
            | Some (Goto_err e) \<Rightarrow> Goto_err e
            | None \<Rightarrow> if key = ''errno'' then get_errno st value else Next st)"

text \<open>The loop over the lines: the result and the device, which is freed unless the result is 0.\<close>

fun get_loop :: "sys \<Rightarrow> (bytes \<Rightarrow> bytes) \<Rightarrow> get_state \<Rightarrow> string list \<Rightarrow> int \<times> wgdevice" where
  "get_loop S generate_public st [] = (- EPROTO, g_dev st)"
| "get_loop S generate_public st (key # ls) =
     (if key = [NL] then (g_ret st, g_dev st)
      else case split_line key of
        None \<Rightarrow> (- EPROTO, g_dev st)
      | Some (key, value) \<Rightarrow>
          (case get_line S generate_public st key value of
             Next st \<Rightarrow> get_loop S generate_public st ls
           | Break \<Rightarrow> (- EPROTO, g_dev st)
           | Goto_err e \<Rightarrow> (e, g_dev st)))"

definition get_start :: "string \<Rightarrow> get_state" where
  "get_start iface = \<lparr>g_dev = zero_device\<lparr>dev_name := take (IFNAMSIZ - 1) iface\<rparr>, g_peer = None,
     g_allowedip = None, g_ret = - EPROTO\<rparr>"

definition read_reply :: "sys \<Rightarrow> (bytes \<Rightarrow> bytes) \<Rightarrow> string \<Rightarrow> string \<Rightarrow> int \<times> wgdevice option" where
  "read_reply S generate_public iface reply =
     (let (ret, dev) = get_loop S generate_public (get_start iface) (map cstr (getlines reply))
      in (ret, if ret \<noteq> 0 then None else Some dev))"

definition userspace_get_device ::
  "sys \<Rightarrow> (bytes \<Rightarrow> bytes) \<Rightarrow> 'w unix \<Rightarrow> 'w \<Rightarrow> string \<Rightarrow> int \<times> wgdevice option \<times> 'w"
where
  "userspace_get_device S generate_public U w iface =
     (case userspace_interface_file U w iface of
        (Inl e, w) \<Rightarrow> (- e, None, w)
      | (Inr f, w) \<Rightarrow>
          let (reply, _, w) = talk U w f (uapi_line ''get'' ''1'' @ [NL]);
              (ret, dev) = read_reply S generate_public iface reply
          in (ret, dev, w))"

section \<open>The choice between user space and the kernel\<close>

text \<open>The three operations of \<^verbatim>\<open>ipc-linux.h\<close> on interfaces of the kernel.\<close>

record 'w kernel =
  kernel_get_device :: "'w \<Rightarrow> string \<Rightarrow> int \<times> wgdevice option"
  kernel_set_device :: "'w \<Rightarrow> wgdevice \<Rightarrow> int \<times> 'w"
  kernel_get_wireguard_interfaces :: "allocator \<Rightarrow> 'w \<Rightarrow> string_list \<Rightarrow> (int, string_list) res"

definition get_device_ipc ::
  "sys \<Rightarrow> (bytes \<Rightarrow> bytes) \<Rightarrow> 'w unix \<Rightarrow> 'w kernel \<Rightarrow> 'w \<Rightarrow> string \<Rightarrow> int \<times> wgdevice option \<times> 'w"
where
  "get_device_ipc S generate_public U K w iface =
     (let (there, w) = userspace_has_wireguard_interface U w iface in
      if there then userspace_get_device S generate_public U w iface
      else let (ret, dev) = kernel_get_device K w iface in (ret, dev, w))"

definition set_device_ipc :: "sys \<Rightarrow> 'w unix \<Rightarrow> 'w kernel \<Rightarrow> 'w \<Rightarrow> wgdevice \<Rightarrow> int \<times> 'w" where
  "set_device_ipc S U K w dev =
     (let (there, w) = userspace_has_wireguard_interface U w (dev_name dev) in
      if there then userspace_set_device S U w dev else kernel_set_device K w dev)"

text \<open>The buffer with the names, or a null pointer; without a name it is a copy of the empty string.\<close>

definition ipc_list_devices ::
  "'w unix \<Rightarrow> 'w kernel \<Rightarrow> allocator \<Rightarrow> 'w \<Rightarrow> (int, string) res \<times> 'w"
where
  "ipc_list_devices U K realloc w =
     (case kernel_get_wireguard_interfaces K realloc w empty_list of
        Ok l \<Rightarrow>
          let (r, w) = userspace_get_wireguard_interfaces U realloc w l
          in (res_bind r (\<lambda>l. Ok (case sl_buffer l of None \<Rightarrow> [NUL] | Some b \<Rightarrow> b)), w)
      | Fail e \<Rightarrow> (Fail e, w)
      | Exit e \<Rightarrow> (Exit e, w)
      | Hang \<Rightarrow> (Hang, w)
      | Fault \<Rightarrow> (Fault, w))"

section \<open>The list of interfaces holds the names\<close>

text \<open>What the allocator documents.\<close>

definition realloc_ok :: "allocator \<Rightarrow> bool" where
  "realloc_ok realloc \<longleftrightarrow>
     (\<forall>old n b. realloc old n = Some b \<longrightarrow>
        length b = n \<and> (\<forall>s. old = Some s \<longrightarrow> length s \<le> n \<longrightarrow> take (length s) b = s))"

text \<open>The names one after the other, each with its zero, and one more zero.\<close>

definition packed :: "string list \<Rightarrow> string" where
  "packed names = concat (map (\<lambda>n. n @ [NUL]) names)"

definition sl_ok :: "string_list \<Rightarrow> string list \<Rightarrow> bool" where
  "sl_ok l names \<longleftrightarrow> sl_len l = length (packed names) \<and>
     (case sl_buffer l of
        None \<Rightarrow> names = [] \<and> sl_cap l = 0
      | Some b \<Rightarrow> length b = sl_cap l \<and> (\<exists>r. b = packed names @ NUL # r))"

lemma packed_simps [simp]: "packed [] = []" "packed (a @ b) = packed a @ packed b" "packed [n] = n @ [NUL]"
  by (simp_all add: packed_def)

lemma sl_ok_empty [simp]: "sl_ok empty_list []"
  by (simp add: sl_ok_def empty_list_def)

lemma string_list_store_ok:
  assumes "length b = sl_cap l" "sl_buffer l = Some b" "\<exists>r. b = packed names @ r"
    and "sl_len l = length (packed names)" "sl_len l + length str + 1 < sl_cap l"
  shows "\<exists>l'. string_list_store l str (length str + 1) = Ok l' \<and> sl_ok l' (names @ [str])"
proof -
  define k where "k = sl_cap l - (sl_len l + length str + 1)"
  from assms obtain r where r: "b = packed names @ r" by blast
  let ?n = "length (packed names)"
  have len: "length r = length str + 1 + k" "0 < k" using assms r by (auto simp: k_def)
  define r2 where "r2 = drop (length str + 1) r"
  have r2: "length r2 = k" using len by (simp add: r2_def)
  then obtain x r3 where r3: "r2 = x # r3" using len(2) by (cases r2) auto
  have one: "store_at (sl_buffer l) (sl_len l) (str @ [NUL]) = Ok (Some (packed names @ str @ NUL # r2))"
    using assms len by (simp add: store_at_def r r2_def)
  have two: "store_at (Some (packed names @ str @ NUL # r2)) (sl_len l + (length str + 1)) [NUL] =
      Ok (Some (packed names @ str @ NUL # NUL # r3))"
    using assms r2 r3 by (simp add: store_at_def)
  have "sl_ok (l\<lparr>sl_buffer := Some (packed names @ str @ NUL # NUL # r3), sl_len := sl_len l + (length str + 1)\<rparr>) (names @ [str])"
    using assms len r r2 r3 by (auto simp: sl_ok_def)
  then show ?thesis unfolding string_list_store_def one two res_bind.simps by blast
qed

lemma string_list_grow_ok:
  assumes "realloc_ok realloc" "sl_ok l names"
  shows "string_list_grow realloc l len = Fail (- ENOMEM) \<or>
    (\<exists>l' b. string_list_grow realloc l len = Ok l' \<and> sl_buffer l' = Some b \<and> length b = sl_cap l' \<and>
      (\<exists>r. b = packed names @ r) \<and> sl_len l' = sl_len l \<and> sl_len l' + len < sl_cap l')"
proof -
  define new_cap where "new_cap = (if sl_cap l * 2 < sl_len l + len + 1 then sl_len l + len + 1 else sl_cap l * 2)"
  show ?thesis
  proof (cases "realloc (sl_buffer l) new_cap")
    case (Some b)
    have blk: "length b = new_cap" "\<And>s. sl_buffer l = Some s \<Longrightarrow> length s \<le> new_cap \<Longrightarrow> take (length s) b = s"
      using assms(1) Some unfolding realloc_ok_def by blast+
    have "\<exists>r. b = packed names @ r"
    proof (cases "sl_buffer l")
      case (Some s)
      with assms(2) obtain r where r: "s = packed names @ NUL # r" "length s = sl_cap l" by (auto simp: sl_ok_def)
      have "length s \<le> new_cap" using r by (auto simp: new_cap_def)
      with blk(2) [OF Some] have "b = s @ drop (length s) b" by (metis append_take_drop_id)
      with r(1) show ?thesis by (metis append.assoc)
    qed (use assms(2) in \<open>simp add: sl_ok_def\<close>)
    with Some blk(1) show ?thesis
      unfolding string_list_grow_def Let_def new_cap_def [symmetric] by (simp add: new_cap_def)
  next
    case None
    then show ?thesis unfolding string_list_grow_def Let_def new_cap_def [symmetric] by simp
  qed
qed

lemma string_list_add_ok:
  assumes "realloc_ok realloc" "sl_ok l names" "str \<noteq> []"
  shows "string_list_add realloc l str = Fail (- ENOMEM) \<or>
    (\<exists>l'. string_list_add realloc l str = Ok l' \<and> sl_ok l' (names @ [str]))"
proof (cases "length str + 1 \<ge> sl_cap l - sl_len l")
  case True
  then have add: "string_list_add realloc l str =
      res_bind (string_list_grow realloc l (length str + 1)) (\<lambda>l. string_list_store l str (length str + 1))"
    using assms(3) by (simp add: string_list_add_def)
  from string_list_grow_ok [OF assms(1,2), of "length str + 1"] show ?thesis
  proof (elim disjE exE conjE)
    fix l' b r
    assume g: "string_list_grow realloc l (length str + 1) = Ok l'" "sl_buffer l' = Some b"
      "length b = sl_cap l'" "b = packed names @ r" "sl_len l' = sl_len l" "sl_len l' + (length str + 1) < sl_cap l'"
    have "\<exists>l''. string_list_store l' str (length str + 1) = Ok l'' \<and> sl_ok l'' (names @ [str])"
      using g assms(2) by (intro string_list_store_ok [of b]) (auto simp: sl_ok_def)
    with g(1) show ?thesis by (simp add: add)
  qed (simp add: add)
next
  case False
  then obtain b where b: "sl_buffer l = Some b" using assms(2) by (cases "sl_buffer l") (auto simp: sl_ok_def)
  have "\<exists>l'. string_list_store l str (length str + 1) = Ok l' \<and> sl_ok l' (names @ [str])"
    using b False assms(2) by (intro string_list_store_ok [of b]) (auto simp: sl_ok_def)
  with False assms(3) show ?thesis by (simp add: string_list_add_def)
qed

text \<open>How the callers walk over the buffer: \<^verbatim>\<open>(len = strlen(p)); p += len + 1\<close>.\<close>

function names_in :: "string \<Rightarrow> string list" where
  "names_in b = (if cstr b = [] then [] else cstr b # names_in (drop (length (cstr b) + 1) b))"
  by pat_completeness auto
termination
  by (relation "measure length") (auto simp: cstr_def intro!: diff_less)

declare names_in.simps [simp del]

lemma cstr_append_NUL: "NUL \<notin> set n \<Longrightarrow> cstr (n @ NUL # r) = n"
  by (induction n) (auto simp: cstr_def)

lemma names_in_packed:
  "list_all (\<lambda>n. n \<noteq> [] \<and> NUL \<notin> set n) names \<Longrightarrow> names_in (packed names @ NUL # r) = names"
proof (induction names)
  case Nil
  then show ?case by (subst names_in.simps) (simp add: cstr_def)
next
  case (Cons n names)
  have "packed (n # names) @ NUL # r = n @ NUL # (packed names @ NUL # r)" by (simp add: packed_def)
  with Cons show ?case by (subst names_in.simps) (simp add: cstr_append_NUL)
qed

text \<open>The names whose sockets answer, in the order of the directory.\<close>

fun answering :: "'w unix \<Rightarrow> 'w \<Rightarrow> string list \<Rightarrow> string list" where
  "answering U w [] = []"
| "answering U w (e # es) =
     (if \<exists>name. name \<noteq> [] \<and> e = name @ SOCK_SUFFIX then
        let name = take (length e - length SOCK_SUFFIX) e; (there, w) = userspace_has_wireguard_interface U w name
        in (if there then [name] else []) @ answering U w es
      else answering U w es)"

lemma suffix_iff:
  "(\<exists>name. name \<noteq> [] \<and> e = name @ SOCK_SUFFIX) \<longleftrightarrow>
     length SOCK_SUFFIX < length e \<and> drop (length e - length SOCK_SUFFIX) e = SOCK_SUFFIX"
proof
  assume a: "length SOCK_SUFFIX < length e \<and> drop (length e - length SOCK_SUFFIX) e = SOCK_SUFFIX"
  then have "e = take (length e - length SOCK_SUFFIX) e @ SOCK_SUFFIX" by (metis append_take_drop_id)
  with a show "\<exists>name. name \<noteq> [] \<and> e = name @ SOCK_SUFFIX"
    by (intro exI [of _ "take (length e - length SOCK_SUFFIX) e"]) auto
qed auto

text \<open>Success with \<open>P\<close>, or no memory: never an access outside a block.\<close>

definition or_enomem :: "('a \<Rightarrow> bool) \<Rightarrow> (int, 'a) res \<Rightarrow> bool" where
  "or_enomem P r \<longleftrightarrow> r = Fail (- ENOMEM) \<or> (\<exists>x. r = Ok x \<and> P x)"

lemma interfaces_loop_ok:
  assumes "realloc_ok realloc" "sl_ok l names"
  shows "or_enomem (\<lambda>l'. sl_ok l' (names @ answering U w ents)) (fst (interfaces_loop U realloc w l ents))"
  using assms(2)
proof (induction ents arbitrary: w l names)
  case Nil
  then show ?case by (simp add: or_enomem_def)
next
  case (Cons e ents)
  define name where "name = take (length e - length SOCK_SUFFIX) e"
  obtain there w' where h: "userspace_has_wireguard_interface U w name = (there, w')" by fastforce
  show ?case
  proof (cases "\<exists>name. name \<noteq> [] \<and> e = name @ SOCK_SUFFIX")
    case True
    then have cond: "length SOCK_SUFFIX < length e" "drop (length e - length SOCK_SUFFIX) e = SOCK_SUFFIX"
      by (simp_all add: suffix_iff)
    then have "length name > 0" by (simp add: name_def)
    then have "name \<noteq> []" by simp
    have loop: "interfaces_loop U realloc w l (e # ents) =
        (if \<not> there then interfaces_loop U realloc w' l ents
         else case string_list_add realloc l name of
           Ok l \<Rightarrow> interfaces_loop U realloc w' l ents | r \<Rightarrow> (r, w'))"
      using cond h by (simp add: name_def Let_def split: res.splits)
    have ans: "answering U w (e # ents) = (if there then [name] else []) @ answering U w' ents"
      unfolding answering.simps if_P [OF True] using h by (simp add: name_def)
    show ?thesis
    proof (cases there)
      case False
      with Cons.IH [OF Cons.prems, of w'] show ?thesis unfolding loop ans by simp
    next
      case there: True
      from string_list_add_ok [OF assms(1) Cons.prems \<open>name \<noteq> []\<close>] show ?thesis
      proof (elim disjE exE conjE)
        assume "string_list_add realloc l name = Fail (- ENOMEM)"
        with there show ?thesis unfolding loop ans by (simp add: or_enomem_def)
      next
        fix l' assume "string_list_add realloc l name = Ok l'" "sl_ok l' (names @ [name])"
        with there Cons.IH [of l' "names @ [name]" w'] show ?thesis unfolding loop ans by simp
      qed
    qed
  next
    case False
    then have "\<not> (length SOCK_SUFFIX < length e \<and> drop (length e - length SOCK_SUFFIX) e = SOCK_SUFFIX)"
      by (simp only: suffix_iff) simp
    with False Cons.IH [OF Cons.prems] show ?thesis
      by (simp only: answering.simps interfaces_loop.simps if_False Let_def) auto
  qed
qed

section \<open>The answer of an interface is well formed\<close>

text \<open>The invariant of the reader: the tail pointers are right, keys and addresses have their sizes, and
  every peer has its key.\<close>

definition got_peer :: "wgpeer \<Rightarrow> bool" where
  "got_peer p \<longleftrightarrow> wf_peer p \<and> has (peer_flags p) WGPEER_HAS_PUBLIC_KEY"

definition got_device :: "wgdevice \<Rightarrow> bool" where
  "got_device d \<longleftrightarrow> length (private_key d) = WG_KEY_LEN \<and> length (dev_public_key d) = WG_KEY_LEN \<and>
     list_all got_peer (first_peer d)"

definition get_inv :: "get_state \<Rightarrow> bool" where
  "get_inv st \<longleftrightarrow> got_device (g_dev st) \<and> tail_ok (g_peer st) (first_peer (g_dev st)) \<and>
     (case g_peer st of
        None \<Rightarrow> g_allowedip st = None
      | Some i \<Rightarrow> tail_ok (g_allowedip st) (first_allowedip (first_peer (g_dev st) ! i))) \<and>
     g_ret st \<le> 0"

text \<open>One case of a chain of conditions after the other.\<close>

lemma if_cases: "(if c then a else b) = x \<Longrightarrow> (a = x \<Longrightarrow> R) \<Longrightarrow> (b = x \<Longrightarrow> R) \<Longrightarrow> R"
  by (simp split: if_splits)

lemma num_field_Next: "num_field b v f = Some (Next x) \<Longrightarrow> (\<And>n. x = f n \<Longrightarrow> R) \<Longrightarrow> R"
  and num_field_no_err: "num_field b v f \<noteq> Some (Goto_err e)"
  by (auto simp: num_field_def split: option.splits)

lemma get_device_field_ok:
  assumes "get_device_field pub d key value = Some (Next d')" "got_device d"
    and "\<And>k. length k = WG_KEY_LEN \<Longrightarrow> length (pub k) = WG_KEY_LEN"
  shows "got_device d' \<and> first_peer d' = first_peer d"
  using assms(1) unfolding get_device_field_def
proof (elim if_cases num_field_Next)
  assume "Some (case key_from_hex value of None \<Rightarrow> Break
    | Some k \<Rightarrow> Next (d\<lparr>private_key := k, dev_public_key := pub k,
        dev_flags := dev_flags d OR (WGDEVICE_HAS_PRIVATE_KEY OR WGDEVICE_HAS_PUBLIC_KEY)\<rparr>)) = Some (Next d')"
  then obtain k where "key_from_hex value = Some k"
    "d' = d\<lparr>private_key := k, dev_public_key := pub k,
        dev_flags := dev_flags d OR (WGDEVICE_HAS_PRIVATE_KEY OR WGDEVICE_HAS_PUBLIC_KEY)\<rparr>"
    by (simp split: option.splits)
  moreover from this(1) have "length k = WG_KEY_LEN" by (rule key_from_hex_length)
  ultimately show ?thesis using assms(2,3) by (simp add: got_device_def)
qed (insert assms(2), simp_all add: got_device_def, auto)

lemma get_device_field_no_err: "get_device_field pub d key value = Some (Goto_err e) \<Longrightarrow> False"
  unfolding get_device_field_def
  by (elim if_cases) (auto simp: num_field_no_err split: option.splits)

text \<open>The fields of a peer keep it well formed and its tail pointer right.\<close>

lemma get_allowed_ip_wf:
  assumes "pton_sizes S" "get_allowed_ip S value = Some a"
  shows "wf_allowedip a"
proof -
  obtain i where i: "strchr value (CHR ''/'') = Some i"
    using assms(2) by (auto simp: get_allowed_ip_def split: option.splits)
  let ?f = "if strchr (take i value) (CHR '':'') \<noteq> None then AF_INET6 else AF_INET"
  obtain num r where n: "strtoul 10 (drop (i + 1) value) = (num, r)" by fastforce
  show ?thesis
  proof (cases "inet_pton S ?f (take i value)")
    case None
    with assms(2) i n show ?thesis by (simp add: get_allowed_ip_def zero_allowedip_def Let_def split: if_splits)
  next
    case (Some bs)
    with pton_sizesD [OF assms(1) Some]
    have "length (store_ip bs (a_ip zero_allowedip)) = 16"
      by (auto simp: store_ip_def zero_allowedip_def addr_len_def split: if_splits)
    with assms(2) i n Some show ?thesis
      by (auto simp: get_allowed_ip_def wf_allowedip_def max_cidr_def word_less_nat_alt not_less Let_def split: if_splits)
  qed
qed

definition peer_inv :: "wgpeer \<times> nat option \<Rightarrow> bool" where
  "peer_inv pt \<longleftrightarrow> got_peer (fst pt) \<and> tail_ok (snd pt) (first_allowedip (fst pt))"

lemma get_endpoint_Next: "get_endpoint S p value = Next p' \<Longrightarrow> \<exists>sa. p' = p\<lparr>endpoint := sa\<rparr>"
  by (auto simp: get_endpoint_def split: res.splits sum.splits if_splits)

lemma get_endpoint_err: "get_endpoint S p value = Goto_err e \<Longrightarrow> e = ENETUNREACH"
  by (auto simp: get_endpoint_def split: res.splits sum.splits if_splits)

lemma got_peer_simps [simp]:
  "got_peer (p\<lparr>endpoint := sa\<rparr>) = got_peer p"
  "got_peer (p\<lparr>last_handshake_time := ts\<rparr>) = got_peer p"
  "got_peer (p\<lparr>rx_bytes := n\<rparr>) = got_peer p" "got_peer (p\<lparr>tx_bytes := n\<rparr>) = got_peer p"
  by (simp_all add: got_peer_def wf_peer_def)

lemma get_peer_field_ok:
  assumes "get_peer_field S (p, t) key value = Some (Next pt)" "pton_sizes S" "peer_inv (p, t)"
  shows "peer_inv pt"
  using assms(1) unfolding get_peer_field_def Let_def prod.case
proof (elim if_cases num_field_Next)
  assume a: "Some (case get_allowed_ip S value of None \<Rightarrow> Break
      | Some a \<Rightarrow> case link_after t a (first_allowedip p) of (as, t) \<Rightarrow> Next (p\<lparr>first_allowedip := as\<rparr>, t)) = Some (Next pt)"
  then obtain a where ip: "get_allowed_ip S value = Some a" by (auto split: option.splits)
  from assms(3) have "tail_ok t (first_allowedip p)" by (simp add: peer_inv_def)
  from link_after_ok [OF this, of a] a ip get_allowed_ip_wf [OF assms(2) ip] assms(3) show ?thesis
    by (auto simp: peer_inv_def got_peer_def wf_peer_def split: prod.splits)
next
  assume "Some (case get_endpoint S p value of Next p \<Rightarrow> Next (p, t) | Break \<Rightarrow> Break | Goto_err e \<Rightarrow> Goto_err e) = Some (Next pt)"
  then show ?thesis
    using assms(3) by (auto simp: peer_inv_def split: flow.splits dest: get_endpoint_Next)
qed (use assms(3) in \<open>auto simp: peer_inv_def got_peer_def wf_peer_def split: option.splits if_splits dest: key_from_hex_length\<close>)

lemma get_peer_field_err: "get_peer_field S pt key value = Some (Goto_err e) \<Longrightarrow> e = ENETUNREACH"
  unfolding get_peer_field_def Let_def
  by (cases pt; simp only: prod.case; elim if_cases)
    (auto simp: num_field_no_err split: option.splits flow.splits prod.splits dest: get_endpoint_err)

lemma get_public_key_ok:
  assumes "get_public_key st value = Next st'" "get_inv st"
  shows "get_inv st'"
proof -
  let ?ps = "first_peer (g_dev st)"
  from assms(2) have t: "tail_ok (g_peer st) ?ps" by (simp add: get_inv_def)
  obtain ps t' where l: "link_after (g_peer st) zero_peer ?ps = (ps, t')" by fastforce
  with link_after_ok [OF t, of zero_peer] have ps: "ps = ?ps @ [zero_peer]" "tail_ok t' (?ps @ [zero_peer])" by auto
  then have t': "t' = Some (length ?ps)" by (auto simp: tail_ok_def split: option.splits)
  obtain k where k: "key_from_hex value = Some k" using assms(1) l by (auto simp: get_public_key_def split: option.splits)
  have "got_peer (zero_peer\<lparr>peer_public_key := k, peer_flags := peer_flags zero_peer OR WGPEER_HAS_PUBLIC_KEY\<rparr>)"
    using key_from_hex_length [OF k] by (simp add: got_peer_def wf_peer_def zero_peer_def zero_key_def has_def flag_defs)
  moreover have "first_allowedip zero_peer = []" by (simp add: zero_peer_def)
  ultimately show ?thesis
    using assms l k ps t' by (auto simp: get_public_key_def get_inv_def got_device_def tail_ok_def)
qed

lemma get_errno_ok: "get_errno st value = Next st' \<Longrightarrow> get_inv st \<Longrightarrow> get_inv st'"
  by (auto simp: get_errno_def get_inv_def split: option.splits)

lemma get_line_peer_ok:
  assumes "get_peer_field S (first_peer (g_dev st) ! i, g_allowedip st) key value = Some (Next (p, t))"
    and "pton_sizes S" "get_inv st" "g_peer st = Some i"
  shows "get_inv (st\<lparr>g_allowedip := t, g_dev := (g_dev st)\<lparr>first_peer := (first_peer (g_dev st))[i := p]\<rparr>\<rparr>)"
proof -
  let ?ps = "first_peer (g_dev st)"
  from assms(3,4) have i: "length ?ps = Suc i" by (simp add: get_inv_def tail_ok_def)
  have "peer_inv (?ps ! i, g_allowedip st)"
    using assms(3,4) i by (auto simp: peer_inv_def get_inv_def got_device_def list_all_length)
  from get_peer_field_ok [OF assms(1,2) this] have "got_peer p" "tail_ok t (first_allowedip p)" by (auto simp: peer_inv_def)
  then show ?thesis
    using assms(3,4) i by (auto simp: get_inv_def got_device_def tail_ok_def list_all_length nth_list_update)
qed

lemma get_line_ok:
  assumes "get_line S pub st key value = Next st'" "pton_sizes S" "get_inv st"
    and "\<And>k. length k = WG_KEY_LEN \<Longrightarrow> length (pub k) = WG_KEY_LEN"
  shows "get_inv st'"
proof (cases "if g_peer st = None then get_device_field pub (g_dev st) key value else None")
  case (Some r)
  with assms(1) obtain d where d: "r = Next d" "st' = st\<lparr>g_dev := d\<rparr>"
    by (auto simp: get_line_def split: flow.splits)
  from Some have "g_peer st = None" "get_device_field pub (g_dev st) key value = Some (Next d)"
    by (auto simp: d split: if_splits)
  with get_device_field_ok [OF this(2) _ assms(4)] assms(3) show ?thesis by (simp add: get_inv_def d)
next
  case None
  show ?thesis
  proof (cases "key = ''public_key''")
    case True
    then have "get_public_key st value = Next st'" using assms(1) unfolding get_line_def None by simp
    then show ?thesis using assms(3) by (rule get_public_key_ok)
  next
    case False
    show ?thesis
    proof (cases "case g_peer st of None \<Rightarrow> None
        | Some i \<Rightarrow> get_peer_field S (first_peer (g_dev st) ! i, g_allowedip st) key value")
      case none: None
      then have "key = ''errno'' \<and> get_errno st value = Next st' \<or> st' = st"
        using False assms(1) unfolding get_line_def None by (auto split: if_splits)
      then show ?thesis using assms(3) get_errno_ok by blast
    next
      case (Some r)
      then obtain i where i: "g_peer st = Some i"
        "get_peer_field S (first_peer (g_dev st) ! i, g_allowedip st) key value = Some r"
        by (auto split: option.splits)
      with False obtain p t where "r = Next (p, t)"
        "st' = st\<lparr>g_allowedip := t, g_dev := (g_dev st)\<lparr>first_peer := (first_peer (g_dev st))[i := p]\<rparr>\<rparr>"
        using assms(1) unfolding get_line_def None by (auto split: flow.splits prod.splits)
      with get_line_peer_ok [OF _ assms(2,3) i(1)] i(2) show ?thesis by simp
    qed
  qed
qed

lemma get_line_err: "get_line S pub st key value = Goto_err e \<Longrightarrow> e = ENETUNREACH"
  by (auto simp: get_line_def get_public_key_def get_errno_def
      split: option.splits flow.splits if_splits prod.splits
      dest: get_device_field_no_err get_peer_field_err)

lemma get_loop_ok:
  assumes "pton_sizes S" "\<And>k. length k = WG_KEY_LEN \<Longrightarrow> length (pub k) = WG_KEY_LEN"
  shows "get_inv st \<Longrightarrow> get_loop S pub st ls = (ret, d) \<Longrightarrow> (ret = 0 \<longrightarrow> got_device d) \<and> (ret \<le> 0 \<or> ret = ENETUNREACH)"
proof (induction ls arbitrary: st)
  case (Cons key ls)
  show ?case
  proof (cases "split_line key")
    case None
    with Cons.prems show ?thesis by (auto simp: get_inv_def split: if_splits)
  next
    case (Some kv)
    obtain k v where kv: "kv = (k, v)" by (cases kv)
    show ?thesis
    proof (cases "get_line S pub st k v")
      case (Next st')
      with get_line_ok [OF Next assms(1) Cons.prems(1) assms(2)] Cons.IH [of st'] Cons.prems Some kv
      show ?thesis by (auto simp: get_inv_def split: if_splits)
    next
      case Break
      with Cons.prems Some kv show ?thesis by (auto simp: get_inv_def split: if_splits)
    next
      case (Goto_err e)
      with get_line_err [OF Goto_err] Cons.prems Some kv show ?thesis by (auto simp: get_inv_def split: if_splits)
    qed
  qed
qed simp

lemma get_inv_start: "get_inv (get_start iface)"
  by (simp add: get_inv_def get_start_def got_device_def zero_device_def zero_key_def)

section \<open>The answer to a request\<close>

definition errno_line :: "string \<Rightarrow> bool" where
  "errno_line l \<longleftrightarrow> (\<exists>v. split_line l = Some (''errno'', v))"

text \<open>A result of 0 that the reader did not start with comes from the last error line before the
  first empty one.\<close>

lemma set_reply_zero:
  "set_reply err n ls = 0 \<Longrightarrow>
     n = 0 \<and> (\<exists>b post. ls = b @ [NL] # post \<and> \<not> list_ex errno_line b) \<or>
     (\<exists>a l b post v. ls = a @ l # b @ [NL] # post \<and> split_line l = Some (''errno'', v) \<and>
        fst (strtoll 10 v) = 0 \<and> \<not> list_ex errno_line b)"
proof (induction ls arbitrary: n)
  case Nil
  then show ?case by (simp split: if_splits)
next
  case (Cons l ls)
  show ?case
  proof (cases "l = [NL]")
    case True
    with Cons.prems have "n = 0" by simp
    then show ?thesis using True by (intro disjI1) (auto intro: exI [of _ "[]"])
  next
    case False
    with Cons.prems obtain k v where kv: "split_line l = Some (k, v)"
      by (auto split: option.splits if_splits)
    show ?thesis
    proof (cases "k = ''errno''")
      case True
      obtain num e where num: "strtoll 10 v = (num, e)" by fastforce
      with Cons.prems False kv True have "set_reply err num ls = 0"
        by (auto split: if_splits)
      from Cons.IH [OF this] show ?thesis
      proof (elim disjE conjE exE)
        fix b post assume "num = 0" "ls = b @ [NL] # post" "\<not> list_ex errno_line b"
        then show ?thesis using kv True num
          by (intro disjI2 exI [of _ "[]"] exI [of _ l] exI [of _ b] exI [of _ post] exI [of _ v]) simp
      next
        fix a l' b post v' assume "ls = a @ l' # b @ [NL] # post" "split_line l' = Some (''errno'', v')"
          "fst (strtoll 10 v') = 0" "\<not> list_ex errno_line b"
        then show ?thesis
          by (intro disjI2 exI [of _ "l # a"] exI [of _ l'] exI [of _ b] exI [of _ post] exI [of _ v']) simp
      qed
    next
      case other: False
      with Cons.prems False kv have "set_reply err n ls = 0" by simp
      from Cons.IH [OF this] show ?thesis
      proof (elim disjE conjE exE)
        fix b post assume "n = 0" "ls = b @ [NL] # post" "\<not> list_ex errno_line b"
        moreover have "\<not> errno_line l" using kv other by (simp add: errno_line_def)
        ultimately show ?thesis by (intro disjI1 conjI exI [where x = "l # b"] exI [where x = post]) simp_all
      next
        fix a l' b post v' assume "ls = a @ l' # b @ [NL] # post" "split_line l' = Some (''errno'', v')"
          "fst (strtoll 10 v') = 0" "\<not> list_ex errno_line b"
        then show ?thesis
          by (intro disjI2 exI [of _ "l # a"] exI [of _ l'] exI [of _ b] exI [of _ post] exI [of _ v']) simp
      qed
    qed
  qed
qed

lemma interface_file_slash:
  "CHR ''/'' \<in> set iface \<Longrightarrow> userspace_interface_file U w iface = (Inl EINVAL, w)"
  "CHR ''/'' \<in> set iface \<Longrightarrow> userspace_has_wireguard_interface U w iface = (False, w)"
  using strchr_None_iff [of iface "CHR ''/''"]
  by (simp_all add: userspace_interface_file_def userspace_has_wireguard_interface_def Let_def)

lemma uapi_peers_awg:
  "list_all (\<lambda>p. \<not> has (peer_flags p) WGPEER_HAS_AWG) ps \<Longrightarrow> has (peer_flags q) WGPEER_HAS_AWG \<Longrightarrow>
     uapi_peers S (ps @ q # qs) =
       (concat (map (uapi_peer S) ps) @ uapi_line ''public_key'' (key_to_hex (peer_public_key q)), False)"
  by (induction ps) simp_all

lemma interfaces_names:
  assumes "realloc_ok realloc" "sl_ok l names" "list_all (\<lambda>n. n \<noteq> [] \<and> NUL \<notin> set n) (names @ answering U w ents)"
    and "sys_readdir U w (SOCK_PATH U) = Inr ents"
  shows "or_enomem (\<lambda>b. names_in b = names @ answering U w ents)
    (res_bind (fst (userspace_get_wireguard_interfaces U realloc w l))
      (\<lambda>l. Ok (case sl_buffer l of None \<Rightarrow> [NUL] | Some b \<Rightarrow> b)))"
proof -
  have n: "names_in [NUL] = []" using names_in_packed [of "[]" "[]"] by simp
  have "names_in (case sl_buffer l' of None \<Rightarrow> [NUL] | Some b \<Rightarrow> b) = names @ answering U w ents"
    if "sl_ok l' (names @ answering U w ents)" for l'
    using that names_in_packed [OF assms(3)] by (auto simp: sl_ok_def n split: option.splits)
  with interfaces_loop_ok [OF assms(1,2), of U w ents] assms(4) show ?thesis
    by (auto simp: userspace_get_wireguard_interfaces_def or_enomem_def)
qed

lemma answering_names: "list_all (\<lambda>n. NUL \<notin> set n) ents \<Longrightarrow> list_all (\<lambda>n. n \<noteq> [] \<and> NUL \<notin> set n) (answering U w ents)"
proof (induction ents arbitrary: w)
  case (Cons e ents)
  show ?case
  proof (cases "\<exists>name. name \<noteq> [] \<and> e = name @ SOCK_SUFFIX")
    case True
    then obtain name where "name \<noteq> []" "e = name @ SOCK_SUFFIX" by blast
    with Cons True show ?thesis by (simp add: Let_def split: prod.splits)
  next
    case False
    with Cons show ?thesis by (simp only: answering.simps if_False) simp
  qed
qed simp

section \<open>Properties\<close>

text \<open>C16. Whatever a process in user space answers, the reader ends with an error and no device, or with
  success and a device whose keys have 32 bytes, whose peers all have a public key and whose allowed
  addresses have a family and a prefix length that fits it.  The only error that is not negative is
  the one for an endpoint that cannot be resolved.\<close>

theorem uapi_answer_well_formed:
  assumes "pton_sizes S" "\<And>k. length k = WG_KEY_LEN \<Longrightarrow> length (generate_public k) = WG_KEY_LEN"
    and "read_reply S generate_public iface reply = (ret, dev)"
  shows "(dev = None \<longleftrightarrow> ret \<noteq> 0) \<and> (\<forall>d. dev = Some d \<longrightarrow> got_device d) \<and> (ret \<le> 0 \<or> ret = ENETUNREACH)"
  using assms(3) get_loop_ok [OF assms(1,2) get_inv_start]
  by (auto simp: read_reply_def split: prod.splits if_splits)

theorem uapi_answer_well_formed_witness:
  "\<exists>d. read_reply sample_sys (\<lambda>k. k) ''wg0'' (''jc=4'' @ [NL] @ ''errno=0'' @ [NL, NL]) = (0, Some d) \<and> got_device d"
proof -
  let ?r = "read_reply sample_sys (\<lambda>k. k) ''wg0'' (''jc=4'' @ [NL] @ ''errno=0'' @ [NL, NL])"
  have id: "length k = WG_KEY_LEN \<Longrightarrow> length ((\<lambda>k. k) k) = WG_KEY_LEN" for k :: bytes by simp
  have ls: "map cstr (getlines (''jc=4'' @ [NL] @ ''errno=0'' @ [NL, NL])) = [''jc=4'' @ [NL], ''errno=0'' @ [NL], [NL]]"
    by (simp add: cstr_def)
  have num: "NUM 65535 ''4'' = Some 4" "NUM 2147483647 ''0'' = Some 0"
    by (simp_all add: NUM_def is_c_digit_def strtou_def is_c_space_def is_digit_of_def digit_val_def num_of_def)
  have "fst ?r = 0"
    unfolding read_reply_def ls
    by (simp add: split_line_def get_line_def get_device_field_def num_field_def get_start_def get_errno_def num)
  moreover obtain dev where dev: "?r = (fst ?r, dev)" by (cases ?r) simp
  ultimately show ?thesis using uapi_answer_well_formed [OF pton_sizes_sample id dev] by (cases dev) auto
qed

text \<open>C19. The list of interfaces never writes outside its block, and what the callers read from it are
  exactly the names the kernel gave, followed by the names of the sockets that answer, in the order
  of the directory; without memory the result is the error for it.\<close>

theorem interface_list_exact:
  assumes "realloc_ok realloc" "kernel_get_wireguard_interfaces K realloc w empty_list = Ok l" "sl_ok l names"
    and "list_all (\<lambda>n. n \<noteq> [] \<and> NUL \<notin> set n) names"
    and "sys_readdir U w (SOCK_PATH U) = Inr ents" "list_all (\<lambda>e. NUL \<notin> set e) ents"
  shows "fst (ipc_list_devices U K realloc w) = Fail (- ENOMEM) \<or>
    (\<exists>b. fst (ipc_list_devices U K realloc w) = Ok b \<and> names_in b = names @ answering U w ents)"
proof -
  have "list_all (\<lambda>n. n \<noteq> [] \<and> NUL \<notin> set n) (names @ answering U w ents)"
    using assms(4) answering_names [OF assms(6)] by simp
  from interfaces_names [OF assms(1,3) this assms(5)] show ?thesis
    using assms(2)
    by (cases "userspace_get_wireguard_interfaces U realloc w l") (simp add: ipc_list_devices_def or_enomem_def)
qed

definition sample_unix :: "unit unix" where
  "sample_unix = \<lparr>run_dir = ''/var/run'', sys_stat = (\<lambda>w path. Inr True), sys_socket = (\<lambda>w. 0),
     sys_connect = (\<lambda>w path. 0), sys_fdopen = (\<lambda>w. 0), sys_unlink = (\<lambda>w path. (0, ())),
     sys_readdir = (\<lambda>w path. Inr [''.'', ''..'', ''wg0.sock'', ''wg1.sock'']),
     talk = (\<lambda>w path request. (''errno=0'' @ [NL, NL], 0, ()))\<rparr>"

definition sample_kernel :: "unit kernel" where
  "sample_kernel = \<lparr>kernel_get_device = (\<lambda>w n. (- 19, None)), kernel_set_device = (\<lambda>w d. (- 19, ())),
     kernel_get_wireguard_interfaces = (\<lambda>realloc w l. Ok l)\<rparr>"

definition sample_realloc :: allocator where
  "sample_realloc old n =
     (let s = (case old of None \<Rightarrow> [] | Some s \<Rightarrow> s) in Some (take n s @ replicate (n - length s) NUL))"

lemma sample_realloc_ok: "realloc_ok sample_realloc"
  by (auto simp: realloc_ok_def sample_realloc_def Let_def)

theorem interface_list_exact_witness:
  "fst (ipc_list_devices sample_unix sample_kernel sample_realloc ()) = Fail (- ENOMEM) \<or>
   (\<exists>b. fst (ipc_list_devices sample_unix sample_kernel sample_realloc ()) = Ok b \<and> names_in b = [''wg0'', ''wg1''])"
proof -
  have h: "userspace_has_wireguard_interface sample_unix w ''wg0'' = (True, w)"
    "userspace_has_wireguard_interface sample_unix w ''wg1'' = (True, w)" for w
    by (simp_all add: userspace_has_wireguard_interface_def sample_unix_def)
  have "answering sample_unix () [''.'', ''..'', ''wg0.sock'', ''wg1.sock''] = [''wg0'', ''wg1'']"
    unfolding answering.simps suffix_iff by (simp add: SOCK_SUFFIX_def h)
  then show ?thesis
    using interface_list_exact [of sample_realloc sample_kernel "()" empty_list "[]" sample_unix
        "[''.'', ''..'', ''wg0.sock'', ''wg1.sock'']"] sample_realloc_ok
    by (simp add: sample_kernel_def sample_unix_def)
qed



text \<open>A name with a slash never reaches the file system: getting, setting and probing such an interface
  fail at once, whatever the directory holds.\<close>

theorem no_path_traversal:
  assumes "CHR ''/'' \<in> set (dev_name dev)"
  shows "userspace_get_device S generate_public U w (dev_name dev) = (- EINVAL, None, w) \<and>
    userspace_set_device S U w dev = (- EINVAL, w) \<and>
    userspace_has_wireguard_interface U w (dev_name dev) = (False, w)"
  using interface_file_slash [OF assms, of U w] by (simp add: userspace_get_device_def userspace_set_device_def)

theorem no_path_traversal_witness:
  "userspace_set_device sample_sys sample_unix () (zero_device\<lparr>dev_name := ''../wg0''\<rparr>) = (- EINVAL, ())"
  using no_path_traversal [of "zero_device\<lparr>dev_name := ''../wg0''\<rparr>" sample_sys "\<lambda>k. k" sample_unix "()"] by simp

text \<open>A peer with the setting of the kernel's variant makes the request fail, but only after the device,
  the peers before it and its own key have been written, without the empty line that ends a request.\<close>

theorem awg_peer_refused_halfway:
  assumes "first_peer dev = ps @ q # qs" "list_all (\<lambda>p. \<not> has (peer_flags p) WGPEER_HAS_AWG) ps"
    and "has (peer_flags q) WGPEER_HAS_AWG" "userspace_interface_file U w (dev_name dev) = (Inr f, w')"
  shows "userspace_set_device S U w dev =
    (- EINVAL, snd (snd (talk U w' f (uapi_device dev @ concat (map (uapi_peer S) ps) @
       uapi_line ''public_key'' (key_to_hex (peer_public_key q))))))"
  using assms uapi_peers_awg [OF assms(2,3)] by (simp add: userspace_set_device_def)

theorem awg_peer_refused_halfway_witness:
  "userspace_set_device sample_sys sample_unix ()
     (zero_device\<lparr>dev_name := ''wg0'', first_peer := [zero_peer\<lparr>peer_flags := WGPEER_HAS_AWG\<rparr>]\<rparr>) = (- EINVAL, ())"
proof -
  let ?d = "zero_device\<lparr>dev_name := ''wg0'', first_peer := [zero_peer\<lparr>peer_flags := WGPEER_HAS_AWG\<rparr>]\<rparr>"
  have "userspace_interface_file sample_unix () ''wg0'' = (Inr (sun_path sample_unix ''wg0''), ())"
    by (simp add: userspace_interface_file_def sample_unix_def)
  moreover have "has WGPEER_HAS_AWG WGPEER_HAS_AWG" by (simp add: has_def flag_defs)
  ultimately show ?thesis
    using awg_peer_refused_halfway [of ?d "[]" "zero_peer\<lparr>peer_flags := WGPEER_HAS_AWG\<rparr>" "[]" sample_unix "()"
        "sun_path sample_unix ''wg0''" "()" sample_sys] by simp
qed

end
