(* ===== verification/Ipc_Roundtrip.thy ===== *)
theory Ipc_Roundtrip
  imports Ipc_Uapi
begin

text \<open>
  The two directions of the text protocol agree: the lines that \<^verbatim>\<open>userspace_set_device\<close> writes
  for a device, given back by the process as the answer to a query, are read by
  \<^verbatim>\<open>userspace_get_device\<close> as that device.
\<close>

section \<open>Reading a written line\<close>

text \<open>What is left to read, and a line the reader takes whole.\<close>

definition run :: "sys \<Rightarrow> (bytes \<Rightarrow> bytes) \<Rightarrow> get_state \<Rightarrow> string \<Rightarrow> int \<times> wgdevice" where
  "run S pub st s = get_loop S pub st (map cstr (getlines s))"

definition one_line :: "string \<Rightarrow> bool" where
  "one_line s \<longleftrightarrow> NL \<notin> set s \<and> NUL \<notin> set s"

lemma one_line_plain [simp]: "plain s \<Longrightarrow> one_line s"
  using plainD [of s] by (simp add: one_line_def)

lemma one_line_append [simp]: "one_line (a @ b) \<longleftrightarrow> one_line a \<and> one_line b"
  by (auto simp: one_line_def)

lemma one_line_Cons [simp]: "one_line (c # s) \<longleftrightarrow> c \<noteq> NL \<and> c \<noteq> NUL \<and> one_line s" and one_line_Nil [simp]: "one_line []"
  by (auto simp: one_line_def)

lemma plain_hex [simp]: "plain (key_to_hex k)"
proof -
  have "list_all (is_digit_of 16) (key_to_hex k)"
  proof -
    have b: "unat b < 256" for b :: u8 using unsigned_less [of b, where 'a = nat] by simp
    then show ?thesis
      unfolding key_to_hex_eq by (auto simp: list_all_iff is_digit_of_def digit_val_digit_char less_mult_imp_div_less)
  qed
  then show ?thesis by (rule plain_digits) simp
qed

lemma split_uapi_line: "CHR ''='' \<notin> set k \<Longrightarrow> split_line (uapi_line k v) = Some (k, v)"
  using strchr_append [of "CHR ''=''" k "v @ [NL]"] by (simp add: split_line_def uapi_line_def butlast_append)

lemma run_line:
  assumes "one_line k" "one_line v" "CHR ''='' \<notin> set k"
  shows "run S pub st (uapi_line k v @ s) =
    (case get_line S pub st k v of
       Next st \<Rightarrow> run S pub st s | Break \<Rightarrow> (- EPROTO, g_dev st) | Goto_err e \<Rightarrow> (e, g_dev st))"
proof -
  have "getlines (uapi_line k v @ s) = uapi_line k v # getlines s"
    using getlines_line [of "k @ ''='' @ v" s] assms by (simp add: uapi_line_def one_line_def)
  moreover have "cstr (uapi_line k v) = uapi_line k v"
    using assms by (intro cstr_id) (auto simp: uapi_line_def one_line_def)
  moreover have "uapi_line k v \<noteq> [NL]" by (cases k) (auto simp: uapi_line_def)
  ultimately show ?thesis by (simp add: run_def split_uapi_line [OF assms(3)] split: flow.splits)
qed

lemma run_if:
  assumes "b \<Longrightarrow> one_line v" "b \<Longrightarrow> get_line S pub st k v = Next st1" "one_line k" "CHR ''='' \<notin> set k"
  shows "run S pub st (print_if b (uapi_line k v) @ s) = run S pub (if b then st1 else st) s"
  using assms by (simp add: print_if_def run_line)

lemma NUM_udec: "n \<le> bound \<Longrightarrow> bound < 2 ^ 64 \<Longrightarrow> NUM bound (udec n) = Some n"
  using udec_first_digit [of n] strtou_udec_all [of n 64] by (simp add: NUM_def)

lemma NUM_word:
  "NUM 65535 (udec (unat (w :: u16))) = Some (unat w)" "NUM 4294967295 (udec (unat (x :: u32))) = Some (unat x)"
  using unsigned_less [of w, where 'a = nat] unsigned_less [of x, where 'a = nat] by (simp_all add: NUM_udec)

section \<open>The fields of a device\<close>

text \<open>The reader before the first peer.\<close>

definition dev_state :: "wgdevice \<Rightarrow> int \<Rightarrow> get_state" where
  "dev_state d r = \<lparr>g_dev = d, g_peer = None, g_allowedip = None, g_ret = r\<rparr>"

lemma run_dev_field:
  assumes "b \<Longrightarrow> get_device_field pub d k v = Some (Next d1)" "b \<Longrightarrow> one_line v"
    and "one_line k" "CHR ''='' \<notin> set k" "d' = (if b then d1 else d)"
  shows "run S pub (dev_state d r) (print_if b (uapi_line k v) @ s) = run S pub (dev_state d' r) s"
proof -
  have "get_line S pub (dev_state d r) k v = Next (dev_state d1 r)" if b
    using assms(1) [OF that] by (simp add: get_line_def dev_state_def)
  from run_if [OF assms(2) this assms(3,4), where b = b] show ?thesis by (simp add: assms(5))
qed

lemma run_other:
  assumes "get_device_field pub d k v = None" "k \<noteq> ''public_key''" "k \<noteq> ''errno''" "one_line v" "one_line k" "CHR ''='' \<notin> set k"
  shows "run S pub (dev_state d r) (print_if b (uapi_line k v) @ s) = run S pub (dev_state d r) s"
    and "run S pub (dev_state d r) (uapi_line k v @ s) = run S pub (dev_state d r) s"
proof -
  have "get_line S pub (dev_state d r) k v = Next (dev_state d r)"
    using assms by (simp add: get_line_def dev_state_def)
  then show "run S pub (dev_state d r) (print_if b (uapi_line k v) @ s) = run S pub (dev_state d r) s"
    "run S pub (dev_state d r) (uapi_line k v @ s) = run S pub (dev_state d r) s"
    using assms by (simp_all add: run_line print_if_def)
qed

text \<open>The effect of one line as one update, whether it is there or not.\<close>

lemma run_numbers:
  "run S pub (dev_state d r) (print_if b (uapi_line ''listen_port'' (udec (unat p))) @ s) =
     run S pub (dev_state (listen_port_update (\<lambda>x. if b then p else x)
       (dev_flags_update (\<lambda>f. f OR flag_if b WGDEVICE_HAS_LISTEN_PORT) d)) r) s"
  "run S pub (dev_state d r) (print_if b (uapi_line ''fwmark'' (udec (unat m))) @ s) =
     run S pub (dev_state (fwmark_update (\<lambda>x. if b then m else x)
       (dev_flags_update (\<lambda>f. f OR flag_if b WGDEVICE_HAS_FWMARK) d)) r) s"
  "run S pub (dev_state d r) (print_if b (uapi_line ''jc'' (udec (unat p))) @ s) =
     run S pub (dev_state (junk_packet_count_update (\<lambda>x. if b then p else x)
       (dev_flags_update (\<lambda>f. f OR flag_if b WGDEVICE_HAS_JC) d)) r) s"
  "run S pub (dev_state d r) (print_if b (uapi_line ''jmin'' (udec (unat p))) @ s) =
     run S pub (dev_state (junk_packet_min_size_update (\<lambda>x. if b then p else x)
       (dev_flags_update (\<lambda>f. f OR flag_if b WGDEVICE_HAS_JMIN) d)) r) s"
  "run S pub (dev_state d r) (print_if b (uapi_line ''jmax'' (udec (unat p))) @ s) =
     run S pub (dev_state (junk_packet_max_size_update (\<lambda>x. if b then p else x)
       (dev_flags_update (\<lambda>f. f OR flag_if b WGDEVICE_HAS_JMAX) d)) r) s"
  "run S pub (dev_state d r) (print_if b (uapi_line ''s1'' (udec (unat p))) @ s) =
     run S pub (dev_state (init_packet_junk_size_update (\<lambda>x. if b then p else x)
       (dev_flags_update (\<lambda>f. f OR flag_if b WGDEVICE_HAS_S1) d)) r) s"
  "run S pub (dev_state d r) (print_if b (uapi_line ''s2'' (udec (unat p))) @ s) =
     run S pub (dev_state (response_packet_junk_size_update (\<lambda>x. if b then p else x)
       (dev_flags_update (\<lambda>f. f OR flag_if b WGDEVICE_HAS_S2) d)) r) s"
  "run S pub (dev_state d r) (print_if b (uapi_line ''s3'' (udec (unat p))) @ s) =
     run S pub (dev_state (cookie_reply_packet_junk_size_update (\<lambda>x. if b then p else x)
       (dev_flags_update (\<lambda>f. f OR flag_if b WGDEVICE_HAS_S3) d)) r) s"
  "run S pub (dev_state d r) (print_if b (uapi_line ''s4'' (udec (unat p))) @ s) =
     run S pub (dev_state (transport_packet_junk_size_update (\<lambda>x. if b then p else x)
       (dev_flags_update (\<lambda>f. f OR flag_if b WGDEVICE_HAS_S4) d)) r) s"
  by (rule run_dev_field, simp add: get_device_field_def num_field_def NUM_word, simp_all only: plain_udec one_line_plain,
      simp, simp, cases d, simp add: flag_if_def)+

lemma run_private_key:
  "(b \<Longrightarrow> length k = WG_KEY_LEN) \<Longrightarrow>
   run S pub (dev_state d r) (print_if b (uapi_line ''private_key'' (key_to_hex k)) @ s) =
     run S pub (dev_state (private_key_update (\<lambda>x. if b then k else x) (dev_public_key_update (\<lambda>x. if b then pub k else x)
       (dev_flags_update (\<lambda>f. f OR flag_if b (WGDEVICE_HAS_PRIVATE_KEY OR WGDEVICE_HAS_PUBLIC_KEY)) d))) r) s"
  by (rule run_dev_field, simp add: get_device_field_def key_from_to_hex, simp, simp, simp, cases d, simp add: flag_if_def)

text \<open>A string that is written is there and fits on a line.\<close>

definition uapi_string :: "bool \<Rightarrow> string option \<Rightarrow> bool" where
  "uapi_string b v \<longleftrightarrow> (b \<longrightarrow> (\<exists>s. v = Some s \<and> one_line s))"

lemma uapi_stringD: "uapi_string b v \<Longrightarrow> b \<Longrightarrow> one_line (percent_s v) \<and> Some (percent_s v) = v"
  by (auto simp: uapi_string_def percent_s_def)

lemma run_strings:
  assumes "uapi_string b v"
  shows "run S pub (dev_state d r) (print_if b (uapi_line ''h1'' (percent_s v)) @ s) =
     run S pub (dev_state (init_packet_magic_header_update (\<lambda>x. if b then v else x)
       (dev_flags_update (\<lambda>f. f OR flag_if b WGDEVICE_HAS_H1) d)) r) s"
    and "run S pub (dev_state d r) (print_if b (uapi_line ''h2'' (percent_s v)) @ s) =
     run S pub (dev_state (response_packet_magic_header_update (\<lambda>x. if b then v else x)
       (dev_flags_update (\<lambda>f. f OR flag_if b WGDEVICE_HAS_H2) d)) r) s"
    and "run S pub (dev_state d r) (print_if b (uapi_line ''h3'' (percent_s v)) @ s) =
     run S pub (dev_state (underload_packet_magic_header_update (\<lambda>x. if b then v else x)
       (dev_flags_update (\<lambda>f. f OR flag_if b WGDEVICE_HAS_H3) d)) r) s"
    and "run S pub (dev_state d r) (print_if b (uapi_line ''h4'' (percent_s v)) @ s) =
     run S pub (dev_state (transport_packet_magic_header_update (\<lambda>x. if b then v else x)
       (dev_flags_update (\<lambda>f. f OR flag_if b WGDEVICE_HAS_H4) d)) r) s"
    and "run S pub (dev_state d r) (print_if b (uapi_line ''i1'' (percent_s v)) @ s) =
     run S pub (dev_state (i1_update (\<lambda>x. if b then v else x)
       (dev_flags_update (\<lambda>f. f OR flag_if b WGDEVICE_HAS_I1) d)) r) s"
    and "run S pub (dev_state d r) (print_if b (uapi_line ''i2'' (percent_s v)) @ s) =
     run S pub (dev_state (i2_update (\<lambda>x. if b then v else x)
       (dev_flags_update (\<lambda>f. f OR flag_if b WGDEVICE_HAS_I2) d)) r) s"
    and "run S pub (dev_state d r) (print_if b (uapi_line ''i3'' (percent_s v)) @ s) =
     run S pub (dev_state (i3_update (\<lambda>x. if b then v else x)
       (dev_flags_update (\<lambda>f. f OR flag_if b WGDEVICE_HAS_I3) d)) r) s"
    and "run S pub (dev_state d r) (print_if b (uapi_line ''i4'' (percent_s v)) @ s) =
     run S pub (dev_state (i4_update (\<lambda>x. if b then v else x)
       (dev_flags_update (\<lambda>f. f OR flag_if b WGDEVICE_HAS_I4) d)) r) s"
    and "run S pub (dev_state d r) (print_if b (uapi_line ''i5'' (percent_s v)) @ s) =
     run S pub (dev_state (i5_update (\<lambda>x. if b then v else x)
       (dev_flags_update (\<lambda>f. f OR flag_if b WGDEVICE_HAS_I5) d)) r) s"
  by (rule run_dev_field, simp add: get_device_field_def, insert uapi_stringD [OF assms], simp, simp, simp,
      cases d, simp add: flag_if_def)+

lemma run_set_only:
  "run S pub (dev_state d r) (uapi_line ''set'' ''1'' @ s) = run S pub (dev_state d r) s"
  "run S pub (dev_state d r) (print_if b (uapi_line ''replace_peers'' ''true'') @ s) = run S pub (dev_state d r) s"
  by (subst run_other; simp add: get_device_field_def)+

text \<open>The device that is read: the settings that are announced, the rest zero; the public key comes from
  the private one.\<close>

definition uapi_image :: "(bytes \<Rightarrow> bytes) \<Rightarrow> wgdevice \<Rightarrow> wgdevice" where
  "uapi_image pub d =
     (let on = (\<lambda>f. has (dev_flags d) f) in zero_device\<lparr>
        dev_name := take (IFNAMSIZ - 1) (dev_name d),
        dev_flags := flag_if (on WGDEVICE_HAS_PRIVATE_KEY) (WGDEVICE_HAS_PRIVATE_KEY OR WGDEVICE_HAS_PUBLIC_KEY)
          OR flag_if (on WGDEVICE_HAS_LISTEN_PORT) WGDEVICE_HAS_LISTEN_PORT
          OR flag_if (on WGDEVICE_HAS_FWMARK) WGDEVICE_HAS_FWMARK
          OR flag_if (on WGDEVICE_HAS_JC) WGDEVICE_HAS_JC
          OR flag_if (on WGDEVICE_HAS_JMIN) WGDEVICE_HAS_JMIN
          OR flag_if (on WGDEVICE_HAS_JMAX) WGDEVICE_HAS_JMAX
          OR flag_if (on WGDEVICE_HAS_S1) WGDEVICE_HAS_S1
          OR flag_if (on WGDEVICE_HAS_S2) WGDEVICE_HAS_S2
          OR flag_if (on WGDEVICE_HAS_S3) WGDEVICE_HAS_S3
          OR flag_if (on WGDEVICE_HAS_S4) WGDEVICE_HAS_S4
          OR flag_if (on WGDEVICE_HAS_H1) WGDEVICE_HAS_H1
          OR flag_if (on WGDEVICE_HAS_H2) WGDEVICE_HAS_H2
          OR flag_if (on WGDEVICE_HAS_H3) WGDEVICE_HAS_H3
          OR flag_if (on WGDEVICE_HAS_H4) WGDEVICE_HAS_H4
          OR flag_if (on WGDEVICE_HAS_I1) WGDEVICE_HAS_I1
          OR flag_if (on WGDEVICE_HAS_I2) WGDEVICE_HAS_I2
          OR flag_if (on WGDEVICE_HAS_I3) WGDEVICE_HAS_I3
          OR flag_if (on WGDEVICE_HAS_I4) WGDEVICE_HAS_I4
          OR flag_if (on WGDEVICE_HAS_I5) WGDEVICE_HAS_I5,
        private_key := (if on WGDEVICE_HAS_PRIVATE_KEY then private_key d else zero_key),
        dev_public_key := (if on WGDEVICE_HAS_PRIVATE_KEY then pub (private_key d) else zero_key),
        listen_port := (if on WGDEVICE_HAS_LISTEN_PORT then listen_port d else 0),
        fwmark := (if on WGDEVICE_HAS_FWMARK then fwmark d else 0),
        junk_packet_count := (if on WGDEVICE_HAS_JC then junk_packet_count d else 0),
        junk_packet_min_size := (if on WGDEVICE_HAS_JMIN then junk_packet_min_size d else 0),
        junk_packet_max_size := (if on WGDEVICE_HAS_JMAX then junk_packet_max_size d else 0),
        init_packet_junk_size := (if on WGDEVICE_HAS_S1 then init_packet_junk_size d else 0),
        response_packet_junk_size := (if on WGDEVICE_HAS_S2 then response_packet_junk_size d else 0),
        cookie_reply_packet_junk_size := (if on WGDEVICE_HAS_S3 then cookie_reply_packet_junk_size d else 0),
        transport_packet_junk_size := (if on WGDEVICE_HAS_S4 then transport_packet_junk_size d else 0),
        init_packet_magic_header := (if on WGDEVICE_HAS_H1 then init_packet_magic_header d else None),
        response_packet_magic_header := (if on WGDEVICE_HAS_H2 then response_packet_magic_header d else None),
        underload_packet_magic_header := (if on WGDEVICE_HAS_H3 then underload_packet_magic_header d else None),
        transport_packet_magic_header := (if on WGDEVICE_HAS_H4 then transport_packet_magic_header d else None),
        i1 := (if on WGDEVICE_HAS_I1 then i1 d else None), i2 := (if on WGDEVICE_HAS_I2 then i2 d else None),
        i3 := (if on WGDEVICE_HAS_I3 then i3 d else None), i4 := (if on WGDEVICE_HAS_I4 then i4 d else None),
        i5 := (if on WGDEVICE_HAS_I5 then i5 d else None)\<rparr>)"

definition uapi_writable :: "wgdevice \<Rightarrow> bool" where
  "uapi_writable d \<longleftrightarrow> length (private_key d) = WG_KEY_LEN \<and>
     list_all (\<lambda>(f, v). uapi_string (has (dev_flags d) f) v)
       [(WGDEVICE_HAS_H1, init_packet_magic_header d), (WGDEVICE_HAS_H2, response_packet_magic_header d),
        (WGDEVICE_HAS_H3, underload_packet_magic_header d), (WGDEVICE_HAS_H4, transport_packet_magic_header d),
        (WGDEVICE_HAS_I1, i1 d), (WGDEVICE_HAS_I2, i2 d), (WGDEVICE_HAS_I3, i3 d),
        (WGDEVICE_HAS_I4, i4 d), (WGDEVICE_HAS_I5, i5 d)]"

lemma run_device:
  assumes "uapi_writable d"
  shows "run S pub (get_start (dev_name d)) (uapi_device d @ s) = run S pub (dev_state (uapi_image pub d) (- EPROTO)) s"
proof -
  have str: "uapi_string (has (dev_flags d) WGDEVICE_HAS_H1) (init_packet_magic_header d)"
    "uapi_string (has (dev_flags d) WGDEVICE_HAS_H2) (response_packet_magic_header d)"
    "uapi_string (has (dev_flags d) WGDEVICE_HAS_H3) (underload_packet_magic_header d)"
    "uapi_string (has (dev_flags d) WGDEVICE_HAS_H4) (transport_packet_magic_header d)"
    "uapi_string (has (dev_flags d) WGDEVICE_HAS_I1) (i1 d)" "uapi_string (has (dev_flags d) WGDEVICE_HAS_I2) (i2 d)"
    "uapi_string (has (dev_flags d) WGDEVICE_HAS_I3) (i3 d)" "uapi_string (has (dev_flags d) WGDEVICE_HAS_I4) (i4 d)"
    "uapi_string (has (dev_flags d) WGDEVICE_HAS_I5) (i5 d)" and key: "length (private_key d) = WG_KEY_LEN"
    using assms by (simp_all add: uapi_writable_def)
  have start: "get_start (dev_name d) = dev_state (zero_device\<lparr>dev_name := take (IFNAMSIZ - 1) (dev_name d)\<rparr>) (- EPROTO)"
    by (simp add: get_start_def dev_state_def)
  note strings = run_strings(1) [OF str(1)] run_strings(2) [OF str(2)] run_strings(3) [OF str(3)]
    run_strings(4) [OF str(4)] run_strings(5) [OF str(5)] run_strings(6) [OF str(6)] run_strings(7) [OF str(7)]
    run_strings(8) [OF str(8)] run_strings(9) [OF str(9)]
  show ?thesis
    unfolding uapi_device_def append_assoc start run_set_only run_private_key [OF key] run_numbers strings
    by (simp only: uapi_image_def Let_def zero_device_def wgdevice.update_convs or.left_neutral or.assoc)
qed

section \<open>The fields of a peer\<close>

text \<open>The reader at the peer \<open>p\<close> behind the peers \<open>ps\<close>.\<close>

definition tail_of :: "wgpeer \<Rightarrow> nat option" where
  "tail_of p = (if first_allowedip p = [] then None else Some (length (first_allowedip p) - 1))"

definition peer_state :: "wgdevice \<Rightarrow> wgpeer list \<Rightarrow> wgpeer \<Rightarrow> int \<Rightarrow> get_state" where
  "peer_state d ps p r = \<lparr>g_dev = d\<lparr>first_peer := ps @ [p]\<rparr>, g_peer = Some (length ps), g_allowedip = tail_of p, g_ret = r\<rparr>"

definition new_peer :: "bytes \<Rightarrow> wgpeer" where
  "new_peer k = zero_peer\<lparr>peer_public_key := k, peer_flags := WGPEER_HAS_PUBLIC_KEY\<rparr>"

lemma run_public_key:
  assumes "length k = WG_KEY_LEN"
  shows "first_peer d = [] \<Longrightarrow> run S pub (dev_state d r) (uapi_line ''public_key'' (key_to_hex k) @ s) =
      run S pub (peer_state d [] (new_peer k) r) s"
    and "run S pub (peer_state d ps p r) (uapi_line ''public_key'' (key_to_hex k) @ s) =
      run S pub (peer_state d (ps @ [p]) (new_peer k) r) s"
  using assms
  by (simp_all add: run_line get_line_def get_device_field_def get_public_key_def key_from_to_hex dev_state_def
      peer_state_def new_peer_def tail_of_def zero_peer_def nth_append list_update_append)

lemma run_peer_field:
  assumes "get_peer_field S (p, tail_of p) k v = Some (Next (p', tail_of p'))" "one_line v"
    and "one_line k" "CHR ''='' \<notin> set k" "k \<noteq> ''public_key''"
  shows "run S pub (peer_state d ps p r) (uapi_line k v @ s) = run S pub (peer_state d ps p' r) s"
  using assms by (simp add: run_line get_line_def peer_state_def)

lemma run_psk:
  assumes "length k = WG_KEY_LEN"
  shows "run S pub (peer_state d ps p r) (print_if b (uapi_line ''preshared_key'' (key_to_hex k)) @ s) =
    run S pub (peer_state d ps (preshared_key_update (\<lambda>x. if b then k else x)
      (peer_flags_update (\<lambda>f. f OR flag_if (b \<and> \<not> key_is_zero k) WGPEER_HAS_PRESHARED_KEY) p)) r) s"
proof (cases b)
  case True
  then show ?thesis unfolding print_if_def
    by (simp, intro run_peer_field; cases p; simp add: get_peer_field_def key_from_to_hex assms flag_if_def tail_of_def)
next
  case False
  then show ?thesis by (cases p) (simp add: print_if_def flag_if_def)
qed

lemma run_keepalive:
  "run S pub (peer_state d ps p r) (print_if b (uapi_line ''persistent_keepalive_interval'' (udec (unat n))) @ s) =
    run S pub (peer_state d ps (persistent_keepalive_interval_update (\<lambda>x. if b then n else x)
      (peer_flags_update (\<lambda>f. f OR flag_if b WGPEER_HAS_PERSISTENT_KEEPALIVE_INTERVAL) p)) r) s"
proof (cases b)
  case True
  then show ?thesis unfolding print_if_def
    by (simp, intro run_peer_field; cases p; simp add: get_peer_field_def num_field_def NUM_word flag_if_def tail_of_def)
next
  case False
  then show ?thesis by (cases p) (simp add: print_if_def flag_if_def)
qed

lemma run_replace_ips:
  "run S pub (peer_state d ps p r) (print_if b (uapi_line ''replace_allowed_ips'' ''true'') @ s) = run S pub (peer_state d ps p r) s"
  by (simp add: print_if_def run_line get_line_def peer_state_def get_peer_field_def)

lemma run_endpoint:
  assumes "showable_endpoint S q"
  shows "run S pub (peer_state d ps p r) (uapi_endpoint S (endpoint q) @ s) =
    run S pub (peer_state d ps (endpoint_update (\<lambda>x. if has_endpoint q then endpoint q else x) p) r) s"
proof (cases "has_endpoint q")
  case True
  with assms obtain host service where gn: "getnameinfo S (endpoint q) (sockaddr_len (endpoint q)) = Inr (host, service)"
    by (auto simp: showable_endpoint_def split: sum.splits)
  let ?v = "format_endpoint (endpoint q) host service"
  from assms True gn have h: "plain host" "plain service" "service \<noteq> []" "CHR '':'' \<notin> set service"
    "sa_fam (endpoint q) = AF_INET6 \<longrightarrow> CHR '':'' \<in> set host \<and> CHR '']'' \<notin> set host"
    "sa_fam (endpoint q) = AF_INET \<longrightarrow> c_at host 0 \<noteq> CHR ''[''"
    "getaddrinfo S 0 (Some host) service = Inr \<lparr>ai_family = sa_fam (endpoint q),
       ai_addrlen = sockaddr_len (endpoint q), ai_addr = endpoint q\<rparr>"
    by (simp_all add: showable_endpoint_def)
  have "NUL \<notin> set service" using plainD [OF h(2)] by simp
  then have "split_endpoint ?v = Ok (host, service)"
    using h True split_endpoint_brackets [of host service] split_endpoint_plain [of service host] strchr_None_iff [of host "CHR '':''"]
    by (auto simp: format_endpoint_def has_endpoint_def)
  moreover have "addrinfo_ok \<lparr>ai_family = sa_fam (endpoint q), ai_addrlen = sockaddr_len (endpoint q), ai_addr = endpoint q\<rparr>"
    using True by (auto simp: addrinfo_ok_def sockaddr_len_def has_endpoint_def)
  ultimately have "get_endpoint S p ?v = Next (p\<lparr>endpoint := endpoint q\<rparr>)"
    using h(7) by (simp add: get_endpoint_def)
  then have "run S pub (peer_state d ps p r) (uapi_line ''endpoint'' ?v @ s) =
      run S pub (peer_state d ps (p\<lparr>endpoint := endpoint q\<rparr>) r) s"
    using h by (intro run_peer_field) (simp_all add: get_peer_field_def tail_of_def format_endpoint_def)
  moreover have "uapi_endpoint S (endpoint q) = uapi_line ''endpoint'' ?v"
    using True gn by (simp add: uapi_endpoint_def has_endpoint_def)
  ultimately show ?thesis using True by (cases p) simp
next
  case False
  then show ?thesis by (cases p) (simp add: uapi_endpoint_def has_endpoint_def)
qed

lemma get_allowed_ip_written:
  assumes "showable_ip S a" "inet_ntop S (a_family a) (ip_bytes a) = Some ip"
  shows "get_allowed_ip S (ip @ ''/'' @ udec (unat (a_cidr a))) = Some a" and "plain ip"
proof -
  from assms have h: "wf_allowedip a" "drop (addr_len (a_family a)) (a_ip a) = replicate (16 - addr_len (a_family a)) 0"
    "CHR ''/'' \<notin> set ip" "CHR '':'' \<in> set ip \<longleftrightarrow> a_family a = AF_INET6"
    "inet_pton S (a_family a) ip = Some (ip_bytes a)"
    by (auto simp: showable_ip_def)
  show "plain ip" using assms by (simp add: showable_ip_def)
  let ?v = "ip @ CHR ''/'' # udec (unat (a_cidr a))"
  have slash: "strchr ?v (CHR ''/'') = Some (length ip)" by (rule strchr_append [OF h(3)])
  have fam: "(if strchr ip (CHR '':'') \<noteq> None then AF_INET6 else AF_INET) = a_family a"
    using h(1,4) strchr_None_iff [of ip "CHR '':''"] by (auto simp: wf_allowedip_def)
  have "store_ip (ip_bytes a) (a_ip zero_allowedip) = a_ip a"
    using h(1,2) append_take_drop_id [of "addr_len (a_family a)" "a_ip a"]
    by (auto simp: store_ip_def ip_bytes_def zero_allowedip_def wf_allowedip_def addr_len_def)
  moreover have "unat (a_cidr a) < 2 ^ 64" using unsigned_less [of "a_cidr a", where 'a = nat] by simp
  then have "strtoul 10 (udec (unat (a_cidr a))) = (unat (a_cidr a), [])" by (rule strtou_udec_all)
  ultimately show "get_allowed_ip S (ip @ ''/'' @ udec (unat (a_cidr a))) = Some a"
    using h(1,5) slash fam udec_first_digit [of "unat (a_cidr a)"]
    by (auto simp: get_allowed_ip_def Let_def wf_allowedip_def max_cidr_def word_less_nat_alt zero_allowedip_def)
qed

lemma run_allowedips:
  "list_all (showable_ip S) as \<Longrightarrow>
   run S pub (peer_state d ps p r) (concat (map (uapi_allowedip S) as) @ s) =
     run S pub (peer_state d ps (first_allowedip_update (\<lambda>x. x @ as) p) r) s"
proof (induction as arbitrary: p)
  case Nil
  then show ?case by (cases p) simp
next
  case (Cons a as)
  from Cons.prems obtain ip where ip: "inet_ntop S (a_family a) (ip_bytes a) = Some ip" "showable_ip S a"
    by (auto simp: showable_ip_def split: option.splits)
  note w = get_allowed_ip_written [OF ip(2,1)]
  let ?v = "ip @ ''/'' @ udec (unat (a_cidr a))"
  have "tail_ok (tail_of p) (first_allowedip p)" by (cases "first_allowedip p") (auto simp: tail_of_def tail_ok_def)
  from link_after_ok [OF this, of a]
  have "link_after (tail_of p) a (first_allowedip p) = (first_allowedip p @ [a], tail_of (p\<lparr>first_allowedip := first_allowedip p @ [a]\<rparr>))"
    by (cases "link_after (tail_of p) a (first_allowedip p)") (auto simp: tail_of_def tail_ok_def split: option.splits)
  then have "run S pub (peer_state d ps p r) (uapi_line ''allowed_ip'' ?v @ t) =
      run S pub (peer_state d ps (p\<lparr>first_allowedip := first_allowedip p @ [a]\<rparr>) r) t" for t
    using w by (intro run_peer_field) (simp_all add: get_peer_field_def)
  moreover have "uapi_allowedip S a = uapi_line ''allowed_ip'' ?v"
    using ip by (simp add: uapi_allowedip_def showable_ip_def wf_allowedip_def)
  ultimately show ?case using Cons by (cases p) simp
qed

section \<open>The whole request\<close>

definition uapi_peer_image :: "wgpeer \<Rightarrow> wgpeer" where
  "uapi_peer_image p = zero_peer\<lparr>
     peer_flags := WGPEER_HAS_PUBLIC_KEY
       OR flag_if (has (peer_flags p) WGPEER_HAS_PRESHARED_KEY \<and> \<not> key_is_zero (preshared_key p)) WGPEER_HAS_PRESHARED_KEY
       OR flag_if (has (peer_flags p) WGPEER_HAS_PERSISTENT_KEEPALIVE_INTERVAL) WGPEER_HAS_PERSISTENT_KEEPALIVE_INTERVAL,
     peer_public_key := peer_public_key p,
     preshared_key := (if has (peer_flags p) WGPEER_HAS_PRESHARED_KEY then preshared_key p else zero_key),
     endpoint := (if has_endpoint p then endpoint p else zero_sockaddr),
     persistent_keepalive_interval :=
       (if has (peer_flags p) WGPEER_HAS_PERSISTENT_KEEPALIVE_INTERVAL then persistent_keepalive_interval p else 0),
     first_allowedip := first_allowedip p\<rparr>"

text \<open>A peer that stays and whose addresses the system can print and read.\<close>

definition kept_peer :: "sys \<Rightarrow> wgpeer \<Rightarrow> bool" where
  "kept_peer S p \<longleftrightarrow> showable_peer S p \<and> \<not> has (peer_flags p) WGPEER_REMOVE_ME \<and> \<not> has (peer_flags p) WGPEER_HAS_AWG"

definition peer_fields :: "sys \<Rightarrow> wgpeer \<Rightarrow> string" where
  "peer_fields S p =
     print_if (has (peer_flags p) WGPEER_HAS_PRESHARED_KEY) (uapi_line ''preshared_key'' (key_to_hex (preshared_key p))) @
     uapi_endpoint S (endpoint p) @
     print_if (has (peer_flags p) WGPEER_HAS_PERSISTENT_KEEPALIVE_INTERVAL)
       (uapi_line ''persistent_keepalive_interval'' (udec (unat (persistent_keepalive_interval p)))) @
     print_if (has (peer_flags p) WGPEER_REPLACE_ALLOWEDIPS) (uapi_line ''replace_allowed_ips'' ''true'') @
     concat (map (uapi_allowedip S) (first_allowedip p))"

lemma uapi_peer_fields:
  "kept_peer S p \<Longrightarrow> uapi_peer S p = uapi_line ''public_key'' (key_to_hex (peer_public_key p)) @ peer_fields S p"
  by (simp add: kept_peer_def uapi_peer_def peer_fields_def)

lemma run_peer_fields:
  assumes "kept_peer S p"
  shows "run S pub (peer_state d ps (new_peer (peer_public_key p)) r) (peer_fields S p @ s) =
    run S pub (peer_state d ps (uapi_peer_image p) r) s"
proof -
  from assms have h: "length (preshared_key p) = WG_KEY_LEN" "showable_endpoint S p" "list_all (showable_ip S) (first_allowedip p)"
    by (simp_all add: kept_peer_def showable_peer_def)
  show ?thesis
    unfolding peer_fields_def append_assoc run_psk [OF h(1)] run_endpoint [OF h(2)] run_keepalive run_replace_ips
      run_allowedips [OF h(3)]
    by (simp add: new_peer_def uapi_peer_image_def zero_peer_def or.assoc)
qed

text \<open>All the peers behind the ones already read.\<close>

lemma run_peers:
  "list_all (kept_peer S) qs \<Longrightarrow>
   run S pub (peer_state d ps p r) (fst (uapi_peers S qs) @ s) =
     run S pub (case rev (map uapi_peer_image qs) of
        [] \<Rightarrow> peer_state d ps p r | q # front \<Rightarrow> peer_state d (ps @ p # rev front) q r) s"
proof (induction qs arbitrary: ps p)
  case (Cons q qs)
  from Cons.prems have q: "kept_peer S q" "length (peer_public_key q) = WG_KEY_LEN" "\<not> has (peer_flags q) WGPEER_HAS_AWG"
    by (simp_all add: kept_peer_def showable_peer_def)
  have "fst (uapi_peers S (q # qs)) = uapi_peer S q @ fst (uapi_peers S qs)"
    using q(3) by (simp split: prod.splits)
  then have "run S pub (peer_state d ps p r) (fst (uapi_peers S (q # qs)) @ s) =
      run S pub (peer_state d (ps @ [p]) (uapi_peer_image q) r) (fst (uapi_peers S qs) @ s)"
    by (simp add: uapi_peer_fields [OF q(1)] run_public_key(2) [OF q(2)] run_peer_fields [OF q(1)])
  with Cons show ?case
    by (cases "rev (map uapi_peer_image qs)") (simp_all del: uapi_peers.simps)
qed simp

lemma run_last:
  "run S pub (dev_state d r) (uapi_line ''errno'' ''0'' @ [NL]) = (0, d)"
  "run S pub (peer_state d ps p r) (uapi_line ''errno'' ''0'' @ [NL]) = (0, d\<lparr>first_peer := ps @ [p]\<rparr>)"
proof -
  have n: "NUM 2147483647 ''0'' = Some 0"
    by (simp add: NUM_def is_c_digit_def strtou_def is_c_space_def is_digit_of_def digit_val_def num_of_def)
  have e: "run S pub st [NL] = (g_ret st, g_dev st)" for st
    by (simp add: run_def cstr_def)
  show "run S pub (dev_state d r) (uapi_line ''errno'' ''0'' @ [NL]) = (0, d)"
    "run S pub (peer_state d ps p r) (uapi_line ''errno'' ''0'' @ [NL]) = (0, d\<lparr>first_peer := ps @ [p]\<rparr>)"
    by (simp_all add: run_line get_line_def get_device_field_def get_peer_field_def get_errno_def n e dev_state_def peer_state_def)
qed

lemma first_peer_image: "first_peer (uapi_image pub d) = []"
  by (simp add: uapi_image_def zero_device_def Let_def)

lemma read_written_request:
  assumes "uapi_writable d" "list_all (kept_peer S) (first_peer d)"
  shows "read_reply S pub (dev_name d)
      (uapi_device d @ fst (uapi_peers S (first_peer d)) @ uapi_line ''errno'' ''0'' @ [NL]) =
    (0, Some ((uapi_image pub d)\<lparr>first_peer := map uapi_peer_image (first_peer d)\<rparr>))"
proof -
  let ?d = "uapi_image pub d"
  have "run S pub (dev_state ?d (- EPROTO)) (fst (uapi_peers S (first_peer d)) @ uapi_line ''errno'' ''0'' @ [NL]) =
      (0, ?d\<lparr>first_peer := map uapi_peer_image (first_peer d)\<rparr>)"
  proof (cases "first_peer d")
    case Nil
    have "?d = ?d\<lparr>first_peer := []\<rparr>" using first_peer_image [of pub d] by (cases ?d) simp
    with Nil show ?thesis by (simp add: run_last)
  next
    case (Cons q qs)
    with assms(2) have q: "kept_peer S q" "length (peer_public_key q) = WG_KEY_LEN" "\<not> has (peer_flags q) WGPEER_HAS_AWG"
      and qs: "list_all (kept_peer S) qs"
      by (simp_all add: kept_peer_def showable_peer_def)
    have "fst (uapi_peers S (q # qs)) = uapi_peer S q @ fst (uapi_peers S qs)"
      using q(3) by (simp split: prod.splits)
    then have "run S pub (dev_state ?d (- EPROTO)) (fst (uapi_peers S (first_peer d)) @ s) =
        run S pub (peer_state ?d [] (uapi_peer_image q) (- EPROTO)) (fst (uapi_peers S qs) @ s)" for s
      by (simp add: Cons uapi_peer_fields [OF q(1)] run_public_key(1) [OF q(2) first_peer_image] run_peer_fields [OF q(1)])
    moreover have "map uapi_peer_image qs = rev (rev (map uapi_peer_image qs))" by simp
    ultimately show ?thesis
      by (cases "rev (map uapi_peer_image qs)") (auto simp: run_peers [OF qs] run_last Cons simp del: rev_map)
  qed
  with run_device [OF assms(1), of S pub] show ?thesis by (simp add: read_reply_def run_def [symmetric])
qed

section \<open>Properties\<close>

text \<open>C3. What \<^verbatim>\<open>userspace_set_device\<close> writes for a device and its peers, answered by the process to a
  query, is read by \<^verbatim>\<open>userspace_get_device\<close> as that device: every setting that is announced, every
  peer with its keys, endpoint, interval and allowed addresses, in order.\<close>

theorem uapi_set_get_roundtrip:
  assumes "uapi_writable d" "list_all (kept_peer S) (first_peer d)"
    and "userspace_interface_file U w (dev_name d) = (Inr path, w)"
    and "talk U w path (uapi_line ''get'' ''1'' @ [NL]) =
      (uapi_device d @ fst (uapi_peers S (first_peer d)) @ uapi_line ''errno'' ''0'' @ [NL], e, w')"
  shows "userspace_get_device S generate_public U w (dev_name d) =
    (0, Some ((uapi_image generate_public d)\<lparr>first_peer := map uapi_peer_image (first_peer d)\<rparr>), w')"
  using read_written_request [OF assms(1,2)] assms(3,4) by (simp add: userspace_get_device_def)

theorem uapi_set_get_roundtrip_witness:
  "userspace_get_device sample_sys (\<lambda>k. k)
     (sample_unix\<lparr>talk := (\<lambda>w path request.
        (uapi_device sample_device @ fst (uapi_peers sample_sys (first_peer sample_device)) @
           uapi_line ''errno'' ''0'' @ [NL], 0, ()))\<rparr>) () [] =
   (0, Some ((uapi_image (\<lambda>k. k) sample_device)\<lparr>first_peer := map uapi_peer_image (first_peer sample_device)\<rparr>), ())"
proof -
  have "list_all (showable_peer sample_sys) (first_peer sample_device)" by (rule sample_showable)
  then have kept: "list_all (kept_peer sample_sys) (first_peer sample_device)"
    by (simp add: sample_device_def kept_peer_def has_def flag_defs)
  have "one_line ''<b 0x1f> <r 8>''" by simp
  then have wr: "uapi_writable sample_device"
    unfolding uapi_writable_def sample_device_def
    by (simp add: zero_device_def uapi_string_def) (simp add: has_def flag_defs)
  have name: "dev_name sample_device = []" by (simp add: sample_device_def zero_device_def)
  let ?U = "sample_unix\<lparr>talk := (\<lambda>w path request.
        (uapi_device sample_device @ fst (uapi_peers sample_sys (first_peer sample_device)) @
           uapi_line ''errno'' ''0'' @ [NL], 0, ()))\<rparr>"
  have "userspace_interface_file ?U () [] = (Inr (sun_path ?U []), ())"
    by (simp add: userspace_interface_file_def sample_unix_def)
  then show ?thesis
    using uapi_set_get_roundtrip [OF wr kept, of ?U "()" "sun_path ?U []" 0 "()" "\<lambda>k. k"] by (simp add: name)
qed

end
