(* ===== verification/Netlink.thy ===== *)
theory Netlink
  imports Ipc_Uapi
begin

text \<open>
  \<^verbatim>\<open>netlink.h\<close>: messages to and from the kernel, byte for byte.  A message under construction is its
  header and the bytes behind it; the length field of the header is the length of the message so far, and
  as every length is a multiple of four the aligned tail is the end.  A received message, and an attribute
  in it, is a pointer into the buffer: the bytes of the buffer from there on.  Numbers are stored with the least
  significant byte first.  Lengths in received messages are taken to be below \<open>2 ^ 31\<close>, so that the casts to
  \<^verbatim>\<open>int\<close> keep them; the buffer has at most 8192 bytes.  The socket calls are arguments.
\<close>

abbreviation (input) ESRCH :: int where "ESRCH \<equiv> 3"
abbreviation (input) EINTR :: int where "EINTR \<equiv> 4"
abbreviation (input) ENOSPC :: int where "ENOSPC \<equiv> 28"
abbreviation (input) ERANGE :: int where "ERANGE \<equiv> 34"
abbreviation (input) ENAMETOOLONG :: int where "ENAMETOOLONG \<equiv> 36"
abbreviation (input) ENOSYS :: int where "ENOSYS \<equiv> 38"
abbreviation (input) EBADMSG :: int where "EBADMSG \<equiv> 74"
abbreviation (input) EPROTONOSUPPORT :: int where "EPROTONOSUPPORT \<equiv> 93"
abbreviation (input) EOPNOTSUPP :: int where "EOPNOTSUPP \<equiv> 95"

abbreviation (input) MNL_CB_ERROR :: int where "MNL_CB_ERROR \<equiv> - 1"
abbreviation (input) MNL_CB_STOP :: int where "MNL_CB_STOP \<equiv> 0"
abbreviation (input) MNL_CB_OK :: int where "MNL_CB_OK \<equiv> 1"

section \<open>Numbers in memory\<close>

text \<open>The field of \<open>n\<close> bytes at an offset, and the C string there.\<close>

definition field_at :: "bytes \<Rightarrow> nat \<Rightarrow> nat \<Rightarrow> nat" where
  "field_at p off n = of_le (take n (drop off p))"

definition str_at :: "bytes \<Rightarrow> string" where
  "str_at p = cstr (map byte_char p)"

definition str_bytes :: "string \<Rightarrow> bytes" where
  "str_bytes s = map char_byte s"

definition MNL_ALIGN :: "nat \<Rightarrow> nat" where
  "MNL_ALIGN len = (len + 3) div 4 * 4"

section \<open>Messages under construction\<close>

record nlmsg =
  nlmsg_type :: nat
  nlmsg_flags :: nat
  nlmsg_seq :: nat
  nlmsg_body :: bytes

abbreviation (input) MNL_NLMSG_HDRLEN :: nat where "MNL_NLMSG_HDRLEN \<equiv> 16"
abbreviation (input) MNL_ATTR_HDRLEN :: nat where "MNL_ATTR_HDRLEN \<equiv> 4"

definition nlmsg_len :: "nlmsg \<Rightarrow> nat" where
  "nlmsg_len nlh = MNL_NLMSG_HDRLEN + length (nlmsg_body nlh)"

text \<open>What is sent: the sender leaves its port number to the kernel.\<close>

definition wire :: "nlmsg \<Rightarrow> bytes" where
  "wire nlh = le_bytes 4 (nlmsg_len nlh) @ le_bytes 2 (nlmsg_type nlh) @ le_bytes 2 (nlmsg_flags nlh) @
     le_bytes 4 (nlmsg_seq nlh) @ le_bytes 4 0 @ nlmsg_body nlh"

definition mnl_ideal_socket_buffer_size :: "nat \<Rightarrow> nat" where
  "mnl_ideal_socket_buffer_size pagesize = (if pagesize > 8192 then 8192 else pagesize)"

definition mnl_nlmsg_put_header :: nlmsg where
  "mnl_nlmsg_put_header = \<lparr>nlmsg_type = 0, nlmsg_flags = 0, nlmsg_seq = 0, nlmsg_body = []\<rparr>"

definition mnl_nlmsg_put_extra_header :: "nlmsg \<Rightarrow> bytes \<Rightarrow> nlmsg" where
  "mnl_nlmsg_put_extra_header nlh hdr =
     nlh\<lparr>nlmsg_body := nlmsg_body nlh @ hdr @ replicate (MNL_ALIGN (length hdr) - length hdr) 0\<rparr>"

text \<open>The bytes of one attribute with its padding.  The length is computed in 16 bits and the message grows by
  that length; a write behind the end of the buffer of \<open>n\<close> bytes faults.\<close>

definition attr_bytes :: "nat \<Rightarrow> bytes \<Rightarrow> bytes" where
  "attr_bytes type data =
     le_bytes 2 (MNL_ATTR_HDRLEN + length data) @ le_bytes 2 type @ data @
     replicate (MNL_ALIGN (length data) - length data) 0"

definition put_bytes :: "nlmsg \<Rightarrow> nat \<Rightarrow> bytes \<Rightarrow> nlmsg" where
  "put_bytes nlh type data =
     (let payload_len = (MNL_ATTR_HDRLEN + length data) mod 2 ^ 16
      in nlh\<lparr>nlmsg_body := nlmsg_body nlh @ take (MNL_ALIGN payload_len) (attr_bytes type data)\<rparr>)"

definition mnl_attr_put :: "nat \<Rightarrow> nlmsg \<Rightarrow> nat \<Rightarrow> bytes \<Rightarrow> (unit, nlmsg) res" where
  "mnl_attr_put n nlh type data =
     (if nlmsg_len nlh + length (attr_bytes type data) > n then Fault else Ok (put_bytes nlh type data))"

definition mnl_attr_put_check :: "nat \<Rightarrow> nlmsg \<Rightarrow> nat \<Rightarrow> bytes \<Rightarrow> nlmsg option" where
  "mnl_attr_put_check n nlh type data =
     (if nlmsg_len nlh + MNL_ATTR_HDRLEN + MNL_ALIGN (length data) > n then None
      else Some (put_bytes nlh type data))"

text \<open>A nested attribute is open between its start, where its length is not yet written, and its end;
  the position of the start is an index into the body.\<close>

abbreviation (input) NLA_F_NESTED :: nat where "NLA_F_NESTED \<equiv> 0x8000"

definition nest_open :: "nlmsg \<Rightarrow> nat \<Rightarrow> nlmsg \<times> nat" where
  "nest_open nlh type =
     (nlh\<lparr>nlmsg_body := nlmsg_body nlh @ le_bytes 2 0 @ le_bytes 2 (NLA_F_NESTED + type)\<rparr>, length (nlmsg_body nlh))"

definition mnl_attr_nest_start :: "nat \<Rightarrow> nlmsg \<Rightarrow> nat \<Rightarrow> (unit, nlmsg \<times> nat) res" where
  "mnl_attr_nest_start n nlh type =
     (if nlmsg_len nlh + MNL_ATTR_HDRLEN > n then Fault else Ok (nest_open nlh type))"

definition mnl_attr_nest_start_check :: "nat \<Rightarrow> nlmsg \<Rightarrow> nat \<Rightarrow> (nlmsg \<times> nat) option" where
  "mnl_attr_nest_start_check n nlh type =
     (if nlmsg_len nlh + MNL_ATTR_HDRLEN > n then None else Some (nest_open nlh type))"

definition mnl_attr_nest_end :: "nlmsg \<Rightarrow> nat \<Rightarrow> nlmsg" where
  "mnl_attr_nest_end nlh start =
     nlh\<lparr>nlmsg_body := take start (nlmsg_body nlh) @
       le_bytes 2 (length (nlmsg_body nlh) - start) @ drop (start + 2) (nlmsg_body nlh)\<rparr>"

definition mnl_attr_nest_cancel :: "nlmsg \<Rightarrow> nat \<Rightarrow> nlmsg" where
  "mnl_attr_nest_cancel nlh start = nlh\<lparr>nlmsg_body := take start (nlmsg_body nlh)\<rparr>"

section \<open>Attributes of a received message\<close>

abbreviation nla_len :: "bytes \<Rightarrow> nat" where "nla_len attr \<equiv> field_at attr 0 2"
abbreviation nla_type :: "bytes \<Rightarrow> nat" where "nla_type attr \<equiv> field_at attr 2 2"

definition mnl_attr_get_type :: "bytes \<Rightarrow> nat" where
  "mnl_attr_get_type attr = nla_type attr mod 2 ^ 14"

definition mnl_attr_get_payload_len :: "bytes \<Rightarrow> nat" where
  "mnl_attr_get_payload_len attr = (nla_len attr + 2 ^ 16 - MNL_ATTR_HDRLEN) mod 2 ^ 16"

definition mnl_attr_get_payload :: "bytes \<Rightarrow> bytes" where
  "mnl_attr_get_payload attr = drop MNL_ATTR_HDRLEN attr"

definition mnl_attr_ok :: "bytes \<Rightarrow> int \<Rightarrow> bool" where
  "mnl_attr_ok attr len \<longleftrightarrow> len \<ge> 4 \<and> nla_len attr \<ge> 4 \<and> int (nla_len attr) \<le> len"

definition mnl_attr_next :: "bytes \<Rightarrow> bytes" where
  "mnl_attr_next attr = drop (MNL_ALIGN (nla_len attr)) attr"

datatype mnl_attr_data_type = MNL_TYPE_U8 | MNL_TYPE_U16 | MNL_TYPE_U32 | MNL_TYPE_U64 | MNL_TYPE_STRING |
  MNL_TYPE_FLAG | MNL_TYPE_NUL_STRING

definition mnl_attr_data_type_len :: "mnl_attr_data_type \<Rightarrow> nat" where
  "mnl_attr_data_type_len type =
     (case type of MNL_TYPE_U8 \<Rightarrow> 1 | MNL_TYPE_U16 \<Rightarrow> 2 | MNL_TYPE_U32 \<Rightarrow> 4 | MNL_TYPE_U64 \<Rightarrow> 8 | _ \<Rightarrow> 0)"

text \<open>0, or the error number that is set when the result is negative.\<close>

definition mnl_attr_validate :: "bytes \<Rightarrow> mnl_attr_data_type \<Rightarrow> int" where
  "mnl_attr_validate attr type =
     (let attr_len = mnl_attr_get_payload_len attr; exp_len = mnl_attr_data_type_len type;
          attr_data = mnl_attr_get_payload attr in
      if attr_len < exp_len then ERANGE
      else if type = MNL_TYPE_FLAG \<and> attr_len > 0 then ERANGE
      else if type = MNL_TYPE_NUL_STRING \<and> attr_len = 0 then ERANGE
      else if type = MNL_TYPE_NUL_STRING \<and> attr_data ! (attr_len - 1) \<noteq> 0 then EINVAL
      else if type = MNL_TYPE_STRING \<and> attr_len = 0 then ERANGE
      else if exp_len \<noteq> 0 \<and> attr_len > exp_len then ERANGE
      else 0)"

definition mnl_attr_get_u8 :: "bytes \<Rightarrow> nat" where "mnl_attr_get_u8 attr = field_at (mnl_attr_get_payload attr) 0 1"
definition mnl_attr_get_u16 :: "bytes \<Rightarrow> nat" where "mnl_attr_get_u16 attr = field_at (mnl_attr_get_payload attr) 0 2"
definition mnl_attr_get_u32 :: "bytes \<Rightarrow> nat" where "mnl_attr_get_u32 attr = field_at (mnl_attr_get_payload attr) 0 4"
definition mnl_attr_get_u64 :: "bytes \<Rightarrow> nat" where "mnl_attr_get_u64 attr = field_at (mnl_attr_get_payload attr) 0 8"

definition mnl_attr_get_str :: "bytes \<Rightarrow> string" where
  "mnl_attr_get_str attr = str_at (mnl_attr_get_payload attr)"

text \<open>
  The loop over the attributes in \<open>len\<close> bytes.  A callback gets the attribute and a state, which has
  the value of \<^verbatim>\<open>errno\<close> in front, and gives its result and the new state.
\<close>

type_synonym 's cb = "bytes \<Rightarrow> int \<times> 's \<Rightarrow> int \<times> int \<times> 's"

function attr_loop :: "'s cb \<Rightarrow> bytes \<Rightarrow> int \<Rightarrow> int \<Rightarrow> int \<times> 's \<Rightarrow> int \<times> int \<times> 's" where
  "attr_loop cb attr len ret st =
     (if mnl_attr_ok attr len then
        (case cb attr st of (ret, st) \<Rightarrow>
           if ret \<le> MNL_CB_STOP then (ret, st)
           else attr_loop cb (mnl_attr_next attr) (len - int (MNL_ALIGN (nla_len attr))) ret st)
      else (ret, st))"
  by pat_completeness auto
termination
  by (relation "measure (\<lambda>(cb, attr, len, ret, st). nat len)") (auto simp: mnl_attr_ok_def MNL_ALIGN_def)

declare attr_loop.simps [simp del]

definition mnl_attr_parse_nested :: "bytes \<Rightarrow> 's cb \<Rightarrow> int \<times> 's \<Rightarrow> int \<times> int \<times> 's" where
  "mnl_attr_parse_nested nested cb st =
     attr_loop cb (mnl_attr_get_payload nested) (int (mnl_attr_get_payload_len nested)) MNL_CB_OK st"

definition mnl_attr_parse :: "bytes \<Rightarrow> nat \<Rightarrow> 's cb \<Rightarrow> int \<times> 's \<Rightarrow> int \<times> int \<times> 's" where
  "mnl_attr_parse nlh offset cb st =
     attr_loop cb (drop (MNL_NLMSG_HDRLEN + MNL_ALIGN offset) nlh)
       (int (MNL_ALIGN (field_at nlh 0 4)) - int (MNL_NLMSG_HDRLEN + MNL_ALIGN offset)) MNL_CB_OK st"

section \<open>Messages in a received datagram\<close>

definition mnl_nlmsg_ok :: "bytes \<Rightarrow> int \<Rightarrow> bool" where
  "mnl_nlmsg_ok nlh len \<longleftrightarrow> len \<ge> 16 \<and> field_at nlh 0 4 \<ge> 16 \<and> int (field_at nlh 0 4) \<le> len"

abbreviation (input) NLMSG_NOOP :: nat where "NLMSG_NOOP \<equiv> 1"
abbreviation (input) NLMSG_ERROR :: nat where "NLMSG_ERROR \<equiv> 2"
abbreviation (input) NLMSG_DONE :: nat where "NLMSG_DONE \<equiv> 3"
abbreviation (input) NLMSG_OVERRUN :: nat where "NLMSG_OVERRUN \<equiv> 4"
abbreviation (input) NLMSG_MIN_TYPE :: nat where "NLMSG_MIN_TYPE \<equiv> 16"
abbreviation (input) NLM_F_MULTI :: nat where "NLM_F_MULTI \<equiv> 2"
abbreviation (input) NLM_F_DUMP_INTR :: nat where "NLM_F_DUMP_INTR \<equiv> 16"

text \<open>The error number in a message, a signed 32-bit number of either sign.\<close>

definition error_at :: "bytes \<Rightarrow> int" where
  "error_at nlh = sint (of_nat (field_at nlh MNL_NLMSG_HDRLEN 4) :: u32)"

definition mnlg_cb_error :: "'s cb" where
  "mnlg_cb_error nlh st =
     (if field_at nlh 0 4 < MNL_NLMSG_HDRLEN + 20 then (MNL_CB_ERROR, EBADMSG, snd st)
      else (if error_at nlh = 0 then MNL_CB_STOP else MNL_CB_ERROR, abs (error_at nlh), snd st))"

definition mnlg_cb_stop :: "'s cb" where
  "mnlg_cb_stop nlh st =
     (if odd (field_at nlh 6 2 div NLM_F_MULTI) \<and> field_at nlh 0 4 = MNL_NLMSG_HDRLEN + 4
      then (if error_at nlh = 0 then MNL_CB_STOP else MNL_CB_ERROR, abs (error_at nlh), snd st)
      else (MNL_CB_STOP, st))"

text \<open>The callbacks for control messages: those of \<^verbatim>\<open>mnlg_cb_array\<close> and those of \<^verbatim>\<open>default_cb_array\<close>, which differ in the
  end of a dump.\<close>

definition mnlg_cb_array :: "nat \<Rightarrow> 's cb option" where
  "mnlg_cb_array type =
     (if type = NLMSG_NOOP \<or> type = NLMSG_OVERRUN then Some (\<lambda>nlh st. (MNL_CB_OK, st))
      else if type = NLMSG_ERROR then Some mnlg_cb_error
      else if type = NLMSG_DONE then Some mnlg_cb_stop
      else None)"

definition default_cb_array :: "nat \<Rightarrow> 's cb option" where
  "default_cb_array type =
     (if type = NLMSG_NOOP \<or> type = NLMSG_OVERRUN then Some (\<lambda>nlh st. (MNL_CB_OK, st))
      else if type = NLMSG_ERROR then Some mnlg_cb_error
      else if type = NLMSG_DONE then Some (\<lambda>nlh st. (MNL_CB_STOP, st))
      else None)"

text \<open>The callback for a message, if there is one; \<open>ctl\<close> is the array that is used for control messages.\<close>

definition cb_for :: "'s cb option \<Rightarrow> (nat \<Rightarrow> 's cb option) \<Rightarrow> nat \<Rightarrow> 's cb option" where
  "cb_for cb_data ctl type = (if type \<ge> NLMSG_MIN_TYPE then cb_data else ctl type)"

function mnl_cb_run ::
  "bytes \<Rightarrow> int \<Rightarrow> nat \<Rightarrow> nat \<Rightarrow> 's cb option \<Rightarrow> (nat \<Rightarrow> 's cb option) \<Rightarrow> int \<Rightarrow> int \<times> 's \<Rightarrow> int \<times> int \<times> 's"
where
  "mnl_cb_run nlh len seq portid cb_data ctl ret st =
     (if mnl_nlmsg_ok nlh len then
        (if field_at nlh 12 4 \<noteq> 0 \<and> portid \<noteq> 0 \<and> field_at nlh 12 4 \<noteq> portid then (- 1, ESRCH, snd st)
         else if field_at nlh 8 4 \<noteq> 0 \<and> seq \<noteq> 0 \<and> field_at nlh 8 4 \<noteq> seq then (- 1, EPROTO, snd st)
         else if odd (field_at nlh 6 2 div NLM_F_DUMP_INTR) then (- 1, EINTR, snd st)
         else
           (case (case cb_for cb_data ctl (field_at nlh 4 2) of None \<Rightarrow> (MNL_CB_OK, st) | Some cb \<Rightarrow> cb nlh st) of
              (ret', st) \<Rightarrow>
                if cb_for cb_data ctl (field_at nlh 4 2) \<noteq> None \<and> ret' \<le> MNL_CB_STOP then (ret', st)
                else
                  mnl_cb_run (drop (MNL_ALIGN (field_at nlh 0 4)) nlh) (len - int (MNL_ALIGN (field_at nlh 0 4)))
                    seq portid cb_data ctl
                    (if cb_for cb_data ctl (field_at nlh 4 2) = None then ret else ret') st))
      else (ret, st))"
  by pat_completeness auto
termination
  by (relation "measure (\<lambda>(nlh, len, seq, portid, cb_data, ctl, ret, st). nat len)")
    (auto simp: mnl_nlmsg_ok_def MNL_ALIGN_def)

declare mnl_cb_run.simps [simp del]

section \<open>Sockets\<close>

text \<open>
  The calls on the socket.  Opening and binding give 0 or an error number, and the port number of the
  socket; sending gives 0 or an error number; receiving gives an error number, or whether the datagram was cut off, the
  number of bytes and what the buffer then holds.  \<open>uninit_version\<close> is what the allocator left in a field
  that is only written by an answer.
\<close>

record 'w netlink =
  pagesize :: nat
  nl_time :: "'w \<Rightarrow> nat"
  nl_socket :: "'w \<Rightarrow> int"
  nl_bind :: "'w \<Rightarrow> int"
  nl_portid :: "'w \<Rightarrow> nat"
  nl_send :: "'w \<Rightarrow> bytes \<Rightarrow> int \<times> 'w"
  nl_recv :: "'w \<Rightarrow> (int + bool \<times> nat \<times> bytes) \<times> 'w"
  CTRL_ATTR_MAX :: nat
  uninit_version :: nat

abbreviation SOCKET_BUFFER_SIZE :: "'w netlink \<Rightarrow> nat" where
  "SOCKET_BUFFER_SIZE N \<equiv> mnl_ideal_socket_buffer_size (pagesize N)"

definition mnl_socket_recvfrom :: "'w netlink \<Rightarrow> 'w \<Rightarrow> (int + nat \<times> bytes) \<times> 'w" where
  "mnl_socket_recvfrom N w =
     (case nl_recv N w of
        (Inl e, w) \<Rightarrow> (Inl e, w)
      | (Inr (trunc, len, buf), w) \<Rightarrow> (if trunc then Inl ENOSPC else Inr (len, buf), w))"

record mnlg_socket =
  nlg_id :: nat
  nlg_version :: nat
  nlg_seq :: nat
  nlg_portid :: nat

definition mnlg_msg_prepare_with ::
  "'w netlink \<Rightarrow> 'w \<Rightarrow> mnlg_socket \<Rightarrow> nat \<Rightarrow> nat \<Rightarrow> nat \<Rightarrow> nat \<Rightarrow> nlmsg \<times> mnlg_socket"
where
  "mnlg_msg_prepare_with N w nlg cmd flags family version =
     (let seq = nl_time N w mod 2 ^ 32;
          nlh = mnl_nlmsg_put_header\<lparr>nlmsg_type := family, nlmsg_flags := flags, nlmsg_seq := seq\<rparr>
      in (mnl_nlmsg_put_extra_header nlh [of_nat cmd, of_nat version, 0, 0], nlg\<lparr>nlg_seq := seq\<rparr>))"

definition mnlg_msg_prepare ::
  "'w netlink \<Rightarrow> 'w \<Rightarrow> mnlg_socket \<Rightarrow> nat \<Rightarrow> nat \<Rightarrow> nlmsg \<times> mnlg_socket"
where
  "mnlg_msg_prepare N w nlg cmd flags =
     mnlg_msg_prepare_with N w nlg cmd flags (nlg_id nlg) (nlg_version nlg)"

text \<open>Receiving until a callback stops, fails, or nothing more comes; \<open>None\<close> when it never does.\<close>

partial_function (option) mnlg_socket_recv_run ::
  "'w netlink \<Rightarrow> mnlg_socket \<Rightarrow> 's cb option \<Rightarrow> 'w \<Rightarrow> int \<times> 's \<Rightarrow> ((int \<times> int \<times> 's) \<times> 'w) option"
where
  "mnlg_socket_recv_run N nlg data_cb w st =
     (case mnl_socket_recvfrom N w of
        (Inl e, w) \<Rightarrow> Some ((- 1, e, snd st), w)
      | (Inr (len, buf), w) \<Rightarrow>
          if len = 0 then Some ((0, st), w)
          else
            (case mnl_cb_run buf (int len) (nlg_seq nlg) (nlg_portid nlg) data_cb mnlg_cb_array MNL_CB_OK st of
               (err, st) \<Rightarrow>
                 if err > 0 then mnlg_socket_recv_run N nlg data_cb w st else Some ((err, st), w)))"

abbreviation (input) CTRL_ATTR_FAMILY_ID :: nat where "CTRL_ATTR_FAMILY_ID \<equiv> 1"
abbreviation (input) CTRL_ATTR_FAMILY_NAME :: nat where "CTRL_ATTR_FAMILY_NAME \<equiv> 2"
abbreviation (input) CTRL_ATTR_VERSION :: nat where "CTRL_ATTR_VERSION \<equiv> 3"

definition get_family_id_attr_cb :: "nat \<Rightarrow> (nat \<Rightarrow> bytes option) cb" where
  "get_family_id_attr_cb attr_max attr st =
     (let type = mnl_attr_get_type attr in
      if type > attr_max then (MNL_CB_ERROR, EOPNOTSUPP, snd st)
      else if type = CTRL_ATTR_FAMILY_ID \<and> mnl_attr_validate attr MNL_TYPE_U16 \<noteq> 0
      then (MNL_CB_ERROR, mnl_attr_validate attr MNL_TYPE_U16, snd st)
      else (MNL_CB_OK, fst st, (snd st)(type \<mapsto> attr)))"

definition get_family_id_cb :: "nat \<Rightarrow> mnlg_socket cb" where
  "get_family_id_cb attr_max nlh st =
     (case mnl_attr_parse nlh 4 (get_family_id_attr_cb attr_max) (fst st, \<lambda>_. None) of
        (_, e, tb) \<Rightarrow>
          (case (tb CTRL_ATTR_FAMILY_ID, tb CTRL_ATTR_VERSION) of
             (Some fid, Some version) \<Rightarrow>
               (MNL_CB_OK, e, (snd st)\<lparr>nlg_id := mnl_attr_get_u16 fid, nlg_version := mnl_attr_get_u32 version mod 2 ^ 8\<rparr>)
           | _ \<Rightarrow> (MNL_CB_ERROR, e, snd st)))"

abbreviation (input) GENL_ID_CTRL :: nat where "GENL_ID_CTRL \<equiv> 16"
abbreviation (input) CTRL_CMD_GETFAMILY :: nat where "CTRL_CMD_GETFAMILY \<equiv> 3"
abbreviation (input) NLM_F_REQUEST :: nat where "NLM_F_REQUEST \<equiv> 1"
abbreviation (input) NLM_F_ACK :: nat where "NLM_F_ACK \<equiv> 4"
abbreviation (input) NLM_F_DUMP :: nat where "NLM_F_DUMP \<equiv> 0x300"

text \<open>The open socket, or the error number.\<close>

definition mnlg_socket_open :: "'w netlink \<Rightarrow> 'w \<Rightarrow> string \<Rightarrow> ((int, mnlg_socket) res \<times> 'w) option" where
  "mnlg_socket_open N w family_name =
     (if nl_socket N w \<noteq> 0 then Some (Fail (nl_socket N w), w)
      else if nl_bind N w \<noteq> 0 then Some (Fail (nl_bind N w), w)
      else
        (case mnlg_msg_prepare_with N w
                \<lparr>nlg_id = 0, nlg_version = uninit_version N, nlg_seq = 0, nlg_portid = nl_portid N w\<rparr>
                CTRL_CMD_GETFAMILY (NLM_F_REQUEST + NLM_F_ACK) GENL_ID_CTRL 1 of
           (nlh, nlg) \<Rightarrow>
             (case mnl_attr_put (SOCKET_BUFFER_SIZE N) nlh CTRL_ATTR_FAMILY_NAME (str_bytes family_name @ [0]) of
                Ok nlh \<Rightarrow>
                  (case nl_send N w (wire nlh) of (e, w) \<Rightarrow>
                     if e \<noteq> 0 then Some (Fail e, w)
                     else
                       (case mnlg_socket_recv_run N nlg (Some (get_family_id_cb (CTRL_ATTR_MAX N))) w (0, nlg) of
                          None \<Rightarrow> None
                        | Some ((ret, e, nlg), w) \<Rightarrow>
                            if ret < 0 then
                              Some (Fail (if e = ENOENT then EPROTONOSUPPORT else if e \<noteq> 0 then e else ENOSYS), w)
                            else Some (Ok nlg, w)))
              | _ \<Rightarrow> Some (Fault, w))))"

section \<open>Numbers, strings and lengths\<close>

named_theorems nl_simps \<open>facts that read what was written\<close>

lemma field_at_here [nl_simps]: "length a = n \<Longrightarrow> field_at (a @ r) 0 n = of_le a"
  by (simp add: field_at_def)

lemma MNL_ALIGN_mult [simp]: "4 dvd n \<Longrightarrow> MNL_ALIGN n = n"
  by (auto simp: MNL_ALIGN_def elim!: dvdE)

lemma MNL_ALIGN_add_4: "MNL_ALIGN (4 + n) = 4 + MNL_ALIGN n"
  using div_add_self1 [of 4 "n + 3"] by (simp add: MNL_ALIGN_def algebra_simps)

lemma MNL_ALIGN_ge: "n \<le> MNL_ALIGN n"
  by (simp add: MNL_ALIGN_def)

lemma MNL_ALIGN_le: "MNL_ALIGN n \<le> n + 3"
  by (simp add: MNL_ALIGN_def)

lemma MNL_ALIGN_dvd [simp]: "4 dvd MNL_ALIGN n"
  by (simp add: MNL_ALIGN_def)

lemma MNL_ALIGN_mono: "m \<le> n \<Longrightarrow> MNL_ALIGN m \<le> MNL_ALIGN n"
  by (simp add: MNL_ALIGN_def div_le_mono)

lemma length_attr_bytes [simp]: "length (attr_bytes t d) = 4 + MNL_ALIGN (length d)"
  using MNL_ALIGN_ge [of "length d"] by (simp add: attr_bytes_def)

lemma str_at_bytes [nl_simps]: "NUL \<notin> set s \<Longrightarrow> str_at (str_bytes s @ 0 # r) = s"
proof -
  assume "NUL \<notin> set s"
  then have "takeWhile (\<lambda>c. c \<noteq> NUL) (s @ NUL # map byte_char r) = s"
    by (subst takeWhile_append2) auto
  moreover have "byte_char 0 = NUL" by (simp add: byte_char_def char_of_def)
  ultimately show ?thesis by (simp add: str_at_def str_bytes_def cstr_def comp_def)
qed

section \<open>Reading an attribute that was written\<close>

text \<open>An attribute that a message can hold.\<close>

definition attr_fits :: "nat \<Rightarrow> bytes \<Rightarrow> bool" where
  "attr_fits t d \<longleftrightarrow> t < 2 ^ 16 \<and> 4 + length d < 2 ^ 16"

lemma put_bytes_fits: "attr_fits t d \<Longrightarrow> put_bytes nlh t d = nlh\<lparr>nlmsg_body := nlmsg_body nlh @ attr_bytes t d\<rparr>"
  by (simp add: put_bytes_def attr_fits_def Let_def MNL_ALIGN_add_4)

lemma attr_header [nl_simps]:
  assumes "attr_fits t d"
  shows "nla_len (attr_bytes t d @ r) = 4 + length d" and "nla_type (attr_bytes t d @ r) = t"
  using assms
  by (simp_all add: field_at_def attr_bytes_def attr_fits_def of_le_le_bytes)

lemma attr_parts [nl_simps]:
  assumes "attr_fits t d"
  shows "mnl_attr_get_type (attr_bytes t d @ r) = t mod 2 ^ 14"
    and "mnl_attr_get_payload_len (attr_bytes t d @ r) = length d"
    and "mnl_attr_get_payload (attr_bytes t d @ r) = d @ replicate (MNL_ALIGN (length d) - length d) 0 @ r"
  using assms
  by (simp_all add: mnl_attr_get_type_def mnl_attr_get_payload_len_def mnl_attr_get_payload_def attr_header)
    (simp_all add: attr_fits_def attr_bytes_def)

lemma attr_next [nl_simps]: "attr_fits t d \<Longrightarrow> mnl_attr_next (attr_bytes t d @ r) = r"
  by (simp add: mnl_attr_next_def attr_header MNL_ALIGN_add_4)

lemma attr_numbers [nl_simps]:
  assumes "attr_fits t d"
  shows "length d = 1 \<Longrightarrow> mnl_attr_get_u8 (attr_bytes t d @ r) = of_le d"
    and "length d = 2 \<Longrightarrow> mnl_attr_get_u16 (attr_bytes t d @ r) = of_le d"
    and "length d = 4 \<Longrightarrow> mnl_attr_get_u32 (attr_bytes t d @ r) = of_le d"
    and "length d = 8 \<Longrightarrow> mnl_attr_get_u64 (attr_bytes t d @ r) = of_le d"
  by (simp_all add: mnl_attr_get_u8_def mnl_attr_get_u16_def mnl_attr_get_u32_def mnl_attr_get_u64_def attr_parts [OF assms] field_at_here)

lemma attr_string [nl_simps]:
  "attr_fits t (str_bytes s @ [0]) \<Longrightarrow> NUL \<notin> set s \<Longrightarrow> mnl_attr_get_str (attr_bytes t (str_bytes s @ [0]) @ r) = s"
  using attr_parts(3) [of t "str_bytes s @ [0]" r]
  by (simp add: mnl_attr_get_str_def str_at_bytes)

lemma attr_valid [nl_simps]:
  assumes "attr_fits t d"
  shows "type \<notin> {MNL_TYPE_NUL_STRING, MNL_TYPE_STRING, MNL_TYPE_FLAG} \<Longrightarrow>
      mnl_attr_validate (attr_bytes t d @ r) type = (if length d = mnl_attr_data_type_len type then 0 else ERANGE)"
    and "mnl_attr_validate (attr_bytes t d @ r) MNL_TYPE_FLAG = (if d = [] then 0 else ERANGE)"
    and "mnl_attr_validate (attr_bytes t d @ r) MNL_TYPE_STRING = (if d = [] then ERANGE else 0)"
    and "mnl_attr_validate (attr_bytes t d @ r) MNL_TYPE_NUL_STRING =
      (if d = [] then ERANGE else if last d \<noteq> 0 then EINVAL else 0)"
proof -
  have l: "d \<noteq> [] \<Longrightarrow> (d @ x) ! (length d - 1) = last d" for x
    by (simp add: nth_append last_conv_nth)
  show "mnl_attr_validate (attr_bytes t d @ r) MNL_TYPE_FLAG = (if d = [] then 0 else ERANGE)"
    "mnl_attr_validate (attr_bytes t d @ r) MNL_TYPE_STRING = (if d = [] then ERANGE else 0)"
    "mnl_attr_validate (attr_bytes t d @ r) MNL_TYPE_NUL_STRING =
      (if d = [] then ERANGE else if last d \<noteq> 0 then EINVAL else 0)"
    using l by (auto simp: mnl_attr_validate_def attr_parts [OF assms] mnl_attr_data_type_len_def Let_def)
  show "type \<notin> {MNL_TYPE_NUL_STRING, MNL_TYPE_STRING, MNL_TYPE_FLAG} \<Longrightarrow>
      mnl_attr_validate (attr_bytes t d @ r) type = (if length d = mnl_attr_data_type_len type then 0 else ERANGE)"
    using le_antisym [of "length d" 1]
    by (cases type)
      (auto simp: mnl_attr_validate_def attr_parts [OF assms] mnl_attr_data_type_len_def Let_def Suc_le_eq)
qed

text \<open>One step of the loop, and its end.\<close>

lemma attr_loop_step:
  assumes "attr_fits t d" "0 \<le> k"
  shows "attr_loop cb (attr_bytes t d @ r) (int (4 + MNL_ALIGN (length d)) + k) ret st =
    (case cb (attr_bytes t d @ r) st of (ret, st) \<Rightarrow> if ret \<le> MNL_CB_STOP then (ret, st) else attr_loop cb r k ret st)"
proof -
  have "mnl_attr_ok (attr_bytes t d @ r) (int (4 + MNL_ALIGN (length d)) + k)"
    using assms(2) MNL_ALIGN_ge [of "length d"] by (simp add: mnl_attr_ok_def attr_header [OF assms(1)])
  moreover have "int (4 + MNL_ALIGN (length d)) + k - int (MNL_ALIGN (nla_len (attr_bytes t d @ r))) = k"
    by (simp only: attr_header [OF assms(1)] MNL_ALIGN_add_4)
  ultimately show ?thesis
    by (subst attr_loop.simps) (simp only: attr_next [OF assms(1)] if_True)
qed

lemma attr_loop_end: "attr_loop cb r 0 ret st = (ret, st)"
  by (subst attr_loop.simps) (simp add: mnl_attr_ok_def)

section \<open>Nested attributes\<close>

lemma nest_end_open:
  assumes "nest_open nlh t = (nlh1, start)" "nlmsg_body nlh2 = nlmsg_body nlh1 @ x"
    and "4 dvd length x"
  shows "mnl_attr_nest_end nlh2 start = nlh2\<lparr>nlmsg_body := nlmsg_body nlh @ attr_bytes (NLA_F_NESTED + t) x\<rparr>"
    and "mnl_attr_nest_cancel nlh2 start = nlh2\<lparr>nlmsg_body := nlmsg_body nlh\<rparr>"
  using assms by (auto simp: nest_open_def mnl_attr_nest_end_def mnl_attr_nest_cancel_def attr_bytes_def numeral_2_eq_2)

end
