(* ===== verification/Ipc_Linux.thy ===== *)
theory Ipc_Linux
  imports Netlink
begin

text \<open>
  \<^verbatim>\<open>ipc-linux.h\<close>: the tunnel in the kernel.  A device is sent as a sequence of messages, each of which
  holds as many peers and allowed addresses as fit into the buffer, and is read from the messages of a
  dump, after which the parts of a peer are joined.  A pointer to the next peer or address to be sent is the list
  from there on, and a null pointer the empty list.
\<close>

section \<open>Attribute numbers\<close>

abbreviation (input) WGDEVICE_A_IFINDEX :: nat where "WGDEVICE_A_IFINDEX \<equiv> 1"
abbreviation (input) WGDEVICE_A_IFNAME :: nat where "WGDEVICE_A_IFNAME \<equiv> 2"
abbreviation (input) WGDEVICE_A_PRIVATE_KEY :: nat where "WGDEVICE_A_PRIVATE_KEY \<equiv> 3"
abbreviation (input) WGDEVICE_A_PUBLIC_KEY :: nat where "WGDEVICE_A_PUBLIC_KEY \<equiv> 4"
abbreviation (input) WGDEVICE_A_FLAGS :: nat where "WGDEVICE_A_FLAGS \<equiv> 5"
abbreviation (input) WGDEVICE_A_LISTEN_PORT :: nat where "WGDEVICE_A_LISTEN_PORT \<equiv> 6"
abbreviation (input) WGDEVICE_A_FWMARK :: nat where "WGDEVICE_A_FWMARK \<equiv> 7"
abbreviation (input) WGDEVICE_A_PEERS :: nat where "WGDEVICE_A_PEERS \<equiv> 8"
abbreviation (input) WGDEVICE_A_JC :: nat where "WGDEVICE_A_JC \<equiv> 9"
abbreviation (input) WGDEVICE_A_JMIN :: nat where "WGDEVICE_A_JMIN \<equiv> 10"
abbreviation (input) WGDEVICE_A_JMAX :: nat where "WGDEVICE_A_JMAX \<equiv> 11"
abbreviation (input) WGDEVICE_A_S1 :: nat where "WGDEVICE_A_S1 \<equiv> 12"
abbreviation (input) WGDEVICE_A_S2 :: nat where "WGDEVICE_A_S2 \<equiv> 13"
abbreviation (input) WGDEVICE_A_H1 :: nat where "WGDEVICE_A_H1 \<equiv> 14"
abbreviation (input) WGDEVICE_A_H2 :: nat where "WGDEVICE_A_H2 \<equiv> 15"
abbreviation (input) WGDEVICE_A_H3 :: nat where "WGDEVICE_A_H3 \<equiv> 16"
abbreviation (input) WGDEVICE_A_H4 :: nat where "WGDEVICE_A_H4 \<equiv> 17"
abbreviation (input) WGDEVICE_A_S3 :: nat where "WGDEVICE_A_S3 \<equiv> 19"
abbreviation (input) WGDEVICE_A_S4 :: nat where "WGDEVICE_A_S4 \<equiv> 20"
abbreviation (input) WGDEVICE_A_I1 :: nat where "WGDEVICE_A_I1 \<equiv> 21"
abbreviation (input) WGDEVICE_A_I2 :: nat where "WGDEVICE_A_I2 \<equiv> 22"
abbreviation (input) WGDEVICE_A_I3 :: nat where "WGDEVICE_A_I3 \<equiv> 23"
abbreviation (input) WGDEVICE_A_I4 :: nat where "WGDEVICE_A_I4 \<equiv> 24"
abbreviation (input) WGDEVICE_A_I5 :: nat where "WGDEVICE_A_I5 \<equiv> 25"

abbreviation (input) WGPEER_A_PUBLIC_KEY :: nat where "WGPEER_A_PUBLIC_KEY \<equiv> 1"
abbreviation (input) WGPEER_A_PRESHARED_KEY :: nat where "WGPEER_A_PRESHARED_KEY \<equiv> 2"
abbreviation (input) WGPEER_A_FLAGS :: nat where "WGPEER_A_FLAGS \<equiv> 3"
abbreviation (input) WGPEER_A_ENDPOINT :: nat where "WGPEER_A_ENDPOINT \<equiv> 4"
abbreviation (input) WGPEER_A_PERSISTENT_KEEPALIVE_INTERVAL :: nat where "WGPEER_A_PERSISTENT_KEEPALIVE_INTERVAL \<equiv> 5"
abbreviation (input) WGPEER_A_LAST_HANDSHAKE_TIME :: nat where "WGPEER_A_LAST_HANDSHAKE_TIME \<equiv> 6"
abbreviation (input) WGPEER_A_RX_BYTES :: nat where "WGPEER_A_RX_BYTES \<equiv> 7"
abbreviation (input) WGPEER_A_TX_BYTES :: nat where "WGPEER_A_TX_BYTES \<equiv> 8"
abbreviation (input) WGPEER_A_ALLOWEDIPS :: nat where "WGPEER_A_ALLOWEDIPS \<equiv> 9"
abbreviation (input) WGPEER_A_AWG :: nat where "WGPEER_A_AWG \<equiv> 11"

abbreviation (input) WGALLOWEDIP_A_FAMILY :: nat where "WGALLOWEDIP_A_FAMILY \<equiv> 1"
abbreviation (input) WGALLOWEDIP_A_IPADDR :: nat where "WGALLOWEDIP_A_IPADDR \<equiv> 2"
abbreviation (input) WGALLOWEDIP_A_CIDR_MASK :: nat where "WGALLOWEDIP_A_CIDR_MASK \<equiv> 3"

abbreviation (input) WGDEVICE_F_REPLACE_PEERS :: nat where "WGDEVICE_F_REPLACE_PEERS \<equiv> 1"
abbreviation (input) WGPEER_F_REMOVE_ME :: nat where "WGPEER_F_REMOVE_ME \<equiv> 1"
abbreviation (input) WGPEER_F_REPLACE_ALLOWEDIPS :: nat where "WGPEER_F_REPLACE_ALLOWEDIPS \<equiv> 2"
abbreviation (input) WGPEER_F_HAS_AWG :: nat where "WGPEER_F_HAS_AWG \<equiv> 8"

abbreviation (input) WG_CMD_GET_DEVICE :: nat where "WG_CMD_GET_DEVICE \<equiv> 0"
abbreviation (input) WG_CMD_SET_DEVICE :: nat where "WG_CMD_SET_DEVICE \<equiv> 1"
abbreviation (input) WG_GENL_NAME :: string where "WG_GENL_NAME \<equiv> ''amneziawg''"

section \<open>Structures in memory\<close>

definition fam_num :: "sa_family \<Rightarrow> nat" where
  "fam_num f = (case f of AF_UNSPEC \<Rightarrow> 0 | AF_INET \<Rightarrow> 2 | AF_INET6 \<Rightarrow> 10 | AF_OTHER k \<Rightarrow> k)"

definition num_fam :: "nat \<Rightarrow> sa_family" where
  "num_fam k = (if k = 0 then AF_UNSPEC else if k = 2 then AF_INET else if k = 10 then AF_INET6 else AF_OTHER k)"

text \<open>\<^verbatim>\<open>struct sockaddr_in\<close> and \<^verbatim>\<open>struct sockaddr_in6\<close>; the port has its most significant byte first.\<close>

definition sockaddr_bytes :: "sockaddr \<Rightarrow> bytes" where
  "sockaddr_bytes sa =
     le_bytes 2 (fam_num (sa_fam sa)) @ rev (le_bytes 2 (unat (sa_port sa))) @
     (if sa_fam sa = AF_INET then sa_addr sa @ replicate 8 0
      else le_bytes 4 (unat (sa_flowinfo sa)) @ sa_addr sa @ le_bytes 4 (unat (sa_scope sa)))"

definition sockaddr_of :: "bytes \<Rightarrow> sockaddr" where
  "sockaddr_of p =
     (let f = num_fam (field_at p 0 2); port = of_nat (of_le (rev (take 2 (drop 2 p)))) in
      if f = AF_INET then \<lparr>sa_fam = f, sa_port = port, sa_addr = take 4 (drop 4 p), sa_flowinfo = 0, sa_scope = 0\<rparr>
      else \<lparr>sa_fam = f, sa_port = port, sa_addr = take 16 (drop 8 p),
        sa_flowinfo = of_nat (field_at p 4 4), sa_scope = of_nat (field_at p 24 4)\<rparr>)"

section \<open>Setting a device\<close>

text \<open>The settings of the device as attributes, in their order; \<open>None\<close> is the string of a null pointer.\<close>

definition put_magic_header_attr :: "nat \<Rightarrow> string option \<Rightarrow> bytes option" where
  "put_magic_header_attr version header_field =
     map_option (\<lambda>s. if version \<ge> 2 then str_bytes s @ [0] else le_bytes 4 (fst (strtoul 10 s) mod 2 ^ 32)) header_field"

definition attr_if :: "bool \<Rightarrow> nat \<Rightarrow> 'a \<Rightarrow> (nat \<times> 'a) list" where
  "attr_if b type data = (if b then [(type, data)] else [])"

definition device_attrs :: "nat \<Rightarrow> wgdevice \<Rightarrow> (nat \<times> bytes option) list" where
  "device_attrs version d =
     (let f = has (dev_flags d);
          u16 = (\<lambda>w :: u16. Some (le_bytes 2 (unat w)));
          strz = map_option (\<lambda>s. str_bytes s @ [0]);
          flags = (if f WGDEVICE_REPLACE_PEERS then WGDEVICE_F_REPLACE_PEERS else 0)
      in attr_if (f WGDEVICE_HAS_PRIVATE_KEY) WGDEVICE_A_PRIVATE_KEY (Some (private_key d)) @
         attr_if (f WGDEVICE_HAS_LISTEN_PORT) WGDEVICE_A_LISTEN_PORT (u16 (listen_port d)) @
         attr_if (f WGDEVICE_HAS_JC) WGDEVICE_A_JC (u16 (junk_packet_count d)) @
         attr_if (f WGDEVICE_HAS_JMIN) WGDEVICE_A_JMIN (u16 (junk_packet_min_size d)) @
         attr_if (f WGDEVICE_HAS_JMAX) WGDEVICE_A_JMAX (u16 (junk_packet_max_size d)) @
         attr_if (f WGDEVICE_HAS_S1) WGDEVICE_A_S1 (u16 (init_packet_junk_size d)) @
         attr_if (f WGDEVICE_HAS_S2) WGDEVICE_A_S2 (u16 (response_packet_junk_size d)) @
         attr_if (f WGDEVICE_HAS_S3) WGDEVICE_A_S3 (u16 (cookie_reply_packet_junk_size d)) @
         attr_if (f WGDEVICE_HAS_S4) WGDEVICE_A_S4 (u16 (transport_packet_junk_size d)) @
         attr_if (f WGDEVICE_HAS_H1) WGDEVICE_A_H1 (put_magic_header_attr version (init_packet_magic_header d)) @
         attr_if (f WGDEVICE_HAS_H2) WGDEVICE_A_H2 (put_magic_header_attr version (response_packet_magic_header d)) @
         attr_if (f WGDEVICE_HAS_H3) WGDEVICE_A_H3 (put_magic_header_attr version (underload_packet_magic_header d)) @
         attr_if (f WGDEVICE_HAS_H4) WGDEVICE_A_H4 (put_magic_header_attr version (transport_packet_magic_header d)) @
         attr_if (f WGDEVICE_HAS_I1) WGDEVICE_A_I1 (strz (i1 d)) @
         attr_if (f WGDEVICE_HAS_I2) WGDEVICE_A_I2 (strz (i2 d)) @
         attr_if (f WGDEVICE_HAS_I3) WGDEVICE_A_I3 (strz (i3 d)) @
         attr_if (f WGDEVICE_HAS_I4) WGDEVICE_A_I4 (strz (i4 d)) @
         attr_if (f WGDEVICE_HAS_I5) WGDEVICE_A_I5 (strz (i5 d)) @
         attr_if (f WGDEVICE_HAS_FWMARK) WGDEVICE_A_FWMARK (Some (le_bytes 4 (unat (fwmark d)))) @
         attr_if (flags \<noteq> 0) WGDEVICE_A_FLAGS (Some (le_bytes 4 flags)))"

text \<open>These are put without a look at the size of the buffer.\<close>

fun put_all :: "nat \<Rightarrow> nlmsg \<Rightarrow> (nat \<times> bytes option) list \<Rightarrow> (unit, nlmsg) res" where
  "put_all n nlh [] = Ok nlh"
| "put_all n nlh ((type, None) # attrs) = Fault"
| "put_all n nlh ((type, Some data) # attrs) = res_bind (mnl_attr_put n nlh type data) (\<lambda>nlh. put_all n nlh attrs)"

text \<open>Attributes that are put as long as they fit: the message so far and whether all that must fit did.  The first
  component of an attribute says whether it must.\<close>

fun put_checks :: "nat \<Rightarrow> nlmsg \<Rightarrow> (bool \<times> nat \<times> bytes) list \<Rightarrow> nlmsg \<times> bool" where
  "put_checks n nlh [] = (nlh, True)"
| "put_checks n nlh ((required, type, data) # attrs) =
     (case mnl_attr_put_check n nlh type data of
        None \<Rightarrow> if required then (nlh, False) else put_checks n nlh attrs
      | Some nlh \<Rightarrow> put_checks n nlh attrs)"

definition ip_attrs :: "wgallowedip \<Rightarrow> (bool \<times> nat \<times> bytes) list" where
  "ip_attrs a =
     (True, WGALLOWEDIP_A_FAMILY, le_bytes 2 (fam_num (a_family a))) #
     (if a_family a = AF_INET \<or> a_family a = AF_INET6 then [(True, WGALLOWEDIP_A_IPADDR, ip_bytes a)] else []) @
     [(True, WGALLOWEDIP_A_CIDR_MASK, le_bytes 1 (unat (a_cidr a)))]"

text \<open>The addresses that fit, and those that remain.\<close>

fun put_ips :: "nat \<Rightarrow> nlmsg \<Rightarrow> wgallowedip list \<Rightarrow> nlmsg \<times> wgallowedip list" where
  "put_ips n nlh [] = (nlh, [])"
| "put_ips n nlh (a # as) =
     (case mnl_attr_nest_start_check n nlh 0 of
        None \<Rightarrow> (nlh, a # as)
      | Some (nlh, allowedip_nest) \<Rightarrow>
          (case put_checks n nlh (ip_attrs a) of
             (nlh, True) \<Rightarrow> put_ips n (mnl_attr_nest_end nlh allowedip_nest) as
           | (nlh, False) \<Rightarrow> (mnl_attr_nest_cancel nlh allowedip_nest, a # as)))"

definition wgpeer_f :: "wgpeer \<Rightarrow> bool \<Rightarrow> nat" where
  "wgpeer_f p continued =
     (if has (peer_flags p) WGPEER_REMOVE_ME then WGPEER_F_REMOVE_ME else 0) +
     (if \<not> continued \<and> has (peer_flags p) WGPEER_REPLACE_ALLOWEDIPS then WGPEER_F_REPLACE_ALLOWEDIPS else 0) +
     (if has (peer_flags p) WGPEER_HAS_AWG then WGPEER_F_HAS_AWG else 0)"

text \<open>The attributes of a peer, or of its continuation in a later message.\<close>

definition must_if :: "bool \<Rightarrow> nat \<Rightarrow> bytes \<Rightarrow> (bool \<times> nat \<times> bytes) list" where
  "must_if b type data = (if b then [(True, type, data)] else [])"

definition peer_attrs :: "wgpeer \<Rightarrow> bool \<Rightarrow> (bool \<times> nat \<times> bytes) list" where
  "peer_attrs p continued =
     must_if True WGPEER_A_PUBLIC_KEY (peer_public_key p) @
     must_if (\<not> continued \<and> has (peer_flags p) WGPEER_HAS_PRESHARED_KEY) WGPEER_A_PRESHARED_KEY (preshared_key p) @
     must_if (\<not> continued \<and> has_endpoint p) WGPEER_A_ENDPOINT (sockaddr_bytes (endpoint p)) @
     must_if (\<not> continued \<and> has (peer_flags p) WGPEER_HAS_PERSISTENT_KEEPALIVE_INTERVAL)
       WGPEER_A_PERSISTENT_KEEPALIVE_INTERVAL (le_bytes 2 (unat (persistent_keepalive_interval p))) @
     (if has (peer_flags p) WGPEER_HAS_AWG \<and> awg p then [(False, WGPEER_A_AWG, [])] else []) @
     must_if (wgpeer_f p continued \<noteq> 0) WGPEER_A_FLAGS (le_bytes 4 (wgpeer_f p continued))"

text \<open>How the work on one peer ends: it is complete, it is taken back because it does not fit, or some of its
  addresses remain.\<close>

datatype put_result = Complete nlmsg | Toobig_peers nlmsg | Toobig_allowedips nlmsg "wgallowedip list"

definition put_peer :: "nat \<Rightarrow> nlmsg \<Rightarrow> wgpeer \<Rightarrow> wgallowedip list \<Rightarrow> put_result" where
  "put_peer n nlh p allowedip =
     (case mnl_attr_nest_start_check n nlh 0 of
        None \<Rightarrow> Toobig_peers nlh
      | Some (nlh, peer_nest) \<Rightarrow>
          (case put_checks n nlh (peer_attrs p (allowedip \<noteq> [])) of
             (nlh, False) \<Rightarrow> Toobig_peers (mnl_attr_nest_cancel nlh peer_nest)
           | (nlh, True) \<Rightarrow>
               if first_allowedip p = [] then Complete (mnl_attr_nest_end nlh peer_nest)
               else
                 let allowedip = (if allowedip = [] then first_allowedip p else allowedip) in
                 (case mnl_attr_nest_start_check n nlh WGPEER_A_ALLOWEDIPS of
                    None \<Rightarrow> Toobig_allowedips (mnl_attr_nest_end nlh peer_nest) allowedip
                  | Some (nlh, allowedips_nest) \<Rightarrow>
                      (case put_ips n nlh allowedip of (nlh, rest) \<Rightarrow>
                         let nlh = mnl_attr_nest_end (mnl_attr_nest_end nlh allowedips_nest) peer_nest in
                         if rest = [] then Complete nlh else Toobig_allowedips nlh rest))))"

text \<open>The peers from one on, the first of which continues with the given addresses unless there are none: the message, and
  what remains for the next one.\<close>

fun put_peers ::
  "nat \<Rightarrow> nlmsg \<Rightarrow> wgpeer list \<Rightarrow> wgallowedip list \<Rightarrow> nlmsg \<times> wgpeer list \<times> wgallowedip list"
where
  "put_peers n nlh [] allowedip = (nlh, [], allowedip)"
| "put_peers n nlh (peer # peers) allowedip =
     (case put_peer n nlh peer allowedip of
        Complete nlh \<Rightarrow> put_peers n nlh peers []
      | Toobig_peers nlh \<Rightarrow> (nlh, peer # peers, allowedip)
      | Toobig_allowedips nlh allowedip \<Rightarrow> (nlh, peer # peers, allowedip))"

definition set_message ::
  "nat \<Rightarrow> nat \<Rightarrow> nlmsg \<Rightarrow> wgdevice \<Rightarrow> wgpeer list \<Rightarrow> wgallowedip list \<Rightarrow>
     (unit, nlmsg \<times> wgpeer list \<times> wgallowedip list) res"
where
  "set_message n version nlh dev peer allowedip =
     res_bind (mnl_attr_put n nlh WGDEVICE_A_IFNAME (str_bytes (dev_name dev) @ [0])) (\<lambda>nlh.
     res_bind (if peer = [] then put_all n nlh (device_attrs version dev) else Ok nlh) (\<lambda>nlh.
       if first_peer dev = [] then Ok (nlh, [], [])
       else
         res_bind (mnl_attr_nest_start n nlh WGDEVICE_A_PEERS) (\<lambda>(nlh, peers_nest).
           case put_peers n nlh (if peer = [] then first_peer dev else peer) allowedip of
             (nlh, peer, allowedip) \<Rightarrow> Ok (mnl_attr_nest_end nlh peers_nest, peer, allowedip))))"

text \<open>From the label \<^verbatim>\<open>again\<close> on: the result and the state, or a fault; \<open>None\<close> when it never ends.\<close>

partial_function (option) set_again ::
  "'w netlink \<Rightarrow> mnlg_socket \<Rightarrow> wgdevice \<Rightarrow> wgpeer list \<Rightarrow> wgallowedip list \<Rightarrow> 'w \<Rightarrow> ((unit, int) res \<times> 'w) option"
where
  "set_again N nlg dev peer allowedip w =
     (case mnlg_msg_prepare N w nlg WG_CMD_SET_DEVICE (NLM_F_REQUEST + NLM_F_ACK) of
        (nlh, nlg) \<Rightarrow>
          (case set_message (SOCKET_BUFFER_SIZE N) (nlg_version nlg) nlh dev peer allowedip of
             Ok (nlh, peer, allowedip) \<Rightarrow>
               (case nl_send N w (wire nlh) of (e, w) \<Rightarrow>
                  if e \<noteq> 0 then Some (Ok (- e), w)
                  else
                    (case mnlg_socket_recv_run N nlg None w (0, ()) of
                       None \<Rightarrow> None
                     | Some ((ret, e, _), w) \<Rightarrow>
                         if ret < 0 then Some (Ok (if e \<noteq> 0 then - e else - EINVAL), w)
                         else if peer \<noteq> [] then set_again N nlg dev peer allowedip w
                         else Some (Ok 0, w)))
           | _ \<Rightarrow> Some (Fault, w)))"

definition linux_set_device :: "'w netlink \<Rightarrow> 'w \<Rightarrow> wgdevice \<Rightarrow> ((unit, int) res \<times> 'w) option" where
  "linux_set_device N w dev =
     (case mnlg_socket_open N w WG_GENL_NAME of
        None \<Rightarrow> None
      | Some (Ok nlg, w) \<Rightarrow> set_again N nlg dev [] [] w
      | Some (Fail e, w) \<Rightarrow> Some (Ok (- e), w)
      | Some (_, w) \<Rightarrow> Some (Fault, w))"

section \<open>Getting a device\<close>

text \<open>\<^verbatim>\<open>if (!mnl_attr_validate(attr, type)) ...\<close>, which sets the error number otherwise.\<close>

definition when_valid :: "bytes \<Rightarrow> mnl_attr_data_type \<Rightarrow> ('s \<Rightarrow> 's) \<Rightarrow> int \<times> 's \<Rightarrow> int \<times> int \<times> 's" where
  "when_valid attr type f st =
     (let v = mnl_attr_validate attr type in
      (MNL_CB_OK, if v = 0 then fst st else v, if v = 0 then f (snd st) else snd st))"

text \<open>\<^verbatim>\<open>if (payload length == k) ...\<close> with the payload.\<close>

definition when_len :: "bytes \<Rightarrow> nat \<Rightarrow> (bytes \<Rightarrow> 's \<Rightarrow> 's) \<Rightarrow> int \<times> 's \<Rightarrow> int \<times> int \<times> 's" where
  "when_len attr k f st =
     (MNL_CB_OK, fst st,
      if mnl_attr_get_payload_len attr = k then f (take k (mnl_attr_get_payload attr)) (snd st) else snd st)"

definition parse_allowedip_cb :: "wgallowedip cb" where
  "parse_allowedip_cb attr st =
     (let t = mnl_attr_get_type attr; len = mnl_attr_get_payload_len attr; data = mnl_attr_get_payload attr in
      if t = WGALLOWEDIP_A_FAMILY then
        when_valid attr MNL_TYPE_U16 (\<lambda>a. a\<lparr>a_family := num_fam (mnl_attr_get_u16 attr)\<rparr>) st
      else if t = WGALLOWEDIP_A_IPADDR then
        (MNL_CB_OK, fst st,
         if len = 4 \<or> len = 16 then (snd st)\<lparr>a_ip := store_ip (take len data) (a_ip (snd st))\<rparr> else snd st)
      else if t = WGALLOWEDIP_A_CIDR_MASK then
        when_valid attr MNL_TYPE_U8 (\<lambda>a. a\<lparr>a_cidr := of_nat (mnl_attr_get_u8 attr)\<rparr>) st
      else (MNL_CB_OK, st))"

definition parse_allowedips_cb :: "wgpeer cb" where
  "parse_allowedips_cb attr st =
     (case mnl_attr_parse_nested attr parse_allowedip_cb (fst st, zero_allowedip) of (ret, e, new_allowedip) \<Rightarrow>
        (if ret = 0 then ret
         else if \<not> (a_family new_allowedip = AF_INET \<and> a_cidr new_allowedip \<le> 32 \<or>
                   a_family new_allowedip = AF_INET6 \<and> a_cidr new_allowedip \<le> 128) then MNL_CB_ERROR
         else MNL_CB_OK,
         e, (snd st)\<lparr>first_allowedip := first_allowedip (snd st) @ [new_allowedip]\<rparr>))"

definition parse_endpoint_attr :: "bytes \<Rightarrow> wgpeer \<Rightarrow> wgpeer" where
  "parse_endpoint_attr attr p =
     (let len = mnl_attr_get_payload_len attr; addr = mnl_attr_get_payload attr; f = num_fam (field_at addr 0 2) in
      if len < 16 then p
      else if f = AF_INET \<and> len = sizeof_sockaddr_in then p\<lparr>endpoint := sockaddr_of (take len addr)\<rparr>
      else if f = AF_INET6 \<and> len = sizeof_sockaddr_in6 then p\<lparr>endpoint := sockaddr_of (take len addr)\<rparr>
      else p)"

definition parse_peer_cb :: "wgpeer cb" where
  "parse_peer_cb attr st =
     (let t = mnl_attr_get_type attr in
      if t = WGPEER_A_PUBLIC_KEY then
        when_len attr WG_KEY_LEN (\<lambda>k p. p\<lparr>peer_public_key := k, peer_flags := peer_flags p OR WGPEER_HAS_PUBLIC_KEY\<rparr>) st
      else if t = WGPEER_A_PRESHARED_KEY then
        when_len attr WG_KEY_LEN (\<lambda>k p. p\<lparr>preshared_key := k,
          peer_flags := (if \<not> key_is_zero k then peer_flags p OR WGPEER_HAS_PRESHARED_KEY else peer_flags p)\<rparr>) st
      else if t = WGPEER_A_ENDPOINT then (MNL_CB_OK, fst st, parse_endpoint_attr attr (snd st))
      else if t = WGPEER_A_PERSISTENT_KEEPALIVE_INTERVAL then
        when_valid attr MNL_TYPE_U16 (\<lambda>p. p\<lparr>persistent_keepalive_interval := of_nat (mnl_attr_get_u16 attr)\<rparr>) st
      else if t = WGPEER_A_LAST_HANDSHAKE_TIME then
        when_len attr 16 (\<lambda>k p. p\<lparr>last_handshake_time :=
          \<lparr>tv_sec = of_nat (field_at k 0 8), tv_nsec = of_nat (field_at k 8 8)\<rparr>\<rparr>) st
      else if t = WGPEER_A_RX_BYTES then
        when_valid attr MNL_TYPE_U64 (\<lambda>p. p\<lparr>rx_bytes := of_nat (mnl_attr_get_u64 attr)\<rparr>) st
      else if t = WGPEER_A_TX_BYTES then
        when_valid attr MNL_TYPE_U64 (\<lambda>p. p\<lparr>tx_bytes := of_nat (mnl_attr_get_u64 attr)\<rparr>) st
      else if t = WGPEER_A_FLAGS then
        when_valid attr MNL_TYPE_U32 (\<lambda>p.
          if odd (mnl_attr_get_u32 attr div WGPEER_F_HAS_AWG) \<and> \<not> has (peer_flags p) WGPEER_HAS_AWG
          then p\<lparr>peer_flags := peer_flags p OR WGPEER_HAS_AWG, awg := False\<rparr> else p) st
      else if t = WGPEER_A_AWG then
        when_valid attr MNL_TYPE_FLAG (\<lambda>p. p\<lparr>awg := True, peer_flags := peer_flags p OR WGPEER_HAS_AWG\<rparr>) st
      else if t = WGPEER_A_ALLOWEDIPS then mnl_attr_parse_nested attr parse_allowedips_cb st
      else (MNL_CB_OK, st))"

definition parse_peers_cb :: "wgdevice cb" where
  "parse_peers_cb attr st =
     (case mnl_attr_parse_nested attr parse_peer_cb (fst st, zero_peer) of (ret, e, new_peer) \<Rightarrow>
        (if ret = 0 then ret
         else if \<not> has (peer_flags new_peer) WGPEER_HAS_PUBLIC_KEY then MNL_CB_ERROR
         else MNL_CB_OK,
         e, (snd st)\<lparr>first_peer := first_peer (snd st) @ [new_peer]\<rparr>))"

text \<open>A magic header is a number or a string.\<close>

definition GET_MAGIC_HEADER ::
  "bytes \<Rightarrow> (string \<Rightarrow> wgdevice \<Rightarrow> wgdevice) \<Rightarrow> int \<times> wgdevice \<Rightarrow> int \<times> int \<times> wgdevice"
where
  "GET_MAGIC_HEADER attr store st =
     (if mnl_attr_validate attr MNL_TYPE_U32 = 0
      then (MNL_CB_OK, fst st, store (udec (mnl_attr_get_u32 attr)) (snd st))
      else when_valid attr MNL_TYPE_NUL_STRING (store (mnl_attr_get_str attr)) (mnl_attr_validate attr MNL_TYPE_U32, snd st))"

definition parse_device_cb :: "wgdevice cb" where
  "parse_device_cb attr st =
     (let t = mnl_attr_get_type attr;
          u16 = when_valid attr MNL_TYPE_U16; n16 = (of_nat (mnl_attr_get_u16 attr) :: u16);
          str = when_valid attr MNL_TYPE_NUL_STRING; s = Some (mnl_attr_get_str attr);
          flag = (\<lambda>f (d :: wgdevice). d\<lparr>dev_flags := dev_flags d OR f\<rparr>)
      in
      if t = WGDEVICE_A_IFINDEX then
        when_valid attr MNL_TYPE_U32 (\<lambda>d. d\<lparr>ifindex := of_nat (mnl_attr_get_u32 attr)\<rparr>) st
      else if t = WGDEVICE_A_IFNAME then
        when_valid attr MNL_TYPE_STRING (\<lambda>d. d\<lparr>dev_name := take (IFNAMSIZ - 1) (mnl_attr_get_str attr)\<rparr>) st
      else if t = WGDEVICE_A_PRIVATE_KEY then
        when_len attr WG_KEY_LEN (\<lambda>k d. flag WGDEVICE_HAS_PRIVATE_KEY (d\<lparr>private_key := k\<rparr>)) st
      else if t = WGDEVICE_A_PUBLIC_KEY then
        when_len attr WG_KEY_LEN (\<lambda>k d. flag WGDEVICE_HAS_PUBLIC_KEY (d\<lparr>dev_public_key := k\<rparr>)) st
      else if t = WGDEVICE_A_LISTEN_PORT then u16 (\<lambda>d. d\<lparr>listen_port := n16\<rparr>) st
      else if t = WGDEVICE_A_FWMARK then
        when_valid attr MNL_TYPE_U32 (\<lambda>d. d\<lparr>fwmark := of_nat (mnl_attr_get_u32 attr)\<rparr>) st
      else if t = WGDEVICE_A_PEERS then mnl_attr_parse_nested attr parse_peers_cb st
      else if t = WGDEVICE_A_JC then u16 (\<lambda>d. flag WGDEVICE_HAS_JC (d\<lparr>junk_packet_count := n16\<rparr>)) st
      else if t = WGDEVICE_A_JMIN then u16 (\<lambda>d. flag WGDEVICE_HAS_JMIN (d\<lparr>junk_packet_min_size := n16\<rparr>)) st
      else if t = WGDEVICE_A_JMAX then u16 (\<lambda>d. flag WGDEVICE_HAS_JMAX (d\<lparr>junk_packet_max_size := n16\<rparr>)) st
      else if t = WGDEVICE_A_S1 then u16 (\<lambda>d. flag WGDEVICE_HAS_S1 (d\<lparr>init_packet_junk_size := n16\<rparr>)) st
      else if t = WGDEVICE_A_S2 then u16 (\<lambda>d. flag WGDEVICE_HAS_S2 (d\<lparr>response_packet_junk_size := n16\<rparr>)) st
      else if t = WGDEVICE_A_S3 then u16 (\<lambda>d. flag WGDEVICE_HAS_S3 (d\<lparr>cookie_reply_packet_junk_size := n16\<rparr>)) st
      else if t = WGDEVICE_A_S4 then u16 (\<lambda>d. flag WGDEVICE_HAS_S4 (d\<lparr>transport_packet_junk_size := n16\<rparr>)) st
      else if t = WGDEVICE_A_H1 then
        GET_MAGIC_HEADER attr (\<lambda>s d. flag WGDEVICE_HAS_H1 (d\<lparr>init_packet_magic_header := Some s\<rparr>)) st
      else if t = WGDEVICE_A_H2 then
        GET_MAGIC_HEADER attr (\<lambda>s d. flag WGDEVICE_HAS_H2 (d\<lparr>response_packet_magic_header := Some s\<rparr>)) st
      else if t = WGDEVICE_A_H3 then
        GET_MAGIC_HEADER attr (\<lambda>s d. flag WGDEVICE_HAS_H3 (d\<lparr>underload_packet_magic_header := Some s\<rparr>)) st
      else if t = WGDEVICE_A_H4 then
        GET_MAGIC_HEADER attr (\<lambda>s d. flag WGDEVICE_HAS_H4 (d\<lparr>transport_packet_magic_header := Some s\<rparr>)) st
      else if t = WGDEVICE_A_I1 then str (\<lambda>d. flag WGDEVICE_HAS_I1 (d\<lparr>i1 := s\<rparr>)) st
      else if t = WGDEVICE_A_I2 then str (\<lambda>d. flag WGDEVICE_HAS_I2 (d\<lparr>i2 := s\<rparr>)) st
      else if t = WGDEVICE_A_I3 then str (\<lambda>d. flag WGDEVICE_HAS_I3 (d\<lparr>i3 := s\<rparr>)) st
      else if t = WGDEVICE_A_I4 then str (\<lambda>d. flag WGDEVICE_HAS_I4 (d\<lparr>i4 := s\<rparr>)) st
      else if t = WGDEVICE_A_I5 then str (\<lambda>d. flag WGDEVICE_HAS_I5 (d\<lparr>i5 := s\<rparr>)) st
      else (MNL_CB_OK, st))"

definition read_device_cb :: "wgdevice cb" where
  "read_device_cb nlh st = mnl_attr_parse nlh 4 parse_device_cb st"

text \<open>
  Neighbours with the same key are joined.  The pointer to the last address of a peer is the index of the
  last node, or null when the peer has none; after a part without addresses has been joined it is null although the
  peer has some, and a further part follows it.
\<close>

definition ips_tail :: "wgallowedip list \<Rightarrow> nat option" where
  "ips_tail as = (if as = [] then None else Some (length as - 1))"

fun coalesce_from :: "wgpeer \<Rightarrow> nat option \<Rightarrow> wgpeer list \<Rightarrow> (unit, wgpeer list) res" where
  "coalesce_from peer tail [] = Ok [peer]"
| "coalesce_from peer tail (next_peer # peers) =
     (if memcmp (peer_public_key peer) (peer_public_key next_peer) WG_KEY_LEN \<noteq> 0 then
        res_bind (coalesce_from next_peer (ips_tail (first_allowedip next_peer)) peers) (\<lambda>rest. Ok (peer # rest))
      else if first_allowedip peer = [] then
        coalesce_from (peer\<lparr>first_allowedip := first_allowedip next_peer\<rparr>) (ips_tail (first_allowedip next_peer)) peers
      else
        (case tail of
           None \<Rightarrow> Fault
         | Some i \<Rightarrow>
             coalesce_from (peer\<lparr>first_allowedip := take (Suc i) (first_allowedip peer) @ first_allowedip next_peer\<rparr>)
               (map_option ((+) (Suc i)) (ips_tail (first_allowedip next_peer))) peers))"

definition coalesce_peers :: "wgdevice \<Rightarrow> (unit, wgdevice) res" where
  "coalesce_peers device =
     (case first_peer device of
        [] \<Rightarrow> Ok device
      | peer # peers \<Rightarrow>
          res_bind (coalesce_from peer (ips_tail (first_allowedip peer)) peers) (\<lambda>ps. Ok (device\<lparr>first_peer := ps\<rparr>)))"

text \<open>From the label \<^verbatim>\<open>try_again\<close> on: the result and the device.  An interrupted dump is asked for again.\<close>

partial_function (option) get_try_again ::
  "'w netlink \<Rightarrow> string \<Rightarrow> 'w \<Rightarrow> ((unit, int \<times> wgdevice option) res \<times> 'w) option"
where
  "get_try_again N iface w =
     (case mnlg_socket_open N w WG_GENL_NAME of
        None \<Rightarrow> None
      | Some (Fail e, w) \<Rightarrow> Some (Ok (- e, None), w)
      | Some (Ok nlg, w) \<Rightarrow>
          (case mnlg_msg_prepare N w nlg WG_CMD_GET_DEVICE (NLM_F_REQUEST + NLM_F_ACK + NLM_F_DUMP) of
             (nlh, nlg) \<Rightarrow>
               (case mnl_attr_put (SOCKET_BUFFER_SIZE N) nlh WGDEVICE_A_IFNAME (str_bytes iface @ [0]) of
                  Ok nlh \<Rightarrow>
                    (case nl_send N w (wire nlh) of (e, w) \<Rightarrow>
                       if e \<noteq> 0 then (if e = EINTR then get_try_again N iface w else Some (Ok (- e, None), w))
                       else
                         (case mnlg_socket_recv_run N nlg (Some read_device_cb) w (0, zero_device) of
                            None \<Rightarrow> None
                          | Some ((ret, e, device), w) \<Rightarrow>
                              if ret < 0 then
                                (if e = EINTR then get_try_again N iface w
                                 else Some (Ok (if e \<noteq> 0 then - e else - EINVAL, None), w))
                              else Some (res_bind (coalesce_peers device) (\<lambda>d. Ok (0, Some d)), w)))
                | _ \<Rightarrow> Some (Fault, w)))
      | Some (_, w) \<Rightarrow> Some (Fault, w))"

definition linux_get_device :: "'w netlink \<Rightarrow> 'w \<Rightarrow> string \<Rightarrow> ((unit, int \<times> wgdevice option) res \<times> 'w) option" where
  "linux_get_device N w iface =
     (if length iface \<ge> IFNAMSIZ then Some (Ok (- ENAMETOOLONG, None), w) else get_try_again N iface w)"

section \<open>The interfaces of the kernel\<close>

record interface =
  if_name :: "string option"
  is_wireguard :: bool

definition parse_linkinfo :: "interface cb" where
  "parse_linkinfo attr st =
     (MNL_CB_OK, fst st,
      if mnl_attr_get_type attr = 1 \<and> mnl_attr_get_str attr = WG_GENL_NAME
      then (snd st)\<lparr>is_wireguard := True\<rparr> else snd st)"

definition parse_infomsg :: "interface cb" where
  "parse_infomsg attr st =
     (if mnl_attr_get_type attr = 18 then mnl_attr_parse_nested attr parse_linkinfo st
      else if mnl_attr_get_type attr = 3 then (MNL_CB_OK, fst st, (snd st)\<lparr>if_name := Some (mnl_attr_get_str attr)\<rparr>)
      else (MNL_CB_OK, st))"

text \<open>The state is the list, or the fault of adding to it.\<close>

definition read_devices_cb :: "allocator \<Rightarrow> (int, string_list) res cb" where
  "read_devices_cb realloc nlh st =
     (case mnl_attr_parse nlh 16 parse_infomsg (fst st, \<lparr>if_name = None, is_wireguard = False\<rparr>) of (ret, e, i) \<Rightarrow>
        if ret \<noteq> MNL_CB_OK then (ret, e, snd st)
        else
          let more = (if field_at nlh 4 2 \<noteq> NLMSG_DONE then MNL_CB_OK + 1 else MNL_CB_OK) in
          (case (if_name i, is_wireguard i) of
             (Some name, True) \<Rightarrow>
               (case res_bind (snd st) (\<lambda>list. string_list_add realloc list name) of
                  Fail err \<Rightarrow> (err, - err, snd st)
                | list \<Rightarrow> (more, e, list))
           | _ \<Rightarrow> (more, e, snd st)))"

partial_function (option) interfaces_another ::
  "'w netlink \<Rightarrow> allocator \<Rightarrow> nat \<Rightarrow> nat \<Rightarrow> (int, string_list) res \<Rightarrow> 'w \<Rightarrow> ((int, string_list) res \<times> 'w) option"
where
  "interfaces_another N realloc seq portid list w =
     (case mnl_socket_recvfrom N w of
        (Inl e, w) \<Rightarrow> Some (Fail (- e), w)
      | (Inr (len, buf), w) \<Rightarrow>
          (case mnl_cb_run buf (int len) seq portid (Some (read_devices_cb realloc)) default_cb_array MNL_CB_OK (0, list) of
             (ret, e, list) \<Rightarrow>
               if ret < 0 \<and> e \<noteq> EINTR then Some (Fail (- e), w)
               else if ret = MNL_CB_OK + 1 then interfaces_another N realloc seq portid list w
               else Some (list, w)))"

definition linux_get_wireguard_interfaces ::
  "'w netlink \<Rightarrow> allocator \<Rightarrow> 'w \<Rightarrow> string_list \<Rightarrow> ((int, string_list) res \<times> 'w) option"
where
  "linux_get_wireguard_interfaces N realloc w list =
     (if nl_socket N w \<noteq> 0 then Some (Fail (- nl_socket N w), w)
      else if nl_bind N w \<noteq> 0 then Some (Fail (- nl_bind N w), w)
      else
        let seq = nl_time N w mod 2 ^ 32;
            nlh = mnl_nlmsg_put_extra_header (mnl_nlmsg_put_header\<lparr>nlmsg_type := 18,
              nlmsg_flags := NLM_F_REQUEST + NLM_F_ACK + NLM_F_DUMP, nlmsg_seq := seq\<rparr>) (replicate 16 0)
        in case nl_send N w (wire nlh) of (e, w) \<Rightarrow>
          if e \<noteq> 0 then Some (Fail (- e), w)
          else interfaces_another N realloc seq (nl_portid N w) (Ok list) w)"

end
