(* ===== verification/Linux_Set.thy ===== *)
theory Linux_Set
  imports Ipc_Linux
begin

text \<open>
  How \<^verbatim>\<open>kernel_set_device\<close> divides a device into messages: what each message holds, byte for byte,
  that it fits into the buffer, and that the sequence comes to an end.  The first message holds the
  settings, which are put without a check; each message holds parts of peers, called fragments, and the
  relation \<open>sent\<close> says which fragments lead from one position in the lists to another.
\<close>

section \<open>Attributes that fit\<close>

definition enc :: "(bool \<times> nat \<times> bytes) list \<Rightarrow> bytes" where
  "enc attrs = concat (map (\<lambda>(_, t, d). attr_bytes t d) attrs)"

lemma enc_simps [simp]:
  "enc [] = []" "enc ((r, t, d) # as) = attr_bytes t d @ enc as" "enc (as @ bs) = enc as @ enc bs"
  by (simp_all add: enc_def)

lemma enc_aligned [simp]: "4 dvd length (enc attrs)"
proof (induction attrs)
  case (Cons a attrs)
  obtain r t d where "a = (r, t, d)" by (cases a)
  with Cons show ?case by (simp add: dvd_add)
qed simp

text \<open>An attribute that need not fit is empty, and one that must comes behind it.\<close>

definition well_put :: "(bool \<times> nat \<times> bytes) list \<Rightarrow> bool" where
  "well_put attrs \<longleftrightarrow> (\<forall>(r, t, d) \<in> set attrs. attr_fits t d \<and> (r \<or> d = [])) \<and> (attrs \<noteq> [] \<longrightarrow> fst (last attrs))"

definition add :: "bytes \<Rightarrow> nlmsg \<Rightarrow> nlmsg" where
  "add x nlh = nlh\<lparr>nlmsg_body := nlmsg_body nlh @ x\<rparr>"

lemma add_simps [simp]:
  "add [] nlh = nlh" "add y (add x nlh) = add (x @ y) nlh"
  "nlmsg_len (add x nlh) = nlmsg_len nlh + length x" "nlmsg_body (add x nlh) = nlmsg_body nlh @ x"
  by (simp_all add: add_def nlmsg_len_def)

lemma put_bytes_add: "attr_fits t d \<Longrightarrow> put_bytes nlh t d = add (attr_bytes t d) nlh"
  by (simp add: put_bytes_fits add_def)

lemma nest_add:
  assumes "4 dvd length x"
  shows "mnl_attr_nest_end (add x (fst (nest_open nlh t))) (snd (nest_open nlh t)) = add (attr_bytes (NLA_F_NESTED + t) x) nlh"
    and "mnl_attr_nest_cancel (add x (fst (nest_open nlh t))) (snd (nest_open nlh t)) = nlh"
  using nest_end_open [of nlh t "fst (nest_open nlh t)" "snd (nest_open nlh t)" "add x (fst (nest_open nlh t))" x] assms
  by (simp_all add: add_def nest_open_def)

lemma nlmsg_len_open [simp]: "nlmsg_len (fst (nest_open nlh t)) = nlmsg_len nlh + 4"
  by (simp add: nest_open_def nlmsg_len_def)

lemma put_checks_stuck:
  "nlmsg_len nlh + 4 > n \<Longrightarrow> \<exists>a \<in> set attrs. fst a \<Longrightarrow> \<exists>nlh'. put_checks n nlh attrs = (nlh', False)"
  by (induction n nlh attrs rule: put_checks.induct) (auto simp: mnl_attr_put_check_def)

lemma put_checks_add:
  assumes "well_put attrs"
  shows "\<exists>x ok. put_checks n nlh attrs = (add x nlh, ok) \<and> 4 dvd length x \<and>
    (ok \<longleftrightarrow> nlmsg_len nlh + length (enc attrs) \<le> n \<or> attrs = []) \<and> (ok \<longrightarrow> x = enc attrs)"
  using assms
proof (induction attrs arbitrary: nlh)
  case Nil
  show ?case by (intro exI [where x = "[]"] exI [where x = True]) simp
next
  case (Cons a attrs)
  obtain r t d where a: "a = (r, t, d)" by (cases a)
  from Cons.prems have fits: "attr_fits t d" "r \<or> d = []" and wp: "well_put attrs" and last: "attrs = [] \<longrightarrow> r"
    by (auto simp: well_put_def a split: if_splits)
  show ?case
  proof (cases "nlmsg_len nlh + 4 + MNL_ALIGN (length d) \<le> n")
    case True
    then have s: "put_checks n nlh (a # attrs) = put_checks n (add (attr_bytes t d) nlh) attrs"
      by (simp add: a mnl_attr_put_check_def put_bytes_add [OF fits(1)])
    from Cons.IH [OF wp, of "add (attr_bytes t d) nlh"] obtain x ok where
      x: "put_checks n (add (attr_bytes t d) nlh) attrs = (add x (add (attr_bytes t d) nlh), ok)" "4 dvd length x"
        "ok \<longleftrightarrow> nlmsg_len (add (attr_bytes t d) nlh) + length (enc attrs) \<le> n \<or> attrs = []" "ok \<longrightarrow> x = enc attrs"
      by blast
    show ?thesis
      by (rule exI [where x = "attr_bytes t d @ x"], rule exI [where x = ok])
        (use s x True in \<open>auto simp: a dvd_add\<close>)
  next
    case False
    show ?thesis
    proof (cases r)
      case True
      with False show ?thesis
        by (intro exI [where x = "[]"] exI [where x = False]) (simp add: a mnl_attr_put_check_def)
    next
      case r: False
      with fits(2) last have d: "d = []" "attrs \<noteq> []" by auto
      then have "\<exists>a \<in> set attrs. fst a" using wp last_in_set [of attrs] by (auto simp: well_put_def)
      moreover have big: "nlmsg_len nlh + 4 > n" using False d by (simp add: MNL_ALIGN_def)
      ultimately obtain nlh' where nok: "put_checks n nlh attrs = (nlh', False)" using put_checks_stuck by blast
      with Cons.IH [OF wp, of nlh] obtain x where "nlh' = add x nlh" "4 dvd length x" by auto
      with nok r d big show ?thesis
        by (intro exI [where x = x] exI [where x = False]) (simp add: a mnl_attr_put_check_def MNL_ALIGN_def)
    qed
  qed
qed

text \<open>An attribute that holds others: it is put as a whole or not at all.\<close>

lemma nested_checks:
  assumes "well_put attrs" "attrs \<noteq> []"
  shows "mnl_attr_nest_start_check n nlh t = None \<Longrightarrow> n < nlmsg_len nlh + 4"
    and "mnl_attr_nest_start_check n nlh t = Some (nlh1, start) \<Longrightarrow> put_checks n nlh1 attrs = (nlh2, ok) \<Longrightarrow>
      (ok \<longleftrightarrow> nlmsg_len nlh + 4 + length (enc attrs) \<le> n) \<and>
      (if ok then nlh2 = add (enc attrs) (fst (nest_open nlh t)) else mnl_attr_nest_cancel nlh2 start = nlh) \<and>
      start = snd (nest_open nlh t)"
proof -
  show "mnl_attr_nest_start_check n nlh t = None \<Longrightarrow> n < nlmsg_len nlh + 4"
    by (simp add: mnl_attr_nest_start_check_def split: if_splits)
  assume o: "mnl_attr_nest_start_check n nlh t = Some (nlh1, start)" and p: "put_checks n nlh1 attrs = (nlh2, ok)"
  then have open': "nlh1 = fst (nest_open nlh t)" "start = snd (nest_open nlh t)"
    by (auto simp: mnl_attr_nest_start_check_def split: if_splits)
  from put_checks_add [OF assms(1), of n nlh1] p assms(2) obtain x where
    x: "nlh2 = add x nlh1" "4 dvd length x" "ok \<longleftrightarrow> nlmsg_len nlh1 + length (enc attrs) \<le> n" "ok \<longrightarrow> x = enc attrs"
    by auto
  with nest_add(2) [OF x(2), of nlh t]
  show "(ok \<longleftrightarrow> nlmsg_len nlh + 4 + length (enc attrs) \<le> n) \<and>
      (if ok then nlh2 = add (enc attrs) (fst (nest_open nlh t)) else mnl_attr_nest_cancel nlh2 start = nlh) \<and>
      start = snd (nest_open nlh t)"
    by (simp add: open')
qed

section \<open>Allowed addresses\<close>

definition ip_enc :: "wgallowedip \<Rightarrow> bytes" where
  "ip_enc a = attr_bytes NLA_F_NESTED (enc (ip_attrs a))"

lemma ip_enc_aligned [simp]: "4 dvd length (concat (map ip_enc as))"
  by (induction as) (simp_all add: ip_enc_def dvd_add)

lemma length_ip_bytes: "length (ip_bytes a) \<le> 16"
  by (simp add: ip_bytes_def addr_len_def min_le_iff_disj split: sa_family.split)

lemma well_put_ip: "well_put (ip_attrs a)" "ip_attrs a \<noteq> []"
  using length_ip_bytes [of a] by (auto simp: well_put_def ip_attrs_def attr_fits_def)

lemma length_ip_enc: "length (ip_enc a) \<le> 40"
proof -
  have "MNL_ALIGN (length (ip_bytes a)) \<le> 16" using MNL_ALIGN_mono [OF length_ip_bytes [of a]] by simp
  then show ?thesis by (simp add: ip_enc_def ip_attrs_def MNL_ALIGN_def)
qed

text \<open>As many addresses as fit.\<close>

lemma put_ips_add:
  "\<exists>chunk. ips = chunk @ snd (put_ips n nlh ips) \<and>
     fst (put_ips n nlh ips) = add (concat (map ip_enc chunk)) nlh \<and>
     (chunk \<noteq> [] \<longrightarrow> nlmsg_len nlh + length (concat (map ip_enc chunk)) \<le> n) \<and>
     (\<forall>a as. snd (put_ips n nlh ips) = a # as \<longrightarrow>
        nlmsg_len nlh + length (concat (map ip_enc chunk)) + length (ip_enc a) > n)"
proof (induction ips arbitrary: nlh)
  case (Cons a ips)
  note w = nested_checks [OF well_put_ip, where n = n and nlh = nlh and t = 0]
  have l: "length (ip_enc a) = 4 + length (enc (ip_attrs a))" by (simp add: ip_enc_def)
  show ?case
  proof (cases "mnl_attr_nest_start_check n nlh 0")
    case None
    with w(1) [OF this] show ?thesis by (intro exI [where x = "[]"]) (simp add: l)
  next
    case (Some p)
    obtain nlh1 start where p: "p = (nlh1, start)" by (cases p)
    obtain nlh2 ok where c: "put_checks n nlh1 (ip_attrs a) = (nlh2, ok)" by fastforce
    note w2 = w(2) [OF Some [unfolded p] c]
    show ?thesis
    proof (cases ok)
      case True
      with w2 nest_add(1) [of "enc (ip_attrs a)" nlh 0]
      have e: "mnl_attr_nest_end nlh2 start = add (ip_enc a) nlh" by (simp add: ip_enc_def)
      from Cons.IH [of "add (ip_enc a) nlh"] obtain chunk where
        ih: "ips = chunk @ snd (put_ips n (add (ip_enc a) nlh) ips)"
          "fst (put_ips n (add (ip_enc a) nlh) ips) = add (concat (map ip_enc chunk)) (add (ip_enc a) nlh)"
          "chunk \<noteq> [] \<longrightarrow> nlmsg_len (add (ip_enc a) nlh) + length (concat (map ip_enc chunk)) \<le> n"
          "\<forall>b bs. snd (put_ips n (add (ip_enc a) nlh) ips) = b # bs \<longrightarrow>
             nlmsg_len (add (ip_enc a) nlh) + length (concat (map ip_enc chunk)) + length (ip_enc b) > n"
        by blast
      have s: "put_ips n nlh (a # ips) = put_ips n (add (ip_enc a) nlh) ips" using Some p c True e by simp
      have f: "nlmsg_len nlh + length (ip_enc a) \<le> n" using w2 True l by simp
      show ?thesis
        by (rule exI [where x = "a # chunk"]) (use ih f in \<open>auto simp: s simp del: put_ips.simps\<close>)
    next
      case False
      with w2 l have "mnl_attr_nest_cancel nlh2 start = nlh" "nlmsg_len nlh + length (ip_enc a) > n" by auto
      with False Some p c show ?thesis by (intro exI [where x = "[]"]) simp
    qed
  qed
qed simp

section \<open>Fragments of peers\<close>

text \<open>A peer or its continuation, with a list of addresses or without one.\<close>

record frag =
  f_peer :: wgpeer
  f_continued :: bool
  f_list :: bool
  f_ips :: "wgallowedip list"

definition frag_body :: "frag \<Rightarrow> bytes" where
  "frag_body f = enc (peer_attrs (f_peer f) (f_continued f)) @
     (if f_list f then attr_bytes (NLA_F_NESTED + WGPEER_A_ALLOWEDIPS) (concat (map ip_enc (f_ips f))) else [])"

definition frag_enc :: "frag \<Rightarrow> bytes" where
  "frag_enc f = attr_bytes NLA_F_NESTED (frag_body f)"

definition frag_ok :: "frag \<Rightarrow> bool" where
  "frag_ok f \<longleftrightarrow> (f_ips f \<noteq> [] \<longrightarrow> f_list f)"

text \<open>A peer whose keys and endpoint have their sizes.\<close>

definition sized_peer :: "wgpeer \<Rightarrow> bool" where
  "sized_peer p \<longleftrightarrow> length (peer_public_key p) = WG_KEY_LEN \<and> length (preshared_key p) = WG_KEY_LEN \<and>
     (has_endpoint p \<longrightarrow> length (sa_addr (endpoint p)) = addr_len (sa_fam (endpoint p)))"

lemma length_sockaddr: "sized_peer p \<Longrightarrow> has_endpoint p \<Longrightarrow> length (sockaddr_bytes (endpoint p)) = sockaddr_len (endpoint p)"
  by (auto simp: sized_peer_def has_endpoint_def sockaddr_bytes_def sockaddr_len_def addr_len_def)

lemma sockaddr_len_le: "sockaddr_len sa \<le> 28"
  by (simp add: sockaddr_len_def)

lemma well_put_peer: "sized_peer p \<Longrightarrow> well_put (peer_attrs p c)" "peer_attrs p c \<noteq> []"
  using length_sockaddr [of p] sockaddr_len_le [of "endpoint p"]
  by (auto simp: well_put_def peer_attrs_def must_if_def attr_fits_def sized_peer_def wgpeer_f_def)

lemma length_peer_attrs: "sized_peer p \<Longrightarrow> length (enc (peer_attrs p c)) \<le> 124"
proof -
  assume p: "sized_peer p"
  have "has_endpoint p \<Longrightarrow> MNL_ALIGN (length (sockaddr_bytes (endpoint p))) \<le> 28"
    using MNL_ALIGN_mono [OF sockaddr_len_le [of "endpoint p"]] length_sockaddr [OF p] by simp
  with p show ?thesis
    by (auto simp: peer_attrs_def must_if_def sized_peer_def MNL_ALIGN_def)
qed

lemma length_peer_attrs_continued: "sized_peer p \<Longrightarrow> length (enc (peer_attrs p True)) \<le> 48"
  by (auto simp: peer_attrs_def must_if_def sized_peer_def MNL_ALIGN_def)

text \<open>The addresses still to be sent for a peer.\<close>

definition pending :: "wgpeer \<Rightarrow> wgallowedip list \<Rightarrow> wgallowedip list" where
  "pending p ips = (if ips = [] then first_allowedip p else ips)"

text \<open>What is put for one peer.\<close>

definition frag_of :: "wgpeer \<Rightarrow> wgallowedip list \<Rightarrow> frag \<Rightarrow> bool" where
  "frag_of p ips f \<longleftrightarrow> f_peer f = p \<and> f_continued f = (ips \<noteq> []) \<and> frag_ok f"

definition peer_put :: "nat \<Rightarrow> nlmsg \<Rightarrow> wgpeer \<Rightarrow> wgallowedip list \<Rightarrow> put_result \<Rightarrow> bool" where
  "peer_put n nlh p ips r \<longleftrightarrow>
     (let len = nlmsg_len nlh + 4 + length (enc (peer_attrs p (ips \<noteq> []))) in
      case r of
        Complete nlh' \<Rightarrow>
          (\<exists>f. frag_of p ips f \<and> f_ips f = pending p ips \<and> nlh' = add (frag_enc f) nlh \<and> nlmsg_len nlh' \<le> n)
      | Toobig_peers nlh' \<Rightarrow> nlh' = nlh \<and> n < len
      | Toobig_allowedips nlh' rest \<Rightarrow>
          (\<exists>f. frag_of p ips f \<and> f_ips f @ rest = pending p ips \<and> rest \<noteq> [] \<and> nlh' = add (frag_enc f) nlh \<and>
             nlmsg_len nlh' \<le> n \<and> (f_ips f = [] \<longrightarrow> n < len + 4 + length (ip_enc (hd rest)))))"

text \<open>The addresses that fit behind the attributes of a peer, as a fragment.\<close>

lemma put_ips_fragment:
  assumes nlh2: "nlh2 = add (enc (peer_attrs p (ips \<noteq> []))) (fst (nest_open nlh 0))" and room: "nlmsg_len nlh2 + 4 \<le> n"
    and o2: "o2 = nest_open nlh2 WGPEER_A_ALLOWEDIPS"
  obtains g rest where "put_ips n (fst o2) (pending p ips) = (add (concat (map ip_enc (f_ips g))) (fst o2), rest)"
    "pending p ips = f_ips g @ rest" "frag_of p ips g" "f_peer g = p" "nlmsg_len (add (frag_enc g) nlh) \<le> n"
    "mnl_attr_nest_end (add (concat (map ip_enc (f_ips g))) (fst o2)) (snd o2) = add (frag_body g) (fst (nest_open nlh 0))"
    "f_ips g = [] \<Longrightarrow> rest \<noteq> [] \<Longrightarrow> n < nlmsg_len nlh + 4 + length (enc (peer_attrs p (ips \<noteq> []))) + 4 + length (ip_enc (hd rest))"
proof -
  let ?r = "put_ips n (fst o2) (pending p ips)"
  obtain chunk where chunk: "pending p ips = chunk @ snd ?r" "fst ?r = add (concat (map ip_enc chunk)) (fst o2)"
    "chunk \<noteq> [] \<longrightarrow> nlmsg_len (fst o2) + length (concat (map ip_enc chunk)) \<le> n"
    "\<forall>a as. snd ?r = a # as \<longrightarrow> nlmsg_len (fst o2) + length (concat (map ip_enc chunk)) + length (ip_enc a) > n"
    using put_ips_add [of "pending p ips" n "fst o2"] by blast
  let ?g = "\<lparr>f_peer = p, f_continued = (ips \<noteq> []), f_list = True, f_ips = chunk\<rparr>"
  show ?thesis
  proof (rule that [of ?g "snd ?r"])
    show "?r = (add (concat (map ip_enc (f_ips ?g))) (fst o2), snd ?r)" using chunk(2) by (simp add: prod_eq_iff)
    have "nlmsg_len (fst o2) + length (concat (map ip_enc chunk)) \<le> n" using chunk(3) room by (cases "chunk = []") (simp_all add: o2)
    then show "nlmsg_len (add (frag_enc ?g) nlh) \<le> n" by (simp add: frag_enc_def frag_body_def nlh2 o2)
    show "mnl_attr_nest_end (add (concat (map ip_enc (f_ips ?g))) (fst o2)) (snd o2) = add (frag_body ?g) (fst (nest_open nlh 0))"
      by (simp add: nest_add(1) nlh2 o2 frag_body_def)
    show "n < nlmsg_len nlh + 4 + length (enc (peer_attrs p (ips \<noteq> []))) + 4 + length (ip_enc (hd (snd ?r)))"
      if "f_ips ?g = []" "snd ?r \<noteq> []"
      using chunk(4) that by (cases "snd ?r") (auto simp: nlh2 o2)
  qed (use chunk(1) in \<open>simp_all add: frag_of_def frag_ok_def\<close>)
qed

lemma put_peer_put:
  assumes p: "sized_peer p" and ips: "ips \<noteq> [] \<longrightarrow> first_allowedip p \<noteq> []"
  shows "peer_put n nlh p ips (put_peer n nlh p ips)"
proof (cases "mnl_attr_nest_start_check n nlh 0")
  case None
  with nested_checks(1) [OF well_put_peer(1) [OF p] well_put_peer(2) None] show ?thesis by (simp add: put_peer_def peer_put_def)
next
  case (Some s)
  obtain nlh1 start where s: "s = (nlh1, start)" by (cases s)
  let ?attrs = "peer_attrs p (ips \<noteq> [])" and ?o = "nest_open nlh 0"
  obtain nlh2 ok where c: "put_checks n nlh1 ?attrs = (nlh2, ok)" by fastforce
  note w = nested_checks(2) [OF well_put_peer(1) [OF p] well_put_peer(2) Some [unfolded s] c]
  have nest_end: "mnl_attr_nest_end (add (frag_body f) (fst ?o)) start = add (frag_enc f) nlh"
    if "f_peer f = p" for f
  proof -
    have "4 dvd length (frag_body f)" by (simp add: frag_body_def)
    from nest_add(1) [OF this, of nlh 0] w show ?thesis by (simp add: frag_enc_def)
  qed
  let ?f = "\<lambda>l as. \<lparr>f_peer = p, f_continued = (ips \<noteq> []), f_list = l, f_ips = as\<rparr>"
  have body: "frag_body (?f False []) = enc ?attrs" by (simp add: frag_body_def)
  show ?thesis
  proof (cases ok)
    case False
    with w have "mnl_attr_nest_cancel nlh2 start = nlh" "n < nlmsg_len nlh + 4 + length (enc ?attrs)" by auto
    with False Some s c show ?thesis by (simp add: put_peer_def peer_put_def)
  next
    case True
    with w have nlh2: "nlh2 = add (enc ?attrs) (fst ?o)" and fits: "nlmsg_len nlh + 4 + length (enc ?attrs) \<le> n" by auto
    have whole: "mnl_attr_nest_end nlh2 start = add (frag_enc (?f False [])) nlh"
      using nest_end [of "?f False []"] nlh2 body by simp
    have len: "nlmsg_len (add (frag_enc (?f False [])) nlh) \<le> n" using fits by (simp add: frag_enc_def body)
    show ?thesis
    proof (cases "first_allowedip p = []")
      case True
      with ips Some s c \<open>ok\<close> whole len show ?thesis
        by (auto simp: put_peer_def peer_put_def frag_of_def frag_ok_def pending_def intro!: exI [where x = "?f False []"])
    next
      case False
      then have pend: "pending p ips \<noteq> []" by (simp add: pending_def)
      show ?thesis
      proof (cases "mnl_attr_nest_start_check n nlh2 WGPEER_A_ALLOWEDIPS")
        case None
        then have "n < nlmsg_len nlh2 + 4" by (simp add: mnl_attr_nest_start_check_def split: if_splits)
        with None False Some s c \<open>ok\<close> whole len pend nlh2 show ?thesis
          by (auto simp: put_peer_def peer_put_def frag_of_def frag_ok_def pending_def intro!: exI [where x = "?f False []"])
      next
        case (Some s3)
        let ?o2 = "nest_open nlh2 WGPEER_A_ALLOWEDIPS"
        from Some have s3: "s3 = ?o2" and room: "nlmsg_len nlh2 + 4 \<le> n"
          by (auto simp: mnl_attr_nest_start_check_def split: if_splits)
        from put_ips_fragment [OF nlh2 room refl] obtain g rest where
          g: "put_ips n (fst ?o2) (pending p ips) = (add (concat (map ip_enc (f_ips g))) (fst ?o2), rest)"
            "pending p ips = f_ips g @ rest" "frag_of p ips g" "f_peer g = p" "nlmsg_len (add (frag_enc g) nlh) \<le> n"
            "mnl_attr_nest_end (add (concat (map ip_enc (f_ips g))) (fst ?o2)) (snd ?o2) = add (frag_body g) (fst ?o)"
            "f_ips g = [] \<Longrightarrow> rest \<noteq> [] \<Longrightarrow> n < nlmsg_len nlh + 4 + length (enc ?attrs) + 4 + length (ip_enc (hd rest))"
          by blast
        have "put_peer n nlh p ips =
            (if rest = [] then Complete (add (frag_enc g) nlh) else Toobig_allowedips (add (frag_enc g) nlh) rest)"
          using \<open>mnl_attr_nest_start_check n nlh 0 = Some s\<close> s c \<open>ok\<close> False Some s3 g(1,6) nest_end [OF g(4)]
          by (simp add: put_peer_def pending_def [symmetric] Let_def case_prod_unfold)
        then show ?thesis using g(2,3,5,7) unfolding peer_put_def Let_def by (auto intro!: exI [where x = g])
      qed
    qed
  qed
qed

section \<open>The peers of one message\<close>

text \<open>The fragments that lead from one position to another: a position is the list of peers that remain and the
  addresses that remain of the first of them when it has been begun.\<close>

inductive sent :: "wgpeer list \<times> wgallowedip list \<Rightarrow> frag list \<Rightarrow> wgpeer list \<times> wgallowedip list \<Rightarrow> bool" where
  sent_nil: "sent s [] s"
| sent_whole: "frag_of p ips f \<Longrightarrow> f_ips f = pending p ips \<Longrightarrow> sent (ps, []) fs t \<Longrightarrow> sent (p # ps, ips) (f # fs) t"
| sent_part: "frag_of p ips f \<Longrightarrow> f_ips f @ rest = pending p ips \<Longrightarrow> rest \<noteq> [] \<Longrightarrow> (ips \<noteq> [] \<longrightarrow> f_ips f \<noteq> []) \<Longrightarrow>
    sent (p # ps, rest) fs t \<Longrightarrow> sent (p # ps, ips) (f # fs) t"

lemma sent_trans: "sent s fs t \<Longrightarrow> sent t gs u \<Longrightarrow> sent s (fs @ gs) u"
  by (induction rule: sent.induct) (auto intro: sent.intros)

text \<open>What remains to be done, as a number.\<close>

fun todo :: "wgpeer list \<times> wgallowedip list \<Rightarrow> nat" where
  "todo ([], ips) = 0"
| "todo (p # ps, ips) =
     (if ips = [] then 2 + length (first_allowedip p) else 1 + length ips) +
     sum_list (map (\<lambda>p. 2 + length (first_allowedip p)) ps)"

lemma todo_fresh: "todo (ps, []) = sum_list (map (\<lambda>p. 2 + length (first_allowedip p)) ps)"
  by (cases ps) simp_all

text \<open>A position that can be reached: addresses remain only of a peer that has some.\<close>

fun at_peer :: "wgpeer list \<times> wgallowedip list \<Rightarrow> bool" where
  "at_peer ([], ips) \<longleftrightarrow> ips = []"
| "at_peer (p # ps, ips) \<longleftrightarrow> (ips \<noteq> [] \<longrightarrow> first_allowedip p \<noteq> [])"

lemma at_peer_fresh [simp]: "at_peer (ps, [])"
  by (cases ps) simp_all

lemma put_peers_sent:
  assumes "list_all sized_peer ps" "at_peer (ps, ips)" "nlmsg_len nlh \<le> n" "ips \<noteq> [] \<longrightarrow> nlmsg_len nlh + 172 \<le> n"
  shows "\<exists>fs nlh' ps' ips'. put_peers n nlh ps ips = (nlh', ps', ips') \<and>
    nlh' = add (concat (map frag_enc fs)) nlh \<and> nlmsg_len nlh' \<le> n \<and> sent (ps, ips) fs (ps', ips') \<and>
    at_peer (ps', ips') \<and> list_all sized_peer ps' \<and> todo (ps', ips') \<le> todo (ps, ips) \<and>
    (ps \<noteq> [] \<and> nlmsg_len nlh + 172 \<le> n \<longrightarrow> todo (ps', ips') < todo (ps, ips))"
  using assms
proof (induction ps arbitrary: ips nlh)
  case Nil
  then show ?case by (intro exI [where x = "[] :: frag list"] exI) (auto intro: sent_nil)
next
  case (Cons p ps)
  from Cons.prems have p: "sized_peer p" and ips: "ips \<noteq> [] \<longrightarrow> first_allowedip p \<noteq> []" by simp_all
  note put = put_peer_put [OF p ips, of n nlh]
  have pend: "length (pending p ips) \<le> (if ips = [] then length (first_allowedip p) else length ips)"
    by (simp add: pending_def)
  show ?case
  proof (cases "put_peer n nlh p ips")
    case (Complete nlh1)
    with put obtain f where f: "frag_of p ips f" "f_ips f = pending p ips" "nlh1 = add (frag_enc f) nlh" "nlmsg_len nlh1 \<le> n"
      by (auto simp: peer_put_def)
    from Cons.IH [OF _ _ f(4), of "[]"] Cons.prems(1) obtain fs nlh' ps' ips' where
      ih: "put_peers n nlh1 ps [] = (nlh', ps', ips')" "nlh' = add (concat (map frag_enc fs)) nlh1" "nlmsg_len nlh' \<le> n"
        "sent (ps, []) fs (ps', ips')" "at_peer (ps', ips')" "list_all sized_peer ps'" "todo (ps', ips') \<le> todo (ps, [])"
      by auto
    have "todo (ps', ips') < todo (p # ps, ips)" using ih(7) by (simp add: todo_fresh)
    with ih f Complete show ?thesis by (intro exI [where x = "f # fs"] exI) (auto intro: sent_whole)
  next
    case (Toobig_peers nlh1)
    with put have "nlh1 = nlh" "n < nlmsg_len nlh + 4 + length (enc (peer_attrs p (ips \<noteq> [])))" by (simp_all add: peer_put_def)
    moreover have "\<not> nlmsg_len nlh + 172 \<le> n" using calculation(2) length_peer_attrs [OF p, of "ips \<noteq> []"] by linarith
    ultimately show ?thesis using Toobig_peers Cons.prems
      by (intro exI [where x = "[] :: frag list"] exI [where x = nlh] exI [where x = "p # ps"] exI [where x = ips])
        (simp add: sent_nil)
  next
    case (Toobig_allowedips nlh1 rest)
    with put obtain f where f: "frag_of p ips f" "f_ips f @ rest = pending p ips" "rest \<noteq> []"
        "nlh1 = add (frag_enc f) nlh" "nlmsg_len nlh1 \<le> n"
        "f_ips f = [] \<longrightarrow> n < nlmsg_len nlh + 4 + length (enc (peer_attrs p (ips \<noteq> []))) + 4 + length (ip_enc (hd rest))"
      by (auto simp: peer_put_def Let_def)
    have "length (f_ips f) + length rest = length (pending p ips)" using f(2) by (simp flip: length_append)
    moreover have some: "1 \<le> length (f_ips f) \<or> n < nlmsg_len nlh + 172"
      using f(6) length_peer_attrs [OF p, of "ips \<noteq> []"] length_ip_enc [of "hd rest"] by (cases "f_ips f") auto
    ultimately have "todo (p # ps, rest) \<le> todo (p # ps, ips)"
      "nlmsg_len nlh + 172 \<le> n \<longrightarrow> todo (p # ps, rest) < todo (p # ps, ips)"
      using f(3) pend unfolding pending_def todo.simps by (simp_all split: if_splits) linarith
    moreover have "first_allowedip p \<noteq> []" using f(2,3) ips by (auto simp: pending_def split: if_splits)
    moreover have "sent (p # ps, ips) [f] (p # ps, rest)"
      using some Cons.prems(4) by (intro sent_part [OF f(1-3) _ sent_nil]) auto
    ultimately show ?thesis using Toobig_allowedips f(4,5) Cons.prems
      by (intro exI [where x = "[f]"] exI) auto
  qed
qed

section \<open>One message\<close>

lemma frag_enc_aligned [simp]: "4 dvd length (concat (map frag_enc fs))"
  by (induction fs) (simp_all add: frag_enc_def dvd_add)

text \<open>The settings, whose strings must be there.\<close>

definition settings :: "(nat \<times> bytes option) list \<Rightarrow> bytes" where
  "settings attrs = concat (map (\<lambda>(t, d). attr_bytes t (the d)) attrs)"

definition strings_set :: "(nat \<times> bytes option) list \<Rightarrow> bool" where
  "strings_set attrs \<longleftrightarrow> list_all (\<lambda>(t, d). t < 2 ^ 16 \<and> d \<noteq> None) attrs"

lemma settings_simps [simp]:
  "settings [] = []" "settings ((t, d) # as) = attr_bytes t (the d) @ settings as" "settings (as @ bs) = settings as @ settings bs"
  by (simp_all add: settings_def)

lemma mnl_attr_put_add:
  "n < 2 ^ 16 \<Longrightarrow> t < 2 ^ 16 \<Longrightarrow> mnl_attr_put n nlh t d =
     (if nlmsg_len nlh + length (attr_bytes t d) > n then Fault else Ok (add (attr_bytes t d) nlh))"
  using MNL_ALIGN_ge [of "length d"] put_bytes_add [of t d nlh]
  by (auto simp: mnl_attr_put_def attr_fits_def)

lemma put_all_add:
  assumes "n < 2 ^ 16" "strings_set attrs" "nlmsg_len nlh \<le> n"
  shows "put_all n nlh attrs =
    (if nlmsg_len nlh + length (settings attrs) > n then Fault else Ok (add (settings attrs) nlh))"
  using assms
proof (induction attrs arbitrary: nlh)
  case (Cons a attrs)
  obtain t d where a: "a = (t, Some d)" using Cons.prems(2) by (cases a) (auto simp: strings_set_def)
  then have t: "t < 2 ^ 16" "strings_set attrs" using Cons.prems(2) by (auto simp: strings_set_def)
  show ?case
  proof (cases "nlmsg_len nlh + length (attr_bytes t d) > n")
    case True
    then show ?thesis by (simp add: a mnl_attr_put_add [OF assms(1) t(1)])
  next
    case False
    with Cons.IH [OF assms(1) t(2), of "add (attr_bytes t d) nlh"] show ?thesis
      by (simp add: a mnl_attr_put_add [OF assms(1) t(1)] add.assoc)
  qed
qed simp

lemma put_all_None: "\<not> list_all (\<lambda>(t, d). d \<noteq> None) attrs \<Longrightarrow> put_all n nlh attrs = Fault"
proof (induction attrs arbitrary: nlh)
  case (Cons a attrs)
  then show ?case
    by (cases "(n, nlh, a # attrs)" rule: put_all.cases) (auto simp: mnl_attr_put_def split: if_splits)
qed simp

definition name_attr :: "wgdevice \<Rightarrow> bytes" where
  "name_attr d = attr_bytes WGDEVICE_A_IFNAME (str_bytes (dev_name d) @ [0])"

definition peers_attr :: "frag list \<Rightarrow> bytes" where
  "peers_attr fs = attr_bytes (NLA_F_NESTED + WGDEVICE_A_PEERS) (concat (map frag_enc fs))"

text \<open>What is put before the peers, without a check.\<close>

definition before_peers :: "nat \<Rightarrow> wgdevice \<Rightarrow> wgpeer list \<Rightarrow> bytes" where
  "before_peers version d peer = name_attr d @ (if peer = [] then settings (device_attrs version d) else [])"

lemma device_attrs_types: "list_all (\<lambda>(t, d). t < 2 ^ 16) (device_attrs version d)"
  by (simp add: device_attrs_def attr_if_def Let_def)

lemma strings_set_iff: "strings_set (device_attrs version d) \<longleftrightarrow> list_all (\<lambda>(t, x). x \<noteq> None) (device_attrs version d)"
  using device_attrs_types [of version d] by (auto simp: strings_set_def list_all_iff)

lemma put_before_peers:
  assumes "n < 2 ^ 16" "nlmsg_len nlh \<le> n" "strings_set (device_attrs version d)"
  shows "res_bind (mnl_attr_put n nlh WGDEVICE_A_IFNAME (str_bytes (dev_name d) @ [0])) (\<lambda>nlh.
      if peer = [] then put_all n nlh (device_attrs version d) else Ok nlh) =
    (if nlmsg_len nlh + length (before_peers version d peer) > n then Fault else Ok (add (before_peers version d peer) nlh))"
proof (cases "nlmsg_len nlh + length (name_attr d) > n")
  case True
  then show ?thesis using assms(1) by (simp add: mnl_attr_put_add before_peers_def name_attr_def)
next
  case False
  with put_all_add [OF assms(1,3), of "add (name_attr d) nlh"] assms(1) show ?thesis
    by (simp add: mnl_attr_put_add before_peers_def name_attr_def add.assoc)
qed

lemma set_message_add:
  assumes n: "n < 2 ^ 16" "nlmsg_len nlh \<le> n" and d: "strings_set (device_attrs version d)"
    and peers: "first_peer d \<noteq> []"
  shows "set_message n version nlh d peer ips =
    (if nlmsg_len nlh + length (before_peers version d peer) + 4 > n then Fault
     else
       let o' = nest_open (add (before_peers version d peer) nlh) WGDEVICE_A_PEERS in
       case put_peers n (fst o') (if peer = [] then first_peer d else peer) ips of
         (nlh, peer, ips) \<Rightarrow> Ok (mnl_attr_nest_end nlh (snd o'), peer, ips))"
proof -
  have "set_message n version nlh d peer ips = res_bind (res_bind (mnl_attr_put n nlh WGDEVICE_A_IFNAME (str_bytes (dev_name d) @ [0])) (\<lambda>nlh.
      if peer = [] then put_all n nlh (device_attrs version d) else Ok nlh)) (\<lambda>nlh.
      res_bind (mnl_attr_nest_start n nlh WGDEVICE_A_PEERS) (\<lambda>(nlh, peers_nest).
           case put_peers n nlh (if peer = [] then first_peer d else peer) ips of
             (nlh, peer, allowedip) \<Rightarrow> Ok (mnl_attr_nest_end nlh peers_nest, peer, allowedip)))"
    by (simp only: set_message_def peers res_bind_assoc if_False)
  then show ?thesis
    unfolding put_before_peers [OF n d]
    by (simp add: mnl_attr_nest_start_def Let_def case_prod_unfold)
qed

lemma set_message_empty:
  assumes "n < 2 ^ 16" "nlmsg_len nlh \<le> n" "strings_set (device_attrs version d)" "first_peer d = []"
  shows "set_message n version nlh d peer ips =
    (if nlmsg_len nlh + length (before_peers version d peer) > n then Fault
     else Ok (add (before_peers version d peer) nlh, [], []))"
proof -
  have "set_message n version nlh d peer ips = res_bind (res_bind (mnl_attr_put n nlh WGDEVICE_A_IFNAME (str_bytes (dev_name d) @ [0])) (\<lambda>nlh.
      if peer = [] then put_all n nlh (device_attrs version d) else Ok nlh)) (\<lambda>nlh. Ok (nlh, [], []))"
    by (simp add: set_message_def assms(4) res_bind_assoc)
  then show ?thesis unfolding put_before_peers [OF assms(1-3)] by simp
qed

text \<open>A message that has room for what is put without a check.\<close>

lemma set_message_sent:
  assumes n: "n < 2 ^ 16" and d: "strings_set (device_attrs version d)" "first_peer d \<noteq> []"
    and room: "nlmsg_len nlh + length (before_peers version d peer) + 4 \<le> n"
    and ps: "list_all sized_peer (first_peer d)" "list_all sized_peer peer" "at_peer (peer, ips)"
    and more: "ips \<noteq> [] \<longrightarrow> nlmsg_len nlh + length (before_peers version d peer) + 176 \<le> n"
  shows "\<exists>fs peer' ips'. set_message n version nlh d peer ips =
      Ok (add (before_peers version d peer @ peers_attr fs) nlh, peer', ips') \<and>
    nlmsg_len nlh + length (before_peers version d peer @ peers_attr fs) \<le> n \<and>
    sent (if peer = [] then first_peer d else peer, ips) fs (peer', ips') \<and>
    at_peer (peer', ips') \<and> list_all sized_peer peer' \<and>
    todo (peer', ips') \<le> todo (if peer = [] then first_peer d else peer, ips) \<and>
    (nlmsg_len nlh + length (before_peers version d peer) + 176 \<le> n \<longrightarrow>
       todo (peer', ips') < todo (if peer = [] then first_peer d else peer, ips))"
proof -
  let ?o = "nest_open (add (before_peers version d peer) nlh) WGDEVICE_A_PEERS" and ?ps = "if peer = [] then first_peer d else peer"
  have sized: "list_all sized_peer ?ps" "at_peer (?ps, ips)" "nlmsg_len (fst ?o) \<le> n" "?ps \<noteq> []"
      "ips \<noteq> [] \<longrightarrow> nlmsg_len (fst ?o) + 172 \<le> n"
    using ps room d(2) more by auto
  from put_peers_sent [OF sized(1-3,5)] obtain fs nlh' ps' ips' where
    fs: "put_peers n (fst ?o) ?ps ips = (nlh', ps', ips')" "nlh' = add (concat (map frag_enc fs)) (fst ?o)"
      "nlmsg_len nlh' \<le> n" "sent (?ps, ips) fs (ps', ips')" "at_peer (ps', ips')" "list_all sized_peer ps'"
      "todo (ps', ips') \<le> todo (?ps, ips)" "nlmsg_len (fst ?o) + 172 \<le> n \<longrightarrow> todo (ps', ips') < todo (?ps, ips)"
    using sized(4) by blast
  have e: "mnl_attr_nest_end nlh' (snd ?o) = add (before_peers version d peer @ peers_attr fs) nlh"
    by (simp add: fs(2) nest_add(1) peers_attr_def)
  have "set_message n version nlh d peer ips = Ok (add (before_peers version d peer @ peers_attr fs) nlh, ps', ips')"
    using room set_message_add [OF n _ d, of nlh peer ips] fs(1) e by (simp add: Let_def)
  moreover have "nlmsg_len nlh + length (before_peers version d peer @ peers_attr fs) \<le> n"
    using fs(2,3) by (simp add: peers_attr_def)
  moreover have "nlmsg_len nlh + length (before_peers version d peer) + 176 \<le> n \<longrightarrow> todo (ps', ips') < todo (?ps, ips)"
    using fs(8) by simp
  ultimately show ?thesis using fs(4-7) by blast
qed

section \<open>The sequence of messages\<close>

text \<open>
  A kernel that acknowledges every message which sets a device; \<open>log\<close> is the messages of this kind it has taken so far.
\<close>

definition acks :: "'w netlink \<Rightarrow> ('w \<Rightarrow> bytes list) \<Rightarrow> bool" where
  "acks N log \<longleftrightarrow> (\<forall>w nlg nlh. nlmsg_seq nlh = nlg_seq nlg \<and> nlg_seq nlg < 2 ^ 32 \<and> take 1 (nlmsg_body nlh) = [of_nat WG_CMD_SET_DEVICE] \<longrightarrow>
     (\<exists>w1 w2 r e. nl_send N w (wire nlh) = (0, w1) \<and>
        mnlg_socket_recv_run N nlg None w1 (0, ()) = Some ((r, e, ()), w2) \<and> 0 \<le> r \<and> log w2 = log w @ [wire nlh]))"

definition genl_header :: "nat \<Rightarrow> bytes" where
  "genl_header version = [of_nat WG_CMD_SET_DEVICE, of_nat version, 0, 0]"

definition message_body :: "nat \<Rightarrow> wgdevice \<Rightarrow> bool \<Rightarrow> frag list \<Rightarrow> bytes" where
  "message_body version d later fs = genl_header version @ name_attr d @
     (if later then [] else settings (device_attrs version d)) @ (if first_peer d = [] then [] else peers_attr fs)"

lemma prepare_set:
  assumes "mnlg_msg_prepare N w nlg WG_CMD_SET_DEVICE (NLM_F_REQUEST + NLM_F_ACK) = (nlh, nlg')"
  shows "nlmsg_body nlh = genl_header (nlg_version nlg)" "nlmsg_len nlh = 20" "nlmsg_seq nlh = nlg_seq nlg' \<and> nlg_seq nlg' < 2 ^ 32"
    "nlg_version nlg' = nlg_version nlg"
  using assms
  by (auto simp: mnlg_msg_prepare_def mnlg_msg_prepare_with_def mnl_nlmsg_put_extra_header_def mnl_nlmsg_put_header_def
      genl_header_def nlmsg_len_def MNL_ALIGN_def Let_def)

text \<open>One round of the loop with a kernel that acknowledges.\<close>

lemma set_again_round:
  assumes k: "acks N log" and v: "nlg_version nlg = version"
    and m: "\<And>nlh. nlmsg_len nlh = 20 \<Longrightarrow>
      \<exists>x peer' ips'. set_message (SOCKET_BUFFER_SIZE N) version nlh d peer ips = Ok (add x nlh, peer', ips') \<and> Q x peer' ips'"
  shows "\<exists>x peer' ips' nlg' w' nlh. Q x peer' ips' \<and> nlg_version nlg' = version \<and> log w' = log w @ [wire nlh] \<and>
    nlmsg_len nlh = 20 + length x \<and> nlmsg_body nlh = genl_header version @ x \<and>
    set_again N nlg d peer ips w = (if peer' \<noteq> [] then set_again N nlg' d peer' ips' w' else Some (Ok 0, w'))"
proof -
  obtain nlh nlg' where p: "mnlg_msg_prepare N w nlg WG_CMD_SET_DEVICE (NLM_F_REQUEST + NLM_F_ACK) = (nlh, nlg')" by fastforce
  note prep = prepare_set [OF p]
  from m [OF prep(2)] obtain x peer' ips' where
    x: "set_message (SOCKET_BUFFER_SIZE N) version nlh d peer ips = Ok (add x nlh, peer', ips')" "Q x peer' ips'" by blast
  have "nlmsg_seq (add x nlh) = nlg_seq nlg' \<and> nlg_seq nlg' < 2 ^ 32 \<and> take 1 (nlmsg_body (add x nlh)) = [of_nat WG_CMD_SET_DEVICE]"
    using prep(1,3) by (simp add: add_def genl_header_def)
  with k obtain w1 w2 r e where "nl_send N w (wire (add x nlh)) = (0, w1)"
      "mnlg_socket_recv_run N nlg' None w1 (0, ()) = Some ((r, e, ()), w2)" "0 \<le> r" "log w2 = log w @ [wire (add x nlh)]"
    unfolding acks_def by meson
  moreover from this p prep v x(1)
  have "set_again N nlg d peer ips w = (if peer' \<noteq> [] then set_again N nlg' d peer' ips' w2 else Some (Ok 0, w2))"
    by (subst set_again.simps) simp
  ultimately show ?thesis
    using x(2) prep v
    by (intro exI [where x = x] exI [where x = peer'] exI [where x = ips'] exI [where x = nlg'] exI [where x = w2]
        exI [where x = "add x nlh"]) simp
qed

text \<open>What a run of the loop has done: it has ended, its messages fit the buffer, and the fragments in them
  lead from the start to the end of the lists.\<close>

definition set_run ::
  "'w netlink \<Rightarrow> ('w \<Rightarrow> bytes list) \<Rightarrow> 'w \<Rightarrow> ((unit, int) res \<times> 'w) option \<Rightarrow> bytes list \<Rightarrow> bool"
where
  "set_run N log w r bodies \<longleftrightarrow> (\<exists>w' msgs. r = Some (Ok 0, w') \<and> log w' = log w @ map wire msgs \<and>
     list_all (\<lambda>m. nlmsg_len m \<le> SOCKET_BUFFER_SIZE N) msgs \<and> map nlmsg_body msgs = bodies)"

lemma set_run_Ok: "set_run N log w r bodies \<Longrightarrow> \<exists>w'. r = Some (Ok 0, w')"
  unfolding set_run_def by blast

lemma set_run_Cons:
  assumes "log w' = log w @ [wire nlh]" "nlmsg_len nlh \<le> SOCKET_BUFFER_SIZE N" "set_run N log w' r bodies"
  shows "set_run N log w r (nlmsg_body nlh # bodies)"
proof -
  from assms(3) obtain w2 msgs where "r = Some (Ok 0, w2)" "log w2 = log w' @ map wire msgs"
      "list_all (\<lambda>m. nlmsg_len m \<le> SOCKET_BUFFER_SIZE N) msgs" "map nlmsg_body msgs = bodies"
    by (auto simp: set_run_def)
  with assms(1,2) show ?thesis
    unfolding set_run_def by (intro exI [where x = w2] exI [where x = "nlh # msgs"]) simp
qed

lemma set_run_one:
  "log w' = log w @ [wire nlh] \<Longrightarrow> nlmsg_len nlh \<le> SOCKET_BUFFER_SIZE N \<Longrightarrow>
   set_run N log w (Some (Ok 0, w')) [nlmsg_body nlh]"
  unfolding set_run_def by (intro exI [where x = w'] exI [where x = "[nlh]"]) simp

lemma set_again_rest:
  assumes k: "acks N log" and n: "216 \<le> SOCKET_BUFFER_SIZE N" "SOCKET_BUFFER_SIZE N < 2 ^ 16"
    and d: "strings_set (device_attrs version d)" "first_peer d \<noteq> []" "list_all sized_peer (first_peer d)"
      "length (dev_name d) < IFNAMSIZ"
    and "peer \<noteq> []" "list_all sized_peer peer" "at_peer (peer, ips)" "nlg_version nlg = version"
  shows "\<exists>fss. set_run N log w (set_again N nlg d peer ips w) (map (message_body version d True) fss) \<and>
    sent (peer, ips) (concat fss) ([], [])"
  using assms(8-)
proof (induction "todo (peer, ips)" arbitrary: peer ips nlg w rule: less_induct)
  case less
  let ?n = "SOCKET_BUFFER_SIZE N" and ?u = "before_peers version d peer"
  have "MNL_ALIGN (length (dev_name d) + 1) \<le> 16" using MNL_ALIGN_mono [of "length (dev_name d) + 1" 16] d(4) by simp
  then have u: "length ?u \<le> 20" "?u = name_attr d" using less.prems(1) by (simp_all add: before_peers_def name_attr_def str_bytes_def)
  let ?Q = "\<lambda>x peer' ips'. \<exists>fs. x = ?u @ peers_attr fs \<and> 20 + length x \<le> ?n \<and> sent (peer, ips) fs (peer', ips') \<and>
    at_peer (peer', ips') \<and> list_all sized_peer peer' \<and> todo (peer', ips') < todo (peer, ips)"
  have "\<exists>x peer' ips'. set_message ?n version nlh d peer ips = Ok (add x nlh, peer', ips') \<and> ?Q x peer' ips'"
    if l: "nlmsg_len nlh = 20" for nlh
  proof -
    have "nlmsg_len nlh + length ?u + 4 \<le> ?n" "nlmsg_len nlh + length ?u + 176 \<le> ?n" using n(1) u(1) l by simp_all
    with set_message_sent [OF n(2) d(1,2) _ d(3) less.prems(2,3), of nlh] less.prems(1) l obtain fs peer' ips' where
      "set_message ?n version nlh d peer ips = Ok (add (?u @ peers_attr fs) nlh, peer', ips')"
      "20 + length (?u @ peers_attr fs) \<le> ?n" "sent (peer, ips) fs (peer', ips')" "at_peer (peer', ips')"
      "list_all sized_peer peer'" "todo (peer', ips') < todo (peer, ips)" by auto
    then show ?thesis by blast
  qed
  from set_again_round [where Q = ?Q, OF k less.prems(4) this] obtain fs peer' ips' nlg' w' nlh where
    r: "20 + length (?u @ peers_attr fs) \<le> ?n" "sent (peer, ips) fs (peer', ips')" "at_peer (peer', ips')"
      "list_all sized_peer peer'" "todo (peer', ips') < todo (peer, ips)" "nlg_version nlg' = version"
      "log w' = log w @ [wire nlh]" "nlmsg_len nlh = 20 + length (?u @ peers_attr fs)"
      "nlmsg_body nlh = genl_header version @ ?u @ peers_attr fs"
      "set_again N nlg d peer ips w = (if peer' \<noteq> [] then set_again N nlg' d peer' ips' w' else Some (Ok 0, w'))"
    by blast
  have b: "nlmsg_body nlh = message_body version d True fs" using r(9) u(2) d(2) by (simp add: message_body_def)
  have fit: "nlmsg_len nlh \<le> ?n" using r(1,8) by simp
  show ?case
  proof (cases "peer' = []")
    case True
    with r(2,3,10) set_run_one [of log w' w nlh N] r(7) fit b show ?thesis by (intro exI [where x = "[fs]"]) simp
  next
    case False
    from less.hyps [OF r(5) False r(4,3,6), of w'] obtain fss where
      "set_run N log w' (set_again N nlg' d peer' ips' w') (map (message_body version d True) fss)"
      "sent (peer', ips') (concat fss) ([], [])" by blast
    with False r(10) set_run_Cons [of log w' w nlh N] r(7) fit b sent_trans [OF r(2)] show ?thesis
      by (intro exI [where x = "fs # fss"]) auto
  qed
qed

text \<open>The size of the first message before its peers.\<close>

definition first_size :: "nat \<Rightarrow> wgdevice \<Rightarrow> nat" where
  "first_size version d = 20 + length (before_peers version d []) + (if first_peer d = [] then 0 else 4)"

lemma set_again_no_peers:
  assumes k: "acks N log" and n: "SOCKET_BUFFER_SIZE N < 2 ^ 16" and d: "strings_set (device_attrs version d)"
    and room: "first_size version d \<le> SOCKET_BUFFER_SIZE N" and v: "nlg_version nlg = version" and True: "first_peer d = []"
  shows "set_run N log w (set_again N nlg d [] [] w) [message_body version d False []]"
proof -
  let ?x = "before_peers version d []"
  have "\<exists>x peer' ips'. set_message (SOCKET_BUFFER_SIZE N) version nlh d [] [] = Ok (add x nlh, peer', ips') \<and> x = ?x \<and> peer' = []"
    if "nlmsg_len nlh = 20" for nlh
    using set_message_empty [OF n _ d True, of nlh "[]" "[]"] that room True by (simp add: first_size_def)
  from set_again_round [where Q = "\<lambda>x peer' ips'. x = ?x \<and> peer' = []", OF k v this, of w] obtain w' nlh where
    "log w' = log w @ [wire nlh]" "nlmsg_len nlh = 20 + length ?x" "nlmsg_body nlh = genl_header version @ ?x"
    "set_again N nlg d [] [] w = Some (Ok 0, w')"
    by auto
  moreover from this(2) have "nlmsg_len nlh \<le> SOCKET_BUFFER_SIZE N" using room True by (simp add: first_size_def)
  ultimately show ?thesis using set_run_one [of log w' w nlh N] True
    by (simp add: message_body_def before_peers_def)
qed

lemma set_again_first:
  assumes k: "acks N log" and n: "SOCKET_BUFFER_SIZE N < 2 ^ 16" and d: "strings_set (device_attrs version d)" "list_all sized_peer (first_peer d)"
    and room: "first_size version d \<le> SOCKET_BUFFER_SIZE N" and v: "nlg_version nlg = version" and False: "first_peer d \<noteq> []"
  obtains fs peer' ips' nlg' w' nlh where "sent (first_peer d, []) fs (peer', ips')" "at_peer (peer', ips')"
    "list_all sized_peer peer'" "nlg_version nlg' = version" "log w' = log w @ [wire nlh]" "nlmsg_len nlh \<le> SOCKET_BUFFER_SIZE N"
    "nlmsg_body nlh = message_body version d False fs"
    "set_again N nlg d [] [] w = (if peer' \<noteq> [] then set_again N nlg' d peer' ips' w' else Some (Ok 0, w'))"
proof -
  let ?n = "SOCKET_BUFFER_SIZE N" and ?u = "before_peers version d []"
  let ?Q = "\<lambda>x peer' ips'. \<exists>fs. x = ?u @ peers_attr fs \<and> 20 + length x \<le> ?n \<and> sent (first_peer d, []) fs (peer', ips') \<and>
    at_peer (peer', ips') \<and> list_all sized_peer peer'"
  have "\<exists>x peer' ips'. set_message ?n version nlh d [] [] = Ok (add x nlh, peer', ips') \<and> ?Q x peer' ips'"
    if l: "nlmsg_len nlh = 20" for nlh
  proof -
    have "nlmsg_len nlh + length ?u + 4 \<le> ?n" using room l False by (simp add: first_size_def)
    from set_message_sent [OF n d(1) False this d(2), of "[]"] l obtain fs peer' ips' where
      "set_message ?n version nlh d [] [] = Ok (add (?u @ peers_attr fs) nlh, peer', ips')"
      "20 + length (?u @ peers_attr fs) \<le> ?n" "sent (first_peer d, []) fs (peer', ips')" "at_peer (peer', ips')"
      "list_all sized_peer peer'" by auto
    then show ?thesis by blast
  qed
  from set_again_round [where Q = ?Q, OF k v this] obtain fs peer' ips' nlg' w' nlh where
    r: "20 + length (?u @ peers_attr fs) \<le> ?n" "sent (first_peer d, []) fs (peer', ips')" "at_peer (peer', ips')"
      "list_all sized_peer peer'" "nlg_version nlg' = version"
      "log w' = log w @ [wire nlh]" "nlmsg_len nlh = 20 + length (?u @ peers_attr fs)"
      "nlmsg_body nlh = genl_header version @ ?u @ peers_attr fs"
      "set_again N nlg d [] [] w = (if peer' \<noteq> [] then set_again N nlg' d peer' ips' w' else Some (Ok 0, w'))"
    by blast
  have "nlmsg_body nlh = message_body version d False fs" using r(8) False by (simp add: message_body_def before_peers_def)
  moreover have "nlmsg_len nlh \<le> ?n" using r(1,7) by simp
  ultimately show ?thesis using that r(2-6,9) by blast
qed

lemma set_again_all:
  assumes k: "acks N log" and n: "216 \<le> SOCKET_BUFFER_SIZE N" "SOCKET_BUFFER_SIZE N < 2 ^ 16"
    and d: "strings_set (device_attrs version d)" "list_all sized_peer (first_peer d)" "length (dev_name d) < IFNAMSIZ"
    and room: "first_size version d \<le> SOCKET_BUFFER_SIZE N" and v: "nlg_version nlg = version"
  shows "\<exists>fs fss. set_run N log w (set_again N nlg d [] [] w)
      (message_body version d False fs # map (message_body version d True) fss) \<and>
    sent (first_peer d, []) (fs @ concat fss) ([], [])"
proof (cases "first_peer d = []")
  case True
  from set_again_no_peers [OF k n(2) d(1) room v this] True show ?thesis
    by (intro exI [where x = "[] :: frag list"] exI [where x = "[] :: frag list list"]) (simp add: sent_nil)
next
  case False
  from set_again_first [OF k n(2) d(1,2) room v False, of w] obtain fs peer' ips' nlg' w' nlh where
    r: "sent (first_peer d, []) fs (peer', ips')" "at_peer (peer', ips')" "list_all sized_peer peer'" "nlg_version nlg' = version"
      "log w' = log w @ [wire nlh]" "nlmsg_len nlh \<le> SOCKET_BUFFER_SIZE N" "nlmsg_body nlh = message_body version d False fs"
      "set_again N nlg d [] [] w = (if peer' \<noteq> [] then set_again N nlg' d peer' ips' w' else Some (Ok 0, w'))"
    by blast
  show ?thesis
  proof (cases "peer' = []")
    case True
    with r set_run_one [of log w' w nlh N] show ?thesis
      by (intro exI [where x = fs] exI [where x = "[] :: frag list list"]) simp
  next
    case rest: False
    from set_again_rest [OF k n d(1) False d(2,3) rest r(3,2,4), of w'] obtain fss where
      "set_run N log w' (set_again N nlg' d peer' ips' w') (map (message_body version d True) fss)"
      "sent (peer', ips') (concat fss) ([], [])" by blast
    with rest r(5-8) set_run_Cons [of log w' w nlh N] sent_trans [OF r(1)] show ?thesis
      by (intro exI [where x = fs] exI [where x = fss]) auto
  qed
qed

text \<open>The first message overflows the buffer exactly when the settings do not fit, or a string is a null pointer.\<close>

lemma set_message_Fault:
  assumes "n < 2 ^ 16" "nlmsg_len nlh = 20" "20 \<le> n" "list_all sized_peer (first_peer d)"
  shows "set_message n version nlh d [] [] = Fault \<longleftrightarrow>
    \<not> strings_set (device_attrs version d) \<or> first_size version d > n"
proof (cases "strings_set (device_attrs version d)")
  case False
  then have "\<not> list_all (\<lambda>(t, x). x \<noteq> None) (device_attrs version d)" by (simp add: strings_set_iff)
  from put_all_None [OF this] have "set_message n version nlh d [] [] = Fault"
    by (simp add: set_message_def mnl_attr_put_def res_simps)
  with False show ?thesis by simp
next
  case True
  show ?thesis
  proof (cases "first_peer d = []")
    case True
    with set_message_empty [OF assms(1) _ \<open>strings_set _\<close> True, of nlh "[]" "[]"] assms(2,3) \<open>strings_set _\<close> show ?thesis
      by (simp add: first_size_def)
  next
    case False
    with set_message_add [OF assms(1) _ \<open>strings_set _\<close> False, of nlh "[]" "[]"] assms(2,3) \<open>strings_set _\<close> show ?thesis
      by (simp add: first_size_def Let_def case_prod_unfold)
  qed
qed

end
