(* ===== verification/Linux_Roundtrip.thy ===== *)
theory Linux_Roundtrip
  imports Linux_Set
begin

text \<open>
  The two directions of the kernel's protocol agree: the messages that \<^verbatim>\<open>kernel_set_device\<close> sends, read by
  the callbacks of \<^verbatim>\<open>kernel_get_device\<close> and joined by \<^verbatim>\<open>coalesce_peers\<close>, give the device again, however
  many messages it took.
\<close>

section \<open>Reading what was written\<close>

text \<open>A sequence of attributes has the effect \<open>f\<close> on the state, whatever comes behind it.\<close>

definition attrs_in :: "'s cb \<Rightarrow> bytes \<Rightarrow> bytes \<Rightarrow> int \<times> 's \<Rightarrow> int \<times> int \<times> 's" where
  "attrs_in cb x rest st = attr_loop cb (x @ rest) (int (length x)) MNL_CB_OK st"

definition does :: "'s cb \<Rightarrow> bytes \<Rightarrow> ('s \<Rightarrow> 's) \<Rightarrow> bool" where
  "does cb x f \<longleftrightarrow> (\<forall>y rest e s. \<exists>e'. attrs_in cb (x @ y) rest (e, s) = attrs_in cb y rest (e', f s))"

lemma doesD: "does cb x f \<Longrightarrow> \<exists>e'. attrs_in cb x rest (e, s) = (MNL_CB_OK, e', f s)"
  unfolding does_def attrs_in_def by (drule spec [where x = "[]"]) (simp add: attr_loop_end)

lemma does_Nil: "does cb [] (\<lambda>s. s)"
  by (auto simp: does_def)

lemma does_append: "does cb x f \<Longrightarrow> does cb y g \<Longrightarrow> does cb (x @ y) (\<lambda>s. g (f s))"
  unfolding does_def append_assoc by metis

lemma does_cong: "does cb x f \<Longrightarrow> (\<And>s. f s = g s) \<Longrightarrow> does cb x g"
  by (simp add: does_def)

lemma does_attr:
  assumes "attr_fits t d" "\<And>r e s. \<exists>e'. cb (attr_bytes t d @ r) (e, s) = (MNL_CB_OK, e', f s)"
  shows "does cb (attr_bytes t d) f"
  unfolding does_def
proof (intro allI)
  fix y rest e s
  have l: "int (length (attr_bytes t d @ y)) = int (4 + MNL_ALIGN (length d)) + int (length y)" by simp
  obtain e' where "cb (attr_bytes t d @ y @ rest) (e, s) = (MNL_CB_OK, e', f s)" using assms(2) by blast
  then show "\<exists>e'. attrs_in cb (attr_bytes t d @ y) rest (e, s) = attrs_in cb y rest (e', f s)"
    unfolding attrs_in_def append_assoc l by (subst attr_loop_step [OF assms(1)]) auto
qed

lemma parse_nested_in:
  assumes "attr_fits t x" "4 dvd length x"
  shows "mnl_attr_parse_nested (attr_bytes t x @ r) cb st = attrs_in cb x r st"
  using assms by (simp add: mnl_attr_parse_nested_def attrs_in_def attr_parts)

lemma parse_nested_does:
  assumes "attr_fits t x" "4 dvd length x" "does cb x f"
  shows "\<exists>e'. mnl_attr_parse_nested (attr_bytes t x @ r) cb (e, s) = (MNL_CB_OK, e', f s)"
  using doesD [OF assms(3)] by (simp add: parse_nested_in [OF assms(1,2)])

text \<open>Fields of the sizes of the machine integers.\<close>

lemma of_le_word:
  "of_le (le_bytes 1 (unat b)) = unat (b :: u8)" "of_le (le_bytes 2 (unat w)) = unat (w :: u16)"
  "of_le (le_bytes 4 (unat x)) = unat (x :: u32)"
  using unsigned_less [of b, where 'a = nat] unsigned_less [of w, where 'a = nat] unsigned_less [of x, where 'a = nat]
  by (simp_all add: of_le_le_bytes)

lemma num_fam_fam_num [simp]: "f = AF_INET \<or> f = AF_INET6 \<Longrightarrow> num_fam (fam_num f) = f"
  by (auto simp: num_fam_def fam_num_def)

section \<open>Allowed addresses\<close>

text \<open>An address with zeros behind it in its union.\<close>

definition clean_ip :: "wgallowedip \<Rightarrow> bool" where
  "clean_ip a \<longleftrightarrow> wf_allowedip a \<and> a_ip a = store_ip (ip_bytes a) (replicate 16 0)"

lemma does_ip_attrs:
  assumes "clean_ip a"
  shows "does parse_allowedip_cb (enc (ip_attrs a))
    (\<lambda>s. s\<lparr>a_family := a_family a, a_ip := store_ip (ip_bytes a) (a_ip s), a_cidr := a_cidr a\<rparr>)"
proof -
  from assms have f: "a_family a = AF_INET \<or> a_family a = AF_INET6" and l: "length (a_ip a) = 16"
    by (auto simp: clean_ip_def wf_allowedip_def)
  have len: "length (ip_bytes a) = addr_len (a_family a)" "addr_len (a_family a) = 4 \<or> addr_len (a_family a) = 16"
    using f l by (auto simp: ip_bytes_def addr_len_def)
  have fits: "t < 4 \<Longrightarrow> k < 4 \<Longrightarrow> attr_fits t (le_bytes k v)" "t < 4 \<Longrightarrow> attr_fits t (ip_bytes a)"
    "t < 4 \<Longrightarrow> attr_fits t [b]" for t k v b
    using len by (auto simp: attr_fits_def)
  have fam: "fam_num (a_family a) mod 65536 = fam_num (a_family a)" using f by (auto simp: fam_num_def)
  have 1: "does parse_allowedip_cb (attr_bytes WGALLOWEDIP_A_FAMILY (le_bytes 2 (fam_num (a_family a)))) (\<lambda>s. s\<lparr>a_family := a_family a\<rparr>)"
    using f by (intro does_attr fits)
      (simp_all add: parse_allowedip_cb_def when_valid_def attr_parts attr_valid attr_numbers fits mnl_attr_data_type_len_def
        of_le_le_bytes fam)
  have 2: "does parse_allowedip_cb (attr_bytes WGALLOWEDIP_A_IPADDR (ip_bytes a)) (\<lambda>s. s\<lparr>a_ip := store_ip (ip_bytes a) (a_ip s)\<rparr>)"
    using len by (intro does_attr fits) (auto simp: parse_allowedip_cb_def attr_parts fits)
  have 3: "does parse_allowedip_cb (attr_bytes WGALLOWEDIP_A_CIDR_MASK (le_bytes 1 (unat (a_cidr a)))) (\<lambda>s. s\<lparr>a_cidr := a_cidr a\<rparr>)"
    by (intro does_attr fits)
      (simp_all add: parse_allowedip_cb_def when_valid_def attr_parts attr_valid attr_numbers fits mnl_attr_data_type_len_def of_le_word)
  show ?thesis
    using does_cong [OF does_append [OF 1 does_append [OF 2 3]]] f by (auto simp: ip_attrs_def)
qed

lemma parse_allowedips_ip:
  assumes "clean_ip a" "attr_fits NLA_F_NESTED (enc (ip_attrs a))"
  shows "does parse_allowedips_cb (ip_enc a) (\<lambda>p. p\<lparr>first_allowedip := first_allowedip p @ [a]\<rparr>)"
  unfolding ip_enc_def
proof (rule does_attr [OF assms(2)])
  fix r e and p :: wgpeer
  from assms(1) have z: "zero_allowedip\<lparr>a_family := a_family a, a_ip := store_ip (ip_bytes a) (a_ip zero_allowedip), a_cidr := a_cidr a\<rparr> = a"
    by (cases a) (simp add: clean_ip_def zero_allowedip_def)
  from parse_nested_does [OF assms(2) _ does_ip_attrs [OF assms(1)], of r e zero_allowedip] obtain e' where
    e': "mnl_attr_parse_nested (attr_bytes NLA_F_NESTED (enc (ip_attrs a)) @ r) parse_allowedip_cb (e, zero_allowedip) = (MNL_CB_OK, e', a)"
    by (auto simp: z)
  have "a_family a = AF_INET \<and> a_cidr a \<le> 32 \<or> a_family a = AF_INET6 \<and> a_cidr a \<le> 128"
    using assms(1) by (auto simp: clean_ip_def wf_allowedip_def max_cidr_def word_le_nat_alt)
  with e' show "\<exists>e'. parse_allowedips_cb (attr_bytes NLA_F_NESTED (enc (ip_attrs a)) @ r) (e, p) =
      (MNL_CB_OK, e', p\<lparr>first_allowedip := first_allowedip p @ [a]\<rparr>)"
    by (auto simp: parse_allowedips_cb_def)
qed

lemma ip_attrs_fits: "attr_fits NLA_F_NESTED (enc (ip_attrs a))"
  using length_ip_enc [of a] by (simp add: attr_fits_def ip_enc_def MNL_ALIGN_mult)

lemma does_ips:
  "list_all clean_ip as \<Longrightarrow>
   does parse_allowedips_cb (concat (map ip_enc as)) (\<lambda>p. p\<lparr>first_allowedip := first_allowedip p @ as\<rparr>)"
proof (induction as)
  case Nil
  have "does parse_allowedips_cb [] (\<lambda>p. p)" by (rule does_Nil)
  then show ?case by (auto intro: does_cong)
next
  case (Cons a as)
  then have "does parse_allowedips_cb (ip_enc a @ concat (map ip_enc as))
      (\<lambda>p. (\<lambda>p. p\<lparr>first_allowedip := first_allowedip p @ as\<rparr>) (p\<lparr>first_allowedip := first_allowedip p @ [a]\<rparr>))"
    by (intro does_append parse_allowedips_ip ip_attrs_fits) simp_all
  then show ?case by (auto intro: does_cong)
qed

section \<open>Peers\<close>

text \<open>An endpoint that is determined by the bytes of its structure.\<close>

definition clean_endpoint :: "wgpeer \<Rightarrow> bool" where
  "clean_endpoint p \<longleftrightarrow> (sa_fam (endpoint p) = AF_INET \<longrightarrow> sa_flowinfo (endpoint p) = 0 \<and> sa_scope (endpoint p) = 0)"

definition clean_peer :: "wgpeer \<Rightarrow> bool" where
  "clean_peer p \<longleftrightarrow> sized_peer p \<and> clean_endpoint p \<and> list_all clean_ip (first_allowedip p)"

lemma sockaddr_of_bytes:
  assumes "sized_peer p" "clean_endpoint p" "has_endpoint p"
  shows "sockaddr_of (sockaddr_bytes (endpoint p)) = endpoint p"
    and "field_at (sockaddr_bytes (endpoint p) @ r) 0 2 = fam_num (sa_fam (endpoint p))"
proof -
  let ?sa = "endpoint p"
  have port: "of_nat (of_le (le_bytes 2 (unat (sa_port ?sa)))) = sa_port ?sa"
    "of_nat (of_le (le_bytes 4 (unat x))) = x" for x :: u32
    by (simp_all add: of_le_word del: le_bytes.simps)
  have fam: "field_at (sockaddr_bytes ?sa @ r) 0 2 = fam_num (sa_fam ?sa)" for r
    using assms(3) by (auto simp: field_at_def sockaddr_bytes_def of_le_le_bytes has_endpoint_def fam_num_def)
  have l: "length (sa_addr ?sa) = addr_len (sa_fam ?sa)" using assms(1,3) by (simp add: sized_peer_def)
  show "sockaddr_of (sockaddr_bytes ?sa) = ?sa"
  proof (cases "sa_fam ?sa = AF_INET")
    case True
    with assms(2) l port(1) fam [of "[]"] show ?thesis
      by (cases ?sa) (simp add: sockaddr_of_def clean_endpoint_def addr_len_def, simp add: sockaddr_bytes_def)
  next
    case False
    with assms(3) have f: "sa_fam ?sa = AF_INET6" by (simp add: has_endpoint_def)
    with l port fam [of "[]"] show ?thesis
      by (cases ?sa) (simp add: sockaddr_of_def addr_len_def, simp add: sockaddr_bytes_def field_at_def)
  qed
  show "field_at (sockaddr_bytes ?sa @ r) 0 2 = fam_num (sa_fam ?sa)" by (rule fam)
qed

lemma does_must: "(b \<Longrightarrow> does cb (attr_bytes t d) f) \<Longrightarrow> does cb (enc (must_if b t d)) (\<lambda>s. if b then f s else s)"
  using does_Nil by (auto simp: must_if_def)

lemma peer_attr_fits: "t < 16 \<Longrightarrow> length d \<le> 32 \<Longrightarrow> attr_fits t d"
  by (simp add: attr_fits_def)

lemmas peer_attr_simps = parse_peer_cb_def when_valid_def when_len_def attr_parts attr_valid attr_numbers
  peer_attr_fits mnl_attr_data_type_len_def of_le_word

lemma does_public_key:
  assumes "length k = WG_KEY_LEN"
  shows "does parse_peer_cb (attr_bytes WGPEER_A_PUBLIC_KEY k)
    (\<lambda>p. p\<lparr>peer_public_key := k, peer_flags := peer_flags p OR WGPEER_HAS_PUBLIC_KEY\<rparr>)"
  using assms by (intro does_attr peer_attr_fits) (simp_all add: peer_attr_simps)

lemma does_psk:
  assumes "length k = WG_KEY_LEN"
  shows "does parse_peer_cb (attr_bytes WGPEER_A_PRESHARED_KEY k)
    (\<lambda>p. p\<lparr>preshared_key := k, peer_flags := peer_flags p OR flag_if (\<not> key_is_zero k) WGPEER_HAS_PRESHARED_KEY\<rparr>)"
  using assms by (intro does_attr peer_attr_fits) (simp_all add: peer_attr_simps flag_if_def)

lemma does_endpoint:
  assumes "clean_peer q" "has_endpoint q"
  shows "does parse_peer_cb (attr_bytes WGPEER_A_ENDPOINT (sockaddr_bytes (endpoint q))) (\<lambda>p. p\<lparr>endpoint := endpoint q\<rparr>)"
proof -
  from assms have s: "sized_peer q" "clean_endpoint q" by (simp_all add: clean_peer_def)
  note l = length_sockaddr [OF s(1) assms(2)]
  have "sockaddr_len (endpoint q) \<le> 28" by (rule sockaddr_len_le)
  then have fits: "attr_fits WGPEER_A_ENDPOINT (sockaddr_bytes (endpoint q))" by (intro peer_attr_fits) (simp_all add: l)
  from assms(2) have "sa_fam (endpoint q) = AF_INET \<or> sa_fam (endpoint q) = AF_INET6" by (simp add: has_endpoint_def)
  then show ?thesis
    by (intro does_attr fits)
      (auto simp: parse_peer_cb_def parse_endpoint_attr_def attr_parts [OF fits] sockaddr_of_bytes [OF s assms(2)] l sockaddr_len_def)
qed

lemma does_keepalive:
  "does parse_peer_cb (attr_bytes WGPEER_A_PERSISTENT_KEEPALIVE_INTERVAL (le_bytes 2 (unat v)))
     (\<lambda>p. p\<lparr>persistent_keepalive_interval := v\<rparr>)"
  by (intro does_attr peer_attr_fits) (simp_all add: peer_attr_simps)

lemma does_awg: "does parse_peer_cb (attr_bytes WGPEER_A_AWG []) (\<lambda>p. p\<lparr>awg := True, peer_flags := peer_flags p OR WGPEER_HAS_AWG\<rparr>)"
  by (intro does_attr peer_attr_fits) (simp_all add: peer_attr_simps)

lemma does_flags:
  assumes "v < 2 ^ 32"
  shows "does parse_peer_cb (attr_bytes WGPEER_A_FLAGS (le_bytes 4 v))
    (\<lambda>p. if odd (v div WGPEER_F_HAS_AWG) \<and> \<not> has (peer_flags p) WGPEER_HAS_AWG
         then p\<lparr>peer_flags := peer_flags p OR WGPEER_HAS_AWG, awg := False\<rparr> else p)"
  using assms by (intro does_attr peer_attr_fits) (simp_all add: peer_attr_simps of_le_le_bytes)

text \<open>The peer that is read from a fragment.\<close>

definition frag_image :: "frag \<Rightarrow> wgpeer" where
  "frag_image f =
     (let p = f_peer f; on = (\<lambda>g. \<not> f_continued f \<and> has (peer_flags p) g) in zero_peer\<lparr>
        peer_flags := WGPEER_HAS_PUBLIC_KEY
          OR flag_if (on WGPEER_HAS_PRESHARED_KEY \<and> \<not> key_is_zero (preshared_key p)) WGPEER_HAS_PRESHARED_KEY
          OR flag_if (has (peer_flags p) WGPEER_HAS_AWG) WGPEER_HAS_AWG,
        peer_public_key := peer_public_key p,
        preshared_key := (if on WGPEER_HAS_PRESHARED_KEY then preshared_key p else zero_key),
        endpoint := (if \<not> f_continued f \<and> has_endpoint p then endpoint p else zero_sockaddr),
        persistent_keepalive_interval :=
          (if on WGPEER_HAS_PERSISTENT_KEEPALIVE_INTERVAL then persistent_keepalive_interval p else 0),
        awg := has (peer_flags p) WGPEER_HAS_AWG \<and> awg p,
        first_allowedip := f_ips f\<rparr>)"

text \<open>The effect of each attribute as one update, whether it is there or not.\<close>

lemma does_peer_updates:
  assumes "clean_peer p"
  shows "does parse_peer_cb (enc (must_if True WGPEER_A_PUBLIC_KEY (peer_public_key p)))
      (\<lambda>s. peer_public_key_update (\<lambda>_. peer_public_key p) (peer_flags_update (\<lambda>f. f OR WGPEER_HAS_PUBLIC_KEY) s))"
    and "does parse_peer_cb (enc (must_if b WGPEER_A_PRESHARED_KEY (preshared_key p)))
      (\<lambda>s. preshared_key_update (\<lambda>x. if b then preshared_key p else x)
        (peer_flags_update (\<lambda>f. f OR flag_if (b \<and> \<not> key_is_zero (preshared_key p)) WGPEER_HAS_PRESHARED_KEY) s))"
    and "does parse_peer_cb (enc (must_if (\<not> c \<and> has_endpoint p) WGPEER_A_ENDPOINT (sockaddr_bytes (endpoint p))))
      (\<lambda>s. endpoint_update (\<lambda>x. if \<not> c \<and> has_endpoint p then endpoint p else x) s)"
    and "does parse_peer_cb (enc (must_if b WGPEER_A_PERSISTENT_KEEPALIVE_INTERVAL (le_bytes 2 (unat v))))
      (\<lambda>s. persistent_keepalive_interval_update (\<lambda>x. if b then v else x) s)"
proof -
  from assms have len: "length (peer_public_key p) = WG_KEY_LEN" "length (preshared_key p) = WG_KEY_LEN"
    by (simp_all add: clean_peer_def sized_peer_def)
  show "does parse_peer_cb (enc (must_if True WGPEER_A_PUBLIC_KEY (peer_public_key p)))
      (\<lambda>s. peer_public_key_update (\<lambda>_. peer_public_key p) (peer_flags_update (\<lambda>f. f OR WGPEER_HAS_PUBLIC_KEY) s))"
    by (rule does_cong [OF does_must [OF does_public_key [OF len(1)]]]) simp
  show "does parse_peer_cb (enc (must_if b WGPEER_A_PRESHARED_KEY (preshared_key p)))
      (\<lambda>s. preshared_key_update (\<lambda>x. if b then preshared_key p else x)
        (peer_flags_update (\<lambda>f. f OR flag_if (b \<and> \<not> key_is_zero (preshared_key p)) WGPEER_HAS_PRESHARED_KEY) s))"
    by (rule does_cong [OF does_must [OF does_psk [OF len(2)]]]) (simp add: flag_if_def)
  show "does parse_peer_cb (enc (must_if (\<not> c \<and> has_endpoint p) WGPEER_A_ENDPOINT (sockaddr_bytes (endpoint p))))
      (\<lambda>s. endpoint_update (\<lambda>x. if \<not> c \<and> has_endpoint p then endpoint p else x) s)"
    by (rule does_cong [OF does_must [OF does_endpoint [OF assms]]]) simp_all
  show "does parse_peer_cb (enc (must_if b WGPEER_A_PERSISTENT_KEEPALIVE_INTERVAL (le_bytes 2 (unat v))))
      (\<lambda>s. persistent_keepalive_interval_update (\<lambda>x. if b then v else x) s)"
    by (rule does_cong [OF does_must [OF does_keepalive]]) simp
qed

lemma does_awg_flags:
  "does parse_peer_cb (enc ((if has (peer_flags p) WGPEER_HAS_AWG \<and> awg p then [(False, WGPEER_A_AWG, [])] else []) @
      must_if (wgpeer_f p c \<noteq> 0) WGPEER_A_FLAGS (le_bytes 4 (wgpeer_f p c))))
    (\<lambda>s. peer_flags_update (\<lambda>f. f OR flag_if (has (peer_flags p) WGPEER_HAS_AWG) WGPEER_HAS_AWG)
      (awg_update (\<lambda>x. if has (peer_flags p) WGPEER_HAS_AWG then awg p \<or> has (peer_flags s) WGPEER_HAS_AWG \<and> x else x) s))"
proof -
  have awg: "does parse_peer_cb (enc (if has (peer_flags p) WGPEER_HAS_AWG \<and> awg p then [(False, WGPEER_A_AWG, [])] else []))
      (\<lambda>s. if has (peer_flags p) WGPEER_HAS_AWG \<and> awg p then s\<lparr>awg := True, peer_flags := peer_flags s OR WGPEER_HAS_AWG\<rparr> else s)"
    using does_awg does_Nil by auto
  have "wgpeer_f p c < 2 ^ 32" by (simp add: wgpeer_f_def)
  note fl = does_must [where b = "wgpeer_f p c \<noteq> 0", OF does_flags [OF this]]
  have odd: "odd (wgpeer_f p c div WGPEER_F_HAS_AWG) \<longleftrightarrow> has (peer_flags p) WGPEER_HAS_AWG"
    "has (peer_flags p) WGPEER_HAS_AWG \<Longrightarrow> wgpeer_f p c \<noteq> 0"
    by (simp_all add: wgpeer_f_def)
  have h: "has WGPEER_HAS_AWG WGPEER_HAS_AWG" by (simp add: has_def flag_defs)
  have has_eq: "has f WGPEER_HAS_AWG \<Longrightarrow> f OR WGPEER_HAS_AWG = f" for f
  proof -
    assume "has f WGPEER_HAS_AWG"
    moreover have awg: "WGPEER_HAS_AWG = 2 ^ 5" by (simp add: flag_defs)
    ultimately have "bit f 5" unfolding has_def awg by (simp add: and_exp_eq_0_iff_not_bit del: power_numeral)
    then show ?thesis unfolding awg by (intro bit_word_eqI) (auto simp: bit_or_iff bit_exp_iff simp del: power_numeral)
  qed
  show ?thesis unfolding enc_simps
    by (rule does_cong [OF does_append [OF awg fl]])
      (auto simp: odd h flag_if_def has_eq)
qed

lemma does_peer_attrs:
  assumes "clean_peer p"
  shows "\<exists>g. does parse_peer_cb (enc (peer_attrs p c)) g \<and>
    g zero_peer = frag_image \<lparr>f_peer = p, f_continued = c, f_list = l, f_ips = []\<rparr>"
proof -
  note u = does_peer_updates [OF assms]
  note all = does_append [OF u(1) does_append [OF u(2) [where b = "\<not> c \<and> has (peer_flags p) WGPEER_HAS_PRESHARED_KEY"]
    does_append [OF u(3) [where c = c] does_append [OF u(4) [where b = "\<not> c \<and> has (peer_flags p) WGPEER_HAS_PERSISTENT_KEEPALIVE_INTERVAL"
      and v = "persistent_keepalive_interval p"] does_awg_flags [of p c]]]]]
  have h: "\<not> has WGPEER_HAS_PUBLIC_KEY WGPEER_HAS_AWG" "\<not> has WGPEER_HAS_PRESHARED_KEY WGPEER_HAS_AWG"
    by (simp_all add: has_def flag_defs)
  have e: "enc (peer_attrs p c) = enc (must_if True WGPEER_A_PUBLIC_KEY (peer_public_key p)) @
     enc (must_if (\<not> c \<and> has (peer_flags p) WGPEER_HAS_PRESHARED_KEY) WGPEER_A_PRESHARED_KEY (preshared_key p)) @
     enc (must_if (\<not> c \<and> has_endpoint p) WGPEER_A_ENDPOINT (sockaddr_bytes (endpoint p))) @
     enc (must_if (\<not> c \<and> has (peer_flags p) WGPEER_HAS_PERSISTENT_KEEPALIVE_INTERVAL)
       WGPEER_A_PERSISTENT_KEEPALIVE_INTERVAL (le_bytes 2 (unat (persistent_keepalive_interval p)))) @
     enc ((if has (peer_flags p) WGPEER_HAS_AWG \<and> awg p then [(False, WGPEER_A_AWG, [])] else []) @
       must_if (wgpeer_f p c \<noteq> 0) WGPEER_A_FLAGS (le_bytes 4 (wgpeer_f p c)))"
    by (simp only: peer_attrs_def enc_simps append_assoc)
  show ?thesis unfolding e
    by (rule exI, rule conjI, rule all) (simp add: frag_image_def zero_peer_def flag_if_def h or.assoc Let_def)
qed

text \<open>A fragment that a message can hold.\<close>

definition clean_frag :: "frag \<Rightarrow> bool" where
  "clean_frag f \<longleftrightarrow> clean_peer (f_peer f) \<and> list_all clean_ip (f_ips f) \<and> frag_ok f"

lemma frag_image_ips: "frag_image f = (frag_image (f\<lparr>f_ips := []\<rparr>))\<lparr>first_allowedip := f_ips f\<rparr>"
  by (simp add: frag_image_def Let_def)

lemma does_frag_body:
  assumes "clean_frag f" "length (frag_body f) < 2 ^ 16 - 4"
  shows "\<exists>g. does parse_peer_cb (frag_body f) g \<and> g zero_peer = frag_image f"
proof -
  obtain p c l as where f: "f = \<lparr>f_peer = p, f_continued = c, f_list = l, f_ips = as\<rparr>" by (cases f)
  with assms(1) have p: "clean_peer p" "list_all clean_ip as" "as \<noteq> [] \<longrightarrow> l"
    by (simp_all add: clean_frag_def frag_ok_def)
  from does_peer_attrs [OF p(1), of c l] obtain g where
    g: "does parse_peer_cb (enc (peer_attrs p c)) g" "g zero_peer = frag_image (f\<lparr>f_ips := []\<rparr>)" by (auto simp: f)
  show ?thesis
  proof (cases l)
    case False
    with p(3) g frag_image_ips [of f] show ?thesis by (auto simp: f frag_body_def frag_image_def)
  next
    case True
    let ?x = "concat (map ip_enc as)"
    have "attr_fits (NLA_F_NESTED + WGPEER_A_ALLOWEDIPS) ?x" using assms(2) True by (simp add: attr_fits_def f frag_body_def)
    then have "does parse_peer_cb (attr_bytes (NLA_F_NESTED + WGPEER_A_ALLOWEDIPS) ?x) (\<lambda>p. p\<lparr>first_allowedip := first_allowedip p @ as\<rparr>)"
      using parse_nested_does [OF _ _ does_ips [OF p(2)]]
      by (intro does_attr) (simp_all add: parse_peer_cb_def attr_parts)
    from does_append [OF g(1) this]
    have "does parse_peer_cb (frag_body f) (\<lambda>s. (g s)\<lparr>first_allowedip := first_allowedip (g s) @ as\<rparr>)"
      using True by (simp add: f frag_body_def)
    moreover have "(g zero_peer)\<lparr>first_allowedip := first_allowedip (g zero_peer) @ as\<rparr> = frag_image f"
      unfolding g(2) by (subst (3) frag_image_ips) (simp add: f frag_image_def Let_def)
    ultimately show ?thesis by (intro exI conjI)
  qed
qed

lemma has_public_key_image: "has (peer_flags (frag_image f)) WGPEER_HAS_PUBLIC_KEY"
  by (simp add: frag_image_def Let_def) (simp add: has_def flag_defs)

lemma does_frag:
  assumes "clean_frag f" "length (frag_body f) < 2 ^ 16 - 4"
  shows "does parse_peers_cb (frag_enc f) (\<lambda>d. d\<lparr>first_peer := first_peer d @ [frag_image f]\<rparr>)"
  unfolding frag_enc_def
proof (rule does_attr)
  show fits: "attr_fits NLA_F_NESTED (frag_body f)" using assms(2) by (simp add: attr_fits_def)
  fix r e and d :: wgdevice
  obtain g where g: "does parse_peer_cb (frag_body f) g" "g zero_peer = frag_image f" using does_frag_body [OF assms] by blast
  have "4 dvd length (frag_body f)" by (simp add: frag_body_def)
  from parse_nested_does [OF fits this g(1), of r e zero_peer] obtain e' where
    "mnl_attr_parse_nested (attr_bytes NLA_F_NESTED (frag_body f) @ r) parse_peer_cb (e, zero_peer) = (MNL_CB_OK, e', frag_image f)"
    by (auto simp: g(2))
  then show "\<exists>e'. parse_peers_cb (attr_bytes NLA_F_NESTED (frag_body f) @ r) (e, d) =
      (MNL_CB_OK, e', d\<lparr>first_peer := first_peer d @ [frag_image f]\<rparr>)"
    by (simp add: parse_peers_cb_def has_public_key_image)
qed

lemma does_frags:
  "list_all clean_frag fs \<Longrightarrow> length (concat (map frag_enc fs)) < 2 ^ 16 \<Longrightarrow>
   does parse_peers_cb (concat (map frag_enc fs)) (\<lambda>d. d\<lparr>first_peer := first_peer d @ map frag_image fs\<rparr>)"
proof (induction fs)
  case Nil
  have "does parse_peers_cb [] (\<lambda>d. d)" by (rule does_Nil)
  then show ?case by (auto intro: does_cong)
next
  case (Cons f fs)
  have "4 dvd length (frag_body f)" by (simp add: frag_body_def)
  then have "length (frag_body f) < 2 ^ 16 - 4" using Cons.prems(2) by (simp add: frag_enc_def)
  from does_append [OF does_frag [OF _ this] Cons.IH] Cons.prems
  have "does parse_peers_cb (frag_enc f @ concat (map frag_enc fs))
      (\<lambda>d. (\<lambda>d. d\<lparr>first_peer := first_peer d @ map frag_image fs\<rparr>) (d\<lparr>first_peer := first_peer d @ [frag_image f]\<rparr>))"
    by simp
  then show ?case by (auto intro: does_cong)
qed

lemma does_peers:
  assumes "list_all clean_frag fs" "length (peers_attr fs) < 2 ^ 16"
  shows "does parse_device_cb (peers_attr fs) (\<lambda>d. d\<lparr>first_peer := first_peer d @ map frag_image fs\<rparr>)"
proof -
  let ?x = "concat (map frag_enc fs)"
  have l: "length ?x < 2 ^ 16" "attr_fits (NLA_F_NESTED + WGDEVICE_A_PEERS) ?x" using assms(2)
    by (simp_all add: peers_attr_def attr_fits_def)
  then show ?thesis
    using parse_nested_does [OF _ _ does_frags [OF assms(1) l(1)]]
    unfolding peers_attr_def by (intro does_attr) (simp_all add: parse_device_cb_def attr_parts)
qed

section \<open>The settings of the device\<close>

lemma does_setting:
  "(b \<Longrightarrow> does cb (attr_bytes t (the data)) f) \<Longrightarrow> does cb (settings (attr_if b t data)) (\<lambda>s. if b then f s else s)"
  using does_Nil by (auto simp: attr_if_def)

lemma dev_attr_fits: "t < 26 \<Longrightarrow> length d \<le> 5120 \<Longrightarrow> attr_fits t d"
  by (simp add: attr_fits_def)

lemma str_bytes_length [simp]: "length (str_bytes s) = length s"
  by (simp add: str_bytes_def)

lemmas dev_attr_simps = parse_device_cb_def when_valid_def when_len_def attr_parts attr_valid attr_numbers attr_string
  dev_attr_fits mnl_attr_data_type_len_def of_le_word

lemma does_u16:
  "does parse_device_cb (settings (attr_if b WGDEVICE_A_LISTEN_PORT (Some (le_bytes 2 (unat v)))))
     (\<lambda>s. listen_port_update (\<lambda>x. if b then v else x) s)"
  "does parse_device_cb (settings (attr_if b WGDEVICE_A_JC (Some (le_bytes 2 (unat v)))))
     (\<lambda>s. junk_packet_count_update (\<lambda>x. if b then v else x) (dev_flags_update (\<lambda>f. f OR flag_if b WGDEVICE_HAS_JC) s))"
  "does parse_device_cb (settings (attr_if b WGDEVICE_A_JMIN (Some (le_bytes 2 (unat v)))))
     (\<lambda>s. junk_packet_min_size_update (\<lambda>x. if b then v else x) (dev_flags_update (\<lambda>f. f OR flag_if b WGDEVICE_HAS_JMIN) s))"
  "does parse_device_cb (settings (attr_if b WGDEVICE_A_JMAX (Some (le_bytes 2 (unat v)))))
     (\<lambda>s. junk_packet_max_size_update (\<lambda>x. if b then v else x) (dev_flags_update (\<lambda>f. f OR flag_if b WGDEVICE_HAS_JMAX) s))"
  "does parse_device_cb (settings (attr_if b WGDEVICE_A_S1 (Some (le_bytes 2 (unat v)))))
     (\<lambda>s. init_packet_junk_size_update (\<lambda>x. if b then v else x) (dev_flags_update (\<lambda>f. f OR flag_if b WGDEVICE_HAS_S1) s))"
  "does parse_device_cb (settings (attr_if b WGDEVICE_A_S2 (Some (le_bytes 2 (unat v)))))
     (\<lambda>s. response_packet_junk_size_update (\<lambda>x. if b then v else x) (dev_flags_update (\<lambda>f. f OR flag_if b WGDEVICE_HAS_S2) s))"
  "does parse_device_cb (settings (attr_if b WGDEVICE_A_S3 (Some (le_bytes 2 (unat v)))))
     (\<lambda>s. cookie_reply_packet_junk_size_update (\<lambda>x. if b then v else x) (dev_flags_update (\<lambda>f. f OR flag_if b WGDEVICE_HAS_S3) s))"
  "does parse_device_cb (settings (attr_if b WGDEVICE_A_S4 (Some (le_bytes 2 (unat v)))))
     (\<lambda>s. transport_packet_junk_size_update (\<lambda>x. if b then v else x) (dev_flags_update (\<lambda>f. f OR flag_if b WGDEVICE_HAS_S4) s))"
  by (rule does_cong, rule does_setting, rule does_attr, simp add: dev_attr_fits, simp add: dev_attr_simps,
      simp add: flag_if_def)+

lemma does_fwmark:
  "does parse_device_cb (settings (attr_if b WGDEVICE_A_FWMARK (Some (le_bytes 4 (unat v))))) (\<lambda>s. fwmark_update (\<lambda>x. if b then v else x) s)"
  by (rule does_cong, rule does_setting, rule does_attr, simp add: dev_attr_fits, simp add: dev_attr_simps, simp)

lemma does_dev_flags: "does parse_device_cb (settings (attr_if b WGDEVICE_A_FLAGS (Some (le_bytes 4 v)))) (\<lambda>s. s)"
  by (rule does_cong, rule does_setting, rule does_attr, simp add: dev_attr_fits, simp add: dev_attr_simps, simp)

lemma does_private_key:
  "length k = WG_KEY_LEN \<Longrightarrow> does parse_device_cb (settings (attr_if b WGDEVICE_A_PRIVATE_KEY (Some k)))
     (\<lambda>s. private_key_update (\<lambda>x. if b then k else x) (dev_flags_update (\<lambda>f. f OR flag_if b WGDEVICE_HAS_PRIVATE_KEY) s))"
  by (rule does_cong, rule does_setting, rule does_attr, simp add: dev_attr_fits, simp add: dev_attr_simps, simp add: flag_if_def)

text \<open>A string that is announced is there and within the limit of the configuration; a magic header is besides not mistaken for a number, or is
  one when the kernel takes only numbers.\<close>

definition string_ok :: "bool \<Rightarrow> string option \<Rightarrow> bool" where
  "string_ok b v \<longleftrightarrow> (b \<longrightarrow> (\<exists>s. v = Some s \<and> NUL \<notin> set s \<and> length s < MAX_AWG_STRING_LEN))"

definition header_ok :: "nat \<Rightarrow> bool \<Rightarrow> string option \<Rightarrow> bool" where
  "header_ok version b v \<longleftrightarrow> string_ok b v \<and>
     (b \<longrightarrow> (if version \<ge> 2 then length (the v) \<noteq> 3 else (\<exists>n < 2 ^ 32. v = Some (udec n))))"

lemma does_strz:
  assumes "string_ok b v" "t < 26"
    and "\<And>attr e s. mnl_attr_get_type attr = t \<Longrightarrow>
      parse_device_cb attr (e, s) = when_valid attr MNL_TYPE_NUL_STRING (store (Some (mnl_attr_get_str attr))) (e, s)"
  shows "does parse_device_cb (settings (attr_if b t (map_option (\<lambda>s. str_bytes s @ [0]) v))) (\<lambda>s. if b then store v s else s)"
proof (rule does_setting)
  assume b
  with assms(1) obtain s where s: "v = Some s" "NUL \<notin> set s" "length s < MAX_AWG_STRING_LEN" by (auto simp: string_ok_def)
  from s(3) assms(2) have "attr_fits t (str_bytes s @ [0])" by (intro dev_attr_fits) simp_all
  then show "does parse_device_cb (attr_bytes t (the (map_option (\<lambda>s. str_bytes s @ [0]) v))) (store v)"
    using s(1,2) assms(2,3) by (simp, intro does_attr) (simp_all add: when_valid_def attr_parts attr_valid attr_string)
qed

lemma does_string:
  assumes "string_ok b v"
  shows "does parse_device_cb (settings (attr_if b WGDEVICE_A_I1 (map_option (\<lambda>s. str_bytes s @ [0]) v)))
      (\<lambda>s. i1_update (\<lambda>x. if b then v else x) (dev_flags_update (\<lambda>f. f OR flag_if b WGDEVICE_HAS_I1) s))"
    and "does parse_device_cb (settings (attr_if b WGDEVICE_A_I2 (map_option (\<lambda>s. str_bytes s @ [0]) v)))
      (\<lambda>s. i2_update (\<lambda>x. if b then v else x) (dev_flags_update (\<lambda>f. f OR flag_if b WGDEVICE_HAS_I2) s))"
    and "does parse_device_cb (settings (attr_if b WGDEVICE_A_I3 (map_option (\<lambda>s. str_bytes s @ [0]) v)))
      (\<lambda>s. i3_update (\<lambda>x. if b then v else x) (dev_flags_update (\<lambda>f. f OR flag_if b WGDEVICE_HAS_I3) s))"
    and "does parse_device_cb (settings (attr_if b WGDEVICE_A_I4 (map_option (\<lambda>s. str_bytes s @ [0]) v)))
      (\<lambda>s. i4_update (\<lambda>x. if b then v else x) (dev_flags_update (\<lambda>f. f OR flag_if b WGDEVICE_HAS_I4) s))"
    and "does parse_device_cb (settings (attr_if b WGDEVICE_A_I5 (map_option (\<lambda>s. str_bytes s @ [0]) v)))
      (\<lambda>s. i5_update (\<lambda>x. if b then v else x) (dev_flags_update (\<lambda>f. f OR flag_if b WGDEVICE_HAS_I5) s))"
  by (rule does_cong [OF does_strz [OF assms]], simp, simp add: parse_device_cb_def Let_def, simp add: flag_if_def)+

lemma does_header_attr:
  assumes "header_ok version b v" "t < 26"
    and "\<And>attr e s. mnl_attr_get_type attr = t \<Longrightarrow>
      parse_device_cb attr (e, s) = GET_MAGIC_HEADER attr (\<lambda>h. store (Some h)) (e, s)"
  shows "does parse_device_cb (settings (attr_if b t (put_magic_header_attr version v))) (\<lambda>s. if b then store v s else s)"
proof (rule does_setting)
  assume b
  with assms(1) obtain s where s: "v = Some s" "NUL \<notin> set s" "length s < MAX_AWG_STRING_LEN"
      "if version \<ge> 2 then length s \<noteq> 3 else (\<exists>n < 2 ^ 32. s = udec n)"
    by (auto simp: header_ok_def string_ok_def split: if_splits)
  show "does parse_device_cb (attr_bytes t (the (put_magic_header_attr version v))) (store v)"
  proof (cases "version \<ge> 2")
    case True
    from s(3) assms(2) have fits: "attr_fits t (str_bytes s @ [0])" by (intro dev_attr_fits) simp_all
    have "does parse_device_cb (attr_bytes t (str_bytes s @ [0])) (store v)"
      using s True assms(2,3) fits
      by (intro does_attr) (simp_all add: GET_MAGIC_HEADER_def when_valid_def attr_parts attr_valid attr_string mnl_attr_data_type_len_def)
    with True s(1) show ?thesis by (simp add: put_magic_header_attr_def)
  next
    case False
    with s(4) obtain n where n: "n < 2 ^ 32" "s = udec n" by auto
    have fits: "attr_fits t (le_bytes 4 n)" using assms(2) by (intro dev_attr_fits) simp_all
    have "does parse_device_cb (attr_bytes t (le_bytes 4 n)) (store v)"
      using n s(1) assms(2,3) fits
      by (intro does_attr)
        (simp_all add: GET_MAGIC_HEADER_def attr_parts attr_valid attr_numbers mnl_attr_data_type_len_def of_le_le_bytes)
    moreover have "fst (strtoul 10 s) = n" using n by (simp add: strtou_udec_all)
    ultimately show ?thesis using False s(1) n(1) by (simp add: put_magic_header_attr_def)
  qed
qed

lemma does_header:
  assumes "header_ok version b v"
  shows "does parse_device_cb (settings (attr_if b WGDEVICE_A_H1 (put_magic_header_attr version v)))
      (\<lambda>s. init_packet_magic_header_update (\<lambda>x. if b then v else x) (dev_flags_update (\<lambda>f. f OR flag_if b WGDEVICE_HAS_H1) s))"
    and "does parse_device_cb (settings (attr_if b WGDEVICE_A_H2 (put_magic_header_attr version v)))
      (\<lambda>s. response_packet_magic_header_update (\<lambda>x. if b then v else x) (dev_flags_update (\<lambda>f. f OR flag_if b WGDEVICE_HAS_H2) s))"
    and "does parse_device_cb (settings (attr_if b WGDEVICE_A_H3 (put_magic_header_attr version v)))
      (\<lambda>s. underload_packet_magic_header_update (\<lambda>x. if b then v else x) (dev_flags_update (\<lambda>f. f OR flag_if b WGDEVICE_HAS_H3) s))"
    and "does parse_device_cb (settings (attr_if b WGDEVICE_A_H4 (put_magic_header_attr version v)))
      (\<lambda>s. transport_packet_magic_header_update (\<lambda>x. if b then v else x) (dev_flags_update (\<lambda>f. f OR flag_if b WGDEVICE_HAS_H4) s))"
  by (rule does_cong [OF does_header_attr [OF assms]], simp, simp add: parse_device_cb_def Let_def, simp add: flag_if_def)+

text \<open>The device that is read, without its peers: the settings that are announced, the rest zero.  The kernel's answers carry no
  flag for the port and the firewall mark.\<close>

definition kernel_image :: "wgdevice \<Rightarrow> wgdevice" where
  "kernel_image d =
     (let on = has (dev_flags d) in zero_device\<lparr>
        dev_name := dev_name d,
        dev_flags := flag_if (on WGDEVICE_HAS_PRIVATE_KEY) WGDEVICE_HAS_PRIVATE_KEY
          OR flag_if (on WGDEVICE_HAS_JC) WGDEVICE_HAS_JC
          OR flag_if (on WGDEVICE_HAS_JMIN) WGDEVICE_HAS_JMIN
          OR flag_if (on WGDEVICE_HAS_JMAX) WGDEVICE_HAS_JMAX
          OR flag_if (on WGDEVICE_HAS_S1) WGDEVICE_HAS_S1
          OR flag_if (on WGDEVICE_HAS_S2) WGDEVICE_HAS_S2
          OR flag_if (on WGDEVICE_HAS_S3) WGDEVICE_HAS_S3
          OR flag_if (on WGDEVICE_HAS_S4) WGDEVICE_HAS_S4
          OR flag_if (on WGDEVICE_HAS_H1) WGDEVICE_HAS_H1
          OR flag_if (on WGDEVICE_HAS_H2) WGDEVICE_HAS_H2
          OR flag_if (on WGDEVICE_HAS_H3) WGDEVICE_HAS_H3
          OR flag_if (on WGDEVICE_HAS_H4) WGDEVICE_HAS_H4
          OR flag_if (on WGDEVICE_HAS_I1) WGDEVICE_HAS_I1
          OR flag_if (on WGDEVICE_HAS_I2) WGDEVICE_HAS_I2
          OR flag_if (on WGDEVICE_HAS_I3) WGDEVICE_HAS_I3
          OR flag_if (on WGDEVICE_HAS_I4) WGDEVICE_HAS_I4
          OR flag_if (on WGDEVICE_HAS_I5) WGDEVICE_HAS_I5,
        private_key := (if on WGDEVICE_HAS_PRIVATE_KEY then private_key d else zero_key),
        listen_port := (if on WGDEVICE_HAS_LISTEN_PORT then listen_port d else 0),
        fwmark := (if on WGDEVICE_HAS_FWMARK then fwmark d else 0),
        junk_packet_count := (if on WGDEVICE_HAS_JC then junk_packet_count d else 0),
        junk_packet_min_size := (if on WGDEVICE_HAS_JMIN then junk_packet_min_size d else 0),
        junk_packet_max_size := (if on WGDEVICE_HAS_JMAX then junk_packet_max_size d else 0),
        init_packet_junk_size := (if on WGDEVICE_HAS_S1 then init_packet_junk_size d else 0),
        response_packet_junk_size := (if on WGDEVICE_HAS_S2 then response_packet_junk_size d else 0),
        cookie_reply_packet_junk_size := (if on WGDEVICE_HAS_S3 then cookie_reply_packet_junk_size d else 0),
        transport_packet_junk_size := (if on WGDEVICE_HAS_S4 then transport_packet_junk_size d else 0),
        init_packet_magic_header := (if on WGDEVICE_HAS_H1 then init_packet_magic_header d else None),
        response_packet_magic_header := (if on WGDEVICE_HAS_H2 then response_packet_magic_header d else None),
        underload_packet_magic_header := (if on WGDEVICE_HAS_H3 then underload_packet_magic_header d else None),
        transport_packet_magic_header := (if on WGDEVICE_HAS_H4 then transport_packet_magic_header d else None),
        i1 := (if on WGDEVICE_HAS_I1 then i1 d else None), i2 := (if on WGDEVICE_HAS_I2 then i2 d else None),
        i3 := (if on WGDEVICE_HAS_I3 then i3 d else None), i4 := (if on WGDEVICE_HAS_I4 then i4 d else None),
        i5 := (if on WGDEVICE_HAS_I5 then i5 d else None)\<rparr>)"

text \<open>A device that can be sent and read back.\<close>

definition sendable :: "nat \<Rightarrow> wgdevice \<Rightarrow> bool" where
  "sendable version d \<longleftrightarrow> NUL \<notin> set (dev_name d) \<and> length (dev_name d) < IFNAMSIZ \<and> length (private_key d) = WG_KEY_LEN \<and>
     list_all (\<lambda>(f, v). header_ok version (has (dev_flags d) f) v)
       [(WGDEVICE_HAS_H1, init_packet_magic_header d), (WGDEVICE_HAS_H2, response_packet_magic_header d),
        (WGDEVICE_HAS_H3, underload_packet_magic_header d), (WGDEVICE_HAS_H4, transport_packet_magic_header d)] \<and>
     list_all (\<lambda>(f, v). string_ok (has (dev_flags d) f) v)
       [(WGDEVICE_HAS_I1, i1 d), (WGDEVICE_HAS_I2, i2 d), (WGDEVICE_HAS_I3, i3 d),
        (WGDEVICE_HAS_I4, i4 d), (WGDEVICE_HAS_I5, i5 d)] \<and>
     list_all clean_peer (first_peer d)"

lemma does_settings:
  assumes "sendable version d"
  shows "\<exists>g. does parse_device_cb (settings (device_attrs version d)) g \<and> g (zero_device\<lparr>dev_name := dev_name d\<rparr>) = kernel_image d"
proof -
  have key: "length (private_key d) = WG_KEY_LEN"
    and h: "header_ok version (has (dev_flags d) WGDEVICE_HAS_H1) (init_packet_magic_header d)"
      "header_ok version (has (dev_flags d) WGDEVICE_HAS_H2) (response_packet_magic_header d)"
      "header_ok version (has (dev_flags d) WGDEVICE_HAS_H3) (underload_packet_magic_header d)"
      "header_ok version (has (dev_flags d) WGDEVICE_HAS_H4) (transport_packet_magic_header d)"
    and i: "string_ok (has (dev_flags d) WGDEVICE_HAS_I1) (i1 d)" "string_ok (has (dev_flags d) WGDEVICE_HAS_I2) (i2 d)"
      "string_ok (has (dev_flags d) WGDEVICE_HAS_I3) (i3 d)" "string_ok (has (dev_flags d) WGDEVICE_HAS_I4) (i4 d)"
      "string_ok (has (dev_flags d) WGDEVICE_HAS_I5) (i5 d)"
    using assms by (simp_all add: sendable_def)
  note all = does_append [OF does_private_key [OF key] does_append [OF does_u16(1) does_append [OF does_u16(2)
    does_append [OF does_u16(3) does_append [OF does_u16(4) does_append [OF does_u16(5) does_append [OF does_u16(6)
    does_append [OF does_u16(7) does_append [OF does_u16(8) does_append [OF does_header(1) [OF h(1)]
    does_append [OF does_header(2) [OF h(2)] does_append [OF does_header(3) [OF h(3)] does_append [OF does_header(4) [OF h(4)]
    does_append [OF does_string(1) [OF i(1)] does_append [OF does_string(2) [OF i(2)] does_append [OF does_string(3) [OF i(3)]
    does_append [OF does_string(4) [OF i(4)] does_append [OF does_string(5) [OF i(5)] does_append [OF does_fwmark does_dev_flags]]]]]]]]]]]]]]]]]]]
  show ?thesis
    unfolding device_attrs_def Let_def settings_simps
    by (rule exI, rule conjI, rule all)
      (simp only: kernel_image_def Let_def zero_device_def wgdevice.update_convs or.left_neutral or.assoc)
qed

lemma does_name:
  assumes "NUL \<notin> set (dev_name d)" "length (dev_name d) < IFNAMSIZ"
  shows "does parse_device_cb (name_attr d) (\<lambda>s. s\<lparr>dev_name := dev_name d\<rparr>)"
proof -
  have "attr_fits WGDEVICE_A_IFNAME (str_bytes (dev_name d) @ [0])" using assms(2) by (intro dev_attr_fits) simp_all
  with assms show ?thesis unfolding name_attr_def
    by (intro does_attr) (simp_all add: parse_device_cb_def when_valid_def attr_parts attr_valid attr_string)
qed

section \<open>Reading the messages\<close>

text \<open>A message of a dump as it arrives, and the message that ends a dump.\<close>

definition reply :: "nat \<Rightarrow> nat \<Rightarrow> nat \<Rightarrow> bytes \<Rightarrow> bytes" where
  "reply type seq portid body = le_bytes 4 (16 + length body) @ le_bytes 2 type @ le_bytes 2 NLM_F_MULTI @
     le_bytes 4 seq @ le_bytes 4 portid @ body"

text \<open>The data of a message, behind its generic header, has an effect on the device.\<close>

definition body_does :: "bytes \<Rightarrow> (wgdevice \<Rightarrow> wgdevice) \<Rightarrow> bool" where
  "body_does b f \<longleftrightarrow> 4 \<le> length b \<and> length b < 2 ^ 16 \<and> 4 dvd length b \<and> does parse_device_cb (drop 4 b) f"

definition in_range :: "nat \<Rightarrow> nat \<Rightarrow> nat \<Rightarrow> bool" where
  "in_range type seq portid \<longleftrightarrow> type < 2 ^ 16 \<and> seq < 2 ^ 32 \<and> portid < 2 ^ 32"

lemma reply_fields:
  assumes "length b < 2 ^ 16" "in_range type seq portid"
  shows "field_at (reply type seq portid b @ r) 0 4 = 16 + length b" "field_at (reply type seq portid b @ r) 4 2 = type"
    "field_at (reply type seq portid b @ r) 6 2 = NLM_F_MULTI" "field_at (reply type seq portid b @ r) 8 4 = seq"
    "field_at (reply type seq portid b @ r) 12 4 = portid" "length (reply type seq portid b) = 16 + length b"
  using assms by (simp_all add: reply_def field_at_def of_le_le_bytes in_range_def)

lemma read_device_body:
  assumes "body_does b f" "in_range type seq portid"
  shows "\<exists>e'. read_device_cb (reply type seq portid b @ r) (e, s) = (MNL_CB_OK, e', f s)"
proof -
  from assms(1) have b: "4 \<le> length b" "length b < 2 ^ 16" "4 dvd length b" and f: "does parse_device_cb (drop 4 b) f"
    by (simp_all add: body_does_def)
  have "drop 20 (reply type seq portid b @ r) = drop 4 b @ r" using b(1) by (simp add: reply_def)
  moreover have "MNL_ALIGN (16 + length b) = 16 + length b" using b(3) by simp
  ultimately have "read_device_cb (reply type seq portid b @ r) (e, s) = attrs_in parse_device_cb (drop 4 b) r (e, s)"
    using b(1) by (simp add: read_device_cb_def mnl_attr_parse_def attrs_in_def reply_fields [OF b(2) assms(2)])
  with doesD [OF f] show ?thesis by simp
qed

text \<open>One message of a datagram.\<close>

lemma cb_run_reply:
  assumes "length b < 2 ^ 16" "4 dvd length b" "in_range type seq portid" "0 \<le> k" "cb_for (Some cb) ctl type = Some c"
  shows "mnl_cb_run (reply type seq portid b @ r) (int (16 + length b) + k) seq portid (Some cb) ctl ret st =
    (case c (reply type seq portid b @ r) st of (ret', st) \<Rightarrow>
       if ret' \<le> MNL_CB_STOP then (ret', st) else mnl_cb_run r k seq portid (Some cb) ctl ret' st)"
proof -
  note f = reply_fields [OF assms(1,3)]
  have "mnl_nlmsg_ok (reply type seq portid b @ r) (int (16 + length b) + k)" using assms(4) by (simp add: mnl_nlmsg_ok_def f)
  moreover have "drop (16 + length b) (reply type seq portid b @ r) = r" using f(6) by simp
  moreover have "MNL_ALIGN (16 + length b) = 16 + length b" using assms(2) by simp
  moreover obtain ret' st' where "c (reply type seq portid b @ r) st = (ret', st')"
    by (cases "c (reply type seq portid b @ r) st") auto
  ultimately show ?thesis
    by (subst mnl_cb_run.simps) (simp add: f(1-5) assms(5))
qed

lemma cb_run_end: "mnl_cb_run r 0 seq portid cb ctl ret st = (ret, st)"
  by (subst mnl_cb_run.simps) (simp add: mnl_nlmsg_ok_def)

lemma cb_run_bodies:
  assumes "list_all2 body_does bs fs" "in_range type seq portid" "NLMSG_MIN_TYPE \<le> type"
  shows "\<exists>e'. mnl_cb_run (concat (map (reply type seq portid) bs) @ r) (int (length (concat (map (reply type seq portid) bs))))
      seq portid (Some read_device_cb) ctl MNL_CB_OK (e, s) = (MNL_CB_OK, e', fold (\<lambda>f. f) fs s)"
  using assms(1)
proof (induction arbitrary: e s rule: list_all2_induct)
  case Nil
  show ?case by (simp add: cb_run_end)
next
  case (Cons b bs f fs)
  let ?R = "reply type seq portid"
  have b: "length b < 2 ^ 16" "4 dvd length b" using Cons.hyps(1) by (simp_all add: body_does_def)
  have len: "int (length (concat (map ?R (b # bs)))) = int (16 + length b) + int (length (concat (map ?R bs)))"
    using reply_fields(6) [OF b(1) assms(2)] by simp
  have c: "cb_for (Some read_device_cb) ctl type = Some read_device_cb" using assms(3) by (simp add: cb_for_def)
  obtain e1 where "read_device_cb (?R b @ concat (map ?R bs) @ r) (e, s) = (MNL_CB_OK, e1, f s)"
    using read_device_body [OF Cons.hyps(1) assms(2)] by blast
  with Cons.IH [of e1 "f s"] cb_run_reply [OF b assms(2) _ c, where k = "int (length (concat (map ?R bs)))" and r = "concat (map ?R bs) @ r"]
  show ?case unfolding len by simp
qed

text \<open>
  A socket on which the given datagrams arrive, each with messages that have the given data, and then the end of the dump.
\<close>

fun dumps :: "'w netlink \<Rightarrow> mnlg_socket \<Rightarrow> 'w \<Rightarrow> bytes list list \<Rightarrow> 'w \<Rightarrow> bool" where
  "dumps N nlg w [] w' \<longleftrightarrow>
     (case mnl_socket_recvfrom N w of
        (Inr (len, buf), w1) \<Rightarrow>
          (let r = reply NLMSG_DONE (nlg_seq nlg) (nlg_portid nlg) (le_bytes 4 0) in len = length r \<and> take len buf = r \<and> w1 = w')
      | _ \<Rightarrow> False)"
| "dumps N nlg w (bs # dgs) w' \<longleftrightarrow>
     (case mnl_socket_recvfrom N w of
        (Inr (len, buf), w1) \<Rightarrow>
          (let r = concat (map (reply (nlg_id nlg) (nlg_seq nlg) (nlg_portid nlg)) bs) in
           bs \<noteq> [] \<and> len = length r \<and> take len buf = r \<and> dumps N nlg w1 dgs w')
      | _ \<Rightarrow> False)"

lemma take_prefix: "take n buf = r \<Longrightarrow> n = length r \<Longrightarrow> \<exists>rest. buf = r @ rest"
  by (metis append_take_drop_id)

lemma recv_run_dumps:
  assumes "dumps N nlg w dgs w'" "list_all2 body_does (concat dgs) fs"
    and nlg: "in_range (nlg_id nlg) (nlg_seq nlg) (nlg_portid nlg)" "NLMSG_MIN_TYPE \<le> nlg_id nlg"
  shows "\<exists>e'. mnlg_socket_recv_run N nlg (Some read_device_cb) w (e, s) = Some ((0, e', fold (\<lambda>f. f) fs s), w')"
  using assms(1,2)
proof (induction dgs arbitrary: w fs e s)
  case Nil
  let ?r = "reply NLMSG_DONE (nlg_seq nlg) (nlg_portid nlg) (le_bytes 4 0)"
  have ir: "in_range NLMSG_DONE (nlg_seq nlg) (nlg_portid nlg)" using nlg(1) by (simp add: in_range_def)
  from Nil.prems obtain buf where r: "mnl_socket_recvfrom N w = (Inr (length ?r, buf), w')" "take (length ?r) buf = ?r"
    by (auto simp: Let_def split: prod.splits sum.splits)
  then obtain rest where buf: "buf = ?r @ rest" using take_prefix by blast
  have c: "cb_for (Some read_device_cb) mnlg_cb_array NLMSG_DONE = Some mnlg_cb_stop" by (simp add: cb_for_def mnlg_cb_array_def)
  have "error_at (?r @ rest) = 0" by (simp add: error_at_def reply_def field_at_def of_le_le_bytes)
  then have "mnlg_cb_stop (?r @ rest) (e, s) = (MNL_CB_STOP, 0, s)"
    using reply_fields [OF _ ir, where b = "le_bytes 4 0"] by (simp add: mnlg_cb_stop_def)
  with cb_run_reply [OF _ _ ir _ c, where b = "le_bytes 4 0" and k = 0 and r = rest and ret = MNL_CB_OK and st = "(e, s)"]
  have "mnl_cb_run buf (int (length ?r)) (nlg_seq nlg) (nlg_portid nlg) (Some read_device_cb) mnlg_cb_array MNL_CB_OK (e, s) = (MNL_CB_STOP, 0, s)"
    using reply_fields(6) [OF _ ir, where b = "le_bytes 4 0"] by (simp add: buf)
  moreover have "length ?r \<noteq> 0" by (simp add: reply_def)
  ultimately show ?case using Nil.prems(2) r(1) by (subst mnlg_socket_recv_run.simps) simp
next
  case (Cons bs dgs)
  let ?r = "concat (map (reply (nlg_id nlg) (nlg_seq nlg) (nlg_portid nlg)) bs)"
  from Cons.prems(1) obtain buf w1 where r: "mnl_socket_recvfrom N w = (Inr (length ?r, buf), w1)" "take (length ?r) buf = ?r"
      "bs \<noteq> []" "dumps N nlg w1 dgs w'"
    by (auto simp: Let_def split: prod.splits sum.splits)
  then obtain rest where buf: "buf = ?r @ rest" using take_prefix by blast
  from Cons.prems(2) obtain f1 f2 where fs: "fs = f1 @ f2" "list_all2 body_does bs f1" "list_all2 body_does (concat dgs) f2"
    by (auto simp: list_all2_append1)
  from cb_run_bodies [OF fs(2) nlg] obtain e1 where
    "mnl_cb_run buf (int (length ?r)) (nlg_seq nlg) (nlg_portid nlg) (Some read_device_cb) mnlg_cb_array MNL_CB_OK (e, s) =
       (MNL_CB_OK, e1, fold (\<lambda>f. f) f1 s)" unfolding buf by blast
  moreover have "length ?r \<noteq> 0" using r(3) by (cases bs) (simp_all add: reply_def)
  ultimately show ?case using Cons.IH [OF r(4) fs(3), of e1 "fold (\<lambda>f. f) f1 s"] r(1) fs(1)
    by (subst mnlg_socket_recv_run.simps) auto
qed

text \<open>The first message and the later ones.\<close>

lemma settings_aligned: "4 dvd length (settings attrs)"
  by (induction attrs) (auto simp: dvd_add)

lemma message_body_aligned: "4 dvd length (message_body version d later fs)"
  by (simp add: message_body_def genl_header_def name_attr_def peers_attr_def settings_aligned dvd_add)

lemma body_data:
  "drop 4 (message_body version d later fs) =
     name_attr d @ (if later then [] else settings (device_attrs version d)) @ (if first_peer d = [] then [] else peers_attr fs)"
  by (simp add: message_body_def genl_header_def)

lemma body_doesI:
  "length (message_body version d later fs) < 2 ^ 16 \<Longrightarrow> does parse_device_cb (drop 4 (message_body version d later fs)) f \<Longrightarrow>
   body_does (message_body version d later fs) f"
  using message_body_aligned [of version d later fs] by (simp add: body_does_def) (simp add: message_body_def genl_header_def)

lemma does_peers_if:
  assumes "length (message_body version d later fs) < 2 ^ 16" "list_all clean_frag fs" "first_peer d = [] \<longrightarrow> fs = []"
  shows "does parse_device_cb (if first_peer d = [] then [] else peers_attr fs) (\<lambda>d. d\<lparr>first_peer := first_peer d @ map frag_image fs\<rparr>)"
proof (cases "first_peer d = []")
  case True
  with assms(3) does_Nil [of parse_device_cb] show ?thesis by (auto intro: does_cong)
next
  case False
  then have "length (peers_attr fs) < 2 ^ 16" using assms(1) by (simp add: message_body_def)
  with does_peers [OF assms(2)] False show ?thesis by simp
qed

lemma body_first:
  assumes "sendable version d" "length (message_body version d False fs) < 2 ^ 16"
    and "list_all clean_frag fs" "first_peer d = [] \<longrightarrow> fs = []"
  shows "\<exists>f. body_does (message_body version d False fs) f \<and> f zero_device = (kernel_image d)\<lparr>first_peer := map frag_image fs\<rparr>"
proof -
  from assms(1) have name: "NUL \<notin> set (dev_name d)" "length (dev_name d) < IFNAMSIZ" by (simp_all add: sendable_def)
  from does_settings [OF assms(1)] obtain g where
    g: "does parse_device_cb (settings (device_attrs version d)) g" "g (zero_device\<lparr>dev_name := dev_name d\<rparr>) = kernel_image d" by blast
  note all = does_append [OF does_name [OF name] does_append [OF g(1) does_peers_if [OF assms(2-)]]]
  let ?f = "\<lambda>s. (\<lambda>d. d\<lparr>first_peer := first_peer d @ map frag_image fs\<rparr>) (g (s\<lparr>dev_name := dev_name d\<rparr>))"
  have "body_does (message_body version d False fs) ?f"
    using all by (intro body_doesI assms(2)) (simp add: body_data)
  moreover have "?f zero_device = (kernel_image d)\<lparr>first_peer := map frag_image fs\<rparr>"
    by (simp add: g(2)) (simp add: kernel_image_def zero_device_def Let_def)
  ultimately show ?thesis by blast
qed

definition later_effect :: "wgdevice \<Rightarrow> frag list \<Rightarrow> wgdevice \<Rightarrow> wgdevice" where
  "later_effect d fs = (\<lambda>s. s\<lparr>dev_name := dev_name d, first_peer := first_peer s @ map frag_image fs\<rparr>)"

lemma body_later:
  assumes "NUL \<notin> set (dev_name d)" "length (dev_name d) < IFNAMSIZ" "length (message_body version d True fs) < 2 ^ 16"
    and "list_all clean_frag fs" "first_peer d = [] \<longrightarrow> fs = []"
  shows "body_does (message_body version d True fs) (later_effect d fs)"
proof -
  note all = does_append [OF does_name [OF assms(1,2)] does_peers_if [OF assms(3-)]]
  then have "does parse_device_cb (drop 4 (message_body version d True fs)) (later_effect d fs)"
    unfolding body_data later_effect_def by (simp only: if_True append_Nil wgdevice.update_convs) simp
  then show ?thesis by (intro body_doesI assms(3))
qed

lemma later_effects:
  "dev_name s = dev_name d \<Longrightarrow>
   fold (\<lambda>f. f) (map (later_effect d) fss) s = s\<lparr>first_peer := first_peer s @ map frag_image (concat fss)\<rparr>"
  by (induction fss arbitrary: s) (simp_all add: later_effect_def)

section \<open>Joining the fragments\<close>

definition kernel_peer_image :: "wgpeer \<Rightarrow> wgpeer" where
  "kernel_peer_image p = frag_image \<lparr>f_peer = p, f_continued = False, f_list = True, f_ips = first_allowedip p\<rparr>"

lemma frag_image_simps [simp]:
  "peer_public_key (frag_image f) = peer_public_key (f_peer f)" "first_allowedip (frag_image f) = f_ips f"
  by (simp_all add: frag_image_def zero_peer_def Let_def)

lemma frag_image_same: "(frag_image f)\<lparr>first_allowedip := f_ips f\<rparr> = frag_image f"
  by (simp add: frag_image_def Let_def)

lemma whole_image:
  assumes "frag_of p [] f"
  shows "(frag_image f)\<lparr>first_allowedip := first_allowedip p\<rparr> = kernel_peer_image p"
  using assms by (simp add: frag_of_def kernel_peer_image_def frag_image_def Let_def)

lemma coalesce_other:
  assumes "length (peer_public_key x) = WG_KEY_LEN" "length (peer_public_key y) = WG_KEY_LEN" "peer_public_key x \<noteq> peer_public_key y"
  shows "coalesce_from x t (y # ys) =
    res_bind (coalesce_from y (ips_tail (first_allowedip y)) ys) (\<lambda>rest. Ok (x # rest))"
  using assms by (simp add: memcmp_0_iff)

lemma coalesce_same:
  assumes "length (peer_public_key x) = WG_KEY_LEN" "peer_public_key x = peer_public_key y" "first_allowedip y \<noteq> []"
  shows "coalesce_from x (ips_tail (first_allowedip x)) (y # ys) =
    coalesce_from (x\<lparr>first_allowedip := first_allowedip x @ first_allowedip y\<rparr>)
      (ips_tail (first_allowedip x @ first_allowedip y)) ys"
  using assms memcmp_0_iff [of "peer_public_key x" WG_KEY_LEN "peer_public_key y"]
  by (cases "first_allowedip y") (simp_all add: ips_tail_def)

declare coalesce_from.simps(2) [simp del]

text \<open>The fragments of a peer are joined to it, and those of the next are kept apart by their key.\<close>

fun joins :: "wgpeer \<Rightarrow> wgpeer list \<times> wgallowedip list \<Rightarrow> frag list \<Rightarrow> bool" where
  "joins x (ps, ips) fs \<longleftrightarrow>
     coalesce_from x (ips_tail (first_allowedip x)) (map frag_image fs) =
       Ok (if ips = [] then x # map kernel_peer_image ps
           else x\<lparr>first_allowedip := first_allowedip x @ ips\<rparr> # map kernel_peer_image (tl ps))"

fun joinable :: "wgpeer \<Rightarrow> wgpeer list \<times> wgallowedip list \<Rightarrow> bool" where
  "joinable x (ps, ips) \<longleftrightarrow> list_all sized_peer ps \<and> distinct_adj (map peer_public_key ps) \<and>
     length (peer_public_key x) = WG_KEY_LEN \<and>
     (if ips = [] then ps = [] \<or> peer_public_key x \<noteq> peer_public_key (hd ps)
      else ps \<noteq> [] \<and> peer_public_key x = peer_public_key (hd ps))"

lemma joinable_next: "joinable x (p # ps, ips) \<Longrightarrow> peer_public_key y = peer_public_key p \<Longrightarrow> joinable y (ps, [])"
  by (cases ps) (auto simp: sized_peer_def split: if_splits)

lemma coalesce_sent: "sent s fs t \<Longrightarrow> t = ([], []) \<Longrightarrow> joinable x s \<Longrightarrow> joins x s fs"
proof (induction arbitrary: x rule: sent.induct)
  case (sent_nil s)
  then show ?case by simp
next
  case (sent_whole p ips f ps fs t)
  then have key: "peer_public_key (frag_image f) = peer_public_key p" by (simp add: frag_of_def)
  have len: "length (peer_public_key x) = WG_KEY_LEN" "length (peer_public_key p) = WG_KEY_LEN"
    using sent_whole.prems(2) by (auto simp: sized_peer_def)
  show ?case
  proof (cases "ips = []")
    case True
    with sent_whole.hyps(1,2) have "frag_image f = kernel_peer_image p"
      using whole_image [of p f] frag_image_same [of f] by (simp add: pending_def)
    with sent_whole.IH [OF sent_whole.prems(1) joinable_next [OF sent_whole.prems(2) key]] sent_whole.prems True key len
    show ?thesis by (simp add: coalesce_other)
  next
    case False
    let ?y = "x\<lparr>first_allowedip := first_allowedip x @ ips\<rparr>"
    have "joinable ?y (ps, [])" using False sent_whole.prems(2) by (intro joinable_next [OF sent_whole.prems(2)]) simp
    with sent_whole.IH [OF sent_whole.prems(1)] have "joins ?y (ps, []) fs" .
    with False sent_whole.prems sent_whole.hyps key len coalesce_same [of x "frag_image f" "map frag_image fs"]
    show ?thesis by (simp add: pending_def)
  qed
next
  case (sent_part p ips f rest ps fs t)
  then have key: "peer_public_key (frag_image f) = peer_public_key p" by (simp add: frag_of_def)
  have len: "length (peer_public_key x) = WG_KEY_LEN" "length (peer_public_key p) = WG_KEY_LEN"
    using sent_part.prems(2) by (auto simp: sized_peer_def)
  have next': "joinable y (p # ps, rest)" if "peer_public_key y = peer_public_key p" for y
    using that len(2) sent_part.prems(2) sent_part.hyps(3) by simp
  show ?case
  proof (cases "ips = []")
    case True
    with sent_part have "(frag_image f)\<lparr>first_allowedip := f_ips f @ rest\<rparr> = kernel_peer_image p"
      using whole_image [of p f] by (simp add: pending_def)
    with sent_part.IH [OF sent_part.prems(1) next' [OF key]] sent_part.prems sent_part.hyps(3) True key len
    show ?thesis by (simp add: coalesce_other)
  next
    case False
    let ?y = "x\<lparr>first_allowedip := first_allowedip x @ f_ips f\<rparr>"
    have "joinable ?y (p # ps, rest)" using False sent_part.prems(2) by (intro next') simp
    with sent_part.IH [OF sent_part.prems(1)] have "joins ?y (p # ps, rest) fs" .
    moreover have "f_ips f @ rest = ips" using sent_part.hyps(2) False by (simp add: pending_def)
    ultimately show ?thesis
      using False sent_part.prems sent_part.hyps(3,4) key len coalesce_same [of x "frag_image f" "map frag_image fs"] by auto
  qed
qed

lemma sent_clean:
  assumes "sent s fs t" "list_all clean_peer (fst s)" "list_all clean_ip (snd s)"
  shows "list_all clean_frag fs"
  using assms
proof (induction rule: sent.induct)
  case (sent_part p ips f rest ps fs t)
  then have "list_all clean_ip (f_ips f @ rest)" by (simp add: pending_def clean_peer_def)
  then have "list_all clean_ip (f_ips f)" "list_all clean_ip rest" by simp_all
  with sent_part show ?case by (simp add: clean_frag_def frag_of_def)
qed (simp_all add: clean_frag_def frag_of_def pending_def clean_peer_def)

lemma sent_none: "sent s fs t \<Longrightarrow> fst s = [] \<Longrightarrow> fs = []"
  by (induction rule: sent.induct) simp_all

lemma coalesce_all:
  assumes "sent (ps, []) fs ([], [])" "list_all sized_peer ps" "distinct_adj (map peer_public_key ps)"
  shows "coalesce_peers (x\<lparr>first_peer := map frag_image fs\<rparr>) = Ok (x\<lparr>first_peer := map kernel_peer_image ps\<rparr>)"
  using assms(1)
proof (cases rule: sent.cases)
  case sent_nil
  then show ?thesis by (simp add: coalesce_peers_def)
next
  case (sent_whole p f qs fs')
  have "joinable (frag_image f) (qs, [])" using assms(2,3) sent_whole
    by (cases qs) (auto simp: frag_of_def sized_peer_def)
  from coalesce_sent [OF sent_whole(5) refl this] sent_whole whole_image [of p f] frag_image_same [of f] show ?thesis
    by (simp add: coalesce_peers_def pending_def)
next
  case (sent_part p f rest qs fs')
  have "joinable (frag_image f) (p # qs, rest)" using assms(2,3) sent_part by (auto simp: frag_of_def sized_peer_def)
  from coalesce_sent [OF sent_part(7) refl this] sent_part whole_image [of p f] show ?thesis
    by (simp add: coalesce_peers_def pending_def)
qed

section \<open>Setting a device and reading it back\<close>

text \<open>A socket on which a request for the device is answered by the given datagrams.\<close>

definition dumps_device :: "'w netlink \<Rightarrow> 'w \<Rightarrow> string \<Rightarrow> bytes list list \<Rightarrow> 'w \<Rightarrow> bool" where
  "dumps_device N w iface dgs w' \<longleftrightarrow>
     (case mnlg_socket_open N w WG_GENL_NAME of
        Some (Ok nlg, w) \<Rightarrow>
          (case mnlg_msg_prepare N w nlg WG_CMD_GET_DEVICE (NLM_F_REQUEST + NLM_F_ACK + NLM_F_DUMP) of
             (nlh, nlg) \<Rightarrow>
               (case nl_send N w (wire (add (attr_bytes WGDEVICE_A_IFNAME (str_bytes iface @ [0])) nlh)) of
                  (e, w) \<Rightarrow> e = 0 \<and> in_range (nlg_id nlg) (nlg_seq nlg) (nlg_portid nlg) \<and> NLMSG_MIN_TYPE \<le> nlg_id nlg \<and>
                     dumps N nlg w dgs w'))
      | _ \<Rightarrow> False)"

lemma get_device_dumped:
  assumes "dumps_device N w iface dgs w'" "list_all2 body_does (concat dgs) fs" "length iface < IFNAMSIZ"
    and "216 \<le> SOCKET_BUFFER_SIZE N" "SOCKET_BUFFER_SIZE N < 2 ^ 16"
    and "coalesce_peers (fold (\<lambda>f. f) fs zero_device) = Ok d"
  shows "linux_get_device N w iface = Some (Ok (0, Some d), w')"
proof -
  from assms(1) obtain r w1 where o1: "mnlg_socket_open N w WG_GENL_NAME = Some (r, w1)"
    by (cases "mnlg_socket_open N w WG_GENL_NAME") (auto simp: dumps_device_def)
  with assms(1) obtain nlg0 where r: "r = Ok nlg0" by (cases r) (simp_all add: dumps_device_def)
  obtain nlh nlg where p: "mnlg_msg_prepare N w1 nlg0 WG_CMD_GET_DEVICE (NLM_F_REQUEST + NLM_F_ACK + NLM_F_DUMP) = (nlh, nlg)" by fastforce
  obtain e w2 where s: "nl_send N w1 (wire (add (attr_bytes WGDEVICE_A_IFNAME (str_bytes iface @ [0])) nlh)) = (e, w2)" by fastforce
  note o = o1 [unfolded r] p s
  from assms(1) o have d: "e = 0" "in_range (nlg_id nlg) (nlg_seq nlg) (nlg_portid nlg)" "NLMSG_MIN_TYPE \<le> nlg_id nlg" "dumps N nlg w2 dgs w'"
    by (simp_all add: dumps_device_def)
  have "nlmsg_len nlh = 20" using o(2)
    by (auto simp: mnlg_msg_prepare_def mnlg_msg_prepare_with_def mnl_nlmsg_put_extra_header_def mnl_nlmsg_put_header_def
        nlmsg_len_def MNL_ALIGN_def Let_def)
  moreover have "MNL_ALIGN (length iface + 1) \<le> 16" using MNL_ALIGN_mono [of "length iface + 1" 16] assms(3) by simp
  ultimately have "mnl_attr_put (SOCKET_BUFFER_SIZE N) nlh WGDEVICE_A_IFNAME (str_bytes iface @ [0]) =
      Ok (add (attr_bytes WGDEVICE_A_IFNAME (str_bytes iface @ [0])) nlh)"
    using assms(4) by (simp add: mnl_attr_put_add [OF assms(5)])
  moreover obtain e' where "mnlg_socket_recv_run N nlg (Some read_device_cb) w2 (0, zero_device) =
      Some ((0, e', fold (\<lambda>f. f) fs zero_device), w')"
    using recv_run_dumps [OF d(4) assms(2) d(2,3)] by blast
  ultimately show ?thesis using o d(1) assms(3,6)
    unfolding linux_get_device_def by (subst get_try_again.simps) simp
qed

lemma sendable_parts:
  assumes "sendable version d"
  shows "strings_set (device_attrs version d)" "list_all sized_peer (first_peer d)" "length (dev_name d) < IFNAMSIZ"
    "NUL \<notin> set (dev_name d)" "list_all clean_peer (first_peer d)"
proof -
  have i: "list_all P (attr_if b t x) \<longleftrightarrow> (b \<longrightarrow> P (t, x))" for P b and t :: nat and x :: "bytes option" by (simp add: attr_if_def)
  have "header_ok version b v \<Longrightarrow> b \<longrightarrow> put_magic_header_attr version v \<noteq> None" for b v
    by (auto simp: header_ok_def string_ok_def put_magic_header_attr_def)
  moreover have "string_ok b v \<Longrightarrow> b \<longrightarrow> map_option g v \<noteq> None" for b v and g :: "string \<Rightarrow> bytes"
    by (auto simp: string_ok_def)
  ultimately show "strings_set (device_attrs version d)" using assms
    unfolding strings_set_iff unfolding sendable_def device_attrs_def Let_def
    by (simp only: list_all_append i list.pred_inject prod.case option.simps simp_thms) blast
  show "list_all sized_peer (first_peer d)" "length (dev_name d) < IFNAMSIZ" "NUL \<notin> set (dev_name d)" "list_all clean_peer (first_peer d)"
    using assms by (auto simp: sendable_def list_all_iff clean_peer_def)
qed

text \<open>The effects of the messages of a run.\<close>

lemma bodies_effects:
  assumes d: "sendable version d" and fs: "list_all clean_frag (fs @ concat fss)" "first_peer d = [] \<longrightarrow> fs @ concat fss = []"
    and b: "bs = message_body version d False fs # map (message_body version d True) fss" "list_all (\<lambda>b. length b < 2 ^ 16) bs"
  shows "\<exists>gs. list_all2 body_does bs gs \<and>
    fold (\<lambda>f. f) gs zero_device = (kernel_image d)\<lparr>first_peer := map frag_image (fs @ concat fss)\<rparr>"
proof -
  from body_first [OF d, of fs] fs b obtain f where f: "body_does (message_body version d False fs) f"
      "f zero_device = (kernel_image d)\<lparr>first_peer := map frag_image fs\<rparr>" by auto
  have "body_does (message_body version d True xs) (later_effect d xs)" if "xs \<in> set fss" for xs
    using that fs b sendable_parts(3,4) [OF d] by (intro body_later) (auto simp: list_all_iff)
  then have "list_all2 body_does (map (message_body version d True) fss) (map (later_effect d) fss)"
    by (simp add: list_all2_map1 list_all2_map2 list_all2_same)
  with f(1) have "list_all2 body_does bs (f # map (later_effect d) fss)" by (simp add: b(1))
  moreover have "dev_name (kernel_image d) = dev_name d" by (simp add: kernel_image_def Let_def)
  then have "fold (\<lambda>f. f) (f # map (later_effect d) fss) zero_device = (kernel_image d)\<lparr>first_peer := map frag_image (fs @ concat fss)\<rparr>"
    by (simp add: f(2) later_effects)
  ultimately show ?thesis by blast
qed

text \<open>What a device is after it has been sent to the kernel and read back.\<close>

definition read_back :: "wgdevice \<Rightarrow> wgdevice" where
  "read_back d = (kernel_image d)\<lparr>first_peer := map kernel_peer_image (first_peer d)\<rparr>"

text \<open>C2. A device is set in the kernel and read back.  If the kernel acknowledges every message, the device's strings
  and keys are well formed, its settings fit into one buffer and no two neighbouring peers have the same key, then \<^verbatim>\<open>kernel_set_device\<close> ends with
  0, however many messages the peers and their addresses need, no message exceeds the buffer, and for
  every socket on which the data of these messages come back as a dump, divided into datagrams in any way, \<^verbatim>\<open>kernel_get_device\<close>
  gives the device again, with all addresses of a peer that was divided among messages joined in their order.\<close>

theorem set_device_read_back:
  fixes N :: "'w netlink" and M :: "'v netlink"
  assumes "acks N log" "mnlg_socket_open N w WG_GENL_NAME = Some (Ok nlg, w1)"
    and "216 \<le> SOCKET_BUFFER_SIZE N" "SOCKET_BUFFER_SIZE N < 2 ^ 16"
    and "216 \<le> SOCKET_BUFFER_SIZE M" "SOCKET_BUFFER_SIZE M < 2 ^ 16"
    and "sendable (nlg_version nlg) d" "first_size (nlg_version nlg) d \<le> SOCKET_BUFFER_SIZE N"
    and "distinct_adj (map peer_public_key (first_peer d))"
  shows "\<exists>msgs w2. linux_set_device N w d = Some (Ok 0, w2) \<and> log w2 = log w1 @ map wire msgs \<and> msgs \<noteq> [] \<and>
    list_all (\<lambda>m. nlmsg_len m \<le> SOCKET_BUFFER_SIZE N) msgs \<and>
    (\<forall>v dgs v'. dumps_device M v (dev_name d) dgs v' \<and> concat dgs = map nlmsg_body msgs \<longrightarrow>
       linux_get_device M v (dev_name d) = Some (Ok (0, Some (read_back d)), v'))"
proof -
  note d = sendable_parts [OF assms(7)]
  from set_again_all [OF assms(1,3,4) d(1-3) assms(8) refl, of w1] obtain fs fss where
    r: "set_run N log w1 (set_again N nlg d [] [] w1)
        (message_body (nlg_version nlg) d False fs # map (message_body (nlg_version nlg) d True) fss)"
      "sent (first_peer d, []) (fs @ concat fss) ([], [])" by blast
  from r(1) obtain w2 msgs where m: "set_again N nlg d [] [] w1 = Some (Ok 0, w2)" "log w2 = log w1 @ map wire msgs"
      "list_all (\<lambda>m. nlmsg_len m \<le> SOCKET_BUFFER_SIZE N) msgs"
      "map nlmsg_body msgs = message_body (nlg_version nlg) d False fs # map (message_body (nlg_version nlg) d True) fss"
    unfolding set_run_def by (elim exE conjE) (rule that; assumption)
  have "list_all (\<lambda>b. length b < 2 ^ 16) (map nlmsg_body msgs)" using m(3) assms(4)
    by (auto simp: list_all_iff nlmsg_len_def)
  from bodies_effects [OF assms(7) sent_clean [OF r(2)] _ m(4) this] obtain gs where
    gs: "list_all2 body_does (map nlmsg_body msgs) gs"
      "fold (\<lambda>f. f) gs zero_device = (kernel_image d)\<lparr>first_peer := map frag_image (fs @ concat fss)\<rparr>"
    using d(5) sent_none [OF r(2)] by auto
  have "coalesce_peers (fold (\<lambda>f. f) gs zero_device) = Ok (read_back d)"
    unfolding gs(2) read_back_def by (rule coalesce_all [OF r(2) d(2) assms(9)])
  then have "linux_get_device M v (dev_name d) = Some (Ok (0, Some (read_back d)), v')"
    if "dumps_device M v (dev_name d) dgs v'" "concat dgs = map nlmsg_body msgs" for v dgs v'
    using get_device_dumped [OF that(1) _ d(3) assms(5,6)] gs(1) that(2) by simp
  moreover have "msgs \<noteq> []" using m(4) by auto
  ultimately show ?thesis using m(1-3) assms(2) by (auto simp: linux_set_device_def intro!: exI [where x = msgs])
qed

section \<open>A kernel that can be run\<close>

text \<open>
  A kernel that keeps the messages which set a device and acknowledges them, gives their data back when it is asked for the device, and
  tells the number and the version of the family; its state is the datagrams that wait and the messages it has kept.
\<close>

definition ack_of :: "bytes \<Rightarrow> bytes" where
  "ack_of x = le_bytes 4 36 @ le_bytes 2 NLMSG_ERROR @ le_bytes 2 0 @ take 4 (drop 8 x) @ le_bytes 4 0 @ replicate 20 0"

definition family_of :: "bytes \<Rightarrow> bytes" where
  "family_of x = le_bytes 4 36 @ le_bytes 2 GENL_ID_CTRL @ le_bytes 2 0 @ take 4 (drop 8 x) @ le_bytes 4 0 @
     [1, 2, 0, 0] @ attr_bytes CTRL_ATTR_FAMILY_ID (le_bytes 2 30) @ attr_bytes CTRL_ATTR_VERSION (le_bytes 4 2)"

definition demo_recv :: "bytes list \<times> 'a \<Rightarrow> (int + bool \<times> nat \<times> bytes) \<times> bytes list \<times> 'a" where
  "demo_recv w = (case w of ([], l) \<Rightarrow> (Inl EINVAL, [], l) | (b # q, l) \<Rightarrow> (Inr (False, length b, b), q, l))"

definition demo_send :: "bytes list \<times> bytes list \<Rightarrow> bytes \<Rightarrow> int \<times> bytes list \<times> bytes list" where
  "demo_send w x =
     (let seq = field_at x 8 4; cmd = field_at x 16 1 in
      if cmd = CTRL_CMD_GETFAMILY then (0, [family_of x, ack_of x], snd w)
      else if cmd = WG_CMD_GET_DEVICE
      then (0, map (\<lambda>m. reply 30 seq 5 (drop 16 m)) (snd w) @ [reply NLMSG_DONE seq 5 (le_bytes 4 0)], snd w)
      else (0, [ack_of x], snd w @ [x]))"

definition demo_kernel :: "(bytes list \<times> bytes list) netlink" where
  "demo_kernel = \<lparr>pagesize = 4096, nl_time = (\<lambda>_. 7), nl_socket = (\<lambda>_. 0), nl_bind = (\<lambda>_. 0), nl_portid = (\<lambda>_. 5),
     nl_send = demo_send, nl_recv = demo_recv, CTRL_ATTR_MAX = 10, uninit_version = 0\<rparr>"

lemma demo_simps [simp]:
  "nl_socket demo_kernel w = 0" "nl_bind demo_kernel w = 0" "nl_portid demo_kernel w = 5" "nl_time demo_kernel w = 7"
  "mnl_socket_recvfrom demo_kernel (b # q, l) = (Inr (length b, b), q, l)" "SOCKET_BUFFER_SIZE demo_kernel = 4096"
  "CTRL_ATTR_MAX demo_kernel = 10" "uninit_version demo_kernel = 0" "nl_send demo_kernel = demo_send"
  by (simp_all add: demo_kernel_def demo_recv_def mnl_socket_recvfrom_def mnl_ideal_socket_buffer_size_def)

lemma seq_of_wire: "take 4 (drop 8 (wire nlh)) = le_bytes 4 (nlmsg_seq nlh)"
  by (simp add: wire_def)

lemma of_le_zeros: "of_le (replicate n 0) = 0"
  by (induction n) simp_all

lemma demo_fields:
  assumes "nlmsg_seq nlh < 2 ^ 32"
  shows "field_at (ack_of (wire nlh)) 0 4 = 36" "field_at (ack_of (wire nlh)) 4 2 = NLMSG_ERROR" "field_at (ack_of (wire nlh)) 6 2 = 0"
    "field_at (ack_of (wire nlh)) 8 4 = nlmsg_seq nlh" "field_at (ack_of (wire nlh)) 12 4 = 0" "length (ack_of (wire nlh)) = 36"
    "error_at (ack_of (wire nlh)) = 0"
    "field_at (family_of (wire nlh)) 0 4 = 36" "field_at (family_of (wire nlh)) 4 2 = GENL_ID_CTRL" "field_at (family_of (wire nlh)) 6 2 = 0"
    "field_at (family_of (wire nlh)) 8 4 = nlmsg_seq nlh" "field_at (family_of (wire nlh)) 12 4 = 0" "length (family_of (wire nlh)) = 36"
  using assms
  by (simp_all add: ack_of_def family_of_def seq_of_wire field_at_def of_le_le_bytes error_at_def MNL_ALIGN_def of_le_zeros)

lemma demo_ack:
  assumes "nlmsg_seq nlh < 2 ^ 32" "nlg_seq nlg = nlmsg_seq nlh"
  shows "mnlg_socket_recv_run demo_kernel nlg cb (ack_of (wire nlh) # q, l) (e, s) = Some ((0, 0, s), (q, l))"
proof -
  have "mnl_cb_run (ack_of (wire nlh)) 36 (nlg_seq nlg) (nlg_portid nlg) cb mnlg_cb_array MNL_CB_OK (e, s) = (0, 0, s)"
    by (subst mnl_cb_run.simps) (simp add: mnl_nlmsg_ok_def demo_fields [OF assms(1)] assms(2) cb_for_def mnlg_cb_array_def mnlg_cb_error_def)
  then show ?thesis by (subst mnlg_socket_recv_run.simps) (simp add: demo_fields [OF assms(1)])
qed

lemma demo_family:
  assumes "nlmsg_seq nlh < 2 ^ 32" "nlg_seq nlg = nlmsg_seq nlh"
    and "cb (family_of (wire nlh)) (e, s) = (MNL_CB_OK, e', s')"
  shows "mnlg_socket_recv_run demo_kernel nlg (Some cb) ([family_of (wire nlh), ack_of (wire nlh)], l) (e, s) = Some ((0, 0, s'), ([], l))"
proof -
  have "mnl_cb_run (family_of (wire nlh)) 36 (nlg_seq nlg) (nlg_portid nlg) (Some cb) mnlg_cb_array MNL_CB_OK (e, s) = (MNL_CB_OK, e', s')"
    using assms(3) by (subst mnl_cb_run.simps)
      (simp add: mnl_nlmsg_ok_def demo_fields [OF assms(1)] assms(2) cb_for_def cb_run_end MNL_ALIGN_def)
  then show ?thesis using demo_ack [OF assms(1,2), of "Some cb" "[]" l e' s']
    by (subst mnlg_socket_recv_run.simps) (simp add: demo_fields [OF assms(1)])
qed

lemma demo_acks: "acks demo_kernel snd"
  unfolding acks_def
proof (intro allI impI)
  fix w :: "bytes list \<times> bytes list" and nlg :: mnlg_socket and nlh :: nlmsg
  assume s: "nlmsg_seq nlh = nlg_seq nlg \<and> nlg_seq nlg < 2 ^ 32 \<and> take 1 (nlmsg_body nlh) = [of_nat WG_CMD_SET_DEVICE]"
  then have n: "nlmsg_seq nlh < 2 ^ 32" "nlg_seq nlg = nlmsg_seq nlh" by simp_all
  from s obtain b where "nlmsg_body nlh = of_nat WG_CMD_SET_DEVICE # b" by (cases "nlmsg_body nlh") simp_all
  then have "field_at (wire nlh) 16 1 = WG_CMD_SET_DEVICE" by (simp add: wire_def field_at_def)
  then have "nl_send demo_kernel w (wire nlh) = (0, [ack_of (wire nlh)], snd w @ [wire nlh])" by (simp add: demo_send_def Let_def)
  with demo_ack [OF n, where cb = None and q = "[]" and l = "snd w @ [wire nlh]" and e = 0 and s = "()"]
  show "\<exists>w1 w2 r e. nl_send demo_kernel w (wire nlh) = (0, w1) \<and>
      mnlg_socket_recv_run demo_kernel nlg None w1 (0, ()) = Some ((r, e, ()), w2) \<and> 0 \<le> r \<and> snd w2 = snd w @ [wire nlh]"
    by auto
qed

lemma family_read:
  "get_family_id_cb 10 (family_of x) (e, \<lparr>nlg_id = 0, nlg_version = 0, nlg_seq = 7, nlg_portid = 5\<rparr>) =
     (MNL_CB_OK, e, \<lparr>nlg_id = 30, nlg_version = 2, nlg_seq = 7, nlg_portid = 5\<rparr>)" if "12 \<le> length x"
proof -
  let ?a = "attr_bytes CTRL_ATTR_FAMILY_ID (le_bytes 2 30)" and ?b = "attr_bytes CTRL_ATTR_VERSION (le_bytes 4 2)"
  let ?tb = "(\<lambda>_. None)(1 \<mapsto> ?a @ ?b, 3 \<mapsto> ?b)"
  have f: "attr_fits 1 (le_bytes 2 30)" "attr_fits 3 (le_bytes 4 2)" by (simp_all add: attr_fits_def)
  let ?cb = "get_family_id_attr_cb 10"
  have b: "attr_loop ?cb ?b 8 ret (e, m) = (MNL_CB_OK, e, m(3 \<mapsto> ?b))" for ret e m
    using attr_loop_step [OF f(2), of 0 ?cb "[]"] attr_parts(1) [OF f(2), of "[]"]
    by (simp add: attr_loop_end get_family_id_attr_cb_def MNL_ALIGN_def)
  have "attr_loop ?cb (?a @ ?b) 16 MNL_CB_OK (e, \<lambda>_. None) = (MNL_CB_OK, e, ?tb)"
    using attr_loop_step [OF f(1), of 8 ?cb ?b] attr_parts(1) [OF f(1), of ?b] attr_valid(1) [OF f(1), of MNL_TYPE_U16 ?b]
    by (simp add: b get_family_id_attr_cb_def MNL_ALIGN_def mnl_attr_data_type_len_def)
  moreover have "drop 20 (family_of x) = ?a @ ?b" "field_at (family_of x) 0 4 = 36"
    using that by (simp_all add: family_of_def field_at_def of_le_le_bytes)
  moreover have "mnl_attr_get_u16 (?a @ ?b) = 30" "mnl_attr_get_u32 ?b = 2"
    using attr_numbers(2) [OF f(1), of ?b] attr_numbers(3) [OF f(2), of "[]"] by (simp_all add: of_le_le_bytes)
  ultimately show ?thesis by (simp add: get_family_id_cb_def mnl_attr_parse_def MNL_ALIGN_def)
qed

lemma demo_open:
  "mnlg_socket_open demo_kernel w WG_GENL_NAME = Some (Ok \<lparr>nlg_id = 30, nlg_version = 2, nlg_seq = 7, nlg_portid = 5\<rparr>, [], snd w)"
proof -
  let ?nlg = "\<lparr>nlg_id = 0, nlg_version = 0, nlg_seq = 7, nlg_portid = 5\<rparr> :: mnlg_socket"
  define nlh where "nlh = mnl_nlmsg_put_extra_header (mnl_nlmsg_put_header\<lparr>nlmsg_type := GENL_ID_CTRL, nlmsg_flags := 5, nlmsg_seq := 7\<rparr>)
    [of_nat CTRL_CMD_GETFAMILY, of_nat 1, 0, 0]"
  define m where "m = put_bytes nlh CTRL_ATTR_FAMILY_NAME (str_bytes WG_GENL_NAME @ [0])"
  have nlh: "nlmsg_seq m = 7" "nlmsg_len nlh = 20" "\<exists>b. nlmsg_body m = 3 # b"
    by (simp_all add: m_def nlh_def mnl_nlmsg_put_extra_header_def mnl_nlmsg_put_header_def put_bytes_def nlmsg_len_def MNL_ALIGN_def Let_def)
  then have t: "field_at (wire m) 16 1 = CTRL_CMD_GETFAMILY" "12 \<le> length (wire m)" by (auto simp: wire_def field_at_def)
  have p: "mnlg_msg_prepare_with demo_kernel w \<lparr>nlg_id = 0, nlg_version = 0, nlg_seq = 0, nlg_portid = 5\<rparr> CTRL_CMD_GETFAMILY
      (NLM_F_REQUEST + NLM_F_ACK) GENL_ID_CTRL 1 = (nlh, ?nlg)"
    by (simp add: mnlg_msg_prepare_with_def nlh_def Let_def)
  have a: "mnl_attr_put 4096 nlh CTRL_ATTR_FAMILY_NAME (str_bytes WG_GENL_NAME @ [0]) = Ok m"
    using nlh(2) by (simp add: mnl_attr_put_def m_def MNL_ALIGN_def str_bytes_def)
  have r: "mnlg_socket_recv_run demo_kernel ?nlg (Some (get_family_id_cb 10)) ([family_of (wire m), ack_of (wire m)], snd w) (0, ?nlg) =
      Some ((0, 0, ?nlg\<lparr>nlg_id := 30, nlg_version := 2\<rparr>), [], snd w)"
    by (rule demo_family [where e' = 0]) (simp_all add: nlh(1) family_read [OF t(2)])
  have s: "demo_send w (wire m) = (0, [family_of (wire m), ack_of (wire m)], snd w)" using t(1) by (simp add: demo_send_def Let_def)
  show ?thesis
    unfolding mnlg_socket_open_def demo_simps p prod.case a res.case s by (simp add: r)
qed

lemma demo_dumps:
  assumes "nlg_id nlg = 30" "nlg_seq nlg = 7" "nlg_portid nlg = 5"
  shows "dumps demo_kernel nlg (map (\<lambda>m. reply 30 7 5 (drop 16 m)) (map wire msgs) @ [reply NLMSG_DONE 7 5 (le_bytes 4 0)], l)
    (map (\<lambda>m. [nlmsg_body m]) msgs) ([], l)"
proof (induction msgs)
  case (Cons m msgs)
  have "drop 16 (wire m) = nlmsg_body m" by (simp add: wire_def)
  with Cons assms show ?case by simp
qed (simp add: assms)

lemma demo_dumps_device:
  assumes "snd w = map wire msgs" "length iface < IFNAMSIZ"
  shows "dumps_device demo_kernel w iface (map (\<lambda>m. [nlmsg_body m]) msgs) ([], snd w)"
proof -
  let ?nlg = "\<lparr>nlg_id = 30, nlg_version = 2, nlg_seq = 7, nlg_portid = 5\<rparr> :: mnlg_socket"
  obtain nlh nlg where p: "mnlg_msg_prepare demo_kernel ([], snd w) ?nlg WG_CMD_GET_DEVICE (NLM_F_REQUEST + NLM_F_ACK + NLM_F_DUMP) = (nlh, nlg)"
    by fastforce
  then have nlg: "nlg = ?nlg" "nlmsg_seq nlh = 7" "\<exists>b. nlmsg_body nlh = 0 # b"
    by (auto simp: mnlg_msg_prepare_def mnlg_msg_prepare_with_def mnl_nlmsg_put_extra_header_def mnl_nlmsg_put_header_def Let_def)
  let ?m = "add (attr_bytes WGDEVICE_A_IFNAME (str_bytes iface @ [0])) nlh"
  have "field_at (wire ?m) 16 1 = WG_CMD_GET_DEVICE" "field_at (wire ?m) 8 4 = 7"
    using nlg(2,3) by (auto simp: wire_def field_at_def add_def of_le_le_bytes)
  then have "demo_send ([], snd w) (wire ?m) =
      (0, map (\<lambda>m. reply 30 7 5 (drop 16 m)) (map wire msgs) @ [reply NLMSG_DONE 7 5 (le_bytes 4 0)], snd w)"
    by (simp add: demo_send_def assms(1) Let_def)
  with demo_dumps [of nlg msgs "snd w"] nlg(1) show ?thesis
    unfolding dumps_device_def demo_open option.case prod.case res.case p demo_simps by (simp add: in_range_def)
qed

text \<open>A device with more addresses than one buffer holds.\<close>

definition demo_device :: wgdevice where
  "demo_device = zero_device\<lparr>dev_name := ''wg0'', dev_flags := WGDEVICE_HAS_LISTEN_PORT OR WGDEVICE_HAS_H1, listen_port := 51820,
     init_packet_magic_header := Some ''5-10'',
     first_peer := [zero_peer\<lparr>peer_public_key := replicate WG_KEY_LEN 1,
         first_allowedip := replicate 500 \<lparr>a_family = AF_INET, a_ip = 10 # replicate 15 0, a_cidr = 32\<rparr>\<rparr>,
       zero_peer\<lparr>peer_public_key := replicate WG_KEY_LEN 2\<rparr>]\<rparr>"

lemma demo_device_ok: "sendable 2 demo_device" "first_size 2 demo_device \<le> 4096" "distinct_adj (map peer_public_key (first_peer demo_device))"
proof -
  have "clean_ip \<lparr>a_family = AF_INET, a_ip = 10 # replicate 15 0, a_cidr = 32\<rparr>"
    by (simp add: clean_ip_def wf_allowedip_def store_ip_def ip_bytes_def addr_len_def max_cidr_def numeral_eq_Suc)
  then show "sendable 2 demo_device"
    by (simp add: list_all_iff zero_sockaddr_def zero_key_def has_endpoint_def sendable_def demo_device_def zero_device_def header_ok_def string_ok_def has_def flag_defs clean_peer_def sized_peer_def
        zero_peer_def clean_endpoint_def)
  show "first_size 2 demo_device \<le> 4096"
    by (simp add: first_size_def before_peers_def name_attr_def device_attrs_def demo_device_def zero_device_def has_def flag_defs
        attr_if_def put_magic_header_attr_def str_bytes_def MNL_ALIGN_def Let_def)
  show "distinct_adj (map peer_public_key (first_peer demo_device))" by (simp add: demo_device_def)
qed

theorem set_device_read_back_witness:
  "\<exists>w2 w3. linux_set_device demo_kernel ([], []) demo_device = Some (Ok 0, w2) \<and>
     linux_get_device demo_kernel w2 ''wg0'' = Some (Ok (0, Some (read_back demo_device)), w3)"
proof -
  from demo_device_ok set_device_read_back [OF demo_acks demo_open, where M = demo_kernel and d = demo_device, of "([], [])"]
  obtain msgs w2 where "linux_set_device demo_kernel ([], []) demo_device = Some (Ok 0, w2)" "snd w2 = map wire msgs"
    "\<forall>v dgs v'. dumps_device demo_kernel v (dev_name demo_device) dgs v' \<and> concat dgs = map nlmsg_body msgs \<longrightarrow>
       linux_get_device demo_kernel v (dev_name demo_device) = Some (Ok (0, Some (read_back demo_device)), v')" by auto
  moreover have "dev_name demo_device = ''wg0''" by (simp add: demo_device_def)
  moreover have "concat (map (\<lambda>m. [nlmsg_body m]) msgs) = map nlmsg_body msgs" by simp
  ultimately show ?thesis using demo_dumps_device [of w2 msgs "''wg0''"] by fastforce
qed

section \<open>Settings that do not fit\<close>

text \<open>C15. The settings are put into the first message without a look at the size of the buffer, one page.  With a kernel that
  acknowledges, \<^verbatim>\<open>kernel_set_device\<close> leaves the buffer, or follows a null pointer, exactly when a string that is announced is not there or the
  name, the settings and the head of the list of peers together need more than the buffer; otherwise it returns 0.\<close>

theorem settings_overflow_buffer:
  assumes "acks N log" "mnlg_socket_open N w WG_GENL_NAME = Some (Ok nlg, w1)"
    and "216 \<le> SOCKET_BUFFER_SIZE N" "SOCKET_BUFFER_SIZE N < 2 ^ 16"
    and "list_all sized_peer (first_peer d)" "length (dev_name d) < IFNAMSIZ"
  shows "\<exists>w2. linux_set_device N w d =
    Some (if strings_set (device_attrs (nlg_version nlg) d) \<and> first_size (nlg_version nlg) d \<le> SOCKET_BUFFER_SIZE N
          then Ok 0 else Fault, w2)"
proof (cases "strings_set (device_attrs (nlg_version nlg) d) \<and> first_size (nlg_version nlg) d \<le> SOCKET_BUFFER_SIZE N")
  case True
  then have "strings_set (device_attrs (nlg_version nlg) d)" "first_size (nlg_version nlg) d \<le> SOCKET_BUFFER_SIZE N" by simp_all
  from set_again_all [OF assms(1,3,4) this(1) assms(5,6) this(2) refl, of w1] have "\<exists>w2. set_again N nlg d [] [] w1 = Some (Ok 0, w2)"
    using set_run_Ok by metis
  then show ?thesis unfolding if_P [OF True] by (simp add: linux_set_device_def assms(2))
next
  case False
  obtain nlh nlg' where p: "mnlg_msg_prepare N w1 nlg WG_CMD_SET_DEVICE (NLM_F_REQUEST + NLM_F_ACK) = (nlh, nlg')" by fastforce
  note prep = prepare_set [OF p]
  have n: "20 \<le> SOCKET_BUFFER_SIZE N" using assms(3) by simp
  have "set_message (SOCKET_BUFFER_SIZE N) (nlg_version nlg) nlh d [] [] = Fault"
    unfolding set_message_Fault [OF assms(4) prep(2) n assms(5)] using False by (simp only: de_Morgan_conj not_le)
  then have "set_again N nlg d [] [] w1 = Some (Fault, w1)" using p prep(4) by (subst set_again.simps) simp
  then show ?thesis unfolding if_not_P [OF False] by (simp add: linux_set_device_def assms(2))
qed

text \<open>The longest value of \<^verbatim>\<open>I1\<close> that the configuration reader accepts.\<close>

definition long_i1_device :: wgdevice where
  "long_i1_device = zero_device\<lparr>dev_name := ''wg0'', dev_flags := WGDEVICE_HAS_I1, i1 := Some (replicate (MAX_AWG_STRING_LEN - 1) CHR ''x'')\<rparr>"

theorem settings_overflow_buffer_witness:
  "(\<exists>w2. linux_set_device demo_kernel ([], []) long_i1_device = Some (Fault, w2)) \<and>
   (\<exists>w2. linux_set_device demo_kernel ([], []) demo_device = Some (Ok 0, w2))"
proof
  have "first_size 2 long_i1_device > 4096" "list_all sized_peer (first_peer long_i1_device)" "length (dev_name long_i1_device) < IFNAMSIZ"
    by (simp_all add: first_size_def before_peers_def name_attr_def device_attrs_def long_i1_device_def zero_device_def has_def flag_defs
        attr_if_def str_bytes_def MNL_ALIGN_def Let_def)
  with settings_overflow_buffer [OF demo_acks demo_open [of "([], [])"], where d = long_i1_device]
  show "\<exists>w2. linux_set_device demo_kernel ([], []) long_i1_device = Some (Fault, w2)" by simp
  show "\<exists>w2. linux_set_device demo_kernel ([], []) demo_device = Some (Ok 0, w2)"
    using settings_overflow_buffer [OF demo_acks demo_open [of "([], [])"], where d = demo_device] demo_device_ok(2) sendable_parts [OF demo_device_ok(1)]
    by simp
qed

section \<open>Headers and results\<close>

text \<open>A magic header arrives as a number of 32 bits or as a string, and which of the two it is told from the length of the
  attribute alone.  A string of three characters, which with its terminator has four bytes, is taken for the number that its bytes make,
  a string of any other length for itself.\<close>

theorem header_kind_by_length:
  assumes "NUL \<notin> set s" "length s < MAX_AWG_STRING_LEN"
  shows "\<exists>e'. parse_device_cb (attr_bytes WGDEVICE_A_H1 (str_bytes s @ [0]) @ rest) (e, d) =
    (MNL_CB_OK, e', d\<lparr>dev_flags := dev_flags d OR WGDEVICE_HAS_H1,
       init_packet_magic_header := Some (if length s = 3 then udec (of_le (str_bytes s)) else s)\<rparr>)"
proof -
  have f: "attr_fits WGDEVICE_A_H1 (str_bytes s @ [0])" using assms(2) by (intro dev_attr_fits) simp_all
  have "of_le (xs @ [0]) = of_le xs" for xs :: bytes by (induction xs) simp_all
  with assms(1) show ?thesis
    by (auto simp: parse_device_cb_def GET_MAGIC_HEADER_def when_valid_def attr_parts [OF f] attr_valid [OF f] attr_string [OF f]
        attr_numbers [OF f] mnl_attr_data_type_len_def)
qed

theorem header_kind_by_length_witness:
  "(\<exists>e'. parse_device_cb (attr_bytes WGDEVICE_A_H1 (str_bytes ''100'' @ [0])) (0, zero_device) =
     (MNL_CB_OK, e', zero_device\<lparr>dev_flags := WGDEVICE_HAS_H1, init_packet_magic_header := Some ''3158065''\<rparr>)) \<and>
   (\<exists>e'. parse_device_cb (attr_bytes WGDEVICE_A_H1 (str_bytes ''1000'' @ [0])) (0, zero_device) =
     (MNL_CB_OK, e', zero_device\<lparr>dev_flags := WGDEVICE_HAS_H1, init_packet_magic_header := Some ''1000''\<rparr>))"
proof
  have "of_le (str_bytes ''100'') = 3158065" "udec 3158065 = ''3158065''"
    by (simp_all add: str_bytes_def char_byte_def of_char_def print_num.simps digit_char_def char_of_def bit_0)
  with header_kind_by_length [of "''100''" "[]" 0 zero_device] show "\<exists>e'. parse_device_cb (attr_bytes WGDEVICE_A_H1 (str_bytes ''100'' @ [0])) (0, zero_device) =
     (MNL_CB_OK, e', zero_device\<lparr>dev_flags := WGDEVICE_HAS_H1, init_packet_magic_header := Some ''3158065''\<rparr>)"
    by (simp add: zero_device_def)
  show "\<exists>e'. parse_device_cb (attr_bytes WGDEVICE_A_H1 (str_bytes ''1000'' @ [0])) (0, zero_device) =
     (MNL_CB_OK, e', zero_device\<lparr>dev_flags := WGDEVICE_HAS_H1, init_packet_magic_header := Some ''1000''\<rparr>)"
    using header_kind_by_length [of "''1000''" "[]" 0 zero_device] by (simp add: zero_device_def)
qed

text \<open>What \<^verbatim>\<open>coalesce_peers\<close> leaves.\<close>

lemma memcmp_same: "memcmp a a n = 0"
proof (induction a arbitrary: n)
  case (Cons x a)
  then show ?case by (cases n) simp_all
qed simp

lemma coalesce_from_keys:
  "coalesce_from p t ps = Ok qs \<Longrightarrow> qs \<noteq> [] \<and> peer_public_key (hd qs) = peer_public_key p \<and> distinct_adj (map peer_public_key qs)"
proof (induction p t ps arbitrary: qs rule: coalesce_from.induct)
  case (2 p t q ps)
  show ?case
  proof (cases "memcmp (peer_public_key p) (peer_public_key q) WG_KEY_LEN \<noteq> 0")
    case True
    then have ne: "peer_public_key p \<noteq> peer_public_key q" by (auto simp: memcmp_same)
    from True "2.prems" obtain rest where
      r: "coalesce_from q (ips_tail (first_allowedip q)) ps = Ok rest" "qs = p # rest"
      by (cases "coalesce_from q (ips_tail (first_allowedip q)) ps") (simp_all add: coalesce_from.simps)
    from "2.IH"(1) [OF True r(1)] ne r(2) show ?thesis by (cases rest) auto
  next
    case False
    show ?thesis
    proof (cases "first_allowedip p = []")
      case True
      with False "2.prems" "2.IH"(2) [of qs] show ?thesis by (simp add: coalesce_from.simps)
    next
      case ips: False
      with False "2.prems" obtain i where "t = Some i" by (cases t) (simp_all add: coalesce_from.simps)
      with False ips "2.prems" "2.IH"(3) [of i qs] show ?thesis by (simp add: coalesce_from.simps)
    qed
  qed
qed (simp add: coalesce_from.simps)

lemma coalesce_peers_keys: "coalesce_peers d = Ok d' \<Longrightarrow> distinct_adj (map peer_public_key (first_peer d'))"
proof (cases "first_peer d")
  case (Cons p ps)
  moreover assume "coalesce_peers d = Ok d'"
  ultimately show ?thesis using coalesce_from_keys [of p "ips_tail (first_allowedip p)" ps]
    by (cases "coalesce_from p (ips_tail (first_allowedip p)) ps") (auto simp: coalesce_peers_def)
qed (simp add: coalesce_peers_def)

lemma open_Fail: "mnlg_socket_open N w name = Some (Fail e, w') \<Longrightarrow> e \<noteq> 0"
  by (auto simp: mnlg_socket_open_def split: if_splits prod.splits option.splits res.splits)

definition get_result_ok :: "(unit, int \<times> wgdevice option) res \<Rightarrow> bool" where
  "get_result_ok r \<longleftrightarrow> (\<forall>ret dev. r = Ok (ret, dev) \<longrightarrow>
     (case dev of None \<Rightarrow> ret \<noteq> 0 | Some d \<Rightarrow> ret = 0 \<and> distinct_adj (map peer_public_key (first_peer d))))"

lemma get_result_simps [simp]:
  "get_result_ok (Ok (ret, None)) \<longleftrightarrow> ret \<noteq> 0" "get_result_ok Fault"
  "get_result_ok (res_bind (coalesce_peers d) (\<lambda>d. Ok (0, Some d)))"
  using coalesce_peers_keys [of d] by (cases "coalesce_peers d"; simp add: get_result_ok_def)+

lemma get_try_again_result: "get_try_again N iface w = Some y \<Longrightarrow> get_result_ok (fst y)"
  apply (erule get_try_again.raw_induct [where P = "\<lambda>N iface w y. get_result_ok (fst y)", rotated])
  subgoal premises step for get N iface w y
  proof -
    note again = step(1) and run = step(2)
    obtain o' w1 where o: "mnlg_socket_open N w WG_GENL_NAME = Some (o', w1)"
      using run by (cases "mnlg_socket_open N w WG_GENL_NAME") auto
    show "get_result_ok (fst y)"
    proof (cases o')
      case (Fail e)
      with run o open_Fail [of N w WG_GENL_NAME e w1] show ?thesis by auto
    next
      case (Ok nlg)
      obtain nlh nlg' where p: "mnlg_msg_prepare N w1 nlg WG_CMD_GET_DEVICE (NLM_F_REQUEST + NLM_F_ACK + NLM_F_DUMP) = (nlh, nlg')" by fastforce
      show ?thesis
      proof (cases "mnl_attr_put (SOCKET_BUFFER_SIZE N) nlh WGDEVICE_A_IFNAME (str_bytes iface @ [0])")
        case put: (Ok m)
        obtain e w2 where s: "nl_send N w1 (wire m) = (e, w2)" by fastforce
        show ?thesis
        proof (cases "e = 0")
          case False
          with run o p put s Ok again [of N iface w2 y] show ?thesis by (auto split: if_splits)
        next
          case True
          with run o p put s Ok obtain ret e1 d w3 where
            r: "mnlg_socket_recv_run N nlg' (Some read_device_cb) w2 (0, zero_device) = Some ((ret, e1, d), w3)"
            by (cases "mnlg_socket_recv_run N nlg' (Some read_device_cb) w2 (0, zero_device)") auto
          with run o p put s Ok True again [of N iface w3 y] show ?thesis by (auto split: if_splits)
        qed
      qed (use run o p Ok in auto)
    qed (use run o in auto)
  qed
  done

text \<open>C33. Whatever the kernel sends, \<^verbatim>\<open>kernel_get_device\<close> hands out a device exactly with the result 0, and no two neighbouring peers of it have the
  same public key.\<close>

theorem get_device_result:
  assumes "linux_get_device N w iface = Some (Ok (ret, dev), w')"
  shows "(ret = 0 \<longleftrightarrow> dev \<noteq> None) \<and> (\<forall>d. dev = Some d \<longrightarrow> distinct_adj (map peer_public_key (first_peer d)))"
proof (cases "length iface \<ge> IFNAMSIZ")
  case True
  with assms show ?thesis by (auto simp: linux_get_device_def)
next
  case False
  with assms have "get_result_ok (Ok (ret, dev))" using get_try_again_result [of N iface w] by (fastforce simp: linux_get_device_def)
  then show ?thesis by (auto simp: get_result_ok_def split: option.splits)
qed

lemma demo_get_empty: "linux_get_device demo_kernel ([], []) ''wg0'' = Some (Ok (0, Some zero_device), [], [])"
  using get_device_dumped [OF demo_dumps_device [of "([], [])" "[]" "''wg0''"], of "[]" zero_device]
  by (simp add: coalesce_peers_def zero_device_def)

theorem get_device_result_witness:
  "linux_get_device demo_kernel ([], []) ''wg0'' = Some (Ok (0, Some zero_device), [], []) \<and>
   distinct_adj (map peer_public_key (first_peer zero_device))"
  using get_device_result [OF demo_get_empty] demo_get_empty by simp

end
