(* ===== verification/Terminal.thy ===== *)
theory Terminal
  imports Sysdeps
begin

text \<open>
  \<^verbatim>\<open>terminal.c\<close> and \<^verbatim>\<open>terminal.h\<close>: text with colour codes, and the filter that removes the codes
  when the output is no terminal.  The filter works in place on the printed string: it overwrites each code
  with zeros and then prints what lies between the zeros.  The index loops are recursions on the index; the
  zero behind the string is not part of the list, so writing to it changes nothing.
\<close>

section \<open>Definitions\<close>

abbreviation ESC :: char where "ESC \<equiv> CHR 0x1B"

definition code :: "string \<Rightarrow> string" where
  "code c = ESC # CHR ''['' # c @ ''m''"

definition TERMINAL_FG_RED :: string where "TERMINAL_FG_RED = code ''31''"
definition TERMINAL_FG_GREEN :: string where "TERMINAL_FG_GREEN = code ''32''"
definition TERMINAL_FG_YELLOW :: string where "TERMINAL_FG_YELLOW = code ''33''"
definition TERMINAL_FG_CYAN :: string where "TERMINAL_FG_CYAN = code ''36''"
definition TERMINAL_BOLD :: string where "TERMINAL_BOLD = code ''1''"
definition TERMINAL_RESET :: string where "TERMINAL_RESET = code ''0''"

lemmas terminal_codes = TERMINAL_FG_RED_def TERMINAL_FG_GREEN_def TERMINAL_FG_YELLOW_def TERMINAL_FG_CYAN_def
  TERMINAL_BOLD_def TERMINAL_RESET_def

text \<open>The environment does not change, so the value kept from the first call is the value of every call.\<close>

definition color_mode :: "sys \<Rightarrow> bool \<Rightarrow> bool" where
  "color_mode S isatty =
     (case getenv S ''WG_COLOR_MODE'' of
        Some var \<Rightarrow> if var = ''always'' then True else if var = ''never'' then False else isatty
      | None \<Rightarrow> isatty)"

text \<open>Overwrite one code from behind its bracket, its final letter included.\<close>

function erase_code :: "string \<Rightarrow> nat \<Rightarrow> string" where
  "erase_code str j =
     (if j < length str then
        (if char_is_alpha (char_int (str ! j)) then str[j := NUL] else erase_code (str[j := NUL]) (j + 1))
      else str)"
  by pat_completeness auto
termination
  by (relation "measure (\<lambda>(str, j). length str - j)") auto

declare erase_code.simps [simp del]

lemma length_erase_code [simp]: "length (erase_code str j) = length str"
  by (induction str j rule: erase_code.induct) (subst erase_code.simps, auto)

function erase_codes :: "string \<Rightarrow> nat \<Rightarrow> string" where
  "erase_codes str i =
     (if i < length str - 2 then
        erase_codes
          (if str ! i = ESC \<and> str ! (i + 1) = CHR ''['' then erase_code (str[i := NUL, i + 1 := NUL]) (i + 2) else str)
          (i + 1)
      else str)"
  by pat_completeness auto
termination
  by (relation "measure (\<lambda>(str, i). length str - i)") auto

fun skip_zeros :: "string \<Rightarrow> nat" where
  "skip_zeros (c # s) = (if c \<noteq> NUL then 0 else skip_zeros s + 1)"
| "skip_zeros [] = 0"

function print_parts :: "string \<Rightarrow> nat \<Rightarrow> string" where
  "print_parts str i =
     (if i < length str then
        cstr (drop i str) @
          (let j = i + length (cstr (drop i str)) in print_parts str (j + skip_zeros (drop j str)))
      else [])"
  by pat_completeness auto
termination
proof (relation "measure (\<lambda>(str, i). length str - i)")
  fix str :: string and i j
  assume "i < length str" and j: "j = i + length (cstr (drop i str))"
  then obtain c s where d: "drop i str = c # s" by (metis Cons_nth_drop_Suc)
  have "0 < length (cstr (drop i str)) + skip_zeros (drop j str)"
    by (cases "c = NUL") (simp_all add: d j cstr_def)
  with \<open>i < length str\<close> j show "((str, j + skip_zeros (drop j str)), str, i) \<in> measure (\<lambda>(str, i). length str - i)"
    unfolding in_measure prod.case by linarith
qed simp

definition filter_ansi :: "bool \<Rightarrow> string \<Rightarrow> string" where
  "filter_ansi color str =
     (if color then str
      else print_parts (if length str \<ge> 2 then erase_codes str 0 else str) 0)"

definition terminal_printf :: "bool \<Rightarrow> string \<Rightarrow> string" where
  "terminal_printf color str = filter_ansi color str"

declare erase_codes.simps [simp del] print_parts.simps [simp del]

section \<open>What the filter prints\<close>

text \<open>The text without its codes: a code is an escape character and a bracket with at least one character
  behind them, up to the next letter.\<close>

function (sequential) strip_codes :: "string \<Rightarrow> string" where
  "strip_codes (e # b # c # s) =
     (if e = ESC \<and> b = CHR ''['' then strip_codes (drop 1 (dropWhile (\<lambda>c. \<not> is_c_alpha c) (c # s)))
      else e # strip_codes (b # c # s))"
| "strip_codes s = s"
  by pat_completeness auto
termination
proof (relation "measure length")
  fix e b c and s :: string
  have "length (dropWhile (\<lambda>c. \<not> is_c_alpha c) (c # s)) \<le> length (c # s)" by (rule length_dropWhile_le)
  then show "(drop 1 (dropWhile (\<lambda>c. \<not> is_c_alpha c) (c # s)), e # b # c # s) \<in> measure length" by simp
qed auto

lemma print_parts_filter: "print_parts str i = filter (\<lambda>c. c \<noteq> NUL) (drop i str)"
proof (induction str i rule: print_parts.induct)
  case (1 str i)
  have skip: "filter (\<lambda>c. c \<noteq> NUL) (drop (skip_zeros s) s) = filter (\<lambda>c. c \<noteq> NUL) s" for s
    by (induction s) auto
  have split: "filter (\<lambda>c. c \<noteq> NUL) s = cstr s @ filter (\<lambda>c. c \<noteq> NUL) (drop (length (cstr s)) s)" for s
    by (induction s) (auto simp: cstr_def)
  show ?case
  proof (cases "i < length str")
    case True
    define j where "j = i + length (cstr (drop i str))"
    have "print_parts str (j + skip_zeros (drop j str)) = filter (\<lambda>c. c \<noteq> NUL) (drop (j + skip_zeros (drop j str)) str)"
      using "1.IH" [OF True j_def] .
    also have "\<dots> = filter (\<lambda>c. c \<noteq> NUL) (drop j str)" using skip [of "drop j str"] by (simp add: add.commute)
    finally show ?thesis
      using split [of "drop i str"] True
      by (subst print_parts.simps) (simp add: j_def [symmetric] Let_def, simp add: j_def add.commute)
  qed (subst print_parts.simps, simp)
qed

lemma erase_code_append:
  "erase_code (pre @ s) (length pre) =
     pre @ replicate (length s - length (drop 1 (dropWhile (\<lambda>c. \<not> is_c_alpha c) s))) NUL @
       drop 1 (dropWhile (\<lambda>c. \<not> is_c_alpha c) s)"
proof (induction s arbitrary: pre)
  case Nil
  then show ?case by (subst erase_code.simps) simp
next
  case (Cons c s)
  have le: "length (drop 1 (dropWhile (\<lambda>c. \<not> is_c_alpha c) s)) \<le> length s"
    using length_dropWhile_le [of "\<lambda>c. \<not> is_c_alpha c" s] by simp
  show ?case
  proof (cases "is_c_alpha c")
    case True
    then show ?thesis by (subst erase_code.simps) simp
  next
    case False
    have "erase_code (pre @ c # s) (length pre) = erase_code ((pre @ [NUL]) @ s) (length (pre @ [NUL]))"
      using False by (subst erase_code.simps) simp
    also have "\<dots> = (pre @ [NUL]) @ replicate (length s - length (drop 1 (dropWhile (\<lambda>c. \<not> is_c_alpha c) s))) NUL @
        drop 1 (dropWhile (\<lambda>c. \<not> is_c_alpha c) s)" by (rule Cons.IH)
    finally show ?thesis using False le by (simp add: Suc_diff_le)
  qed
qed

lemma strip_codes_zeros: "filter (\<lambda>c. c \<noteq> NUL) (strip_codes (replicate n NUL @ s)) = filter (\<lambda>c. c \<noteq> NUL) (strip_codes s)"
proof (induction n)
  case (Suc n)
  have "filter (\<lambda>c. c \<noteq> NUL) (strip_codes (NUL # t)) = filter (\<lambda>c. c \<noteq> NUL) (strip_codes t)" for t
    by (cases t; cases "tl t") auto
  with Suc show ?case by simp
qed simp

lemma erase_codes_strip:
  "filter (\<lambda>c. c \<noteq> NUL) (erase_codes (pre @ s) (length pre)) =
     filter (\<lambda>c. c \<noteq> NUL) pre @ filter (\<lambda>c. c \<noteq> NUL) (strip_codes s)"
proof (induction "length s" arbitrary: pre s)
  case 0
  then have "\<not> length pre < length (pre @ s) - 2" by simp
  with 0 show ?case by (subst erase_codes.simps) simp
next
  case (Suc n)
  show ?case
  proof (cases s rule: strip_codes.cases)
    case (1 e b c t)
    define r where "r = drop 1 (dropWhile (\<lambda>c. \<not> is_c_alpha c) (c # t))"
    have step: "erase_codes (pre @ s) (length pre) =
        erase_codes (if e = ESC \<and> b = CHR ''[''
          then erase_code ((pre @ [NUL, NUL]) @ c # t) (length (pre @ [NUL, NUL])) else pre @ s) (length pre + 1)"
      by (subst erase_codes.simps) (simp add: 1 nth_append list_update_append)
    show ?thesis
    proof (cases "e = ESC \<and> b = CHR ''[''")
      case True
      have le: "length r \<le> length (c # t)"
        unfolding r_def using length_dropWhile_le [of "\<lambda>c. \<not> is_c_alpha c" "c # t"] by simp
      let ?z = "NUL # replicate (length (c # t) - length r) NUL @ r"
      have "erase_codes (pre @ s) (length pre) = erase_codes ((pre @ [NUL]) @ ?z) (length (pre @ [NUL]))"
        unfolding step erase_code_append r_def [symmetric] using True by simp
      moreover have "length ?z = n" using Suc.hyps(2) le 1 by simp
      moreover have "filter (\<lambda>c. c \<noteq> NUL) (strip_codes ?z) = filter (\<lambda>c. c \<noteq> NUL) (strip_codes r)"
        using strip_codes_zeros [of "Suc (length (c # t) - length r)" r] by simp
      moreover have "strip_codes s = strip_codes r" using True by (simp add: 1 r_def)
      ultimately show ?thesis using Suc.hyps(1) [of ?z "pre @ [NUL]"] by simp
    next
      case False
      then have "erase_codes (pre @ s) (length pre) = erase_codes ((pre @ [e]) @ (b # c # t)) (length (pre @ [e]))"
        unfolding step by (simp only: if_not_P [OF False] 1) simp
      moreover have "strip_codes s = e # strip_codes (b # c # t)"
        unfolding 1 by (simp only: strip_codes.simps if_not_P [OF False])
      moreover have "length (b # c # t) = n" using Suc.hyps(2) 1 by simp
      ultimately show ?thesis using Suc.hyps(1) [of "b # c # t" "pre @ [e]"] by simp
    qed
  qed (subst erase_codes.simps, auto)+
qed

lemma strip_codes_no_NUL: "NUL \<notin> set s \<Longrightarrow> NUL \<notin> set (strip_codes s)"
proof (induction s rule: strip_codes.induct)
  case (1 e b c s)
  have sub: "set (drop 1 (dropWhile (\<lambda>c. \<not> is_c_alpha c) (c # s))) \<subseteq> set (c # s)"
    by (meson order_trans set_drop_subset set_dropWhileD subsetI)
  show ?case
  proof (cases "e = ESC \<and> b = CHR ''[''")
    case True
    have "NUL \<notin> set (drop 1 (dropWhile (\<lambda>c. \<not> is_c_alpha c) (c # s)))" using sub "1.prems" by auto
    from "1.IH"(1) [OF True this] True show ?thesis by (simp only: strip_codes.simps if_P) simp
  next
    case False
    with "1.IH"(2) [OF False] "1.prems" show ?thesis by (simp only: strip_codes.simps if_not_P) auto
  qed
qed auto

lemma filter_ansi_strip: "NUL \<notin> set str \<Longrightarrow> filter_ansi False str = strip_codes str"
proof -
  assume n: "NUL \<notin> set str"
  have short: "strip_codes str = str" if "length str < 2"
    using that by (cases str; cases "tl str") auto
  have "filter (\<lambda>c. c \<noteq> NUL) (strip_codes str) = strip_codes str"
    using strip_codes_no_NUL [OF n] by (auto simp: filter_id_conv)
  moreover have "filter (\<lambda>c. c \<noteq> NUL) str = str" using n by (auto simp: filter_id_conv)
  ultimately show ?thesis
    using erase_codes_strip [of "[]" str] short by (auto simp: filter_ansi_def print_parts_filter)
qed

section \<open>Properties\<close>

text \<open>C17. On a terminal the text is printed as it is; elsewhere the two passes over the string, which overwrite
  the codes with zeros and print what is between the zeros, print the text without its colour codes and
  nothing else is lost.\<close>

theorem terminal_codes_removed:
  assumes "NUL \<notin> set str"
  shows "terminal_printf color str = (if color then str else strip_codes str)"
  using filter_ansi_strip [OF assms] by (simp add: terminal_printf_def filter_ansi_def)

theorem terminal_codes_removed_witness:
  "terminal_printf False (TERMINAL_BOLD @ ''peer'' @ TERMINAL_RESET @ '': x'') = ''peer: x''"
proof -
  have "strip_codes (TERMINAL_BOLD @ ''peer'' @ TERMINAL_RESET @ '': x'') = ''peer: x''"
    by (simp add: terminal_codes code_def is_c_alpha_def)
  then show ?thesis
    using terminal_codes_removed [of "TERMINAL_BOLD @ ''peer'' @ TERMINAL_RESET @ '': x''" False]
    by (simp add: terminal_codes code_def)
qed

end
