(* ===== verification/Show.thy ===== *)
theory Show
  imports Ipc_Uapi Terminal
begin

text \<open>
  \<^verbatim>\<open>show.c\<close>: the command \<^verbatim>\<open>show\<close> with its three kinds of output, for people, for scripts one value
  at a time, and the dump.  The output is what the calls of \<^verbatim>\<open>printf\<close> and \<^verbatim>\<open>terminal_printf\<close> write
  to the standard output, in their order; messages on the standard error are left out.  The clock, the
  texts of resolver errors, the list of interfaces and the answers of \<^verbatim>\<open>ipc_get_device\<close> are arguments.
\<close>

section \<open>Peers in the order of their handshakes\<close>

text \<open>Times are 64-bit signed numbers; the difference is taken modulo \<open>2 ^ 64\<close>.\<close>

definition peer_cmp :: "wgpeer \<Rightarrow> wgpeer \<Rightarrow> int" where
  "peer_cmp a b =
     (let t = last_handshake_time a; u = last_handshake_time b in
      if tv_sec t = 0 \<and> tv_nsec t = 0 \<and> (tv_sec u \<noteq> 0 \<or> tv_nsec u \<noteq> 0) then 1
      else if tv_sec u = 0 \<and> tv_nsec u = 0 \<and> (tv_sec t \<noteq> 0 \<or> tv_nsec t \<noteq> 0) then - 1
      else
        let diff = tv_sec t - tv_sec u;
            diff = (if diff = 0 then tv_nsec t - tv_nsec u else diff)
        in if sint diff < 0 then 1 else if sint diff > 0 then - 1 else 0)"

definition sort_peers :: "wgdevice \<Rightarrow> wgdevice" where
  "sort_peers device =
     (if first_peer device = [] then device
      else device\<lparr>first_peer := qsort peer_cmp (first_peer device)\<rparr>)"

section \<open>Values as text\<close>

abbreviation TAB :: char where "TAB \<equiv> CHR 0x09"

definition maybe_key :: "bytes \<Rightarrow> bool \<Rightarrow> string" where
  "maybe_key k have_it = (if \<not> have_it then ''(none)'' else key_to_base64 k)"

definition masked_key :: "sys \<Rightarrow> bytes \<Rightarrow> string" where
  "masked_key S k =
     (case getenv S ''WG_HIDE_KEYS'' of
        Some var \<Rightarrow> if var = ''never'' then key_to_base64 k else ''(hidden)''
      | None \<Rightarrow> ''(hidden)'')"

definition ip_text :: "sys \<Rightarrow> wgallowedip \<Rightarrow> string" where
  "ip_text S a =
     (if a_family a = AF_INET \<or> a_family a = AF_INET6
      then (case inet_ntop S (a_family a) (ip_bytes a) of None \<Rightarrow> [] | Some s \<Rightarrow> s)
      else [])"

definition endpoint_text :: "sys \<Rightarrow> (gai_error \<Rightarrow> string) \<Rightarrow> sockaddr \<Rightarrow> string" where
  "endpoint_text S gai_strerror sa =
     (case getnameinfo S sa (sockaddr_len sa) of
        Inl e \<Rightarrow> gai_strerror e
      | Inr (host, service) \<Rightarrow> format_endpoint sa host service)"

text \<open>One unit of a time, with a comma when something stands before it.\<close>

definition time_part :: "string \<Rightarrow> nat \<Rightarrow> string \<Rightarrow> string" where
  "time_part buf n name =
     buf @ (if n = 0 then [] else
       print_if (buf \<noteq> []) '', '' @ udec n @ '' '' @ TERMINAL_FG_CYAN @ name @ print_if (n \<noteq> 1) ''s'' @ TERMINAL_RESET)"

definition pretty_time :: "nat \<Rightarrow> string" where
  "pretty_time left =
     (let years = left div (365 * 24 * 60 * 60); left = left mod (365 * 24 * 60 * 60);
          days = left div (24 * 60 * 60); left = left mod (24 * 60 * 60);
          hours = left div (60 * 60); left = left mod (60 * 60);
          minutes = left div 60; seconds = left mod 60
      in time_part (time_part (time_part (time_part (time_part [] years ''year'') days ''day'') hours ''hour'')
           minutes ''minute'') seconds ''second'')"

definition ago :: "int \<Rightarrow> timespec64 \<Rightarrow> string" where
  "ago now t =
     (let sec = sint (tv_sec t) in
      if now = sec then ''Now''
      else if now < sec then
        ''('' @ TERMINAL_FG_RED @ ''System clock wound backward; connection problems may ensue.'' @ TERMINAL_RESET @ '')''
      else pretty_time (nat (now - sec)) @ '' ago'')"

definition every :: "u16 \<Rightarrow> string" where
  "every seconds = ''every '' @ pretty_time (unat seconds)"

text \<open>
  A quotient rounded to the nearest whole number, to the even one in the middle; a 64-bit number as a
  \<^verbatim>\<open>double\<close>, which keeps 53 bits; and \<^verbatim>\<open>%.2f\<close> of such a number divided by a power of two,
  which is exact before it is printed.
\<close>

definition round_div :: "nat \<Rightarrow> nat \<Rightarrow> nat" where
  "round_div n d =
     (let q = n div d; r = n mod d in
      if 2 * r < d \<or> 2 * r = d \<and> even q then q else q + 1)"

fun bit_length :: "nat \<Rightarrow> nat" where
  "bit_length n = (if n = 0 then 0 else bit_length (n div 2) + 1)"

declare bit_length.simps [simp del]

definition double_of :: "nat \<Rightarrow> nat" where
  "double_of b =
     (if b < 2 ^ 53 then b else let e = bit_length b - 53 in round_div b (2 ^ e) * 2 ^ e)"

definition percent_2f :: "nat \<Rightarrow> nat \<Rightarrow> string" where
  "percent_2f x unit =
     (let h = round_div (100 * double_of x) unit
      in udec (h div 100) @ ''.'' @ udec (h mod 100 div 10) @ udec (h mod 10))"

definition bytes_text :: "u64 \<Rightarrow> string" where
  "bytes_text w =
     (let b = unat w; print = (\<lambda>v u. v @ '' '' @ TERMINAL_FG_CYAN @ u @ TERMINAL_RESET) in
      if b < 1024 then print (udec b) ''B''
      else if b < 1024 * 1024 then print (percent_2f b 1024) ''KiB''
      else if b < 1024 * 1024 * 1024 then print (percent_2f b (1024 * 1024)) ''MiB''
      else if b < 1024 * 1024 * 1024 * 1024 then print (percent_2f b (1024 * 1024 * 1024)) ''GiB''
      else print (percent_2f b (1024 * 1024 * 1024 * 1024)) ''TiB'')"

section \<open>For people\<close>

definition pretty_field :: "bool \<Rightarrow> string \<Rightarrow> string \<Rightarrow> string" where
  "pretty_field color name v =
     terminal_printf color (''  '' @ TERMINAL_BOLD @ name @ TERMINAL_RESET @ '': '' @ v @ [NL])"

definition pretty_number :: "bool \<Rightarrow> string \<Rightarrow> u16 \<Rightarrow> string" where
  "pretty_number color name n = print_if (n \<noteq> 0) (pretty_field color name (udec (unat n)))"

definition pretty_string :: "bool \<Rightarrow> string \<Rightarrow> string option \<Rightarrow> string" where
  "pretty_string color name v = (case v of None \<Rightarrow> [] | Some s \<Rightarrow> pretty_field color name s)"

definition pretty_interface :: "sys \<Rightarrow> bool \<Rightarrow> wgdevice \<Rightarrow> string" where
  "pretty_interface S color d =
     terminal_printf color TERMINAL_RESET @
     terminal_printf color (TERMINAL_FG_GREEN @ TERMINAL_BOLD @ ''interface'' @ TERMINAL_RESET @ '': '' @
       TERMINAL_FG_GREEN @ dev_name d @ TERMINAL_RESET @ [NL]) @
     print_if (has (dev_flags d) WGDEVICE_HAS_PUBLIC_KEY)
       (pretty_field color ''public key'' (key_to_base64 (dev_public_key d))) @
     print_if (has (dev_flags d) WGDEVICE_HAS_PRIVATE_KEY)
       (pretty_field color ''private key'' (masked_key S (private_key d))) @
     pretty_number color ''listening port'' (listen_port d) @
     print_if (fwmark d \<noteq> 0) (pretty_field color ''fwmark'' (''0x'' @ uhex (unat (fwmark d)))) @
     pretty_number color ''jc'' (junk_packet_count d) @
     pretty_number color ''jmin'' (junk_packet_min_size d) @
     pretty_number color ''jmax'' (junk_packet_max_size d) @
     pretty_number color ''s1'' (init_packet_junk_size d) @
     pretty_number color ''s2'' (response_packet_junk_size d) @
     pretty_number color ''s3'' (cookie_reply_packet_junk_size d) @
     pretty_number color ''s4'' (transport_packet_junk_size d) @
     pretty_string color ''h1'' (init_packet_magic_header d) @
     pretty_string color ''h2'' (response_packet_magic_header d) @
     pretty_string color ''h3'' (underload_packet_magic_header d) @
     pretty_string color ''h4'' (transport_packet_magic_header d) @
     pretty_string color ''i1'' (i1 d) @ pretty_string color ''i2'' (i2 d) @ pretty_string color ''i3'' (i3 d) @
     pretty_string color ''i4'' (i4 d) @ pretty_string color ''i5'' (i5 d)"

fun pretty_allowedips :: "sys \<Rightarrow> bool \<Rightarrow> wgallowedip list \<Rightarrow> string" where
  "pretty_allowedips S color [] = []"
| "pretty_allowedips S color (a # as) =
     terminal_printf color (ip_text S a @ TERMINAL_FG_CYAN @ ''/'' @ TERMINAL_RESET @ udec (unat (a_cidr a)) @
       (if as \<noteq> [] then '', '' else [NL])) @ pretty_allowedips S color as"

definition pretty_peer ::
  "sys \<Rightarrow> (gai_error \<Rightarrow> string) \<Rightarrow> bool \<Rightarrow> int \<Rightarrow> bool \<Rightarrow> wgpeer \<Rightarrow> string"
where
  "pretty_peer S gai_strerror color now next_peer p =
     terminal_printf color (TERMINAL_FG_YELLOW @ TERMINAL_BOLD @ ''peer'' @ TERMINAL_RESET @ '': '' @
       TERMINAL_FG_YELLOW @ key_to_base64 (peer_public_key p) @ TERMINAL_RESET @ [NL]) @
     print_if (has (peer_flags p) WGPEER_HAS_PRESHARED_KEY)
       (pretty_field color ''preshared key'' (masked_key S (preshared_key p))) @
     print_if (has_endpoint p) (pretty_field color ''endpoint'' (endpoint_text S gai_strerror (endpoint p))) @
     terminal_printf color (''  '' @ TERMINAL_BOLD @ ''allowed ips'' @ TERMINAL_RESET @ '': '') @
     (if first_allowedip p \<noteq> [] then pretty_allowedips S color (first_allowedip p)
      else terminal_printf color (''(none)'' @ [NL])) @
     print_if (tv_sec (last_handshake_time p) \<noteq> 0)
       (pretty_field color ''latest handshake'' (ago now (last_handshake_time p))) @
     print_if (rx_bytes p \<noteq> 0 \<or> tx_bytes p \<noteq> 0)
       (terminal_printf color (''  '' @ TERMINAL_BOLD @ ''transfer'' @ TERMINAL_RESET @ '': '') @
        terminal_printf color (bytes_text (rx_bytes p) @ '' received, '') @
        terminal_printf color (bytes_text (tx_bytes p) @ '' sent'' @ [NL])) @
     print_if (persistent_keepalive_interval p \<noteq> 0)
       (pretty_field color ''persistent keepalive'' (every (persistent_keepalive_interval p))) @
     print_if next_peer (terminal_printf color [NL])"

fun pretty_peers :: "sys \<Rightarrow> (gai_error \<Rightarrow> string) \<Rightarrow> bool \<Rightarrow> int \<Rightarrow> wgpeer list \<Rightarrow> string" where
  "pretty_peers S gai_strerror color now [] = []"
| "pretty_peers S gai_strerror color now (p # ps) =
     pretty_peer S gai_strerror color now (ps \<noteq> []) p @ pretty_peers S gai_strerror color now ps"

definition pretty_print :: "sys \<Rightarrow> (gai_error \<Rightarrow> string) \<Rightarrow> bool \<Rightarrow> int \<Rightarrow> wgdevice \<Rightarrow> string" where
  "pretty_print S gai_strerror color now device =
     pretty_interface S color device @
     print_if (first_peer device \<noteq> []) (terminal_printf color [NL]) @
     pretty_peers S gai_strerror color now (first_peer (sort_peers device))"

section \<open>For scripts\<close>

definition tabbed :: "string list \<Rightarrow> string" where
  "tabbed fs = concat (map (\<lambda>f. f @ [TAB]) fs)"

definition hex_or_off :: "u32 \<Rightarrow> string" where
  "hex_or_off m = (if m \<noteq> 0 then ''0x'' @ uhex (unat m) else ''off'')"

definition number_or_off :: "u16 \<Rightarrow> string" where
  "number_or_off n = (if n \<noteq> 0 then udec (unat n) else ''off'')"

fun joined_ips :: "sys \<Rightarrow> char \<Rightarrow> char \<Rightarrow> wgallowedip list \<Rightarrow> string" where
  "joined_ips S sep end [] = []"
| "joined_ips S sep end (a # as) =
     ip_text S a @ ''/'' @ udec (unat (a_cidr a)) @ [if as \<noteq> [] then sep else end] @ joined_ips S sep end as"

definition ips_or_none :: "sys \<Rightarrow> char \<Rightarrow> char \<Rightarrow> wgallowedip list \<Rightarrow> string" where
  "ips_or_none S sep end as = (if as \<noteq> [] then joined_ips S sep end as else ''(none)'' @ [end])"

definition endpoint_or_none :: "sys \<Rightarrow> (gai_error \<Rightarrow> string) \<Rightarrow> wgpeer \<Rightarrow> string" where
  "endpoint_or_none S gai_strerror p =
     (if has_endpoint p then endpoint_text S gai_strerror (endpoint p) else ''(none)'')"

definition prefix :: "wgdevice \<Rightarrow> bool \<Rightarrow> string" where
  "prefix device with_interface = print_if with_interface (dev_name device @ [TAB])"

definition dump_interface :: "wgdevice \<Rightarrow> string" where
  "dump_interface d =
     tabbed [maybe_key (private_key d) (has (dev_flags d) WGDEVICE_HAS_PRIVATE_KEY),
       maybe_key (dev_public_key d) (has (dev_flags d) WGDEVICE_HAS_PUBLIC_KEY),
       udec (unat (listen_port d)), udec (unat (junk_packet_count d)), udec (unat (junk_packet_min_size d)),
       udec (unat (junk_packet_max_size d)), udec (unat (init_packet_junk_size d)),
       udec (unat (response_packet_junk_size d)), udec (unat (cookie_reply_packet_junk_size d)),
       udec (unat (transport_packet_junk_size d)),
       percent_s (init_packet_magic_header d), percent_s (response_packet_magic_header d),
       percent_s (underload_packet_magic_header d), percent_s (transport_packet_magic_header d),
       percent_s (i1 d), percent_s (i2 d), percent_s (i3 d), percent_s (i4 d), percent_s (i5 d)] @
     hex_or_off (fwmark d) @ [NL]"

definition dump_peer :: "sys \<Rightarrow> (gai_error \<Rightarrow> string) \<Rightarrow> wgpeer \<Rightarrow> string" where
  "dump_peer S gai_strerror p =
     tabbed [key_to_base64 (peer_public_key p),
       maybe_key (preshared_key p) (has (peer_flags p) WGPEER_HAS_PRESHARED_KEY),
       endpoint_or_none S gai_strerror p] @
     ips_or_none S (CHR '','') TAB (first_allowedip p) @
     tabbed [udec (unat (tv_sec (last_handshake_time p))), udec (unat (rx_bytes p)), udec (unat (tx_bytes p))] @
     number_or_off (persistent_keepalive_interval p) @ [NL]"

definition dump_print :: "sys \<Rightarrow> (gai_error \<Rightarrow> string) \<Rightarrow> wgdevice \<Rightarrow> bool \<Rightarrow> string" where
  "dump_print S gai_strerror device with_interface =
     prefix device with_interface @ dump_interface device @
     concat (map (\<lambda>p. prefix device with_interface @ dump_peer S gai_strerror p) (first_peer device))"

text \<open>One value of the interface, or one line for each peer; \<open>None\<close> for a parameter that does not exist.
  A string that is not set is a null pointer, and \<^verbatim>\<open>printf("%s\n", NULL)\<close> is undefined (compilers turn it into
  \<^verbatim>\<open>puts\<close>, which follows the pointer), unlike in \<^verbatim>\<open>dump_print\<close>, which tests for it.\<close>

definition device_value :: "wgdevice \<Rightarrow> string \<Rightarrow> string option option" where
  "device_value d param =
     (if param = ''public-key'' then Some (Some (maybe_key (dev_public_key d) (has (dev_flags d) WGDEVICE_HAS_PUBLIC_KEY)))
      else if param = ''private-key'' then Some (Some (maybe_key (private_key d) (has (dev_flags d) WGDEVICE_HAS_PRIVATE_KEY)))
      else if param = ''listen-port'' then Some (Some (udec (unat (listen_port d))))
      else if param = ''fwmark'' then Some (Some (hex_or_off (fwmark d)))
      else if param = ''jc'' then Some (Some (udec (unat (junk_packet_count d))))
      else if param = ''jmin'' then Some (Some (udec (unat (junk_packet_min_size d))))
      else if param = ''jmax'' then Some (Some (udec (unat (junk_packet_max_size d))))
      else if param = ''s1'' then Some (Some (udec (unat (init_packet_junk_size d))))
      else if param = ''s2'' then Some (Some (udec (unat (response_packet_junk_size d))))
      else if param = ''s3'' then Some (Some (udec (unat (cookie_reply_packet_junk_size d))))
      else if param = ''s4'' then Some (Some (udec (unat (transport_packet_junk_size d))))
      else if param = ''h1'' then Some (init_packet_magic_header d)
      else if param = ''h2'' then Some (response_packet_magic_header d)
      else if param = ''h3'' then Some (underload_packet_magic_header d)
      else if param = ''h4'' then Some (transport_packet_magic_header d)
      else if param = ''i1'' then Some (i1 d)
      else if param = ''i2'' then Some (i2 d)
      else if param = ''i3'' then Some (i3 d)
      else if param = ''i4'' then Some (i4 d)
      else if param = ''i5'' then Some (i5 d)
      else None)"

definition peer_value :: "sys \<Rightarrow> (gai_error \<Rightarrow> string) \<Rightarrow> wgpeer \<Rightarrow> string \<Rightarrow> string option" where
  "peer_value S gai_strerror p param =
     (let k = key_to_base64 (peer_public_key p) in
      if param = ''endpoints'' then Some (k @ [TAB] @ endpoint_or_none S gai_strerror p @ [NL])
      else if param = ''allowed-ips'' then Some (k @ [TAB] @ ips_or_none S (CHR '' '') NL (first_allowedip p))
      else if param = ''latest-handshakes'' then
        Some (k @ [TAB] @ udec (unat (tv_sec (last_handshake_time p))) @ [NL])
      else if param = ''transfer'' then
        Some (k @ [TAB] @ udec (unat (rx_bytes p)) @ [TAB] @ udec (unat (tx_bytes p)) @ [NL])
      else if param = ''persistent-keepalive'' then
        Some (k @ [TAB] @ number_or_off (persistent_keepalive_interval p) @ [NL])
      else if param = ''preshared-keys'' then
        Some (k @ [TAB] @ maybe_key (preshared_key p) (has (peer_flags p) WGPEER_HAS_PRESHARED_KEY) @ [NL])
      else if param = ''peers'' then Some (k @ [NL])
      else None)"

text \<open>The failure is the parameter that does not exist.\<close>

definition ugly_print :: "sys \<Rightarrow> (gai_error \<Rightarrow> string) \<Rightarrow> wgdevice \<Rightarrow> string \<Rightarrow> bool \<Rightarrow> (unit, string) res" where
  "ugly_print S gai_strerror device param with_interface =
     (case device_value device param of
        Some (Some v) \<Rightarrow> Ok (prefix device with_interface @ v @ [NL])
      | Some None \<Rightarrow> Fault
      | None \<Rightarrow>
          if peer_value S gai_strerror zero_peer param \<noteq> None then
            Ok (concat (map (\<lambda>p. prefix device with_interface @ the (peer_value S gai_strerror p param)) (first_peer device)))
          else if param = ''dump'' then Ok (dump_print S gai_strerror device with_interface)
          else Fail ())"

section \<open>The command\<close>

text \<open>What is printed of the answer for one interface, and whether the parameter exists.  A null device is
  not followed only when the parameter does not exist.\<close>

definition show_device ::
  "sys \<Rightarrow> (gai_error \<Rightarrow> string) \<Rightarrow> bool \<Rightarrow> int \<Rightarrow> wgdevice option \<Rightarrow> string option \<Rightarrow> bool \<Rightarrow> (unit, string \<times> bool) res"
where
  "show_device S gai_strerror color now device param with_interface =
     (case (device, param) of
        (Some d, None) \<Rightarrow> Ok (pretty_print S gai_strerror color now d, True)
      | (Some d, Some param) \<Rightarrow>
          (case ugly_print S gai_strerror d param with_interface of
             Ok out \<Rightarrow> Ok (out, True)
           | Fail _ \<Rightarrow> Ok ([], False)
           | _ \<Rightarrow> Fault)
      | (None, Some param) \<Rightarrow>
          if ugly_print S gai_strerror zero_device param with_interface = Fail () then Ok ([], False) else Fault
      | (None, None) \<Rightarrow> Fault)"

fun show_all ::
  "sys \<Rightarrow> (gai_error \<Rightarrow> string) \<Rightarrow> bool \<Rightarrow> int \<Rightarrow> (string \<Rightarrow> int \<times> wgdevice option) \<Rightarrow> string option \<Rightarrow> string list \<Rightarrow> int \<Rightarrow>
     (unit, int \<times> string) res"
where
  "show_all S gai_strerror color now get param [] ret = Ok (ret, [])"
| "show_all S gai_strerror color now get param (interface # rest) ret =
     (case get interface of (r, device) \<Rightarrow>
        if r < 0 then show_all S gai_strerror color now get param rest ret
        else
          res_bind (show_device S gai_strerror color now device param True) (\<lambda>(out, found).
            if \<not> found then Ok (1, out)
            else
              res_bind (show_all S gai_strerror color now get param rest 0) (\<lambda>(ret, more).
                Ok (ret, out @ print_if (param = None \<and> rest \<noteq> []) [NL] @ more))))"

fun show_names :: "string list \<Rightarrow> string" where
  "show_names [] = []"
| "show_names (interface # rest) = interface @ [if rest \<noteq> [] then CHR '' '' else NL] @ show_names rest"

text \<open>The exit status and the output; \<open>interfaces\<close> is the buffer of \<^verbatim>\<open>ipc_list_devices\<close>, \<open>get\<close> the result
  and the device of \<^verbatim>\<open>ipc_get_device\<close>.\<close>

definition show_main ::
  "sys \<Rightarrow> (gai_error \<Rightarrow> string) \<Rightarrow> bool \<Rightarrow> int \<Rightarrow> string option \<Rightarrow> (string \<Rightarrow> int \<times> wgdevice option) \<Rightarrow> string list \<Rightarrow>
     (unit, int \<times> string) res"
where
  "show_main S gai_strerror color now interfaces get argv =
     (let param = (if length argv = 3 then Some (argv ! 2) else None) in
      if length argv > 3 then Ok (1, [])
      else if length argv = 1 \<or> argv ! 1 = ''all'' then
        (case interfaces of
           None \<Rightarrow> Ok (1, [])
         | Some b \<Rightarrow>
             show_all S gai_strerror color now get param (names_in b) (if names_in b \<noteq> [] then 1 else 0))
      else if argv ! 1 = ''interfaces'' then
        (if length argv > 2 then Ok (1, [])
         else case interfaces of None \<Rightarrow> Ok (1, []) | Some b \<Rightarrow> Ok (0, show_names (names_in b)))
      else if length argv = 2 \<and> (argv ! 1 = ''-h'' \<or> argv ! 1 = ''--help'' \<or> argv ! 1 = ''help'') then Ok (0, [])
      else
        (case get (argv ! 1) of (r, device) \<Rightarrow>
           if r < 0 then Ok (1, [])
           else
             res_bind (show_device S gai_strerror color now device param False)
               (\<lambda>(out, found). Ok (if found then 0 else 1, out))))"

section \<open>The order of the peers\<close>

abbreviation handshake_sec :: "wgpeer \<Rightarrow> nat" where "handshake_sec p \<equiv> unat (tv_sec (last_handshake_time p))"
abbreviation handshake_nsec :: "wgpeer \<Rightarrow> nat" where "handshake_nsec p \<equiv> unat (tv_nsec (last_handshake_time p))"

text \<open>Times that are not negative, and the order of the later one first.\<close>

definition handshake_ok :: "wgpeer \<Rightarrow> bool" where
  "handshake_ok p \<longleftrightarrow> handshake_sec p < 2 ^ 63 \<and> handshake_nsec p < 2 ^ 63"

definition not_before :: "wgpeer \<Rightarrow> wgpeer \<Rightarrow> bool" where
  "not_before a b \<longleftrightarrow> handshake_sec b < handshake_sec a \<or>
     handshake_sec b = handshake_sec a \<and> handshake_nsec b \<le> handshake_nsec a"

lemma sint_diff:
  fixes x y :: u64 assumes "unat x < 2 ^ 63" "unat y < 2 ^ 63"
  shows "sint (x - y) = int (unat x) - int (unat y)"
proof -
  have range: "- (2 ^ 63) \<le> int p - int q \<and> int p - int q < 2 ^ 63" if "p < 2 ^ 63" "q < 2 ^ 63" for p q :: nat
    using that by auto
  have "x - y = word_of_int (int (unat x) - int (unat y))" by simp
  then have "sint (x - y) = signed_take_bit 63 (int (unat x) - int (unat y))"
    by (simp only: signed_of_int) simp
  also have "\<dots> = int (unat x) - int (unat y)" using range [OF assms] by (intro signed_take_bit_int_eq_self) (simp_all only:)
  finally show ?thesis .
qed

lemma peer_cmp_le:
  assumes "handshake_ok a" "handshake_ok b"
  shows "peer_cmp a b \<le> 0 \<longleftrightarrow> not_before a b"
proof -
  let ?t = "last_handshake_time a" and ?u = "last_handshake_time b"
  have sec: "sint (tv_sec ?t - tv_sec ?u) = int (handshake_sec a) - int (handshake_sec b)"
    and nsec: "sint (tv_nsec ?t - tv_nsec ?u) = int (handshake_nsec a) - int (handshake_nsec b)"
    using assms by (simp_all add: handshake_ok_def sint_diff)
  have z: "(w :: u64) = 0 \<longleftrightarrow> unat w = 0" for w by (simp add: unat_eq_zero)
  have d: "tv_sec ?t - tv_sec ?u = 0 \<longleftrightarrow> handshake_sec a = handshake_sec b"
    unfolding right_minus_eq by (rule word_unat_eq_iff)
  then have d2: "unat (tv_sec ?t - tv_sec ?u) = 0 \<longleftrightarrow> handshake_sec a = handshake_sec b" by (simp only: z)
  define p q r s where "p = handshake_sec a" and "q = handshake_sec b" and "r = handshake_nsec a" and "s = handshake_nsec b"
  have "peer_cmp a b =
      (if p = 0 \<and> r = 0 \<and> (q \<noteq> 0 \<or> s \<noteq> 0) then 1 else if q = 0 \<and> s = 0 \<and> (p \<noteq> 0 \<or> r \<noteq> 0) then - 1
       else if (if p = q then int r - int s else int p - int q) < 0 then 1
       else if (if p = q then int r - int s else int p - int q) > 0 then - 1 else 0)"
    unfolding peer_cmp_def Let_def if_distrib [of sint] d sec nsec unfolding z d2 p_def q_def r_def s_def by (rule refl)
  then show ?thesis
    unfolding not_before_def p_def [symmetric] q_def [symmetric] r_def [symmetric] s_def [symmetric] by auto
qed

interpretation handshakes: comparison peer_cmp handshake_ok
proof unfold_locales
  fix a b c assume ok: "handshake_ok a" "handshake_ok b" "handshake_ok c" and "peer_cmp a b \<le> 0" "peer_cmp b c \<le> 0"
  then have "not_before a b" "not_before b c" by (simp_all add: peer_cmp_le)
  then have "not_before a c" by (auto simp: not_before_def)
  with ok show "peer_cmp a c \<le> 0" by (simp add: peer_cmp_le)
next
  fix a b assume ok: "handshake_ok a" "handshake_ok b"
  have "not_before a b \<or> not_before b a" by (auto simp: not_before_def)
  with ok show "peer_cmp a b \<le> 0 \<or> peer_cmp b a \<le> 0" by (simp add: peer_cmp_le)
qed

lemma first_peer_sort: "first_peer (sort_peers d) = qsort peer_cmp (first_peer d)"
  by (simp add: sort_peers_def qsort_def)

lemma sort_peers_sorted:
  assumes "list_all handshake_ok (first_peer d)"
  shows "sorted_wrt not_before (first_peer (sort_peers d))"
proof -
  have ok: "handshake_ok p" if "p \<in> set (qsort peer_cmp (first_peer d))" for p
    using that assms by (simp add: list_all_iff handshakes.set_qsort)
  have "sorted_wrt handshakes.le (qsort peer_cmp (first_peer d))"
    by (rule handshakes.sorted_qsort) (use assms in \<open>simp add: list_all_iff\<close>)
  then show ?thesis
    unfolding first_peer_sort by (rule sorted_wrt_mono_rel [rotated]) (use ok peer_cmp_le in blast)
qed

section \<open>Times and sizes\<close>

lemma length_udec: "n < 10 ^ k \<Longrightarrow> 0 < k \<Longrightarrow> length (udec n) \<le> k"
proof (induction k arbitrary: n)
  case (Suc k)
  show ?case
  proof (cases "n < 10")
    case False
    then have "0 < k" using Suc.prems(1) by (cases k) auto
    moreover have "n div 10 < 10 ^ k" using Suc.prems(1) by (simp add: div_less_iff_less_mult mult.commute)
    ultimately show ?thesis using Suc.IH [of "n div 10"] False by (simp add: print_num_step)
  qed (simp add: print_num_small)
qed simp

lemma length_time_part:
  assumes "n < 10 ^ 20"
  shows "length (time_part buf n name) \<le> length buf + length name + 33"
proof -
  have "length (udec n) \<le> 20" by (rule length_udec [OF assms]) simp
  then show ?thesis by (auto simp: time_part_def print_if_def TERMINAL_FG_CYAN_def TERMINAL_RESET_def code_def)
qed

lemma pretty_time_length:
  assumes "left < 2 ^ 64" shows "length (pretty_time left) < 1017"
proof -
  have small: "left div k < 10 ^ 20" "left mod k div m < 10 ^ 20" "left mod k mod m div l < 10 ^ 20"
    "left mod k mod m mod l div j < 10 ^ 20" "left mod k mod m mod l mod j < 10 ^ 20" for k m l j
  proof -
    have "left < 10 ^ 20" using assms by simp
    moreover have "left div k \<le> left" "left mod k div m \<le> left" "left mod k mod m div l \<le> left"
      "left mod k mod m mod l div j \<le> left" "left mod k mod m mod l mod j \<le> left"
      by (meson div_le_dividend mod_less_eq_dividend order_trans)+
    ultimately show "left div k < 10 ^ 20" "left mod k div m < 10 ^ 20" "left mod k mod m div l < 10 ^ 20"
      "left mod k mod m mod l div j < 10 ^ 20" "left mod k mod m mod l mod j < 10 ^ 20" by linarith+
  qed
  define y d h m s where "y = left div 31536000" and "d = left mod 31536000 div 86400"
    and "h = left mod 31536000 mod 86400 div 3600" and "m = left mod 31536000 mod 86400 mod 3600 div 60"
    and "s = left mod 31536000 mod 86400 mod 3600 mod 60"
  note parts = length_time_part [of y "[]" "''year''"] length_time_part [of d _ "''day''"]
    length_time_part [of h _ "''hour''"] length_time_part [of m _ "''minute''"] length_time_part [of s _ "''second''"]
  have b: "y < 10 ^ 20" "d < 10 ^ 20" "h < 10 ^ 20" "m < 10 ^ 20" "s < 10 ^ 20"
    unfolding y_def d_def h_def m_def s_def by (rule small)+
  define t1 where "t1 = time_part [] y ''year''"
  define t2 where "t2 = time_part t1 d ''day''"
  define t3 where "t3 = time_part t2 h ''hour''"
  define t4 where "t4 = time_part t3 m ''minute''"
  have "pretty_time left = time_part t4 s ''second''"
    by (simp add: pretty_time_def Let_def t1_def t2_def t3_def t4_def y_def d_def h_def m_def s_def)
  moreover have "length t1 \<le> 37" using parts(1) [OF b(1)] by (simp add: t1_def)
  moreover have "length t2 \<le> length t1 + 36" using parts(2) [OF b(2), of t1] by (simp add: t2_def)
  moreover have "length t3 \<le> length t2 + 37" using parts(3) [OF b(3), of t2] by (simp add: t3_def)
  moreover have "length t4 \<le> length t3 + 39" using parts(4) [OF b(4), of t3] by (simp add: t4_def)
  moreover have "length (time_part t4 s ''second'') \<le> length t4 + 39" using parts(5) [OF b(5), of t4] by simp
  ultimately show ?thesis by simp
qed

lemma round_div_error: "0 < d \<Longrightarrow> 2 * abs (int n - int (round_div n d * d)) \<le> int d"
proof -
  assume d: "0 < d"
  have n: "int n = int (n div d) * int d + int (n mod d)"
    by (simp only: of_nat_mult [symmetric] of_nat_add [symmetric] div_mult_mod_eq)
  have r: "int (n mod d) < int d" using d by simp
  show ?thesis
  proof (cases "2 * (n mod d) < d \<or> 2 * (n mod d) = d \<and> even (n div d)")
    case True
    then have "round_div n d = n div d" by (simp add: round_div_def)
    with True n show ?thesis by auto
  next
    case False
    then have q: "round_div n d = n div d + 1" by (auto simp: round_div_def Let_def)
    have "int (round_div n d * d) = int (n div d) * int d + int d" by (simp add: q algebra_simps)
    then have "int n - int (round_div n d * d) = int (n mod d) - int d" using n by simp
    moreover have "int d \<le> 2 * int (n mod d)" using False by linarith
    ultimately show ?thesis using r by simp
  qed
qed

text \<open>The unit and the number of hundredths that are shown.\<close>

definition size_unit :: "nat \<Rightarrow> nat \<times> string" where
  "size_unit b =
     (if b < 1024 ^ 2 then (1024, ''KiB'') else if b < 1024 ^ 3 then (1024 ^ 2, ''MiB'')
      else if b < 1024 ^ 4 then (1024 ^ 3, ''GiB'') else (1024 ^ 4, ''TiB''))"

lemma bytes_text_unit:
  assumes "1024 \<le> unat w"
  shows "bytes_text w = percent_2f (unat w) (fst (size_unit (unat w))) @ '' '' @ TERMINAL_FG_CYAN @
    snd (size_unit (unat w)) @ TERMINAL_RESET"
  using assms by (simp add: bytes_text_def size_unit_def Let_def)

section \<open>Hidden keys\<close>

text \<open>A device with other secrets.\<close>

definition with_secrets :: "bytes \<Rightarrow> (wgpeer \<Rightarrow> bytes) \<Rightarrow> wgdevice \<Rightarrow> wgdevice" where
  "with_secrets k psk d =
     d\<lparr>private_key := k, first_peer := map (\<lambda>p. p\<lparr>preshared_key := psk p\<rparr>) (first_peer d)\<rparr>"

lemma qsort_map:
  assumes "\<And>a b. cmp (g a) (g b) = cmp a b"
  shows "qsort cmp (map g xs) = map g (qsort cmp xs)"
proof -
  have "qsort_insert cmp (g x) (map g ys) = map g (qsort_insert cmp x ys)" for x ys
    by (induction ys) (simp_all add: assms)
  then show ?thesis by (induction xs) (simp_all add: qsort_def)
qed

lemma masked_key_hidden: "getenv S ''WG_HIDE_KEYS'' \<noteq> Some ''never'' \<Longrightarrow> masked_key S k = ''(hidden)''"
  by (auto simp: masked_key_def split: option.splits)

lemma pretty_peers_hidden:
  assumes "getenv S ''WG_HIDE_KEYS'' \<noteq> Some ''never''"
  shows "pretty_peers S e c now (map (\<lambda>p. p\<lparr>preshared_key := psk p\<rparr>) ps) = pretty_peers S e c now ps"
  by (induction ps) (simp_all add: pretty_peer_def masked_key_hidden [OF assms] has_endpoint_def)

lemma pretty_print_hidden:
  assumes "getenv S ''WG_HIDE_KEYS'' \<noteq> Some ''never''"
  shows "pretty_print S e c now (with_secrets k psk d) = pretty_print S e c now d"
proof -
  have cmp: "peer_cmp (a\<lparr>preshared_key := psk a\<rparr>) (b\<lparr>preshared_key := psk b\<rparr>) = peer_cmp a b" for a b
    by (simp add: peer_cmp_def)
  have "first_peer (sort_peers (with_secrets k psk d)) = map (\<lambda>p. p\<lparr>preshared_key := psk p\<rparr>) (first_peer (sort_peers d))"
    unfolding first_peer_sort with_secrets_def by (simp add: qsort_map [of peer_cmp, OF cmp])
  moreover have "pretty_interface S c (with_secrets k psk d) = pretty_interface S c d"
    by (simp add: pretty_interface_def with_secrets_def masked_key_hidden [OF assms])
  moreover have "first_peer (with_secrets k psk d) = [] \<longleftrightarrow> first_peer d = []" by (simp add: with_secrets_def)
  ultimately show ?thesis by (simp add: pretty_print_def pretty_peers_hidden [OF assms])
qed

section \<open>Exit statuses and null devices\<close>

lemma device_value_None: "device_value d param = None \<longleftrightarrow> device_value zero_device param = None"
  by (simp add: device_value_def)

lemma ugly_print_Fail: "ugly_print S e d param w = Fail () \<longleftrightarrow> ugly_print S e zero_device param w = Fail ()"
  using device_value_None [of d param] by (auto simp: ugly_print_def split: option.splits)

lemma ugly_print_Fault: "ugly_print S e d param w = Fault \<longleftrightarrow> device_value d param = Some None"
  by (simp add: ugly_print_def split: option.split)

lemma ugly_print_cases: "ugly_print S e d param w \<noteq> Hang \<and> ugly_print S e d param w \<noteq> Exit ()"
  by (simp add: ugly_print_def split: option.split)

lemma show_device_Fault:
  "show_device S e c now dev param w = Fault \<longleftrightarrow>
     (case dev of
        None \<Rightarrow> (\<forall>p. param = Some p \<longrightarrow> ugly_print S e zero_device p w \<noteq> Fail ())
      | Some d \<Rightarrow> (\<exists>p. param = Some p \<and> device_value d p = Some None))"
  using ugly_print_Fault [of S e "the dev" "the param" w]
  by (auto simp: show_device_def ugly_print_cases split: option.splits res.splits)

lemma show_device_found: "show_device S e c now (Some d) None w = Ok (pretty_print S e c now d, True)"
  by (simp add: show_device_def)

lemma show_all_status:
  assumes "\<And>n. n \<in> set names \<Longrightarrow> fst (get n) < 0 \<or> snd (get n) \<noteq> None"
  shows "\<exists>out. show_all S e c now get None names ret =
    Ok (if list_ex (\<lambda>n. 0 \<le> fst (get n)) names then 0 else ret, out)"
  using assms
proof (induction names arbitrary: ret)
  case (Cons n names)
  obtain r dev where g: "get n = (r, dev)" by fastforce
  have ih: "\<exists>out. show_all S e c now get None names ret =
      Ok (if list_ex (\<lambda>n. 0 \<le> fst (get n)) names then 0 else ret, out)" for ret
    using Cons.IH Cons.prems by simp
  obtain out0 where ih0: "show_all S e c now get None names 0 = Ok (0, out0)" using ih [of 0] by auto
  show ?case
  proof (cases "r < 0")
    case False
    with Cons.prems [of n] g obtain d where "dev = Some d" by auto
    with False g ih0 show ?thesis by (simp add: show_device_found)
  qed (use g ih [of ret] in simp)
qed simp

text \<open>The parameters, and the strings among them that can be missing.\<close>

lemma device_value_missing:
  "device_value d param = Some None \<longleftrightarrow>
     (param, None) \<in> {(''h1'', init_packet_magic_header d), (''h2'', response_packet_magic_header d),
       (''h3'', underload_packet_magic_header d), (''h4'', transport_packet_magic_header d), (''i1'', i1 d), (''i2'', i2 d),
       (''i3'', i3 d), (''i4'', i4 d), (''i5'', i5 d)}"
proof (cases "param \<in> {''h1'', ''h2'', ''h3'', ''h4'', ''i1'', ''i2'', ''i3'', ''i4'', ''i5''}")
  case True
  then show ?thesis by (elim insertE emptyE) (simp_all add: device_value_def eq_commute [of None])
next
  case False
  then show ?thesis by (simp add: device_value_def)
qed

lemma iff_by_cases: "(Q \<Longrightarrow> P) \<Longrightarrow> (\<not> Q \<Longrightarrow> \<not> P) \<Longrightarrow> P \<longleftrightarrow> Q"
  by blast

lemma ugly_print_exists:
  "ugly_print S gai_strerror zero_device param b \<noteq> Fail () \<longleftrightarrow>
     param \<in> {''public-key'', ''private-key'', ''listen-port'', ''fwmark'', ''jc'', ''jmin'', ''jmax'', ''s1'', ''s2'', ''s3'', ''s4'',
       ''h1'', ''h2'', ''h3'', ''h4'', ''i1'', ''i2'', ''i3'', ''i4'', ''i5'', ''endpoints'', ''allowed-ips'', ''latest-handshakes'',
       ''transfer'', ''persistent-keepalive'', ''preshared-keys'', ''peers'', ''dump''}"
proof -
  let ?D = "{''public-key'', ''private-key'', ''listen-port'', ''fwmark'', ''jc'', ''jmin'', ''jmax'', ''s1'', ''s2'', ''s3'', ''s4'',
    ''h1'', ''h2'', ''h3'', ''h4'', ''i1'', ''i2'', ''i3'', ''i4'', ''i5''}"
  let ?P = "{''endpoints'', ''allowed-ips'', ''latest-handshakes'', ''transfer'', ''persistent-keepalive'', ''preshared-keys'', ''peers''}"
  have d: "device_value zero_device param \<noteq> None \<longleftrightarrow> param \<in> ?D"
  proof (rule iff_by_cases)
    show "param \<in> ?D \<Longrightarrow> device_value zero_device param \<noteq> None" by (elim insertE emptyE) (simp_all add: device_value_def)
    show "param \<notin> ?D \<Longrightarrow> \<not> device_value zero_device param \<noteq> None" by (simp add: device_value_def)
  qed
  have p: "peer_value S gai_strerror zero_peer param \<noteq> None \<longleftrightarrow> param \<in> ?P"
  proof (rule iff_by_cases)
    show "param \<in> ?P \<Longrightarrow> peer_value S gai_strerror zero_peer param \<noteq> None" by (elim insertE emptyE) (simp_all add: peer_value_def)
    show "param \<notin> ?P \<Longrightarrow> \<not> peer_value S gai_strerror zero_peer param \<noteq> None" by (simp add: peer_value_def)
  qed
  have "ugly_print S gai_strerror zero_device param b \<noteq> Fail () \<longleftrightarrow>
      device_value zero_device param \<noteq> None \<or> peer_value S gai_strerror zero_peer param \<noteq> None \<or> param = ''dump''"
    by (simp add: ugly_print_def split: option.split)
  then show ?thesis unfolding d p by (simp only: insert_iff empty_iff simp_thms disj_assoc)
qed

section \<open>Properties\<close>

text \<open>C31. The peers are shown in the order of their latest handshakes, the most recent first and those
  without one last, and none is lost or shown twice.  The comparison by a wrapping 64-bit difference is a
  total order on times that are not negative.\<close>

theorem peers_by_latest_handshake:
  assumes "list_all handshake_ok (first_peer d)"
  shows "sorted_wrt not_before (first_peer (sort_peers d)) \<and> mset (first_peer (sort_peers d)) = mset (first_peer d)"
  using sort_peers_sorted [OF assms] by (simp add: first_peer_sort handshakes.mset_qsort)

theorem peers_by_latest_handshake_witness:
  "map handshake_sec (first_peer (sort_peers (zero_device\<lparr>first_peer :=
     [zero_peer, zero_peer\<lparr>last_handshake_time := \<lparr>tv_sec = 1700000000, tv_nsec = 5\<rparr>\<rparr>]\<rparr>))) = [1700000000, 0]"
proof -
  let ?q = "zero_peer\<lparr>last_handshake_time := \<lparr>tv_sec = 1700000000, tv_nsec = 5\<rparr>\<rparr>"
  let ?d = "zero_device\<lparr>first_peer := [zero_peer, ?q]\<rparr>"
  have "list_all handshake_ok (first_peer ?d)" by (simp add: handshake_ok_def zero_peer_def)
  from peers_by_latest_handshake [OF this]
  have "sorted_wrt not_before (first_peer (sort_peers ?d))" and m: "mset (first_peer (sort_peers ?d)) = {#zero_peer, ?q#}"
    by simp_all
  moreover have "first_peer (sort_peers ?d) = [zero_peer, ?q] \<or> first_peer (sort_peers ?d) = [?q, zero_peer]"
    by (simp add: first_peer_sort qsort_def)
  moreover have "\<not> not_before zero_peer ?q" by (simp add: not_before_def zero_peer_def)
  ultimately have "first_peer (sort_peers ?d) = [?q, zero_peer]" by auto
  then show ?thesis by (simp add: zero_peer_def)
qed

text \<open>C18. What \<^verbatim>\<open>show\<close> prints for people does not depend on the private key or on any preshared key, unless
  the environment asks for keys never to be hidden.\<close>

theorem secrets_hidden:
  assumes "getenv S ''WG_HIDE_KEYS'' \<noteq> Some ''never''"
  shows "pretty_print S gai_strerror color now (with_secrets k psk d) = pretty_print S gai_strerror color now d"
  by (rule pretty_print_hidden [OF assms])

theorem secrets_hidden_witness:
  "pretty_print sample_sys (\<lambda>_. []) False 0 (with_secrets (replicate 32 1) (\<lambda>_. replicate 32 2) sample_device) =
   pretty_print sample_sys (\<lambda>_. []) False 0 sample_device"
proof -
  have "getenv sample_sys ''WG_HIDE_KEYS'' \<noteq> Some ''never''" by (simp add: sample_sys_def)
  then show ?thesis by (rule secrets_hidden)
qed

text \<open>C32. Showing one interface follows a null pointer exactly when the answer is not negative and yet
  there is no device, unless a parameter is given that does not exist (this is the case for the positive error
  that an answer with an unresolvable endpoint gives), or when the parameter is one of the four headers or
  the five junk packets and the device has no such string.\<close>

theorem show_null_pointer:
  assumes "name \<notin> {''all'', ''interfaces'', ''-h'', ''--help'', ''help''}"
  shows "(show_main S gai_strerror color now interfaces get [command, name] = Fault \<longleftrightarrow>
      0 \<le> fst (get name) \<and> snd (get name) = None) \<and>
    (show_main S gai_strerror color now interfaces get [command, name, param] = Fault \<longleftrightarrow>
      0 \<le> fst (get name) \<and>
      (case snd (get name) of
         None \<Rightarrow> param \<in> {''public-key'', ''private-key'', ''listen-port'', ''fwmark'', ''jc'', ''jmin'', ''jmax'', ''s1'', ''s2'', ''s3'', ''s4'',
           ''h1'', ''h2'', ''h3'', ''h4'', ''i1'', ''i2'', ''i3'', ''i4'', ''i5'', ''endpoints'', ''allowed-ips'', ''latest-handshakes'',
           ''transfer'', ''persistent-keepalive'', ''preshared-keys'', ''peers'', ''dump''}
       | Some d \<Rightarrow> (param, None) \<in> {(''h1'', init_packet_magic_header d), (''h2'', response_packet_magic_header d),
           (''h3'', underload_packet_magic_header d), (''h4'', transport_packet_magic_header d), (''i1'', i1 d), (''i2'', i2 d),
           (''i3'', i3 d), (''i4'', i4 d), (''i5'', i5 d)}))"
proof -
  note show_main_one = show_main_def res_simps show_device_Fault
  have "show_main S gai_strerror color now interfaces get [command, name] = Fault \<longleftrightarrow> 0 \<le> fst (get name) \<and> snd (get name) = None"
    using assms by (cases "get name") (auto simp: show_main_one split: option.splits)
  moreover have "show_main S gai_strerror color now interfaces get [command, name, param] = Fault \<longleftrightarrow> 0 \<le> fst (get name) \<and>
      (case snd (get name) of None \<Rightarrow> ugly_print S gai_strerror zero_device param False \<noteq> Fail () | Some d \<Rightarrow> device_value d param = Some None)"
    using assms by (cases "get name") (auto simp: show_main_one split: option.splits)
  ultimately show ?thesis unfolding ugly_print_exists device_value_missing by (rule conjI)
qed

theorem show_null_pointer_witness:
  "show_main sample_sys (\<lambda>_. []) False 0 None (\<lambda>_. (ENETUNREACH, None)) [''show'', ''wg0''] = Fault \<and>
   show_main sample_sys (\<lambda>_. []) False 0 None (\<lambda>_. (0, Some zero_device)) [''show'', ''wg0'', ''i1''] = Fault"
  using show_null_pointer [of "''wg0''" sample_sys "\<lambda>_. []" False 0 None "\<lambda>_. (ENETUNREACH, None)" "''show''"]
    show_null_pointer [of "''wg0''" sample_sys "\<lambda>_. []" False 0 None "\<lambda>_. (0, Some zero_device)" "''show''" "''i1''"]
  by (simp add: zero_device_def)

text \<open>Showing all interfaces succeeds when there is none or at least one of them answers, and fails when
  none of those there are answers; it follows no null pointer when every answer that is not negative comes
  with a device.\<close>

theorem show_all_exit_status:
  assumes "\<And>n. n \<in> set (names_in b) \<Longrightarrow> fst (get n) < 0 \<or> snd (get n) \<noteq> None"
  shows "\<exists>out. show_main S gai_strerror color now (Some b) get [command, ''all''] =
    Ok (if names_in b = [] \<or> (\<exists>n \<in> set (names_in b). 0 \<le> fst (get n)) then 0 else 1, out)"
  using show_all_status [where S = S and e = gai_strerror and c = color and now = now and get = get
      and names = "names_in b" and ret = "if names_in b \<noteq> [] then 1 else 0", OF assms]
  by (auto simp: show_main_def list_ex_iff split: if_splits)

theorem show_all_exit_status_witness:
  "\<exists>out. show_main sample_sys (\<lambda>_. []) False 0 (Some (packed [''wg0''] @ [NUL])) (\<lambda>_. (- EINVAL, None))
     [''show'', ''all''] = Ok (1, out)"
proof -
  have "names_in (packed [''wg0''] @ [NUL]) = [''wg0'']" using names_in_packed [of "[''wg0'']" "[]"] by simp
  then show ?thesis
    using show_all_exit_status [of "packed [''wg0''] @ [NUL]" "\<lambda>_. (- EINVAL, None)" sample_sys "\<lambda>_. []" False 0 "''show''"]
    by simp
qed

text \<open>A number of bytes below \<open>2 ^ 53\<close> is shown in the largest unit that is not above it, with two
  decimals that are off by at most half a hundredth of the unit.\<close>

theorem sizes_rounded_to_hundredths:
  assumes "1024 \<le> unat w" "unat w < 2 ^ 53" "size_unit (unat w) = (u, name)"
  shows "u \<le> unat w \<and> (\<exists>h. bytes_text w = udec (h div 100) @ ''.'' @ udec (h mod 100 div 10) @ udec (h mod 10) @ '' '' @
      TERMINAL_FG_CYAN @ name @ TERMINAL_RESET \<and> 2 * abs (100 * int (unat w) - int (h * u)) \<le> int u)"
proof -
  have u: "0 < u" "u \<le> unat w" using assms(1,3) by (auto simp: size_unit_def split: if_splits)
  let ?h = "round_div (100 * unat w) u"
  have "2 * abs (100 * int (unat w) - int (?h * u)) \<le> int u"
    using round_div_error [OF u(1), of "100 * unat w"] by simp
  moreover have "bytes_text w = udec (?h div 100) @ ''.'' @ udec (?h mod 100 div 10) @ udec (?h mod 10) @ '' '' @
      TERMINAL_FG_CYAN @ name @ TERMINAL_RESET"
    using assms(2,3) by (simp add: bytes_text_unit [OF assms(1)] percent_2f_def double_of_def Let_def)
  ultimately show ?thesis using u(2) by blast
qed

theorem sizes_rounded_to_hundredths_witness:
  "\<exists>h. bytes_text 1536 = udec (h div 100) @ ''.'' @ udec (h mod 100 div 10) @ udec (h mod 10) @ '' '' @
      TERMINAL_FG_CYAN @ ''KiB'' @ TERMINAL_RESET \<and> 2 * abs (100 * int 1536 - int (h * 1024)) \<le> int 1024"
  using sizes_rounded_to_hundredths [of 1536 1024 "''KiB''"] by (simp add: size_unit_def)

text \<open>A duration is shown as whole years, days, hours, minutes and seconds that add up to it, and the text
  fits the buffers of 1024 bytes it is written to, also behind the word that \<^verbatim>\<open>every\<close> puts in front, so
  that it is never cut off.\<close>

theorem durations_exact_and_fit:
  assumes "left < 2 ^ 64"
  shows "\<exists>years days hours minutes seconds.
    left = 31536000 * years + 86400 * days + 3600 * hours + 60 * minutes + seconds \<and>
    days < 365 \<and> hours < 24 \<and> minutes < 60 \<and> seconds < 60 \<and>
    pretty_time left = time_part (time_part (time_part (time_part (time_part [] years ''year'') days ''day'')
      hours ''hour'') minutes ''minute'') seconds ''second'' \<and>
    length (pretty_time left) < 1017"
proof -
  let ?l1 = "left mod 31536000" and ?l2 = "left mod 31536000 mod 86400" and ?l3 = "left mod 31536000 mod 86400 mod 3600"
  have "left = 31536000 * (left div 31536000) + 86400 * (?l1 div 86400) + 3600 * (?l2 div 3600) + 60 * (?l3 div 60) + ?l3 mod 60"
    by presburger
  moreover have "?l1 div 86400 < 365" "?l2 div 3600 < 24" "?l3 div 60 < 60" "?l3 mod 60 < 60"
    by (simp_all add: div_less_iff_less_mult)
  moreover have "pretty_time left = time_part (time_part (time_part (time_part (time_part [] (left div 31536000) ''year'')
      (?l1 div 86400) ''day'') (?l2 div 3600) ''hour'') (?l3 div 60) ''minute'') (?l3 mod 60) ''second''"
    by (simp add: pretty_time_def Let_def)
  ultimately show ?thesis using pretty_time_length [OF assms] by blast
qed

theorem durations_exact_and_fit_witness: "length (pretty_time 90061) < 1017"
  using durations_exact_and_fit [of 90061] by auto

end
