(* ===== verification/Curve25519_Spec.thy ===== *)
theory Curve25519_Spec
  imports Prelude
begin

text \<open>
  What \<^verbatim>\<open>curve25519.c\<close> promises, for the two implementations to be measured against: the Montgomery ladder
  with the step of RFC 7748 on integers modulo \<open>2\<^sup>255 - 19\<close>, and the encodings of scalars and coordinates.
  The locale \<open>limb_field\<close> is what the ladder needs from an implementation of the field.
\<close>

section \<open>The ladder on integers\<close>

definition p25519 :: int where
  "p25519 = 2 ^ 255 - 19"

type_synonym mpoint = "int \<times> int"

definition mont_step :: "int \<Rightarrow> mpoint \<times> mpoint \<Rightarrow> mpoint \<times> mpoint" where
  "mont_step x1 s =
     (case s of ((x2, z2), (x3, z3)) \<Rightarrow>
        let a = (x2 + z2) mod p25519; aa = a * a mod p25519;
            b = (x2 - z2) mod p25519; bb = b * b mod p25519;
            e = (aa - bb) mod p25519;
            c = (x3 + z3) mod p25519; d = (x3 - z3) mod p25519;
            da = d * a mod p25519; cb = c * b mod p25519
        in ((aa * bb mod p25519, e * ((aa + 121665 * e) mod p25519) mod p25519),
            ((da + cb) ^ 2 mod p25519, x1 * ((da - cb) ^ 2 mod p25519) mod p25519)))"

definition cswap :: "bool \<Rightarrow> 'a \<times> 'a \<Rightarrow> 'a \<times> 'a" where
  "cswap b s = (if b then (snd s, fst s) else s)"

definition ladder_step :: "int \<Rightarrow> bool \<Rightarrow> mpoint \<times> mpoint \<Rightarrow> mpoint \<times> mpoint" where
  "ladder_step x1 b s = cswap b (mont_step x1 (cswap b s))"

text \<open>The bits of the scalar from number \<open>t - 1\<close> down to number 0.\<close>

fun ladder :: "int \<Rightarrow> nat \<Rightarrow> nat \<Rightarrow> mpoint \<times> mpoint \<Rightarrow> mpoint \<times> mpoint" where
  "ladder x1 k 0 s = s"
| "ladder x1 k (Suc t) s = ladder x1 k t (ladder_step x1 (bit k t) s)"

text \<open>The coordinate that a ladder over \<open>n\<close> bits gives.  RFC 7748 has 255 bits; clamped scalars have no more, but one
  implementation goes over 256.\<close>

definition x25519 :: "nat \<Rightarrow> nat \<Rightarrow> int \<Rightarrow> int" where
  "x25519 n k u =
     (case fst (ladder u k n ((1, 0), (u, 1))) of (x, z) \<Rightarrow> x * z ^ nat (p25519 - 2) mod p25519)"

section \<open>Encodings\<close>

definition curve25519_clamp_secret :: "bytes \<Rightarrow> bytes" where
  "curve25519_clamp_secret secret =
     (let secret = secret[0 := secret ! 0 AND 248] in secret[31 := (secret ! 31 AND 127) OR 64])"

lemma length_clamp [simp]: "length (curve25519_clamp_secret s) = length s"
  by (simp add: curve25519_clamp_secret_def Let_def)

definition decode_u :: "bytes \<Rightarrow> int" where
  "decode_u bs = int (of_le bs mod 2 ^ 255)"

text \<open>The function of RFC 7748 on bytes, with the number of bits.\<close>

definition rfc_x25519 :: "nat \<Rightarrow> bytes \<Rightarrow> bytes \<Rightarrow> bytes" where
  "rfc_x25519 n secret basepoint =
     le_bytes 32 (nat (x25519 n (of_le (curve25519_clamp_secret secret)) (decode_u basepoint)))"

section \<open>Arithmetic modulo the prime\<close>

lemma p25519_pos [simp]: "0 < p25519"
  by (simp add: p25519_def)

text \<open>Equality modulo the prime, and that the operations respect it.\<close>

definition eqp :: "int \<Rightarrow> int \<Rightarrow> bool" where
  "eqp a b \<longleftrightarrow> a mod p25519 = b mod p25519"

lemma eqp_refl [simp]: "eqp a a"
  by (simp add: eqp_def)

lemma eqp_sym: "eqp a b \<Longrightarrow> eqp b a"
  by (simp add: eqp_def)

lemma eqp_trans [trans]: "eqp a b \<Longrightarrow> eqp b c \<Longrightarrow> eqp a c"
  by (simp add: eqp_def)

lemma eqp_mod [simp]: "eqp (a mod p25519) b \<longleftrightarrow> eqp a b" "eqp a (b mod p25519) \<longleftrightarrow> eqp a b"
  by (simp_all add: eqp_def)

named_theorems eqp_intros \<open>operations that respect equality modulo the prime\<close>

lemma eqp_add [eqp_intros]: "eqp a a' \<Longrightarrow> eqp b b' \<Longrightarrow> eqp (a + b) (a' + b')"
  unfolding eqp_def by (rule mod_add_cong)

lemma eqp_diff [eqp_intros]: "eqp a a' \<Longrightarrow> eqp b b' \<Longrightarrow> eqp (a - b) (a' - b')"
  unfolding eqp_def by (rule mod_diff_cong)

lemma eqp_mult [eqp_intros]: "eqp a a' \<Longrightarrow> eqp b b' \<Longrightarrow> eqp (a * b) (a' * b')"
  unfolding eqp_def by (rule mod_mult_cong)

lemma eqp_power [eqp_intros]: "eqp a a' \<Longrightarrow> eqp (a ^ n) (a' ^ n)"
  by (induction n) (auto intro: eqp_mult)

lemma eqp_modI: "eqp a b \<Longrightarrow> eqp a (b mod p25519)"
  by simp

lemma eqp_multiple: "a = b + p25519 * k \<Longrightarrow> eqp a b"
  by (simp add: eqp_def)

lemma eqp_unique: "eqp a b \<Longrightarrow> 0 \<le> a \<Longrightarrow> a < p25519 \<Longrightarrow> a = b mod p25519"
  by (simp add: eqp_def)

lemma eqp_eq: "a = b \<Longrightarrow> eqp a b"
  by simp

text \<open>The radix of the limbs, or of a pair of limbs.\<close>

definition B51 :: int where
  "B51 = 2 ^ 51"

lemma B51_5: "B51 ^ 5 = p25519 + 19"
  by (simp add: B51_def p25519_def)

text \<open>The step without the reductions.\<close>

lemma mont_step_eqp:
  fixes x z u x' z' :: int
  shows "eqp ((x + z) * (x + z) * ((x - z) * (x - z))) (fst (fst (mont_step u ((x, z), (x', z')))))"
    and "eqp (((x + z) * (x + z) - (x - z) * (x - z)) *
      ((x + z) * (x + z) + 121665 * ((x + z) * (x + z) - (x - z) * (x - z))))
      (snd (fst (mont_step u ((x, z), (x', z')))))"
    and "eqp (((x' - z') * (x + z) + (x' + z') * (x - z)) ^ 2) (fst (snd (mont_step u ((x, z), (x', z')))))"
    and "eqp (u * ((x' - z') * (x + z) - (x' + z') * (x - z)) ^ 2) (snd (snd (mont_step u ((x, z), (x', z')))))"
  unfolding mont_step_def Let_def prod.case fst_conv snd_conv by (intro eqp_modI eqp_intros eqp_refl)+

section \<open>Machine integers without wrap-around\<close>

named_theorems no_wrap \<open>word operations as operations on numbers where nothing is lost\<close>

lemma unat_add_no_wrap [no_wrap]: "unat a + unat b < 2 ^ LENGTH('a) \<Longrightarrow> unat (a + b) = unat a + unat (b :: 'a::len word)"
  by (simp add: unat_word_ariths)

lemma unat_mult_no_wrap [no_wrap]: "unat a * unat b < 2 ^ LENGTH('a) \<Longrightarrow> unat (a * b) = unat a * unat (b :: 'a::len word)"
  by (simp add: unat_word_ariths)

lemma unat_sub_no_wrap [no_wrap]: "unat b \<le> unat a \<Longrightarrow> unat (a - b) = unat a - unat (b :: 'a::len word)"
  by (simp add: unat_sub word_le_nat_alt)

lemma unat_drop_bit_div [no_wrap]: "unat (drop_bit n a) = unat (a :: 'a::len word) div 2 ^ n"
  by (simp only: unat_drop_bit_eq) (simp add: drop_bit_eq_div)

lemma unat_and_mask: "unat (a AND mask n) = unat (a :: 'a::len word) mod 2 ^ n"
  by (simp only: unsigned_take_bit_eq flip: take_bit_eq_mask) (simp add: take_bit_eq_mod)

lemma unat_ucast_up: "LENGTH('a) \<le> LENGTH('b) \<Longrightarrow> unat (ucast (a :: 'a::len word) :: 'b::len word) = unat a"
  by (simp add: unsigned_ucast_eq take_bit_nat_eq_self_iff)
    (metis unsigned_less order_less_le_trans power_increasing_iff one_less_numeral_iff semiring_norm(76))

lemma unat_ucast_down: "unat (ucast (a :: 'a::len word) :: 'b::len word) = unat a mod 2 ^ LENGTH('b)"
  by (simp add: unsigned_ucast_eq take_bit_eq_mod)

section \<open>The ladder byte by byte\<close>

lemma ladder_add: "ladder u k (n + m) t = ladder u k m (ladder u (k div 2 ^ m) n t)"
proof (induction n arbitrary: t)
  case (Suc n)
  have "bit (k div 2 ^ m) n \<longleftrightarrow> bit k (n + m)" by (simp add: bit_iff_odd div_exp_eq add.commute)
  with Suc show ?case by simp
qed simp

lemma ladder_mod: "ladder u (k mod 2 ^ n) n t = ladder u k n t"
proof -
  have "m \<le> n \<Longrightarrow> ladder u (k mod 2 ^ n) m t = ladder u k m t" for m
    by (induction m arbitrary: t) (simp_all add: bit_take_bit_iff flip: take_bit_eq_mod)
  then show ?thesis by simp
qed

lemma of_le_drop: "of_le (drop i bs) = of_le bs div 256 ^ i"
proof (induction i arbitrary: bs)
  case (Suc i)
  show ?case
  proof (cases bs)
    case (Cons b bs')
    have "unat b < 256" using unsigned_less [of b, where 'a = nat] by simp
    then have "of_le bs div 256 = of_le bs'" by (simp add: Cons)
    then show ?thesis by (simp add: Cons Suc div_mult2_eq)
  qed simp
qed simp

lemma of_le_take: "of_le (take n bs) = of_le bs mod 256 ^ n"
proof (cases "n \<le> length bs")
  case True
  have "of_le bs = of_le (take n bs) + 256 ^ n * of_le (drop n bs)"
    using of_le_append [of "take n bs" "drop n bs"] True by (simp add: min.absorb2)
  moreover have "of_le (take n bs) < 256 ^ n" using of_le_less [of "take n bs"] True by (simp add: min.absorb2)
  ultimately show ?thesis by (metis mod_mult_self2 mod_less)
next
  case False
  then have "(256 :: nat) ^ length bs \<le> 256 ^ n" by (intro power_increasing) simp_all
  with of_le_less [of bs] have "of_le bs < 256 ^ n" by (rule order_less_le_trans)
  with False show ?thesis by simp
qed

lemma of_le_nth: "i < length bs \<Longrightarrow> of_le bs div 256 ^ i mod 256 = unat (bs ! i)"
proof -
  assume "i < length bs"
  then have "of_le (drop i bs) mod 256 = unat (bs ! i)"
    using unsigned_less [of "bs ! i", where 'a = nat] by (simp flip: Cons_nth_drop_Suc)
  then show ?thesis by (simp add: of_le_drop)
qed

lemma bit_of_le:
  assumes "pos div 8 < length bs"
  shows "1 AND drop_bit (pos mod 8) (ucast (bs ! (pos div 8))) = (of_bool (bit (of_le bs) pos) :: u32)"
proof -
  have "bit (of_le bs) pos \<longleftrightarrow> bit (take_bit 8 (drop_bit (8 * (pos div 8)) (of_le bs))) (pos mod 8)"
    by (simp add: bit_take_bit_iff bit_drop_bit_eq)
  also have "\<dots> \<longleftrightarrow> bit (of_le bs div 2 ^ (8 * (pos div 8)) mod 2 ^ 8) (pos mod 8)"
    by (simp only: take_bit_eq_mod drop_bit_eq_div)
  also have "\<dots> \<longleftrightarrow> bit (unat (bs ! (pos div 8))) (pos mod 8)"
    using of_le_nth [OF assms] by (simp add: power_mult)
  also have "\<dots> \<longleftrightarrow> bit (ucast (bs ! (pos div 8)) :: u32) (pos mod 8)"
    using less_trans [of "pos mod 8" 8 32] by (simp add: bit_unsigned_iff)
  finally have "bit (of_le bs) pos \<longleftrightarrow> bit (ucast (bs ! (pos div 8)) :: u32) (pos mod 8)" .
  then show ?thesis by (simp only: one_and_eq mod_2_eq_odd flip: bit_iff_odd_drop_bit)
qed

lemma ladder_byte: "i < length bs \<Longrightarrow> ladder u (of_le bs) (8 * Suc i) t = ladder u (of_le bs) (8 * i) (ladder u (unat (bs ! i)) 8 t)"
  using ladder_add [of u "of_le bs" 8 "8 * i" t] ladder_mod [of u "of_le bs div 2 ^ (8 * i)" 8 t] of_le_nth [of i bs]
  by (simp add: power_mult)

lemma le_bytes_of_le: "le_bytes (length bs) (of_le bs) = bs"
proof (induction bs)
  case (Cons b bs)
  have "unat b < 256" using unsigned_less [of b, where 'a = nat] by simp
  then have "(unat b + 256 * of_le bs) div 256 = of_le bs" by simp
  moreover have "of_nat (256 * of_le bs) = (0 :: u8)" by (simp only: word_of_nat_eq_0_iff) simp
  ultimately show ?case using Cons by (simp del: of_nat_mult of_nat_numeral)
qed simp

section \<open>Implementations of the field\<close>

text \<open>
  What the ladder needs from field elements in limbs: there are tight bounds on the limbs, which products have, and
  loose ones, which sums and differences have; products can take loose elements.  Each relation gives the number
  that an element stands for, up to multiples of the prime.
\<close>

locale limb_field =
  fixes tight loose :: "'fe \<Rightarrow> int \<Rightarrow> bool"
    and add sub mul :: "'fe \<Rightarrow> 'fe \<Rightarrow> 'fe"
    and sqr :: "'fe \<Rightarrow> 'fe"
  assumes tight_loose: "tight a v \<Longrightarrow> loose a v"
    and tight_eqp: "tight a v \<Longrightarrow> eqp v w \<Longrightarrow> tight a w"
    and add: "tight a v \<Longrightarrow> tight b w \<Longrightarrow> loose (add a b) (v + w)"
    and sub: "tight a v \<Longrightarrow> tight b w \<Longrightarrow> loose (sub a b) (v - w)"
    and mul: "loose a v \<Longrightarrow> loose b w \<Longrightarrow> tight (mul a b) (v * w)"
    and sqr: "loose a v \<Longrightarrow> tight (sqr a) (v * v)"
begin

text \<open>Repeated squaring, and products of powers.\<close>

lemma squarings: "loose a v \<Longrightarrow> tight ((sqr ^^ k) (sqr a)) (v ^ (2 ^ Suc k))"
proof (induction k)
  case 0
  from sqr [OF this] show ?case by (simp add: power2_eq_square)
next
  case (Suc k)
  from sqr [OF tight_loose [OF Suc.IH [OF Suc.prems]]] show ?case by (simp flip: power_add)
qed

lemma power_squarings: "loose a (v ^ e) \<Longrightarrow> 0 < n \<Longrightarrow> e * 2 ^ n = e' \<Longrightarrow> tight ((sqr ^^ (n - 1)) (sqr a)) (v ^ e')"
  using squarings [of a "v ^ e" "n - 1"] by (auto simp flip: power_mult)

lemma power_mul: "loose a (v ^ e) \<Longrightarrow> loose b (v ^ f) \<Longrightarrow> e + f = g \<Longrightarrow> tight (mul a b) (v ^ g)"
  using mul [of a "v ^ e" b "v ^ f"] by (auto simp flip: power_add)

text \<open>The parts of a step of the ladder that do not depend on the constant of the curve.\<close>

lemma step_parts:
  assumes "tight aa ((X + Z) * (X + Z))" "tight bb ((X - Z) * (X - Z))" "tight da ((X' - Z') * (X + Z))"
    "tight cb ((X' + Z') * (X - Z))" "tight q u"
  shows "tight (mul aa bb) (fst (fst (mont_step u ((X, Z), (X', Z')))))"
    "tight (sqr (add da cb)) (fst (snd (mont_step u ((X, Z), (X', Z')))))"
    "tight (mul q (sqr (sub da cb))) (snd (snd (mont_step u ((X, Z), (X', Z')))))"
  using tight_eqp [OF mul [OF assms(1,2) [THEN tight_loose]] mont_step_eqp(1)]
    tight_eqp [OF sqr [OF add [OF assms(3,4)]] mont_step_eqp(3) [unfolded power2_eq_square]]
    tight_eqp [OF mul [OF assms(5) [THEN tight_loose] sqr [OF sub [OF assms(3,4)], THEN tight_loose]] mont_step_eqp(4) [unfolded power2_eq_square]]
  by blast+

end

end
