(* ===== verification/Curve25519_Hacl64.thy ===== *)
theory Curve25519_Hacl64
  imports Curve25519_Spec
begin

text \<open>
  \<^verbatim>\<open>curve25519-hacl64.h\<close>: field elements in five limbs of 51 bits, products in 128-bit integers, the
  ladder, the inversion and the encodings, on machine integers.  An array of five limbs is a value of type \<open>fe\<close>, a function
  that writes through a pointer returns what it writes; an output that is the same array as an input is written after
  the input has been read.
\<close>

type_synonym u128 = "128 word"

datatype fe = Fe u64 u64 u64 u64 u64
datatype wide = Wide u128 u128 u128 u128 u128

section \<open>Masks\<close>

definition u64_eq_mask :: "u64 \<Rightarrow> u64 \<Rightarrow> u64" where
  "u64_eq_mask a b =
     (let x = a XOR b; minus_x = NOT x + 1; x_or_minus_x = x OR minus_x; xnx = drop_bit 63 x_or_minus_x in xnx - 1)"

definition u64_gte_mask :: "u64 \<Rightarrow> u64 \<Rightarrow> u64" where
  "u64_gte_mask a b =
     (let x = a; y = b; x_xor_y = x XOR y; x_sub_y = x - y; x_sub_y_xor_y = x_sub_y XOR y;
          q = x_xor_y OR x_sub_y_xor_y; x_xor_q = x XOR q; x_xor_q' = drop_bit 63 x_xor_q
      in x_xor_q' - 1)"

section \<open>Field arithmetic\<close>

abbreviation (input) mask51 :: "'a::len word" where "mask51 \<equiv> 0x7ffffffffffff"

fun modulo_carry_top :: "fe \<Rightarrow> fe" where
  "modulo_carry_top (Fe b0 b1 b2 b3 b4) = Fe (b0 + 19 * drop_bit 51 b4) b1 b2 b3 (b4 AND mask51)"

fun fproduct_copy_from_wide :: "wide \<Rightarrow> fe" where
  "fproduct_copy_from_wide (Wide t0 t1 t2 t3 t4) = Fe (ucast t0) (ucast t1) (ucast t2) (ucast t3) (ucast t4)"

fun fproduct_sum_scalar_multiplication :: "wide \<Rightarrow> fe \<Rightarrow> u64 \<Rightarrow> wide" where
  "fproduct_sum_scalar_multiplication (Wide o0 o1 o2 o3 o4) (Fe i0 i1 i2 i3 i4) s =
     Wide (o0 + ucast i0 * ucast s) (o1 + ucast i1 * ucast s) (o2 + ucast i2 * ucast s)
       (o3 + ucast i3 * ucast s) (o4 + ucast i4 * ucast s)"

text \<open>One limb of the carry: what remains of it and the next limb.\<close>

definition carry_wide :: "u128 \<Rightarrow> u128 \<Rightarrow> u128 \<times> u128" where
  "carry_wide tctr tctrp1 = (ucast ((ucast tctr :: u64) AND mask51), tctrp1 + drop_bit 51 tctr)"

fun fproduct_carry_wide :: "wide \<Rightarrow> wide" where
  "fproduct_carry_wide (Wide t0 t1 t2 t3 t4) =
     (let (t0, t1) = carry_wide t0 t1; (t1, t2) = carry_wide t1 t2;
          (t2, t3) = carry_wide t2 t3; (t3, t4) = carry_wide t3 t4
      in Wide t0 t1 t2 t3 t4)"

fun fmul_shift_reduce :: "fe \<Rightarrow> fe" where
  "fmul_shift_reduce (Fe a0 a1 a2 a3 a4) = Fe (19 * a4) a0 a1 a2 a3"

fun fmul_mul_shift_reduce :: "wide \<Rightarrow> fe \<Rightarrow> fe \<Rightarrow> wide" where
  "fmul_mul_shift_reduce out inp (Fe b0 b1 b2 b3 b4) =
     (let out = fproduct_sum_scalar_multiplication out inp b0; inp = fmul_shift_reduce inp;
          out = fproduct_sum_scalar_multiplication out inp b1; inp = fmul_shift_reduce inp;
          out = fproduct_sum_scalar_multiplication out inp b2; inp = fmul_shift_reduce inp;
          out = fproduct_sum_scalar_multiplication out inp b3; inp = fmul_shift_reduce inp
      in fproduct_sum_scalar_multiplication out inp b4)"

text \<open>The highest carry of a product comes back to the lowest limb, times 19; then the carry out of that limb.\<close>

fun carry_top_wide :: "wide \<Rightarrow> wide" where
  "carry_top_wide (Wide b0 t1 t2 t3 b4) =
     Wide (b0 + 19 * ucast (ucast (drop_bit 51 b4) :: u64)) t1 t2 t3 (b4 AND mask51)"

fun carry_0_to_1 :: "fe \<Rightarrow> fe" where
  "carry_0_to_1 (Fe i0 i1 a2 a3 a4) = Fe (i0 AND mask51) (i1 + drop_bit 51 i0) a2 a3 a4"

definition fmul_fmul :: "fe \<Rightarrow> fe \<Rightarrow> fe" where
  "fmul_fmul input input21 =
     (let t = fmul_mul_shift_reduce (Wide 0 0 0 0 0) input input21; t = fproduct_carry_wide t; t = carry_top_wide t
      in carry_0_to_1 (fproduct_copy_from_wide t))"

fun fsquare_products :: "fe \<Rightarrow> wide" where
  "fsquare_products (Fe r0 r1 r2 r3 r4) =
     (let d0 = r0 * 2; d1 = r1 * 2; d2 = r2 * 2 * 19; d419 = r4 * 19; d4 = d419 * 2 in
      Wide (ucast r0 * ucast r0 + ucast d4 * ucast r1 + ucast d2 * ucast r3)
        (ucast d0 * ucast r1 + ucast d4 * ucast r2 + ucast (r3 * 19) * ucast r3)
        (ucast d0 * ucast r2 + ucast r1 * ucast r1 + ucast d4 * ucast r3)
        (ucast d0 * ucast r3 + ucast d1 * ucast r2 + ucast r4 * ucast d419)
        (ucast d0 * ucast r4 + ucast d1 * ucast r3 + ucast r2 * ucast r2))"

definition fsquare_fsquare :: "fe \<Rightarrow> fe" where
  "fsquare_fsquare out =
     (let t = fsquare_products out; t = fproduct_carry_wide t; t = carry_top_wide t
      in carry_0_to_1 (fproduct_copy_from_wide t))"

definition fsquare_fsquare_times :: "fe \<Rightarrow> nat \<Rightarrow> fe" where
  "fsquare_fsquare_times input count1 = (fsquare_fsquare ^^ (count1 - 1)) (fsquare_fsquare input)"

definition crecip_crecip :: "fe \<Rightarrow> fe" where
  "crecip_crecip z =
     (let a0 = fsquare_fsquare_times z 1;
          t00 = fsquare_fsquare_times a0 2;
          b0 = fmul_fmul t00 z;
          a0 = fmul_fmul b0 a0;
          t00 = fsquare_fsquare_times a0 1;
          b0 = fmul_fmul t00 b0;
          t00 = fsquare_fsquare_times b0 5;
          b1 = fmul_fmul t00 b0;
          t01 = fsquare_fsquare_times b1 10;
          c0 = fmul_fmul t01 b1;
          t01 = fsquare_fsquare_times c0 20;
          t01 = fmul_fmul t01 c0;
          t01 = fsquare_fsquare_times t01 10;
          b1 = fmul_fmul t01 b1;
          t01 = fsquare_fsquare_times b1 50;
          c = fmul_fmul t01 b1;
          t0 = fsquare_fsquare_times c 100;
          t0 = fmul_fmul t0 c;
          t0 = fsquare_fsquare_times t0 50;
          t0 = fmul_fmul t0 b1;
          t0 = fsquare_fsquare_times t0 5
      in fmul_fmul t0 a0)"

fun fsum :: "fe \<Rightarrow> fe \<Rightarrow> fe" where
  "fsum (Fe a0 a1 a2 a3 a4) (Fe b0 b1 b2 b3 b4) = Fe (a0 + b0) (a1 + b1) (a2 + b2) (a3 + b3) (a4 + b4)"

text \<open>The second argument less the first.\<close>

fun fdifference :: "fe \<Rightarrow> fe \<Rightarrow> fe" where
  "fdifference (Fe a0 a1 a2 a3 a4) (Fe b0 b1 b2 b3 b4) =
     Fe (b0 + 0x3fffffffffff68 - a0) (b1 + 0x3ffffffffffff8 - a1) (b2 + 0x3ffffffffffff8 - a2)
       (b3 + 0x3ffffffffffff8 - a3) (b4 + 0x3ffffffffffff8 - a4)"

fun fscalar :: "fe \<Rightarrow> u64 \<Rightarrow> fe" where
  "fscalar (Fe b0 b1 b2 b3 b4) s =
     (let t = Wide (ucast b0 * ucast s) (ucast b1 * ucast s) (ucast b2 * ucast s) (ucast b3 * ucast s) (ucast b4 * ucast s);
          t = fproduct_carry_wide t; t = carry_top_wide t
      in fproduct_copy_from_wide t)"

section \<open>The ladder\<close>

type_synonym point = "fe \<times> fe"

definition swap_limb :: "u64 \<Rightarrow> u64 \<Rightarrow> u64 \<Rightarrow> u64 \<times> u64" where
  "swap_limb swap1 ai bi = (let x = swap1 AND (ai XOR bi) in (ai XOR x, bi XOR x))"

fun point_swap_conditional5 :: "u64 \<Rightarrow> fe \<Rightarrow> fe \<Rightarrow> fe \<times> fe" where
  "point_swap_conditional5 swap1 (Fe a0 a1 a2 a3 a4) (Fe b0 b1 b2 b3 b4) =
     (let (a4, b4) = swap_limb swap1 a4 b4; (a3, b3) = swap_limb swap1 a3 b3; (a2, b2) = swap_limb swap1 a2 b2;
          (a1, b1) = swap_limb swap1 a1 b1; (a0, b0) = swap_limb swap1 a0 b0
      in (Fe a0 a1 a2 a3 a4, Fe b0 b1 b2 b3 b4))"

definition point_swap_conditional :: "point \<times> point \<Rightarrow> u64 \<Rightarrow> point \<times> point" where
  "point_swap_conditional s iswap =
     (case s of ((ax, az), (bx, bz)) \<Rightarrow>
        let swap1 = 0 - iswap; (ax, bx) = point_swap_conditional5 swap1 ax bx; (az, bz) = point_swap_conditional5 swap1 az bz
        in ((ax, az), (bx, bz)))"

definition addanddouble_fmonty :: "point \<times> point \<Rightarrow> fe \<Rightarrow> point \<times> point" where
  "addanddouble_fmonty s qx =
     (case s of ((x, z), (xprime, zprime)) \<Rightarrow>
        let origx = x; x = fsum x z; z = fdifference z origx;
            origxprime = xprime; xprime = fsum xprime zprime; zprime = fdifference zprime origxprime;
            xxprime = fmul_fmul xprime z; zzprime = fmul_fmul x zprime;
            origxprime = xxprime; xxprime = fsum xxprime zzprime; zzprime = fdifference zzprime origxprime;
            x3 = fsquare_fsquare_times xxprime 1; zzzprime = fsquare_fsquare_times zzprime 1;
            z3 = fmul_fmul zzzprime qx;
            xx = fsquare_fsquare_times x 1; zz = fsquare_fsquare_times z 1;
            x2 = fmul_fmul xx zz; zz = fdifference zz xx;
            zzz = fscalar zz 121665; zzz = fsum zzz xx;
            z2 = fmul_fmul zzz zz
        in ((x2, z2), (x3, z3)))"

definition ladder_smallloop_cmult_small_loop_step :: "point \<times> point \<Rightarrow> point \<Rightarrow> u8 \<Rightarrow> point \<times> point" where
  "ladder_smallloop_cmult_small_loop_step s q byt =
     (let bit0 = ucast (drop_bit 7 byt);
          s = point_swap_conditional s bit0; s = addanddouble_fmonty s (fst q)
      in point_swap_conditional s bit0)"

definition ladder_smallloop_cmult_small_loop_double_step :: "point \<times> point \<Rightarrow> point \<Rightarrow> u8 \<Rightarrow> point \<times> point" where
  "ladder_smallloop_cmult_small_loop_double_step s q byt =
     (let s = ladder_smallloop_cmult_small_loop_step s q byt; byt1 = push_bit 1 byt
      in ladder_smallloop_cmult_small_loop_step s q byt1)"

fun ladder_smallloop_cmult_small_loop :: "point \<times> point \<Rightarrow> point \<Rightarrow> u8 \<Rightarrow> nat \<Rightarrow> point \<times> point" where
  "ladder_smallloop_cmult_small_loop s q byt 0 = s"
| "ladder_smallloop_cmult_small_loop s q byt (Suc i) =
     ladder_smallloop_cmult_small_loop (ladder_smallloop_cmult_small_loop_double_step s q byt) q (push_bit 2 byt) i"

fun ladder_bigloop_cmult_big_loop :: "bytes \<Rightarrow> point \<times> point \<Rightarrow> point \<Rightarrow> nat \<Rightarrow> point \<times> point" where
  "ladder_bigloop_cmult_big_loop n1 s q 0 = s"
| "ladder_bigloop_cmult_big_loop n1 s q (Suc i) =
     ladder_bigloop_cmult_big_loop n1 (ladder_smallloop_cmult_small_loop s q (n1 ! i) 4) q i"

definition ladder_cmult :: "bytes \<Rightarrow> point \<Rightarrow> point" where
  "ladder_cmult n1 q = fst (ladder_bigloop_cmult_big_loop n1 ((Fe 1 0 0 0 0, Fe 0 0 0 0 0), q) q 32)"

section \<open>Encodings\<close>

definition get_unaligned_le64 :: "bytes \<Rightarrow> nat \<Rightarrow> u64" where
  "get_unaligned_le64 a off = of_nat (of_le (take 8 (drop off a)))"

definition put_unaligned_le64 :: "u64 \<Rightarrow> bytes" where
  "put_unaligned_le64 s = le_bytes 8 (unat s)"

definition format_fexpand :: "bytes \<Rightarrow> fe" where
  "format_fexpand input =
     (let i0 = get_unaligned_le64 input 0; i1 = get_unaligned_le64 input 6; i2 = get_unaligned_le64 input 12;
          i3 = get_unaligned_le64 input 19; i4 = get_unaligned_le64 input 24
      in Fe (i0 AND mask51) (drop_bit 3 i1 AND mask51) (drop_bit 6 i2 AND mask51)
           (drop_bit 1 i3 AND mask51) (drop_bit 12 i4 AND mask51))"

fun format_fcontract_first_carry_pass :: "fe \<Rightarrow> fe" where
  "format_fcontract_first_carry_pass (Fe t0 t1 t2 t3 t4) =
     (let t1' = t1 + drop_bit 51 t0; t0' = t0 AND mask51; t2' = t2 + drop_bit 51 t1'; t1'' = t1' AND mask51;
          t3' = t3 + drop_bit 51 t2'; t2'' = t2' AND mask51; t4' = t4 + drop_bit 51 t3'; t3'' = t3' AND mask51
      in Fe t0' t1'' t2'' t3'' t4')"

definition format_fcontract_first_carry_full :: "fe \<Rightarrow> fe" where
  "format_fcontract_first_carry_full input = modulo_carry_top (format_fcontract_first_carry_pass input)"

fun format_fcontract_second_carry_pass :: "fe \<Rightarrow> fe" where
  "format_fcontract_second_carry_pass (Fe t0 t1 t2 t3 t4) =
     (let t1' = t1 + drop_bit 51 t0; t0' = t0 AND mask51; t2' = t2 + drop_bit 51 t1'; t1'' = t1' AND mask51;
          t3' = t3 + drop_bit 51 t2'; t2'' = t2' AND mask51; t4' = t4 + drop_bit 51 t3'; t3'' = t3' AND mask51
      in Fe t0' t1'' t2'' t3'' t4')"

definition format_fcontract_second_carry_full :: "fe \<Rightarrow> fe" where
  "format_fcontract_second_carry_full input =
     carry_0_to_1 (modulo_carry_top (format_fcontract_second_carry_pass input))"

fun format_fcontract_trim :: "fe \<Rightarrow> fe" where
  "format_fcontract_trim (Fe a0 a1 a2 a3 a4) =
     (let mask0 = u64_gte_mask a0 0x7ffffffffffed; mask1 = u64_eq_mask a1 mask51; mask2 = u64_eq_mask a2 mask51;
          mask3 = u64_eq_mask a3 mask51; mask4 = u64_eq_mask a4 mask51;
          msk = (((mask0 AND mask1) AND mask2) AND mask3) AND mask4
      in Fe (a0 - (0x7ffffffffffed AND msk)) (a1 - (mask51 AND msk)) (a2 - (mask51 AND msk))
           (a3 - (mask51 AND msk)) (a4 - (mask51 AND msk)))"

fun format_fcontract_store :: "fe \<Rightarrow> bytes" where
  "format_fcontract_store (Fe t0 t1 t2 t3 t4) =
     (let o0 = push_bit 51 t1 OR t0; o1 = push_bit 38 t2 OR drop_bit 13 t1;
          o2 = push_bit 25 t3 OR drop_bit 26 t2; o3 = push_bit 12 t4 OR drop_bit 39 t3
      in put_unaligned_le64 o0 @ put_unaligned_le64 o1 @ put_unaligned_le64 o2 @ put_unaligned_le64 o3)"

definition format_fcontract :: "fe \<Rightarrow> bytes" where
  "format_fcontract input =
     format_fcontract_store (format_fcontract_trim
       (format_fcontract_second_carry_full (format_fcontract_first_carry_full input)))"

definition format_scalar_of_point :: "point \<Rightarrow> bytes" where
  "format_scalar_of_point pt = (let zmone = crecip_crecip (snd pt); sc = fmul_fmul (fst pt) zmone in format_fcontract sc)"

definition hacl64_curve25519_generic :: "bytes \<Rightarrow> bytes \<Rightarrow> bytes" where
  "hacl64_curve25519_generic secret basepoint =
     (let x0 = format_fexpand basepoint; q = (x0, Fe 1 0 0 0 0); e = curve25519_clamp_secret secret
      in format_scalar_of_point (ladder_cmult e q))"

section \<open>The number that limbs stand for\<close>

fun val :: "fe \<Rightarrow> int" where
  "val (Fe a0 a1 a2 a3 a4) =
     int (unat a0) + B51 * (int (unat a1) + B51 * (int (unat a2) + B51 * (int (unat a3) + B51 * int (unat a4))))"

fun wval :: "wide \<Rightarrow> int" where
  "wval (Wide t0 t1 t2 t3 t4) =
     int (unat t0) + B51 * (int (unat t1) + B51 * (int (unat t2) + B51 * (int (unat t3) + B51 * int (unat t4))))"

fun below :: "nat \<Rightarrow> fe \<Rightarrow> bool" where
  "below n (Fe a0 a1 a2 a3 a4) \<longleftrightarrow> unat a0 < n \<and> unat a1 < n \<and> unat a2 < n \<and> unat a3 < n \<and> unat a4 < n"

fun wide_below :: "nat \<Rightarrow> nat \<Rightarrow> wide \<Rightarrow> bool" where
  "wide_below n m (Wide t0 t1 t2 t3 t4) \<longleftrightarrow> unat t0 < n \<and> unat t1 < n \<and> unat t2 < n \<and> unat t3 < n \<and> unat t4 < m"

lemma below_mono: "below n a \<Longrightarrow> n \<le> m \<Longrightarrow> below m a"
  by (cases a) auto

lemma unat_mask51:
  "unat (a AND mask51 :: u64) = unat a mod 2 ^ 51" "unat (b AND mask51 :: u128) = unat b mod 2 ^ 51"
  using unat_and_mask [of a 51] unat_and_mask [of b 51] by (simp_all add: mask_eq_exp_minus_1)

lemma unat_product: "unat (ucast a * ucast b :: u128) = unat (a :: u64) * unat (b :: u64)"
proof -
  have "unat a < 2 ^ 64" "unat b < 2 ^ 64" using unsigned_less [of a, where 'a = nat] unsigned_less [of b, where 'a = nat] by simp_all
  then have "unat a * unat b < 2 ^ 64 * 2 ^ 64" by (intro mult_strict_mono) auto
  then have "unat a * unat b < 2 ^ 128" by simp
  then show ?thesis by (simp add: unat_mult_no_wrap unat_ucast_up)
qed

section \<open>Carries\<close>

lemma carry_wide_unat:
  assumes "carry_wide x y = (x', y')" "unat y + unat x div 2 ^ 51 < 2 ^ 128"
  shows "unat x' = unat x mod 2 ^ 51" "unat y' = unat y + unat x div 2 ^ 51"
proof -
  from assms(1) have "x' = ucast ((ucast x :: u64) AND mask51)" "y' = y + drop_bit 51 x" by (simp_all add: carry_wide_def)
  moreover have "(n mod 2 ^ 64) mod 2 ^ 51 = n mod (2 ^ 51 :: nat)" for n
    by (rule mod_mod_cancel) (simp add: dvd_def exI [where x = "2 ^ 13"])
  ultimately show "unat x' = unat x mod 2 ^ 51" "unat y' = unat y + unat x div 2 ^ 51"
    using assms(2) by (simp_all add: unat_ucast_up unat_mask51 unat_ucast_down unat_add_no_wrap unat_drop_bit_div)
qed

lemma B51_carry: "int (x mod 2 ^ 51) + B51 * (int (y + x div 2 ^ 51) + z) = int x + B51 * (int y + z)"
proof -
  have "int x = int (x mod D) + int D * int (x div D)" for D :: nat
    using mod_mult_div_eq [of x D] by (simp flip: of_nat_mult of_nat_add)
  from this [of "2 ^ 51"] show ?thesis by (simp add: B51_def algebra_simps)
qed

lemma fproduct_carry_wide_val:
  assumes "wide_below (2 ^ 120) m t" "m + 2 ^ 70 \<le> 2 ^ 120"
  shows "wval (fproduct_carry_wide t) = wval t" "wide_below (2 ^ 51) (m + 2 ^ 70) (fproduct_carry_wide t)"
proof -
  obtain t0 t1 t2 t3 t4 where t: "t = Wide t0 t1 t2 t3 t4" by (cases t)
  obtain r0 s1 where c0: "carry_wide t0 t1 = (r0, s1)" by (cases "carry_wide t0 t1")
  obtain r1 s2 where c1: "carry_wide s1 t2 = (r1, s2)" by (cases "carry_wide s1 t2")
  obtain r2 s3 where c2: "carry_wide s2 t3 = (r2, s3)" by (cases "carry_wide s2 t3")
  obtain r3 s4 where c3: "carry_wide s3 t4 = (r3, s4)" by (cases "carry_wide s3 t4")
  have b: "unat t0 < 2 ^ 120" "unat t1 < 2 ^ 120" "unat t2 < 2 ^ 120" "unat t3 < 2 ^ 120" "unat t4 < m" using assms(1) by (simp_all add: t)
  have div: "x < 2 ^ 121 \<Longrightarrow> x div 2 ^ 51 < 2 ^ 70" for x :: nat by (simp add: less_mult_imp_div_less)
  have u0: "unat r0 = unat t0 mod 2 ^ 51" "unat s1 = unat t1 + unat t0 div 2 ^ 51"
    using carry_wide_unat [OF c0] b div [of "unat t0"] by simp_all
  have b1: "unat s1 < 2 ^ 121" using u0(2) b div [of "unat t0"] by simp
  have u1: "unat r1 = unat s1 mod 2 ^ 51" "unat s2 = unat t2 + unat s1 div 2 ^ 51"
    using carry_wide_unat [OF c1] b div [OF b1] by simp_all
  have b2: "unat s2 < 2 ^ 121" using u1(2) b div [OF b1] by simp
  have u2: "unat r2 = unat s2 mod 2 ^ 51" "unat s3 = unat t3 + unat s2 div 2 ^ 51"
    using carry_wide_unat [OF c2] b div [OF b2] by simp_all
  have b3: "unat s3 < 2 ^ 121" using u2(2) b div [OF b2] by simp
  have u3: "unat r3 = unat s3 mod 2 ^ 51" "unat s4 = unat t4 + unat s3 div 2 ^ 51"
    using carry_wide_unat [OF c3] b assms(2) div [OF b3] by simp_all
  have r: "fproduct_carry_wide t = Wide r0 r1 r2 r3 s4" by (simp add: t c0 c1 c2 c3)
  show "wide_below (2 ^ 51) (m + 2 ^ 70) (fproduct_carry_wide t)"
    using u0(1) u1(1) u2(1) u3 b(5) div [OF b3] by (simp add: r)
  have "int (unat r0) + B51 * (int (unat s1) + z) = int (unat t0) + B51 * (int (unat t1) + z)"
    "int (unat r1) + B51 * (int (unat s2) + z) = int (unat s1) + B51 * (int (unat t2) + z)"
    "int (unat r2) + B51 * (int (unat s3) + z) = int (unat s2) + B51 * (int (unat t3) + z)"
    "int (unat r3) + B51 * (int (unat s4) + z) = int (unat s3) + B51 * (int (unat t4) + z)" for z
    unfolding u0 u1 u2 u3 by (rule B51_carry)+
  from this(1-3) this(4) [of 0] show "wval (fproduct_carry_wide t) = wval t"
    unfolding r unfolding t wval.simps by (simp only: add_0_right)
qed

lemma top_algebra:
  "t4 = r4 + B51 * c \<Longrightarrow> t0 + B51 * (t1 + B51 * (t2 + B51 * (t3 + B51 * t4))) =
     (t0 + 19 * c) + B51 * (t1 + B51 * (t2 + B51 * (t3 + B51 * r4))) + (B51 ^ 5 - 19) * c"
  by (simp add: algebra_simps power_numeral_reduce)

text \<open>The top carry of a product whose highest limb is small enough.\<close>

lemma carry_top_wide_val:
  assumes "wide_below (2 ^ 51) m t" "19 * (m div 2 ^ 51) + 2 ^ 51 \<le> k" "k \<le> 2 ^ 64"
  shows "eqp (val (fproduct_copy_from_wide (carry_top_wide t))) (wval t)"
    "\<exists>r0 r1 r2 r3 r4. fproduct_copy_from_wide (carry_top_wide t) = Fe r0 r1 r2 r3 r4 \<and>
       unat r0 < k \<and> unat r1 < 2 ^ 51 \<and> unat r2 < 2 ^ 51 \<and> unat r3 < 2 ^ 51 \<and> unat r4 < 2 ^ 51"
proof -
  obtain t0 t1 t2 t3 t4 where t: "t = Wide t0 t1 t2 t3 t4" by (cases t)
  have b: "unat t0 < 2 ^ 51" "unat t1 < 2 ^ 51" "unat t2 < 2 ^ 51" "unat t3 < 2 ^ 51" "unat t4 < m" using assms(1) by (simp_all add: t)
  let ?c = "unat t4 div 2 ^ 51"
  have "?c \<le> m div 2 ^ 51" using b(5) by (simp add: div_le_mono)
  then have c: "19 * ?c + 2 ^ 51 \<le> k" using assms(2) by simp
  have "?c < 2 ^ 64" using c assms(3) by simp
  then have u: "unat (ucast (drop_bit 51 t4) :: u64) = ?c" by (simp add: unat_ucast_down unat_drop_bit_div)
  have "unat (19 * ucast (ucast (drop_bit 51 t4) :: u64) :: u128) = 19 * ?c"
    using u c assms(3) by (subst unat_mult_no_wrap) (simp_all add: unat_ucast_up)
  then have "unat (t0 + 19 * ucast (ucast (drop_bit 51 t4) :: u64)) = unat t0 + 19 * ?c"
    using c b(1) assms(3) by (subst unat_add_no_wrap) simp_all
  moreover have "unat t0 + 19 * ?c < k" using c b(1) by simp
  ultimately have r0: "unat (ucast (t0 + 19 * ucast (ucast (drop_bit 51 t4) :: u64)) :: u64) = unat t0 + 19 * ?c"
      "unat t0 + 19 * ?c < k"
    using assms(3) by (simp_all add: unat_ucast_down)
  have r: "unat (ucast t1 :: u64) = unat t1" "unat (ucast t2 :: u64) = unat t2" "unat (ucast t3 :: u64) = unat t3"
    "unat (ucast (t4 AND mask51) :: u64) = unat t4 mod 2 ^ 51"
    using b by (simp_all add: unat_ucast_down unat_mask51)
  show "\<exists>r0 r1 r2 r3 r4. fproduct_copy_from_wide (carry_top_wide t) = Fe r0 r1 r2 r3 r4 \<and>
       unat r0 < k \<and> unat r1 < 2 ^ 51 \<and> unat r2 < 2 ^ 51 \<and> unat r3 < 2 ^ 51 \<and> unat r4 < 2 ^ 51"
    using r0 r b by (simp add: t)
  have "int (unat t4) = int (unat t4 mod 2 ^ 51) + B51 * int ?c" using B51_carry [of "unat t4" 0 0] by simp
  from top_algebra [OF this, of "int (unat t0)" "int (unat t1)" "int (unat t2)" "int (unat t3)"]
  have "wval t = val (fproduct_copy_from_wide (carry_top_wide t)) + (B51 ^ 5 - 19) * int ?c"
    unfolding t carry_top_wide.simps fproduct_copy_from_wide.simps val.simps wval.simps r0(1) r of_nat_add of_nat_mult of_nat_numeral .
  then show "eqp (val (fproduct_copy_from_wide (carry_top_wide t))) (wval t)"
    unfolding B51_5 add_diff_cancel_right' by (rule eqp_sym [OF eqp_multiple])
qed

abbreviation (input) tight :: nat where "tight \<equiv> 2 ^ 51 + 2 ^ 13"
abbreviation (input) loose :: nat where "loose \<equiv> 2 ^ 54 + 2 ^ 51 + 2 ^ 13"

lemma carry_0_to_1_val:
  assumes "unat a1 < 2 ^ 51" "unat a2 < 2 ^ 51" "unat a3 < 2 ^ 51" "unat a4 < 2 ^ 51"
  shows "val (carry_0_to_1 (Fe a0 a1 a2 a3 a4)) = val (Fe a0 a1 a2 a3 a4)" "below tight (carry_0_to_1 (Fe a0 a1 a2 a3 a4))"
proof -
  have "unat a0 < 2 ^ 13 * 2 ^ 51" using unsigned_less [of a0, where 'a = nat] by simp
  then have "unat a0 div 2 ^ 51 < 2 ^ 13" by (rule less_mult_imp_div_less)
  then have u: "unat (a1 + drop_bit 51 a0) = unat a1 + unat a0 div 2 ^ 51" "unat a1 + unat a0 div 2 ^ 51 < tight"
    using assms(1) by (simp_all add: unat_add_no_wrap unat_drop_bit_div)
  have "unat a0 mod 2 ^ 51 < tight" using mod_less_divisor [of "2 ^ 51" "unat a0"] by simp
  with u assms show "below tight (carry_0_to_1 (Fe a0 a1 a2 a3 a4))" by (simp add: unat_mask51)
  show "val (carry_0_to_1 (Fe a0 a1 a2 a3 a4)) = val (Fe a0 a1 a2 a3 a4)"
    unfolding carry_0_to_1.simps val.simps u unat_mask51 by (rule B51_carry)
qed

lemma reduce_wide:
  assumes "wide_below (2 ^ 120) m t" "19 * ((m + 2 ^ 70) div 2 ^ 51) + 2 ^ 51 \<le> 2 ^ 64" "m + 2 ^ 70 \<le> 2 ^ 120"
  shows "eqp (val (carry_0_to_1 (fproduct_copy_from_wide (carry_top_wide (fproduct_carry_wide t))))) (wval t)"
    "below tight (carry_0_to_1 (fproduct_copy_from_wide (carry_top_wide (fproduct_carry_wide t))))"
proof -
  note c = fproduct_carry_wide_val [OF assms(1,3)]
  note v = carry_top_wide_val [OF c(2) assms(2)]
  from v(2) obtain r0 r1 r2 r3 r4 where r: "fproduct_copy_from_wide (carry_top_wide (fproduct_carry_wide t)) = Fe r0 r1 r2 r3 r4"
    "unat r1 < 2 ^ 51" "unat r2 < 2 ^ 51" "unat r3 < 2 ^ 51" "unat r4 < 2 ^ 51" by auto
  show "below tight (carry_0_to_1 (fproduct_copy_from_wide (carry_top_wide (fproduct_carry_wide t))))"
    unfolding r(1) by (rule carry_0_to_1_val(2) [OF r(2-)])
  show "eqp (val (carry_0_to_1 (fproduct_copy_from_wide (carry_top_wide (fproduct_carry_wide t))))) (wval t)"
    using v(1) unfolding r(1) carry_0_to_1_val(1) [OF r(2-)] c(1) by simp
qed

section \<open>Products\<close>

lemma unat_sum5:
  fixes i1 i2 i3 i4 i5 s1 s2 s3 s4 s5 :: u64
  assumes "unat i1 \<le> X" "unat i2 \<le> X" "unat i3 \<le> X" "unat i4 \<le> X" "unat i5 \<le> X"
    and "unat s1 \<le> Y" "unat s2 \<le> Y" "unat s3 \<le> Y" "unat s4 \<le> Y" "unat s5 \<le> Y" "5 * (X * Y) < 2 ^ 128"
  shows "unat (0 + ucast i1 * ucast s1 + ucast i2 * ucast s2 + ucast i3 * ucast s3 + ucast i4 * ucast s4 + ucast i5 * ucast s5 :: u128) =
      unat i1 * unat s1 + unat i2 * unat s2 + unat i3 * unat s3 + unat i4 * unat s4 + unat i5 * unat s5"
    "unat i1 * unat s1 + unat i2 * unat s2 + unat i3 * unat s3 + unat i4 * unat s4 + unat i5 * unat s5 \<le> 5 * (X * Y)"
proof -
  have p: "unat i1 * unat s1 \<le> X * Y" "unat i2 * unat s2 \<le> X * Y" "unat i3 * unat s3 \<le> X * Y" "unat i4 * unat s4 \<le> X * Y"
    "unat i5 * unat s5 \<le> X * Y" using assms(1-10) by (simp_all add: mult_le_mono)
  then show "unat i1 * unat s1 + unat i2 * unat s2 + unat i3 * unat s3 + unat i4 * unat s4 + unat i5 * unat s5 \<le> 5 * (X * Y)" by simp
  with assms(11) show "unat (0 + ucast i1 * ucast s1 + ucast i2 * ucast s2 + ucast i3 * ucast s3 + ucast i4 * ucast s4 + ucast i5 * ucast s5 :: u128) =
      unat i1 * unat s1 + unat i2 * unat s2 + unat i3 * unat s3 + unat i4 * unat s4 + unat i5 * unat s5"
    by (simp add: unat_add_no_wrap unat_product)
qed

lemma product_algebra:
  fixes B :: int
  shows "(a0 + B * (a1 + B * (a2 + B * (a3 + B * a4)))) * (b0 + B * (b1 + B * (b2 + B * (b3 + B * b4)))) =
    (a0 * b0 + 19 * a4 * b1 + 19 * a3 * b2 + 19 * a2 * b3 + 19 * a1 * b4) +
      B * ((a1 * b0 + a0 * b1 + 19 * a4 * b2 + 19 * a3 * b3 + 19 * a2 * b4) +
      B * ((a2 * b0 + a1 * b1 + a0 * b2 + 19 * a4 * b3 + 19 * a3 * b4) +
      B * ((a3 * b0 + a2 * b1 + a1 * b2 + a0 * b3 + 19 * a4 * b4) +
      B * (a4 * b0 + a3 * b1 + a2 * b2 + a1 * b3 + a0 * b4)))) +
    (B ^ 5 - 19) * ((a4 * b1 + a3 * b2 + a2 * b3 + a1 * b4) + B * ((a4 * b2 + a3 * b3 + a2 * b4) +
      B * ((a4 * b3 + a3 * b4) + B * (a4 * b4))))"
  by algebra

lemma unat_19: "unat a < loose \<Longrightarrow> unat (19 * a :: u64) = 19 * unat a"
  by (simp add: unat_mult_no_wrap)

lemma fmul_fmul_val:
  assumes "below loose a" "below loose b"
  shows "eqp (val (fmul_fmul a b)) (val a * val b)" "below tight (fmul_fmul a b)"
proof -
  obtain a0 a1 a2 a3 a4 where a: "a = Fe a0 a1 a2 a3 a4" by (cases a)
  obtain b0 b1 b2 b3 b4 where b: "b = Fe b0 b1 b2 b3 b4" by (cases b)
  let ?M = "loose"
  have la: "unat a0 \<le> ?M" "unat a1 \<le> ?M" "unat a2 \<le> ?M" "unat a3 \<le> ?M" "unat a4 \<le> ?M"
    and lb: "unat b0 \<le> ?M" "unat b1 \<le> ?M" "unat b2 \<le> ?M" "unat b3 \<le> ?M" "unat b4 \<le> ?M"
    using assms by (simp_all add: a b)
  have n: "unat (19 * a1) = 19 * unat a1" "unat (19 * a2) = 19 * unat a2" "unat (19 * a3) = 19 * unat a3" "unat (19 * a4) = 19 * unat a4"
    using assms by (simp_all add: a unat_19)
  have l: "unat a0 \<le> 19 * ?M" "unat a1 \<le> 19 * ?M" "unat a2 \<le> 19 * ?M" "unat a3 \<le> 19 * ?M" "unat a4 \<le> 19 * ?M"
    "unat (19 * a1) \<le> 19 * ?M" "unat (19 * a2) \<le> 19 * ?M" "unat (19 * a3) \<le> 19 * ?M" "unat (19 * a4) \<le> 19 * ?M"
    using la by (simp_all add: n)
  have lim: "5 * (19 * ?M * ?M) < 2 ^ 120" "5 * (?M * ?M) < 2 ^ 120" by simp_all
  have lim': "5 * (19 * ?M * ?M) < 2 ^ 128" "5 * (?M * ?M) < 2 ^ 128" by simp_all
  define t where "t = fmul_mul_shift_reduce (Wide 0 0 0 0 0) a b"
  obtain t0 t1 t2 t3 t4 where t: "t = Wide t0 t1 t2 t3 t4" by (cases t)
  note t0 = unat_sum5 [OF l(1,9,8,7,6) lb lim'(1)] and t1 = unat_sum5 [OF l(2,1,9,8,7) lb lim'(1)]
    and t2 = unat_sum5 [OF l(3,2,1,9,8) lb lim'(1)] and t3 = unat_sum5 [OF l(4,3,2,1,9) lb lim'(1)]
    and t4 = unat_sum5 [OF la(5,4,3,2,1) lb lim'(2)]
  have tt: "t0 = 0 + ucast a0 * ucast b0 + ucast (19 * a4) * ucast b1 + ucast (19 * a3) * ucast b2 + ucast (19 * a2) * ucast b3 + ucast (19 * a1) * ucast b4"
    "t1 = 0 + ucast a1 * ucast b0 + ucast a0 * ucast b1 + ucast (19 * a4) * ucast b2 + ucast (19 * a3) * ucast b3 + ucast (19 * a2) * ucast b4"
    "t2 = 0 + ucast a2 * ucast b0 + ucast a1 * ucast b1 + ucast a0 * ucast b2 + ucast (19 * a4) * ucast b3 + ucast (19 * a3) * ucast b4"
    "t3 = 0 + ucast a3 * ucast b0 + ucast a2 * ucast b1 + ucast a1 * ucast b2 + ucast a0 * ucast b3 + ucast (19 * a4) * ucast b4"
    "t4 = 0 + ucast a4 * ucast b0 + ucast a3 * ucast b1 + ucast a2 * ucast b2 + ucast a1 * ucast b3 + ucast a0 * ucast b4"
    using t unfolding t_def a b fmul_mul_shift_reduce.simps fproduct_sum_scalar_multiplication.simps fmul_shift_reduce.simps Let_def
    by (simp_all only: wide.inject)
  have "wide_below (2 ^ 120) (5 * (?M * ?M) + 1) t"
    unfolding t wide_below.simps tt t0(1) t1(1) t2(1) t3(1) t4(1)
    using t0(2) t1(2) t2(2) t3(2) t4(2) lim by linarith
  note r = reduce_wide [OF this]
  have m: "19 * ((5 * (?M * ?M) + 1 + 2 ^ 70) div 2 ^ 51) + 2 ^ 51 \<le> (2 ^ 64 :: nat)" "5 * (?M * ?M) + 1 + 2 ^ 70 \<le> (2 ^ 120 :: nat)"
    by simp_all
  have f: "fmul_fmul a b = carry_0_to_1 (fproduct_copy_from_wide (carry_top_wide (fproduct_carry_wide t)))"
    by (simp add: fmul_fmul_def t_def Let_def)
  show "below tight (fmul_fmul a b)" unfolding f by (rule r(2) [OF m])
  have "\<exists>q. val a * val b = wval t + (B51 ^ 5 - 19) * q"
    unfolding a b t val.simps wval.simps tt t0(1) t1(1) t2(1) t3(1) t4(1) n of_nat_add of_nat_mult of_nat_numeral
    by (rule exI, rule product_algebra)
  then have "eqp (val a * val b) (wval t)" unfolding B51_5 add_diff_cancel_right' by (blast intro: eqp_multiple)
  with r(1) [OF m] show "eqp (val (fmul_fmul a b)) (val a * val b)" unfolding f by (blast intro: eqp_trans eqp_sym)
qed

lemma unat_sum3:
  fixes i1 i2 i3 s1 s2 s3 :: u64
  assumes "unat i1 \<le> X1" "unat s1 \<le> Y1" "unat i2 \<le> X2" "unat s2 \<le> Y2" "unat i3 \<le> X3" "unat s3 \<le> Y3"
    and "X1 * Y1 + X2 * Y2 + X3 * Y3 < 2 ^ 128"
  shows "unat (ucast i1 * ucast s1 + ucast i2 * ucast s2 + ucast i3 * ucast s3 :: u128) =
      unat i1 * unat s1 + unat i2 * unat s2 + unat i3 * unat s3"
    "unat i1 * unat s1 + unat i2 * unat s2 + unat i3 * unat s3 \<le> X1 * Y1 + X2 * Y2 + X3 * Y3"
proof -
  have "unat i1 * unat s1 \<le> X1 * Y1" "unat i2 * unat s2 \<le> X2 * Y2" "unat i3 * unat s3 \<le> X3 * Y3"
    using assms(1-6) by (simp_all add: mult_le_mono)
  then show le: "unat i1 * unat s1 + unat i2 * unat s2 + unat i3 * unat s3 \<le> X1 * Y1 + X2 * Y2 + X3 * Y3" by simp
  with assms(7) show "unat (ucast i1 * ucast s1 + ucast i2 * ucast s2 + ucast i3 * ucast s3 :: u128) =
      unat i1 * unat s1 + unat i2 * unat s2 + unat i3 * unat s3"
    by (simp add: unat_add_no_wrap unat_product)
qed

lemma square_algebra:
  fixes B :: int
  shows "(a0 + B * (a1 + B * (a2 + B * (a3 + B * a4)))) * (a0 + B * (a1 + B * (a2 + B * (a3 + B * a4)))) =
    (a0 * a0 + a4 * 19 * 2 * a1 + a2 * 2 * 19 * a3) +
      B * ((a0 * 2 * a1 + a4 * 19 * 2 * a2 + a3 * 19 * a3) +
      B * ((a0 * 2 * a2 + a1 * a1 + a4 * 19 * 2 * a3) +
      B * ((a0 * 2 * a3 + a1 * 2 * a2 + a4 * (a4 * 19)) +
      B * (a0 * 2 * a4 + a1 * 2 * a3 + a2 * a2)))) +
    (B ^ 5 - 19) * ((a4 * a1 + a3 * a2 + a2 * a3 + a1 * a4) + B * ((a4 * a2 + a3 * a3 + a2 * a4) +
      B * ((a4 * a3 + a3 * a4) + B * (a4 * a4))))"
  by algebra

lemma fsquare_fsquare_val:
  assumes "below loose a"
  shows "eqp (val (fsquare_fsquare a)) (val a * val a)" "below tight (fsquare_fsquare a)"
proof -
  obtain a0 a1 a2 a3 a4 where a: "a = Fe a0 a1 a2 a3 a4" by (cases a)
  let ?M = "loose"
  have l: "unat a0 \<le> ?M" "unat a1 \<le> ?M" "unat a2 \<le> ?M" "unat a3 \<le> ?M" "unat a4 \<le> ?M"
    using assms by (simp_all add: a)
  have n: "unat (a0 * 2) = unat a0 * 2" "unat (a1 * 2) = unat a1 * 2" "unat (a2 * 2 * 19) = unat a2 * 2 * 19"
    "unat (a3 * 19) = unat a3 * 19" "unat (a4 * 19) = unat a4 * 19" "unat (a4 * 19 * 2) = unat a4 * 19 * 2"
    using l by (simp_all add: unat_mult_no_wrap)
  have m: "unat (a0 * 2) \<le> 2 * ?M" "unat (a1 * 2) \<le> 2 * ?M" "unat (a2 * 2 * 19) \<le> 38 * ?M" "unat (a3 * 19) \<le> 19 * ?M"
    "unat (a4 * 19) \<le> 19 * ?M" "unat (a4 * 19 * 2) \<le> 38 * ?M"
    unfolding n using l by simp_all
  define t where "t = fsquare_products a"
  obtain t0 t1 t2 t3 t4 where t: "t = Wide t0 t1 t2 t3 t4" by (cases t)
  note t0 = unat_sum3 [OF l(1,1) m(6) l(2) m(3) l(4)] and t1 = unat_sum3 [OF m(1) l(2) m(6) l(3) m(4) l(4)]
    and t2 = unat_sum3 [OF m(1) l(3) l(2,2) m(6) l(4)] and t3 = unat_sum3 [OF m(1) l(4) m(2) l(3) l(5) m(5)]
    and t4 = unat_sum3 [OF m(1) l(5) m(2) l(4) l(3,3)]
  have tt: "t0 = ucast a0 * ucast a0 + ucast (a4 * 19 * 2) * ucast a1 + ucast (a2 * 2 * 19) * ucast a3"
    "t1 = ucast (a0 * 2) * ucast a1 + ucast (a4 * 19 * 2) * ucast a2 + ucast (a3 * 19) * ucast a3"
    "t2 = ucast (a0 * 2) * ucast a2 + ucast a1 * ucast a1 + ucast (a4 * 19 * 2) * ucast a3"
    "t3 = ucast (a0 * 2) * ucast a3 + ucast (a1 * 2) * ucast a2 + ucast a4 * ucast (a4 * 19)"
    "t4 = ucast (a0 * 2) * ucast a4 + ucast (a1 * 2) * ucast a3 + ucast a2 * ucast a2"
    using t unfolding t_def a fsquare_products.simps Let_def by (simp_all only: wide.inject)
  have v: "unat t0 = unat a0 * unat a0 + unat a4 * 19 * 2 * unat a1 + unat a2 * 2 * 19 * unat a3"
    "unat t1 = unat a0 * 2 * unat a1 + unat a4 * 19 * 2 * unat a2 + unat a3 * 19 * unat a3"
    "unat t2 = unat a0 * 2 * unat a2 + unat a1 * unat a1 + unat a4 * 19 * 2 * unat a3"
    "unat t3 = unat a0 * 2 * unat a3 + unat a1 * 2 * unat a2 + unat a4 * (unat a4 * 19)"
    "unat t4 = unat a0 * 2 * unat a4 + unat a1 * 2 * unat a3 + unat a2 * unat a2"
    unfolding tt by (subst t0(1) t1(1) t2(1) t3(1) t4(1), simp, simp only: n)+
  have "unat t0 < 2 ^ 120" using t0(2) unfolding v n by simp
  moreover have "unat t1 < 2 ^ 120" using t1(2) unfolding v n by simp
  moreover have "unat t2 < 2 ^ 120" using t2(2) unfolding v n by simp
  moreover have "unat t3 < 2 ^ 120" using t3(2) unfolding v n by simp
  moreover have "unat t4 < 5 * (?M * ?M) + 1" using t4(2) unfolding v n by simp
  ultimately have "wide_below (2 ^ 120) (5 * (?M * ?M) + 1) t" by (simp add: t)
  note r = reduce_wide [OF this]
  have m: "19 * ((5 * (?M * ?M) + 1 + 2 ^ 70) div 2 ^ 51) + 2 ^ 51 \<le> (2 ^ 64 :: nat)" "5 * (?M * ?M) + 1 + 2 ^ 70 \<le> (2 ^ 120 :: nat)"
    by simp_all
  have f: "fsquare_fsquare a = carry_0_to_1 (fproduct_copy_from_wide (carry_top_wide (fproduct_carry_wide t)))"
    by (simp add: fsquare_fsquare_def t_def Let_def)
  show "below tight (fsquare_fsquare a)" unfolding f by (rule r(2) [OF m])
  have "\<exists>q. val a * val a = wval t + (B51 ^ 5 - 19) * q"
    unfolding a t val.simps wval.simps v of_nat_add of_nat_mult of_nat_numeral
    by (rule exI, rule square_algebra)
  then have "eqp (val a * val a) (wval t)" unfolding B51_5 add_diff_cancel_right' by (blast intro: eqp_multiple)
  with r(1) [OF m] show "eqp (val (fsquare_fsquare a)) (val a * val a)" unfolding f by (blast intro: eqp_trans eqp_sym)
qed

section \<open>Field elements that stand for a number\<close>

definition rep :: "nat \<Rightarrow> fe \<Rightarrow> int \<Rightarrow> bool" where
  "rep n a v \<longleftrightarrow> below n a \<and> eqp (val a) v"

lemma rep_mono: "rep n a v \<Longrightarrow> n \<le> m \<Longrightarrow> rep m a v"
  by (auto simp: rep_def intro: below_mono)

lemma rep_loose: "rep tight a v \<Longrightarrow> rep loose a v"
  using rep_mono [of tight a v loose] by simp

lemma rep_eqp: "rep n a v \<Longrightarrow> eqp v w \<Longrightarrow> rep n a w"
  by (auto simp: rep_def intro: eqp_trans)

lemma rep_fmul: "rep loose a v \<Longrightarrow> rep loose b w \<Longrightarrow> rep tight (fmul_fmul a b) (v * w)"
  using fmul_fmul_val [of a b] eqp_mult [of "val a" v "val b" w] by (auto simp: rep_def intro: eqp_trans)

lemma rep_fsquare: "rep loose a v \<Longrightarrow> rep tight (fsquare_fsquare a) (v * v)"
  using fsquare_fsquare_val [of a] eqp_mult [of "val a" v "val a" v] by (auto simp: rep_def intro: eqp_trans)

lemma rep_fsum:
  assumes "rep n a v" "rep m b w" "n + m \<le> 2 ^ 64"
  shows "rep (n + m) (fsum a b) (v + w)"
proof -
  obtain a0 a1 a2 a3 a4 where a: "a = Fe a0 a1 a2 a3 a4" by (cases a)
  obtain b0 b1 b2 b3 b4 where b: "b = Fe b0 b1 b2 b3 b4" by (cases b)
  have u: "unat (x + y) = unat x + unat y" if "unat x < n" "unat y < m" for x y :: u64
    using that assms(3) by (simp add: unat_add_no_wrap)
  have l: "below n a" "below m b" using assms by (simp_all add: rep_def)
  then have "below (n + m) (fsum a b)" by (simp add: a b u add_strict_mono)
  moreover have "val (fsum a b) = val a + val b" using l by (simp add: a b u algebra_simps)
  ultimately show ?thesis using assms(1,2) eqp_add [of "val a" v "val b" w] by (simp add: rep_def)
qed

lemma rep_fdifference:
  assumes "rep tight a v" "rep tight b w"
  shows "rep loose (fdifference a b) (w - v)"
proof -
  obtain a0 a1 a2 a3 a4 where a: "a = Fe a0 a1 a2 a3 a4" by (cases a)
  obtain b0 b1 b2 b3 b4 where b: "b = Fe b0 b1 b2 b3 b4" by (cases b)
  have l: "below tight a" "below tight b" using assms by (simp_all add: rep_def)
  have u: "unat (y + k - x) = unat y + unat k - unat x" "unat x \<le> unat y + unat k" "unat y + unat k - unat x < loose"
    if "unat x < tight" "unat y < tight" "2 * tight \<le> unat k" "unat k \<le> 2 ^ 54" for x y k :: u64
  proof -
    have "unat (y + k) = unat y + unat k" using that by (simp add: unat_add_no_wrap)
    with that show "unat (y + k - x) = unat y + unat k - unat x" "unat x \<le> unat y + unat k" "unat y + unat k - unat x < loose"
      by (simp_all add: unat_sub_no_wrap)
  qed
  have "below loose (fdifference a b)" using l by (simp add: a b u) linarith
  moreover have "int (unat (y + k - x)) = int (unat y) + int (unat k) - int (unat x)"
    if "unat x < tight" "unat y < tight" "2 * tight \<le> unat k" "unat k \<le> 2 ^ 54" for x y k :: u64
    using u [OF that] by simp
  then have "val (fdifference a b) = val b - val a + p25519 * 8" using l
    by (simp add: a b p25519_def B51_def)
  then have "eqp (val (fdifference a b)) (val b - val a)" by (rule eqp_multiple)
  ultimately show ?thesis using assms eqp_diff [of "val b" w "val a" v] by (auto simp: rep_def intro: eqp_trans)
qed

lemma rep_fscalar:
  assumes "rep loose b v"
  shows "rep (2 ^ 52) (fscalar b 121665) (v * 121665)"
proof -
  obtain b0 b1 b2 b3 b4 where b: "b = Fe b0 b1 b2 b3 b4" by (cases b)
  let ?t = "Wide (ucast b0 * ucast (121665 :: u64)) (ucast b1 * ucast (121665 :: u64)) (ucast b2 * ucast (121665 :: u64))
    (ucast b3 * ucast (121665 :: u64)) (ucast b4 * ucast (121665 :: u64))"
  have l: "below loose b" using assms by (simp add: rep_def)
  have p: "unat (ucast x * ucast (121665 :: u64) :: u128) = unat x * 121665" for x :: u64
    using unat_product [of x 121665] by simp
  have "wide_below (2 ^ 120) (2 ^ 72) ?t" using l unfolding wide_below.simps p by (simp add: b)
  note c = fproduct_carry_wide_val [OF this]
  have w: "wval ?t = val b * 121665" unfolding wval.simps p by (simp add: b algebra_simps)
  have m: "2 ^ 72 + 2 ^ 70 \<le> (2 ^ 120 :: nat)" "19 * ((2 ^ 72 + 2 ^ 70) div 2 ^ 51) + 2 ^ 51 \<le> (2 ^ 52 :: nat)" "2 ^ 52 \<le> (2 ^ 64 :: nat)"
    by simp_all
  have f: "fscalar b 121665 = fproduct_copy_from_wide (carry_top_wide (fproduct_carry_wide ?t))" unfolding b fscalar.simps Let_def ..
  note v = carry_top_wide_val [OF c(2) [OF m(1)] m(2,3)]
  have "eqp (val (fscalar b 121665)) (val b * 121665)" using v(1) unfolding f c(1) [OF m(1)] w .
  moreover have "below (2 ^ 52) (fscalar b 121665)" unfolding f using v(2) by auto
  ultimately show ?thesis using assms eqp_mult [of "val b" v 121665 121665] by (auto simp: rep_def intro: eqp_trans)
qed

lemma rep_sum_loose: "rep tight a v \<Longrightarrow> rep tight b w \<Longrightarrow> rep loose (fsum a b) (v + w)"
  using rep_mono [OF rep_fsum [of tight a v tight b w], of loose] by simp

interpretation hacl: limb_field "rep tight" "rep loose" fsum "\<lambda>a b. fdifference b a" fmul_fmul fsquare_fsquare
  by unfold_locales (rule rep_loose rep_eqp rep_sum_loose rep_fdifference rep_fmul rep_fsquare; assumption)+

section \<open>Powers\<close>

lemma rep_pow_times: "rep tight a (v ^ e) \<Longrightarrow> 0 < n \<Longrightarrow> e * 2 ^ n = e' \<Longrightarrow> rep tight (fsquare_fsquare_times a n) (v ^ e')"
  unfolding fsquare_fsquare_times_def by (rule hacl.power_squarings [OF rep_loose])

lemma rep_pow_mul: "rep tight a (v ^ e) \<Longrightarrow> rep tight b (v ^ f) \<Longrightarrow> e + f = g \<Longrightarrow> rep tight (fmul_fmul a b) (v ^ g)"
  by (rule hacl.power_mul [OF rep_loose rep_loose])

lemma rep_crecip:
  assumes "rep tight z v"
  shows "rep tight (crecip_crecip z) (v ^ (2 ^ 255 - 21))"
proof -
  have z: "rep tight z (v ^ 1)" using assms by simp
  define a where "a = fsquare_fsquare_times z 1"
  have a: "rep tight a (v ^ 2)" unfolding a_def by (rule rep_pow_times [OF z]) simp_all
  define b where "b = fmul_fmul (fsquare_fsquare_times a 2) z"
  have b: "rep tight b (v ^ 9)" unfolding b_def by (rule rep_pow_mul [OF rep_pow_times [OF a _ refl] z]) simp_all
  define a' where "a' = fmul_fmul b a"
  have a': "rep tight a' (v ^ 11)" unfolding a'_def by (rule rep_pow_mul [OF b a]) simp
  define b5 where "b5 = fmul_fmul (fsquare_fsquare_times a' 1) b"
  have b5: "rep tight b5 (v ^ (2 ^ 5 - 1))" unfolding b5_def by (rule rep_pow_mul [OF rep_pow_times [OF a' _ refl] b]) simp_all
  define b10 where "b10 = fmul_fmul (fsquare_fsquare_times b5 5) b5"
  have b10: "rep tight b10 (v ^ (2 ^ 10 - 1))" unfolding b10_def by (rule rep_pow_mul [OF rep_pow_times [OF b5 _ refl] b5]) simp_all
  define c20 where "c20 = fmul_fmul (fsquare_fsquare_times b10 10) b10"
  have c20: "rep tight c20 (v ^ (2 ^ 20 - 1))" unfolding c20_def by (rule rep_pow_mul [OF rep_pow_times [OF b10 _ refl] b10]) simp_all
  define t40 where "t40 = fmul_fmul (fsquare_fsquare_times c20 20) c20"
  have t40: "rep tight t40 (v ^ (2 ^ 40 - 1))" unfolding t40_def by (rule rep_pow_mul [OF rep_pow_times [OF c20 _ refl] c20]) simp_all
  define b50 where "b50 = fmul_fmul (fsquare_fsquare_times t40 10) b10"
  have b50: "rep tight b50 (v ^ (2 ^ 50 - 1))" unfolding b50_def by (rule rep_pow_mul [OF rep_pow_times [OF t40 _ refl] b10]) simp_all
  define c100 where "c100 = fmul_fmul (fsquare_fsquare_times b50 50) b50"
  have c100: "rep tight c100 (v ^ (2 ^ 100 - 1))" unfolding c100_def by (rule rep_pow_mul [OF rep_pow_times [OF b50 _ refl] b50]) simp_all
  define t200 where "t200 = fmul_fmul (fsquare_fsquare_times c100 100) c100"
  have t200: "rep tight t200 (v ^ (2 ^ 200 - 1))" unfolding t200_def by (rule rep_pow_mul [OF rep_pow_times [OF c100 _ refl] c100]) simp_all
  define t250 where "t250 = fmul_fmul (fsquare_fsquare_times t200 50) b50"
  have t250: "rep tight t250 (v ^ (2 ^ 250 - 1))" unfolding t250_def by (rule rep_pow_mul [OF rep_pow_times [OF t200 _ refl] b50]) simp_all
  have "rep tight (fmul_fmul (fsquare_fsquare_times t250 5) a') (v ^ (2 ^ 255 - 21))"
    by (rule rep_pow_mul [OF rep_pow_times [OF t250 _ refl] a']) simp_all
  then show ?thesis
    by (simp only: crecip_crecip_def Let_def a_def b_def a'_def b5_def b10_def c20_def t40_def b50_def c100_def t200_def t250_def)
qed

section \<open>The ladder computes the ladder on integers\<close>

definition rep_point :: "point \<Rightarrow> mpoint \<Rightarrow> bool" where
  "rep_point P Q \<longleftrightarrow> rep tight (fst P) (fst Q) \<and> rep tight (snd P) (snd Q)"

definition rep_pair :: "point \<times> point \<Rightarrow> mpoint \<times> mpoint \<Rightarrow> bool" where
  "rep_pair s t \<longleftrightarrow> rep_point (fst s) (fst t) \<and> rep_point (snd s) (snd t)"

lemma rep_square_1: "rep loose a v \<Longrightarrow> rep tight (fsquare_fsquare_times a 1) (v * v)"
  using rep_fsquare [of a v] by (simp add: fsquare_fsquare_times_def)

lemma rep_addanddouble:
  assumes "rep_pair s t" "rep tight qx u"
  shows "rep_pair (addanddouble_fmonty s qx) (mont_step u t)"
proof -
  obtain x z x' z' where s: "s = ((x, z), (x', z'))" by (metis prod.collapse)
  obtain X Z X' Z' where t: "t = ((X, Z), (X', Z'))" by (metis prod.collapse)
  have r: "rep tight x X" "rep tight z Z" "rep tight x' X'" "rep tight z' Z'"
    using assms(1) by (simp_all add: s t rep_pair_def rep_point_def)
  define a where "a = fsum x z"
  have a: "rep loose a (X + Z)" unfolding a_def by (rule rep_sum_loose [OF r(1,2)])
  define b where "b = fdifference z x"
  have b: "rep loose b (X - Z)" unfolding b_def by (rule rep_fdifference [OF r(2,1)])
  define c where "c = fsum x' z'"
  have c: "rep loose c (X' + Z')" unfolding c_def by (rule rep_sum_loose [OF r(3,4)])
  define d where "d = fdifference z' x'"
  have d: "rep loose d (X' - Z')" unfolding d_def by (rule rep_fdifference [OF r(4,3)])
  define cb where "cb = fmul_fmul c b"
  have cb: "rep tight cb ((X' + Z') * (X - Z))" unfolding cb_def by (rule rep_fmul [OF c b])
  define da where "da = fmul_fmul a d"
  have da: "rep tight da ((X + Z) * (X' - Z'))" unfolding da_def by (rule rep_fmul [OF a d])
  define aa where "aa = fsquare_fsquare_times a 1"
  have aa: "rep tight aa ((X + Z) * (X + Z))" unfolding aa_def by (rule rep_square_1 [OF a])
  define bb where "bb = fsquare_fsquare_times b 1"
  have bb: "rep tight bb ((X - Z) * (X - Z))" unfolding bb_def by (rule rep_square_1 [OF b])
  define e where "e = fdifference bb aa"
  have e: "rep loose e ((X + Z) * (X + Z) - (X - Z) * (X - Z))" unfolding e_def by (rule rep_fdifference [OF bb aa])
  define zzz where "zzz = fsum (fscalar e 121665) aa"
  have zzz: "rep loose zzz (((X + Z) * (X + Z) - (X - Z) * (X - Z)) * 121665 + (X + Z) * (X + Z))"
    unfolding zzz_def using rep_mono [OF rep_fsum [OF rep_fscalar [OF e] aa], of loose] by simp
  have res: "addanddouble_fmonty s qx = ((fmul_fmul aa bb, fmul_fmul zzz e),
      (fsquare_fsquare_times (fsum cb da) 1, fmul_fmul (fsquare_fsquare_times (fdifference da cb) 1) qx))"
    by (simp add: s addanddouble_fmonty_def Let_def a_def b_def c_def d_def cb_def da_def aa_def bb_def e_def zzz_def)
  note m = mont_step_eqp [where x = X and z = Z and u = u and x' = X' and z' = Z', folded t]
  have "rep tight (fmul_fmul aa bb) (fst (fst (mont_step u t)))"
    by (rule rep_eqp [OF rep_fmul [OF rep_loose [OF aa] rep_loose [OF bb]] m(1)])
  moreover have "rep tight (fmul_fmul zzz e) (snd (fst (mont_step u t)))"
    using rep_eqp [OF rep_fmul [OF zzz e] eqp_trans [OF eqp_eq m(2)]] by (simp add: algebra_simps)
  moreover have "rep tight (fsquare_fsquare_times (fsum cb da) 1) (fst (snd (mont_step u t)))"
    using rep_eqp [OF rep_square_1 [OF rep_sum_loose [OF cb da]] eqp_trans [OF eqp_eq m(3)]] by (simp add: algebra_simps power2_eq_square)
  moreover have "rep tight (fmul_fmul (fsquare_fsquare_times (fdifference da cb) 1) qx) (snd (snd (mont_step u t)))"
    using rep_eqp [OF rep_fmul [OF rep_loose [OF rep_square_1 [OF rep_fdifference [OF da cb]]] rep_loose [OF assms(2)]] eqp_trans [OF eqp_eq m(4)]]
    by (simp add: algebra_simps power2_eq_square)
  ultimately show ?thesis by (simp add: res rep_pair_def rep_point_def)
qed

lemma swap_limb: "swap_limb 0 a b = (a, b)" "swap_limb (- 1) a b = (b, a)"
proof -
  have "a XOR (a XOR b) = b" "b XOR (a XOR b) = a" by (rule bit_word_eqI, auto simp: bit_xor_iff)+
  then show "swap_limb 0 a b = (a, b)" "swap_limb (- 1) a b = (b, a)" by (simp_all add: swap_limb_def Let_def)
qed

lemma point_swap_conditional_cswap: "point_swap_conditional s (of_bool b) = cswap b s"
proof -
  have "point_swap_conditional5 0 x y = (x, y)" "point_swap_conditional5 (- 1) x y = (y, x)" for x y
    by (cases x; cases y; simp add: swap_limb)+
  then show ?thesis by (cases s) (auto simp: point_swap_conditional_def cswap_def)
qed

lemma rep_pair_cswap: "rep_pair s t \<Longrightarrow> rep_pair (cswap b s) (cswap b t)"
  by (simp add: cswap_def rep_pair_def)

lemma top_bit: "ucast (drop_bit 7 byt) = (of_bool (bit byt 7) :: u64)" for byt :: u8
proof (rule bit_word_eqI)
  fix n assume "n < LENGTH(64)"
  have "bit byt (7 + n) \<longleftrightarrow> n = 0 \<and> bit byt 7" using bit_imp_le_length [of byt "7 + n"] by (cases n) auto
  then show "bit (ucast (drop_bit 7 byt) :: u64) n = bit (of_bool (bit byt 7) :: u64) n"
    using \<open>n < LENGTH(64)\<close> by (simp add: bit_unsigned_iff bit_drop_bit_eq bit_of_bool_iff)
qed

lemma rep_step:
  assumes "rep_pair s t" "rep tight (fst q) u"
  shows "rep_pair (ladder_smallloop_cmult_small_loop_step s q byt) (ladder_step u (bit byt 7) t)"
  using rep_pair_cswap [OF rep_addanddouble [OF rep_pair_cswap [OF assms(1)] assms(2)]]
  by (simp add: ladder_smallloop_cmult_small_loop_step_def ladder_step_def top_bit point_swap_conditional_cswap Let_def)

lemma rep_byte:
  assumes "rep_pair s t" "rep tight (fst q) u"
  shows "rep_pair (ladder_smallloop_cmult_small_loop s q byt 4) (ladder u (unat byt) 8 t)"
proof -
  have b: "bit (push_bit m byt) 7 = bit byt (7 - m)" if "m \<le> 7" for m using that by (simp add: bit_push_bit_iff)
  have p: "push_bit 1 (push_bit m byt) = push_bit (m + 1) byt" "push_bit 2 (push_bit m byt) = push_bit (m + 2) byt" for m
    by (simp_all add: push_bit_push_bit add.commute)
  have n: "bit (unat byt) j = bit byt j" if "j < 8" for j using that by (simp add: bit_unsigned_iff)
  have step: "rep_pair (ladder_smallloop_cmult_small_loop_step s q (push_bit m byt)) (ladder_step u (bit byt (7 - m)) t)"
    if "rep_pair s t" "m \<le> 7" for s t m using rep_step [OF that(1) assms(2), of "push_bit m byt"] b [OF that(2)] by simp
  have double: "rep_pair (ladder_smallloop_cmult_small_loop_double_step s q (push_bit m byt))
      (ladder_step u (bit byt (6 - m)) (ladder_step u (bit byt (7 - m)) t))"
    if "rep_pair s t" "m \<le> 6" for s t m
    using step [OF step [OF that(1)], of m "m + 1"] that(2) by (simp add: ladder_smallloop_cmult_small_loop_double_step_def p)
  have "rep_pair (ladder_smallloop_cmult_small_loop s q (push_bit 0 byt) 4)
      (ladder_step u (bit byt 0) (ladder_step u (bit byt 1) (ladder_step u (bit byt 2) (ladder_step u (bit byt 3)
        (ladder_step u (bit byt 4) (ladder_step u (bit byt 5) (ladder_step u (bit byt 6) (ladder_step u (bit byt 7) t))))))))"
    using double [OF double [OF double [OF double [OF assms(1), of 0], of 2], of 4], of 6] p(2) [of 0] p(2) [of 2] p(2) [of 4]
    by (simp add: numeral_eq_Suc)
  then show ?thesis by (simp add: numeral_eq_Suc n)
qed

lemma rep_big_loop:
  "rep_pair s t \<Longrightarrow> rep tight (fst q) u \<Longrightarrow> i \<le> length n1 \<Longrightarrow>
   rep_pair (ladder_bigloop_cmult_big_loop n1 s q i) (ladder u (of_le n1) (8 * i) t)"
proof (induction i arbitrary: s t)
  case (Suc i)
  from Suc.IH [OF rep_byte [OF Suc.prems(1,2)] Suc.prems(2), of "n1 ! i"] Suc.prems(3) show ?case
    using ladder_byte [of i n1 u t] by simp
qed simp

lemma rep_ladder_cmult:
  assumes "rep tight x u" "length n1 = 32"
  shows "rep_point (ladder_cmult n1 (x, Fe 1 0 0 0 0)) (fst (ladder u (of_le n1) 256 ((1, 0), (u, 1))))"
proof -
  have "rep tight (Fe 1 0 0 0 0) 1" "rep tight (Fe 0 0 0 0 0) 0" by (simp_all add: rep_def)
  then have "rep_pair ((Fe 1 0 0 0 0, Fe 0 0 0 0 0), (x, Fe 1 0 0 0 0)) ((1, 0), (u, 1))"
    using assms(1) by (simp add: rep_pair_def rep_point_def)
  from rep_big_loop [OF this, of "(x, Fe 1 0 0 0 0)" u 32 n1] assms show ?thesis
    by (simp add: ladder_cmult_def rep_pair_def)
qed

section \<open>Reading a coordinate\<close>

lemma unat_get_le64: "unat (get_unaligned_le64 a off) = of_le a div 256 ^ off mod 2 ^ 64"
proof -
  have "of_le (take 8 (drop off a)) = of_le a div 256 ^ off mod 2 ^ 64" by (simp add: of_le_take of_le_drop)
  then show ?thesis by (simp add: get_unaligned_le64_def unat_of_nat)
qed

lemma mod_div_mod: "s + m \<le> n \<Longrightarrow> (x mod 2 ^ n) div 2 ^ s mod 2 ^ m = x div 2 ^ s mod (2 ^ m :: nat)"
proof -
  assume "s + m \<le> n"
  then obtain k where n: "n = s + (m + k)" by (auto simp: le_iff_add add.assoc)
  have "(x mod 2 ^ n) div 2 ^ s = x div 2 ^ s mod 2 ^ (m + k)" unfolding n by (rule div_exp_mod_exp_eq [symmetric])
  moreover have "y mod 2 ^ (m + k) mod 2 ^ m = y mod (2 ^ m :: nat)" for y by (rule mod_mod_cancel) (simp add: power_add)
  ultimately show ?thesis by simp
qed

lemma horner_mod: "int (n mod 2 ^ 51) + B51 * int (n div 2 ^ 51 mod m) = int (n mod (2 ^ 51 * m))"
  unfolding mod_mult2_eq B51_def by simp

lemma format_fexpand_val:
  "below (2 ^ 51) (format_fexpand input)" "val (format_fexpand input) = decode_u input"
proof -
  let ?n = "of_le input"
  obtain a0 a1 a2 a3 a4 where a: "format_fexpand input = Fe a0 a1 a2 a3 a4" by (cases "format_fexpand input")
  have div: "x div 2 ^ i div 2 ^ j = x div 2 ^ (i + j)" for x i j :: nat by (simp add: power_add div_mult2_eq)
  have p: "(256 :: nat) ^ off = 2 ^ (8 * off)" for off by (simp add: power_mult)
  have limb: "unat (drop_bit s (get_unaligned_le64 input off) AND mask51) = ?n div 2 ^ k mod 2 ^ 51"
    if "s \<le> 13" "8 * off + s = k" for s off k
    using that(1) mod_div_mod [of s 51 64 "?n div 2 ^ (8 * off)"]
    by (simp only: unat_mask51 unat_drop_bit_div unat_get_le64 p div flip: that(2))
  have e: "a0 = get_unaligned_le64 input 0 AND mask51" "a1 = drop_bit 3 (get_unaligned_le64 input 6) AND mask51"
    "a2 = drop_bit 6 (get_unaligned_le64 input 12) AND mask51" "a3 = drop_bit 1 (get_unaligned_le64 input 19) AND mask51"
    "a4 = drop_bit 12 (get_unaligned_le64 input 24) AND mask51"
    using a unfolding format_fexpand_def Let_def by (simp_all only: fe.inject)
  have "unat a0 = ?n div 2 ^ 0 mod 2 ^ 51" unfolding e(1) using limb [of 0 0 0] by (simp only: drop_bit_0 id_apply)
  moreover have "unat a1 = ?n div 2 ^ 51 mod 2 ^ 51" unfolding e(2) by (rule limb) simp_all
  moreover have "unat a2 = ?n div 2 ^ 102 mod 2 ^ 51" unfolding e(3) by (rule limb) simp_all
  moreover have "unat a3 = ?n div 2 ^ 153 mod 2 ^ 51" unfolding e(4) by (rule limb) simp_all
  moreover have "unat a4 = ?n div 2 ^ 204 mod 2 ^ 51" unfolding e(5) by (rule limb) simp_all
  ultimately have u: "unat a0 = ?n mod 2 ^ 51" "unat a1 = ?n div 2 ^ 51 mod 2 ^ 51" "unat a2 = ?n div 2 ^ 102 mod 2 ^ 51"
    "unat a3 = ?n div 2 ^ 153 mod 2 ^ 51" "unat a4 = ?n div 2 ^ 204 mod 2 ^ 51" by (simp_all only: power_0 div_by_1)
  have "x mod 2 ^ 51 < (2 ^ 51 :: nat)" for x by simp
  then show "below (2 ^ 51) (format_fexpand input)" by (simp only: a below.simps u simp_thms)
  have s: "?n div 2 ^ 102 = ?n div 2 ^ 51 div 2 ^ 51" "?n div 2 ^ 153 = ?n div 2 ^ 51 div 2 ^ 51 div 2 ^ 51"
    "?n div 2 ^ 204 = ?n div 2 ^ 51 div 2 ^ 51 div 2 ^ 51 div 2 ^ 51" unfolding div by simp_all
  have "val (format_fexpand input) = int (?n mod (2 ^ 51 * (2 ^ 51 * (2 ^ 51 * (2 ^ 51 * 2 ^ 51)))))"
    unfolding a val.simps u s horner_mod ..
  then show "val (format_fexpand input) = decode_u input" by (simp add: decode_u_def)
qed

section \<open>The canonical form\<close>

lemma carry_pass_eq: "format_fcontract_second_carry_pass a = format_fcontract_first_carry_pass a"
  by (cases a) simp

lemma carry_pass_unat:
  assumes "unat t0 < 2 ^ 63" "unat t1 < 2 ^ 63" "unat t2 < 2 ^ 63" "unat t3 < 2 ^ 63" "unat t4 < 2 ^ 63"
    and "format_fcontract_first_carry_pass (Fe t0 t1 t2 t3 t4) = Fe r0 r1 r2 r3 r4"
  obtains s1 s2 s3 where "s1 = unat t1 + unat t0 div 2 ^ 51" "s2 = unat t2 + s1 div 2 ^ 51" "s3 = unat t3 + s2 div 2 ^ 51"
    "unat r0 = unat t0 mod 2 ^ 51" "unat r1 = s1 mod 2 ^ 51" "unat r2 = s2 mod 2 ^ 51" "unat r3 = s3 mod 2 ^ 51"
    "unat r4 = unat t4 + s3 div 2 ^ 51" "val (Fe r0 r1 r2 r3 r4) = val (Fe t0 t1 t2 t3 t4)"
proof -
  have add: "unat (y + drop_bit 51 x) = unat y + unat x div 2 ^ 51" if "unat y < 2 ^ 63" for x y :: u64
  proof -
    have "unat x div 2 ^ 51 < 2 ^ 13" using unsigned_less [of x, where 'a = nat] by (simp add: less_mult_imp_div_less)
    with that show ?thesis by (simp add: unat_add_no_wrap unat_drop_bit_div)
  qed
  define s1 where "s1 = t1 + drop_bit 51 t0"
  define s2 where "s2 = t2 + drop_bit 51 s1"
  define s3 where "s3 = t3 + drop_bit 51 s2"
  have r: "r0 = t0 AND mask51" "r1 = s1 AND mask51" "r2 = s2 AND mask51" "r3 = s3 AND mask51" "r4 = t4 + drop_bit 51 s3"
    using assms(6) by (simp_all add: s1_def s2_def s3_def Let_def)
  have u: "unat s1 = unat t1 + unat t0 div 2 ^ 51" "unat s2 = unat t2 + unat s1 div 2 ^ 51" "unat s3 = unat t3 + unat s2 div 2 ^ 51"
    "unat r4 = unat t4 + unat s3 div 2 ^ 51" unfolding s1_def s2_def s3_def r(5) by (rule add, rule assms)+
  have l: "unat r0 = unat t0 mod 2 ^ 51" "unat r1 = unat s1 mod 2 ^ 51" "unat r2 = unat s2 mod 2 ^ 51" "unat r3 = unat s3 mod 2 ^ 51"
    unfolding r by (rule unat_mask51)+
  have "int (unat r0) + B51 * (int (unat s1) + z) = int (unat t0) + B51 * (int (unat t1) + z)"
    "int (unat r1) + B51 * (int (unat s2) + z) = int (unat s1) + B51 * (int (unat t2) + z)"
    "int (unat r2) + B51 * (int (unat s3) + z) = int (unat s2) + B51 * (int (unat t3) + z)"
    "int (unat r3) + B51 * (int (unat r4) + z) = int (unat s3) + B51 * (int (unat t4) + z)" for z
    unfolding u l by (rule B51_carry)+
  from this(1-3) this(4) [of 0] have "val (Fe r0 r1 r2 r3 r4) = val (Fe t0 t1 t2 t3 t4)"
    unfolding val.simps by (simp only: add_0_right)
  from that [OF u(1-3) l u(4) this] show thesis .
qed

lemma modulo_carry_top_val:
  assumes "unat b0 + 19 * (unat b4 div 2 ^ 51) < 2 ^ 64"
  shows "unat (b0 + 19 * drop_bit 51 b4) = unat b0 + 19 * (unat b4 div 2 ^ 51)"
    "eqp (val (modulo_carry_top (Fe b0 b1 b2 b3 b4))) (val (Fe b0 b1 b2 b3 b4))"
proof -
  have "unat (19 * drop_bit 51 b4) = 19 * (unat b4 div 2 ^ 51)"
    using assms by (subst unat_mult_no_wrap) (simp_all add: unat_drop_bit_div)
  with assms show u: "unat (b0 + 19 * drop_bit 51 b4) = unat b0 + 19 * (unat b4 div 2 ^ 51)" by (simp add: unat_add_no_wrap)
  have "int (unat b4) = int (unat b4 mod 2 ^ 51) + B51 * int (unat b4 div 2 ^ 51)" using B51_carry [of "unat b4" 0 0] by simp
  from top_algebra [OF this, of "int (unat b0)" "int (unat b1)" "int (unat b2)" "int (unat b3)"]
  have "val (Fe b0 b1 b2 b3 b4) = val (modulo_carry_top (Fe b0 b1 b2 b3 b4)) + (B51 ^ 5 - 19) * int (unat b4 div 2 ^ 51)"
    unfolding modulo_carry_top.simps val.simps u unat_mask51 of_nat_add of_nat_mult of_nat_numeral .
  then show "eqp (val (modulo_carry_top (Fe b0 b1 b2 b3 b4))) (val (Fe b0 b1 b2 b3 b4))"
    unfolding B51_5 add_diff_cancel_right' by (rule eqp_sym [OF eqp_multiple])
qed

text \<open>After the first pass only the lowest limb can have more than 51 bits, after the second none.\<close>

lemma first_carry_full_val:
  assumes "below tight a"
  shows "eqp (val (format_fcontract_first_carry_full a)) (val a)"
    "\<exists>r0 r1 r2 r3 r4. format_fcontract_first_carry_full a = Fe r0 r1 r2 r3 r4 \<and> unat r0 < 2 ^ 51 + 19 \<and>
       unat r1 < 2 ^ 51 \<and> unat r2 < 2 ^ 51 \<and> unat r3 < 2 ^ 51 \<and> unat r4 < 2 ^ 51"
proof -
  obtain t0 t1 t2 t3 t4 where a: "a = Fe t0 t1 t2 t3 t4" by (cases a)
  obtain r0 r1 r2 r3 r4 where r: "format_fcontract_first_carry_pass a = Fe r0 r1 r2 r3 r4" by (cases "format_fcontract_first_carry_pass a")
  have l: "unat t0 < tight" "unat t1 < tight" "unat t2 < tight" "unat t3 < tight" "unat t4 < tight" using assms by (simp_all add: a)
  then have l': "unat t0 < 2 ^ 63" "unat t1 < 2 ^ 63" "unat t2 < 2 ^ 63" "unat t3 < 2 ^ 63" "unat t4 < 2 ^ 63" by simp_all
  obtain s1 s2 s3 where u: "s1 = unat t1 + unat t0 div 2 ^ 51" "s2 = unat t2 + s1 div 2 ^ 51" "s3 = unat t3 + s2 div 2 ^ 51"
    "unat r0 = unat t0 mod 2 ^ 51" "unat r1 = s1 mod 2 ^ 51" "unat r2 = s2 mod 2 ^ 51" "unat r3 = s3 mod 2 ^ 51"
    "unat r4 = unat t4 + s3 div 2 ^ 51" "val (Fe r0 r1 r2 r3 r4) = val (Fe t0 t1 t2 t3 t4)"
    by (rule carry_pass_unat [OF l' r [unfolded a]])
  have c: "x < 2 * 2 ^ 51 \<Longrightarrow> x div 2 ^ 51 \<le> (1 :: nat)" for x
    using less_mult_imp_div_less [of x 2 "2 ^ 51"] by simp
  have s: "s1 < 2 * 2 ^ 51" "s2 < 2 * 2 ^ 51" "s3 < 2 * 2 ^ 51"
    using l c [of "unat t0"] c [of s1] c [of s2] u(1-3) by simp_all
  then have "unat r4 < 2 * 2 ^ 51" using l(5) c [of s3] u(8) by simp
  then have c4: "unat r4 div 2 ^ 51 \<le> 1" by (rule c)
  have m: "x mod 2 ^ 51 < (2 ^ 51 :: nat)" for x by simp
  have b: "unat r0 + 19 * (unat r4 div 2 ^ 51) < 2 ^ 51 + 19" using c4 m [of "unat t0"] u(4) by linarith
  then have "unat r0 + 19 * (unat r4 div 2 ^ 51) < 2 ^ 64" by simp
  note v = modulo_carry_top_val [OF this]
  have f: "format_fcontract_first_carry_full a = modulo_carry_top (Fe r0 r1 r2 r3 r4)" by (simp add: format_fcontract_first_carry_full_def r)
  show "eqp (val (format_fcontract_first_carry_full a)) (val a)" using v(2) [of r1 r2 r3] unfolding f u(9) unfolding a .
  show "\<exists>r0 r1 r2 r3 r4. format_fcontract_first_carry_full a = Fe r0 r1 r2 r3 r4 \<and> unat r0 < 2 ^ 51 + 19 \<and>
       unat r1 < 2 ^ 51 \<and> unat r2 < 2 ^ 51 \<and> unat r3 < 2 ^ 51 \<and> unat r4 < 2 ^ 51"
    unfolding f modulo_carry_top.simps fe.inject using b m v(1) u(5-7) unat_mask51(1) [of r4]
    by (metis (no_types, lifting))
qed

lemma second_carry_full_val:
  assumes "unat t0 < 2 ^ 51 + 19" "unat t1 < 2 ^ 51" "unat t2 < 2 ^ 51" "unat t3 < 2 ^ 51" "unat t4 < 2 ^ 51"
  shows "eqp (val (format_fcontract_second_carry_full (Fe t0 t1 t2 t3 t4))) (val (Fe t0 t1 t2 t3 t4))"
    "below (2 ^ 51) (format_fcontract_second_carry_full (Fe t0 t1 t2 t3 t4))"
proof -
  obtain r0 r1 r2 r3 r4 where r: "format_fcontract_first_carry_pass (Fe t0 t1 t2 t3 t4) = Fe r0 r1 r2 r3 r4"
    by (cases "format_fcontract_first_carry_pass (Fe t0 t1 t2 t3 t4)")
  have l': "unat t0 < 2 ^ 63" "unat t1 < 2 ^ 63" "unat t2 < 2 ^ 63" "unat t3 < 2 ^ 63" "unat t4 < 2 ^ 63" using assms by simp_all
  obtain s1 s2 s3 where u: "s1 = unat t1 + unat t0 div 2 ^ 51" "s2 = unat t2 + s1 div 2 ^ 51" "s3 = unat t3 + s2 div 2 ^ 51"
    "unat r0 = unat t0 mod 2 ^ 51" "unat r1 = s1 mod 2 ^ 51" "unat r2 = s2 mod 2 ^ 51" "unat r3 = s3 mod 2 ^ 51"
    "unat r4 = unat t4 + s3 div 2 ^ 51" "val (Fe r0 r1 r2 r3 r4) = val (Fe t0 t1 t2 t3 t4)"
    by (rule carry_pass_unat [OF l' r])
  have c: "x div 2 ^ 51 = (if x < 2 ^ 51 then 0 else 1)" if "x < 2 * 2 ^ 51" for x :: nat
    using that less_mult_imp_div_less [of x 2 "2 ^ 51"] by (auto simp: div_greater_zero_iff less_2_cases_iff)
  have c1: "x div 2 ^ 51 \<le> 1" if "x \<le> 2 ^ 51 + 18" for x :: nat using c [of x] that by (simp split: if_splits)
  have s1: "s1 \<le> 2 ^ 51" using c1 [of "unat t0"] assms(1,2) u(1) by linarith
  have s2: "s2 \<le> 2 ^ 51" using c1 [of s1] s1 assms(3) u(2) by linarith
  have s3: "s3 \<le> 2 ^ 51" using c1 [of s2] s2 assms(4) u(3) by linarith
  have s4: "unat r4 \<le> 2 ^ 51" using c1 [of s3] s3 assms(5) u(8) by linarith
  have m: "x mod 2 ^ 51 < (2 ^ 51 :: nat)" for x by simp
  have top: "unat r0 + 19 * (unat r4 div 2 ^ 51) < 2 ^ 51"
  proof (cases "unat r4 < 2 ^ 51")
    case True
    then show ?thesis using m [of "unat t0"] u(4) by simp
  next
    case False
    have big: "2 ^ 51 \<le> x" if "2 ^ 51 \<le> y + x div 2 ^ 51" "y < 2 ^ 51" for x y :: nat
      using that div_less [of x "2 ^ 51"] by linarith
    have "2 ^ 51 \<le> s3" using False unfolding u(8) not_less by (rule big) (rule assms)
    then have "2 ^ 51 \<le> s2" unfolding u(3) by (rule big) (rule assms)
    then have "2 ^ 51 \<le> s1" unfolding u(2) by (rule big) (rule assms)
    then have "2 ^ 51 \<le> unat t0" unfolding u(1) by (rule big) (rule assms)
    then have "unat t0 mod 2 ^ 51 = unat t0 - 2 ^ 51" using assms(1) by (subst le_mod_geq) simp_all
    moreover have "unat r4 div 2 ^ 51 = 1" using False s4 by simp
    ultimately show ?thesis using assms(1) u(4) by simp
  qed
  then have "unat r0 + 19 * (unat r4 div 2 ^ 51) < 2 ^ 64" by simp
  note v = modulo_carry_top_val [OF this]
  let ?b0 = "r0 + 19 * drop_bit 51 r4" and ?b4 = "r4 AND mask51"
  have b: "unat ?b0 < 2 ^ 51" "unat r1 < 2 ^ 51" "unat r2 < 2 ^ 51" "unat r3 < 2 ^ 51" "unat ?b4 < 2 ^ 51"
    using top m u(5-7) unfolding v(1) unat_mask51 by simp_all
  have f: "format_fcontract_second_carry_full (Fe t0 t1 t2 t3 t4) = carry_0_to_1 (modulo_carry_top (Fe r0 r1 r2 r3 r4))"
    by (simp only: format_fcontract_second_carry_full_def carry_pass_eq r)
  have "eqp (val (carry_0_to_1 (modulo_carry_top (Fe r0 r1 r2 r3 r4)))) (val (Fe r0 r1 r2 r3 r4))"
    using v(2) carry_0_to_1_val(1) [OF b(2-5), of ?b0] unfolding modulo_carry_top.simps by simp
  then show "eqp (val (format_fcontract_second_carry_full (Fe t0 t1 t2 t3 t4))) (val (Fe t0 t1 t2 t3 t4))"
    unfolding f u(9) .
  have "unat (r1 + drop_bit 51 ?b0) = unat r1" using b(1,2) by (simp add: unat_add_no_wrap unat_drop_bit_div)
  with b show "below (2 ^ 51) (format_fcontract_second_carry_full (Fe t0 t1 t2 t3 t4))"
    unfolding f modulo_carry_top.simps carry_0_to_1.simps below.simps unat_mask51(1) [of ?b0] by simp
qed

lemma drop_63: "drop_bit 63 w = (of_bool (bit w 63) :: u64)"
proof (rule bit_word_eqI)
  fix n assume "n < LENGTH(64)"
  have "bit w (63 + n) \<longleftrightarrow> n = 0 \<and> bit w 63" using bit_imp_le_length [of w "63 + n"] by (cases n) auto
  then show "bit (drop_bit 63 w) n = bit (of_bool (bit w 63) :: u64) n" by (simp add: bit_drop_bit_eq bit_of_bool_iff)
qed

lemma bit_63: "bit w 63 \<longleftrightarrow> 2 ^ 63 \<le> unat (w :: u64)"
proof -
  have "unat (drop_bit 63 w) = of_bool (bit w 63)" by (simp add: drop_63)
  then have "unat w div 2 ^ 63 = of_bool (bit w 63)" by (simp only: unat_drop_bit_div)
  moreover have "unat w div 2 ^ 63 = 0 \<longleftrightarrow> unat w < 2 ^ 63" by (simp add: div_eq_0_iff)
  ultimately show ?thesis by (cases "bit w 63") (simp_all only: of_bool_eq, auto)
qed

lemma u64_eq_mask_if: "u64_eq_mask a b = (if a = b then - 1 else 0)"
proof (cases "a = b")
  case False
  define x where "x = a XOR b"
  have "x \<noteq> 0"
  proof
    assume "x = 0"
    then have "a XOR x = a" by simp
    moreover have "a XOR x = b" unfolding x_def by (rule bit_word_eqI) (auto simp: bit_xor_iff)
    ultimately show False using False by simp
  qed
  then have "unat x \<noteq> 0" by (simp add: unat_eq_0)
  moreover have "unat (- x) = 2 ^ 64 - unat x" using \<open>unat x \<noteq> 0\<close> unat_sub_if_size [of 0 x] by (simp add: word_size)
  ultimately have "bit x 63 \<or> bit (- x) 63" unfolding bit_63 by simp linarith
  then have "bit (x OR (NOT x + 1)) 63" by (simp add: bit_or_iff minus_eq_not_plus_1)
  then show ?thesis using False by (simp add: u64_eq_mask_def drop_63 flip: x_def)
qed (simp add: u64_eq_mask_def)

lemma u64_gte_mask_if: "u64_gte_mask a b = (if b \<le> a then - 1 else 0)"
proof -
  have lt: "unat a < 2 ^ 64" "unat b < 2 ^ 64" using unsigned_less [of a, where 'a = nat] unsigned_less [of b, where 'a = nat] by simp_all
  have d: "unat (a - b) = (if unat b \<le> unat a then unat a - unat b else unat a + 2 ^ 64 - unat b)"
    using lt by (simp add: unat_sub_if_size word_size)
  have "bit (a XOR ((a XOR b) OR ((a - b) XOR b))) 63 \<longleftrightarrow> unat a < unat b"
    using lt unfolding bit_xor_iff bit_or_iff unfolding bit_63 d by (auto split: if_splits)
  then show ?thesis by (simp add: u64_gte_mask_def drop_63 word_le_nat_alt Let_def)
qed

text \<open>The last subtraction of the prime.\<close>

lemma format_fcontract_trim_val:
  assumes "below (2 ^ 51) a"
  shows "below (2 ^ 51) (format_fcontract_trim a)" "val (format_fcontract_trim a) = val a mod p25519"
proof -
  obtain a0 a1 a2 a3 a4 where a: "a = Fe a0 a1 a2 a3 a4" by (cases a)
  have l: "unat a0 < 2 ^ 51" "unat a1 < 2 ^ 51" "unat a2 < 2 ^ 51" "unat a3 < 2 ^ 51" "unat a4 < 2 ^ 51" using assms by (simp_all add: a)
  let ?ge = "0x7ffffffffffed \<le> a0 \<and> a1 = mask51 \<and> a2 = mask51 \<and> a3 = mask51 \<and> a4 = mask51"
  have t: "format_fcontract_trim a =
      (if ?ge then Fe (a0 - 0x7ffffffffffed) (a1 - mask51) (a2 - mask51) (a3 - mask51) (a4 - mask51) else a)"
    by (simp add: a u64_gte_mask_if u64_eq_mask_if)
  have m: "unat (mask51 :: u64) = 2 ^ 51 - 1" "unat (0x7ffffffffffed :: u64) = 2 ^ 51 - 19" by simp_all
  have "below (2 ^ 51) (format_fcontract_trim a) \<and> val (format_fcontract_trim a) = val a mod p25519"
  proof (cases ?ge)
    case True
    then have g: "2 ^ 51 - 19 \<le> unat a0" unfolding word_le_nat_alt m by simp
    then have u: "unat (a0 - 0x7ffffffffffed) = unat a0 - (2 ^ 51 - 19)" by (simp add: unat_sub_no_wrap)
    have "format_fcontract_trim a = Fe (a0 - 0x7ffffffffffed) 0 0 0 0" using True by (simp add: t)
    moreover have "val a = int (unat a0 - (2 ^ 51 - 19)) + p25519" using True g
      by (simp add: a p25519_def B51_def)
    moreover have "int (unat a0 - (2 ^ 51 - 19)) < p25519" using l(1) by (simp add: p25519_def)
    ultimately show ?thesis using l(1) by (simp add: u)
  next
    case False
    then have "unat a0 < 2 ^ 51 - 19 \<or> unat a1 < 2 ^ 51 - 1 \<or> unat a2 < 2 ^ 51 - 1 \<or> unat a3 < 2 ^ 51 - 1 \<or> unat a4 < 2 ^ 51 - 1"
      using l unfolding word_le_nat_alt word_unat_eq_iff m by linarith
    then have "unat a0 + 2 ^ 51 * (unat a1 + 2 ^ 51 * (unat a2 + 2 ^ 51 * (unat a3 + 2 ^ 51 * unat a4))) < 2 ^ 255 - 19"
      using l by auto
    then have "int (unat a0 + 2 ^ 51 * (unat a1 + 2 ^ 51 * (unat a2 + 2 ^ 51 * (unat a3 + 2 ^ 51 * unat a4)))) < int (2 ^ 255 - 19)"
      by (simp only: of_nat_less_iff)
    then have "val a < p25519" by (simp add: a p25519_def B51_def)
    moreover have "0 \<le> val a" by (simp add: a B51_def)
    ultimately show ?thesis using assms False by (simp only: t if_False mod_pos_pos_trivial simp_thms)
  qed
  then show "below (2 ^ 51) (format_fcontract_trim a)" "val (format_fcontract_trim a) = val a mod p25519" by blast+
qed

section \<open>Writing a coordinate\<close>

lemma unat_push_or: "unat y < 2 ^ k \<Longrightarrow> unat (push_bit k x OR y) = unat x * 2 ^ k mod 2 ^ 64 + unat (y :: u64)"
proof -
  assume y: "unat y < 2 ^ k"
  have p: "unat (push_bit k x) = unat x * 2 ^ k mod 2 ^ 64"
    by (simp only: unsigned_push_bit_eq) (simp add: take_bit_eq_mod push_bit_eq_mult)
  have "take_bit k (unat y) = unat y" using y by (simp add: take_bit_nat_eq_self)
  then have "\<not> bit (unat y) n" if "k \<le> n" for n using that by (metis bit_take_bit_iff not_le)
  then have "\<not> bit (unat (push_bit k x)) n \<or> \<not> bit (unat y) n" for n
    by (cases "k \<le> n") (simp_all add: bit_unsigned_iff bit_push_bit_iff)
  then have "unat (push_bit k x) + unat y = unat (push_bit k x) OR unat y" by (rule disjunctive_add)
  then show ?thesis by (simp only: unsigned_or_eq flip: p)
qed

lemma of_le_put: "of_le (put_unaligned_le64 s @ r) = unat s + 2 ^ 64 * of_le r"
proof -
  have "unat s < 2 ^ 64" using unsigned_less [of s, where 'a = nat] by simp
  then show ?thesis by (simp add: put_unaligned_le64_def of_le_append of_le_le_bytes)
qed

lemma split_limb: "m + k = 64 \<Longrightarrow> t * 2 ^ k mod 2 ^ 64 + 2 ^ 64 * (t div 2 ^ m) = (t * 2 ^ k :: nat)"
proof -
  assume "m + k = 64"
  then have p: "(2 ^ 64 :: nat) = 2 ^ m * 2 ^ k" by (simp flip: power_add)
  have "t * 2 ^ k div 2 ^ 64 = t div 2 ^ m" unfolding p by simp
  then show ?thesis using mod_mult_div_eq [of "t * 2 ^ k" "2 ^ 64"] by simp
qed

lemma format_fcontract_store_val:
  assumes "below (2 ^ 51) a"
  shows "format_fcontract_store a = le_bytes 32 (nat (val a))"
proof -
  obtain a0 a1 a2 a3 a4 where a: "a = Fe a0 a1 a2 a3 a4" by (cases a)
  have l: "unat a0 < 2 ^ 51" "unat a1 < 2 ^ 51" "unat a2 < 2 ^ 51" "unat a3 < 2 ^ 51" "unat a4 < 2 ^ 51" using assms by (simp_all add: a)
  have d: "unat (drop_bit 13 a1) < 2 ^ 38" "unat (drop_bit 26 a2) < 2 ^ 25" "unat (drop_bit 39 a3) < 2 ^ 12"
    unfolding unat_drop_bit_div using l by (simp_all add: less_mult_imp_div_less)
  have "of_le (format_fcontract_store a) =
      (unat a1 * 2 ^ 51 mod 2 ^ 64 + unat a0) + 2 ^ 64 * ((unat a2 * 2 ^ 38 mod 2 ^ 64 + unat a1 div 2 ^ 13) +
        2 ^ 64 * ((unat a3 * 2 ^ 25 mod 2 ^ 64 + unat a2 div 2 ^ 26) + 2 ^ 64 * (unat a4 * 2 ^ 12 mod 2 ^ 64 + unat a3 div 2 ^ 39)))"
    using of_le_put [of _ "[]"]
    by (simp only: a format_fcontract_store.simps Let_def of_le_put unat_push_or [OF l(1)] unat_push_or [OF d(1)] unat_push_or [OF d(2)]
        unat_push_or [OF d(3)] unat_drop_bit_div append_Nil2 of_le.simps mult_0_right add_0_right)
  also have "\<dots> = unat a0 + 2 ^ 51 * (unat a1 + 2 ^ 51 * (unat a2 + 2 ^ 51 * (unat a3 + 2 ^ 51 * unat a4)))"
    using split_limb [of 13 51 "unat a1"] split_limb [of 26 38 "unat a2"] split_limb [of 39 25 "unat a3"] l(5) by simp
  also have "\<dots> = nat (val a)" by (simp add: a B51_def nat_add_distrib nat_mult_distrib)
  finally have "of_le (format_fcontract_store a) = nat (val a)" .
  moreover have "length (format_fcontract_store a) = 32" by (simp add: a put_unaligned_le64_def Let_def)
  ultimately show ?thesis using le_bytes_of_le [of "format_fcontract_store a"] by simp
qed

lemma rep_format_fcontract: "rep tight a v \<Longrightarrow> format_fcontract a = le_bytes 32 (nat (v mod p25519))"
proof -
  assume a: "rep tight a v"
  then have t: "below tight a" by (simp add: rep_def)
  obtain r0 r1 r2 r3 r4 where r: "format_fcontract_first_carry_full a = Fe r0 r1 r2 r3 r4" "unat r0 < 2 ^ 51 + 19"
      "unat r1 < 2 ^ 51" "unat r2 < 2 ^ 51" "unat r3 < 2 ^ 51" "unat r4 < 2 ^ 51" using first_carry_full_val(2) [OF t] by auto
  note s = second_carry_full_val [OF r(2-)]
  note m = format_fcontract_trim_val [OF s(2)]
  have "eqp (val (format_fcontract_second_carry_full (Fe r0 r1 r2 r3 r4))) v"
    using s(1) first_carry_full_val(1) [OF t] a unfolding r(1) rep_def by (blast intro: eqp_trans)
  then have "val (format_fcontract_trim (format_fcontract_second_carry_full (Fe r0 r1 r2 r3 r4))) = v mod p25519"
    unfolding m(2) by (simp add: eqp_def)
  then show ?thesis by (simp only: format_fcontract_def r(1) format_fcontract_store_val [OF m(1)])
qed

section \<open>The whole function\<close>

lemma rep_format_scalar_of_point:
  assumes "rep_point P Q"
  shows "format_scalar_of_point P = le_bytes 32 (nat (fst Q * snd Q ^ nat (p25519 - 2) mod p25519))"
proof -
  have e: "nat (p25519 - 2) = 2 ^ 255 - 21" by (simp add: p25519_def)
  from assms have "rep tight (fst P) (fst Q)" "rep tight (snd P) (snd Q)" by (simp_all add: rep_point_def)
  from rep_format_fcontract [OF rep_fmul [OF rep_loose [OF this(1)] rep_loose [OF rep_crecip [OF this(2)]]]]
  show ?thesis unfolding e by (simp only: format_scalar_of_point_def Let_def)
qed

lemma hacl64_rfc:
  assumes "length secret = 32"
  shows "hacl64_curve25519_generic secret basepoint = rfc_x25519 256 secret basepoint"
proof -
  have "rep tight (format_fexpand basepoint) (decode_u basepoint)"
    using format_fexpand_val [of basepoint] below_mono [of "2 ^ 51" _ tight] by (simp add: rep_def)
  from rep_format_scalar_of_point [OF rep_ladder_cmult [OF this, of "curve25519_clamp_secret secret"]] assms
  show ?thesis
    by (simp add: hacl64_curve25519_generic_def rfc_x25519_def x25519_def case_prod_unfold Let_def)
qed

end
