(* ===== verification/Curve25519_Fiat32.thy ===== *)
theory Curve25519_Fiat32
  imports Curve25519_Spec
begin

text \<open>
  \<^verbatim>\<open>curve25519-fiat32.h\<close>, which is compiled where there are no 128-bit integers: field elements in ten limbs of 26
  and 25 bits in turn, products in 64-bit integers.  The structures \<^verbatim>\<open>fe\<close> and \<^verbatim>\<open>fe_loose\<close> have the same
  contents and differ in the bounds on the limbs only; both are values of type \<open>fe32\<close>.
\<close>

datatype fe32 = Fe32 u32 u32 u32 u32 u32 u32 u32 u32 u32 u32

section \<open>Reading a coordinate\<close>

definition get_unaligned_le32 :: "bytes \<Rightarrow> nat \<Rightarrow> u32" where
  "get_unaligned_le32 a off = of_nat (of_le (take 4 (drop off a)))"

definition fe_frombytes :: "bytes \<Rightarrow> fe32" where
  "fe_frombytes s =
     (let a0 = get_unaligned_le32 s 0; a1 = get_unaligned_le32 s 4; a2 = get_unaligned_le32 s 8; a3 = get_unaligned_le32 s 12;
          a4 = get_unaligned_le32 s 16; a5 = get_unaligned_le32 s 20; a6 = get_unaligned_le32 s 24; a7 = get_unaligned_le32 s 28
      in Fe32 (a0 AND mask 26)
           (drop_bit 26 a0 OR push_bit 6 (a1 AND mask 19))
           (drop_bit 19 a1 OR push_bit 13 (a2 AND mask 13))
           (drop_bit 13 a2 OR push_bit 19 (a3 AND mask 6))
           (drop_bit 6 a3)
           (a4 AND mask 25)
           (drop_bit 25 a4 OR push_bit 7 (a5 AND mask 19))
           (drop_bit 19 a5 OR push_bit 13 (a6 AND mask 12))
           (drop_bit 12 a6 OR push_bit 20 (a7 AND mask 6))
           (drop_bit 6 a7 AND mask 25))"

section \<open>Carries and the canonical form\<close>

text \<open>Each gives the carry and what is stored through the pointer.\<close>

definition addcarryx_u25 :: "u8 \<Rightarrow> u32 \<Rightarrow> u32 \<Rightarrow> u8 \<times> u32" where
  "addcarryx_u25 c a b = (let x = a + b + ucast c in (ucast (drop_bit 25 x AND 1), x AND mask 25))"

definition addcarryx_u26 :: "u8 \<Rightarrow> u32 \<Rightarrow> u32 \<Rightarrow> u8 \<times> u32" where
  "addcarryx_u26 c a b = (let x = a + b + ucast c in (ucast (drop_bit 26 x AND 1), x AND mask 26))"

definition subborrow_u25 :: "u8 \<Rightarrow> u32 \<Rightarrow> u32 \<Rightarrow> u8 \<times> u32" where
  "subborrow_u25 c a b = (let x = a - b - ucast c in (ucast (drop_bit 31 x), x AND mask 25))"

definition subborrow_u26 :: "u8 \<Rightarrow> u32 \<Rightarrow> u32 \<Rightarrow> u8 \<times> u32" where
  "subborrow_u26 c a b = (let x = a - b - ucast c in (ucast (drop_bit 31 x), x AND mask 26))"

definition cmovznz32 :: "u32 \<Rightarrow> u32 \<Rightarrow> u32 \<Rightarrow> u32" where
  "cmovznz32 t z nz = (let t = - of_bool (t \<noteq> 0) in (t AND nz) OR (NOT t AND z))"

fun fe_freeze :: "fe32 \<Rightarrow> fe32" where
  "fe_freeze (Fe32 x2 x4 x6 x8 x10 x12 x14 x16 x18 x17) =
     (let (x21, x20) = subborrow_u26 0 x2 0x3ffffed;
          (x24, x23) = subborrow_u25 x21 x4 0x1ffffff;
          (x27, x26) = subborrow_u26 x24 x6 0x3ffffff;
          (x30, x29) = subborrow_u25 x27 x8 0x1ffffff;
          (x33, x32) = subborrow_u26 x30 x10 0x3ffffff;
          (x36, x35) = subborrow_u25 x33 x12 0x1ffffff;
          (x39, x38) = subborrow_u26 x36 x14 0x3ffffff;
          (x42, x41) = subborrow_u25 x39 x16 0x1ffffff;
          (x45, x44) = subborrow_u26 x42 x18 0x3ffffff;
          (x48, x47) = subborrow_u25 x45 x17 0x1ffffff;
          x49 = cmovznz32 (ucast x48) 0 0xffffffff;
          (x53, x52) = addcarryx_u26 0 x20 (x49 AND 0x3ffffed);
          (x57, x56) = addcarryx_u25 x53 x23 (x49 AND 0x1ffffff);
          (x61, x60) = addcarryx_u26 x57 x26 (x49 AND 0x3ffffff);
          (x65, x64) = addcarryx_u25 x61 x29 (x49 AND 0x1ffffff);
          (x69, x68) = addcarryx_u26 x65 x32 (x49 AND 0x3ffffff);
          (x73, x72) = addcarryx_u25 x69 x35 (x49 AND 0x1ffffff);
          (x77, x76) = addcarryx_u26 x73 x38 (x49 AND 0x3ffffff);
          (x81, x80) = addcarryx_u25 x77 x41 (x49 AND 0x1ffffff);
          (x85, x84) = addcarryx_u26 x81 x44 (x49 AND 0x3ffffff);
          (_, x88) = addcarryx_u25 x85 x47 (x49 AND 0x1ffffff)
      in Fe32 x52 x56 x60 x64 x68 x72 x76 x80 x84 x88)"

fun fe_tobytes_store :: "fe32 \<Rightarrow> bytes" where
  "fe_tobytes_store (Fe32 h0 h1 h2 h3 h4 h5 h6 h7 h8 h9) =
     [ucast (drop_bit 0 h0), ucast (drop_bit 8 h0), ucast (drop_bit 16 h0), ucast (drop_bit 24 h0 OR push_bit 2 h1),
      ucast (drop_bit 6 h1), ucast (drop_bit 14 h1), ucast (drop_bit 22 h1 OR push_bit 3 h2),
      ucast (drop_bit 5 h2), ucast (drop_bit 13 h2), ucast (drop_bit 21 h2 OR push_bit 5 h3),
      ucast (drop_bit 3 h3), ucast (drop_bit 11 h3), ucast (drop_bit 19 h3 OR push_bit 6 h4),
      ucast (drop_bit 2 h4), ucast (drop_bit 10 h4), ucast (drop_bit 18 h4),
      ucast (drop_bit 0 h5), ucast (drop_bit 8 h5), ucast (drop_bit 16 h5), ucast (drop_bit 24 h5 OR push_bit 1 h6),
      ucast (drop_bit 7 h6), ucast (drop_bit 15 h6), ucast (drop_bit 23 h6 OR push_bit 3 h7),
      ucast (drop_bit 5 h7), ucast (drop_bit 13 h7), ucast (drop_bit 21 h7 OR push_bit 4 h8),
      ucast (drop_bit 4 h8), ucast (drop_bit 12 h8), ucast (drop_bit 20 h8 OR push_bit 6 h9),
      ucast (drop_bit 2 h9), ucast (drop_bit 10 h9), ucast (drop_bit 18 h9)]"

definition fe_tobytes :: "fe32 \<Rightarrow> bytes" where
  "fe_tobytes f = fe_tobytes_store (fe_freeze f)"

section \<open>Field arithmetic\<close>

definition fe_0 :: fe32 where
  "fe_0 = Fe32 0 0 0 0 0 0 0 0 0 0"

definition fe_1 :: fe32 where
  "fe_1 = Fe32 1 0 0 0 0 0 0 0 0 0"

fun fe_add :: "fe32 \<Rightarrow> fe32 \<Rightarrow> fe32" where
  "fe_add (Fe32 x5 x7 x9 x11 x13 x15 x17 x19 x21 x20) (Fe32 x23 x25 x27 x29 x31 x33 x35 x37 x39 x38) =
     Fe32 (x5 + x23) (x7 + x25) (x9 + x27) (x11 + x29) (x13 + x31) (x15 + x33) (x17 + x35) (x19 + x37) (x21 + x39) (x20 + x38)"

fun fe_sub :: "fe32 \<Rightarrow> fe32 \<Rightarrow> fe32" where
  "fe_sub (Fe32 x5 x7 x9 x11 x13 x15 x17 x19 x21 x20) (Fe32 x23 x25 x27 x29 x31 x33 x35 x37 x39 x38) =
     Fe32 (0x7ffffda + x5 - x23) (0x3fffffe + x7 - x25) (0x7fffffe + x9 - x27) (0x3fffffe + x11 - x29) (0x7fffffe + x13 - x31)
       (0x3fffffe + x15 - x33) (0x7fffffe + x17 - x35) (0x3fffffe + x19 - x37) (0x7fffffe + x21 - x39) (0x3fffffe + x20 - x38)"

text \<open>The three additions of a high product, which make nineteen times it.\<close>

definition add_19 :: "u64 \<Rightarrow> u64 \<Rightarrow> u64" where
  "add_19 low high = (low + push_bit 4 high) + push_bit 1 high + high"

text \<open>The carries at the end of multiplication and squaring, with the names that the variables have in the multiplication.\<close>

definition fe_carry :: "u64 \<Rightarrow> u64 \<Rightarrow> u64 \<Rightarrow> u64 \<Rightarrow> u64 \<Rightarrow> u64 \<Rightarrow> u64 \<Rightarrow> u64 \<Rightarrow> u64 \<Rightarrow> u64 \<Rightarrow> fe32" where
  "fe_carry x85 x82 x79 x76 x73 x70 x67 x64 x61 x49 =
     (let x86 = drop_bit 26 x85; x87 = (ucast x85 :: u32) AND mask 26; x88 = x86 + x82;
          x89 = drop_bit 25 x88; x90 = (ucast x88 :: u32) AND mask 25; x91 = x89 + x79;
          x92 = drop_bit 26 x91; x93 = (ucast x91 :: u32) AND mask 26; x94 = x92 + x76;
          x95 = drop_bit 25 x94; x96 = (ucast x94 :: u32) AND mask 25; x97 = x95 + x73;
          x98 = drop_bit 26 x97; x99 = (ucast x97 :: u32) AND mask 26; x100 = x98 + x70;
          x101 = drop_bit 25 x100; x102 = (ucast x100 :: u32) AND mask 25; x103 = x101 + x67;
          x104 = drop_bit 26 x103; x105 = (ucast x103 :: u32) AND mask 26; x106 = x104 + x64;
          x107 = drop_bit 25 x106; x108 = (ucast x106 :: u32) AND mask 25; x109 = x107 + x61;
          x110 = drop_bit 26 x109; x111 = (ucast x109 :: u32) AND mask 26; x112 = x110 + x49;
          x113 = drop_bit 25 x112; x114 = (ucast x112 :: u32) AND mask 25;
          x115 = (ucast x87 :: u64) + 19 * x113;
          x116 = (ucast (drop_bit 26 x115) :: u32); x117 = (ucast x115 :: u32) AND mask 26;
          x118 = x116 + x90; x119 = drop_bit 25 x118; x120 = x118 AND mask 25
      in Fe32 x117 x120 (x119 + x93) x96 x99 x102 x105 x108 x111 x114)"

fun fe_mul_impl :: "fe32 \<Rightarrow> fe32 \<Rightarrow> fe32" where
  "fe_mul_impl (Fe32 x5 x7 x9 x11 x13 x15 x17 x19 x21 x20) (Fe32 x23 x25 x27 x29 x31 x33 x35 x37 x39 x38) =
     (let x40 = ucast x23 * ucast x5;
          x41 = (ucast x23 * ucast x7) + (ucast x25 * ucast x5);
          x42 = ((ucast (2 * x25) * ucast x7) + (ucast x23 * ucast x9)) + (ucast x27 * ucast x5);
          x43 = (((ucast x25 * ucast x9) + (ucast x27 * ucast x7)) + (ucast x23 * ucast x11)) + (ucast x29 * ucast x5);
          x44 = (((ucast x27 * ucast x9) + (2 * ((ucast x25 * ucast x11) + (ucast x29 * ucast x7)))) + (ucast x23 * ucast x13)) + (ucast x31 * ucast x5);
          x45 = (((((ucast x27 * ucast x11) + (ucast x29 * ucast x9)) + (ucast x25 * ucast x13)) + (ucast x31 * ucast x7)) + (ucast x23 * ucast x15)) + (ucast x33 * ucast x5);
          x46 = ((((2 * (((ucast x29 * ucast x11) + (ucast x25 * ucast x15)) + (ucast x33 * ucast x7))) + (ucast x27 * ucast x13)) + (ucast x31 * ucast x9)) + (ucast x23 * ucast x17)) + (ucast x35 * ucast x5);
          x47 = (((((((ucast x29 * ucast x13) + (ucast x31 * ucast x11)) + (ucast x27 * ucast x15)) + (ucast x33 * ucast x9)) + (ucast x25 * ucast x17)) + (ucast x35 * ucast x7)) + (ucast x23 * ucast x19)) + (ucast x37 * ucast x5);
          x48 = (((((ucast x31 * ucast x13) + (2 * ((((ucast x29 * ucast x15) + (ucast x33 * ucast x11)) + (ucast x25 * ucast x19)) + (ucast x37 * ucast x7)))) + (ucast x27 * ucast x17)) + (ucast x35 * ucast x9)) + (ucast x23 * ucast x21)) + (ucast x39 * ucast x5);
          x49 = (((((((((ucast x31 * ucast x15) + (ucast x33 * ucast x13)) + (ucast x29 * ucast x17)) + (ucast x35 * ucast x11)) + (ucast x27 * ucast x19)) + (ucast x37 * ucast x9)) + (ucast x25 * ucast x21)) + (ucast x39 * ucast x7)) + (ucast x23 * ucast x20)) + (ucast x38 * ucast x5);
          x50 = ((((2 * (((((ucast x33 * ucast x15) + (ucast x29 * ucast x19)) + (ucast x37 * ucast x11)) + (ucast x25 * ucast x20)) + (ucast x38 * ucast x7))) + (ucast x31 * ucast x17)) + (ucast x35 * ucast x13)) + (ucast x27 * ucast x21)) + (ucast x39 * ucast x9);
          x51 = (((((((ucast x33 * ucast x17) + (ucast x35 * ucast x15)) + (ucast x31 * ucast x19)) + (ucast x37 * ucast x13)) + (ucast x29 * ucast x21)) + (ucast x39 * ucast x11)) + (ucast x27 * ucast x20)) + (ucast x38 * ucast x9);
          x52 = (((ucast x35 * ucast x17) + (2 * ((((ucast x33 * ucast x19) + (ucast x37 * ucast x15)) + (ucast x29 * ucast x20)) + (ucast x38 * ucast x11)))) + (ucast x31 * ucast x21)) + (ucast x39 * ucast x13);
          x53 = (((((ucast x35 * ucast x19) + (ucast x37 * ucast x17)) + (ucast x33 * ucast x21)) + (ucast x39 * ucast x15)) + (ucast x31 * ucast x20)) + (ucast x38 * ucast x13);
          x54 = ((2 * (((ucast x37 * ucast x19) + (ucast x33 * ucast x20)) + (ucast x38 * ucast x15))) + (ucast x35 * ucast x21)) + (ucast x39 * ucast x17);
          x55 = (((ucast x37 * ucast x21) + (ucast x39 * ucast x19)) + (ucast x35 * ucast x20)) + (ucast x38 * ucast x17);
          x56 = (ucast x39 * ucast x21) + (2 * ((ucast x37 * ucast x20) + (ucast x38 * ucast x19)));
          x57 = (ucast x39 * ucast x20) + (ucast x38 * ucast x21);
          x58 = ucast (2 * x38) * ucast x20
      in fe_carry (add_19 x40 x50) (add_19 x41 x51) (add_19 x42 x52) (add_19 x43 x53) (add_19 x44 x54) (add_19 x45 x55)
           (add_19 x46 x56) (add_19 x47 x57) (add_19 x48 x58) x49)"

fun fe_sqr_impl :: "fe32 \<Rightarrow> fe32" where
  "fe_sqr_impl (Fe32 x2 x4 x6 x8 x10 x12 x14 x16 x18 x17) =
     (let x19 = ucast x2 * ucast x2;
          x20 = ucast (2 * x2) * ucast x4;
          x21 = 2 * ((ucast x4 * ucast x4) + (ucast x2 * ucast x6));
          x22 = 2 * ((ucast x4 * ucast x6) + (ucast x2 * ucast x8));
          x23 = ((ucast x6 * ucast x6) + (ucast (4 * x4) * ucast x8)) + (ucast (2 * x2) * ucast x10);
          x24 = 2 * (((ucast x6 * ucast x8) + (ucast x4 * ucast x10)) + (ucast x2 * ucast x12));
          x25 = 2 * ((((ucast x8 * ucast x8) + (ucast x6 * ucast x10)) + (ucast x2 * ucast x14)) + (ucast (2 * x4) * ucast x12));
          x26 = 2 * ((((ucast x8 * ucast x10) + (ucast x6 * ucast x12)) + (ucast x4 * ucast x14)) + (ucast x2 * ucast x16));
          x27 = (ucast x10 * ucast x10) + (2 * (((ucast x6 * ucast x14) + (ucast x2 * ucast x18)) + (2 * ((ucast x4 * ucast x16) + (ucast x8 * ucast x12)))));
          x28 = 2 * (((((ucast x10 * ucast x12) + (ucast x8 * ucast x14)) + (ucast x6 * ucast x16)) + (ucast x4 * ucast x18)) + (ucast x2 * ucast x17));
          x29 = 2 * ((((ucast x12 * ucast x12) + (ucast x10 * ucast x14)) + (ucast x6 * ucast x18)) + (2 * ((ucast x8 * ucast x16) + (ucast x4 * ucast x17))));
          x30 = 2 * ((((ucast x12 * ucast x14) + (ucast x10 * ucast x16)) + (ucast x8 * ucast x18)) + (ucast x6 * ucast x17));
          x31 = (ucast x14 * ucast x14) + (2 * ((ucast x10 * ucast x18) + (2 * ((ucast x12 * ucast x16) + (ucast x8 * ucast x17)))));
          x32 = 2 * (((ucast x14 * ucast x16) + (ucast x12 * ucast x18)) + (ucast x10 * ucast x17));
          x33 = 2 * (((ucast x16 * ucast x16) + (ucast x14 * ucast x18)) + (ucast (2 * x12) * ucast x17));
          x34 = 2 * ((ucast x16 * ucast x18) + (ucast x14 * ucast x17));
          x35 = (ucast x18 * ucast x18) + (ucast (4 * x16) * ucast x17);
          x36 = ucast (2 * x18) * ucast x17;
          x37 = ucast (2 * x17) * ucast x17
      in fe_carry (add_19 x19 x29) (add_19 x20 x30) (add_19 x21 x31) (add_19 x22 x32) (add_19 x23 x33) (add_19 x24 x34)
           (add_19 x25 x35) (add_19 x26 x36) (add_19 x27 x37) x28)"

text \<open>The code repeats the body of the multiplication with a constant second factor.\<close>

definition fe_mul_121666_impl :: "fe32 \<Rightarrow> fe32" where
  "fe_mul_121666_impl in1 = fe_mul_impl in1 (Fe32 121666 0 0 0 0 0 0 0 0 0)"

section \<open>The inversion\<close>

text \<open>The squarings of a loop from 1 to \<open>n\<close>, with the one before it.\<close>

definition fe_sq_times :: "nat \<Rightarrow> fe32 \<Rightarrow> fe32" where
  "fe_sq_times n f = (fe_sqr_impl ^^ (n - 1)) (fe_sqr_impl f)"

definition fe_loose_invert :: "fe32 \<Rightarrow> fe32" where
  "fe_loose_invert z =
     (let t0 = fe_sqr_impl z;
          t1 = fe_sq_times 2 t0;
          t1 = fe_mul_impl z t1;
          t0 = fe_mul_impl t0 t1;
          t2 = fe_sqr_impl t0;
          t1 = fe_mul_impl t1 t2;
          t2 = fe_sq_times 5 t1;
          t1 = fe_mul_impl t2 t1;
          t2 = fe_sq_times 10 t1;
          t2 = fe_mul_impl t2 t1;
          t3 = fe_sq_times 20 t2;
          t2 = fe_mul_impl t3 t2;
          t2 = fe_sq_times 10 t2;
          t1 = fe_mul_impl t2 t1;
          t2 = fe_sq_times 50 t1;
          t2 = fe_mul_impl t2 t1;
          t3 = fe_sq_times 100 t2;
          t2 = fe_mul_impl t3 t2;
          t2 = fe_sq_times 50 t2;
          t1 = fe_mul_impl t2 t1;
          t1 = fe_sq_times 5 t1
      in fe_mul_impl t1 t0)"

section \<open>The ladder\<close>

definition fe_cswap_limb :: "u32 \<Rightarrow> u32 \<Rightarrow> u32 \<Rightarrow> u32 \<times> u32" where
  "fe_cswap_limb b f g = (let x = f XOR g; x = x AND b in (f XOR x, g XOR x))"

fun fe_cswap :: "fe32 \<Rightarrow> fe32 \<Rightarrow> u32 \<Rightarrow> fe32 \<times> fe32" where
  "fe_cswap (Fe32 f0 f1 f2 f3 f4 f5 f6 f7 f8 f9) (Fe32 g0 g1 g2 g3 g4 g5 g6 g7 g8 g9) b =
     (let b = 0 - b; (f0, g0) = fe_cswap_limb b f0 g0; (f1, g1) = fe_cswap_limb b f1 g1; (f2, g2) = fe_cswap_limb b f2 g2;
          (f3, g3) = fe_cswap_limb b f3 g3; (f4, g4) = fe_cswap_limb b f4 g4; (f5, g5) = fe_cswap_limb b f5 g5;
          (f6, g6) = fe_cswap_limb b f6 g6; (f7, g7) = fe_cswap_limb b f7 g7; (f8, g8) = fe_cswap_limb b f8 g8;
          (f9, g9) = fe_cswap_limb b f9 g9
      in (Fe32 f0 f1 f2 f3 f4 f5 f6 f7 f8 f9, Fe32 g0 g1 g2 g3 g4 g5 g6 g7 g8 g9))"

type_synonym point32 = "fe32 \<times> fe32"

definition fe_ladderstep :: "fe32 \<Rightarrow> point32 \<times> point32 \<Rightarrow> point32 \<times> point32" where
  "fe_ladderstep x1 s =
     (case s of ((x2, z2), (x3, z3)) \<Rightarrow>
        let tmp0l = fe_sub x3 z3; tmp1l = fe_sub x2 z2; x2l = fe_add x2 z2; z2l = fe_add x3 z3;
            z3 = fe_mul_impl tmp0l x2l; z2 = fe_mul_impl z2l tmp1l;
            tmp0 = fe_sqr_impl tmp1l; tmp1 = fe_sqr_impl x2l;
            x3l = fe_add z3 z2; z2l = fe_sub z3 z2;
            x2 = fe_mul_impl tmp1 tmp0; tmp1l = fe_sub tmp1 tmp0;
            z2 = fe_sqr_impl z2l; z3 = fe_mul_121666_impl tmp1l; x3 = fe_sqr_impl x3l;
            tmp0l = fe_add tmp0 z3; z3 = fe_mul_impl x1 z2; z2 = fe_mul_impl tmp1l tmp0l
        in ((x2, z2), (x3, z3)))"

definition fe_cswap_points :: "u32 \<Rightarrow> point32 \<times> point32 \<Rightarrow> point32 \<times> point32" where
  "fe_cswap_points swap s =
     (case s of ((x2, z2), (x3, z3)) \<Rightarrow>
        let (x2, x3) = fe_cswap x2 x3 swap; (z2, z3) = fe_cswap z2 z3 swap in ((x2, z2), (x3, z3)))"

text \<open>The loop over the positions \<open>pos - 1\<close> down to 0, with the swap that is still to be undone.\<close>

fun fe_ladder :: "bytes \<Rightarrow> fe32 \<Rightarrow> nat \<Rightarrow> u32 \<Rightarrow> point32 \<times> point32 \<Rightarrow> u32 \<times> (point32 \<times> point32)" where
  "fe_ladder e x1 0 swap s = (swap, s)"
| "fe_ladder e x1 (Suc pos) swap s =
     (let b = 1 AND drop_bit (pos mod 8) (ucast (e ! (pos div 8))); swap = swap XOR b
      in fe_ladder e x1 pos b (fe_ladderstep x1 (fe_cswap_points swap s)))"

definition fiat32_curve25519_generic :: "bytes \<Rightarrow> bytes \<Rightarrow> bytes" where
  "fiat32_curve25519_generic scalar point =
     (let e = curve25519_clamp_secret (take 32 scalar);
          x1 = fe_frombytes point;
          (swap, s) = fe_ladder e x1 255 0 ((fe_1, fe_0), (x1, fe_1));
          (x2, z2) = fst (fe_cswap_points swap s);
          z2 = fe_loose_invert z2;
          x2 = fe_mul_impl x2 z2
      in fe_tobytes x2)"

declare fe_mul_impl.simps [simp del] fe_sqr_impl.simps [simp del]

section \<open>The number that limbs stand for\<close>

text \<open>Two limbs have 51 bits together.\<close>

fun val32 :: "fe32 \<Rightarrow> int" where
  "val32 (Fe32 a0 a1 a2 a3 a4 a5 a6 a7 a8 a9) =
     (int (unat a0) + 2 ^ 26 * int (unat a1)) + B51 * ((int (unat a2) + 2 ^ 26 * int (unat a3)) +
       B51 * ((int (unat a4) + 2 ^ 26 * int (unat a5)) + B51 * ((int (unat a6) + 2 ^ 26 * int (unat a7)) +
       B51 * (int (unat a8) + 2 ^ 26 * int (unat a9)))))"

text \<open>Bounds for the even and for the odd limbs.\<close>

fun limbs_le :: "nat \<Rightarrow> nat \<Rightarrow> fe32 \<Rightarrow> bool" where
  "limbs_le n m (Fe32 a0 a1 a2 a3 a4 a5 a6 a7 a8 a9) \<longleftrightarrow>
     unat a0 \<le> n \<and> unat a1 \<le> m \<and> unat a2 \<le> n \<and> unat a3 \<le> m \<and> unat a4 \<le> n \<and> unat a5 \<le> m \<and>
     unat a6 \<le> n \<and> unat a7 \<le> m \<and> unat a8 \<le> n \<and> unat a9 \<le> m"

abbreviation (input) tight32 :: "fe32 \<Rightarrow> bool" where "tight32 \<equiv> limbs_le (2 ^ 26) (2 ^ 25)"
abbreviation (input) loose32 :: "fe32 \<Rightarrow> bool" where "loose32 \<equiv> limbs_le (3 * 2 ^ 26) (3 * 2 ^ 25)"

section \<open>The carries of a product\<close>

lemma add_19_unat: "unat low + 19 * unat high < 2 ^ 64 \<Longrightarrow> unat (add_19 low high) = unat low + 19 * unat high"
proof -
  assume a: "unat low + 19 * unat high < 2 ^ 64"
  have "add_19 low high = of_nat (unat low + 19 * unat high)"
    by (simp add: add_19_def push_bit_eq_mult algebra_simps)
  with a show ?thesis by (simp only: unat_of_nat) simp
qed

lemma unat_low_bits: "k \<le> 32 \<Longrightarrow> unat ((ucast (x :: u64) :: u32) AND mask k) = unat x mod 2 ^ k"
proof -
  assume "k \<le> 32"
  then have "unat x mod 2 ^ 32 mod 2 ^ k = unat x mod 2 ^ k" by (intro mod_mod_cancel le_imp_power_dvd)
  then show ?thesis by (simp add: unat_and_mask unat_ucast_down)
qed

lemma unat_carry: "unat y \<le> 2 ^ 63 \<Longrightarrow> 25 \<le> k \<Longrightarrow> unat (drop_bit k x + y) = unat x div 2 ^ k + unat (y :: u64)"
proof -
  assume a: "unat y \<le> 2 ^ 63" "25 \<le> k"
  have "unat x div 2 ^ k \<le> unat x div 2 ^ 25" using a(2) by (intro div_le_mono2 power_increasing) simp_all
  moreover have "unat x div 2 ^ 25 < 2 ^ 39" using unsigned_less [of x, where 'a = nat] by (simp add: less_mult_imp_div_less)
  ultimately show ?thesis using a(1) by (simp add: unat_add_no_wrap unat_drop_bit_div)
qed

lemma digit_split: "int n = int (n mod 2 ^ k) + 2 ^ k * int (n div 2 ^ k)"
proof -
  have "int n = int (n mod 2 ^ k + 2 ^ k * (n div 2 ^ k))" by (simp only: mod_mult_div_eq)
  then show ?thesis by (simp only: of_nat_add of_nat_mult of_nat_power of_nat_numeral)
qed

lemma digit_sum: "n = a + b \<Longrightarrow> int a + int b = int (n mod 2 ^ k) + 2 ^ k * int (n div 2 ^ k)"
  using digit_split [of n k] by simp

lemma digit_sum_19: "n = a + 19 * b \<Longrightarrow> int a + 19 * int b = int (n mod 2 ^ k) + 2 ^ k * int (n div 2 ^ k)"
  using digit_split [of n k] by simp

text \<open>The carries as equations: the limbs \<open>r\<close> and carries \<open>c\<close> of the first pass, then the top carry and the two limbs that it reaches.\<close>

lemma carry_algebra:
  fixes t0 t1 t2 t3 t4 t5 t6 t7 t8 t9 :: int
  assumes "t0 = r0 + 2 ^ 26 * c0" "c0 + t1 = r1 + 2 ^ 25 * c1" "c1 + t2 = r2 + 2 ^ 26 * c2" "c2 + t3 = r3 + 2 ^ 25 * c3"
    "c3 + t4 = r4 + 2 ^ 26 * c4" "c4 + t5 = r5 + 2 ^ 25 * c5" "c5 + t6 = r6 + 2 ^ 26 * c6" "c6 + t7 = r7 + 2 ^ 25 * c7"
    "c7 + t8 = r8 + 2 ^ 26 * c8" "c8 + t9 = r9 + 2 ^ 25 * c9" "r0 + 19 * c9 = x0 + 2 ^ 26 * x1" "x1 + r1 = y0 + 2 ^ 25 * y1"
  shows "(x0 + 2 ^ 26 * y0) + B51 * ((y1 + r2 + 2 ^ 26 * r3) + B51 * ((r4 + 2 ^ 26 * r5) + B51 * ((r6 + 2 ^ 26 * r7) + B51 * (r8 + 2 ^ 26 * r9)))) +
      p25519 * c9 =
    (t0 + 2 ^ 26 * t1) + B51 * ((t2 + 2 ^ 26 * t3) + B51 * ((t4 + 2 ^ 26 * t5) + B51 * ((t6 + 2 ^ 26 * t7) + B51 * (t8 + 2 ^ 26 * t9))))"
proof -
  have "t1 = r1 + 2 ^ 25 * c1 - c0" "t2 = r2 + 2 ^ 26 * c2 - c1" "t3 = r3 + 2 ^ 25 * c3 - c2" "t4 = r4 + 2 ^ 26 * c4 - c3" "t5 = r5 + 2 ^ 25 * c5 - c4"
    "t6 = r6 + 2 ^ 26 * c6 - c5" "t7 = r7 + 2 ^ 25 * c7 - c6" "t8 = r8 + 2 ^ 26 * c8 - c7" "t9 = r9 + 2 ^ 25 * c9 - c8"
    "r1 = y0 + 2 ^ 25 * y1 - x1" "r0 = x0 + 2 ^ 26 * x1 - 19 * c9"
    using assms(2-) by (simp_all add: algebra_simps)
  then show ?thesis unfolding assms(1) p25519_def B51_def by (simp add: algebra_simps)
qed


text \<open>The top carry reaches the lowest three limbs.\<close>

lemma top_carry:
  fixes r0 r1 r2 y :: u32 and c x :: u64
  assumes "unat r0 < 2 ^ 26" "unat r1 < 2 ^ 25" "unat r2 < 2 ^ 26" "unat c < 2 ^ 39"
    and "x = ucast r0 + 19 * c" "y = ucast (drop_bit 26 x) + r1" "z = drop_bit 25 y + r2"
  shows "unat x = unat r0 + 19 * unat c" "unat y = unat x div 2 ^ 26 + unat r1" "unat z = unat y div 2 ^ 25 + unat r2" "unat z \<le> 2 ^ 26"
proof -
  have "unat (19 * c) = 19 * unat c" using assms(4) by (subst unat_mult_no_wrap) simp_all
  then show x: "unat x = unat r0 + 19 * unat c" using assms(1,4) unfolding assms(5) by (subst unat_add_no_wrap) (simp_all add: unat_ucast_up)
  have "unat x < 2 ^ 18 * 2 ^ 26" using x assms(1,4) by simp
  then have xd: "unat x div 2 ^ 26 < 2 ^ 18" by (rule less_mult_imp_div_less)
  then have "unat (ucast (drop_bit 26 x) :: u32) = unat x div 2 ^ 26" by (simp add: unat_ucast_down unat_drop_bit_div)
  then show y: "unat y = unat x div 2 ^ 26 + unat r1" using xd assms(2) unfolding assms(6) by (subst unat_add_no_wrap) simp_all
  have "unat y < 2 * 2 ^ 25" using y xd assms(2) by simp
  then have yd: "unat y div 2 ^ 25 < 2" by (rule less_mult_imp_div_less)
  then show z: "unat z = unat y div 2 ^ 25 + unat r2" using assms(3) unfolding assms(7)
    by (subst unat_add_no_wrap) (simp_all add: unat_drop_bit_div)
  show "unat z \<le> 2 ^ 26" using z yd assms(3) by linarith
qed

lemma fe_carry_val:
  assumes "unat t0 \<le> 2 ^ 63" "unat t1 \<le> 2 ^ 63" "unat t2 \<le> 2 ^ 63" "unat t3 \<le> 2 ^ 63" "unat t4 \<le> 2 ^ 63"
    "unat t5 \<le> 2 ^ 63" "unat t6 \<le> 2 ^ 63" "unat t7 \<le> 2 ^ 63" "unat t8 \<le> 2 ^ 63" "unat t9 \<le> 2 ^ 63"
  shows "tight32 (fe_carry t0 t1 t2 t3 t4 t5 t6 t7 t8 t9)"
    "eqp (val32 (fe_carry t0 t1 t2 t3 t4 t5 t6 t7 t8 t9))
       ((int (unat t0) + 2 ^ 26 * int (unat t1)) + B51 * ((int (unat t2) + 2 ^ 26 * int (unat t3)) +
       B51 * ((int (unat t4) + 2 ^ 26 * int (unat t5)) + B51 * ((int (unat t6) + 2 ^ 26 * int (unat t7)) +
       B51 * (int (unat t8) + 2 ^ 26 * int (unat t9))))))"
proof -
  define s1 where "s1 = drop_bit 26 t0 + t1"
  define s2 where "s2 = drop_bit 25 s1 + t2"
  define s3 where "s3 = drop_bit 26 s2 + t3"
  define s4 where "s4 = drop_bit 25 s3 + t4"
  define s5 where "s5 = drop_bit 26 s4 + t5"
  define s6 where "s6 = drop_bit 25 s5 + t6"
  define s7 where "s7 = drop_bit 26 s6 + t7"
  define s8 where "s8 = drop_bit 25 s7 + t8"
  define s9 where "s9 = drop_bit 26 s8 + t9"
  have k: "25 \<le> (25 :: nat)" "25 \<le> (26 :: nat)" by simp_all
  have s: "unat s1 = unat t0 div 2 ^ 26 + unat t1" "unat s2 = unat s1 div 2 ^ 25 + unat t2" "unat s3 = unat s2 div 2 ^ 26 + unat t3"
    "unat s4 = unat s3 div 2 ^ 25 + unat t4" "unat s5 = unat s4 div 2 ^ 26 + unat t5" "unat s6 = unat s5 div 2 ^ 25 + unat t6"
    "unat s7 = unat s6 div 2 ^ 26 + unat t7" "unat s8 = unat s7 div 2 ^ 25 + unat t8" "unat s9 = unat s8 div 2 ^ 26 + unat t9"
    using unat_carry [OF assms(2) k(2), of t0, folded s1_def] unat_carry [OF assms(3) k(1), of s1, folded s2_def]
      unat_carry [OF assms(4) k(2), of s2, folded s3_def] unat_carry [OF assms(5) k(1), of s3, folded s4_def]
      unat_carry [OF assms(6) k(2), of s4, folded s5_def] unat_carry [OF assms(7) k(1), of s5, folded s6_def]
      unat_carry [OF assms(8) k(2), of s6, folded s7_def] unat_carry [OF assms(9) k(1), of s7, folded s8_def]
      unat_carry [OF assms(10) k(2), of s8, folded s9_def]
    by blast+
  have m: "n mod 2 ^ 26 < (2 ^ 26 :: nat)" "n mod 2 ^ 25 < (2 ^ 25 :: nat)" for n by simp_all
  have r: "unat (ucast t0 AND mask 26 :: u32) = unat t0 mod 2 ^ 26" "unat (ucast s1 AND mask 25 :: u32) = unat s1 mod 2 ^ 25"
    "unat (ucast s2 AND mask 26 :: u32) = unat s2 mod 2 ^ 26" "unat (drop_bit 25 s9) = unat s9 div 2 ^ 25"
    by (simp_all only: unat_low_bits unat_drop_bit_div numeral_le_iff semiring_norm)
  have c: "unat (drop_bit 25 s9) < 2 ^ 39" unfolding r using unsigned_less [of s9, where 'a = nat] by (simp add: less_mult_imp_div_less)
  define x where "x = (ucast ((ucast t0 :: u32) AND mask 26) :: u64) + 19 * drop_bit 25 s9"
  define y where "y = (ucast (drop_bit 26 x) :: u32) + ((ucast s1 :: u32) AND mask 25)"
  define z where "z = drop_bit 25 y + ((ucast s2 :: u32) AND mask 26)"
  note xyz = top_carry [OF _ _ _ c x_def y_def z_def, unfolded r, OF m(1) m(2) m(1)]
  have f: "fe_carry t0 t1 t2 t3 t4 t5 t6 t7 t8 t9 =
      Fe32 (ucast x AND mask 26) (y AND mask 25) z (ucast s3 AND mask 25) (ucast s4 AND mask 26) (ucast s5 AND mask 25)
        (ucast s6 AND mask 26) (ucast s7 AND mask 25) (ucast s8 AND mask 26) (ucast s9 AND mask 25)"
    unfolding fe_carry_def Let_def s1_def s2_def s3_def s4_def s5_def s6_def s7_def s8_def s9_def x_def y_def z_def by (rule refl)
  have ly: "unat (y AND mask 25) = unat y mod 2 ^ 25" by (rule unat_and_mask)
  have l: "unat (ucast x AND mask 26 :: u32) = unat x mod 2 ^ 26"
    "unat (ucast s3 AND mask 25 :: u32) = unat s3 mod 2 ^ 25" "unat (ucast s4 AND mask 26 :: u32) = unat s4 mod 2 ^ 26"
    "unat (ucast s5 AND mask 25 :: u32) = unat s5 mod 2 ^ 25" "unat (ucast s6 AND mask 26 :: u32) = unat s6 mod 2 ^ 26"
    "unat (ucast s7 AND mask 25 :: u32) = unat s7 mod 2 ^ 25" "unat (ucast s8 AND mask 26 :: u32) = unat s8 mod 2 ^ 26"
    "unat (ucast s9 AND mask 25 :: u32) = unat s9 mod 2 ^ 25"
    by (rule unat_low_bits, simp)+
  show "tight32 (fe_carry t0 t1 t2 t3 t4 t5 t6 t7 t8 t9)"
    unfolding f limbs_le.simps l ly using xyz(4) m less_imp_le by blast
  note d = digit_split [of "unat t0" 26] digit_sum [OF s(1), of 25] digit_sum [OF s(2), of 26] digit_sum [OF s(3), of 25]
    digit_sum [OF s(4), of 26] digit_sum [OF s(5), of 25] digit_sum [OF s(6), of 26] digit_sum [OF s(7), of 25]
    digit_sum [OF s(8), of 26] digit_sum [OF s(9), of 25] digit_sum_19 [OF xyz(1), of 26] digit_sum [OF xyz(2), of 25]
  have "val32 (fe_carry t0 t1 t2 t3 t4 t5 t6 t7 t8 t9) + p25519 * int (unat s9 div 2 ^ 25) =
      (int (unat t0) + 2 ^ 26 * int (unat t1)) + B51 * ((int (unat t2) + 2 ^ 26 * int (unat t3)) +
       B51 * ((int (unat t4) + 2 ^ 26 * int (unat t5)) + B51 * ((int (unat t6) + 2 ^ 26 * int (unat t7)) +
       B51 * (int (unat t8) + 2 ^ 26 * int (unat t9)))))"
    unfolding f val32.simps l ly xyz(3) of_nat_add by (rule carry_algebra [OF d])
  then show "eqp (val32 (fe_carry t0 t1 t2 t3 t4 t5 t6 t7 t8 t9))
       ((int (unat t0) + 2 ^ 26 * int (unat t1)) + B51 * ((int (unat t2) + 2 ^ 26 * int (unat t3)) +
       B51 * ((int (unat t4) + 2 ^ 26 * int (unat t5)) + B51 * ((int (unat t6) + 2 ^ 26 * int (unat t7)) +
       B51 * (int (unat t8) + 2 ^ 26 * int (unat t9))))))"
    by (rule eqp_sym [OF eqp_multiple, OF sym])
qed

section \<open>Products\<close>

text \<open>A 64-bit sum stands for a number within a bound.\<close>

definition den :: "u64 \<Rightarrow> nat \<Rightarrow> nat \<Rightarrow> bool" where
  "den w n m \<longleftrightarrow> unat w = n \<and> n \<le> m \<and> m < 2 ^ 64"

named_theorems den_intros \<open>numbers and bounds of sums of products\<close>

lemma den_product [den_intros]:
  assumes "unat (a :: u32) \<le> A" "unat (b :: u32) \<le> B" "A * B < 2 ^ 64"
  shows "den (ucast a * ucast b) (unat a * unat b) (A * B)"
proof -
  have le: "unat a * unat b \<le> A * B" using assms(1,2) by (rule mult_le_mono)
  with assms(3) show ?thesis by (simp add: den_def unat_mult_no_wrap unat_ucast_up)
qed

lemma den_add [den_intros]:
  assumes "den v n m" "den w k l" "m + l < 2 ^ 64"
  shows "den (v + w) (n + k) (m + l)"
  using assms by (simp add: den_def unat_add_no_wrap)

lemma den_double [den_intros]:
  assumes "den w n m" "2 * m < 2 ^ 64"
  shows "den (2 * w) (2 * n) (2 * m)"
  using assms by (simp add: den_def unat_mult_no_wrap)

lemma den_add_19 [den_intros]:
  assumes "den v n m" "den w k l" "m + 19 * l < 2 ^ 64"
  shows "den (add_19 v w) (n + 19 * k) (m + 19 * l)"
  using assms by (simp add: den_def add_19_unat)

lemma fe_carry_den:
  assumes "den t0 n0 m0" "den t1 n1 m1" "den t2 n2 m2" "den t3 n3 m3" "den t4 n4 m4" "den t5 n5 m5" "den t6 n6 m6"
    "den t7 n7 m7" "den t8 n8 m8" "den t9 n9 m9"
    and "m0 \<le> 2 ^ 63" "m1 \<le> 2 ^ 63" "m2 \<le> 2 ^ 63" "m3 \<le> 2 ^ 63" "m4 \<le> 2 ^ 63" "m5 \<le> 2 ^ 63" "m6 \<le> 2 ^ 63"
    "m7 \<le> 2 ^ 63" "m8 \<le> 2 ^ 63" "m9 \<le> 2 ^ 63"
    and "(int n0 + 2 ^ 26 * int n1) + B51 * ((int n2 + 2 ^ 26 * int n3) + B51 * ((int n4 + 2 ^ 26 * int n5) +
       B51 * ((int n6 + 2 ^ 26 * int n7) + B51 * (int n8 + 2 ^ 26 * int n9)))) = v + p25519 * q"
  shows "tight32 (fe_carry t0 t1 t2 t3 t4 t5 t6 t7 t8 t9) \<and> eqp (val32 (fe_carry t0 t1 t2 t3 t4 t5 t6 t7 t8 t9)) v"
proof -
  have u: "unat t0 = n0" "unat t1 = n1" "unat t2 = n2" "unat t3 = n3" "unat t4 = n4" "unat t5 = n5" "unat t6 = n6" "unat t7 = n7"
    "unat t8 = n8" "unat t9 = n9" using assms(1-10) by (simp_all only: den_def)
  have l: "unat t0 \<le> 2 ^ 63" "unat t1 \<le> 2 ^ 63" "unat t2 \<le> 2 ^ 63" "unat t3 \<le> 2 ^ 63" "unat t4 \<le> 2 ^ 63"
    "unat t5 \<le> 2 ^ 63" "unat t6 \<le> 2 ^ 63" "unat t7 \<le> 2 ^ 63" "unat t8 \<le> 2 ^ 63" "unat t9 \<le> 2 ^ 63"
    using assms(1-20) unfolding den_def by (blast intro: order_trans)+
  note c = fe_carry_val [OF l]
  show ?thesis using c(1) eqp_trans [OF c(2) [unfolded u] eqp_multiple [OF assms(21)]] by (rule conjI)
qed

lemma p_B51: "p25519 = B51 ^ 5 - 19"
  by (simp add: B51_5)

lemma C26_square: "(2 :: int) ^ 26 * 2 ^ 26 = 2 * B51"
  by (simp add: B51_def)

text \<open>The product of two numbers, with the part that is reduced.\<close>

lemma mul_algebra:
  fixes B C :: int
  assumes "C * C = 2 * B"
  shows "(b0 * a0 + 19 * (2 * (b5 * a5 + b3 * a7 + b7 * a3 + b1 * a9 + b9 * a1) + b4 * a6 + b6 * a4 + b2 * a8 + b8 * a2)) +
    C * (b0 * a1 + b1 * a0 + 19 * (b5 * a6 + b6 * a5 + b4 * a7 + b7 * a4 + b3 * a8 + b8 * a3 + b2 * a9 + b9 * a2)) +
    B * ((2 * b1 * a1 + b0 * a2 + b2 * a0 + 19 * (b6 * a6 + 2 * (b5 * a7 + b7 * a5 + b3 * a9 + b9 * a3) + b4 * a8 + b8 * a4)) +
      C * (b1 * a2 + b2 * a1 + b0 * a3 + b3 * a0 + 19 * (b6 * a7 + b7 * a6 + b5 * a8 + b8 * a5 + b4 * a9 + b9 * a4)) +
    B * ((b2 * a2 + 2 * (b1 * a3 + b3 * a1) + b0 * a4 + b4 * a0 + 19 * (2 * (b7 * a7 + b5 * a9 + b9 * a5) + b6 * a8 + b8 * a6)) +
      C * (b2 * a3 + b3 * a2 + b1 * a4 + b4 * a1 + b0 * a5 + b5 * a0 + 19 * (b7 * a8 + b8 * a7 + b6 * a9 + b9 * a6)) +
    B * ((2 * (b3 * a3 + b1 * a5 + b5 * a1) + b2 * a4 + b4 * a2 + b0 * a6 + b6 * a0 + 19 * (b8 * a8 + 2 * (b7 * a9 + b9 * a7))) +
      C * (b3 * a4 + b4 * a3 + b2 * a5 + b5 * a2 + b1 * a6 + b6 * a1 + b0 * a7 + b7 * a0 + 19 * (b8 * a9 + b9 * a8)) +
    B * ((b4 * a4 + 2 * (b3 * a5 + b5 * a3 + b1 * a7 + b7 * a1) + b2 * a6 + b6 * a2 + b0 * a8 + b8 * a0 + 19 * (2 * b9 * a9)) +
      C * (b4 * a5 + b5 * a4 + b3 * a6 + b6 * a3 + b2 * a7 + b7 * a2 + b1 * a8 + b8 * a1 + b0 * a9 + b9 * a0))))) =
   ((a0 + C * a1) + B * ((a2 + C * a3) + B * ((a4 + C * a5) + B * ((a6 + C * a7) + B * (a8 + C * a9))))) *
   ((b0 + C * b1) + B * ((b2 + C * b3) + B * ((b4 + C * b5) + B * ((b6 + C * b7) + B * (b8 + C * b9))))) +
   (B ^ 5 - 19) * - ((2 * (b5 * a5 + b3 * a7 + b7 * a3 + b1 * a9 + b9 * a1) + b4 * a6 + b6 * a4 + b2 * a8 + b8 * a2) +
      C * (b5 * a6 + b6 * a5 + b4 * a7 + b7 * a4 + b3 * a8 + b8 * a3 + b2 * a9 + b9 * a2) +
      B * ((b6 * a6 + 2 * (b5 * a7 + b7 * a5 + b3 * a9 + b9 * a3) + b4 * a8 + b8 * a4) +
        C * (b6 * a7 + b7 * a6 + b5 * a8 + b8 * a5 + b4 * a9 + b9 * a4) +
      B * ((2 * (b7 * a7 + b5 * a9 + b9 * a5) + b6 * a8 + b8 * a6) + C * (b7 * a8 + b8 * a7 + b6 * a9 + b9 * a6) +
      B * ((b8 * a8 + 2 * (b7 * a9 + b9 * a7)) + C * (b8 * a9 + b9 * a8) + B * (2 * b9 * a9)))))"
  using assms by algebra


lemma fe_mul_den:
  assumes "loose32 (Fe32 a0 a1 a2 a3 a4 a5 a6 a7 a8 a9)" "loose32 (Fe32 b0 b1 b2 b3 b4 b5 b6 b7 b8 b9)"
  shows "tight32 (fe_mul_impl (Fe32 a0 a1 a2 a3 a4 a5 a6 a7 a8 a9) (Fe32 b0 b1 b2 b3 b4 b5 b6 b7 b8 b9)) \<and>
    eqp (val32 (fe_mul_impl (Fe32 a0 a1 a2 a3 a4 a5 a6 a7 a8 a9) (Fe32 b0 b1 b2 b3 b4 b5 b6 b7 b8 b9)))
      (val32 (Fe32 a0 a1 a2 a3 a4 a5 a6 a7 a8 a9) * val32 (Fe32 b0 b1 b2 b3 b4 b5 b6 b7 b8 b9))"
proof -
  have a: "unat a0 \<le> 3 * 2 ^ 26" "unat a1 \<le> 3 * 2 ^ 25" "unat a2 \<le> 3 * 2 ^ 26" "unat a3 \<le> 3 * 2 ^ 25" "unat a4 \<le> 3 * 2 ^ 26"
    "unat a5 \<le> 3 * 2 ^ 25" "unat a6 \<le> 3 * 2 ^ 26" "unat a7 \<le> 3 * 2 ^ 25" "unat a8 \<le> 3 * 2 ^ 26" "unat a9 \<le> 3 * 2 ^ 25"
    using assms(1) by simp_all
  have b: "unat b0 \<le> 3 * 2 ^ 26" "unat b1 \<le> 3 * 2 ^ 25" "unat b2 \<le> 3 * 2 ^ 26" "unat b3 \<le> 3 * 2 ^ 25" "unat b4 \<le> 3 * 2 ^ 26"
    "unat b5 \<le> 3 * 2 ^ 25" "unat b6 \<le> 3 * 2 ^ 26" "unat b7 \<le> 3 * 2 ^ 25" "unat b8 \<le> 3 * 2 ^ 26" "unat b9 \<le> 3 * 2 ^ 25"
    using assms(2) by simp_all
  have d: "unat (2 * b1) \<le> 6 * 2 ^ 25" "unat (2 * b9) \<le> 6 * 2 ^ 25" "unat (2 * b1) = 2 * unat b1" "unat (2 * b9) = 2 * unat b9"
    using b by (simp_all add: unat_mult_no_wrap)
  show ?thesis
    unfolding fe_mul_impl.simps Let_def
    by (rule fe_carry_den)
      (rule den_intros a b d(1,2) | simp only: val32.simps p_B51 d of_nat_add of_nat_mult of_nat_numeral, rule mul_algebra [OF C26_square] | (simp; fail))+
qed

lemma sqr_algebra:
  fixes B C :: int
  assumes "C * C = 2 * B"
  shows "(a0 * a0 + 19 * (2 * (((a5 * a5 + a4 * a6) + a2 * a8) + (2 * (a3 * a7 + a1 * a9))))) +
    C * (2 * a0 * a1 + 19 * (2 * (((a5 * a6 + a4 * a7) + a3 * a8) + a2 * a9))) +
    B * ((2 * (a1 * a1 + a0 * a2) + 19 * (a6 * a6 + (2 * (a4 * a8 + (2 * (a5 * a7 + a3 * a9)))))) +
      C * (2 * (a1 * a2 + a0 * a3) + 19 * (2 * ((a6 * a7 + a5 * a8) + a4 * a9))) +
    B * (((a2 * a2 + 4 * a1 * a3) + 2 * a0 * a4 + 19 * (2 * ((a7 * a7 + a6 * a8) + 2 * a5 * a9))) +
      C * (2 * ((a2 * a3 + a1 * a4) + a0 * a5) + 19 * (2 * (a7 * a8 + a6 * a9))) +
    B * ((2 * (((a3 * a3 + a2 * a4) + a0 * a6) + 2 * a1 * a5) + 19 * (a8 * a8 + 4 * a7 * a9)) +
      C * (2 * (((a3 * a4 + a2 * a5) + a1 * a6) + a0 * a7) + 19 * (2 * a8 * a9)) +
    B * ((a4 * a4 + (2 * ((a2 * a6 + a0 * a8) + (2 * (a1 * a7 + a3 * a5)))) + 19 * (2 * a9 * a9)) +
      C * (2 * ((((a4 * a5 + a3 * a6) + a2 * a7) + a1 * a8) + a0 * a9)))))) =
   ((a0 + C * a1) + B * ((a2 + C * a3) + B * ((a4 + C * a5) + B * ((a6 + C * a7) + B * (a8 + C * a9))))) *
   ((a0 + C * a1) + B * ((a2 + C * a3) + B * ((a4 + C * a5) + B * ((a6 + C * a7) + B * (a8 + C * a9))))) +
   (B ^ 5 - 19) * - ((2 * (((a5 * a5 + a4 * a6) + a2 * a8) + (2 * (a3 * a7 + a1 * a9)))) + C * (2 * (((a5 * a6 + a4 * a7) + a3 * a8) + a2 * a9)) +
      B * ((a6 * a6 + (2 * (a4 * a8 + (2 * (a5 * a7 + a3 * a9))))) + C * (2 * ((a6 * a7 + a5 * a8) + a4 * a9)) +
      B * ((2 * ((a7 * a7 + a6 * a8) + 2 * a5 * a9)) + C * (2 * (a7 * a8 + a6 * a9)) +
      B * ((a8 * a8 + 4 * a7 * a9) + C * (2 * a8 * a9) + B * (2 * a9 * a9)))))"
  using assms by algebra

lemma fe_sqr_den:
  assumes "loose32 (Fe32 a0 a1 a2 a3 a4 a5 a6 a7 a8 a9)"
  shows "tight32 (fe_sqr_impl (Fe32 a0 a1 a2 a3 a4 a5 a6 a7 a8 a9)) \<and>
    eqp (val32 (fe_sqr_impl (Fe32 a0 a1 a2 a3 a4 a5 a6 a7 a8 a9)))
      (val32 (Fe32 a0 a1 a2 a3 a4 a5 a6 a7 a8 a9) * val32 (Fe32 a0 a1 a2 a3 a4 a5 a6 a7 a8 a9))"
proof -
  have a: "unat a0 \<le> 3 * 2 ^ 26" "unat a1 \<le> 3 * 2 ^ 25" "unat a2 \<le> 3 * 2 ^ 26" "unat a3 \<le> 3 * 2 ^ 25" "unat a4 \<le> 3 * 2 ^ 26"
    "unat a5 \<le> 3 * 2 ^ 25" "unat a6 \<le> 3 * 2 ^ 26" "unat a7 \<le> 3 * 2 ^ 25" "unat a8 \<le> 3 * 2 ^ 26" "unat a9 \<le> 3 * 2 ^ 25"
    using assms by simp_all
  have d: "unat (2 * a0) = 2 * unat a0" "unat (2 * a1) = 2 * unat a1" "unat (4 * a1) = 4 * unat a1" "unat (2 * a5) = 2 * unat a5"
    "unat (4 * a7) = 4 * unat a7" "unat (2 * a8) = 2 * unat a8" "unat (2 * a9) = 2 * unat a9"
    using a by (simp_all add: unat_mult_no_wrap)
  have e: "unat (2 * a0) \<le> 6 * 2 ^ 26" "unat (2 * a1) \<le> 6 * 2 ^ 25" "unat (4 * a1) \<le> 12 * 2 ^ 25" "unat (2 * a5) \<le> 6 * 2 ^ 25"
    "unat (4 * a7) \<le> 12 * 2 ^ 25" "unat (2 * a8) \<le> 6 * 2 ^ 26" "unat (2 * a9) \<le> 6 * 2 ^ 25"
    unfolding d using a by simp_all
  show ?thesis
    unfolding fe_sqr_impl.simps Let_def
    by (rule fe_carry_den)
      (rule den_intros a e | simp only: val32.simps p_B51 d of_nat_add of_nat_mult of_nat_numeral, rule sqr_algebra [OF C26_square] | (simp; fail))+
qed

section \<open>The field\<close>

definition tight32_rep :: "fe32 \<Rightarrow> int \<Rightarrow> bool" where
  "tight32_rep a v \<longleftrightarrow> tight32 a \<and> eqp (val32 a) v"

definition loose32_rep :: "fe32 \<Rightarrow> int \<Rightarrow> bool" where
  "loose32_rep a v \<longleftrightarrow> loose32 a \<and> eqp (val32 a) v"

lemma tight_loose_rep: "tight32_rep a v \<Longrightarrow> loose32_rep a v"
  by (cases a) (auto simp: tight32_rep_def loose32_rep_def)

lemma fe_mul_val: "loose32 a \<Longrightarrow> loose32 b \<Longrightarrow> tight32 (fe_mul_impl a b) \<and> eqp (val32 (fe_mul_impl a b)) (val32 a * val32 b)"
  by (cases a; cases b) (simp only: fe_mul_den)

lemma fe_sqr_val: "loose32 a \<Longrightarrow> tight32 (fe_sqr_impl a) \<and> eqp (val32 (fe_sqr_impl a)) (val32 a * val32 a)"
  by (cases a) (simp only: fe_sqr_den)

lemma fe_mul_rep: "loose32_rep a v \<Longrightarrow> loose32_rep b w \<Longrightarrow> tight32_rep (fe_mul_impl a b) (v * w)"
  using fe_mul_val [of a b] eqp_mult [of "val32 a" v "val32 b" w] by (auto simp: tight32_rep_def loose32_rep_def intro: eqp_trans)

lemma fe_sqr_rep: "loose32_rep a v \<Longrightarrow> tight32_rep (fe_sqr_impl a) (v * v)"
  using fe_sqr_val [of a] eqp_mult [of "val32 a" v "val32 a" v] by (auto simp: tight32_rep_def loose32_rep_def intro: eqp_trans)

lemma fe_add_val: "tight32 a \<Longrightarrow> tight32 b \<Longrightarrow> loose32 (fe_add a b) \<and> val32 (fe_add a b) = val32 a + val32 b"
proof (cases a; cases b)
  have u: "unat (x + y) = unat x + unat y" if "unat x \<le> 2 ^ 26" "unat y \<le> 2 ^ 26" for x y :: u32
    using that by (simp add: unat_add_no_wrap)
  fix a0 a1 a2 a3 a4 a5 a6 a7 a8 a9 b0 b1 b2 b3 b4 b5 b6 b7 b8 b9
  assume "tight32 a" "tight32 b" "a = Fe32 a0 a1 a2 a3 a4 a5 a6 a7 a8 a9" "b = Fe32 b0 b1 b2 b3 b4 b5 b6 b7 b8 b9"
  then show ?thesis by (simp add: u algebra_simps)
qed

lemma fe_sub_limb:
  assumes "unat x \<le> n" "unat y \<le> n" "n \<le> unat k" "unat k \<le> 2 * n" "n \<le> 2 ^ 26"
  shows "int (unat (k + x - y)) = int (unat k) + int (unat x) - int (unat (y :: u32))" "unat (k + x - y) \<le> 3 * n"
proof -
  have "unat (k + x) = unat k + unat x" using assms by (simp add: unat_add_no_wrap)
  then show "int (unat (k + x - y)) = int (unat k) + int (unat x) - int (unat y)" "unat (k + x - y) \<le> 3 * n"
    using assms by (simp_all add: unat_sub_no_wrap)
qed

lemma fe_sub_val: "tight32 a \<Longrightarrow> tight32 b \<Longrightarrow> loose32 (fe_sub a b) \<and> val32 (fe_sub a b) = val32 a - val32 b + p25519 * 2"
proof (cases a; cases b)
  fix a0 a1 a2 a3 a4 a5 a6 a7 a8 a9 b0 b1 b2 b3 b4 b5 b6 b7 b8 b9
  assume t: "tight32 a" "tight32 b" and a: "a = Fe32 a0 a1 a2 a3 a4 a5 a6 a7 a8 a9" and b: "b = Fe32 b0 b1 b2 b3 b4 b5 b6 b7 b8 b9"
  have e: "int (unat (0x7fffffe + x - y)) = 0x7fffffe + int (unat x) - int (unat y)" "unat (0x7fffffe + x - y) \<le> 3 * 2 ^ 26"
    "int (unat (0x7ffffda + x - y)) = 0x7ffffda + int (unat x) - int (unat y)" "unat (0x7ffffda + x - y) \<le> 3 * 2 ^ 26"
    if "unat x \<le> 2 ^ 26" "unat y \<le> 2 ^ 26" for x y :: u32
    using fe_sub_limb [OF that, of "0x7fffffe"] fe_sub_limb [OF that, of "0x7ffffda"] by simp_all
  have o: "int (unat (0x3fffffe + x - y)) = 0x3fffffe + int (unat x) - int (unat y)" "unat (0x3fffffe + x - y) \<le> 3 * 2 ^ 25"
    if "unat x \<le> 2 ^ 25" "unat y \<le> 2 ^ 25" for x y :: u32
    using fe_sub_limb [OF that, of "0x3fffffe"] by simp_all
  have l: "unat a0 \<le> 2 ^ 26" "unat b0 \<le> 2 ^ 26" "unat a1 \<le> 2 ^ 25" "unat b1 \<le> 2 ^ 25" "unat a2 \<le> 2 ^ 26" "unat b2 \<le> 2 ^ 26"
    "unat a3 \<le> 2 ^ 25" "unat b3 \<le> 2 ^ 25" "unat a4 \<le> 2 ^ 26" "unat b4 \<le> 2 ^ 26" "unat a5 \<le> 2 ^ 25" "unat b5 \<le> 2 ^ 25"
    "unat a6 \<le> 2 ^ 26" "unat b6 \<le> 2 ^ 26" "unat a7 \<le> 2 ^ 25" "unat b7 \<le> 2 ^ 25" "unat a8 \<le> 2 ^ 26" "unat b8 \<le> 2 ^ 26"
    "unat a9 \<le> 2 ^ 25" "unat b9 \<le> 2 ^ 25" using t by (simp_all add: a b)
  have "loose32 (fe_sub a b)"
    unfolding a b fe_sub.simps limbs_le.simps
    using e(4) [OF l(1,2)] o(2) [OF l(3,4)] e(2) [OF l(5,6)] o(2) [OF l(7,8)] e(2) [OF l(9,10)] o(2) [OF l(11,12)] e(2) [OF l(13,14)]
      o(2) [OF l(15,16)] e(2) [OF l(17,18)] o(2) [OF l(19,20)] by blast
  moreover have "val32 (fe_sub a b) = val32 a - val32 b + p25519 * 2"
    unfolding a b fe_sub.simps val32.simps e(3) [OF l(1,2)] o(1) [OF l(3,4)] e(1) [OF l(5,6)] o(1) [OF l(7,8)] e(1) [OF l(9,10)]
      o(1) [OF l(11,12)] e(1) [OF l(13,14)] o(1) [OF l(15,16)] e(1) [OF l(17,18)] o(1) [OF l(19,20)] B51_def p25519_def
    by (simp add: algebra_simps)
  ultimately show ?thesis by (rule conjI)
qed

lemma fe_add_rep: "tight32_rep a v \<Longrightarrow> tight32_rep b w \<Longrightarrow> loose32_rep (fe_add a b) (v + w)"
  using fe_add_val [of a b] eqp_add [of "val32 a" v "val32 b" w] by (simp add: tight32_rep_def loose32_rep_def)

lemma fe_sub_rep: "tight32_rep a v \<Longrightarrow> tight32_rep b w \<Longrightarrow> loose32_rep (fe_sub a b) (v - w)"
  using fe_sub_val [of a b] eqp_trans [OF eqp_multiple eqp_diff, of _ "val32 a" "val32 b" 2 v w]
  by (simp add: tight32_rep_def loose32_rep_def)

interpretation fiat: limb_field tight32_rep loose32_rep fe_add fe_sub fe_mul_impl fe_sqr_impl
proof unfold_locales
  show "tight32_rep a v \<Longrightarrow> eqp v w \<Longrightarrow> tight32_rep a w" for a v w by (auto simp: tight32_rep_def intro: eqp_trans)
qed (rule tight_loose_rep fe_add_rep fe_sub_rep fe_mul_rep fe_sqr_rep; assumption)+

section \<open>Inversion\<close>

lemma rep_sq_times: "tight32_rep a (v ^ e) \<Longrightarrow> 0 < n \<Longrightarrow> e * 2 ^ n = e' \<Longrightarrow> tight32_rep (fe_sq_times n a) (v ^ e')"
  unfolding fe_sq_times_def by (rule fiat.power_squarings [OF tight_loose_rep])

lemma rep_power_mul: "tight32_rep a (v ^ e) \<Longrightarrow> tight32_rep b (v ^ f) \<Longrightarrow> e + f = g \<Longrightarrow> tight32_rep (fe_mul_impl a b) (v ^ g)"
  by (rule fiat.power_mul [OF tight_loose_rep tight_loose_rep])

lemma rep_invert:
  assumes "tight32_rep z v"
  shows "tight32_rep (fe_loose_invert z) (v ^ (2 ^ 255 - 21))"
proof -
  have z: "tight32_rep z (v ^ 1)" using assms by simp
  have sq: "tight32_rep (fe_sqr_impl a) (v ^ e')" if "tight32_rep a (v ^ e)" "e * 2 = e'" for a e e'
    using rep_sq_times [OF that(1), of 1 e'] that(2) by (simp add: fe_sq_times_def)
  define t0 where "t0 = fe_sqr_impl z"
  have t0: "tight32_rep t0 (v ^ 2)" unfolding t0_def by (rule sq [OF z]) simp
  define t1 where "t1 = fe_mul_impl z (fe_sq_times 2 t0)"
  have t1: "tight32_rep t1 (v ^ 9)" unfolding t1_def by (rule rep_power_mul [OF z rep_sq_times [OF t0 _ refl]]) simp_all
  define t11 where "t11 = fe_mul_impl t0 t1"
  have t11: "tight32_rep t11 (v ^ 11)" unfolding t11_def by (rule rep_power_mul [OF t0 t1]) simp
  define t5 where "t5 = fe_mul_impl t1 (fe_sqr_impl t11)"
  have t5: "tight32_rep t5 (v ^ (2 ^ 5 - 1))" unfolding t5_def by (rule rep_power_mul [OF t1 sq [OF t11 refl]]) simp
  define t10 where "t10 = fe_mul_impl (fe_sq_times 5 t5) t5"
  have t10: "tight32_rep t10 (v ^ (2 ^ 10 - 1))" unfolding t10_def by (rule rep_power_mul [OF rep_sq_times [OF t5 _ refl] t5]) simp_all
  define t20 where "t20 = fe_mul_impl (fe_sq_times 10 t10) t10"
  have t20: "tight32_rep t20 (v ^ (2 ^ 20 - 1))" unfolding t20_def by (rule rep_power_mul [OF rep_sq_times [OF t10 _ refl] t10]) simp_all
  define t40 where "t40 = fe_mul_impl (fe_sq_times 20 t20) t20"
  have t40: "tight32_rep t40 (v ^ (2 ^ 40 - 1))" unfolding t40_def by (rule rep_power_mul [OF rep_sq_times [OF t20 _ refl] t20]) simp_all
  define t50 where "t50 = fe_mul_impl (fe_sq_times 10 t40) t10"
  have t50: "tight32_rep t50 (v ^ (2 ^ 50 - 1))" unfolding t50_def by (rule rep_power_mul [OF rep_sq_times [OF t40 _ refl] t10]) simp_all
  define t100 where "t100 = fe_mul_impl (fe_sq_times 50 t50) t50"
  have t100: "tight32_rep t100 (v ^ (2 ^ 100 - 1))" unfolding t100_def by (rule rep_power_mul [OF rep_sq_times [OF t50 _ refl] t50]) simp_all
  define t200 where "t200 = fe_mul_impl (fe_sq_times 100 t100) t100"
  have t200: "tight32_rep t200 (v ^ (2 ^ 200 - 1))" unfolding t200_def by (rule rep_power_mul [OF rep_sq_times [OF t100 _ refl] t100]) simp_all
  define t250 where "t250 = fe_mul_impl (fe_sq_times 50 t200) t50"
  have t250: "tight32_rep t250 (v ^ (2 ^ 250 - 1))" unfolding t250_def by (rule rep_power_mul [OF rep_sq_times [OF t200 _ refl] t50]) simp_all
  have "tight32_rep (fe_mul_impl (fe_sq_times 5 t250) t11) (v ^ (2 ^ 255 - 21))"
    by (rule rep_power_mul [OF rep_sq_times [OF t250 _ refl] t11]) simp_all
  then show ?thesis
    by (simp only: fe_loose_invert_def Let_def t0_def t1_def t11_def t5_def t10_def t20_def t40_def t50_def t100_def t200_def t250_def)
qed

section \<open>The ladder computes the ladder on integers\<close>

definition rep32_pair :: "point32 \<times> point32 \<Rightarrow> mpoint \<times> mpoint \<Rightarrow> bool" where
  "rep32_pair s t \<longleftrightarrow> tight32_rep (fst (fst s)) (fst (fst t)) \<and> tight32_rep (snd (fst s)) (snd (fst t)) \<and>
     tight32_rep (fst (snd s)) (fst (snd t)) \<and> tight32_rep (snd (snd s)) (snd (snd t))"

lemma rep_121666: "loose32_rep a v \<Longrightarrow> tight32_rep (fe_mul_121666_impl a) (v * 121666)"
proof -
  have "loose32_rep (Fe32 121666 0 0 0 0 0 0 0 0 0) 121666" by (simp add: loose32_rep_def)
  then show "loose32_rep a v \<Longrightarrow> tight32_rep (fe_mul_121666_impl a) (v * 121666)"
    unfolding fe_mul_121666_impl_def by (rule fe_mul_rep [rotated])
qed

lemma rep_ladderstep:
  assumes "rep32_pair s t" "tight32_rep x1 u"
  shows "rep32_pair (fe_ladderstep x1 s) (mont_step u t)"
proof -
  obtain x z x' z' where s: "s = ((x, z), (x', z'))" by (metis prod.collapse)
  obtain X Z X' Z' where t: "t = ((X, Z), (X', Z'))" by (metis prod.collapse)
  have r: "tight32_rep x X" "tight32_rep z Z" "tight32_rep x' X'" "tight32_rep z' Z'"
    using assms(1) by (simp_all add: s t rep32_pair_def)
  define da where "da = fe_mul_impl (fe_sub x' z') (fe_add x z)"
  have da: "tight32_rep da ((X' - Z') * (X + Z))" unfolding da_def by (rule fe_mul_rep [OF fe_sub_rep [OF r(3,4)] fe_add_rep [OF r(1,2)]])
  define cb where "cb = fe_mul_impl (fe_add x' z') (fe_sub x z)"
  have cb: "tight32_rep cb ((X' + Z') * (X - Z))" unfolding cb_def by (rule fe_mul_rep [OF fe_add_rep [OF r(3,4)] fe_sub_rep [OF r(1,2)]])
  define aa where "aa = fe_sqr_impl (fe_add x z)"
  have aa: "tight32_rep aa ((X + Z) * (X + Z))" unfolding aa_def by (rule fe_sqr_rep [OF fe_add_rep [OF r(1,2)]])
  define bb where "bb = fe_sqr_impl (fe_sub x z)"
  have bb: "tight32_rep bb ((X - Z) * (X - Z))" unfolding bb_def by (rule fe_sqr_rep [OF fe_sub_rep [OF r(1,2)]])
  note e = fe_sub_rep [OF aa bb]
  have f: "loose32_rep (fe_add bb (fe_mul_121666_impl (fe_sub aa bb)))
      ((X - Z) * (X - Z) + ((X + Z) * (X + Z) - (X - Z) * (X - Z)) * 121666)"
    by (rule fe_add_rep [OF bb rep_121666 [OF e]])
  have z2: "tight32_rep (fe_mul_impl (fe_sub aa bb) (fe_add bb (fe_mul_121666_impl (fe_sub aa bb)))) (snd (fst (mont_step u t)))"
    using fiat.tight_eqp [OF fe_mul_rep [OF e f] eqp_trans [OF eqp_eq mont_step_eqp(2) [where x = X and z = Z and u = u and x' = X' and z' = Z']]]
    by (simp add: t algebra_simps)
  have res: "fe_ladderstep x1 s = ((fe_mul_impl aa bb, fe_mul_impl (fe_sub aa bb) (fe_add bb (fe_mul_121666_impl (fe_sub aa bb)))),
      (fe_sqr_impl (fe_add da cb), fe_mul_impl x1 (fe_sqr_impl (fe_sub da cb))))"
    by (simp add: s fe_ladderstep_def Let_def da_def cb_def aa_def bb_def)
  show ?thesis using fiat.step_parts [OF aa bb da cb assms(2)] z2 by (simp add: res rep32_pair_def t)
qed

lemma fe_cswap_limb: "fe_cswap_limb 0 f g = (f, g)" "fe_cswap_limb (- 1) f g = (g, f)"
proof -
  have "f XOR (f XOR g) = g" "g XOR (f XOR g) = f" by (rule bit_word_eqI, auto simp: bit_xor_iff)+
  then show "fe_cswap_limb 0 f g = (f, g)" "fe_cswap_limb (- 1) f g = (g, f)" by (simp_all add: fe_cswap_limb_def Let_def)
qed

lemma fe_cswap_points_cswap: "fe_cswap_points (of_bool b) s = cswap b s"
proof -
  have "fe_cswap x y 0 = (x, y)" "fe_cswap x y 1 = (y, x)" for x y
    by (cases x; cases y; simp add: fe_cswap_limb)+
  then show ?thesis by (cases s) (auto simp: fe_cswap_points_def cswap_def split: prod.splits)
qed

lemma rep_fe_ladder:
  assumes "tight32_rep x1 u" "n \<le> 8 * length e" "rep32_pair (cswap sw s) t" "fe_ladder e x1 n (of_bool sw) s = (swap', s')"
  shows "\<exists>sw'. swap' = of_bool sw' \<and> rep32_pair (cswap sw' s') (ladder u (of_le e) n t)"
  using assms(2-)
proof (induction n arbitrary: sw s t)
  case 0
  then have "swap' = of_bool sw" "s' = s" by simp_all
  with 0 show ?case by (intro exI [of _ sw]) simp
next
  case (Suc n)
  let ?b = "bit (of_le e) n"
  have b: "1 AND drop_bit (n mod 8) (ucast (e ! (n div 8))) = (of_bool ?b :: u32)" using Suc.prems(1) by (intro bit_of_le) linarith
  have x: "of_bool sw XOR of_bool b = (of_bool (sw \<noteq> b) :: u32)" for b by (cases sw; cases b) simp_all
  have c: "cswap b (cswap sw s) = cswap (sw \<noteq> b) s" for b by (cases sw; cases b) (simp_all add: cswap_def)
  have pc: "rep32_pair p q \<Longrightarrow> rep32_pair (cswap b p) (cswap b q)" for b p q by (simp add: cswap_def rep32_pair_def)
  have "rep32_pair (fe_ladderstep x1 (cswap (sw \<noteq> ?b) s)) (mont_step u (cswap ?b t))"
    using rep_ladderstep [OF pc [OF Suc.prems(2)] assms(1), of ?b] unfolding c .
  then have "rep32_pair (cswap ?b (fe_ladderstep x1 (cswap (sw \<noteq> ?b) s))) (ladder_step u ?b t)"
    unfolding ladder_step_def by (rule pc)
  moreover have "fe_ladder e x1 n (of_bool ?b) (fe_ladderstep x1 (cswap (sw \<noteq> ?b) s)) = (swap', s')"
    using Suc.prems(3) by (simp only: fe_ladder.simps Let_def b x fe_cswap_points_cswap)
  ultimately show ?case using Suc.IH [of ?b] Suc.prems(1) unfolding ladder.simps by simp
qed

section \<open>Reading and writing a coordinate\<close>

lemma unat_get_le32: "unat (get_unaligned_le32 a off) = of_le a div 2 ^ (8 * off) mod 2 ^ 32"
proof -
  have "of_le (take 4 (drop off a)) = of_le a div 2 ^ (8 * off) mod 2 ^ 32" by (simp add: of_le_take of_le_drop power_mult)
  then show ?thesis by (simp add: get_unaligned_le32_def unat_of_nat)
qed

lemma unat_or_push: "unat x < 2 ^ k \<Longrightarrow> unat (x OR push_bit k y) = unat x + unat (y :: u32) * 2 ^ k mod 2 ^ 32"
proof -
  assume x: "unat x < 2 ^ k"
  have p: "unat (push_bit k y) = unat y * 2 ^ k mod 2 ^ 32"
    by (simp only: unsigned_push_bit_eq) (simp add: take_bit_eq_mod push_bit_eq_mult)
  have "take_bit k (unat x) = unat x" using x by (simp add: take_bit_nat_eq_self)
  then have "\<not> bit (unat x) n" if "k \<le> n" for n using that by (metis bit_take_bit_iff not_le)
  then have "\<not> bit (unat x) n \<or> \<not> bit (unat (push_bit k y)) n" for n
    by (cases "k \<le> n") (simp_all add: bit_unsigned_iff bit_push_bit_iff)
  then have "unat x + unat (push_bit k y) = unat x OR unat (push_bit k y)" by (rule disjunctive_add)
  then show ?thesis by (simp only: unsigned_or_eq flip: p)
qed

text \<open>A limb that begins at bit \<open>s\<close> of one word and has \<open>m\<close> bits of the next.\<close>

lemma mod_exp_split: "n mod 2 ^ a + n div 2 ^ a mod 2 ^ m * 2 ^ a = n mod (2 ^ (a + m) :: nat)"
  using mod_mult2_eq [of n "2 ^ a" "2 ^ m"] by (simp add: power_add mult.commute)

lemma limb_across:
  fixes a a' :: u32
  assumes "unat a = n div 2 ^ b mod 2 ^ 32" "unat a' = n div 2 ^ (b + 32) mod 2 ^ 32" "s + k = 32" "k + m \<le> 32"
  shows "unat (drop_bit s a OR push_bit k (a' AND mask m)) = n div 2 ^ (b + s) mod 2 ^ (k + m)"
proof -
  let ?n = "n div 2 ^ (b + s)"
  have "n div 2 ^ b mod 2 ^ 32 div 2 ^ s = n div 2 ^ b div 2 ^ s mod 2 ^ k"
    using div_exp_mod_exp_eq [of "n div 2 ^ b" s k] assms(3) by simp
  then have lo: "unat (drop_bit s a) = ?n mod 2 ^ k" by (simp add: unat_drop_bit_div assms(1) power_add div_mult2_eq)
  have "n div 2 ^ (b + 32) mod 2 ^ 32 mod 2 ^ m = n div 2 ^ (b + 32) mod 2 ^ m"
    using assms(4) by (intro mod_mod_cancel le_imp_power_dvd) simp
  moreover have "n div 2 ^ (b + 32) = ?n div 2 ^ k" using assms(3) by (simp add: add.assoc flip: div_mult2_eq power_add)
  ultimately have hi: "unat (a' AND mask m) = ?n div 2 ^ k mod 2 ^ m" by (simp add: unat_and_mask assms(2))
  have "?n div 2 ^ k mod 2 ^ m * 2 ^ k < 2 ^ m * 2 ^ k" by (intro mult_strict_right_mono) simp_all
  also have "\<dots> \<le> 2 ^ 32" using assms(4) power_increasing [of "k + m" 32 "2 :: nat"] by (simp add: power_add mult.commute)
  finally have "unat (a' AND mask m) * 2 ^ k mod 2 ^ 32 = ?n div 2 ^ k mod 2 ^ m * 2 ^ k" by (simp add: hi)
  moreover have "unat (drop_bit s a) < 2 ^ k" by (simp add: lo)
  note unat_or_push [OF this, of "a' AND mask m"]
  ultimately show ?thesis using mod_exp_split [of ?n k m] by (simp only: lo)
qed

text \<open>Two limbs of 26 and 25 bits from bit \<open>i\<close> on are 51 bits.\<close>

lemma limb_pair: "int (n div 2 ^ i mod 2 ^ 26) + 2 ^ 26 * int (n div 2 ^ (i + 26) mod 2 ^ 25) = int (n div 2 ^ i mod 2 ^ 51)"
proof -
  have "n div 2 ^ i mod 2 ^ 26 + n div 2 ^ (i + 26) mod 2 ^ 25 * 2 ^ 26 = n div 2 ^ i mod 2 ^ 51"
    using mod_exp_split [of "n div 2 ^ i" 26 25] by (simp add: power_add div_mult2_eq)
  from arg_cong [OF this, of int] show ?thesis by simp
qed

lemma pair_horner: "int (n div 2 ^ i mod 2 ^ 51) + B51 * int (n div 2 ^ (i + 51) mod 2 ^ m) = int (n div 2 ^ i mod 2 ^ (51 + m))"
proof -
  have "n div 2 ^ i mod 2 ^ 51 + n div 2 ^ (i + 51) mod 2 ^ m * 2 ^ 51 = n div 2 ^ i mod 2 ^ (51 + m)"
    using mod_exp_split [of "n div 2 ^ i" 51 m] by (simp add: power_add div_mult2_eq)
  from arg_cong [OF this, of int] show ?thesis by (simp add: B51_def)
qed

lemma le32_across:
  assumes "off' = off + 4" "t + k = 32" "k + m = j" "j \<le> 32" "8 * off + t = i"
  shows "unat (drop_bit t (get_unaligned_le32 s off) OR push_bit k (get_unaligned_le32 s off' AND mask m)) = of_le s div 2 ^ i mod 2 ^ j"
  using limb_across [of "get_unaligned_le32 s off" "of_le s" "8 * off" "get_unaligned_le32 s off'" t k m] assms
  by (simp add: unat_get_le32 add.commute)

lemma le32_inside:
  assumes "t + m \<le> 32" "8 * off + t = i"
  shows "unat (drop_bit t (get_unaligned_le32 s off) AND mask m) = of_le s div 2 ^ i mod 2 ^ m"
proof -
  have "(x mod 2 ^ 32) div 2 ^ t mod 2 ^ m = x div 2 ^ t mod 2 ^ m" for x :: nat
    using assms(1) div_exp_mod_exp_eq [of x t "32 - t"] mod_mod_cancel [OF le_imp_power_dvd, of m "32 - t" "x div 2 ^ t" "2 :: nat"] by simp
  then show ?thesis by (simp add: unat_and_mask unat_drop_bit_div unat_get_le32 power_add div_mult2_eq flip: assms(2))
qed

lemma le32_low: "m \<le> 32 \<Longrightarrow> 8 * off = i \<Longrightarrow> unat (get_unaligned_le32 s off AND mask m) = of_le s div 2 ^ i mod 2 ^ m"
  using le32_inside [of 0 m off i s] by simp

lemma le32_top: "unat (drop_bit 6 (get_unaligned_le32 s 12)) = of_le s div 2 ^ 102 mod 2 ^ 26"
  using div_exp_mod_exp_eq [of "of_le s div 2 ^ 96" 6 26] by (simp add: unat_drop_bit_div unat_get_le32 flip: div_mult2_eq)

lemma fe_frombytes_val: "tight32_rep (fe_frombytes s) (decode_u s)"
proof -
  let ?n = "of_le s"
  obtain h0 h1 h2 h3 h4 h5 h6 h7 h8 h9 where h: "fe_frombytes s = Fe32 h0 h1 h2 h3 h4 h5 h6 h7 h8 h9" by (cases "fe_frombytes s")
  have e: "h0 = get_unaligned_le32 s 0 AND mask 26"
    "h1 = drop_bit 26 (get_unaligned_le32 s 0) OR push_bit 6 (get_unaligned_le32 s 4 AND mask 19)"
    "h2 = drop_bit 19 (get_unaligned_le32 s 4) OR push_bit 13 (get_unaligned_le32 s 8 AND mask 13)"
    "h3 = drop_bit 13 (get_unaligned_le32 s 8) OR push_bit 19 (get_unaligned_le32 s 12 AND mask 6)"
    "h4 = drop_bit 6 (get_unaligned_le32 s 12)" "h5 = get_unaligned_le32 s 16 AND mask 25"
    "h6 = drop_bit 25 (get_unaligned_le32 s 16) OR push_bit 7 (get_unaligned_le32 s 20 AND mask 19)"
    "h7 = drop_bit 19 (get_unaligned_le32 s 20) OR push_bit 13 (get_unaligned_le32 s 24 AND mask 12)"
    "h8 = drop_bit 12 (get_unaligned_le32 s 24) OR push_bit 20 (get_unaligned_le32 s 28 AND mask 6)"
    "h9 = drop_bit 6 (get_unaligned_le32 s 28) AND mask 25"
    using h unfolding fe_frombytes_def Let_def by (simp_all only: fe32.inject)
  have u: "unat h0 = ?n div 2 ^ 0 mod 2 ^ 26" "unat h1 = ?n div 2 ^ 26 mod 2 ^ 25" "unat h2 = ?n div 2 ^ 51 mod 2 ^ 26"
    "unat h3 = ?n div 2 ^ 77 mod 2 ^ 25" "unat h4 = ?n div 2 ^ 102 mod 2 ^ 26" "unat h5 = ?n div 2 ^ 128 mod 2 ^ 25"
    "unat h6 = ?n div 2 ^ 153 mod 2 ^ 26" "unat h7 = ?n div 2 ^ 179 mod 2 ^ 25" "unat h8 = ?n div 2 ^ 204 mod 2 ^ 26"
    "unat h9 = ?n div 2 ^ 230 mod 2 ^ 25"
    unfolding e by (rule le32_across le32_inside le32_low le32_top | (simp; fail))+
  have "x mod 2 ^ 26 \<le> (2 ^ 26 :: nat)" "x mod 2 ^ 25 \<le> (2 ^ 25 :: nat)" for x by (simp_all add: less_imp_le)
  then have "tight32 (fe_frombytes s)" unfolding h limbs_le.simps u by blast
  moreover have "val32 (fe_frombytes s) = decode_u s"
    using limb_pair [of ?n 0] limb_pair [of ?n 51] limb_pair [of ?n 102] limb_pair [of ?n 153] limb_pair [of ?n 204]
      pair_horner [of ?n 153 51] pair_horner [of ?n 102 102] pair_horner [of ?n 51 153] pair_horner [of ?n 0 204]
    unfolding h val32.simps u by (simp add: decode_u_def)
  ultimately show ?thesis by (simp add: tight32_rep_def)
qed

section \<open>The canonical form\<close>

lemma borrow_val:
  fixes a b :: u32 and c :: u8
  assumes "unat c \<le> 1" "unat a < unat b + 2 ^ k" "unat b < 2 ^ k" "k \<le> 26"
  shows "unat (ucast (drop_bit 31 (a - b - ucast c)) :: u8) \<le> 1" "unat ((a - b - ucast c) AND mask k) < 2 ^ k"
    "int (unat ((a - b - ucast c) AND mask k)) = int (unat a) - int (unat b) - int (unat c) +
       2 ^ k * int (unat (ucast (drop_bit 31 (a - b - ucast c)) :: u8))"
proof -
  let ?x = "a - b - ucast c"
  have k: "(2 :: nat) ^ k \<le> 2 ^ 26" using assms(4) by (intro power_increasing) simp_all
  have m: "unat (?x AND mask k) = unat ?x mod 2 ^ k" by (rule unat_and_mask)
  then show "unat (?x AND mask k) < 2 ^ k" by simp
  have d: "unat (ucast (drop_bit 31 ?x) :: u8) = unat ?x div 2 ^ 31 mod 2 ^ 8" by (simp add: unat_ucast_down unat_drop_bit_div)
  have c: "unat (ucast c :: u32) = unat c" by (simp add: unat_ucast_up)
  have "unat (ucast (drop_bit 31 ?x) :: u8) \<le> 1 \<and> int (unat (?x AND mask k)) = int (unat a) - int (unat b) - int (unat c) +
       2 ^ k * int (unat (ucast (drop_bit 31 ?x) :: u8))"
  proof (cases "unat b + unat c \<le> unat a")
    case True
    then have "unat ?x = unat a - unat b - unat c" by (simp add: unat_sub_no_wrap c)
    moreover have "unat a - unat b - unat c < 2 ^ k" using assms(2) True by linarith
    ultimately show ?thesis using True k by (simp add: m d)
  next
    case False
    let ?d = "unat b + unat c - unat a"
    define w :: u32 where "w = of_nat ?d"
    have xw: "?x = - w" using False by (simp add: w_def of_nat_diff)
    have l: "0 < ?d" "?d \<le> 2 ^ k" using False assms(1,3) by linarith+
    have "?d < 2 ^ 32" by (rule le_less_trans [OF le_trans [OF l(2) k]]) simp
    then have w: "unat w = ?d" unfolding w_def unat_of_nat by simp
    have x: "unat ?x = 2 ^ 32 - ?d" unfolding xw using unat_sub_if_size [of 0 w] l(1) by (simp add: word_size flip: w)
    have "?d \<le> 67108864" using le_trans [OF l(2) k] by simp
    with l(1) have "unat ?x div 2 ^ 31 = 1" unfolding x by (intro div_nat_eqI) simp_all
    moreover have "2 ^ 32 - ?d = (2 ^ k - ?d) + 2 ^ k * (2 ^ (32 - k) - 1)"
      using l(2) k assms(4) by (simp add: algebra_simps flip: power_add)
    then have "unat ?x mod 2 ^ k = (2 ^ k - ?d) mod 2 ^ k" unfolding x by simp
    then have "unat ?x mod 2 ^ k = 2 ^ k - ?d" using l by simp
    ultimately show ?thesis using False l(2) by (simp add: m d)
  qed
  then show "unat (ucast (drop_bit 31 ?x) :: u8) \<le> 1" "int (unat (?x AND mask k)) = int (unat a) - int (unat b) - int (unat c) +
       2 ^ k * int (unat (ucast (drop_bit 31 ?x) :: u8))" by blast+
qed

lemma carry_val:
  fixes a b :: u32 and c :: u8
  assumes "unat c \<le> 1" "unat a < 2 ^ k" "unat b < 2 ^ k" "k \<le> 26"
  shows "unat (ucast (drop_bit k (a + b + ucast c) AND 1) :: u8) \<le> 1" "unat ((a + b + ucast c) AND mask k) < 2 ^ k"
    "int (unat ((a + b + ucast c) AND mask k)) = int (unat a) + int (unat b) + int (unat c) -
       2 ^ k * int (unat (ucast (drop_bit k (a + b + ucast c) AND 1) :: u8))"
proof -
  let ?x = "a + b + ucast c"
  have k: "(2 :: nat) ^ k \<le> 2 ^ 26" using assms(4) by (intro power_increasing) simp_all
  have x: "unat ?x = unat a + unat b + unat c" using assms(1-3) k by (simp add: unat_add_no_wrap unat_ucast_up)
  have m: "unat (?x AND mask k) = unat ?x mod 2 ^ k" by (rule unat_and_mask)
  then show "unat (?x AND mask k) < 2 ^ k" by simp
  have "unat ?x < 2 * 2 ^ k" using assms(1-3) unfolding x by linarith
  then have d: "unat ?x div 2 ^ k < 2" by (rule less_mult_imp_div_less)
  have "unat (drop_bit k ?x AND 1) = unat ?x div 2 ^ k" using unat_and_mask [of "drop_bit k ?x" 1] d by (simp add: unat_drop_bit_div)
  then have c: "unat (ucast (drop_bit k ?x AND 1) :: u8) = unat ?x div 2 ^ k" using d by (simp add: unat_ucast_down)
  with d show "unat (ucast (drop_bit k ?x AND 1) :: u8) \<le> 1" by simp
  show "int (unat (?x AND mask k)) = int (unat a) + int (unat b) + int (unat c) - 2 ^ k * int (unat (ucast (drop_bit k ?x AND 1) :: u8))"
    using digit_split [of "unat ?x" k] unfolding m c by (simp add: x)
qed

text \<open>Limbs without a carry, and the number they can stand for.\<close>

abbreviation (input) exact32 :: "fe32 \<Rightarrow> bool" where "exact32 \<equiv> limbs_le (2 ^ 26 - 1) (2 ^ 25 - 1)"

lemma exact32_less: "exact32 a \<Longrightarrow> 0 \<le> val32 a \<and> val32 a < 2 ^ 255"
proof (cases a)
  fix a0 a1 a2 a3 a4 a5 a6 a7 a8 a9
  assume "exact32 a" and a: "a = Fe32 a0 a1 a2 a3 a4 a5 a6 a7 a8 a9"
  then show ?thesis unfolding a limbs_le.simps val32.simps B51_def by (simp del: of_nat_unat)
qed

lemma tight32_less: "tight32 a \<Longrightarrow> 0 \<le> val32 a \<and> val32 a < 2 * p25519"
proof (cases a)
  fix a0 a1 a2 a3 a4 a5 a6 a7 a8 a9
  assume "tight32 a" and a: "a = Fe32 a0 a1 a2 a3 a4 a5 a6 a7 a8 a9"
  then show ?thesis unfolding a limbs_le.simps val32.simps B51_def p25519_def by (simp del: of_nat_unat)
qed

lemma subborrow_val:
  assumes "unat c \<le> 1" "unat a < unat b + 2 ^ 26" "unat b < 2 ^ 26" "subborrow_u26 c a b = (c', l)"
  shows "unat c' \<le> 1" "unat l \<le> 2 ^ 26 - 1" "int (unat l) = int (unat a) - int (unat b) - int (unat c) + 2 ^ 26 * int (unat c')"
  using borrow_val [OF assms(1-3)] assms(4) by (auto simp: subborrow_u26_def Let_def)

lemma subborrow_u25_val:
  assumes "unat c \<le> 1" "unat a < unat b + 2 ^ 25" "unat b < 2 ^ 25" "subborrow_u25 c a b = (c', l)"
  shows "unat c' \<le> 1" "unat l \<le> 2 ^ 25 - 1" "int (unat l) = int (unat a) - int (unat b) - int (unat c) + 2 ^ 25 * int (unat c')"
  using borrow_val [OF assms(1-3)] assms(4) by (auto simp: subborrow_u25_def Let_def)

lemma addcarryx_u26_val:
  assumes "unat c \<le> 1" "unat a < 2 ^ 26" "unat b < 2 ^ 26" "addcarryx_u26 c a b = (c', l)"
  shows "unat c' \<le> 1" "unat l \<le> 2 ^ 26 - 1" "int (unat l) = int (unat a) + int (unat b) + int (unat c) - 2 ^ 26 * int (unat c')"
  using carry_val [OF assms(1-3)] assms(4) by (auto simp: addcarryx_u26_def Let_def)

lemma addcarryx_u25_val:
  assumes "unat c \<le> 1" "unat a < 2 ^ 25" "unat b < 2 ^ 25" "addcarryx_u25 c a b = (c', l)"
  shows "unat c' \<le> 1" "unat l \<le> 2 ^ 25 - 1" "int (unat l) = int (unat a) + int (unat b) + int (unat c) - 2 ^ 25 * int (unat c')"
  using carry_val [OF assms(1-3)] assms(4) by (auto simp: addcarryx_u25_def Let_def)

text \<open>The subtraction of the prime, with the borrow out of the top.\<close>

lemma sub_chain:
  assumes "tight32 (Fe32 a0 a1 a2 a3 a4 a5 a6 a7 a8 a9)"
    and "subborrow_u26 0 a0 0x3ffffed = (c0, l0)"
    and "subborrow_u25 c0 a1 0x1ffffff = (c1, l1)"
    and "subborrow_u26 c1 a2 0x3ffffff = (c2, l2)"
    and "subborrow_u25 c2 a3 0x1ffffff = (c3, l3)"
    and "subborrow_u26 c3 a4 0x3ffffff = (c4, l4)"
    and "subborrow_u25 c4 a5 0x1ffffff = (c5, l5)"
    and "subborrow_u26 c5 a6 0x3ffffff = (c6, l6)"
    and "subborrow_u25 c6 a7 0x1ffffff = (c7, l7)"
    and "subborrow_u26 c7 a8 0x3ffffff = (c8, l8)"
    and "subborrow_u25 c8 a9 0x1ffffff = (c9, l9)"
  shows "exact32 (Fe32 l0 l1 l2 l3 l4 l5 l6 l7 l8 l9)" "unat c9 \<le> 1"
    "val32 (Fe32 l0 l1 l2 l3 l4 l5 l6 l7 l8 l9) = val32 (Fe32 a0 a1 a2 a3 a4 a5 a6 a7 a8 a9) - p25519 + 2 ^ 255 * int (unat c9)"
proof -
  have l: "unat a0 \<le> 2 ^ 26" "unat a1 \<le> 2 ^ 25" "unat a2 \<le> 2 ^ 26" "unat a3 \<le> 2 ^ 25" "unat a4 \<le> 2 ^ 26" "unat a5 \<le> 2 ^ 25" "unat a6 \<le> 2 ^ 26" "unat a7 \<le> 2 ^ 25" "unat a8 \<le> 2 ^ 26" "unat a9 \<le> 2 ^ 25" using assms(1) by simp_all
  note s0 = subborrow_val [OF _ _ _ assms(2)] and s1 = subborrow_u25_val [OF _ _ _ assms(3)]
    and s2 = subborrow_val [OF _ _ _ assms(4)]
    and s3 = subborrow_u25_val [OF _ _ _ assms(5)]
    and s4 = subborrow_val [OF _ _ _ assms(6)]
    and s5 = subborrow_u25_val [OF _ _ _ assms(7)]
    and s6 = subborrow_val [OF _ _ _ assms(8)]
    and s7 = subborrow_u25_val [OF _ _ _ assms(9)]
    and s8 = subborrow_val [OF _ _ _ assms(10)]
    and s9 = subborrow_u25_val [OF _ _ _ assms(11)]
  have r0: "unat c0 \<le> 1" "unat l0 \<le> 2 ^ 26 - 1" "int (unat l0) = int (unat a0) - 0x3ffffed + 2 ^ 26 * int (unat c0)" using s0 l by simp_all
  have r1: "unat c1 \<le> 1" "unat l1 \<le> 2 ^ 25 - 1" "int (unat l1) = int (unat a1) - 0x1ffffff - int (unat c0) + 2 ^ 25 * int (unat c1)"
    using s1 l r0(1) by simp_all
  have r2: "unat c2 \<le> 1" "unat l2 \<le> 2 ^ 26 - 1" "int (unat l2) = int (unat a2) - 0x3ffffff - int (unat c1) + 2 ^ 26 * int (unat c2)"
    using s2 l r1(1) by simp_all
  have r3: "unat c3 \<le> 1" "unat l3 \<le> 2 ^ 25 - 1" "int (unat l3) = int (unat a3) - 0x1ffffff - int (unat c2) + 2 ^ 25 * int (unat c3)"
    using s3 l r2(1) by simp_all
  have r4: "unat c4 \<le> 1" "unat l4 \<le> 2 ^ 26 - 1" "int (unat l4) = int (unat a4) - 0x3ffffff - int (unat c3) + 2 ^ 26 * int (unat c4)"
    using s4 l r3(1) by simp_all
  have r5: "unat c5 \<le> 1" "unat l5 \<le> 2 ^ 25 - 1" "int (unat l5) = int (unat a5) - 0x1ffffff - int (unat c4) + 2 ^ 25 * int (unat c5)"
    using s5 l r4(1) by simp_all
  have r6: "unat c6 \<le> 1" "unat l6 \<le> 2 ^ 26 - 1" "int (unat l6) = int (unat a6) - 0x3ffffff - int (unat c5) + 2 ^ 26 * int (unat c6)"
    using s6 l r5(1) by simp_all
  have r7: "unat c7 \<le> 1" "unat l7 \<le> 2 ^ 25 - 1" "int (unat l7) = int (unat a7) - 0x1ffffff - int (unat c6) + 2 ^ 25 * int (unat c7)"
    using s7 l r6(1) by simp_all
  have r8: "unat c8 \<le> 1" "unat l8 \<le> 2 ^ 26 - 1" "int (unat l8) = int (unat a8) - 0x3ffffff - int (unat c7) + 2 ^ 26 * int (unat c8)"
    using s8 l r7(1) by simp_all
  have r9: "unat c9 \<le> 1" "unat l9 \<le> 2 ^ 25 - 1" "int (unat l9) = int (unat a9) - 0x1ffffff - int (unat c8) + 2 ^ 25 * int (unat c9)"
    using s9 l r8(1) by simp_all
  show "exact32 (Fe32 l0 l1 l2 l3 l4 l5 l6 l7 l8 l9)" "unat c9 \<le> 1"
    unfolding limbs_le.simps using r0(2) r1(2) r2(2) r3(2) r4(2) r5(2) r6(2) r7(2) r8(2) r9(2) r9(1) by blast+
  show "val32 (Fe32 l0 l1 l2 l3 l4 l5 l6 l7 l8 l9) = val32 (Fe32 a0 a1 a2 a3 a4 a5 a6 a7 a8 a9) - p25519 + 2 ^ 255 * int (unat c9)"
    unfolding val32.simps r0(3) r1(3) r2(3) r3(3) r4(3) r5(3) r6(3) r7(3) r8(3) r9(3) B51_def p25519_def by (simp add: algebra_simps)
qed

text \<open>An addition of limbs, with the carry out of the top.\<close>

lemma add_chain:
  assumes "exact32 (Fe32 a0 a1 a2 a3 a4 a5 a6 a7 a8 a9)" "exact32 (Fe32 b0 b1 b2 b3 b4 b5 b6 b7 b8 b9)"
    and "addcarryx_u26 0 a0 b0 = (c0, l0)"
    and "addcarryx_u25 c0 a1 b1 = (c1, l1)"
    and "addcarryx_u26 c1 a2 b2 = (c2, l2)"
    and "addcarryx_u25 c2 a3 b3 = (c3, l3)"
    and "addcarryx_u26 c3 a4 b4 = (c4, l4)"
    and "addcarryx_u25 c4 a5 b5 = (c5, l5)"
    and "addcarryx_u26 c5 a6 b6 = (c6, l6)"
    and "addcarryx_u25 c6 a7 b7 = (c7, l7)"
    and "addcarryx_u26 c7 a8 b8 = (c8, l8)"
    and "addcarryx_u25 c8 a9 b9 = (c9, l9)"
  shows "exact32 (Fe32 l0 l1 l2 l3 l4 l5 l6 l7 l8 l9)" "unat c9 \<le> 1"
    "val32 (Fe32 l0 l1 l2 l3 l4 l5 l6 l7 l8 l9) =
       val32 (Fe32 a0 a1 a2 a3 a4 a5 a6 a7 a8 a9) + val32 (Fe32 b0 b1 b2 b3 b4 b5 b6 b7 b8 b9) - 2 ^ 255 * int (unat c9)"
proof -
  have l: "unat a0 < 2 ^ 26" "unat b0 < 2 ^ 26" "unat a1 < 2 ^ 25" "unat b1 < 2 ^ 25" "unat a2 < 2 ^ 26" "unat b2 < 2 ^ 26" "unat a3 < 2 ^ 25" "unat b3 < 2 ^ 25" "unat a4 < 2 ^ 26" "unat b4 < 2 ^ 26" "unat a5 < 2 ^ 25" "unat b5 < 2 ^ 25" "unat a6 < 2 ^ 26" "unat b6 < 2 ^ 26" "unat a7 < 2 ^ 25" "unat b7 < 2 ^ 25" "unat a8 < 2 ^ 26" "unat b8 < 2 ^ 26" "unat a9 < 2 ^ 25" "unat b9 < 2 ^ 25"
    using assms(1,2) by simp_all
  note s0 = addcarryx_u26_val [OF _ _ _ assms(3)] and s1 = addcarryx_u25_val [OF _ _ _ assms(4)]
    and s2 = addcarryx_u26_val [OF _ _ _ assms(5)]
    and s3 = addcarryx_u25_val [OF _ _ _ assms(6)]
    and s4 = addcarryx_u26_val [OF _ _ _ assms(7)]
    and s5 = addcarryx_u25_val [OF _ _ _ assms(8)]
    and s6 = addcarryx_u26_val [OF _ _ _ assms(9)]
    and s7 = addcarryx_u25_val [OF _ _ _ assms(10)]
    and s8 = addcarryx_u26_val [OF _ _ _ assms(11)]
    and s9 = addcarryx_u25_val [OF _ _ _ assms(12)]
  have r0: "unat c0 \<le> 1" "unat l0 \<le> 2 ^ 26 - 1" "int (unat l0) = int (unat a0) + int (unat b0) - 2 ^ 26 * int (unat c0)" using s0 l by simp_all
  have r1: "unat c1 \<le> 1" "unat l1 \<le> 2 ^ 25 - 1" "int (unat l1) = int (unat a1) + int (unat b1) + int (unat c0) - 2 ^ 25 * int (unat c1)"
    using s1 l r0(1) by simp_all
  have r2: "unat c2 \<le> 1" "unat l2 \<le> 2 ^ 26 - 1" "int (unat l2) = int (unat a2) + int (unat b2) + int (unat c1) - 2 ^ 26 * int (unat c2)"
    using s2 l r1(1) by simp_all
  have r3: "unat c3 \<le> 1" "unat l3 \<le> 2 ^ 25 - 1" "int (unat l3) = int (unat a3) + int (unat b3) + int (unat c2) - 2 ^ 25 * int (unat c3)"
    using s3 l r2(1) by simp_all
  have r4: "unat c4 \<le> 1" "unat l4 \<le> 2 ^ 26 - 1" "int (unat l4) = int (unat a4) + int (unat b4) + int (unat c3) - 2 ^ 26 * int (unat c4)"
    using s4 l r3(1) by simp_all
  have r5: "unat c5 \<le> 1" "unat l5 \<le> 2 ^ 25 - 1" "int (unat l5) = int (unat a5) + int (unat b5) + int (unat c4) - 2 ^ 25 * int (unat c5)"
    using s5 l r4(1) by simp_all
  have r6: "unat c6 \<le> 1" "unat l6 \<le> 2 ^ 26 - 1" "int (unat l6) = int (unat a6) + int (unat b6) + int (unat c5) - 2 ^ 26 * int (unat c6)"
    using s6 l r5(1) by simp_all
  have r7: "unat c7 \<le> 1" "unat l7 \<le> 2 ^ 25 - 1" "int (unat l7) = int (unat a7) + int (unat b7) + int (unat c6) - 2 ^ 25 * int (unat c7)"
    using s7 l r6(1) by simp_all
  have r8: "unat c8 \<le> 1" "unat l8 \<le> 2 ^ 26 - 1" "int (unat l8) = int (unat a8) + int (unat b8) + int (unat c7) - 2 ^ 26 * int (unat c8)"
    using s8 l r7(1) by simp_all
  have r9: "unat c9 \<le> 1" "unat l9 \<le> 2 ^ 25 - 1" "int (unat l9) = int (unat a9) + int (unat b9) + int (unat c8) - 2 ^ 25 * int (unat c9)"
    using s9 l r8(1) by simp_all
  show "exact32 (Fe32 l0 l1 l2 l3 l4 l5 l6 l7 l8 l9)" "unat c9 \<le> 1"
    unfolding limbs_le.simps using r0(2) r1(2) r2(2) r3(2) r4(2) r5(2) r6(2) r7(2) r8(2) r9(2) r9(1) by blast+
  show "val32 (Fe32 l0 l1 l2 l3 l4 l5 l6 l7 l8 l9) =
       val32 (Fe32 a0 a1 a2 a3 a4 a5 a6 a7 a8 a9) + val32 (Fe32 b0 b1 b2 b3 b4 b5 b6 b7 b8 b9) - 2 ^ 255 * int (unat c9)"
    unfolding val32.simps r0(3) r1(3) r2(3) r3(3) r4(3) r5(3) r6(3) r7(3) r8(3) r9(3) B51_def by (simp add: algebra_simps)
qed

lemma cmovznz32_if: "cmovznz32 t z nz = (if t = 0 then z else nz)"
  by (simp add: cmovznz32_def)

text \<open>What is added back is the prime or nothing.\<close>

lemma masked_prime:
  fixes c :: u8
  assumes "m = cmovznz32 (ucast c) 0 0xffffffff" "unat c \<le> 1"
  shows "exact32 (Fe32 (m AND 0x3ffffed) (m AND 0x1ffffff) (m AND 0x3ffffff) (m AND 0x1ffffff) (m AND 0x3ffffff) (m AND 0x1ffffff) (m AND 0x3ffffff) (m AND 0x1ffffff) (m AND 0x3ffffff) (m AND 0x1ffffff))"
    "val32 (Fe32 (m AND 0x3ffffed) (m AND 0x1ffffff) (m AND 0x3ffffff) (m AND 0x1ffffff) (m AND 0x3ffffff) (m AND 0x1ffffff) (m AND 0x3ffffff) (m AND 0x1ffffff) (m AND 0x3ffffff) (m AND 0x1ffffff)) = p25519 * int (unat c)"
proof -
  have "c = 0 \<or> c = 1" using assms(2) unfolding word_unat_eq_iff by (simp add: le_Suc_eq)
  moreover have "(0xffffffff :: u32) = - 1" by simp
  ultimately have "m = 0 \<and> c = 0 \<or> m = - 1 \<and> c = 1" using assms(1) by (auto simp: cmovznz32_if)
  then show "exact32 (Fe32 (m AND 0x3ffffed) (m AND 0x1ffffff) (m AND 0x3ffffff) (m AND 0x1ffffff) (m AND 0x3ffffff) (m AND 0x1ffffff) (m AND 0x3ffffff) (m AND 0x1ffffff) (m AND 0x3ffffff) (m AND 0x1ffffff))"
    "val32 (Fe32 (m AND 0x3ffffed) (m AND 0x1ffffff) (m AND 0x3ffffff) (m AND 0x1ffffff) (m AND 0x3ffffff) (m AND 0x1ffffff) (m AND 0x3ffffff) (m AND 0x1ffffff) (m AND 0x3ffffff) (m AND 0x1ffffff)) = p25519 * int (unat c)"
    by (auto simp: B51_def p25519_def)
qed

lemma freeze_arith:
  fixes c d :: u8
  assumes "r = v - p25519 + 2 ^ 255 * int (unat c) + p25519 * int (unat c) - 2 ^ 255 * int (unat d)" "unat c \<le> 1" "unat d \<le> 1"
    and "0 \<le> v \<and> v < 2 * p25519" "0 \<le> v - p25519 + 2 ^ 255 * int (unat c) \<and> v - p25519 + 2 ^ 255 * int (unat c) < 2 ^ 255"
    and "0 \<le> r \<and> r < 2 ^ 255"
  shows "r = v mod p25519"
proof -
  have p: "p25519 = 2 ^ 255 - 19" by (rule p25519_def)
  have "int (unat c) = 0 \<or> int (unat c) = 1" "int (unat d) = 0 \<or> int (unat d) = 1" using assms(2,3) by linarith+
  then have "r = v \<and> v < p25519 \<or> r = v - p25519 \<and> p25519 \<le> v"
    using assms(1,4-6) p by (elim disjE) simp_all
  then show ?thesis
  proof
    assume "r = v - p25519 \<and> p25519 \<le> v"
    moreover have "(v - p25519) mod p25519 = v mod p25519" by simp
    ultimately show ?thesis using assms(4) mod_pos_pos_trivial [of "v - p25519" p25519] by simp
  qed (use assms(4) in \<open>simp add: mod_pos_pos_trivial\<close>)
qed

lemma fe_freeze_val:
  assumes "tight32 a"
  shows "exact32 (fe_freeze a) \<and> val32 (fe_freeze a) = val32 a mod p25519"
proof -
  obtain a0 a1 a2 a3 a4 a5 a6 a7 a8 a9 where a: "a = Fe32 a0 a1 a2 a3 a4 a5 a6 a7 a8 a9" by (cases a)
  obtain c0 l0 where s0: "subborrow_u26 0 a0 0x3ffffed = (c0, l0)" by fastforce
  obtain c1 l1 where s1: "subborrow_u25 c0 a1 0x1ffffff = (c1, l1)" by fastforce
  obtain c2 l2 where s2: "subborrow_u26 c1 a2 0x3ffffff = (c2, l2)" by fastforce
  obtain c3 l3 where s3: "subborrow_u25 c2 a3 0x1ffffff = (c3, l3)" by fastforce
  obtain c4 l4 where s4: "subborrow_u26 c3 a4 0x3ffffff = (c4, l4)" by fastforce
  obtain c5 l5 where s5: "subborrow_u25 c4 a5 0x1ffffff = (c5, l5)" by fastforce
  obtain c6 l6 where s6: "subborrow_u26 c5 a6 0x3ffffff = (c6, l6)" by fastforce
  obtain c7 l7 where s7: "subborrow_u25 c6 a7 0x1ffffff = (c7, l7)" by fastforce
  obtain c8 l8 where s8: "subborrow_u26 c7 a8 0x3ffffff = (c8, l8)" by fastforce
  obtain c9 l9 where s9: "subborrow_u25 c8 a9 0x1ffffff = (c9, l9)" by fastforce
  define m where "m = cmovznz32 (ucast c9) 0 0xffffffff"
  obtain d0 r0 where t0: "addcarryx_u26 0 l0 (m AND 0x3ffffed) = (d0, r0)" by fastforce
  obtain d1 r1 where t1: "addcarryx_u25 d0 l1 (m AND 0x1ffffff) = (d1, r1)" by fastforce
  obtain d2 r2 where t2: "addcarryx_u26 d1 l2 (m AND 0x3ffffff) = (d2, r2)" by fastforce
  obtain d3 r3 where t3: "addcarryx_u25 d2 l3 (m AND 0x1ffffff) = (d3, r3)" by fastforce
  obtain d4 r4 where t4: "addcarryx_u26 d3 l4 (m AND 0x3ffffff) = (d4, r4)" by fastforce
  obtain d5 r5 where t5: "addcarryx_u25 d4 l5 (m AND 0x1ffffff) = (d5, r5)" by fastforce
  obtain d6 r6 where t6: "addcarryx_u26 d5 l6 (m AND 0x3ffffff) = (d6, r6)" by fastforce
  obtain d7 r7 where t7: "addcarryx_u25 d6 l7 (m AND 0x1ffffff) = (d7, r7)" by fastforce
  obtain d8 r8 where t8: "addcarryx_u26 d7 l8 (m AND 0x3ffffff) = (d8, r8)" by fastforce
  obtain d9 r9 where t9: "addcarryx_u25 d8 l9 (m AND 0x1ffffff) = (d9, r9)" by fastforce
  note sub = sub_chain [OF assms [unfolded a] s0 s1 s2 s3 s4 s5 s6 s7 s8 s9]
  note mp = masked_prime [OF m_def sub(2)]
  note add = add_chain [OF sub(1) mp(1) t0 t1 t2 t3 t4 t5 t6 t7 t8 t9]
  have f: "fe_freeze a = Fe32 r0 r1 r2 r3 r4 r5 r6 r7 r8 r9"
    by (simp only: a fe_freeze.simps Let_def s0 s1 s2 s3 s4 s5 s6 s7 s8 s9 m_def [symmetric] t0 t1 t2 t3 t4 t5 t6 t7 t8 t9 prod.case)
  have "val32 (fe_freeze a) = val32 a - p25519 + 2 ^ 255 * int (unat c9) + p25519 * int (unat c9) - 2 ^ 255 * int (unat d9)"
    using add(3) unfolding sub(3) mp(2) f [symmetric] a [symmetric] .
  then have "val32 (fe_freeze a) = val32 a mod p25519"
    using freeze_arith tight32_less [OF assms] exact32_less [OF sub(1), unfolded sub(3), folded a] exact32_less [OF add(1), folded f]
      sub(2) add(2) by blast
  then show ?thesis using add(1) f by simp
qed

section \<open>Writing a coordinate\<close>

text \<open>\<open>T\<close> is the number of a limb and all that follow it.  A byte inside a limb, and one that two limbs share:\<close>

lemma of_le_inside:
  fixes h :: u32
  assumes "T = unat h + 2 ^ len * T'" "of_le bs = T div 2 ^ k'" "k + 8 = k'" "k' \<le> len"
  shows "of_le (ucast (drop_bit k h) # bs) = T div 2 ^ k"
proof -
  have "unat (ucast (drop_bit k h) :: u8) = unat h div 2 ^ k mod 2 ^ 8" by (simp add: unat_ucast_down unat_drop_bit_div)
  also have "\<dots> = unat h mod 2 ^ (k + 8) div 2 ^ k" by (rule div_exp_mod_exp_eq)
  also have "unat h mod 2 ^ (k + 8) = T mod 2 ^ (k + 8)"
    using mod_mod_cancel [OF le_imp_power_dvd [of "k + 8" len "2 :: nat"], of T] mod_mod_cancel [OF le_imp_power_dvd [of "k + 8" len "2 :: nat"], of "unat h"]
      assms(1,3,4) by simp
  also have "T mod 2 ^ (k + 8) div 2 ^ k = T div 2 ^ k mod 2 ^ 8" by (rule div_exp_mod_exp_eq [symmetric])
  finally show ?thesis using assms(2) by (simp add: power_add div_mult2_eq flip: assms(3))
qed

lemma of_le_across:
  fixes h g :: u32
  assumes "T = unat h + 2 ^ len * T'" "unat h < 2 ^ len" "T' = unat g + 2 ^ len' * T''" "of_le bs = T' div 2 ^ k'"
    and "k + j = len" "j + k' = 8" "k' \<le> len'" "0 < j"
  shows "of_le (ucast (drop_bit k h OR push_bit j g) # bs) = T div 2 ^ k"
proof -
  have len: "len = k + j" using assms(5) by simp
  have "unat h < 2 ^ j * 2 ^ k" using assms(2) unfolding len power_add by (simp only: mult.commute)
  then have d: "unat h div 2 ^ k < 2 ^ j" by (rule less_mult_imp_div_less)
  have "T = unat h + 2 ^ k * (2 ^ j * T')" unfolding assms(1) len power_add by (simp only: mult.assoc)
  then have T: "T div 2 ^ k = unat h div 2 ^ k + 2 ^ j * T'" by simp
  have "unat g mod 2 ^ k' = T' mod 2 ^ k'"
    using mod_mod_cancel [OF le_imp_power_dvd [OF assms(7), of "2 :: nat"], of T'] mod_mod_cancel [OF le_imp_power_dvd [OF assms(7), of "2 :: nat"], of "unat g"]
      assms(3) by simp
  then have g: "unat g * 2 ^ j mod 2 ^ 8 = T' * 2 ^ j mod 2 ^ 8"
    by (simp only: power_add mult.commute [of "2 ^ j"] mod_mult_mult2 flip: assms(6))
  have "unat (ucast (drop_bit k h OR push_bit j g) :: u8) = (unat h div 2 ^ k + unat g * 2 ^ j mod 2 ^ 32) mod 2 ^ 8"
    using d by (simp add: unat_ucast_down unat_or_push unat_drop_bit_div)
  also have "\<dots> = (unat h div 2 ^ k + unat g * 2 ^ j mod 2 ^ 8) mod 2 ^ 8"
    by (rule mod_add_cong [OF refl])
      (use mod_mod_cancel [OF le_imp_power_dvd [of 8 32 "2 :: nat"], of "unat g * 2 ^ j"] in simp)
  also have "\<dots> = T div 2 ^ k mod 2 ^ 8" unfolding g T by (simp add: mod_add_right_eq mult.commute)
  finally have b: "unat (ucast (drop_bit k h OR push_bit j g) :: u8) = T div 2 ^ k mod 2 ^ 8" .
  have "unat h div 2 ^ k div 2 ^ j = 0" using d by simp
  then have "T div 2 ^ k div 2 ^ j = T'" unfolding T by simp
  then have "T div 2 ^ k div 2 ^ 8 = T' div 2 ^ k'" unfolding assms(6) [symmetric] power_add div_mult2_eq by simp
  then show ?thesis using b assms(4) mod_mult_div_eq [of "T div 2 ^ k" "2 ^ 8"] by simp
qed

lemma fe_tobytes_store_val:
  assumes "exact32 a"
  shows "fe_tobytes_store a = le_bytes 32 (nat (val32 a))"
proof -
  obtain h0 h1 h2 h3 h4 h5 h6 h7 h8 h9 where a: "a = Fe32 h0 h1 h2 h3 h4 h5 h6 h7 h8 h9" by (cases a)
  have l: "unat h0 < 2 ^ 26" "unat h1 < 2 ^ 25" "unat h2 < 2 ^ 26" "unat h3 < 2 ^ 25" "unat h4 < 2 ^ 26" "unat h5 < 2 ^ 25"
    "unat h6 < 2 ^ 26" "unat h7 < 2 ^ 25" "unat h8 < 2 ^ 26" "unat h9 < 2 ^ 26" using assms by (simp_all add: a)
  define T9 where "T9 = unat h9 + 2 ^ 26 * 0"
  define T8 where "T8 = unat h8 + 2 ^ 26 * T9"
  define T7 where "T7 = unat h7 + 2 ^ 25 * T8"
  define T6 where "T6 = unat h6 + 2 ^ 26 * T7"
  define T5 where "T5 = unat h5 + 2 ^ 25 * T6"
  define T4 where "T4 = unat h4 + 2 ^ 26 * T5"
  define T3 where "T3 = unat h3 + 2 ^ 25 * T4"
  define T2 where "T2 = unat h2 + 2 ^ 26 * T3"
  define T1 where "T1 = unat h1 + 2 ^ 25 * T2"
  define T0 where "T0 = unat h0 + 2 ^ 26 * T1"
  note T = T0_def T1_def T2_def T3_def T4_def T5_def T6_def T7_def T8_def T9_def
  have end_T9: "of_le [] = T9 div 2 ^ 26" using l(10) by (simp add: T9_def)
  have T4_T5: "T5 div 2 ^ 0 = T4 div 2 ^ 26" using l(5) by (simp add: T4_def)
  have "of_le (fe_tobytes_store a) = T0 div 2 ^ 0"
    unfolding a fe_tobytes_store.simps
    by (rule of_le_inside of_le_across T l end_T9 trans [OF _ T4_T5] | (simp; fail))+
  then have "of_le (fe_tobytes_store a) = T0" by simp
  moreover have "int T0 = val32 a" by (simp add: T a B51_def algebra_simps)
  moreover have "length (fe_tobytes_store a) = 32" by (simp add: a)
  ultimately show ?thesis using le_bytes_of_le [of "fe_tobytes_store a"] by (metis nat_int)
qed

section \<open>The result\<close>

lemma rep_fe_tobytes: "tight32_rep a v \<Longrightarrow> fe_tobytes a = le_bytes 32 (nat (v mod p25519))"
  using fe_freeze_val [of a] fe_tobytes_store_val [of "fe_freeze a"] by (simp add: tight32_rep_def fe_tobytes_def eqp_def)

lemma fiat32_rfc:
  assumes "length scalar = 32"
  shows "fiat32_curve25519_generic scalar point = rfc_x25519 255 scalar point"
proof -
  let ?e = "curve25519_clamp_secret scalar" and ?x = "fe_frombytes point" and ?u = "decode_u point"
  have x: "tight32_rep ?x ?u" by (rule fe_frombytes_val)
  obtain swap s where l: "fe_ladder ?e ?x 255 (of_bool False) ((fe_1, fe_0), (?x, fe_1)) = (swap, s)" by (rule prod.exhaust)
  have "tight32_rep fe_1 1" "tight32_rep fe_0 0" by (simp_all add: tight32_rep_def fe_1_def fe_0_def)
  with x have "rep32_pair (cswap False ((fe_1, fe_0), (?x, fe_1))) ((1, 0), (?u, 1))" by (simp add: rep32_pair_def cswap_def)
  from rep_fe_ladder [OF x _ this l] obtain sw where sw: "swap = of_bool sw"
      "rep32_pair (cswap sw s) (ladder ?u (of_le ?e) 255 ((1, 0), (?u, 1)))" using assms by auto
  obtain X Z where XZ: "fst (ladder ?u (of_le ?e) 255 ((1, 0), (?u, 1))) = (X, Z)" by (rule prod.exhaust)
  obtain x2 z2 where xz: "fst (cswap sw s) = (x2, z2)" by (rule prod.exhaust)
  have r: "tight32_rep x2 X" "tight32_rep z2 Z" using sw(2) by (simp_all add: rep32_pair_def XZ xz)
  have e: "nat (p25519 - 2) = 2 ^ 255 - 21" by (simp add: p25519_def)
  note rep_fe_tobytes [OF fe_mul_rep [OF tight_loose_rep [OF r(1)] tight_loose_rep [OF rep_invert [OF r(2)]]]]
  moreover have "fiat32_curve25519_generic scalar point = fe_tobytes (fe_mul_impl x2 (fe_loose_invert z2))"
    using l assms by (simp add: fiat32_curve25519_generic_def sw(1) fe_cswap_points_cswap xz)
  ultimately show ?thesis by (simp add: rfc_x25519_def x25519_def XZ e)
qed

end
