(* ===== verification/Keys.thy ===== *)
theory Keys
  imports Encoding Ctype Curve25519_Hacl64
begin

text \<open>
  \<^verbatim>\<open>curve25519.c\<close>, \<^verbatim>\<open>genkey.c\<close>, \<^verbatim>\<open>pubkey.c\<close>: the public key of a private key, and the commands
  \<^verbatim>\<open>genkey\<close>, \<^verbatim>\<open>genpsk\<close> and \<^verbatim>\<open>pubkey\<close>.  The sources of randomness are arguments.  The buffers that
  the commands have on the stack are arguments too, so that it can be shown that nothing of what they
  held before is printed.  On the platforms with 128-bit integers \<^verbatim>\<open>curve25519_generic\<close> is the one of
  \<^verbatim>\<open>curve25519-hacl64.h\<close>.
\<close>

section \<open>Public keys\<close>

definition curve25519 :: "bytes \<Rightarrow> bytes \<Rightarrow> bytes" where
  "curve25519 secret basepoint = hacl64_curve25519_generic secret basepoint"

definition curve25519_basepoint :: bytes where
  "curve25519_basepoint = 9 # replicate 31 0"

definition curve25519_generate_public :: "bytes \<Rightarrow> bytes" where
  "curve25519_generate_public secret = curve25519 secret curve25519_basepoint"

section \<open>Random bytes\<close>

text \<open>
  \<^verbatim>\<open>getentropy\<close> with its success, the system call \<^verbatim>\<open>getrandom\<close> with its result, and the reads from
  \<^verbatim>\<open>/dev/urandom\<close> after so many bytes, if it can be opened.  Each comes with the bytes it has stored.
\<close>

record random_sys =
  getentropy :: "nat \<Rightarrow> bool \<times> bytes"
  getrandom :: "nat \<Rightarrow> int \<times> bytes"
  urandom :: "(nat \<Rightarrow> nat \<Rightarrow> int \<times> bytes) option"

definition write_at :: "bytes \<Rightarrow> nat \<Rightarrow> bytes \<Rightarrow> bytes" where
  "write_at out i bs = take i out @ bs @ drop (i + length bs) out"

function urandom_loop :: "(nat \<Rightarrow> nat \<Rightarrow> int \<times> bytes) \<Rightarrow> bytes \<Rightarrow> nat \<Rightarrow> nat \<Rightarrow> bool \<times> bytes" where
  "urandom_loop read out len i =
     (if i < len then
        (case read i (len - i) of (ret, bs) \<Rightarrow>
           let out = write_at out i bs in
           if ret \<le> 0 then (i = len, out) else urandom_loop read out len (i + nat ret))
      else (i = len, out))"
  by pat_completeness auto
termination
  by (relation "measure (\<lambda>(read, out, len, i). len - i)") auto

declare urandom_loop.simps [simp del]

definition get_random_bytes :: "random_sys \<Rightarrow> bytes \<Rightarrow> nat \<Rightarrow> bool \<times> bytes" where
  "get_random_bytes R out len =
     (if len > 256 then (False, out)
      else case getentropy R len of (ok, bs) \<Rightarrow>
        let out = write_at out 0 bs in
        if ok then (True, out)
        else case getrandom R len of (ret, bs) \<Rightarrow>
          let out = write_at out 0 bs in
          if ret = int len then (True, out)
          else case urandom R of None \<Rightarrow> (False, out) | Some read \<Rightarrow> urandom_loop read out len 0)"

section \<open>The commands\<close>

text \<open>The exit status and what is written to the standard output.\<close>

definition genkey_main :: "random_sys \<Rightarrow> bytes \<Rightarrow> string list \<Rightarrow> int \<times> string" where
  "genkey_main R key argv =
     (if length argv \<noteq> 1 then (1, [])
      else case get_random_bytes R key WG_KEY_LEN of
        (False, key) \<Rightarrow> (1, [])
      | (True, key) \<Rightarrow>
          let key = (if argv ! 0 = ''genkey'' then curve25519_clamp_secret key else key)
          in (0, key_to_base64 key @ [NL]))"

text \<open>The loop over what follows the key; the end of the input is the \<^verbatim>\<open>int\<close> -1.\<close>

fun trailing_chars :: "string \<Rightarrow> (unit, unit) res" where
  "trailing_chars [] = (if char_is_space (- 1) then Hang else Ok ())"
| "trailing_chars (c # cs) =
     (if uchar_int c = 0 \<or> char_is_space (uchar_int c) then trailing_chars cs else Fail ())"

definition pubkey_main :: "string \<Rightarrow> string list \<Rightarrow> (unit, int \<times> string) res" where
  "pubkey_main stdin argv =
     (if length argv \<noteq> 1 then Ok (1, [])
      else if length (take (WG_KEY_LEN_BASE64 - 1) stdin) \<noteq> WG_KEY_LEN_BASE64 - 1 then Ok (1, [])
      else case trailing_chars (drop (WG_KEY_LEN_BASE64 - 1) stdin) of
        Fail _ \<Rightarrow> Ok (1, [])
      | Ok _ \<Rightarrow>
          (case key_from_base64 (cstr (take (WG_KEY_LEN_BASE64 - 1) stdin)) of
             None \<Rightarrow> Ok (1, [])
           | Some key \<Rightarrow> Ok (0, key_to_base64 (curve25519_generate_public key) @ [NL]))
      | Exit e \<Rightarrow> Exit e
      | Hang \<Rightarrow> Hang
      | Fault \<Rightarrow> Fault)"

section \<open>What the random sources promise\<close>

text \<open>Success means that the whole buffer has been filled; a read stores as many bytes as it says and
  no more than asked for.\<close>

definition random_ok :: "random_sys \<Rightarrow> bool" where
  "random_ok R \<longleftrightarrow>
     (\<forall>n. length (snd (getentropy R n)) \<le> n \<and> (fst (getentropy R n) \<longrightarrow> length (snd (getentropy R n)) = n)) \<and>
     (\<forall>n. length (snd (getrandom R n)) = nat (fst (getrandom R n)) \<and> fst (getrandom R n) \<le> int n) \<and>
     (\<forall>read. urandom R = Some read \<longrightarrow>
        (\<forall>i n. length (snd (read i n)) = nat (fst (read i n)) \<and> fst (read i n) \<le> int n))"

lemma length_write_at [simp]: "i + length bs \<le> length out \<Longrightarrow> length (write_at out i bs) = length out"
  by (simp add: write_at_def)

lemma take_write_at: "i \<le> length out \<Longrightarrow> take (i + length bs) (write_at out i bs) = take i out @ bs"
  by (simp add: write_at_def)

lemma write_at_whole: "length bs = length out \<Longrightarrow> write_at out 0 bs = bs"
  by (simp add: write_at_def)

text \<open>What the loop returns depends on the bytes already stored only; on success the buffer is full.\<close>

lemma urandom_loop_fills:
  assumes "\<forall>i n. length (snd (read i n)) = nat (fst (read i n)) \<and> fst (read i n) \<le> int n"
    and "i \<le> len" "length out = len" "length out' = len" "take i out = take i out'"
  shows "length (snd (urandom_loop read out len i)) = len \<and>
    fst (urandom_loop read out' len i) = fst (urandom_loop read out len i) \<and>
    (fst (urandom_loop read out len i) \<longrightarrow> urandom_loop read out' len i = urandom_loop read out len i)"
  using assms
proof (induction read out len i arbitrary: out' rule: urandom_loop.induct)
  case (1 read out len i)
  show ?case
  proof (cases "i < len")
    case True
    obtain ret bs where r: "read i (len - i) = (ret, bs)" by fastforce
    from 1(2) r have bs: "length bs = nat ret" "ret \<le> int (len - i)" by (metis fst_conv snd_conv)+
    let ?w = "\<lambda>out. write_at out i bs"
    have "ret > 0 \<Longrightarrow> ?thesis"
      using True r bs 1(1) [OF True r [symmetric] refl _ 1(2), of "?w out'"] 1(3-) take_write_at [of i out bs] take_write_at [of i out' bs]
      by (simp add: urandom_loop.simps [of _ _ _ i])
    moreover have "\<not> ret > 0 \<Longrightarrow> ?thesis"
      using True r bs 1(3-) by (simp add: urandom_loop.simps [of _ _ _ i])
    ultimately show ?thesis by blast
  qed (use 1 in \<open>simp add: urandom_loop.simps\<close>)
qed

text \<open>A successful call has overwritten the whole buffer.\<close>

lemma get_random_bytes_fills:
  assumes R: "random_ok R" and "length out = len" "length out' = len"
  shows "length (snd (get_random_bytes R out len)) = len \<and>
    fst (get_random_bytes R out' len) = fst (get_random_bytes R out len) \<and>
    (fst (get_random_bytes R out len) \<longrightarrow> get_random_bytes R out' len = get_random_bytes R out len)"
proof -
  obtain ok bs where e: "getentropy R len = (ok, bs)" by fastforce
  obtain ret bs' where g: "getrandom R len = (ret, bs')" by fastforce
  from R e have bs: "length bs \<le> len" "ok \<Longrightarrow> length bs = len" unfolding random_ok_def by (metis fst_conv snd_conv)+
  from R g have bs': "length bs' = nat ret" "ret \<le> int len" unfolding random_ok_def by (metis fst_conv snd_conv)+
  let ?w = "\<lambda>out. write_at (write_at out 0 bs) 0 bs'"
  have "\<And>read. urandom R = Some read \<Longrightarrow>
      length (snd (urandom_loop read (?w out) len 0)) = len \<and>
      fst (urandom_loop read (?w out') len 0) = fst (urandom_loop read (?w out) len 0) \<and>
      (fst (urandom_loop read (?w out) len 0) \<longrightarrow> urandom_loop read (?w out') len 0 = urandom_loop read (?w out) len 0)"
    using R assms(2,3) bs bs' by (intro urandom_loop_fills) (auto simp: random_ok_def)
  with assms(2,3) bs bs' show ?thesis
    by (simp add: get_random_bytes_def Let_def e g write_at_whole split: option.split)
qed

section \<open>The commands together\<close>

lemma length_rfc_x25519 [simp]: "length (rfc_x25519 n s b) = 32"
  by (simp add: rfc_x25519_def)

lemma basepoint_bytes: "curve25519_basepoint = le_bytes 32 9"
proof -
  have "\<And>n. le_bytes n 0 = replicate n 0" by (induct_tac n) simp_all
  then have "curve25519_basepoint = le_bytes (Suc 31) 9" unfolding le_bytes.simps curve25519_basepoint_def by simp
  then show ?thesis by simp
qed

lemma generate_public: "length secret = 32 \<Longrightarrow> curve25519_generate_public secret = rfc_x25519 256 secret curve25519_basepoint"
  by (simp add: curve25519_generate_public_def curve25519_def hacl64_rfc)

text \<open>What may follow a key: zeros and white space.\<close>

definition is_trailing :: "char \<Rightarrow> bool" where
  "is_trailing c \<longleftrightarrow> c = NUL \<or> is_c_space c"

lemma uchar_int_0: "uchar_int c = 0 \<longleftrightarrow> c = NUL"
proof -
  have "uchar_int c = 0 \<longleftrightarrow> unat (uchar_int c) = 0" by (simp only: unsigned_eq_0_iff)
  also have "\<dots> \<longleftrightarrow> of_char c = (0::nat)"
    unfolding uchar_int_def by (simp add: unat_ucast_up)
  also have "\<dots> \<longleftrightarrow> c = NUL" using of_char_eq_iff [of c NUL] by simp
  finally show ?thesis .
qed

lemma trailing_chars_eq: "trailing_chars s = (if list_all is_trailing s then Ok () else Fail ())"
  by (induction s) (simp_all add: is_trailing_def char_classes_EOF uchar_int_0)

lemma NUL_not_in_key_to_base64: "length key = WG_KEY_LEN \<Longrightarrow> NUL \<notin> set (key_to_base64 key)"
  using set_key_to_base64 [of key] by (auto simp: base64_alphabet_def)

text \<open>A text with a zero inside is not the encoding of a key, and its part before the zero is too short.\<close>

lemma key_from_base64_cstr: "length s = 44 \<Longrightarrow> key_from_base64 (cstr s) = key_from_base64 s"
proof (cases "NUL \<in> set s")
  case True
  assume len: "length s = 44"
  from True have "length (cstr s) \<noteq> length s" unfolding cstr_def
    by (metis (mono_tags, lifting) set_takeWhileD takeWhile_eq_take take_all_iff le_refl)
  with len have "key_from_base64 (cstr s) = None" using length_key_to_base64 b64.read_iff
    by (metis not_None_eq)
  moreover have "key_from_base64 s = None" using True NUL_not_in_key_to_base64 b64.read_iff
    by (metis not_None_eq)
  ultimately show ?thesis by simp
qed (simp add: cstr_id)

lemma pubkey_main_eq:
  "pubkey_main stdin [cmd] = Ok
     (case key_from_base64 (take 44 stdin) of
        Some key \<Rightarrow> if list_all is_trailing (drop 44 stdin) then (0, key_to_base64 (rfc_x25519 256 key curve25519_basepoint) @ [NL])
          else (1, [])
      | None \<Rightarrow> (1, []))"
proof (cases "length (take 44 stdin) = 44")
  case True
  have "\<And>key. key_from_base64 (take 44 stdin) = Some key \<Longrightarrow> length key = 32" by (simp add: b64.read_iff)
  with True show ?thesis
    by (simp add: pubkey_main_def trailing_chars_eq key_from_base64_cstr generate_public split: option.split)
next
  case False
  then have "key_from_base64 (take 44 stdin) = None" using length_key_to_base64 b64.read_iff by (metis not_None_eq)
  moreover from False have "length stdin \<noteq> 44" by auto
  ultimately show ?thesis using False by (simp add: pubkey_main_def)
qed

section \<open>Clamped keys\<close>

lemma clamp_low: "unat ((w::u8) AND 248) mod 8 = 0"
proof -
  have "(w AND 248) AND 7 = 0" by (simp add: and.assoc)
  then show ?thesis using unat_and_mask [of "w AND 248" 3] by (simp add: mask_eq_exp_minus_1)
qed

lemma clamp_high: "64 \<le> unat (((w::u8) AND 127) OR 64)" "unat (((w::u8) AND 127) OR 64) < 128"
proof -
  let ?x = "(w AND 127) OR 64"
  have "?x AND 64 = 64" "?x AND 127 = ?x" by (simp_all add: bit.conj_disj_distrib2 and.assoc)
  then show "64 \<le> unat ?x" "unat ?x < 128"
    using word_and_le1 [of 64 ?x] unat_and_mask [of ?x 7]
    by (simp_all add: word_le_nat_alt mask_eq_exp_minus_1)
qed

lemma list_32: "length s = 32 \<Longrightarrow> \<exists>a m z. s = a # m @ [z] \<and> length m = 30"
  by (rule exI [of _ "hd s"], rule exI [of _ "butlast (tl s)"], rule exI [of _ "last s"]) (cases s, auto)

lemma clamped_scalar:
  assumes "length s = 32"
  shows "8 dvd of_le (curve25519_clamp_secret s) \<and>
    2 ^ 254 \<le> of_le (curve25519_clamp_secret s) \<and> of_le (curve25519_clamp_secret s) < 2 ^ 255"
proof -
  obtain a m z where s: "s = a # m @ [z]" "length m = 30" using list_32 [OF assms] by blast
  let ?b = "unat (a AND 248)" and ?z = "unat ((z AND 127) OR 64)"
  have c: "curve25519_clamp_secret s = (a AND 248) # m @ [(z AND 127) OR 64]"
    by (simp add: s curve25519_clamp_secret_def list_update_append nth_append Let_def)
  have "of_le (curve25519_clamp_secret s) = ?b + 256 * (of_le m + 256 ^ 30 * ?z)"
    unfolding c by (simp add: of_le_append s(2))
  moreover have "of_le m < 256 ^ 30" using of_le_less [of m] s by simp
  moreover have "?b < 256" using unsigned_less [of "a AND 248", where 'a = nat] by simp
  moreover have "8 dvd ?b" using clamp_low [of a] by presburger
  ultimately show ?thesis using clamp_high [of z] by simp
qed

section \<open>A sample source of randomness\<close>

text \<open>No \<^verbatim>\<open>getentropy\<close>, a system call that delivers three bytes, and a device that delivers seven at a time.\<close>

definition sample_random :: random_sys where
  "sample_random = \<lparr>getentropy = (\<lambda>n. (False, [])), getrandom = (\<lambda>n. if 3 \<le> n then (3, [1, 2, 3]) else (0, [])),
     urandom = Some (\<lambda>i n. (int (min 7 n), replicate (min 7 n) (of_nat i)))\<rparr>"

lemma sample_random_ok: "random_ok sample_random"
  by (auto simp: random_ok_def sample_random_def)

lemma urandom_loop_step:
  "i < len \<Longrightarrow> 0 < fst (read i (len - i)) \<Longrightarrow>
   urandom_loop read out len i =
     urandom_loop read (write_at out i (snd (read i (len - i)))) len (i + nat (fst (read i (len - i))))"
  by (subst urandom_loop.simps) (simp add: case_prod_unfold)

lemma urandom_loop_end: "urandom_loop read out len len = (True, out)"
  by (subst urandom_loop.simps) simp

lemma sample_genkey:
  "genkey_main sample_random (replicate 32 0) [''genkey''] = (0, key_to_base64 (curve25519_clamp_secret
     (replicate 7 0 @ replicate 7 7 @ replicate 7 14 @ replicate 7 21 @ replicate 4 28)) @ [NL])"
  by (simp add: genkey_main_def get_random_bytes_def sample_random_def urandom_loop_step urandom_loop_end write_at_def Let_def)

section \<open>Properties\<close>

text \<open>C9. A generated private key does not depend on what the buffer held before, whatever mixture of sources
  delivered it; it is a clamped scalar, a multiple of 8 between \<open>2\<^sup>254\<close> and \<open>2\<^sup>255\<close>; and \<^verbatim>\<open>pubkey\<close> given the
  output of \<^verbatim>\<open>genkey\<close> prints the public key of that scalar.\<close>

theorem genkey_then_pubkey:
  assumes "random_ok R" and "length stack = WG_KEY_LEN" "length stack' = WG_KEY_LEN"
    and "genkey_main R stack [''genkey''] = (0, out)"
  shows "genkey_main R stack' [''genkey''] = (0, out) \<and>
    (\<exists>key. length key = WG_KEY_LEN \<and> out = key_to_base64 key @ [NL] \<and>
       8 dvd of_le key \<and> 2 ^ 254 \<le> of_le key \<and> of_le key < 2 ^ 255 \<and>
       pubkey_main out [''pubkey''] = Ok (0, key_to_base64 (rfc_x25519 256 key curve25519_basepoint) @ [NL]))"
proof -
  from assms(4) obtain bs where r: "get_random_bytes R stack WG_KEY_LEN = (True, bs)"
    by (auto simp: genkey_main_def split: prod.splits bool.splits)
  let ?key = "curve25519_clamp_secret bs"
  from assms(4) r have out: "out = key_to_base64 ?key @ [NL]" by (simp add: genkey_main_def Let_def)
  note f = get_random_bytes_fills [OF assms(1-3)]
  from f r have len: "length bs = WG_KEY_LEN" and r': "get_random_bytes R stack' WG_KEY_LEN = (True, bs)" by simp_all
  from r' out have "genkey_main R stack' [''genkey''] = (0, out)" by (simp add: genkey_main_def Let_def)
  moreover have "pubkey_main out [''pubkey''] = Ok (0, key_to_base64 (rfc_x25519 256 ?key curve25519_basepoint) @ [NL])"
    using len length_key_to_base64 [of ?key]
    by (simp add: pubkey_main_eq out key_from_to_base64 is_trailing_def is_c_space_def)
  ultimately show ?thesis using len out clamped_scalar [of bs] by (intro conjI exI [of _ ?key]) simp_all
qed

theorem genkey_then_pubkey_witness:
  "\<exists>out. genkey_main sample_random (replicate 32 0) [''genkey''] = (0, out) \<and>
     genkey_main sample_random (replicate 32 255) [''genkey''] = (0, out)"
  using genkey_then_pubkey [OF sample_random_ok _ _ sample_genkey, of "replicate 32 255"] sample_genkey by simp

text \<open>C34. \<^verbatim>\<open>pubkey\<close> succeeds exactly on the encoding of a 32-byte key that is followed by white space and zeros only,
  prints the public key, and refuses everything else with status 1 and no output.\<close>

theorem pubkey_accepts:
  "(pubkey_main stdin [cmd] = Ok (0, out) \<longleftrightarrow>
      (\<exists>key rest. length key = WG_KEY_LEN \<and> stdin = key_to_base64 key @ rest \<and> list_all is_trailing rest \<and>
         out = key_to_base64 (rfc_x25519 256 key curve25519_basepoint) @ [NL])) \<and>
   (pubkey_main stdin [cmd] = Ok (1, []) \<longleftrightarrow> (\<nexists>out. pubkey_main stdin [cmd] = Ok (0, out)))"
proof -
  have "(\<exists>key rest. length key = WG_KEY_LEN \<and> stdin = key_to_base64 key @ rest \<and> list_all is_trailing rest \<and> P key) \<longleftrightarrow>
      (\<exists>key. key_from_base64 (take 44 stdin) = Some key \<and> list_all is_trailing (drop 44 stdin) \<and> P key)" for P
    unfolding b64.read_iff using length_key_to_base64 by (metis append_eq_conv_conj append_take_drop_id)
  then show ?thesis by (simp add: pubkey_main_eq split: option.split) blast
qed

end
