(* ===== verification/Curve25519_Agree.thy ===== *)
theory Curve25519_Agree
  imports Curve25519_Fiat32 Keys
begin

text \<open>
  The two implementations of \<^verbatim>\<open>curve25519_generic\<close> compared.  The one for 64-bit platforms begins its ladder at the top bit of the last
  byte, which is zero after clamping, the other one a bit later.  The additional step multiplies the coordinates of the
  second point by four times the coordinate of the given point, so that all later points are the same up to such factors.
\<close>

section \<open>Points up to a factor\<close>

definition scaled :: "int \<Rightarrow> mpoint \<Rightarrow> mpoint \<Rightarrow> bool" where
  "scaled c P Q \<longleftrightarrow> eqp (fst Q) (c * fst P) \<and> eqp (snd Q) (c * snd P)"

text \<open>Both points of a state, by powers of the same number.\<close>

definition scaled_pair :: "int \<Rightarrow> mpoint \<times> mpoint \<Rightarrow> mpoint \<times> mpoint \<Rightarrow> bool" where
  "scaled_pair c s t \<longleftrightarrow> (\<exists>i j. scaled (c ^ i) (fst s) (fst t) \<and> scaled (c ^ j) (snd s) (snd t))"

lemma scaledI: "eqp a (fst Q) \<Longrightarrow> eqp a (c * fst P) \<Longrightarrow> eqp b (snd Q) \<Longrightarrow> eqp b (c * snd P) \<Longrightarrow> scaled c P Q"
  unfolding scaled_def by (blast intro: eqp_trans eqp_sym)

lemma scaled_mont_step:
  assumes "scaled a P P'" "scaled b Q Q'"
  shows "scaled (a ^ 4) (fst (mont_step u (P, Q))) (fst (mont_step u (P', Q')))"
    "scaled ((a * b) ^ 2) (snd (mont_step u (P, Q))) (snd (mont_step u (P', Q')))"
proof -
  obtain x z x' z' where p: "P = (x, z)" "Q = (x', z')" by (metis prod.collapse)
  obtain X Z X' Z' where q: "P' = (X, Z)" "Q' = (X', Z')" by (metis prod.collapse)
  have e: "eqp X (a * x)" "eqp Z (a * z)" "eqp X' (b * x')" "eqp Z' (b * z')" using assms by (simp_all add: scaled_def p q)
  note S = eqp_add [OF e(1,2)] and D = eqp_diff [OF e(1,2)] and S' = eqp_add [OF e(3,4)] and D' = eqp_diff [OF e(3,4)]
  note m = mont_step_eqp [where x = X and z = Z and x' = X' and z' = Z' and u = u]
    and n = mont_step_eqp [where x = x and z = z and x' = x' and z' = z' and u = u]
  note aa = eqp_mult [OF S S] and bb = eqp_mult [OF D D] and da = eqp_mult [OF D' S] and cb = eqp_mult [OF S' D]
  note E = eqp_diff [OF aa bb]
  have 1: "eqp ((X + Z) * (X + Z) * ((X - Z) * (X - Z))) (a ^ 4 * ((x + z) * (x + z) * ((x - z) * (x - z))))"
    using eqp_mult [OF aa bb] by (rule eqp_trans) (simp add: eqp_eq algebra_simps power_numeral_reduce)
  have 2: "eqp (((X + Z) * (X + Z) - (X - Z) * (X - Z)) * ((X + Z) * (X + Z) + 121665 * ((X + Z) * (X + Z) - (X - Z) * (X - Z))))
      (a ^ 4 * (((x + z) * (x + z) - (x - z) * (x - z)) * ((x + z) * (x + z) + 121665 * ((x + z) * (x + z) - (x - z) * (x - z)))))"
    using eqp_mult [OF E eqp_add [OF aa eqp_mult [OF eqp_refl E]]] by (rule eqp_trans) (rule eqp_eq, algebra)
  have 3: "eqp (((X' - Z') * (X + Z) + (X' + Z') * (X - Z)) ^ 2) ((a * b) ^ 2 * ((x' - z') * (x + z) + (x' + z') * (x - z)) ^ 2)"
    using eqp_power [OF eqp_add [OF da cb]] by (rule eqp_trans) (rule eqp_eq, algebra)
  have 4: "eqp (u * ((X' - Z') * (X + Z) - (X' + Z') * (X - Z)) ^ 2) ((a * b) ^ 2 * (u * ((x' - z') * (x + z) - (x' + z') * (x - z)) ^ 2))"
    using eqp_mult [OF eqp_refl [of u] eqp_power [OF eqp_diff [OF da cb]]] by (rule eqp_trans) (rule eqp_eq, algebra)
  show "scaled (a ^ 4) (fst (mont_step u (P, Q))) (fst (mont_step u (P', Q')))" unfolding p q
    by (rule scaledI [OF m(1) eqp_trans [OF 1 eqp_mult [OF eqp_refl n(1)]] m(2) eqp_trans [OF 2 eqp_mult [OF eqp_refl n(2)]]])
  show "scaled ((a * b) ^ 2) (snd (mont_step u (P, Q))) (snd (mont_step u (P', Q')))" unfolding p q
    by (rule scaledI [OF m(3) eqp_trans [OF 3 eqp_mult [OF eqp_refl n(3)]] m(4) eqp_trans [OF 4 eqp_mult [OF eqp_refl n(4)]]])
qed

lemma scaled_pair_cswap: "scaled_pair c s t \<Longrightarrow> scaled_pair c (cswap b s) (cswap b t)"
  by (auto simp: scaled_pair_def cswap_def)

lemma scaled_pair_step: "scaled_pair c s t \<Longrightarrow> scaled_pair c (mont_step u s) (mont_step u t)"
proof -
  assume "scaled_pair c s t"
  then obtain i j where "scaled (c ^ i) (fst s) (fst t)" "scaled (c ^ j) (snd s) (snd t)" by (auto simp: scaled_pair_def)
  from scaled_mont_step [OF this, of u] show ?thesis
    unfolding scaled_pair_def prod.collapse by (metis power_add power_mult)
qed

lemma scaled_pair_ladder: "scaled_pair c s t \<Longrightarrow> scaled_pair c (ladder u k n s) (ladder u k n t)"
  by (induction n arbitrary: s t) (simp_all add: ladder_step_def scaled_pair_cswap scaled_pair_step)

section \<open>The additional step\<close>

lemma first_step: "scaled_pair (4 * u) ((1, 0), (u, 1)) (ladder_step u False ((1, 0), (u, 1)))"
proof -
  note m = mont_step_eqp [where x = 1 and z = 0 and x' = u and z' = 1 and u = u]
  have "scaled ((4 * u) ^ 0) (1, 0) (fst (mont_step u ((1, 0), (u, 1))))"
    by (rule scaledI [OF m(1) _ m(2)]) simp_all
  moreover have "scaled ((4 * u) ^ 1) (u, 1) (snd (mont_step u ((1, 0), (u, 1))))"
    by (rule scaledI [OF m(3) _ m(4)]) (simp_all add: power2_eq_square algebra_simps)
  ultimately show ?thesis unfolding scaled_pair_def ladder_step_def cswap_def by (metis fst_conv snd_conv)
qed

lemma quotient_scaled:
  assumes "scaled (c ^ i) (x, z) (x', z')" "c ^ nat (p25519 - 1) mod p25519 = 1"
  shows "x' * z' ^ nat (p25519 - 2) mod p25519 = x * z ^ nat (p25519 - 2) mod p25519"
proof -
  let ?n = "nat (p25519 - 2)"
  have n: "nat (p25519 - 1) = Suc ?n" by (simp add: p25519_def)
  have e: "eqp x' (c ^ i * x)" "eqp z' (c ^ i * z)" using assms(1) by (simp_all add: scaled_def)
  have c: "eqp (c ^ Suc ?n) 1" using assms(2) by (simp add: eqp_def n p25519_def)
  have "eqp (x' * z' ^ ?n) (c ^ i * x * (c ^ i * z) ^ ?n)" by (intro eqp_intros e)
  also have "c ^ i * x * (c ^ i * z) ^ ?n = (c ^ Suc ?n) ^ i * (x * z ^ ?n)"
    by (simp add: power_mult_distrib power_mult [symmetric] power_add [symmetric] algebra_simps)
  also have "eqp \<dots> (1 ^ i * (x * z ^ ?n))" by (intro eqp_intros c eqp_refl)
  finally show ?thesis by (simp add: eqp_def)
qed

section \<open>The coordinate zero\<close>

lemma scaled_1 [simp]: "scaled 1 P P"
  by (simp add: scaled_def)

lemma scaled_0_iff: "scaled 0 P Q \<longleftrightarrow> eqp (fst Q) 0 \<and> eqp (snd Q) 0"
  by (simp add: scaled_def)

text \<open>Once the first point has no coordinates left, that remains so.\<close>

lemma zero_ladder: "scaled 0 (fst s) (fst s) \<Longrightarrow> scaled 0 (fst s) (fst (ladder u k n s))"
proof (induction n arbitrary: s)
  case (Suc n)
  obtain P Q where s: "s = (P, Q)" by (rule prod.exhaust)
  have "scaled 0 P P" using Suc.prems by (simp add: s)
  note z = scaled_mont_step [OF this scaled_1, of u Q] scaled_mont_step [OF scaled_1 this, of u Q]
  have "scaled 0 (fst t) (fst t)" if "t = ladder_step u (bit k n) s" for t
    using z(1,4) by (cases "bit k n") (simp_all add: that ladder_step_def cswap_def s scaled_0_iff)
  from Suc.IH [OF this, OF refl] show ?case by (simp add: scaled_0_iff)
qed simp

lemma zero_result: "scaled 0 P (fst (ladder u k n ((1, 0), (u, 1)))) \<Longrightarrow> x25519 n k u = 0"
proof -
  obtain x z where xz: "fst (ladder u k n ((1, 0), (u, 1))) = (x, z)" by (rule prod.exhaust)
  assume "scaled 0 P (fst (ladder u k n ((1, 0), (u, 1))))"
  then have "eqp x 0" by (simp add: xz scaled_0_iff)
  then have "eqp (x * z ^ nat (p25519 - 2)) (0 * z ^ nat (p25519 - 2))" by (intro eqp_intros eqp_refl)
  then show ?thesis by (simp add: x25519_def xz eqp_def)
qed

lemma zero_steps:
  assumes "eqp u 0"
  shows "scaled 0 P (fst (ladder_step u True ((1, 0), (u, 1))))" "scaled 0 P (snd (ladder_step u False ((1, 0), (u, 1))))"
proof -
  have m: "eqp (c * u) 0" for c using eqp_mult [OF eqp_refl assms, of c] by simp
  have "eqp a 0" if "eqp b a" "b = c * u" for a b c using eqp_trans [OF eqp_sym [OF that(1)] m [of c, folded that(2)]] .
  note e = this
  show "scaled 0 P (fst (ladder_step u True ((1, 0), (u, 1))))"
    using e [OF mont_step_eqp(3) [where x = u and z = 1 and x' = 1 and z' = 0 and u = u], of "4 * u"]
      e [OF mont_step_eqp(4) [where x = u and z = 1 and x' = 1 and z' = 0 and u = u], of 4]
    by (simp add: scaled_0_iff ladder_step_def cswap_def power2_eq_square algebra_simps)
  show "scaled 0 P (snd (ladder_step u False ((1, 0), (u, 1))))"
    using e [OF mont_step_eqp(3) [where x = 1 and z = 0 and x' = u and z' = 1 and u = u], of "4 * u"]
      e [OF mont_step_eqp(4) [where x = 1 and z = 0 and x' = u and z' = 1 and u = u], of 4]
    by (simp add: scaled_0_iff ladder_step_def cswap_def power2_eq_square algebra_simps)
qed

lemma zero_coordinate:
  assumes "eqp u 0" "bit k 254" "\<not> bit k 255"
  shows "x25519 255 k u = 0" "x25519 256 k u = 0"
proof -
  let ?i = "((1, 0), (u, 1))"
  let ?t = "ladder_step u False ?i"
  have l: "ladder u k (Suc m) ?i = ladder u k m (ladder_step u (bit k m) ?i)"
    "ladder u k (Suc (Suc m)) ?i = ladder u k m (ladder_step u (bit k m) (ladder_step u (bit k (Suc m)) ?i))" for m
    by (rule ladder.simps, simp only: ladder.simps)
  have l: "ladder u k 255 ?i = ladder u k 254 (ladder_step u True ?i)" "ladder u k 256 ?i = ladder u k 254 (ladder_step u True ?t)"
    using l [of 254] assms(2,3) by simp_all
  note z = zero_steps [OF assms(1)]
  show "x25519 255 k u = 0"
    by (rule zero_result [where P = "fst (ladder_step u True ?i)"]) (unfold l, rule zero_ladder [OF z(1)])
  obtain P Q where t: "?t = (P, Q)" by (rule prod.exhaust)
  have "scaled 0 Q Q" using z(2) unfolding t by simp
  from scaled_mont_step(2) [OF this scaled_1, of u P]
  have "scaled 0 (fst (ladder_step u True ?t)) (fst (ladder_step u True ?t))"
    unfolding t unfolding ladder_step_def cswap_def by (simp add: scaled_0_iff)
  then show "x25519 256 k u = 0"
    by (intro zero_result [where P = "fst (ladder_step u True ?t)"]) (unfold l, rule zero_ladder)
qed

section \<open>Agreement\<close>

lemma x25519_agree:
  assumes "bit k 254" "\<not> bit k 255" "u mod p25519 = 0 \<or> (4 * u) ^ nat (p25519 - 1) mod p25519 = 1"
  shows "x25519 256 k u = x25519 255 k u"
  using assms(3)
proof
  assume "u mod p25519 = 0"
  then have "eqp u 0" by (simp add: eqp_def)
  from zero_coordinate [OF this assms(1,2)] show ?thesis by simp
next
  assume c: "(4 * u) ^ nat (p25519 - 1) mod p25519 = 1"
  let ?i = "((1, 0), (u, 1))"
  have n: "256 = Suc 255" by simp
  have "scaled_pair (4 * u) (ladder u k 255 ?i) (ladder u k 256 ?i)"
    unfolding n ladder.simps using scaled_pair_ladder [OF first_step] assms(2) by simp
  then obtain i where s: "scaled ((4 * u) ^ i) (fst (ladder u k 255 ?i)) (fst (ladder u k 256 ?i))" by (auto simp: scaled_pair_def)
  obtain x z x' z' where xz: "fst (ladder u k 255 ?i) = (x, z)" "fst (ladder u k 256 ?i) = (x', z')" by (metis prod.collapse)
  from quotient_scaled [OF s [unfolded xz] c] show ?thesis by (simp add: x25519_def xz)
qed

lemma rfc_agree:
  assumes "length secret = 32"
    and "decode_u point mod p25519 = 0 \<or> (4 * decode_u point) ^ nat (p25519 - 1) mod p25519 = 1"
  shows "rfc_x25519 256 secret point = rfc_x25519 255 secret point"
proof -
  let ?k = "of_le (curve25519_clamp_secret secret)"
  have k: "2 ^ 254 \<le> ?k" "?k < 2 ^ 255" using clamped_scalar [OF assms(1)] by simp_all
  have "\<not> bit ?k 255" using k(2) by (simp add: bit_iff_odd)
  moreover have "?k div 2 ^ 254 = 1" using k by (intro div_nat_eqI) simp_all
  then have "bit ?k 254" by (simp add: bit_iff_odd)
  ultimately show ?thesis
    using x25519_agree assms by (simp add: rfc_x25519_def)
qed

text \<open>C8. The two implementations of \<^verbatim>\<open>curve25519_generic\<close>, of which the compiler chooses one by the integer types it has, give the same bytes
  for every secret: for a point whose coordinate is a multiple of the prime, and for one where Fermat's theorem holds for four times the
  coordinate.\<close>

theorem implementations_agree:
  assumes "length secret = 32"
    and "decode_u point mod p25519 = 0 \<or> (4 * decode_u point) ^ nat (p25519 - 1) mod p25519 = 1"
  shows "fiat32_curve25519_generic secret point = hacl64_curve25519_generic secret point"
  using rfc_agree [OF assms] assms(1) by (simp add: fiat32_rfc hacl64_rfc)

text \<open>A point whose coordinate is the inverse of four.\<close>

definition quarter_point :: bytes where
  "quarter_point = le_bytes 32 (3 * 2 ^ 253 - 14)"

theorem implementations_agree_witness:
  "fiat32_curve25519_generic (replicate 32 7) quarter_point = hacl64_curve25519_generic (replicate 32 7) quarter_point"
proof -
  have "decode_u quarter_point = 3 * 2 ^ 253 - 14" unfolding quarter_point_def decode_u_def by (simp add: of_le_le_bytes)
  then have "4 * decode_u quarter_point = 3 * p25519 + 1" by (simp add: p25519_def)
  then have "eqp (4 * decode_u quarter_point) 1" by (simp add: eqp_def)
  from eqp_power [OF this, of "nat (p25519 - 1)"]
  have "(4 * decode_u quarter_point) ^ nat (p25519 - 1) mod p25519 = 1 mod p25519" unfolding eqp_def power_one .
  also have "1 mod p25519 = 1" by (simp add: p25519_def)
  finally have "(4 * decode_u quarter_point) ^ nat (p25519 - 1) mod p25519 = 1" .
  then show ?thesis using implementations_agree [of "replicate 32 7" quarter_point] by simp
qed

end
