(* ===== verification/Curve25519_Base.thy ===== *)
theory Curve25519_Base
  imports Curve25519_Agree
begin

text \<open>
  The point with the coordinate 9, from which all public keys are computed.  Fermat's theorem holds for four times the coordinate;
  that is shown by computing the power with arithmetic on the binary representation.  So both implementations give the public key of
  RFC 7748 itself.
\<close>

section \<open>Reduction of binary numbers\<close>

text \<open>The lowest \<open>k\<close> bits and the others, if any is set.\<close>

fun low_bits :: "nat \<Rightarrow> num \<Rightarrow> num option" where
  "low_bits 0 n = None"
| "low_bits (Suc k) num.One = Some num.One"
| "low_bits (Suc k) (num.Bit0 n) = map_option num.Bit0 (low_bits k n)"
| "low_bits (Suc k) (num.Bit1 n) = Some (case low_bits k n of None \<Rightarrow> num.One | Some l \<Rightarrow> num.Bit1 l)"

fun high_bits :: "nat \<Rightarrow> num \<Rightarrow> num option" where
  "high_bits 0 n = Some n"
| "high_bits (Suc k) num.One = None"
| "high_bits (Suc k) (num.Bit0 n) = high_bits k n"
| "high_bits (Suc k) (num.Bit1 n) = high_bits k n"

definition value_of :: "num option \<Rightarrow> int" where
  "value_of b = (case b of None \<Rightarrow> 0 | Some n \<Rightarrow> numeral n)"

lemma numeral_bits: "(numeral (num.Bit0 n) :: int) = 2 * numeral n" "(numeral (num.Bit1 n) :: int) = 2 * numeral n + 1"
  unfolding mult_2 by (rule numeral_Bit0, rule numeral_Bit1)

lemma value_of_simps [simp]: "value_of None = 0" "value_of (Some n) = numeral n"
  by (simp_all add: value_of_def)

lemma value_of_Bit0: "value_of (map_option num.Bit0 b) = 2 * value_of b"
  by (cases b) (auto intro: numeral_bits(1))

lemma value_of_Bit1: "numeral (case b of None \<Rightarrow> num.One | Some l \<Rightarrow> num.Bit1 l) = 2 * value_of b + 1"
  by (cases b) (auto intro: numeral_bits(2))

lemma bits_split: "numeral n = value_of (low_bits k n) + 2 ^ k * value_of (high_bits k n)"
proof (induction k n rule: low_bits.induct)
  case (3 k n)
  show ?case unfolding low_bits.simps high_bits.simps value_of_Bit0 numeral_bits(1) [of n] 3 power_Suc by (simp add: distrib_left)
next
  case (4 k n)
  show ?case unfolding low_bits.simps high_bits.simps value_of_simps value_of_Bit1 numeral_bits(2) [of n] 4 power_Suc by (simp add: distrib_left)
qed simp_all

definition fold_bits :: "num \<Rightarrow> num" where
  "fold_bits n =
     (case high_bits 255 n of None \<Rightarrow> n
      | Some h \<Rightarrow> let m = num.Bit1 (num.Bit1 (num.Bit0 (num.Bit0 num.One))) * h
          in (case low_bits 255 n of None \<Rightarrow> m | Some l \<Rightarrow> l + m))"

lemma fold_bits_eqp: "eqp (numeral (fold_bits n)) (numeral n)"
proof (cases "high_bits 255 n")
  case (Some h)
  have "numeral (fold_bits n) = value_of (low_bits 255 n) + 19 * numeral h"
    by (cases "low_bits 255 n") (simp_all only: fold_bits_def Some Let_def option.case numeral_mult numeral_add value_of_simps add_0)
  moreover have "numeral n = value_of (low_bits 255 n) + 2 ^ 255 * numeral h" using bits_split [of n 255] by (simp add: Some)
  moreover have "l + q * k = l + 19 * k + (q - 19) * k" for l q k :: int by (simp add: algebra_simps)
  ultimately have "numeral n = numeral (fold_bits n) + p25519 * numeral h" by (simp only: p25519_def)
  then show ?thesis by (rule eqp_sym [OF eqp_multiple])
qed (simp add: fold_bits_def)

section \<open>Powers of six\<close>

definition square_mod :: "num \<Rightarrow> num" where
  "square_mod n = fold_bits (fold_bits (Num.sqr n))"

definition power_step :: "num \<Rightarrow> num" where
  "power_step n = fold_bits (fold_bits (num.Bit0 (num.Bit1 num.One) * Num.sqr n))"

fun power_steps :: "nat \<Rightarrow> num \<Rightarrow> num" where
  "power_steps 0 n = n"
| "power_steps (Suc k) n = power_steps k (power_step n)"

text \<open>The bits of a positive integer.\<close>

definition num_of_int :: "int \<Rightarrow> num" where
  "num_of_int x = num_of_nat (nat x)"

lemma num_of_int_code [code]: "num_of_int 0 = num.One" "num_of_int (Int.Pos n) = n" "num_of_int (Int.Neg n) = num.One"
  by (simp_all add: num_of_int_def)

lemma numeral_num_of_int: "0 < x \<Longrightarrow> numeral (num_of_int x) = x"
  by (simp add: num_of_int_def numeral_num_of_nat_unfold)

lemma square_mod_power:
  assumes "eqp (numeral n) (6 ^ e)"
  shows "eqp (numeral (square_mod n)) (6 ^ (2 * e))"
proof -
  have "eqp (numeral (square_mod n)) (numeral (Num.sqr n))"
    unfolding square_mod_def by (rule eqp_trans [OF fold_bits_eqp fold_bits_eqp])
  also have "(numeral (Num.sqr n) :: int) = numeral n * numeral n" by (simp only: Num.sqr_conv_mult numeral_mult)
  also have "eqp \<dots> (6 ^ e * 6 ^ e)" by (intro eqp_mult assms)
  finally show ?thesis by (simp only: mult_2 power_add)
qed

lemma power_step_power:
  assumes "eqp (numeral n) (6 ^ e)"
  shows "eqp (numeral (power_step n)) (6 ^ (2 * e + 1))"
proof -
  have "eqp (numeral (power_step n)) (numeral (num.Bit0 (num.Bit1 num.One) * Num.sqr n))"
    unfolding power_step_def by (rule eqp_trans [OF fold_bits_eqp fold_bits_eqp])
  also have "(numeral (num.Bit0 (num.Bit1 num.One) * Num.sqr n) :: int) = 6 * (numeral n * numeral n)"
    by (simp only: Num.sqr_conv_mult numeral_mult)
  also have "eqp \<dots> (6 * (6 ^ e * 6 ^ e))" by (intro eqp_mult assms eqp_refl)
  finally show ?thesis by (simp add: mult_2 power_add)
qed

text \<open>Each step doubles the exponent and adds one.\<close>

lemma power_steps_power: "eqp (numeral n) (6 ^ (m - 1)) \<Longrightarrow> 0 < m \<Longrightarrow> eqp (numeral (power_steps k n)) (6 ^ (m * 2 ^ k - 1))"
proof (induction k arbitrary: n m)
  case (Suc k)
  have "2 * (m - 1) + 1 = 2 * m - 1" using Suc.prems(2) by simp
  with power_step_power [OF Suc.prems(1)] have "eqp (numeral (power_step n)) (6 ^ (2 * m - 1))" by (simp only:)
  from Suc.IH [OF this] Suc.prems(2) show ?case by (simp add: mult.assoc mult.left_commute)
qed simp

text \<open>Powers with the exponents \<open>2\<^sup>n - 1\<close>, where the computation is interrupted so that its parts are checked side by side.\<close>

definition six_68 :: int where
  "six_68 = 26345177874152201195240562545569346756107891067115014633798113187288835885449"

definition six_129 :: int where
  "six_129 = 49602743025635492605991285700618406292140332405794809537949059299948523524118"

definition six_190 :: int where
  "six_190 = 52575150037126962179202894532413473247169974381992828207534043480630951821349"

definition six_250 :: int where
  "six_250 = 32972095091769589113555525245289549544492351293176050186908913195487611551846"

lemma six_pos: "0 < six_68" "0 < six_129" "0 < six_190" "0 < six_250"
  by (simp_all add: six_68_def six_129_def six_190_def six_250_def)

lemma six_68: "numeral (power_steps 67 (num_of_int 6)) = six_68"
  by code_simp

lemma six_129: "numeral (power_steps 61 (num_of_int six_68)) = six_129"
  by code_simp

lemma six_190: "numeral (power_steps 61 (num_of_int six_129)) = six_190"
  by code_simp

lemma six_250: "numeral (power_steps 60 (num_of_int six_190)) = six_250"
  by code_simp

lemma six_last: "numeral (square_mod (square_mod (power_steps 2 (square_mod (num_of_int six_250))))) = p25519 + 1"
  by code_simp

lemma computed_power:
  assumes "eqp x (6 ^ (m - 1))" "0 < m" "0 < x" "numeral (power_steps k (num_of_int x)) = y"
  shows "eqp y (6 ^ (m * 2 ^ k - 1))"
  using power_steps_power [of "num_of_int x" m k] assms by (simp only: numeral_num_of_int)

lemma computed_end:
  assumes "eqp x (6 ^ (m - 1))" "0 < m" "0 < x" "numeral (square_mod (square_mod (power_steps 2 (square_mod (num_of_int x))))) = y"
  shows "eqp y (6 ^ (4 * (8 * m - 5)))"
proof -
  have "eqp (numeral (num_of_int x)) (6 ^ (m - 1))" using assms(1,3) by (simp only: numeral_num_of_int)
  from square_mod_power [OF this] have "eqp (numeral (square_mod (num_of_int x))) (6 ^ ((2 * m - 1) - 1))" by (simp add: diff_mult_distrib2 numeral_2_eq_2)
  from square_mod_power [OF square_mod_power [OF power_steps_power [OF this, of 2]]]
  have "eqp y (6 ^ (2 * (2 * ((2 * m - 1) * 2 ^ 2 - 1))))" using assms(2,4) by simp
  moreover have "2 * (2 * ((2 * m - 1) * 2 ^ 2 - 1)) = 4 * (8 * m - 5)" by simp
  ultimately show ?thesis by (simp only:)
qed

lemma exponents:
  "(2::nat) * 2 ^ 67 = 2 ^ 68" "(2::nat) ^ 68 * 2 ^ 61 = 2 ^ 129" "(2::nat) ^ 129 * 2 ^ 61 = 2 ^ 190" "(2::nat) ^ 190 * 2 ^ 60 = 2 ^ 250"
  "4 * (8 * 2 ^ 250 - 5) = nat (p25519 - 1)"
  by (simp_all add: p25519_def)

lemma fermat_6: "eqp (6 ^ nat (p25519 - 1)) 1"
proof -
  have pos: "(0::nat) < 2 ^ n" for n by simp
  have "eqp 6 (6 ^ (2 - 1))" by simp
  note computed_power [OF this _ _ six_68, unfolded exponents(1), OF zero_less_numeral zero_less_numeral]
  note computed_power [OF this pos six_pos(1) six_129, unfolded exponents(2)]
  note computed_power [OF this pos six_pos(2) six_190, unfolded exponents(3)]
  note computed_power [OF this pos six_pos(3) six_250, unfolded exponents(4)]
  note computed_end [OF this pos six_pos(4) six_last, unfolded exponents(5)]
  moreover have "eqp (p25519 + 1) 1" by (simp add: eqp_def)
  ultimately show ?thesis by (blast intro: eqp_sym eqp_trans)
qed

section \<open>Public keys\<close>

lemma fermat_base: "(4 * 9) ^ nat (p25519 - 1) mod p25519 = 1"
proof -
  have "(6 ^ 2) ^ n = ((6 ^ n) ^ 2 :: int)" for n :: nat by (simp only: mult.commute flip: power_mult)
  moreover have "eqp ((6 ^ nat (p25519 - 1)) ^ 2) (1 ^ 2)" by (rule eqp_power [OF fermat_6])
  moreover have "4 * 9 = (6 ^ 2 :: int)" by simp
  moreover have "1 mod p25519 = 1" by (simp add: p25519_def)
  ultimately show ?thesis by (simp only: eqp_def power_one)
qed

lemma base_coordinate: "decode_u (le_bytes 32 9) = 9"
  by (simp add: decode_u_def of_le_le_bytes)

text \<open>C7. The public key that the tool computes for a secret of 32 bytes is that of RFC 7748, the ladder over 255 bits of the clamped
  secret from the point 9, whichever of the two implementations the compiler chooses.\<close>

theorem public_key_is_rfc7748:
  assumes "length secret = 32"
  shows "curve25519_generate_public secret = rfc_x25519 255 secret (le_bytes 32 9) \<and>
    fiat32_curve25519_generic secret curve25519_basepoint = rfc_x25519 255 secret (le_bytes 32 9)"
  using generate_public [OF assms] rfc_agree [OF assms, of "le_bytes 32 9"] fiat32_rfc [OF assms] fermat_base
  by (simp only: basepoint_bytes base_coordinate simp_thms)

theorem public_key_is_rfc7748_witness:
  "curve25519_generate_public (replicate 32 7) = rfc_x25519 255 (replicate 32 7) (le_bytes 32 9)"
  using public_key_is_rfc7748 [of "replicate 32 7"] by simp

end
