(* ===== verification/Wg.thy ===== *)
theory Wg
  imports Keys Show
begin

text \<open>
  \<^verbatim>\<open>wg.c\<close>: the table of the subcommands and the function \<^verbatim>\<open>main\<close>.  The environment of a run gathers
  the arguments of the commands: the system, the backend, the clock, the sources of randomness, the
  standard input.  The state that is passed on is that of the tunnel, which only the setting commands are given to change; what
  the list of interfaces does to the sockets in the file system is no part of it.
\<close>

section \<open>The table of subcommands\<close>

text \<open>The functions that the table points to.\<close>

datatype subcommand_function = Show_main | Showconf_main | Set_main | Setconf_main | Genkey_main | Pubkey_main

record subcommand =
  subcommand :: string
  sub_function :: subcommand_function
  description :: string

definition subcommands :: "subcommand list" where
  "subcommands =
    [\<lparr>subcommand = ''show'', sub_function = Show_main,
       description = ''Shows the current configuration and device information''\<rparr>,
     \<lparr>subcommand = ''showconf'', sub_function = Showconf_main,
       description = ''Shows the current configuration of a given WireGuard interface, for use with `setconf'' @ [CHR 0x27]\<rparr>,
     \<lparr>subcommand = ''set'', sub_function = Set_main,
       description = ''Change the current configuration, add peers, remove peers, or change peers''\<rparr>,
     \<lparr>subcommand = ''setconf'', sub_function = Setconf_main,
       description = ''Applies a configuration file to a WireGuard interface''\<rparr>,
     \<lparr>subcommand = ''addconf'', sub_function = Setconf_main,
       description = ''Appends a configuration file to a WireGuard interface''\<rparr>,
     \<lparr>subcommand = ''syncconf'', sub_function = Setconf_main,
       description = ''Synchronizes a configuration file to a WireGuard interface''\<rparr>,
     \<lparr>subcommand = ''genkey'', sub_function = Genkey_main,
       description = ''Generates a new private key and writes it to stdout''\<rparr>,
     \<lparr>subcommand = ''genpsk'', sub_function = Genkey_main,
       description = ''Generates a new preshared key and writes it to stdout''\<rparr>,
     \<lparr>subcommand = ''pubkey'', sub_function = Pubkey_main,
       description = ''Reads a private key from stdin and writes a public key to stdout''\<rparr>]"

definition show_usage :: "string \<Rightarrow> string" where
  "show_usage PROG_NAME =
     ''Usage: '' @ PROG_NAME @ '' <cmd> [<args>]'' @ [NL, NL] @
     ''Available subcommands:'' @ [NL] @
     concat (map (\<lambda>c. ''  '' @ subcommand c @ '': '' @ description c @ [NL]) subcommands) @
     ''You may pass `--help'' @ [CHR 0x27] @ '' to any of these subcommands to view usage.'' @ [NL]"

definition WIREGUARD_TOOLS_VERSION :: string where
  "WIREGUARD_TOOLS_VERSION = ''1.0.20210914''"

section \<open>The program\<close>

record 'w wg_env =
  wg_sys :: sys
  wg_ipc :: "'w ipc"
  wg_gai_strerror :: "gai_error \<Rightarrow> string"
  wg_color :: bool
  wg_now :: int
  wg_interfaces :: "'w \<Rightarrow> string option"
  wg_get :: "'w \<Rightarrow> string \<Rightarrow> int \<times> wgdevice option"
  wg_random :: random_sys
  wg_stack :: bytes
  wg_stdin :: string

text \<open>An outcome without its diagnostic.\<close>

fun forget :: "('e, 'a) res \<Rightarrow> (unit, 'a) res" where
  "forget (Ok x) = Ok x"
| "forget (Fail e) = Fail ()"
| "forget (Exit e) = Exit ()"
| "forget Hang = Hang"
| "forget Fault = Fault"

text \<open>The call through the function pointer: the exit status, the output and the state of the tunnel.\<close>

definition call_function :: "'w wg_env \<Rightarrow> 'w \<Rightarrow> subcommand_function \<Rightarrow> string list \<Rightarrow> (unit, int \<times> string \<times> 'w) res" where
  "call_function E w f argv =
     (case f of
        Show_main \<Rightarrow>
          res_bind (show_main (wg_sys E) (wg_gai_strerror E) (wg_color E) (wg_now E) (wg_interfaces E w) (wg_get E w) argv)
            (\<lambda>(ret, out). Ok (ret, out, w))
      | Showconf_main \<Rightarrow> (case showconf_main (wg_sys E) (wg_ipc E) w argv of (ret, out) \<Rightarrow> Ok (ret, out, w))
      | Set_main \<Rightarrow> res_bind (forget (set_main (wg_sys E) (wg_ipc E) w argv)) (\<lambda>(ret, w'). Ok (ret, [], w'))
      | Setconf_main \<Rightarrow> res_bind (forget (setconf_main (wg_sys E) (wg_ipc E) w argv)) (\<lambda>(ret, w'). Ok (ret, [], w'))
      | Genkey_main \<Rightarrow> (case genkey_main (wg_random E) (wg_stack E) argv of (ret, out) \<Rightarrow> Ok (ret, out, w))
      | Pubkey_main \<Rightarrow> res_bind (pubkey_main (wg_stdin E) argv) (\<lambda>(ret, out). Ok (ret, out, w)))"

text \<open>The loop over the table; without a match the program ends with status 1.\<close>

fun dispatch :: "'w wg_env \<Rightarrow> 'w \<Rightarrow> string list \<Rightarrow> subcommand list \<Rightarrow> (unit, int \<times> string \<times> 'w) res" where
  "dispatch E w argv [] = Ok (1, [], w)"
| "dispatch E w argv (c # cs) =
     (if argv ! 1 = subcommand c then call_function E w (sub_function c) (drop 1 argv) else dispatch E w argv cs)"

text \<open>Without any argument, the name of the program included, \<^verbatim>\<open>argv[1]\<close> is read behind the end of the
  array.\<close>

definition wg_main :: "'w wg_env \<Rightarrow> 'w \<Rightarrow> string list \<Rightarrow> (unit, int \<times> string \<times> 'w) res" where
  "wg_main E w argv =
     (if argv = [] then Fault
      else if length argv = 2 \<and> (argv ! 1 = ''-v'' \<or> argv ! 1 = ''--version'' \<or> argv ! 1 = ''version'') then
        Ok (0, ''amneziawg-tools v'' @ WIREGUARD_TOOLS_VERSION @ '' - https://amnezia.org'' @ [NL], w)
      else if length argv = 2 \<and> (argv ! 1 = ''-h'' \<or> argv ! 1 = ''--help'' \<or> argv ! 1 = ''help'') then
        Ok (0, show_usage (argv ! 0), w)
      else if length argv = 1 then call_function E w Show_main [''show'']
      else dispatch E w argv subcommands)"

section \<open>Lemmas\<close>

lemma dispatch_find:
  "dispatch E w argv cs =
     (case find (\<lambda>c. subcommand c = argv ! 1) cs of
        Some c \<Rightarrow> call_function E w (sub_function c) (drop 1 argv) | None \<Rightarrow> Ok (1, [], w))"
  by (induction cs) auto

text \<open>The arguments that \<^verbatim>\<open>main\<close> answers itself.\<close>

definition own_answers :: "string set" where
  "own_answers = {''-v'', ''--version'', ''version'', ''-h'', ''--help'', ''help''}"

lemma main_dispatches:
  assumes "s \<notin> own_answers \<or> args \<noteq> []"
  shows "wg_main E w (prog # s # args) = dispatch E w (prog # s # args) subcommands"
  using assms by (auto simp: wg_main_def own_answers_def)

text \<open>No two rows of the table have the same name, and none has that of an own answer, so every row can be reached.\<close>

lemma subcommands_distinct: "distinct (map subcommand subcommands)"
  by (simp add: subcommands_def)

lemma subcommands_own: "\<forall>c \<in> set subcommands. subcommand c \<notin> own_answers"
  by (simp add: subcommands_def own_answers_def)

lemma find_distinct: "distinct (map f cs) \<Longrightarrow> c \<in> set cs \<Longrightarrow> find (\<lambda>d. f d = f c) cs = Some c"
  by (induction cs) auto

lemma row_reached:
  assumes "c \<in> set subcommands"
  shows "wg_main E w (prog # subcommand c # args) = call_function E w (sub_function c) (subcommand c # args)"
proof -
  have "subcommand c \<notin> own_answers" using subcommands_own assms by blast
  then have "wg_main E w (prog # subcommand c # args) = dispatch E w (prog # subcommand c # args) subcommands"
    by (intro main_dispatches) blast
  then show ?thesis using find_distinct [OF subcommands_distinct assms] by (simp add: dispatch_find)
qed

end
