(* ===== verification/Quick_Regex.thy ===== *)
theory Quick_Regex
  imports Prelude
begin

text \<open>
  The regular expressions of \<^verbatim>\<open>wg-quick/android.c\<close> and what \<^verbatim>\<open>regexec\<close> answers for them.  Every one of
  them is a sequence of character classes, each with a range of repetitions, with at most one group and
  perhaps anchored at an end.  The match is the leftmost one, and each class takes as many characters as
  lets the rest match; for these expressions this is the longest match of POSIX.  Without \<^verbatim>\<open>REG_NEWLINE\<close> a
  newline is a character like any other and \<^verbatim>\<open>$\<close> matches at the end of the string only.
\<close>

section \<open>Expressions\<close>

datatype atom = Atom "char \<Rightarrow> bool" nat "nat option"

record regex =
  re_bol :: bool
  re_before :: "atom list"
  re_group :: "atom list"
  re_after :: "atom list"
  re_eol :: bool

abbreviation once :: "(char \<Rightarrow> bool) \<Rightarrow> atom" where "once P \<equiv> Atom P 1 (Some 1)"
abbreviation optional :: "(char \<Rightarrow> bool) \<Rightarrow> atom" where "optional P \<equiv> Atom P 0 (Some 1)"
abbreviation some_of :: "(char \<Rightarrow> bool) \<Rightarrow> atom" where "some_of P \<equiv> Atom P 1 None"
abbreviation any_of :: "(char \<Rightarrow> bool) \<Rightarrow> atom" where "any_of P \<equiv> Atom P 0 None"

definition literal :: "string \<Rightarrow> atom list" where
  "literal s = map (\<lambda>c. once ((=) c)) s"

section \<open>Matching\<close>

fun first_match :: "('a \<Rightarrow> 'b option) \<Rightarrow> 'a list \<Rightarrow> 'b option" where
  "first_match f [] = None"
| "first_match f (k # ks) = (case f k of Some x \<Rightarrow> Some x | None \<Rightarrow> first_match f ks)"

text \<open>The longest run of a class at the start of a string, within the bound.\<close>

definition run_len :: "(char \<Rightarrow> bool) \<Rightarrow> nat option \<Rightarrow> string \<Rightarrow> nat" where
  "run_len P hi s = (let n = length (takeWhile P s) in case hi of None \<Rightarrow> n | Some m \<Rightarrow> min m n)"

text \<open>The numbers from \<open>n\<close> down to \<open>lo\<close>.\<close>

definition counts :: "nat \<Rightarrow> nat \<Rightarrow> nat list" where
  "counts lo n = rev [lo..<Suc n]"

lemma in_counts [simp]: "k \<in> set (counts lo n) \<longleftrightarrow> lo \<le> k \<and> k \<le> n"
  by (simp only: counts_def set_rev atLeastLessThan_upt [symmetric] atLeastLessThan_iff less_Suc_eq_le)

text \<open>How many characters each class takes.\<close>

primrec match_seq :: "atom list \<Rightarrow> bool \<Rightarrow> string \<Rightarrow> nat list option" where
  "match_seq [] eol s = (if eol \<and> s \<noteq> [] then None else Some [])"
| "match_seq (a # as) eol s =
     (case a of Atom P lo hi \<Rightarrow>
        first_match (\<lambda>k. map_option ((#) k) (match_seq as eol (drop k s))) (counts lo (run_len P hi s)))"

definition match_here :: "regex \<Rightarrow> string \<Rightarrow> nat \<Rightarrow> (nat \<times> nat) option" where
  "match_here re s i =
     (case match_seq (re_before re @ re_group re @ re_after re) (re_eol re) s of
        None \<Rightarrow> None
      | Some ks \<Rightarrow>
          let so = i + sum_list (take (length (re_before re)) ks)
          in Some (so, so + sum_list (take (length (re_group re)) (drop (length (re_before re)) ks))))"

fun search_from :: "regex \<Rightarrow> string \<Rightarrow> nat \<Rightarrow> (nat \<times> nat) option" where
  "search_from re [] i = match_here re [] i"
| "search_from re (c # s) i =
     (case match_here re (c # s) i of
        Some m \<Rightarrow> Some m
      | None \<Rightarrow> if re_bol re then None else search_from re s (Suc i))"

text \<open>The bounds of the group, \<^verbatim>\<open>matches[1]\<close>.\<close>

definition regexec :: "regex \<Rightarrow> string \<Rightarrow> (nat \<times> nat) option" where
  "regexec re s = search_from re s 0"

definition group_text :: "regex \<Rightarrow> string \<Rightarrow> string option" where
  "group_text re s = map_option (\<lambda>(so, eo). take (eo - so) (drop so s)) (regexec re s)"

section \<open>What a match means\<close>

fun fits :: "atom list \<Rightarrow> bool \<Rightarrow> string \<Rightarrow> nat list \<Rightarrow> bool" where
  "fits [] eol s ks \<longleftrightarrow> ks = [] \<and> (eol \<longrightarrow> s = [])"
| "fits (Atom P lo hi # as) eol s [] \<longleftrightarrow> False"
| "fits (Atom P lo hi # as) eol s (k # ks) \<longleftrightarrow>
     lo \<le> k \<and> k \<le> length s \<and> (case hi of None \<Rightarrow> True | Some m \<Rightarrow> k \<le> m) \<and> list_all P (take k s) \<and>
     fits as eol (drop k s) ks"

lemma le_run_len:
  "k \<le> run_len P hi s \<longleftrightarrow> k \<le> length s \<and> (case hi of None \<Rightarrow> True | Some m \<Rightarrow> k \<le> m) \<and> list_all P (take k s)"
proof -
  have "k \<le> length (takeWhile P s) \<longleftrightarrow> k \<le> length s \<and> list_all P (take k s)"
  proof (induction s arbitrary: k)
    case (Cons c s)
    show ?case by (cases k) (auto simp: Cons)
  qed simp
  then show ?thesis by (auto simp: run_len_def Let_def split: option.split)
qed

lemma first_match_Some: "first_match f ks = Some x \<Longrightarrow> \<exists>k \<in> set ks. f k = Some x"
  by (induction ks) (auto split: option.splits)

lemma first_match_None: "first_match f ks = None \<longleftrightarrow> (\<forall>k \<in> set ks. f k = None)"
  by (induction ks) (auto split: option.splits)

lemma match_seq_sound: "match_seq as eol s = Some ks \<Longrightarrow> fits as eol s ks"
proof (induction as arbitrary: s ks)
  case (Cons a as)
  obtain P lo hi where a: "a = Atom P lo hi" by (cases a) auto
  from Cons.prems obtain k where k: "k \<in> set (counts lo (run_len P hi s))"
      "map_option ((#) k) (match_seq as eol (drop k s)) = Some ks"
    by (auto simp: a dest!: first_match_Some)
  then obtain ks' where "ks = k # ks'" "match_seq as eol (drop k s) = Some ks'" by auto
  with k Cons.IH le_run_len [of k P hi s] show ?case by (simp add: a)
qed (auto split: if_splits)

lemma match_seq_complete: "fits as eol s ks \<Longrightarrow> match_seq as eol s \<noteq> None"
proof (induction as eol s ks rule: fits.induct)
  case (3 P lo hi as eol s k ks)
  then have "k \<le> run_len P hi s" "lo \<le> k" by (simp_all add: le_run_len)
  moreover have "match_seq as eol (drop k s) \<noteq> None" using 3 by simp
  ultimately show ?case by (auto simp: first_match_None intro!: bexI [of _ k])
qed auto

lemma match_seq_None: "match_seq as eol s = None \<longleftrightarrow> (\<nexists>ks. fits as eol s ks)"
  using match_seq_sound match_seq_complete by (metis not_Some_eq)

lemma match_here_None:
  "match_here re s i = None \<longleftrightarrow> (\<nexists>ks. fits (re_before re @ re_group re @ re_after re) (re_eol re) s ks)"
  unfolding match_here_def match_seq_None [symmetric] by (simp add: Let_def split: option.split)

lemma search_from_None:
  "search_from re s i = None \<longleftrightarrow>
     (\<forall>n. (re_bol re \<longrightarrow> n = 0) \<and> n \<le> length s \<longrightarrow> match_here re (drop n s) 0 = None)"
proof (induction s arbitrary: i)
  case (Cons c s)
  have "(\<forall>n. (re_bol re \<longrightarrow> n = 0) \<and> n \<le> length (c # s) \<longrightarrow> match_here re (drop n (c # s)) 0 = None) \<longleftrightarrow>
      match_here re (c # s) 0 = None \<and>
      (\<not> re_bol re \<longrightarrow> (\<forall>n. n \<le> length s \<longrightarrow> match_here re (drop n s) 0 = None))" (is "?l = ?r")
  proof
    assume ?l then show ?r by (metis Suc_le_mono drop0 drop_Suc_Cons le0 length_Cons)
  next
    assume ?r then show ?l by (metis Suc_le_mono drop0 drop_Suc_Cons length_Cons not0_implies_Suc)
  qed
  moreover have "match_here re (c # s) i = None \<longleftrightarrow> match_here re (c # s) 0 = None" by (simp only: match_here_None)
  ultimately show ?case using Cons by (auto split: option.split)
qed (auto simp: match_here_None)

lemma regexec_None:
  "regexec re s = None \<longleftrightarrow>
     (\<forall>n ks. (re_bol re \<longrightarrow> n = 0) \<and> n \<le> length s \<longrightarrow>
        \<not> fits (re_before re @ re_group re @ re_after re) (re_eol re) (drop n s) ks)"
  by (simp add: regexec_def search_from_None match_here_None)

text \<open>A match is the leftmost one.\<close>

lemma search_from_Some:
  assumes "search_from re s i = Some (so, eo)"
  shows "\<exists>n ks. n \<le> length s \<and> (re_bol re \<longrightarrow> n = 0) \<and>
    fits (re_before re @ re_group re @ re_after re) (re_eol re) (drop n s) ks \<and>
    so = i + n + sum_list (take (length (re_before re)) ks) \<and>
    eo = so + sum_list (take (length (re_group re)) (drop (length (re_before re)) ks)) \<and>
    (\<forall>m < n. \<nexists>ks. fits (re_before re @ re_group re @ re_after re) (re_eol re) (drop m s) ks)"
  using assms
proof (induction s arbitrary: i)
  case Nil
  then show ?case by (auto simp: match_here_def Let_def dest: match_seq_sound split: option.splits)
next
  case (Cons c s)
  show ?case
  proof (cases "match_here re (c # s) i")
    case None
    with Cons.prems have s: "search_from re s (Suc i) = Some (so, eo)" "\<not> re_bol re" by (auto split: if_splits)
    from Cons.IH [OF s(1)] obtain n ks where n: "n \<le> length s"
        "fits (re_before re @ re_group re @ re_after re) (re_eol re) (drop n s) ks"
        "so = Suc i + n + sum_list (take (length (re_before re)) ks)"
        "eo = so + sum_list (take (length (re_group re)) (drop (length (re_before re)) ks))"
        "\<forall>m < n. \<nexists>ks. fits (re_before re @ re_group re @ re_after re) (re_eol re) (drop m s) ks" by blast
    have "\<forall>m < Suc n. \<nexists>ks. fits (re_before re @ re_group re @ re_after re) (re_eol re) (drop m (c # s)) ks"
      using n(5) None unfolding match_here_None by (auto simp: less_Suc_eq_0_disj)
    with n s(2) show ?thesis by (intro exI [of _ "Suc n"] exI [of _ ks]) simp
  next
    case (Some m)
    with Cons.prems have "match_here re (c # s) i = Some (so, eo)" by simp
    then obtain ks where "match_seq (re_before re @ re_group re @ re_after re) (re_eol re) (c # s) = Some ks"
        "so = i + sum_list (take (length (re_before re)) ks)"
        "eo = so + sum_list (take (length (re_group re)) (drop (length (re_before re)) ks))"
      by (auto simp: match_here_def Let_def split: option.splits)
    then show ?thesis by (intro exI [of _ 0] exI [of _ ks]) (simp add: match_seq_sound)
  qed
qed

lemmas regexec_Some = search_from_Some [of _ _ 0, folded regexec_def, unfolded add_0]

text \<open>A class takes a first part of the string.\<close>

lemma fits_Cons:
  "fits (Atom P lo hi # as) eol s ks \<longleftrightarrow>
     (\<exists>a b ks'. s = a @ b \<and> ks = length a # ks' \<and> lo \<le> length a \<and> (case hi of None \<Rightarrow> True | Some m \<Rightarrow> length a \<le> m) \<and>
        list_all P a \<and> fits as eol b ks')" (is "?l \<longleftrightarrow> ?r")
proof
  assume ?l
  then obtain k ks' where "ks = k # ks'" by (cases ks) auto
  with \<open>?l\<close> show ?r
    by - (rule exI [of _ "take k s"], rule exI [of _ "drop k s"], rule exI [of _ ks'], auto simp: min_def split: option.splits)
qed auto

lemma fits_once:
  "fits (once ((=) c) # as) eol s ks \<longleftrightarrow> (\<exists>s' ks'. s = c # s' \<and> ks = 1 # ks' \<and> fits as eol s' ks')"
proof -
  have one: "1 \<le> length a \<and> length a \<le> 1 \<and> list_all ((=) c) a \<longleftrightarrow> a = [c]" for a
    by (cases a) (auto simp: Suc_le_eq)
  show ?thesis unfolding fits_Cons option.case by (metis (no_types, lifting) one append_Cons append_Nil list.size(3,4) add_0 One_nat_def plus_1_eq_Suc)
qed

lemma fits_literal: "fits (literal l @ as) eol s ks \<longleftrightarrow> (\<exists>s' ks'. s = l @ s' \<and> ks = replicate (length l) 1 @ ks' \<and> fits as eol s' ks')"
proof (induction l arbitrary: s ks)
  case (Cons c l)
  have "literal (c # l) = once ((=) c) # literal l" by (simp add: literal_def)
  then show ?case by (simp only: append_Cons fits_once Cons list.size replicate.simps) auto
qed (simp add: literal_def)

lemma fits_literal_end: "fits (literal l) True s ks \<longleftrightarrow> s = l \<and> ks = replicate (length l) 1"
  using fits_literal [of l "[]" True s ks] by auto

end
