(* ===== verification/Quick_Options.thy ===== *)
theory Quick_Options
  imports Quick_Regex Setconf
begin

text \<open>
  \<^verbatim>\<open>wg-quick/android.c\<close>, the part that reads a configuration file: finding the file and the name of the
  interface, and the division of the lines into those that this program handles itself and those that it
  hands to \<^verbatim>\<open>setconf\<close>.
\<close>

section \<open>Tokens\<close>

text \<open>The tokens that the calls of \<^verbatim>\<open>strtok\<close> give one after the other.\<close>

function strtok :: "string \<Rightarrow> string \<Rightarrow> string list" where
  "strtok delim s =
     (let s = dropWhile (\<lambda>c. c \<in> set delim) s in
      if s = [] then []
      else takeWhile (\<lambda>c. c \<notin> set delim) s # strtok delim (drop 1 (dropWhile (\<lambda>c. c \<notin> set delim) s)))"
  by pat_completeness auto
termination
proof (relation "measure (length \<circ> snd)")
  fix delim s x :: string
  assume x: "x = dropWhile (\<lambda>c. c \<in> set delim) s" "x \<noteq> []"
  have "length (dropWhile (\<lambda>c. c \<notin> set delim) x) \<le> length x" "length x \<le> length s" "0 < length x"
    using x by (simp_all add: length_dropWhile_le)
  then have "length (drop 1 (dropWhile (\<lambda>c. c \<notin> set delim) x)) < length s" unfolding length_drop by linarith
  then show "((delim, drop 1 (dropWhile (\<lambda>c. c \<notin> set delim) x)), delim, s) \<in> measure (length \<circ> snd)" by simp
qed simp

declare strtok.simps [simp del]

text \<open>\<^verbatim>\<open>atoi\<close>.\<close>

definition atoi :: "string \<Rightarrow> i32" where
  "atoi s = word_of_int (fst (strtoll 10 s))"

definition concat_and_free :: "string option \<Rightarrow> string \<Rightarrow> string \<Rightarrow> string" where
  "concat_and_free orig delim new_line =
     (case orig of None \<Rightarrow> new_line | Some orig \<Rightarrow> orig @ delim @ new_line)"

section \<open>The name of the interface\<close>

definition iface_char :: "char \<Rightarrow> bool" where
  "iface_char c \<longleftrightarrow> is_c_alpha c \<or> is_c_digit c \<or> c \<in> set ''_=+.-''"

definition regex_iface :: regex where
  "regex_iface = \<lparr>re_bol = True, re_before = [], re_group = [Atom iface_char 1 (Some 15)], re_after = [], re_eol = True\<rparr>"

definition regex_conf :: regex where
  "regex_conf = \<lparr>re_bol = False, re_before = [optional ((=) (CHR ''/''))], re_group = [Atom iface_char 1 (Some 15)],
     re_after = literal ''.conf'', re_eol = True\<rparr>"

definition AWG_CONFIG_SEARCH_PATHS :: string where
  "AWG_CONFIG_SEARCH_PATHS = ''/data/misc/amneziawg /data/data/org.amnezia.awg/files''"

text \<open>A file that could be opened: its contents, and the error number of \<^verbatim>\<open>fstat\<close> or 0.\<close>

record quick_file =
  qf_contents :: string
  qf_fstat :: int

type_synonym open_file = "string \<Rightarrow> int + quick_file"

text \<open>The loop over the search paths keeps the first file that opens.\<close>

fun search_paths :: "open_file \<Rightarrow> string \<Rightarrow> int \<Rightarrow> string list \<Rightarrow> (int, string \<times> quick_file) res" where
  "search_paths op arg errno [] = Exit errno"
| "search_paths op arg errno (path # paths) =
     (let filename = path @ ''/'' @ arg @ ''.conf'' in
      case op filename of
        Inr f \<Rightarrow> Ok (filename, f)
      | Inl e \<Rightarrow> search_paths op arg e paths)"

definition find_file :: "open_file \<Rightarrow> string \<Rightarrow> (int, string \<times> quick_file) res" where
  "find_file op arg =
     (if regexec regex_iface arg \<noteq> None then search_paths op arg 0 (strtok '' '' AWG_CONFIG_SEARCH_PATHS)
      else case op arg of Inl e \<Rightarrow> Exit e | Inr f \<Rightarrow> Ok (arg, f))"

section \<open>The lines\<close>

record options =
  o_iface :: "string option"
  o_config :: "string option"
  o_mtu :: u32
  o_addrs :: "string option"
  o_dnses :: "string option"
  o_excluded :: "string option"
  o_included :: "string option"
  o_awg_on :: bool
  o_in_interface :: bool

definition strip_line :: "string \<Rightarrow> string" where
  "strip_line line = filter (\<lambda>c. \<not> is_c_space c) line"

text \<open>The settings that ask for the user-space process, each with the least length of the cleaned line.\<close>

definition awg_keys :: "(string \<times> nat) list" where
  "awg_keys =
     [(''Jc='', 5), (''Jmin='', 5), (''Jmax='', 5), (''S1='', 5), (''S2='', 5), (''S3='', 5), (''S4='', 5),
      (''H1='', 5), (''H2='', 5), (''H3='', 5), (''H4='', 5), (''I1='', 5), (''I2='', 3), (''I3='', 3),
      (''I4='', 3), (''I5='', 3)]"

definition has_key :: "string \<Rightarrow> string \<Rightarrow> bool" where
  "has_key clean key = strncaseeq (length key) clean key"

definition turns_awg_on :: "string \<Rightarrow> bool" where
  "turns_awg_on clean = list_ex (\<lambda>(key, n). has_key clean key \<and> n \<le> length clean) awg_keys"

text \<open>The settings of the interface section that this program keeps to itself; \<^term>\<open>None\<close> for every other line.\<close>

definition own_setting :: "options \<Rightarrow> string \<Rightarrow> options option" where
  "own_setting opts clean =
     (let j = length clean in
      if has_key clean ''Address='' \<and> j > 8 then
        Some (opts\<lparr>o_addrs := Some (concat_and_free (o_addrs opts) '','' (drop 8 clean))\<rparr>)
      else if has_key clean ''DNS='' \<and> j > 4 then
        Some (opts\<lparr>o_dnses := Some (concat_and_free (o_dnses opts) '','' (drop 4 clean))\<rparr>)
      else if has_key clean ''ExcludedApplications='' \<and> j > 4 then
        Some (opts\<lparr>o_excluded := Some (concat_and_free (o_excluded opts) '','' (drop 21 clean))\<rparr>)
      else if has_key clean ''IncludedApplications='' \<and> j > 4 then
        Some (opts\<lparr>o_included := Some (concat_and_free (o_included opts) '','' (drop 21 clean))\<rparr>)
      else if has_key clean ''MTU='' \<and> j > 4 then
        Some (opts\<lparr>o_mtu := atoi (drop 4 clean)\<rparr>)
      else None)"

definition parse_line :: "options \<Rightarrow> string \<Rightarrow> options" where
  "parse_line opts line =
     (let clean = strip_line line;
          opts = (if take 1 clean = ''['' then opts\<lparr>o_in_interface := False\<rparr> else opts);
          opts = (if strcaseeq clean ''[Interface]'' then opts\<lparr>o_in_interface := True\<rparr> else opts)
      in case (if o_in_interface opts then own_setting opts clean else None) of
           Some opts \<Rightarrow> opts
         | None \<Rightarrow>
             let opts = (if o_in_interface opts \<and> turns_awg_on clean then opts\<lparr>o_awg_on := True\<rparr> else opts)
             in opts\<lparr>o_config := Some (concat_and_free (o_config opts) [] line)\<rparr>)"

text \<open>The loop over the lines, and whether it has reached the end of the file; a line of more than 65536
  characters makes the function return at once.\<close>

fun parse_lines :: "options \<Rightarrow> string list \<Rightarrow> options \<times> bool" where
  "parse_lines opts [] = (opts, True)"
| "parse_lines opts (line # lines) =
     (if length line > 65536 then (opts, False) else parse_lines (parse_line opts line) lines)"

definition default_empty :: "string option \<Rightarrow> string option" where
  "default_empty s = (case s of None \<Rightarrow> Some [] | Some s \<Rightarrow> Some s)"

definition initial_options :: options where
  "initial_options = \<lparr>o_iface = None, o_config = None, o_mtu = 0, o_addrs = None, o_dnses = None,
     o_excluded = None, o_included = None, o_awg_on = False, o_in_interface = False\<rparr>"

abbreviation (input) EINVAL :: int where "EINVAL \<equiv> 22"

definition parse_options :: "open_file \<Rightarrow> string \<Rightarrow> (int, options) res" where
  "parse_options op arg =
     res_bind (find_file op arg) (\<lambda>(filename, f).
       case group_text regex_conf filename of
         None \<Rightarrow> Exit EINVAL
       | Some iface \<Rightarrow>
           if qf_fstat f \<noteq> 0 then Exit (qf_fstat f)
           else
             case parse_lines (initial_options\<lparr>o_iface := Some iface\<rparr>) (map cstr (getlines (qf_contents f))) of
               (opts, False) \<Rightarrow> Ok opts
             | (opts, True) \<Rightarrow>
                 Ok (opts\<lparr>o_iface := default_empty (o_iface opts), o_config := default_empty (o_config opts),
                   o_addrs := default_empty (o_addrs opts), o_dnses := default_empty (o_dnses opts)\<rparr>))"

section \<open>The name in the path\<close>

text \<open>The longest end of a string that has characters of a class only.\<close>

definition end_run :: "(char \<Rightarrow> bool) \<Rightarrow> string \<Rightarrow> string" where
  "end_run C stem = rev (takeWhile C (rev stem))"

lemma end_run_append: "list_all C g \<Longrightarrow> end_run C (u @ g) = end_run C u @ g"
proof -
  assume "list_all C g"
  then have "takeWhile C (rev g @ rev u) = rev g @ takeWhile C (rev u)"
    by (intro takeWhile_append2) (simp add: list_all_iff)
  then show ?thesis by (simp add: end_run_def)
qed

lemma end_run_snoc: "end_run C (u @ [c]) = (if C c then end_run C u @ [c] else [])"
  by (simp add: end_run_def)

text \<open>An expression for a name of at most fifteen characters, with an optional character before it and a
  fixed text up to the end behind it.\<close>

definition name_regex :: "char \<Rightarrow> (char \<Rightarrow> bool) \<Rightarrow> string \<Rightarrow> regex" where
  "name_regex d C l = \<lparr>re_bol = False, re_before = [optional ((=) d)], re_group = [Atom C 1 (Some 15)],
     re_after = literal l, re_eol = True\<rparr>"

lemma fits_name_regex:
  "fits (optional ((=) d) # Atom C 1 (Some 15) # literal l) True s ks \<longleftrightarrow>
   (\<exists>p name. s = p @ name @ l \<and> ks = length p # length name # replicate (length l) 1 \<and> (p = [] \<or> p = [d]) \<and>
      1 \<le> length name \<and> length name \<le> 15 \<and> list_all C name)"
proof -
  define may where "may = (\<lambda>p. p = [] \<or> p = [d])"
  have p: "0 \<le> length p \<and> length p \<le> 1 \<and> list_all ((=) d) p \<and> Q \<longleftrightarrow> may p \<and> Q" for p Q
    unfolding may_def by (cases p) auto
  have "fits (optional ((=) d) # Atom C 1 (Some 15) # literal l) True s ks \<longleftrightarrow>
    (\<exists>p name. s = p @ name @ l \<and> ks = length p # length name # replicate (length l) 1 \<and> may p \<and>
      1 \<le> length name \<and> length name \<le> 15 \<and> list_all C name)"
    unfolding fits_Cons option.case fits_literal_end p by auto
  then show ?thesis unfolding may_def .
qed

text \<open>The match is the leftmost one: a name shorter than fifteen characters is not the end of a longer one.\<close>

lemma name_regex_leftmost:
  assumes "drop n f = name @ l" "1 \<le> length name" "length name < 15" "list_all C name" "n \<le> length f"
    and no: "\<And>m ks. m < n \<Longrightarrow> \<not> fits (optional ((=) d) # Atom C 1 (Some 15) # literal l) True (drop m f) ks"
  shows "end_run C (take n f) = []"
proof (cases "take n f" rule: rev_exhaust)
  case (snoc u c)
  have f: "f = u @ (c # name) @ l" using append_take_drop_id [of n f] assms(1) snoc by simp
  have "length (take n f) = n" using assms(5) by simp
  then have n: "length u < n" by (simp add: snoc)
  have "\<not> C c"
  proof
    assume "C c"
    with assms(3,4) have "drop (length u) f = [] @ (c # name) @ l" "1 \<le> length (c # name)" "length (c # name) \<le> 15" "list_all C (c # name)"
      by (simp_all add: f)
    then have "\<exists>ks. fits (optional ((=) d) # Atom C 1 (Some 15) # literal l) True (drop (length u) f) ks"
      unfolding fits_name_regex by blast
    with no [OF n] show False by blast
  qed
  then show ?thesis by (simp add: snoc end_run_snoc)
qed (auto simp: end_run_def)

lemma name_regex_Some:
  assumes "\<not> C d" and "group_text (name_regex d C l) f = Some g"
  shows "\<exists>stem. f = stem @ l \<and> end_run C stem \<noteq> [] \<and> g = drop (length (end_run C stem) - 15) (end_run C stem)"
proof -
  let ?fits = "fits (optional ((=) d) # Atom C 1 (Some 15) # literal l) True"
  from assms obtain so eo where m: "regexec (name_regex d C l) f = Some (so, eo)" "g = take (eo - so) (drop so f)"
    by (auto simp: group_text_def)
  obtain n ks where n: "n \<le> length f" "?fits (drop n f) ks"
      "so = n + sum_list (take 1 ks)" "eo = so + sum_list (take 1 (drop 1 ks))"
      "\<forall>m < n. \<nexists>ks. ?fits (drop m f) ks"
    using regexec_Some [OF m(1)] by (auto simp: name_regex_def)
  from n(2) obtain p name where d: "drop n f = p @ name @ l" "ks = length p # length name # replicate (length l) 1"
      "p = [] \<or> p = [d]" "1 \<le> length name" "length name \<le> 15" "list_all C name"
    unfolding fits_name_regex by blast
  let ?stem = "take n f @ p @ name"
  have f: "f = ?stem @ l" using d(1) append_take_drop_id [of n f] by simp
  have "drop so f = drop (length p) (drop n f)" using n(3) d(2) by (simp add: add.commute)
  then have g: "g = name" using m(2) n(4) d(2) by (simp add: d(1))
  have run: "end_run C ?stem = end_run C (take n f @ p) @ name" using end_run_append [OF d(6), of "take n f @ p"] by simp
  have "end_run C (take n f @ p) = [] \<or> length name = 15"
    using name_regex_leftmost [of n f name l C d] n d end_run_snoc [of C "take n f" d] assms(1) by (cases "length name < 15") auto
  then have "g = drop (length (end_run C ?stem) - 15) (end_run C ?stem)" unfolding run g using d(5) by auto
  moreover have "end_run C ?stem \<noteq> []" using d(4) by (simp only: run) auto
  ultimately show ?thesis using f by blast
qed

lemma name_regex_None:
  assumes "group_text (name_regex d C l) (stem @ l) = None"
  shows "end_run C stem = []"
proof (cases stem rule: rev_exhaust)
  case (snoc u c)
  from assms have "regexec (name_regex d C l) (stem @ l) = None" by (simp add: group_text_def)
  then have "\<not> fits (optional ((=) d) # Atom C 1 (Some 15) # literal l) True (drop n (stem @ l)) ks" if "n \<le> length (stem @ l)" for n ks
    using that unfolding regexec_None by (simp add: name_regex_def del: fits.simps)
  from this [of "length u"] have no: "\<not> fits (optional ((=) d) # Atom C 1 (Some 15) # literal l) True ([] @ [c] @ l) ks" for ks
    by (simp add: snoc del: fits.simps)
  have "\<not> C c"
  proof
    assume "C c"
    then have "\<exists>ks. fits (optional ((=) d) # Atom C 1 (Some 15) # literal l) True ([] @ [c] @ l) ks"
      unfolding fits_name_regex by (intro exI conjI) (rule refl, rule refl, simp_all)
    with no show False by blast
  qed
  then show ?thesis by (simp add: snoc end_run_snoc)
qed (simp add: end_run_def)

lemma regex_conf_name: "regex_conf = name_regex (CHR ''/'') iface_char ''.conf''"
  by (simp add: regex_conf_def name_regex_def)

lemma slash_not_iface_char: "\<not> iface_char (CHR ''/'')"
  by (simp add: iface_char_def is_c_alpha_def is_c_digit_def)

lemmas conf_name_Some = name_regex_Some [of iface_char "CHR ''/''" "''.conf''", OF slash_not_iface_char, folded regex_conf_name]
lemmas conf_name_None = name_regex_None [of "CHR ''/''" iface_char "''.conf''", folded regex_conf_name]

lemma conf_name:
  "group_text regex_conf (stem @ ''.conf'') =
     (if end_run iface_char stem = [] then None
      else Some (drop (length (end_run iface_char stem) - 15) (end_run iface_char stem)))"
proof (cases "group_text regex_conf (stem @ ''.conf'')")
  case None
  then show ?thesis using conf_name_None by simp
next
  case (Some g)
  obtain stem' where s: "stem @ ''.conf'' = stem' @ ''.conf''" "end_run iface_char stem' \<noteq> []"
      "g = drop (length (end_run iface_char stem') - 15) (end_run iface_char stem')"
    using conf_name_Some [OF Some] by (elim exE conjE) assumption
  from s(1) have "stem = stem'" by (simp only: append_same_eq)
  with Some s show ?thesis by simp
qed

lemma regex_iface_iff: "regexec regex_iface s \<noteq> None \<longleftrightarrow> 1 \<le> length s \<and> length s \<le> 15 \<and> list_all iface_char s"
  unfolding regexec_None by (simp add: regex_iface_def fits_Cons del: fits.simps(2,3)) (auto intro: exI [of _ 0])

lemma list_all_end_run: "list_all C (end_run C s)"
  by (auto simp: end_run_def list_all_iff dest: set_takeWhileD)

section \<open>The division of the lines\<close>

text \<open>Whether a line and the ones behind it belong to the interface section.\<close>

definition section_after :: "bool \<Rightarrow> string \<Rightarrow> bool" where
  "section_after b clean = (if strcaseeq clean ''[Interface]'' then True else if take 1 clean = ''['' then False else b)"

text \<open>The settings with the least length of the line and the place of the value.\<close>

definition own_keys :: "(string \<times> nat \<times> nat) list" where
  "own_keys = [(''Address='', 8, 8), (''DNS='', 4, 4), (''ExcludedApplications='', 4, 21), (''IncludedApplications='', 4, 21),
     (''MTU='', 4, 4)]"

definition own_value :: "string \<Rightarrow> (string \<times> string) option" where
  "own_value clean =
     (case find (\<lambda>(key, n, _). has_key clean key \<and> n < length clean) own_keys of
        None \<Rightarrow> None | Some (key, _, i) \<Rightarrow> Some (key, drop i clean))"

text \<open>The settings of the program, and the lines for \<^verbatim>\<open>setconf\<close>, each with whether it is in the interface section.\<close>

fun divide_lines :: "bool \<Rightarrow> string list \<Rightarrow> (string \<times> string) list \<times> (bool \<times> string) list" where
  "divide_lines b [] = ([], [])"
| "divide_lines b (line # lines) =
     (let b = section_after b (strip_line line) in
      case (if b then own_value (strip_line line) else None) of
        Some kv \<Rightarrow> apfst (Cons kv) (divide_lines b lines)
      | None \<Rightarrow> apsnd (Cons (b, line)) (divide_lines b lines))"

definition values_of :: "string \<Rightarrow> (string \<times> string) list \<Rightarrow> string list" where
  "values_of key kvs = map snd (filter (\<lambda>kv. fst kv = key) kvs)"

definition joined :: "string option \<Rightarrow> string \<Rightarrow> string list \<Rightarrow> string option" where
  "joined = (\<lambda>orig delim. foldl (\<lambda>acc v. Some (concat_and_free acc delim v)) orig)"

lemma joined_simps [simp]:
  "joined orig delim [] = orig"
  "joined orig delim (v # vs) = joined (Some (concat_and_free orig delim v)) delim vs"
  by (simp_all add: joined_def)

lemma values_of_simps [simp]:
  "values_of key [] = []"
  "values_of key (kv # kvs) = (if fst kv = key then snd kv # values_of key kvs else values_of key kvs)"
  by (simp_all add: values_of_def)

text \<open>One line in terms of the division.\<close>

definition store :: "string \<times> string \<Rightarrow> options \<Rightarrow> options" where
  "store kv opts =
     (if fst kv = ''Address='' then opts\<lparr>o_addrs := Some (concat_and_free (o_addrs opts) '','' (snd kv))\<rparr>
      else if fst kv = ''DNS='' then opts\<lparr>o_dnses := Some (concat_and_free (o_dnses opts) '','' (snd kv))\<rparr>
      else if fst kv = ''ExcludedApplications='' then opts\<lparr>o_excluded := Some (concat_and_free (o_excluded opts) '','' (snd kv))\<rparr>
      else if fst kv = ''IncludedApplications='' then opts\<lparr>o_included := Some (concat_and_free (o_included opts) '','' (snd kv))\<rparr>
      else opts\<lparr>o_mtu := atoi (snd kv)\<rparr>)"

lemma store_simps:
  "store (''Address='', v) opts = opts\<lparr>o_addrs := Some (concat_and_free (o_addrs opts) '','' v)\<rparr>"
  "store (''DNS='', v) opts = opts\<lparr>o_dnses := Some (concat_and_free (o_dnses opts) '','' v)\<rparr>"
  "store (''ExcludedApplications='', v) opts = opts\<lparr>o_excluded := Some (concat_and_free (o_excluded opts) '','' v)\<rparr>"
  "store (''IncludedApplications='', v) opts = opts\<lparr>o_included := Some (concat_and_free (o_included opts) '','' v)\<rparr>"
  "store (''MTU='', v) opts = opts\<lparr>o_mtu := atoi v\<rparr>"
  by (simp_all add: store_def)

lemma own_value_if:
  "own_value clean =
     (if has_key clean ''Address='' \<and> 8 < length clean then Some (''Address='', drop 8 clean)
      else if has_key clean ''DNS='' \<and> 4 < length clean then Some (''DNS='', drop 4 clean)
      else if has_key clean ''ExcludedApplications='' \<and> 4 < length clean then Some (''ExcludedApplications='', drop 21 clean)
      else if has_key clean ''IncludedApplications='' \<and> 4 < length clean then Some (''IncludedApplications='', drop 21 clean)
      else if has_key clean ''MTU='' \<and> 4 < length clean then Some (''MTU='', drop 4 clean)
      else None)"
  by (simp add: own_value_def own_keys_def)

lemma own_setting_store: "own_setting opts clean = map_option (\<lambda>kv. store kv opts) (own_value clean)"
  by (simp add: own_setting_def own_value_if Let_def store_simps)

lemma same_section: "o_in_interface opts = b \<Longrightarrow> opts\<lparr>o_in_interface := b\<rparr> = opts"
  by (cases opts) simp

lemma section_step:
  "(let opts = (if take 1 clean = ''['' then opts\<lparr>o_in_interface := False\<rparr> else opts)
    in if strcaseeq clean ''[Interface]'' then opts\<lparr>o_in_interface := True\<rparr> else opts) =
   opts\<lparr>o_in_interface := section_after (o_in_interface opts) clean\<rparr>"
  by (simp add: section_after_def same_section Let_def)

lemma parse_line_divide:
  "parse_line opts line =
     (let b = section_after (o_in_interface opts) (strip_line line) in
      case (if b then own_value (strip_line line) else None) of
        Some kv \<Rightarrow> store kv (opts\<lparr>o_in_interface := b\<rparr>)
      | None \<Rightarrow> opts\<lparr>o_in_interface := b, o_awg_on := o_awg_on opts \<or> b \<and> turns_awg_on (strip_line line),
          o_config := Some (concat_and_free (o_config opts) [] line)\<rparr>)"
proof -
  let ?c = "strip_line line" and ?b = "section_after (o_in_interface opts) (strip_line line)"
  let ?o = "opts\<lparr>o_in_interface := ?b\<rparr>"
  have "parse_line opts line =
      (case (if o_in_interface ?o then own_setting ?o ?c else None) of
         Some opts \<Rightarrow> opts
       | None \<Rightarrow>
           let opts = (if o_in_interface ?o \<and> turns_awg_on ?c then ?o\<lparr>o_awg_on := True\<rparr> else ?o)
           in opts\<lparr>o_config := Some (concat_and_free (o_config opts) [] line)\<rparr>)"
    unfolding parse_line_def section_step [symmetric] Let_def ..
  also have "\<dots> = (case (if ?b then own_value ?c else None) of
        Some kv \<Rightarrow> store kv ?o
      | None \<Rightarrow> opts\<lparr>o_in_interface := ?b, o_awg_on := o_awg_on opts \<or> ?b \<and> turns_awg_on ?c,
          o_config := Some (concat_and_free (o_config opts) [] line)\<rparr>)"
    by (cases opts) (simp add: own_setting_store Let_def split: option.split)
  finally show ?thesis by (simp add: Let_def)
qed

lemma own_value_cases:
  assumes "own_value clean = Some kv"
  obtains v where "kv = (''Address='', v)" | v where "kv = (''DNS='', v)" | v where "kv = (''ExcludedApplications='', v)"
    | v where "kv = (''IncludedApplications='', v)" | v where "kv = (''MTU='', v)"
  using assms unfolding own_value_if by (auto split: if_splits)

definition divided :: "options \<Rightarrow> string list \<Rightarrow> options \<Rightarrow> bool" where
  "divided opts lines opts' \<longleftrightarrow>
     (case divide_lines (o_in_interface opts) lines of (kvs, kept) \<Rightarrow>
        o_iface opts' = o_iface opts \<and>
        o_config opts' = joined (o_config opts) [] (map snd kept) \<and>
        o_addrs opts' = joined (o_addrs opts) '','' (values_of ''Address='' kvs) \<and>
        o_dnses opts' = joined (o_dnses opts) '','' (values_of ''DNS='' kvs) \<and>
        o_excluded opts' = joined (o_excluded opts) '','' (values_of ''ExcludedApplications='' kvs) \<and>
        o_included opts' = joined (o_included opts) '','' (values_of ''IncludedApplications='' kvs) \<and>
        o_mtu opts' = foldl (\<lambda>_. atoi) (o_mtu opts) (values_of ''MTU='' kvs) \<and>
        o_awg_on opts' = (o_awg_on opts \<or> (\<exists>line. (True, line) \<in> set kept \<and> turns_awg_on (strip_line line))))"

lemma parse_lines_divided:
  "\<forall>line \<in> set lines. length line \<le> 65536 \<Longrightarrow> divided opts lines (fst (parse_lines opts lines)) \<and> snd (parse_lines opts lines)"
proof (induction lines arbitrary: opts)
  case (Cons line lines)
  let ?b = "section_after (o_in_interface opts) (strip_line line)"
  obtain kvs kept where d: "divide_lines ?b lines = (kvs, kept)" by fastforce
  have len: "length line \<le> 65536" and IH: "\<And>opts. divided opts lines (fst (parse_lines opts lines)) \<and> snd (parse_lines opts lines)"
    using Cons by auto
  show ?case
  proof (cases "if ?b then own_value (strip_line line) else None")
    case None
    then have "parse_line opts line = opts\<lparr>o_in_interface := ?b, o_awg_on := o_awg_on opts \<or> ?b \<and> turns_awg_on (strip_line line),
          o_config := Some (concat_and_free (o_config opts) [] line)\<rparr>"
        "divide_lines (o_in_interface opts) (line # lines) = (kvs, (?b, line) # kept)"
      by (simp_all add: parse_line_divide d Let_def)
    then show ?thesis using IH [of "parse_line opts line"] len by (auto simp: divided_def d)
  next
    case (Some kv)
    then have e: "parse_line opts line = store kv (opts\<lparr>o_in_interface := ?b\<rparr>)"
        "divide_lines (o_in_interface opts) (line # lines) = (kv # kvs, kept)"
      by (simp_all add: parse_line_divide d Let_def)
    from Some have "own_value (strip_line line) = Some kv" by (simp split: if_splits)
    then show ?thesis using IH [of "parse_line opts line"] len e
      by (cases rule: own_value_cases) (simp_all add: divided_def d store_simps)
  qed
qed (simp add: divided_def)

lemma joined_config: "joined (Some s) [] vs = Some (s @ concat vs)"
  by (induction vs arbitrary: s) (simp_all add: concat_and_free_def)

lemma default_joined_config: "default_empty (joined None [] vs) = Some (concat vs)"
  by (cases vs) (simp_all add: default_empty_def concat_and_free_def joined_config)

fun commas :: "string list \<Rightarrow> string" where
  "commas [] = []"
| "commas [v] = v"
| "commas (v # w # vs) = v @ '','' @ commas (w # vs)"

lemma commas_append: "commas ((a @ '','' @ b) # vs) = commas (a # b # vs)"
  by (cases vs) simp_all

lemma joined_commas_Some: "joined (Some s) '','' vs = Some (commas (s # vs))"
  by (induction vs arbitrary: s) (simp_all only: joined_simps concat_and_free_def option.case commas_append commas.simps)

lemma joined_commas: "joined None '','' vs = (if vs = [] then None else Some (commas vs))"
  by (cases vs) (simp_all add: concat_and_free_def joined_commas_Some)

lemma parse_line_iface: "o_iface (parse_line opts line) = o_iface opts"
  by (simp add: parse_line_divide store_def Let_def split: option.split)

lemma parse_lines_iface: "o_iface (fst (parse_lines opts lines)) = o_iface opts"
  by (induction lines arbitrary: opts) (simp_all add: parse_line_iface)

text \<open>What a successful call has found.\<close>

lemma parse_options_Ok:
  assumes "parse_options op arg = Ok opts"
  obtains filename f iface opts' complete where "find_file op arg = Ok (filename, f)" "group_text regex_conf filename = Some iface"
    "parse_lines (initial_options\<lparr>o_iface := Some iface\<rparr>) (map cstr (getlines (qf_contents f))) = (opts', complete)"
    "opts = (if complete then opts'\<lparr>o_iface := default_empty (o_iface opts'), o_config := default_empty (o_config opts'),
       o_addrs := default_empty (o_addrs opts'), o_dnses := default_empty (o_dnses opts')\<rparr> else opts')"
proof -
  from assms obtain filename f where f: "find_file op arg = Ok (filename, f)" by (auto simp: parse_options_def res_simps)
  with assms obtain iface where i: "group_text regex_conf filename = Some iface"
    by (auto simp: parse_options_def split: option.splits)
  obtain opts' complete
    where p: "parse_lines (initial_options\<lparr>o_iface := Some iface\<rparr>) (map cstr (getlines (qf_contents f))) = (opts', complete)"
    by fastforce
  show thesis using that [OF f i p] assms by (cases complete) (simp_all add: parse_options_def f i p split: if_splits)
qed

section \<open>Properties\<close>

text \<open>C35. The name of the interface is the end of the file name before \<^verbatim>\<open>.conf\<close>: at most fifteen characters, all of them
  letters, digits or among \<open>_=+.-\<close>, so that it has no meaning to the shell.  A longer name is not refused; its last
  fifteen characters are taken.\<close>

theorem interface_name_is_safe:
  assumes "parse_options op arg = Ok opts"
  shows "\<exists>stem f iface. find_file op arg = Ok (stem @ ''.conf'', f) \<and> o_iface opts = Some iface \<and>
    iface = drop (length (end_run iface_char stem) - 15) (end_run iface_char stem) \<and>
    1 \<le> length iface \<and> length iface \<le> 15 \<and> list_all iface_char iface"
  using assms
proof (cases rule: parse_options_Ok)
  case (1 filename f iface opts' complete)
  obtain stem where s: "filename = stem @ ''.conf''" "end_run iface_char stem \<noteq> []"
      "iface = drop (length (end_run iface_char stem) - 15) (end_run iface_char stem)"
    using conf_name_Some [OF 1(2)] by (elim exE conjE) assumption
  have "o_iface opts = Some iface"
    using parse_lines_iface [of "initial_options\<lparr>o_iface := Some iface\<rparr>" "map cstr (getlines (qf_contents f))"] 1(3,4)
    by (simp add: default_empty_def)
  moreover have "list_all iface_char iface"
    using list_all_end_run [of iface_char stem] unfolding s(3) list_all_iff by (meson in_set_dropD)
  moreover have "1 \<le> length iface" "length iface \<le> 15" using s(2) by (simp_all add: s(3) Suc_le_eq)
  ultimately show ?thesis using 1(1) s(3) unfolding s(1) by (intro exI conjI) assumption+
qed

definition sample_open :: open_file where
  "sample_open path = (if path = ''/a/tunnel-number-one.conf''
     then Inr \<lparr>qf_contents = ''[Interface]'' @ [NL] @ ''Address = 10.0.0.2/32'' @ [NL] @ ''Jc = 4'' @ [NL], qf_fstat = 0\<rparr> else Inl 2)"


abbreviation sample_text :: string where
  "sample_text \<equiv> ''[Interface]'' @ [NL] @ ''Address = 10.0.0.2/32'' @ [NL] @ ''Jc = 4'' @ [NL]"

lemma sample_find: "find_file sample_open ''/a/tunnel-number-one.conf'' =
  Ok (''/a/tunnel-number-one.conf'', \<lparr>qf_contents = sample_text, qf_fstat = 0\<rparr>)"
proof -
  have "regexec regex_iface ''/a/tunnel-number-one.conf'' = None" using regex_iface_iff by force
  then show ?thesis by (simp add: find_file_def sample_open_def)
qed

lemma sample_lines: "map cstr (getlines sample_text) = [''[Interface]'' @ [NL], ''Address = 10.0.0.2/32'' @ [NL], ''Jc = 4'' @ [NL]]"
  by (simp add: cstr_def)

lemma sample_parse: "parse_options sample_open ''/a/tunnel-number-one.conf'' =
  Ok (initial_options\<lparr>o_iface := Some ''nnel-number-one'', o_config := Some (''[Interface]'' @ [NL] @ ''Jc = 4'' @ [NL]),
    o_addrs := Some ''10.0.0.2/32'', o_dnses := Some [], o_in_interface := True\<rparr>)"
proof -
  have n: "group_text regex_conf ''/a/tunnel-number-one.conf'' = Some ''nnel-number-one''"
    using conf_name [of "''/a/tunnel-number-one''"]
    by (simp add: end_run_def iface_char_def is_c_alpha_def is_c_digit_def)
  have c: "strip_line (''[Interface]'' @ [NL]) = ''[Interface]''" "strip_line (''Address = 10.0.0.2/32'' @ [NL]) = ''Address=10.0.0.2/32''"
      "strip_line (''Jc = 4'' @ [NL]) = ''Jc=4''"
    by (simp_all add: strip_line_def is_c_space_def)
  have k: "own_value ''[Interface]'' = None" "own_value ''Address=10.0.0.2/32'' = Some (''Address='', ''10.0.0.2/32'')" "own_value ''Jc=4'' = None"
      "\<not> turns_awg_on ''[Interface]''" "\<not> turns_awg_on ''Jc=4''"
    by (simp_all add: own_value_if has_key_def strncaseeq_def strcaseeq_def c_tolower_def turns_awg_on_def awg_keys_def)
  have b: "section_after b ''[Interface]''" "section_after True ''Address=10.0.0.2/32''" "section_after True ''Jc=4''" for b
    by (simp_all add: section_after_def)
  show ?thesis
    by (simp only: parse_options_def sample_find res_bind.simps prod.case n option.case quick_file.simps sample_lines simp_thms if_False parse_lines.simps parse_line_divide c)
      (simp add: k b store_simps initial_options_def concat_and_free_def default_empty_def)
qed

theorem interface_name_is_safe_witness:
  "\<exists>opts. parse_options sample_open ''/a/tunnel-number-one.conf'' = Ok opts \<and> o_iface opts = Some ''nnel-number-one''"
  using interface_name_is_safe [OF sample_parse] sample_parse by (simp add: initial_options_def)

text \<open>C13. When no line is longer than 65536 characters, every line of the file goes one of two ways.  A line of the
  interface section that gives an address, a name server, applications or the MTU is kept back, and the values of
  one kind are joined by commas in their order; all other lines, unchanged and in their order, are the text for
  \<^verbatim>\<open>setconf\<close>.  The user-space process is chosen when one of these has a setting that asks for it.\<close>

theorem lines_divided:
  assumes "parse_options op arg = Ok opts" and "find_file op arg = Ok (filename, f)"
    and "\<forall>line \<in> set (map cstr (getlines (qf_contents f))). length line \<le> 65536"
  shows "case divide_lines False (map cstr (getlines (qf_contents f))) of (kvs, kept) \<Rightarrow>
    o_config opts = Some (concat (map snd kept)) \<and>
    o_addrs opts = Some (commas (values_of ''Address='' kvs)) \<and>
    o_dnses opts = Some (commas (values_of ''DNS='' kvs)) \<and>
    o_excluded opts = (if values_of ''ExcludedApplications='' kvs = [] then None else Some (commas (values_of ''ExcludedApplications='' kvs))) \<and>
    o_included opts = (if values_of ''IncludedApplications='' kvs = [] then None else Some (commas (values_of ''IncludedApplications='' kvs))) \<and>
    o_mtu opts = (if values_of ''MTU='' kvs = [] then 0 else atoi (last (values_of ''MTU='' kvs))) \<and>
    (o_awg_on opts \<longleftrightarrow> (\<exists>line. (True, line) \<in> set kept \<and> turns_awg_on (strip_line line)))"
  using assms(1)
proof (cases rule: parse_options_Ok)
  case (1 filename' f' iface opts' complete)
  with assms(2) have f: "f' = f" by simp
  note d = parse_lines_divided [OF assms(3), of "initial_options\<lparr>o_iface := Some iface\<rparr>"]
  have "foldl (\<lambda>_. atoi) m vs = (if vs = [] then m else atoi (last vs))" for m vs
    by (induction vs rule: rev_induct) simp_all
  moreover have "default_empty (joined None '','' vs) = Some (commas vs)" for vs
    by (simp add: joined_commas default_empty_def)
  ultimately show ?thesis using d 1(3,4) unfolding f
    by (simp add: divided_def initial_options_def joined_commas default_joined_config split: prod.splits)
qed

theorem lines_divided_witness:
  "\<exists>opts. parse_options sample_open ''/a/tunnel-number-one.conf'' = Ok opts \<and>
     o_config opts = Some (concat (map snd (snd (divide_lines False (map cstr (getlines sample_text))))))"
  using lines_divided [OF sample_parse sample_find] sample_parse
  unfolding quick_file.simps sample_lines by (simp split: prod.splits)

text \<open>The test on the length of a line was written for a key of four characters: a setting with a key of two
  letters and a value of one character, such as \<^verbatim>\<open>Jc = 4\<close>, does not choose the user-space process, one with two
  characters does.\<close>

theorem one_digit_settings_ignored:
  "list_all (\<lambda>key. \<not> turns_awg_on (key @ [v]) \<and> turns_awg_on (key @ [v, w]))
     [''Jc='', ''S1='', ''S2='', ''S3='', ''S4='', ''H1='', ''H2='', ''H3='', ''H4='', ''I1='']"
  by (simp add: turns_awg_on_def awg_keys_def has_key_def strncaseeq_def strcaseeq_def c_tolower_def)

end
