(* ===== verification/Quick.thy ===== *)
theory Quick
  imports Quick_Options
begin

text \<open>
  \<^verbatim>\<open>wg-quick/android.c\<close>, the part that runs commands of the system.  The state of a run is the list of what has
  been run so far with the two flags of the program; what a command answers is a function of that history, so that
  any behaviour of the system is covered.  \<^verbatim>\<open>exit\<close> anywhere ends the run with the state reached, and the handler
  that \<^verbatim>\<open>atexit\<close> has registered runs then.
\<close>

section \<open>The state and the system\<close>

text \<open>\<^verbatim>\<open>system\<close>, a call of \<^verbatim>\<open>ndc\<close> through \<^verbatim>\<open>popen\<close>, a command whose output is read, one that reads a text,
  the two calls of the resolver service, and the replacement of the process by \<^verbatim>\<open>su\<close>.\<close>

datatype event = Ran string | Ndc string | Asked string | Fed string string | Cache u32
  | Resolver u32 "string list" "string list" | Exec_su "string list"

record quick_state =
  ran :: "event list"
  is_exiting :: bool
  cleanup_iface :: "string option"

text \<open>The lines that a command writes, as C strings with their newlines, and the error number behind them, 0 at the end.\<close>

record quick_stream =
  st_lines :: "string list"
  st_errno :: int

datatype parcel_op = Prepare_transaction | Write_int32 int | Write_string_array "string list" int | Write_string string int
  | Set_data_position int | Transact nat | Read_status_header

record resolver_service =
  bi_available :: bool
  bi_service :: bool
  bi_class :: bool
  bi_associated :: bool
  bi_op :: "parcel_op list \<Rightarrow> parcel_op \<Rightarrow> int"
  bi_position :: "parcel_op list \<Rightarrow> int"
  bi_is_ok :: "parcel_op list \<Rightarrow> bool"
  bi_exception :: "parcel_op list \<Rightarrow> int"
  bi_status :: "parcel_op list \<Rightarrow> int"

record android =
  a_system :: "event list \<Rightarrow> string \<Rightarrow> int"
  a_popen :: "event list \<Rightarrow> string \<Rightarrow> int + quick_stream"
  a_popen_w :: "event list \<Rightarrow> string \<Rightarrow> int"
  a_feed :: "event list \<Rightarrow> string \<Rightarrow> string \<Rightarrow> int + int"
  a_open :: open_file
  a_random :: "nat \<Rightarrow> u32"
  a_getenv :: "string \<Rightarrow> string option"
  a_service :: resolver_service
  a_sdk :: "string option"
  a_uid :: nat
  a_exec :: int
  a_behind :: "string \<Rightarrow> string"

abbreviation (input) ESRCH :: int where "ESRCH \<equiv> 3"
abbreviation (input) EIO :: int where "EIO \<equiv> 5"
abbreviation (input) EEXIST :: int where "EEXIST \<equiv> 17"
abbreviation (input) ENOSYS :: int where "ENOSYS \<equiv> 38"
abbreviation (input) EBADR :: int where "EBADR \<equiv> 53"
abbreviation (input) ENONET :: int where "ENONET \<equiv> 64"
abbreviation (input) EMEDIUMTYPE :: int where "EMEDIUMTYPE \<equiv> 124"

section \<open>Running commands\<close>

type_synonym 'a quick = "quick_state \<Rightarrow> (int, 'a) res \<times> quick_state"

definition retq :: "'a \<Rightarrow> 'a quick" where
  "retq x = (\<lambda>s. (Ok x, s))"

definition failq :: "(int, 'a) res \<Rightarrow> 'a quick" where
  "failq r = (\<lambda>s. (r, s))"

fun bindr :: "(int, 'a) res \<times> quick_state \<Rightarrow> ('a \<Rightarrow> 'b quick) \<Rightarrow> (int, 'b) res \<times> quick_state" where
  "bindr (Ok x, s) f = f x s"
| "bindr (Fail e, s) f = (Fail e, s)"
| "bindr (Exit e, s) f = (Exit e, s)"
| "bindr (Hang, s) f = (Hang, s)"
| "bindr (Fault, s) f = (Fault, s)"

definition bindq :: "'a quick \<Rightarrow> ('a \<Rightarrow> 'b quick) \<Rightarrow> 'b quick" where
  "bindq m f = (\<lambda>s. bindr (m s) f)"

definition thenq :: "unit quick \<Rightarrow> 'b quick \<Rightarrow> 'b quick" where
  "thenq m n = bindq m (\<lambda>_. n)"

fun eachq :: "('a \<Rightarrow> unit quick) \<Rightarrow> 'a list \<Rightarrow> unit quick" where
  "eachq f [] = retq ()"
| "eachq f (x # xs) = thenq (f x) (eachq f xs)"

definition log_event :: "event \<Rightarrow> unit quick" where
  "log_event e = (\<lambda>s. (Ok (), s\<lparr>ran := ran s @ [e]\<rparr>))"

text \<open>\<^verbatim>\<open>WIFEXITED(ret) ? WEXITSTATUS(ret) : EIO\<close>.\<close>

definition wait_status :: "int \<Rightarrow> int" where
  "wait_status st = (if st mod 128 = 0 then st div 256 mod 256 else EIO)"

definition cmd :: "android \<Rightarrow> string \<Rightarrow> unit quick" where
  "cmd A c = (\<lambda>s.
     let st = a_system A (ran s) c;
         ret = (if st < 0 then ESRCH else if st > 0 then wait_status st else 0);
         s = s\<lparr>ran := ran s @ [Ran c]\<rparr>
     in if ret \<noteq> 0 \<and> \<not> is_exiting s then (Exit ret, s) else (Ok (), s))"

text \<open>\<^verbatim>\<open>popen\<close> of \<^verbatim>\<open>vcmd_ret\<close>.\<close>

definition ask :: "android \<Rightarrow> event \<Rightarrow> string \<Rightarrow> quick_stream quick" where
  "ask A e c = (\<lambda>s.
     case a_popen A (ran s) c of
       Inl errno \<Rightarrow> (Exit errno, s\<lparr>ran := ran s @ [e]\<rparr>)
     | Inr st \<Rightarrow> (Ok st, s\<lparr>ran := ran s @ [e]\<rparr>))"

text \<open>\<^verbatim>\<open>getline\<close> of \<^verbatim>\<open>vcmd_ret\<close>: the next line and what is left, or the end.\<close>

definition next_line :: "quick_stream \<Rightarrow> (string \<times> quick_stream) option quick" where
  "next_line st =
     (case st_lines st of
        l # ls \<Rightarrow> retq (Some (l, st\<lparr>st_lines := ls\<rparr>))
      | [] \<Rightarrow> if st_errno st \<noteq> 0 then failq (Exit (st_errno st)) else retq None)"

text \<open>The first line of the output of a command.\<close>

definition cmd_ret :: "android \<Rightarrow> string \<Rightarrow> string option quick" where
  "cmd_ret A c =
     bindq (ask A (Asked c) c) (\<lambda>st. bindq (next_line st) (\<lambda>r. retq (map_option fst r)))"

text \<open>The loop that reads the output of a command line by line; the body can end it.\<close>

fun stream_loop :: "('s \<Rightarrow> string \<Rightarrow> ('s \<times> bool) quick) \<Rightarrow> 's \<Rightarrow> string list \<Rightarrow> int \<Rightarrow> 's quick" where
  "stream_loop body x [] errno = (if errno \<noteq> 0 then failq (Exit errno) else retq x)"
| "stream_loop body x (l # ls) errno =
     bindq (body x l) (\<lambda>(x, stop). if stop then retq x else stream_loop body x ls errno)"

definition for_lines :: "android \<Rightarrow> string \<Rightarrow> ('s \<Rightarrow> string \<Rightarrow> ('s \<times> bool) quick) \<Rightarrow> 's \<Rightarrow> 's quick" where
  "for_lines A c body x = bindq (ask A (Asked c) c) (\<lambda>st. stream_loop body x (st_lines st) (st_errno st))"

definition cndc :: "android \<Rightarrow> string \<Rightarrow> unit quick" where
  "cndc A c =
     (let c = ''ndc '' @ c in
      bindq (ask A (Ndc c) c) (\<lambda>st. bindq (next_line st) (\<lambda>r.
        case r of
          None \<Rightarrow> failq (Exit ENOSYS)
        | Some (l, _) \<Rightarrow>
            if 400 \<le> sint (atoi l) \<and> sint (atoi l) < 600 then failq (Exit ENONET) else retq ())))"

section \<open>Removing an interface\<close>

text \<open>An interface name inside an expression: a dot stands for any character, a plus sign repeats the character
  before it, two of them are refused by \<^verbatim>\<open>regcomp\<close>.  The atoms before the name are given in reverse.\<close>

fun name_atoms :: "atom list \<Rightarrow> string \<Rightarrow> atom list option" where
  "name_atoms acc [] = Some (rev acc)"
| "name_atoms acc (c # cs) =
     (if c = CHR ''.'' then name_atoms (once (\<lambda>_. True) # acc) cs
      else if c = CHR ''+'' then
        (case acc of
           Atom P lo hi # acc \<Rightarrow> if lo = 1 \<and> hi = Some 1 then name_atoms (some_of P # acc) cs else None
         | _ \<Rightarrow> None)
      else name_atoms (once ((=) c) # acc) cs)"

definition hex_low :: "char \<Rightarrow> bool" where
  "hex_low c \<longleftrightarrow> is_c_digit c \<or> c \<in> set ''abcdef''"

definition rule_regex :: "string \<Rightarrow> regex option" where
  "rule_regex iface =
     map_option (\<lambda>after. \<lparr>re_bol = False, re_before = literal ''0xc'', re_group = [some_of hex_low],
         re_after = after, re_eol = False\<rparr>)
       (name_atoms (rev (literal ''/0xcffff lookup '')) iface)"

definition iptables_regex :: "string \<Rightarrow> regex option" where
  "iptables_regex iface =
     map_option (\<lambda>name. \<lparr>re_bol = True, re_before = literal ''-A '',
         re_group = any_of (\<lambda>_. True) # name @ literal [CHR 0x22] @ [any_of (\<lambda>c. c \<noteq> NL)],
         re_after = [any_of ((=) NL)], re_eol = True\<rparr>)
       (name_atoms (rev (literal ('' --comment '' @ [CHR 0x22] @ ''amneziawg rule ''))) iface)"

definition xregcomp :: "regex option \<Rightarrow> regex quick" where
  "xregcomp re = (case re of None \<Rightarrow> failq (Exit EBADR) | Some re \<Rightarrow> retq re)"

definition delete_rule :: "android \<Rightarrow> string \<Rightarrow> regex \<Rightarrow> unit \<Rightarrow> string \<Rightarrow> (unit \<times> bool) quick" where
  "delete_rule A tool re _ rule =
     (case group_text re rule of
        None \<Rightarrow> retq ((), False)
      | Some r \<Rightarrow> bindq (cmd A (tool @ '' -D '' @ r)) (\<lambda>_. retq ((), False)))"

definition find_netid :: "regex \<Rightarrow> string option \<Rightarrow> string \<Rightarrow> (string option \<times> bool) quick" where
  "find_netid re netid rule =
     (case group_text re rule of None \<Rightarrow> retq (netid, False) | Some n \<Rightarrow> retq (Some n, True))"

definition del_if :: "android \<Rightarrow> string \<Rightarrow> unit quick" where
  "del_if A iface =
     bindq (xregcomp (rule_regex iface)) (\<lambda>rule_reg.
     bindq (xregcomp (iptables_regex iface)) (\<lambda>iptables_reg.
     thenq (cmd A (''ip link del '' @ iface))
     (thenq (for_lines A ''iptables-save'' (delete_rule A ''iptables'' iptables_reg) ())
     (thenq (for_lines A ''ip6tables-save'' (delete_rule A ''ip6tables'' iptables_reg) ())
     (bindq (for_lines A ''ip rule show'' (find_netid rule_reg) None) (\<lambda>netid.
        case netid of
          None \<Rightarrow> retq ()
        | Some n \<Rightarrow> cndc A (''network destroy '' @ udec (fst (strtoul 16 n)))))))))"

section \<open>Adding an interface\<close>

definition add_if :: "android \<Rightarrow> bool \<Rightarrow> string \<Rightarrow> unit quick" where
  "add_if A is_awg_on iface =
     (if is_awg_on then cmd A (''amneziawg-go '' @ iface)
      else cmd A (''ip link add '' @ iface @ '' type amneziawg''))"

text \<open>\<^term>\<open>a_popen_w\<close> gives the error number with which the command cannot be started, or 0; \<^term>\<open>a_feed\<close> the error number of
  writing the text, or the status of the command.  Writing from a null pointer is a fault, with the command started.\<close>

definition set_config :: "android \<Rightarrow> string \<Rightarrow> string option \<Rightarrow> unit quick" where
  "set_config A iface config = (\<lambda>s.
     let c = ''awg setconf '' @ iface @ '' /proc/self/fd/0'';
         errno = a_popen_w A (ran s) c
     in if errno \<noteq> 0 then (Exit errno, s\<lparr>ran := ran s @ [Fed c []]\<rparr>)
        else case config of
          None \<Rightarrow> (Fault, s\<lparr>ran := ran s @ [Fed c []]\<rparr>)
        | Some config \<Rightarrow>
            let s' = s\<lparr>ran := ran s @ [Fed c config]\<rparr> in
            case a_feed A (ran s) c config of
              Inl errno \<Rightarrow> (Exit errno, s')
            | Inr ret \<Rightarrow> if ret \<noteq> 0 then (Exit (wait_status ret), s') else (Ok (), s'))"

text \<open>The two flags of the loop: whether there is an IPv6 endpoint, and whether all endpoints are missing.\<close>

definition endpoint_flags :: "bool \<times> bool \<Rightarrow> string \<Rightarrow> ((bool \<times> bool) \<times> bool) quick" where
  "endpoint_flags flags l =
     (case strchr l (CHR 0x09) of
        None \<Rightarrow> retq (flags, False)
      | Some i \<Rightarrow>
          let start = drop (Suc i) l;
              has_all_none = (if take 1 start \<noteq> ''('' then False else snd flags);
              has_ipv6 = (if take 1 start = ''['' then True else fst flags)
          in retq ((has_ipv6, has_all_none), False))"

definition should_block_ipv6 :: "android \<Rightarrow> string \<Rightarrow> bool quick" where
  "should_block_ipv6 A iface =
     bindq (for_lines A (''awg show '' @ iface @ '' endpoints'') endpoint_flags (False, True))
       (\<lambda>(has_ipv6, has_all_none). retq (\<not> has_ipv6 \<and> \<not> has_all_none))"

definition determine_listen_port :: "android \<Rightarrow> string \<Rightarrow> u16 quick" where
  "determine_listen_port A iface =
     thenq (cmd A (''ip link set up dev '' @ iface))
     (bindq (cmd_ret A (''awg show '' @ iface @ '' listen-port'')) (\<lambda>v.
        let port = (case v of None \<Rightarrow> 0 | Some v \<Rightarrow> fst (strtoul 10 v));
            port = (if port > 65535 \<or> port = 0 then 0 else port)
        in thenq (cmd A (''ip link set down dev '' @ iface)) (retq (of_nat port))))"

text \<open>The random numbers are taken from number \<open>i\<close> on until one is large enough, which may never happen.\<close>

partial_function (option) pick_netid :: "(nat \<Rightarrow> u32) \<Rightarrow> nat \<Rightarrow> u32 option" where
  "pick_netid random i =
     (let netid = random i AND 0xfffe in if netid < 4096 then pick_netid random (Suc i) else Some netid)"

definition sdk_version :: "android \<Rightarrow> u32" where
  "sdk_version A = (case a_sdk A of None \<Rightarrow> 0 | Some prop \<Rightarrow> atoi prop)"

definition rule_comment :: "string \<Rightarrow> string" where
  "rule_comment iface = '' -m comment --comment '' @ [CHR 0x22] @ ''amneziawg rule '' @ iface @ [CHR 0x22]"

definition up_if :: "android \<Rightarrow> string \<Rightarrow> u16 \<Rightarrow> u32 quick" where
  "up_if A iface port =
     (case pick_netid (a_random A) 0 of
        None \<Rightarrow> failq Hang
      | Some netid \<Rightarrow>
          thenq (cmd A (''awg set '' @ iface @ '' fwmark 0x20000''))
          (thenq (cmd A (''iptables -I OUTPUT 1 -m mark --mark 0x20000 -j ACCEPT'' @ rule_comment iface))
          (thenq (cmd A (''ip6tables -I OUTPUT 1 -m mark --mark 0x20000 -j ACCEPT'' @ rule_comment iface))
          (thenq
            (if port \<noteq> 0 then
               thenq (cmd A (''iptables -I INPUT 1 -p udp --dport '' @ udec (unat port) @ '' -j ACCEPT'' @ rule_comment iface))
               (bindq (should_block_ipv6 A iface) (\<lambda>block.
                  cmd A (''ip6tables -I INPUT 1 -p udp --dport '' @ udec (unat port) @ '' -j '' @
                    (if block then ''DROP'' else ''ACCEPT'') @ rule_comment iface)))
             else retq ())
          (thenq (cmd A (''ip link set up dev '' @ iface))
          (thenq (cndc A (if sdk_version A < 31 then ''network create '' @ udec (unat netid) @ '' vpn 1 1''
                          else ''network create '' @ udec (unat netid) @ '' vpn 1''))
          (thenq (cndc A (''network interface add '' @ udec (unat netid) @ '' '' @ iface)) (retq netid))))))))"

section \<open>The users of the network\<close>

text \<open>
  A pointer into a string is what can be read from it on: the string, its zero, and the memory behind it,
  which the argument \<^term>\<open>a_behind\<close> gives for every allocated string; the end of the list is where reading is no longer
  possible.  The part before the next comma or zero:
\<close>

definition upto_comma :: "string \<Rightarrow> string" where
  "upto_comma b = takeWhile (\<lambda>c. c \<noteq> CHR '','' \<and> c \<noteq> NUL) b"

lemma upto_comma_shorter: "length (upto_comma b) \<noteq> length b \<Longrightarrow> length (drop (Suc (length (upto_comma b))) b) < length b"
  using length_takeWhile_le [of "\<lambda>c. c \<noteq> CHR '','' \<and> c \<noteq> NUL" b] by (simp add: upto_comma_def)

text \<open>The first loop counts the commas; \<^verbatim>\<open>strchr\<close> stops at the zero.\<close>

function count_commas :: "string \<Rightarrow> (int, nat) res" where
  "count_commas b =
     (let t = upto_comma b in
      if length t = length b then Fault
      else if b ! length t = NUL then Ok 0
      else res_bind (count_commas (drop (Suc (length t)) b)) (\<lambda>n. Ok (Suc n)))"
  by pat_completeness auto
termination by (relation "measure length") (simp_all add: upto_comma_shorter del: length_drop)

text \<open>The inner loop over the selected applications.  It ends when a token starts with the zero: behind the last token
  it looks at what follows the zero of the string.\<close>

function selected :: "string \<Rightarrow> (int, string list) res" where
  "selected b =
     (let t = upto_comma b in
      if length t = length b then Fault
      else if b ! 0 = NUL then Ok []
      else res_bind (selected (drop (Suc (length t)) b)) (\<lambda>ts. Ok (t # ts)))"
  by pat_completeness auto
termination by (relation "measure length") (simp_all add: upto_comma_shorter del: length_drop)

declare count_commas.simps [simp del] selected.simps [simp del]

text \<open>A line of the package list: the name and the user, which is cut to 32 bits.\<close>

definition package_line :: "string \<Rightarrow> (string \<times> u32) option" where
  "package_line line =
     (case strchr line (CHR '' '') of
        None \<Rightarrow> None
      | Some i \<Rightarrow>
          let package_uid_str = takeWhile (\<lambda>c. c \<noteq> CHR '' '') (drop (Suc i) line);
              (uid, endptr) = strtoul 10 package_uid_str
          in if (of_nat uid :: u32) = 0 \<or> package_uid_str = [] \<or> endptr \<noteq> [] then None
             else Some (take i line, of_nat uid))"

text \<open>The entries for one line; the array has \<open>room\<close> places.\<close>

definition add_uids :: "string \<Rightarrow> nat \<Rightarrow> u32 list \<Rightarrow> string \<times> u32 \<Rightarrow> (int, u32 list) res" where
  "add_uids block room uids = (\<lambda>(name, uid).
     res_bind (selected block) (\<lambda>ts.
       let new = map (\<lambda>_. uid) (filter (\<lambda>t. t \<noteq> [] \<and> name = t) ts) in
       if length uids + length new \<le> room then Ok (uids @ new) else Fault))"

definition compare_uid :: "u32 \<Rightarrow> u32 \<Rightarrow> int" where
  "compare_uid a b = sint (a - b)"

text \<open>The array ends with a zero that is still inside it.\<close>

definition get_uid_list :: "android \<Rightarrow> string option \<Rightarrow> (int, u32 list) res" where
  "get_uid_list A selected_applications =
     (case selected_applications of
        None \<Rightarrow> Ok []
      | Some apps \<Rightarrow>
          let block = apps @ [NUL] @ a_behind A apps in
          res_bind (count_commas (drop 1 block)) (\<lambda>n.
            case a_open A ''/data/system/packages.list'' of
              Inl e \<Rightarrow> Exit e
            | Inr f \<Rightarrow>
                res_bind (res_fold (add_uids block (n + 2)) []
                    (List.map_filter package_line (map cstr (getlines (qf_contents f)))))
                  (\<lambda>uids. if length uids < n + 2 then Ok (qsort compare_uid uids) else Fault)))"

definition print_range :: "u32 \<Rightarrow> u32 \<Rightarrow> string" where
  "print_range a b = (if a = b then udec (unat a) else udec (unat a) @ ''-'' @ udec (unat b))"

text \<open>The collected ranges are handed over when there are eighteen of them.\<close>

definition flush_users :: "android \<Rightarrow> u32 \<Rightarrow> nat \<Rightarrow> string option \<Rightarrow> string option quick" where
  "flush_users A netid args ranges =
     (if args mod 18 = 0
      then thenq (cndc A (''network users add '' @ udec (unat netid) @ '' '' @ (case ranges of None \<Rightarrow> [] | Some r \<Rightarrow> r))) (retq None)
      else retq ranges)"

fun exclude_loop :: "android \<Rightarrow> u32 \<Rightarrow> u32 list \<Rightarrow> u32 \<Rightarrow> nat \<Rightarrow> string option \<Rightarrow> (u32 \<times> string option) quick" where
  "exclude_loop A netid [] start args ranges = retq (start, ranges)"
| "exclude_loop A netid (uid # uids) start args ranges =
     (if start > uid - 1 then exclude_loop A netid uids (uid + 1) args ranges
      else
        bindq (flush_users A netid (Suc args) (Some (concat_and_free ranges '' '' (print_range start (uid - 1)))))
          (exclude_loop A netid uids (uid + 1) (Suc args)))"

fun include_loop :: "android \<Rightarrow> u32 \<Rightarrow> u32 list \<Rightarrow> nat \<Rightarrow> string option \<Rightarrow> string option quick" where
  "include_loop A netid [] args ranges = retq ranges"
| "include_loop A netid (uid # uids) args ranges =
     bindq (flush_users A netid (Suc args) (Some (concat_and_free ranges '' '' (udec (unat uid)))))
       (include_loop A netid uids (Suc args))"

definition add_users :: "android \<Rightarrow> u32 \<Rightarrow> string option \<Rightarrow> unit quick" where
  "add_users A netid ranges =
     (case ranges of None \<Rightarrow> retq () | Some r \<Rightarrow> cndc A (''network users add '' @ udec (unat netid) @ '' '' @ r))"

definition set_users :: "android \<Rightarrow> u32 \<Rightarrow> string option \<Rightarrow> string option \<Rightarrow> unit quick" where
  "set_users A netid excluded included =
     (if excluded \<noteq> None \<and> included \<noteq> None then failq (Exit EEXIST)
      else if excluded \<noteq> None \<or> included = None then
        bindq (failq (get_uid_list A excluded)) (\<lambda>uids.
        bindq (exclude_loop A netid uids 0 0 None) (\<lambda>(start, ranges).
          add_users A netid
            (if start < 99999 then Some (concat_and_free ranges '' '' (udec (unat start) @ ''-99999'')) else ranges)))
      else
        bindq (failq (get_uid_list A included)) (\<lambda>uids.
        bindq (include_loop A netid uids 0 None) (add_users A netid)))"

section \<open>The resolver service\<close>

text \<open>Operations on a parcel up to the first that fails, with the operations made so far.\<close>

fun run_ops :: "resolver_service \<Rightarrow> parcel_op list \<Rightarrow> parcel_op list \<Rightarrow> int \<times> parcel_op list" where
  "run_ops B hist [] = (0, hist)"
| "run_ops B hist (op # ops) =
     (let status = bi_op B hist op in
      if status \<noteq> 0 then (status, hist @ [op]) else run_ops B (hist @ [op]) ops)"

definition meaningful_binder_status :: "resolver_service \<Rightarrow> parcel_op list \<Rightarrow> int" where
  "meaningful_binder_status B hist =
     (if \<not> bi_is_ok B hist
      then (if bi_exception B hist = - 129 then bi_status B hist else - 2147483648 + 2) else 0)"

definition dnsresolver_get_handle :: "android \<Rightarrow> resolver_service option" where
  "dnsresolver_get_handle A =
     (let B = a_service A in
      if bi_available B \<and> bi_service B \<and> bi_class B \<and> bi_associated B then Some B else None)"

definition dnsresolver_create_network_cache :: "resolver_service \<Rightarrow> int \<Rightarrow> int" where
  "dnsresolver_create_network_cache B netid =
     (case run_ops B [] [Prepare_transaction, Write_int32 netid, Transact (1 + 7), Read_status_header] of
        (status, hist) \<Rightarrow>
          if status \<noteq> 0 then status else if \<not> bi_is_ok B hist then meaningful_binder_status B hist else 0)"

record dnsresolver_params =
  p_netid :: int
  p_sample_validity_seconds :: int
  p_success_threshold :: int
  p_min_samples :: int
  p_max_samples :: int
  p_base_timeout_msec :: int
  p_retry_count :: int
  p_servers :: "string list"
  p_domains :: "string list"
  p_tls_name :: string
  p_tls_servers :: "string list"
  p_tls_fingerprints :: "string list"

definition write_strings :: "string list \<Rightarrow> parcel_op" where
  "write_strings ss = Write_string_array ss (int (length ss))"

text \<open>The length of the structure is written before it once it is known.\<close>

definition dnsresolver_set_resolver_configuration :: "resolver_service \<Rightarrow> dnsresolver_params \<Rightarrow> int" where
  "dnsresolver_set_resolver_configuration B p =
     (case run_ops B [] [Prepare_transaction, Write_int32 1] of (status, hist) \<Rightarrow>
      if status \<noteq> 0 then status else
      let start_position = bi_position B hist in
      case run_ops B hist
          [Write_int32 0, Write_int32 (p_netid p), Write_int32 (p_sample_validity_seconds p),
           Write_int32 (p_success_threshold p), Write_int32 (p_min_samples p), Write_int32 (p_max_samples p),
           Write_int32 (p_base_timeout_msec p), Write_int32 (p_retry_count p),
           write_strings (p_servers p), write_strings (p_domains p),
           Write_string (p_tls_name p) (int (length (p_tls_name p))),
           write_strings (p_tls_servers p), write_strings (p_tls_fingerprints p)] of (status, hist) \<Rightarrow>
      if status \<noteq> 0 then status else
      let end_position = bi_position B hist in
      case run_ops B hist
          [Set_data_position start_position, Write_int32 (end_position - start_position), Set_data_position end_position,
           Transact (1 + 2), Read_status_header] of (status, hist) \<Rightarrow>
      if status \<noteq> 0 then status else meaningful_binder_status B hist)"

section \<open>Name servers and addresses\<close>

abbreviation (input) list_delims :: string where "list_delims \<equiv> '', '' @ [CHR 0x09, NL]"

definition has_quote :: "string \<Rightarrow> bool" where
  "has_quote s \<longleftrightarrow> CHR 0x27 \<in> set s \<or> CHR 0x5C \<in> set s"

definition regex_digits :: regex where
  "regex_digits = \<lparr>re_bol = True, re_before = [some_of (\<lambda>c. is_c_digit c \<or> c = CHR ''.'')], re_group = [], re_after = [], re_eol = True\<rparr>"

definition regex_colon :: regex where
  "regex_colon = \<lparr>re_bol = True, re_before = [any_of (\<lambda>_. True), once ((=) (CHR '':'')), any_of (\<lambda>_. True)], re_group = [],
     re_after = [], re_eol = True\<rparr>"

text \<open>The two alternatives of the expression \<^verbatim>\<open>regex_ipnothost\<close>.\<close>

definition is_ip :: "string \<Rightarrow> bool" where
  "is_ip dns \<longleftrightarrow> regexec regex_digits dns \<noteq> None \<or> regexec regex_colon dns \<noteq> None"

text \<open>The loop that builds the list of arguments for the shell: \<^verbatim>\<open>snprintf\<close> into a buffer keeps \<open>len + 2\<close> characters of each,
  \<^verbatim>\<open>strncat\<close> appends at most \<open>4 * len - 1\<close>.\<close>

definition shell_arglist :: "nat \<Rightarrow> string list \<Rightarrow> string" where
  "shell_arglist len dnses =
     foldl (\<lambda>acc dns. acc @ take (len * 4 - 1) (take (len + 2) ([CHR 0x27] @ dns @ [CHR 0x27] @ '' ''))) [] dnses"

definition set_dnses :: "android \<Rightarrow> u32 \<Rightarrow> string option \<Rightarrow> unit quick" where
  "set_dnses A netid dnses =
     (case dnses of
        None \<Rightarrow> failq Fault
      | Some dnses \<Rightarrow>
          let len = length dnses;
              tokens = filter (\<lambda>dns. \<not> has_quote dns) (strtok list_delims dnses);
              dns_list = filter is_ip tokens;
              dns_search_list = filter (\<lambda>dns. \<not> is_ip dns) tokens
          in
          if len > 65536 \<or> len = 0 \<or> dns_list = [] then retq ()
          else case dnsresolver_get_handle A of
            Some handle \<Rightarrow>
              thenq (log_event (Cache netid))
              (if dnsresolver_create_network_cache handle (sint netid) \<noteq> 0 then failq (Exit ENONET)
               else
                 let params = \<lparr>p_netid = sint netid, p_sample_validity_seconds = 1800, p_success_threshold = 25,
                       p_min_samples = 8, p_max_samples = 8, p_base_timeout_msec = 5000, p_retry_count = 2,
                       p_servers = dns_list, p_domains = dns_search_list, p_tls_name = [], p_tls_servers = [],
                       p_tls_fingerprints = []\<rparr>
                 in thenq (log_event (Resolver netid dns_list dns_search_list))
                    (if dnsresolver_set_resolver_configuration handle params \<noteq> 0 then failq (Exit ENONET) else retq ()))
          | None \<Rightarrow>
              cndc A (''resolver setnetdns '' @ udec (unat netid) @ '' '' @ [CHR 0x27] @ shell_arglist len dns_search_list @
                [CHR 0x27] @ '' '' @ shell_arglist len dns_list))"

definition add_addr :: "android \<Rightarrow> string \<Rightarrow> string \<Rightarrow> unit quick" where
  "add_addr A iface addr =
     (if CHR '':'' \<in> set addr then
        thenq (cndc A (''interface ipv6 '' @ iface @ '' enable''))
          (cmd A (''ip -6 addr add '' @ [CHR 0x27] @ addr @ [CHR 0x27] @ '' dev '' @ iface))
      else
        let (mut_addr, mask) =
          (case strchr addr (CHR ''/'') of
             None \<Rightarrow> (addr, 32)
           | Some i \<Rightarrow> (take i addr, ucast (atoi (drop (Suc i) addr)) :: u8))
        in cndc A (''interface setcfg '' @ iface @ '' '' @ [CHR 0x27] @ mut_addr @ [CHR 0x27] @ '' '' @ udec (unat mask)))"

definition set_addr :: "android \<Rightarrow> string \<Rightarrow> string option \<Rightarrow> unit quick" where
  "set_addr A iface addrs =
     (case addrs of
        None \<Rightarrow> failq Fault
      | Some addrs \<Rightarrow> eachq (add_addr A iface) (filter (\<lambda>a. \<not> has_quote a) (strtok list_delims addrs)))"

section \<open>The MTU and the routes\<close>

definition regex_mtu :: regex where
  "regex_mtu = \<lparr>re_bol = False, re_before = literal ''mtu '', re_group = [some_of is_c_digit], re_after = [], re_eol = False\<rparr>"

definition regex_dev :: regex where
  "regex_dev = \<lparr>re_bol = False, re_before = literal ''dev '', re_group = [some_of (\<lambda>c. c \<noteq> CHR '' '')], re_after = [], re_eol = False\<rparr>"

definition endpoint_char :: "char \<Rightarrow> bool" where
  "endpoint_char c \<longleftrightarrow> (let n = (of_char c :: nat) in 97 \<le> n \<and> n \<le> 122) \<or> is_c_digit c \<or> c = CHR '':'' \<or> c = CHR ''.''"

definition regex_endpoint :: regex where
  "regex_endpoint = \<lparr>re_bol = True, re_before = [optional ((=) (CHR ''['' ))], re_group = [some_of endpoint_char],
     re_after = [optional ((=) (CHR '']'')), once ((=) (CHR '':'')), some_of is_c_digit], re_eol = True\<rparr>"

definition get_route_mtu :: "android \<Rightarrow> string \<Rightarrow> int quick" where
  "get_route_mtu A dest =
     bindq (cmd_ret A (if dest \<noteq> ''default'' then ''ip -o route get '' @ dest else ''ip -o route show '' @ dest)) (\<lambda>r.
       case r of
         None \<Rightarrow> retq (- 1)
       | Some route \<Rightarrow>
           (case group_text regex_mtu route of
              Some mtu \<Rightarrow> retq (sint (atoi mtu))
            | None \<Rightarrow>
                (case group_text regex_dev route of
                   None \<Rightarrow> retq (- 1)
                 | Some dev \<Rightarrow>
                     bindq (cmd_ret A (''ip -o link show dev '' @ dev)) (\<lambda>r.
                       retq (case r of
                               None \<Rightarrow> - 1
                             | Some route \<Rightarrow>
                                 (case group_text regex_mtu route of None \<Rightarrow> - 1 | Some mtu \<Rightarrow> sint (atoi mtu)))))))"

text \<open>\<^verbatim>\<open>%d\<close>.\<close>

definition sdec :: "int \<Rightarrow> string" where
  "sdec i = (if i < 0 then ''-'' @ udec (nat (- i)) else udec (nat i))"

definition endpoint_mtu :: "android \<Rightarrow> int \<Rightarrow> string \<Rightarrow> (int \<times> bool) quick" where
  "endpoint_mtu A mtu line =
     (case group_text regex_endpoint line of
        None \<Rightarrow> retq (mtu, False)
      | Some dest \<Rightarrow>
          bindq (get_route_mtu A dest) (\<lambda>next_mtu.
            retq (if 0 < next_mtu \<and> next_mtu < mtu then next_mtu else mtu, False)))"

definition set_mtu :: "android \<Rightarrow> string \<Rightarrow> u32 \<Rightarrow> unit quick" where
  "set_mtu A iface mtu =
     (if mtu \<noteq> 0 then cndc A (''interface setmtu '' @ iface @ '' '' @ udec (unat mtu))
      else
        bindq (get_route_mtu A ''default'') (\<lambda>m.
        bindq (for_lines A (''awg show '' @ iface @ '' endpoints'') (endpoint_mtu A) (if m = - 1 then 1500 else m)) (\<lambda>m.
          cndc A (''interface setmtu '' @ iface @ '' '' @ sdec (m - 80)))))"

definition add_route :: "android \<Rightarrow> string \<Rightarrow> u32 \<Rightarrow> string \<Rightarrow> unit quick" where
  "add_route A iface netid route = cndc A (''network route add '' @ udec (unat netid) @ '' '' @ iface @ '' '' @ route)"

definition route_line :: "android \<Rightarrow> string \<Rightarrow> u32 \<Rightarrow> unit \<Rightarrow> string \<Rightarrow> (unit \<times> bool) quick" where
  "route_line A iface netid _ allowedips =
     (case strchr allowedips (CHR 0x09) of
        None \<Rightarrow> retq ((), False)
      | Some i \<Rightarrow>
          bindq (eachq (add_route A iface netid)
              (filter (\<lambda>ip. ip \<noteq> ''(none)'') (strtok ('' '' @ [NL]) (drop (Suc i) allowedips))))
            (\<lambda>_. retq ((), False)))"

definition set_routes :: "android \<Rightarrow> string \<Rightarrow> u32 \<Rightarrow> unit quick" where
  "set_routes A iface netid =
     for_lines A (''awg show '' @ iface @ '' allowed-ips'') (route_line A iface netid) ()"

section \<open>Up and down\<close>

definition broadcast_change :: "android \<Rightarrow> unit quick" where
  "broadcast_change A =
     (if a_getenv A ''CALLING_PACKAGE'' \<noteq> Some ''org.amnezia.awg''
      then cmd A ''am broadcast -a org.amnezia.awg.action.REFRESH_TUNNEL_STATES org.amnezia.awg'' else retq ())"

definition cmd_up_cleanup :: "android \<Rightarrow> unit quick" where
  "cmd_up_cleanup A = (\<lambda>s.
     let s = s\<lparr>is_exiting := True\<rparr> in
     case cleanup_iface s of
       None \<Rightarrow> (Ok (), s)
     | Some iface \<Rightarrow> del_if A iface s)"

text \<open>What follows the registration of the handler.\<close>

definition up_steps :: "android \<Rightarrow> options \<Rightarrow> string \<Rightarrow> unit quick" where
  "up_steps A opts iface =
     thenq (add_if A (o_awg_on opts) iface)
     (thenq (set_config A iface (o_config opts))
     (bindq (determine_listen_port A iface) (\<lambda>port.
      bindq (up_if A iface port) (\<lambda>netid.
      thenq (set_addr A iface (o_addrs opts))
      (thenq (set_dnses A netid (o_dnses opts))
      (thenq (set_routes A iface netid)
      (thenq (set_mtu A iface (o_mtu opts))
      (thenq (set_users A netid (o_excluded opts) (o_included opts))
      (broadcast_change A)))))))))"

text \<open>\<^verbatim>\<open>exit\<close> with the registered handler; a call of \<^verbatim>\<open>exit\<close> in the handler replaces the status.\<close>

definition exit_up :: "android \<Rightarrow> int \<Rightarrow> 'a quick" where
  "exit_up A status = (\<lambda>s.
     case cmd_up_cleanup A s of
       (Ok _, s) \<Rightarrow> (Exit status, s)
     | (Fail e, s) \<Rightarrow> (Fail e, s)
     | (Exit e, s) \<Rightarrow> (Exit e, s)
     | (Hang, s) \<Rightarrow> (Hang, s)
     | (Fault, s) \<Rightarrow> (Fault, s))"

definition cmd_up :: "android \<Rightarrow> options \<Rightarrow> string \<Rightarrow> 'a quick" where
  "cmd_up A opts iface =
     bindq (cmd_ret A (''ip link show dev '' @ iface @ '' 2>/dev/null'')) (\<lambda>r.
       if r \<noteq> None then failq (Exit EEXIST)
       else (\<lambda>s.
         case up_steps A opts iface (s\<lparr>cleanup_iface := Some iface\<rparr>) of
           (Ok _, s) \<Rightarrow> exit_up A 0 (s\<lparr>cleanup_iface := None\<rparr>)
         | (Fail e, s) \<Rightarrow> (Fail e, s)
         | (Exit e, s) \<Rightarrow> exit_up A e s
         | (Hang, s) \<Rightarrow> (Hang, s)
         | (Fault, s) \<Rightarrow> (Fault, s)))"

definition cmd_down :: "android \<Rightarrow> string \<Rightarrow> 'a quick" where
  "cmd_down A iface =
     bindq (cmd_ret A ''awg show interfaces'') (\<lambda>r.
       let found = (case r of None \<Rightarrow> False | Some ifaces \<Rightarrow> iface \<in> set (strtok ('' '' @ [NL]) ifaces)) in
       if \<not> found then failq (Exit EMEDIUMTYPE)
       else thenq (del_if A iface) (thenq (broadcast_change A) (failq (Exit 0))))"

definition auto_su :: "android \<Rightarrow> string list \<Rightarrow> unit quick" where
  "auto_su A argv =
     (if a_uid A = 0 then retq ()
      else thenq (log_event (Exec_su ([''su'', ''-p'', ''-c''] @ argv))) (failq (Exit (a_exec A))))"

text \<open>The status that \<^verbatim>\<open>main\<close> returns, or the exit before.  The name of the interface is always there when a file has
  been read.\<close>

definition quick_main :: "android \<Rightarrow> string list \<Rightarrow> int quick" where
  "quick_main A argv =
     (if length argv = 2 \<and> (argv ! 1 = ''help'' \<or> argv ! 1 = ''--help'' \<or> argv ! 1 = ''-h'') then retq 0
      else if length argv = 3 \<and> argv ! 1 = ''up'' then
        thenq (auto_su A argv)
        (bindq (failq (parse_options (a_open A) (argv ! 2))) (\<lambda>opts.
           case o_iface opts of None \<Rightarrow> failq Fault | Some iface \<Rightarrow> cmd_up A opts iface))
      else if length argv = 3 \<and> argv ! 1 = ''down'' then
        thenq (auto_su A argv)
        (bindq (failq (parse_options (a_open A) (argv ! 2))) (\<lambda>opts.
           case o_iface opts of None \<Rightarrow> failq Fault | Some iface \<Rightarrow> cmd_down A iface))
      else retq 1)"

section \<open>Loading the resolver library\<close>

text \<open>The functions that the program looks up, in its order.\<close>

definition service_symbols :: "string list" where
  "service_symbols =
     [''AIBinder_Class_define'', ''AIBinder_associateClass'', ''AIBinder_decStrong'', ''AIBinder_prepareTransaction'',
      ''AIBinder_transact'', ''AIBinder_ping'', ''AIBinder_dump'', ''AParcel_readStatusHeader'', ''AParcel_readBool'',
      ''AParcel_delete'', ''AParcel_setDataPosition'', ''AParcel_getDataPosition'', ''AParcel_writeInt32'',
      ''AParcel_writeStringArray'', ''AParcel_writeString'', ''AStatus_isOk'', ''AStatus_delete'', ''AStatus_getExceptionCode'',
      ''AStatus_getServiceSpecificError'', ''AStatus_getMessage'', ''AStatus_getStatus'', ''AServiceManager_getService'']"

abbreviation (input) ELIBACC :: int where "ELIBACC \<equiv> 79"

text \<open>\<open>dlopen\<close> gives the library as the set of names that it defines.  The result is the flag \<^verbatim>\<open>binder_available\<close>.\<close>

definition load_symbols :: "(string \<Rightarrow> (string \<Rightarrow> bool) option) \<Rightarrow> (int, bool) res" where
  "load_symbols dlopen =
     (case dlopen ''libbinder_ndk.so'' of
        None \<Rightarrow> Ok False
      | Some dlsym \<Rightarrow> if list_all dlsym service_symbols then Ok True else Exit ELIBACC)"

text \<open>The constructor runs before \<^verbatim>\<open>main\<close>.\<close>

definition quick_program :: "(string \<Rightarrow> (string \<Rightarrow> bool) option) \<Rightarrow> android \<Rightarrow> string list \<Rightarrow> int quick" where
  "quick_program dlopen A argv =
     bindq (failq (load_symbols dlopen)) (\<lambda>available.
       quick_main (A\<lparr>a_service := (a_service A)\<lparr>bi_available := available\<rparr>\<rparr>) argv)"

end
