(* ===== verification/Quick_Up.thy ===== *)
theory Quick_Up
  imports Quick
begin

text \<open>
  What bringing an interface up and down guarantees: the history only grows, a failure removes the interface
  again, addresses reach the shell inside quotes only; and three places where the program does not do what it
  is meant to.
\<close>

section \<open>What every step keeps\<close>

text \<open>A step adds events to the history, all of which satisfy \<open>P\<close>, and leaves the two flags alone.\<close>

definition framed :: "(event \<Rightarrow> bool) \<Rightarrow> 'a quick \<Rightarrow> bool" where
  "framed P m \<longleftrightarrow> (\<forall>s. (\<exists>es. ran (snd (m s)) = ran s @ es \<and> list_all P es) \<and> is_exiting (snd (m s)) = is_exiting s \<and>
     cleanup_iface (snd (m s)) = cleanup_iface s)"

lemma framedD:
  "framed P m \<Longrightarrow> (\<exists>es. ran (snd (m s)) = ran s @ es \<and> list_all P es) \<and> is_exiting (snd (m s)) = is_exiting s \<and>
     cleanup_iface (snd (m s)) = cleanup_iface s"
  by (simp add: framed_def)

named_theorems framed_intros \<open>steps that only add to the history\<close>

lemmas [framed_intros] = TrueI

lemma framed_retq [framed_intros]: "framed P (retq x)"
  by (simp add: framed_def retq_def)

lemma framed_failq [framed_intros]: "framed P (failq r)"
  by (simp add: framed_def failq_def)

lemma framed_bindq [framed_intros]:
  assumes "framed P m" "\<And>x. framed P (f x)"
  shows "framed P (bindq m f)"
  unfolding framed_def
proof (intro allI)
  fix s
  obtain r t where m: "m s = (r, t)" by fastforce
  from framedD [OF assms(1), of s] m obtain es
    where t: "ran t = ran s @ es" "list_all P es" "is_exiting t = is_exiting s" "cleanup_iface t = cleanup_iface s" by auto
  show "(\<exists>es. ran (snd (bindq m f s)) = ran s @ es \<and> list_all P es) \<and> is_exiting (snd (bindq m f s)) = is_exiting s \<and>
      cleanup_iface (snd (bindq m f s)) = cleanup_iface s"
  proof (cases r)
    case (Ok x)
    with framedD [OF assms(2), of x t] m t show ?thesis by (auto simp: bindq_def)
  qed (use m t in \<open>simp_all add: bindq_def\<close>)
qed

lemma framed_thenq [framed_intros]: "framed P m \<Longrightarrow> framed P n \<Longrightarrow> framed P (thenq m n)"
  unfolding thenq_def by (intro framed_intros)

lemma framed_eachq: "(\<And>x. x \<in> set xs \<Longrightarrow> framed P (f x)) \<Longrightarrow> framed P (eachq f xs)"
  by (induction xs) (simp_all add: framed_intros)

lemma framed_eachq_all [framed_intros]: "(\<And>x. framed P (f x)) \<Longrightarrow> framed P (eachq f xs)"
  by (rule framed_eachq)

lemma framed_log_event [framed_intros]: "P e \<Longrightarrow> framed P (log_event e)"
  by (simp add: framed_def log_event_def)

lemma framed_cmd [framed_intros]: "P (Ran c) \<Longrightarrow> framed P (cmd A c)"
  by (simp add: framed_def cmd_def Let_def)

lemma framed_ask [framed_intros]: "P e \<Longrightarrow> framed P (ask A e c)"
  by (simp add: framed_def ask_def split: sum.split)

lemma framed_next_line [framed_intros]: "framed P (next_line st)"
  by (simp add: next_line_def framed_intros split: list.split)

lemma framed_stream_loop [framed_intros]: "(\<And>x l. framed P (body x l)) \<Longrightarrow> framed P (stream_loop body x ls e)"
  by (induction ls arbitrary: x) (auto intro!: framed_intros simp: case_prod_unfold)

lemma framed_for_lines [framed_intros]: "P (Asked c) \<Longrightarrow> (\<And>x l. framed P (body x l)) \<Longrightarrow> framed P (for_lines A c body x)"
  unfolding for_lines_def by (intro framed_intros)

lemma framed_if [framed_intros]: "framed P m \<Longrightarrow> framed P n \<Longrightarrow> framed P (if b then m else n)"
  by simp

lemma framed_case_option [framed_intros]:
  "framed P m \<Longrightarrow> (\<And>x. framed P (f x)) \<Longrightarrow> framed P (case v of None \<Rightarrow> m | Some x \<Rightarrow> f x)"
  by (cases v) simp_all

lemma framed_case_prod [framed_intros]: "(\<And>x y. framed P (f x y)) \<Longrightarrow> framed P (case v of (x, y) \<Rightarrow> f x y)"
  by (cases v) simp

lemma framed_Let [framed_intros]: "framed P (f x) \<Longrightarrow> framed P (Let x f)"
  by simp

lemma framed_cmd_ret [framed_intros]: "P (Asked c) \<Longrightarrow> framed P (cmd_ret A c)"
  unfolding cmd_ret_def by (intro framed_intros)

lemma framed_cndc [framed_intros]: "P (Ndc (''ndc '' @ c)) \<Longrightarrow> framed P (cndc A c)"
  unfolding cndc_def Let_def by (intro framed_intros)

lemma framed_xregcomp [framed_intros]: "framed P (xregcomp re)"
  unfolding xregcomp_def by (intro framed_intros)

lemma framed_del_if [framed_intros]: "framed (\<lambda>_. True) (del_if A iface)"
  unfolding del_if_def delete_rule_def find_netid_def by (intro framed_intros)

lemma framed_set_config [framed_intros]: "framed (\<lambda>_. True) (set_config A iface config)"
  by (auto simp: set_config_def framed_def Let_def failq_def split: option.split sum.split)

lemma framed_up_if [framed_intros]: "framed (\<lambda>_. True) (up_if A iface port)"
  unfolding up_if_def should_block_ipv6_def endpoint_flags_def by (intro framed_intros)

lemma framed_exclude_loop [framed_intros]: "framed (\<lambda>_. True) (exclude_loop A netid uids start args ranges)"
  by (induction A netid uids start args ranges rule: exclude_loop.induct) (auto simp: flush_users_def intro!: framed_intros)

lemma framed_include_loop [framed_intros]: "framed (\<lambda>_. True) (include_loop A netid uids args ranges)"
  by (induction A netid uids args ranges rule: include_loop.induct) (auto simp: flush_users_def intro!: framed_intros)

lemma framed_set_users [framed_intros]: "framed (\<lambda>_. True) (set_users A netid excluded included)"
  unfolding set_users_def add_users_def by (intro framed_intros)

lemma framed_set_dnses [framed_intros]: "framed (\<lambda>_. True) (set_dnses A netid dnses)"
  unfolding set_dnses_def by (intro framed_intros)

lemma framed_set_mtu [framed_intros]: "framed (\<lambda>_. True) (set_mtu A iface mtu)"
  unfolding set_mtu_def get_route_mtu_def endpoint_mtu_def by (intro framed_intros)

lemma framed_up_steps: "framed (\<lambda>_. True) (up_steps A opts iface)"
  unfolding up_steps_def add_if_def determine_listen_port_def set_addr_def add_addr_def set_routes_def route_line_def add_route_def
    broadcast_change_def
  by (intro framed_intros)

section \<open>Failures on the way up\<close>

text \<open>Two plus signs in a row, which the expressions of \<^verbatim>\<open>del_if\<close> do not allow.\<close>

fun double_plus :: "string \<Rightarrow> bool" where
  "double_plus (c # d # cs) \<longleftrightarrow> c = CHR ''+'' \<and> d = CHR ''+'' \<or> double_plus (d # cs)"
| "double_plus _ \<longleftrightarrow> False"

lemma double_plus_Cons: "c \<noteq> CHR ''+'' \<Longrightarrow> double_plus (c # cs) = double_plus cs"
  by (cases cs) simp_all

lemma name_atoms_None:
  "(name_atoms (once P # acc) cs = None \<longleftrightarrow> double_plus cs) \<and>
   (name_atoms (some_of P # acc) cs = None \<longleftrightarrow> double_plus (CHR ''+'' # cs))"
proof (induction cs arbitrary: P acc)
  case (Cons c cs)
  show ?case by (cases "c = CHR ''+''") (auto simp: Cons [unfolded One_nat_def] double_plus_Cons)
qed simp

lemma rev_literal_snoc: "rev (literal (s @ [c])) = once ((=) c) # rev (literal s)"
  by (simp add: literal_def)

lemma regexes_compile: "(rule_regex iface = None) = double_plus iface" "(iptables_regex iface = None) = double_plus iface"
  using name_atoms_None [of "(=) (CHR '' '')"] rev_literal_snoc [of "''/0xcffff lookup''" "CHR '' ''"]
    rev_literal_snoc [of "'' --comment '' @ [CHR 0x22] @ ''amneziawg rule''" "CHR '' ''"]
  by (simp_all add: rule_regex_def iptables_regex_def)

lemma cmd_first:
  assumes "framed P m"
  shows "\<exists>more. ran (snd (thenq (cmd A c) m s)) = ran s @ Ran c # more"
proof -
  obtain r t where c: "cmd A c s = (r, t)" by fastforce
  have "ran (snd (cmd A c s)) = ran s @ [Ran c]" by (simp add: cmd_def Let_def)
  with c have t: "ran t = ran s @ [Ran c]" by simp
  from framedD [OF assms, of t] obtain es where m: "ran (snd (m t)) = ran t @ es" by blast
  show ?thesis by (cases r) (simp_all add: thenq_def bindq_def c m t)
qed

lemma bindq_Ok: "m s = (Ok x, t) \<Longrightarrow> bindq m f s = f x t"
  by (simp add: bindq_def)

lemma del_if_removes:
  "if double_plus iface then del_if A iface s = (Exit EBADR, s)
   else \<exists>more. ran (snd (del_if A iface s)) = ran s @ Ran (''ip link del '' @ iface) # more"
proof (cases "double_plus iface")
  case True
  then have "rule_regex iface = None" by (simp add: regexes_compile)
  with True show ?thesis by (simp add: del_if_def xregcomp_def bindq_def failq_def)
next
  case False
  then obtain r q where rq: "rule_regex iface = Some r" "iptables_regex iface = Some q"
    using regexes_compile [of iface] by (metis not_Some_eq)
  have x: "xregcomp (Some re) s = (Ok re, s)" for re s by (simp add: xregcomp_def retq_def)
  have "\<exists>more. ran (snd (del_if A iface s)) = ran s @ Ran (''ip link del '' @ iface) # more"
    unfolding del_if_def rq bindq_Ok [OF x] delete_rule_def find_netid_def by (rule cmd_first [where P = "\<lambda>_. True"]) (intro framed_intros)
  with False show ?thesis by simp
qed

text \<open>C10. When a step of \<^verbatim>\<open>up\<close> fails after the interface may have been created, the program removes the interface again
  before it ends, whatever the commands answer; when all steps succeed it ends with status 0 and removes nothing.
  The exception is a name with two plus signs in a row, which \<^verbatim>\<open>regcomp\<close> refuses: then nothing is removed.\<close>

theorem failed_up_removes_interface:
  assumes "cmd_ret A (''ip link show dev '' @ iface @ '' 2>/dev/null'') s = (Ok None, s1)"
    and "up_steps A opts iface (s1\<lparr>cleanup_iface := Some iface\<rparr>) = (r, t)"
  shows "(r = Ok () \<longrightarrow> cmd_up A opts iface s = (Exit 0 :: (int, int) res, t\<lparr>cleanup_iface := None, is_exiting := True\<rparr>)) \<and>
    (\<forall>e. r = Exit e \<longrightarrow>
       (\<exists>more. ran (snd (cmd_up A opts iface s :: (int, int) res \<times> quick_state)) =
          ran t @ (if double_plus iface then [] else Ran (''ip link del '' @ iface) # more))) \<and>
    (\<exists>es. ran t = ran s1 @ es)"
proof -
  have f: "(\<exists>es. ran t = ran s1 @ es) \<and> is_exiting t = is_exiting s1 \<and> cleanup_iface t = Some iface"
    using framedD [OF framed_up_steps, of A opts iface "s1\<lparr>cleanup_iface := Some iface\<rparr>"] assms(2) by auto
  have up: "(cmd_up A opts iface s :: (int, int) res \<times> quick_state) =
      (case (r, t) of
           (Ok _, s) \<Rightarrow> exit_up A 0 (s\<lparr>cleanup_iface := None\<rparr>)
         | (Fail e, s) \<Rightarrow> (Fail e, s)
         | (Exit e, s) \<Rightarrow> exit_up A e s
         | (Hang, s) \<Rightarrow> (Hang, s)
         | (Fault, s) \<Rightarrow> (Fault, s))"
    by (simp only: cmd_up_def bindq_def assms(1) bindr.simps) (simp add: assms(2))
  have "ran (snd (exit_up A e t :: (int, int) res \<times> quick_state)) = ran (snd (del_if A iface (t\<lparr>is_exiting := True\<rparr>)))" for e
    using f by (auto simp: exit_up_def cmd_up_cleanup_def Let_def split: prod.split res.split)
  moreover have "exit_up A 0 (t\<lparr>cleanup_iface := None\<rparr>) = (Exit 0 :: (int, int) res, t\<lparr>cleanup_iface := None, is_exiting := True\<rparr>)"
    by (simp add: exit_up_def cmd_up_cleanup_def Let_def)
  ultimately show ?thesis using f up del_if_removes [of iface A "t\<lparr>is_exiting := True\<rparr>"]
    by (auto split: if_splits)
qed

text \<open>A system where nothing answers and adding an interface fails.\<close>

definition sample_service :: resolver_service where
  "sample_service = \<lparr>bi_available = False, bi_service = False, bi_class = False, bi_associated = False,
     bi_op = (\<lambda>_ _. 0), bi_position = (\<lambda>h. 4 * int (length h)), bi_is_ok = (\<lambda>_. True), bi_exception = (\<lambda>_. 0), bi_status = (\<lambda>_. 0)\<rparr>"

definition sample_android :: android where
  "sample_android = \<lparr>a_system = (\<lambda>h c. if c = ''ip link add wg0 type amneziawg'' then 256 else 0),
     a_popen = (\<lambda>h c. Inr \<lparr>st_lines = [], st_errno = 0\<rparr>), a_popen_w = (\<lambda>h c. 0), a_feed = (\<lambda>h c text. Inr 0), a_open = sample_open,
     a_random = (\<lambda>i. 0x1234), a_getenv = (\<lambda>_. None), a_service = sample_service, a_sdk = Some ''33'', a_uid = 0, a_exec = 2,
     a_behind = (\<lambda>_. [NUL])\<rparr>"

definition initial_state :: quick_state where
  "initial_state = \<lparr>ran = [], is_exiting = False, cleanup_iface = None\<rparr>"

theorem failed_up_removes_interface_witness:
  "\<exists>more. ran (snd (cmd_up sample_android initial_options ''wg0'' initial_state :: (int, int) res \<times> quick_state)) =
     [Asked ''ip link show dev wg0 2>/dev/null'', Ran ''ip link add wg0 type amneziawg'', Ran ''ip link del wg0''] @ more"
proof -
  let ?s1 = "initial_state\<lparr>ran := [Asked ''ip link show dev wg0 2>/dev/null'']\<rparr>"
  have q: "cmd_ret sample_android (''ip link show dev '' @ ''wg0'' @ '' 2>/dev/null'') initial_state = (Ok None, ?s1)"
    by (simp add: cmd_ret_def ask_def next_line_def sample_android_def initial_state_def bindq_def retq_def)
  have u: "up_steps sample_android initial_options ''wg0'' (?s1\<lparr>cleanup_iface := Some ''wg0''\<rparr>) =
      (Exit 1, ?s1\<lparr>cleanup_iface := Some ''wg0'', ran := ran ?s1 @ [Ran ''ip link add wg0 type amneziawg'']\<rparr>)"
    by (simp add: up_steps_def add_if_def initial_options_def thenq_def bindq_def cmd_def sample_android_def initial_state_def
        wait_status_def Let_def)
  show ?thesis using failed_up_removes_interface [OF q u] by simp
qed

section \<open>What the shell sees\<close>

text \<open>The characters of a command outside single quotes.\<close>

fun unquoted :: "bool \<Rightarrow> string \<Rightarrow> string" where
  "unquoted q [] = []"
| "unquoted q (c # cs) = (if c = CHR 0x27 then unquoted (\<not> q) cs else if q then unquoted q cs else c # unquoted q cs)"

fun command_text :: "event \<Rightarrow> string" where
  "command_text (Ran c) = c"
| "command_text (Ndc c) = c"
| "command_text (Asked c) = c"
| "command_text (Fed c _) = c"
| "command_text _ = []"

lemma unquoted_outside: "CHR 0x27 \<notin> set a \<Longrightarrow> unquoted False (a @ b) = a @ unquoted False b"
  by (induction a) auto

lemma unquoted_inside: "CHR 0x27 \<notin> set a \<Longrightarrow> unquoted True (a @ [CHR 0x27] @ b) = unquoted False b"
  by (induction a) auto

text \<open>Characters without a meaning to the shell.\<close>

definition shell_plain :: "char \<Rightarrow> bool" where
  "shell_plain c \<longleftrightarrow> iface_char c \<or> c = CHR '' ''"

lemmas shell_plain_eval = shell_plain_def iface_char_def is_c_alpha_def is_c_digit_def

lemma plain_no_quote: "list_all shell_plain s \<Longrightarrow> CHR 0x27 \<notin> set s"
  by (auto simp: list_all_iff shell_plain_eval)

lemma plain_iface: "list_all iface_char s \<Longrightarrow> list_all shell_plain s"
  by (simp add: list_all_iff shell_plain_def)

text \<open>A command with one quoted argument shows the shell the rest only.\<close>

lemma quoted_argument:
  assumes "list_all shell_plain a" "CHR 0x27 \<notin> set x" "list_all shell_plain b"
  shows "list_all shell_plain (unquoted False (a @ [CHR 0x27] @ x @ [CHR 0x27] @ b))"
proof -
  have "unquoted False (a @ [CHR 0x27] @ x @ [CHR 0x27] @ b) = a @ unquoted True (x @ [CHR 0x27] @ b)"
    using unquoted_outside [of a "[CHR 0x27] @ x @ [CHR 0x27] @ b"] plain_no_quote [OF assms(1)] by simp
  also have "\<dots> = a @ b"
    using unquoted_inside [OF assms(2), of b] unquoted_outside [of b "[]"] plain_no_quote [OF assms(3)] by simp
  finally show ?thesis using assms by simp
qed

lemma plain_command: "list_all shell_plain a \<Longrightarrow> list_all shell_plain (unquoted False a)"
  using unquoted_outside [of a "[]"] plain_no_quote [of a] by simp

lemma shell_plain_udec: "list_all shell_plain (udec n)"
proof -
  have "is_digit_of 10 c \<Longrightarrow> shell_plain c" for c
    unfolding is_c_digit_iff [symmetric] by (simp add: shell_plain_def iface_char_def)
  then show ?thesis using print_num_digits [of 10 n] by (simp add: list_all_iff)
qed

definition shell_safe :: "event \<Rightarrow> bool" where
  "shell_safe e \<longleftrightarrow> list_all shell_plain (unquoted False (command_text e))"

lemma framed_add_addr:
  assumes "list_all iface_char iface" "\<not> has_quote addr"
  shows "framed shell_safe (add_addr A iface addr)"
proof -
  note i = plain_iface [OF assms(1)]
  have q: "CHR 0x27 \<notin> set addr" using assms(2) by (simp add: has_quote_def)
  then have q': "CHR 0x27 \<notin> set (take n addr)" for n by (meson in_set_takeD)
  have 1: "shell_safe (Ndc (''ndc '' @ ''interface ipv6 '' @ iface @ '' enable''))"
    using i plain_command [of "''ndc interface ipv6 '' @ iface @ '' enable''"] by (simp add: shell_safe_def shell_plain_eval)
  have 2: "shell_safe (Ran (''ip -6 addr add '' @ [CHR 0x27] @ addr @ [CHR 0x27] @ '' dev '' @ iface))"
    using quoted_argument [of "''ip -6 addr add ''" addr "'' dev '' @ iface"] i q by (simp add: shell_safe_def shell_plain_eval)
  have 3: "shell_safe (Ndc (''ndc '' @ ''interface setcfg '' @ iface @ '' '' @ [CHR 0x27] @ x @ [CHR 0x27] @ '' '' @ udec m))" if "CHR 0x27 \<notin> set x" for x m
    using quoted_argument [of "''ndc interface setcfg '' @ iface @ '' ''" x "'' '' @ udec m"] i that shell_plain_udec [of m]
    by (simp add: shell_safe_def shell_plain_eval)
  show ?thesis
  proof (cases "CHR '':'' \<in> set addr")
    case True
    then show ?thesis unfolding add_addr_def if_P [OF True]
      by (intro framed_thenq framed_cndc [where P = shell_safe, OF 1] framed_cmd [where P = shell_safe, OF 2])
  next
    case False
    show ?thesis unfolding add_addr_def if_not_P [OF False]
      by (cases "strchr addr (CHR ''/'')")
        (simp_all only: option.case prod.case Let_def framed_cndc [where P = shell_safe, OF 3 [OF q]] framed_cndc [where P = shell_safe, OF 3 [OF q']])
  qed
qed



lemma fits_all: "(\<exists>ks. fits [Atom C lo None] True s ks) \<longleftrightarrow> lo \<le> length s \<and> list_all C s"
  unfolding fits_Cons by auto

lemma is_ip_iff: "is_ip s \<longleftrightarrow> s \<noteq> [] \<and> list_all (\<lambda>c. is_c_digit c \<or> c = CHR ''.'') s \<or> CHR '':'' \<in> set s"
proof -
  have "regexec regex_digits s \<noteq> None \<longleftrightarrow> (\<exists>ks. fits [some_of (\<lambda>c. is_c_digit c \<or> c = CHR ''.'')] True s ks)"
    unfolding regexec_None by (simp add: regex_digits_def del: fits.simps)
  moreover have "regexec regex_colon s \<noteq> None \<longleftrightarrow>
      (\<exists>ks. fits [any_of (\<lambda>_. True), once ((=) (CHR '':'')), any_of (\<lambda>_. True)] True s ks)"
    unfolding regexec_None by (simp add: regex_colon_def del: fits.simps)
  moreover have "(\<exists>ks. fits [any_of (\<lambda>_. True), once ((=) c), any_of (\<lambda>_. True)] True s ks) \<longleftrightarrow> c \<in> set s" for c
  proof
    assume "c \<in> set s"
    then obtain a b where "s = a @ c # b" by (auto simp: in_set_conv_decomp)
    then show "\<exists>ks. fits [any_of (\<lambda>_. True), once ((=) c), any_of (\<lambda>_. True)] True s ks"
      by (intro exI [of _ "[length a, 1, length b]"]) (simp add: list_all_iff)
  qed (auto simp: fits_Cons [of _ 0] fits_once [unfolded One_nat_def] simp del: fits.simps)
  ultimately show ?thesis by (simp add: is_ip_def fits_all Suc_le_eq)
qed

lemma strtok_none: "strtok delim [] = []"
  by (simp add: strtok.simps)

lemma strtok_one:
  assumes "s \<noteq> []" "\<forall>c \<in> set s. c \<notin> set delim"
  shows "strtok delim s = [s]"
proof -
  have d: "dropWhile (\<lambda>c. c \<in> set delim) s = s" using assms by (cases s) auto
  have t: "takeWhile (\<lambda>c. c \<notin> set delim) s = s" "dropWhile (\<lambda>c. c \<notin> set delim) s = []"
    using assms(2) by (simp_all add: takeWhile_eq_all_conv)
  show ?thesis by (subst strtok.simps) (simp add: d t assms(1) strtok_none)
qed

lemma strtok_append:
  assumes "s \<noteq> []" "\<forall>c \<in> set s. c \<notin> set delim" "d \<in> set delim"
  shows "strtok delim (s @ d # r) = s # strtok delim r"
proof -
  have 1: "dropWhile (\<lambda>c. c \<in> set delim) (s @ d # r) = s @ d # r" using assms by (cases s) auto
  have 2: "takeWhile (\<lambda>c. c \<notin> set delim) (s @ d # r) = s" "dropWhile (\<lambda>c. c \<notin> set delim) (s @ d # r) = d # r"
    using assms by (simp_all add: takeWhile_append2 dropWhile_append2)
  show ?thesis by (subst strtok.simps) (simp add: 1 2)
qed

lemma cndc_event: "ran (snd (cndc A c s)) = ran s @ [Ndc (''ndc '' @ c)]"
proof -
  let ?c = "''ndc '' @ c"
  have "ran (snd (bindq (next_line st) (\<lambda>r. case r of None \<Rightarrow> failq (Exit ENOSYS) | Some (l, _) \<Rightarrow>
      if 400 \<le> sint (atoi l) \<and> sint (atoi l) < 600 then failq (Exit ENONET) else retq ()) t)) = ran t" for st t
    by (simp add: bindq_def next_line_def failq_def retq_def split: list.split)
  then show ?thesis unfolding cndc_def Let_def bindq_def [of "ask A (Ndc ?c) ?c"]
    by (cases "a_popen A (ran s) ?c") (simp_all only: ask_def sum.case bindr.simps, simp_all)
qed

lemma shell_arglist_one: "length dns + 1 \<le> len \<Longrightarrow> shell_arglist len [dns] = [CHR 0x27] @ dns @ [CHR 0x27] @ '' ''"
  by (simp add: shell_arglist_def)

text \<open>C21. A search domain reaches the shell outside quotes when there is no resolver service: its own quotes and those of the
  command cancel out, so that a domain such as \<^verbatim>\<open>$(reboot)\<close> in the configuration is executed.\<close>

theorem search_domain_unquoted:
  assumes "dnsresolver_get_handle A = None" and "domain \<noteq> []" "\<forall>c \<in> set domain. c \<notin> set list_delims" "\<not> has_quote domain" "\<not> is_ip domain"
    and "length domain < 60000"
  shows "\<exists>c. ran (snd (set_dnses A netid (Some (''1.1.1.1,'' @ domain)) s)) = ran s @ [Ndc c] \<and>
    unquoted False c = ''ndc resolver setnetdns '' @ udec (unat netid) @ '' '' @ domain @ ''  ''"
proof -
  let ?dnses = "''1.1.1.1,'' @ domain" and ?n = "udec (unat netid)"
  have tok: "strtok list_delims ?dnses = [''1.1.1.1'', domain]"
    using strtok_append [of "''1.1.1.1''" list_delims "CHR '',''" domain] strtok_one [of domain list_delims] assms(2,3) by simp
  have ip: "is_ip ''1.1.1.1''" "\<not> has_quote ''1.1.1.1''" by (simp_all add: is_ip_iff is_c_digit_def has_quote_def)
  have q: "CHR 0x27 \<notin> set domain" using assms(4) by (simp add: has_quote_def)
  let ?c = "''resolver setnetdns '' @ ?n @ '' '' @ [CHR 0x27] @ ([CHR 0x27] @ domain @ [CHR 0x27] @ '' '') @
      [CHR 0x27] @ '' '' @ [CHR 0x27] @ ''1.1.1.1'' @ [CHR 0x27] @ '' ''"
  have "set_dnses A netid (Some ?dnses) = cndc A ?c"
    using assms(1,2,4,5,6) tok ip shell_arglist_one [of domain "length ?dnses"] shell_arglist_one [of "''1.1.1.1''" "length ?dnses"]
    by (simp add: set_dnses_def Let_def Suc_le_eq)
  moreover note cndc_event [of A ?c s]
  moreover have "unquoted False (''ndc '' @ ?c) = ''ndc resolver setnetdns '' @ ?n @ '' '' @ domain @ ''  ''"
    using unquoted_outside [of "''ndc resolver setnetdns '' @ ?n @ '' ''"] plain_no_quote [OF shell_plain_udec, of "unat netid"]
      unquoted_outside [OF q]
    by simp
  ultimately show ?thesis by (intro exI [of _ "''ndc '' @ ?c"]) (simp only: simp_thms)
qed

theorem search_domain_unquoted_witness:
  "\<exists>c. ran (snd (set_dnses sample_android 4660 (Some (''1.1.1.1,'' @ ''$(reboot)'')) initial_state)) = [Ndc c] \<and>
    unquoted False c = ''ndc resolver setnetdns 4660 '' @ ''$(reboot)'' @ ''  ''"
proof -
  have h: "dnsresolver_get_handle sample_android = None" "udec (unat (4660 :: u32)) = ''4660''"
    by (simp_all add: dnsresolver_get_handle_def sample_android_def sample_service_def print_num.simps digit_char_def char_of_def bit_0)
  have d: "\<not> has_quote ''$(reboot)''" "\<not> is_ip ''$(reboot)''" "\<forall>c \<in> set ''$(reboot)''. c \<notin> set list_delims"
    by (simp_all add: has_quote_def is_ip_iff is_c_digit_def)
  from search_domain_unquoted [OF h(1) _ d(3,1,2), of 4660 initial_state] show ?thesis
    unfolding h(2) by (simp add: initial_state_def)
qed

section \<open>The MTU\<close>

lemma fits_ends:
  assumes "fits (as @ [some_of C]) True s ks"
  shows "s \<noteq> [] \<and> C (last s)"
  using assms
proof (induction as arbitrary: s ks)
  case Nil
  then obtain a where "s = a" "1 \<le> length a" "list_all C a" unfolding append_Nil fits_Cons by auto
  then show ?case by (cases a rule: rev_exhaust) auto
next
  case (Cons x as)
  obtain P lo hi where x: "x = Atom P lo hi" by (cases x) auto
  from Cons.prems obtain a b ks' where "s = a @ b" "fits (as @ [some_of C]) True b ks'" unfolding x append_Cons fits_Cons by blast
  with Cons.IH show ?case by (metis append_is_Nil_conv last_appendR)
qed

lemma endpoint_line_no_match:
  assumes "l \<noteq> []" "last l = NL"
  shows "group_text regex_endpoint l = None"
proof -
  let ?as = "[optional ((=) (CHR ''['')), some_of endpoint_char, optional ((=) (CHR '']'')), once ((=) (CHR '':''))]"
  have "\<not> fits (?as @ [some_of is_c_digit]) True l ks" for ks
    using fits_ends [of ?as is_c_digit l ks] assms(2) by (auto simp: is_c_digit_def)
  then have "regexec regex_endpoint l = None" unfolding regexec_None by (simp add: regex_endpoint_def del: fits.simps)
  then show ?thesis by (simp add: group_text_def)
qed

lemma stream_loop_ignores:
  "\<forall>l \<in> set ls. l \<noteq> [] \<and> last l = NL \<Longrightarrow> stream_loop (endpoint_mtu A) m ls 0 = retq m"
  by (induction ls) (simp_all add: endpoint_mtu_def endpoint_line_no_match bindq_def retq_def)

text \<open>C37. The endpoints of the peers never lower the MTU.  The expression that should find the address in a line of
  \<^verbatim>\<open>awg show endpoints\<close> has to match up to the end of the line, where the newline stands that \<^verbatim>\<open>getline\<close> leaves there, so that no
  line matches: the MTU is that of the default route, or 1500, less 80.\<close>

theorem endpoints_never_lower_mtu:
  assumes "get_route_mtu A ''default'' s = (Ok m, t)"
    and "a_popen A (ran t) (''awg show '' @ iface @ '' endpoints'') = Inr \<lparr>st_lines = ls, st_errno = 0\<rparr>"
    and "\<forall>l \<in> set ls. l \<noteq> [] \<and> last l = NL"
  shows "set_mtu A iface 0 s =
    cndc A (''interface setmtu '' @ iface @ '' '' @ sdec ((if m = - 1 then 1500 else m) - 80))
      (t\<lparr>ran := ran t @ [Asked (''awg show '' @ iface @ '' endpoints'')]\<rparr>)"
proof -
  have "for_lines A (''awg show '' @ iface @ '' endpoints'') (endpoint_mtu A) m' t =
      (Ok m', t\<lparr>ran := ran t @ [Asked (''awg show '' @ iface @ '' endpoints'')]\<rparr>)" for m'
    using stream_loop_ignores [OF assms(3), of A m']
    by (simp only: for_lines_def ask_def assms(2) sum.case bindq_def bindr.simps quick_stream.simps) (simp add: retq_def)
  then show ?thesis by (simp only: set_mtu_def bindq_def assms(1) bindr.simps simp_thms if_False)
qed

definition sample_routes :: android where
  "sample_routes = sample_android\<lparr>a_popen := (\<lambda>h c. Inr \<lparr>st_lines =
     (if c = ''awg show wg0 endpoints'' then [''key'' @ [CHR 0x09] @ ''192.0.2.1:51820'' @ [NL]] else []), st_errno = 0\<rparr>)\<rparr>"

theorem endpoints_never_lower_mtu_witness:
  "\<exists>t. set_mtu sample_routes ''wg0'' 0 initial_state = cndc sample_routes (''interface setmtu '' @ ''wg0'' @ '' '' @ sdec (1500 - 80)) t"
proof -
  have m: "get_route_mtu sample_routes ''default'' initial_state =
      (Ok (- 1), initial_state\<lparr>ran := [Asked (''ip -o route show '' @ ''default'')]\<rparr>)"
    by (simp add: get_route_mtu_def cmd_ret_def ask_def next_line_def bindq_def retq_def sample_routes_def initial_state_def)
  have e: "a_popen sample_routes h (''awg show '' @ ''wg0'' @ '' endpoints'') =
      Inr \<lparr>st_lines = [''key'' @ [CHR 0x09] @ ''192.0.2.1:51820'' @ [NL]], st_errno = 0\<rparr>" for h
    by (simp add: sample_routes_def)
  show ?thesis using endpoints_never_lower_mtu [OF m e] by auto
qed

section \<open>Rules of other interfaces\<close>

lemma fits_literalI: "fits as eol s ks \<Longrightarrow> fits (literal l @ as) eol (l @ s) (replicate (length l) 1 @ ks)"
  by (auto simp: fits_literal)

lemma fits_anyI: "list_all P a \<Longrightarrow> fits as eol b ks \<Longrightarrow> fits (any_of P # as) eol (a @ b) (length a # ks)"
  by simp

lemma fits_onceI: "P c \<Longrightarrow> fits as eol s ks \<Longrightarrow> fits (once P # as) eol (c # s) (1 # ks)"
  by simp

text \<open>A name without dots and plus signs stands for itself.\<close>

lemma name_atoms_literal:
  "CHR ''.'' \<notin> set s \<Longrightarrow> CHR ''+'' \<notin> set s \<Longrightarrow> name_atoms acc (s @ r) = name_atoms (rev (literal s) @ acc) r"
  by (induction s arbitrary: acc) (auto simp: literal_def)

lemma iptables_regex_dotted:
  assumes "CHR ''.'' \<notin> set a" "CHR ''+'' \<notin> set a" "CHR ''.'' \<notin> set b" "CHR ''+'' \<notin> set b"
  shows "iptables_regex (a @ ''.'' @ b) = Some \<lparr>re_bol = True, re_before = literal ''-A '',
     re_group = any_of (\<lambda>_. True) # (literal ('' --comment '' @ [CHR 0x22] @ ''amneziawg rule '') @ literal a @ once (\<lambda>_. True) # literal b) @
       literal [CHR 0x22] @ [any_of (\<lambda>c. c \<noteq> NL)],
     re_after = [any_of ((=) NL)], re_eol = True\<rparr>"
proof -
  have "name_atoms acc (a @ ''.'' @ b) = Some (rev acc @ literal a @ once (\<lambda>_. True) # literal b)" for acc
    using name_atoms_literal [OF assms(1,2), of acc "''.'' @ b"] name_atoms_literal [OF assms(3,4), of _ "[]"] by simp
  then show ?thesis by (simp only: iptables_regex_def option.map rev_rev_ident)
qed

text \<open>The group of a match that begins with \<^verbatim>\<open>-A\<close>: all but that and the newline at the end.\<close>

lemma before_newline:
  assumes "u @ z = t @ [NL]" "list_all ((=) NL) z" "NL \<notin> set t" "u = v @ q # y" "q \<noteq> NL" "list_all (\<lambda>c. c \<noteq> NL) y"
  shows "u = t"
proof (cases z rule: rev_cases)
  case Nil
  with assms(1,4) have "v @ q # y = t @ [NL]" by simp
  from arg_cong [OF this, of last] have "last (q # y) = NL" by simp
  moreover have "last (q # y) \<noteq> NL" using assms(5,6) last_in_set [of y] by (cases "y = []") (auto simp: list_all_iff)
  ultimately show ?thesis by simp
next
  case (snoc z' x)
  from assms(1) have "u @ z' = t" unfolding snoc append_assoc [symmetric] by (rule conjunct1 [OF iffD1 [OF append1_eq_conv]])
  moreover have "list_all ((=) NL) z'" using assms(2) unfolding snoc list_all_append by (rule conjunct1)
  ultimately have "z' = []" using assms(3) by (cases z') auto
  with \<open>u @ z' = t\<close> show ?thesis by simp
qed

lemma dotted_group:
  assumes "CHR ''.'' \<notin> set a" "CHR ''+'' \<notin> set a" "CHR ''.'' \<notin> set b" "CHR ''+'' \<notin> set b" "NL \<notin> set t"
    and t: "t = chain @ ('' --comment '' @ [CHR 0x22] @ ''amneziawg rule '') @ a @ c # b @ [CHR 0x22]"
    and re: "iptables_regex (a @ ''.'' @ b) = Some re"
  shows "group_text re (''-A '' @ t @ [NL]) = Some t"
proof -
  define l where "l = '' --comment '' @ [CHR 0x22] @ ''amneziawg rule ''"
  have re': "re = \<lparr>re_bol = True, re_before = literal ''-A '',
      re_group = any_of (\<lambda>_. True) # (literal l @ literal a @ once (\<lambda>_. True) # literal b) @ literal [CHR 0x22] @ [any_of (\<lambda>c. c \<noteq> NL)],
      re_after = [any_of ((=) NL)], re_eol = True\<rparr>"
    using re unfolding iptables_regex_dotted [OF assms(1-4)] l_def by (simp only: option.inject)
  have seq: "re_before re @ re_group re @ re_after re = literal ''-A '' @ any_of (\<lambda>_. True) # literal l @ literal a @ once (\<lambda>_. True) # literal b @
      literal [CHR 0x22] @ any_of (\<lambda>c. c \<noteq> NL) # any_of ((=) NL) # []"
    unfolding re' by simp
  have "\<exists>ks. fits (re_before re @ re_group re @ re_after re) True (''-A '' @ chain @ l @ a @ c # b @ [CHR 0x22] @ [] @ [NL] @ []) ks"
    unfolding seq
    by (rule exI, rule fits_literalI, rule fits_anyI, (simp add: list_all_iff)?, rule fits_literalI, rule fits_literalI, rule fits_onceI, simp,
        rule fits_literalI, rule fits_literalI, rule fits_anyI, simp, rule fits_anyI, simp, simp)
  then have "regexec re (''-A '' @ t @ [NL]) \<noteq> None" unfolding regexec_None t l_def [symmetric] by (auto simp: re')
  then obtain so eo where m: "regexec re (''-A '' @ t @ [NL]) = Some (so, eo)" by auto
  from regexec_Some [OF m] obtain ks where ks: "fits (re_before re @ re_group re @ re_after re) True (''-A '' @ t @ [NL]) ks"
      "so = sum_list (take (length (re_before re)) ks)"
      "eo = so + sum_list (take (length (re_group re)) (drop (length (re_before re)) ks))"
    by (auto simp: re')
  from ks(1) obtain x d y z where p: "t @ [NL] = x @ l @ a @ d @ b @ [CHR 0x22] @ y @ z" "length d = 1"
      "list_all (\<lambda>c. c \<noteq> NL) y" "list_all ((=) NL) z"
      "ks = replicate 3 1 @ length x # replicate (length l) 1 @ replicate (length a) 1 @ 1 # replicate (length b) 1 @ [1, length y, length z]"
    unfolding seq fits_literal fits_Cons by (auto simp: numeral_3_eq_3 le_antisym)
  let ?u = "x @ l @ a @ d @ b @ [CHR 0x22] @ y"
  have "?u = t"
    by (rule before_newline [where z = z and v = "x @ l @ a @ d @ b" and q = "CHR 0x22" and y = y]) (use p assms(5) in simp_all)
  moreover have "so = 3" using ks(2) p(5) by (simp add: re' literal_def)
  moreover have "eo = so + length ?u" using ks(3) p(2,5) by (simp add: re' literal_def sum_list_replicate numeral_3_eq_3)
  ultimately show ?thesis using m by (simp add: group_text_def)
qed

text \<open>While the program is ending, or as long as all commands succeed, every line of the output is looked at.\<close>

definition goes_on :: "android \<Rightarrow> quick_state \<Rightarrow> bool" where
  "goes_on A s \<longleftrightarrow> is_exiting s \<or> (\<forall>h c. a_system A h c = 0)"

lemma goes_on_cmd: "goes_on A s \<Longrightarrow> cmd A c s = (Ok (), s\<lparr>ran := ran s @ [Ran c]\<rparr>)"
  by (auto simp: goes_on_def cmd_def Let_def)

lemma goes_on_ran [simp]: "goes_on A (s\<lparr>ran := h\<rparr>) = goes_on A s"
  by (simp add: goes_on_def)

lemma rule_deleted:
  assumes "goes_on A s" "rule \<in> set lines" "group_text re rule = Some r"
  shows "\<exists>before after. ran (snd (stream_loop (delete_rule A tool re) () lines errno s)) =
    ran s @ before @ Ran (tool @ '' -D '' @ r) # after"
  using assms(1,2)
proof (induction lines arbitrary: s)
  case (Cons l ls)
  let ?loop = "stream_loop (delete_rule A tool re) ()"
  have step: "?loop (l # ls) errno s = ?loop ls errno (case group_text re l of None \<Rightarrow> s | Some r \<Rightarrow> s\<lparr>ran := ran s @ [Ran (tool @ '' -D '' @ r)]\<rparr>)"
    using goes_on_cmd [OF Cons.prems(1)] by (simp add: delete_rule_def bindq_def retq_def split: option.split)
  show ?case
  proof (cases "l = rule")
    case True
    have "framed (\<lambda>_. True) (?loop ls errno)" unfolding delete_rule_def by (intro framed_intros)
    from framedD [OF this, of "s\<lparr>ran := ran s @ [Ran (tool @ '' -D '' @ r)]\<rparr>"] obtain es where
      "ran (snd (?loop ls errno (s\<lparr>ran := ran s @ [Ran (tool @ '' -D '' @ r)]\<rparr>))) = ran s @ [] @ Ran (tool @ '' -D '' @ r) # es" by auto
    then show ?thesis unfolding step by (simp only: True assms(3) option.case) blast
  next
    case False
    let ?t = "case group_text re l of None \<Rightarrow> s | Some r \<Rightarrow> s\<lparr>ran := ran s @ [Ran (tool @ '' -D '' @ r)]\<rparr>"
    have t: "goes_on A ?t" using Cons.prems(1) by (simp split: option.split)
    obtain es where es: "ran ?t = ran s @ es" by (cases "group_text re l") simp_all
    have "rule \<in> set ls" using False Cons.prems(2) by simp
    from Cons.IH [OF t this] obtain before after where
      "ran (snd (?loop ls errno ?t)) = ran s @ (es @ before) @ Ran (tool @ '' -D '' @ r) # after" unfolding es append_assoc by blast
    then show ?thesis unfolding step by blast
  qed
qed simp

lemma for_lines_deleted:
  assumes "goes_on A s" "a_popen A (ran s) c = Inr out" "rule \<in> set (st_lines out)" "group_text re rule = Some r"
  shows "\<exists>before after. ran (snd (for_lines A c (delete_rule A tool re) () s)) = ran s @ before @ Ran (tool @ '' -D '' @ r) # after"
proof -
  have "goes_on A (s\<lparr>ran := ran s @ [Asked c]\<rparr>)" using assms(1) by simp
  from rule_deleted [OF this assms(3,4), of tool "st_errno out"] obtain before after where
    "ran (snd (stream_loop (delete_rule A tool re) () (st_lines out) (st_errno out) (s\<lparr>ran := ran s @ [Asked c]\<rparr>))) =
       ran s @ (Asked c # before) @ Ran (tool @ '' -D '' @ r) # after" by auto
  then show ?thesis unfolding for_lines_def bindq_def ask_def assms(2) sum.case bindr.simps by blast
qed

lemma thenq_history:
  assumes "\<exists>before after. ran (snd (m s)) = h @ before @ e # after" "framed (\<lambda>_. True) n"
  shows "\<exists>before after. ran (snd (thenq m n s)) = h @ before @ e # after"
proof -
  obtain r t where m: "m s = (r, t)" by (cases "m s")
  from assms(1) m obtain before after where t: "ran t = h @ before @ e # after" by auto
  from framedD [OF assms(2), of t] obtain es where "ran (snd (n t)) = ran t @ es" by blast
  with m t show ?thesis by (cases r) (auto simp: thenq_def bindq_def)
qed


text \<open>A system whose rules have one for the interface \<open>wg10\<close>.\<close>

definition rule_android :: android where
  "rule_android = sample_android\<lparr>a_system := (\<lambda>h c. 0), a_popen := (\<lambda>h c. Inr \<lparr>st_lines =
     (if c = ''iptables-save'' then [''-A '' @ ''OUTPUT'' @ '' --comment '' @ [CHR 0x22] @ ''amneziawg rule '' @ ''wg'' @ ''1'' @ ''0'' @ [CHR 0x22, NL]]
      else []), st_errno = 0\<rparr>)\<rparr>"


section \<open>Long lines\<close>

lemma getlines_last: "s \<noteq> [] \<Longrightarrow> NL \<notin> set s \<Longrightarrow> getlines s = [s]"
proof -
  assume s: "s \<noteq> []" "NL \<notin> set s"
  then have "dropWhile (\<lambda>x. x \<noteq> NL) s = []" by auto
  with s(1) show ?thesis by (cases s) simp_all
qed

text \<open>C38. A first line of more than 65536 characters makes the reader return without the defaults: the configuration is a null
  pointer.  The program creates the interface, then follows the pointer, and as it dies by a signal the interface is not removed again.\<close>

theorem long_line_leaves_interface:
  assumes "find_file (a_open A) arg = Ok (stem @ ''.conf'', f)" "qf_fstat f = 0" "end_run iface_char stem \<noteq> []"
    and "map cstr (getlines (qf_contents f)) = line # lines" "65536 < length line" and "a_uid A = 0"
    and iface: "iface = drop (length (end_run iface_char stem) - 15) (end_run iface_char stem)"
    and "a_popen A (ran s) (''ip link show dev '' @ iface @ '' 2>/dev/null'') = Inr \<lparr>st_lines = [], st_errno = 0\<rparr>"
    and "\<And>h. a_system A h (''ip link add '' @ iface @ '' type amneziawg'') = 0"
    and "\<And>h. a_popen_w A h (''awg setconf '' @ iface @ '' /proc/self/fd/0'') = 0"
  shows "fst (quick_main A [prog, ''up'', arg] s) = Fault \<and>
    ran (snd (quick_main A [prog, ''up'', arg] s)) =
      ran s @ [Asked (''ip link show dev '' @ iface @ '' 2>/dev/null''), Ran (''ip link add '' @ iface @ '' type amneziawg''),
        Fed (''awg setconf '' @ iface @ '' /proc/self/fd/0'') []]"
proof -
  let ?o = "initial_options\<lparr>o_iface := Some iface\<rparr>"
  have "group_text regex_conf (stem @ ''.conf'') = Some iface" using conf_name [of stem] assms(3) by (simp only: iface if_False simp_thms)
  then have p: "parse_options (a_open A) arg = Ok ?o"
    by (simp only: parse_options_def assms res_bind.simps prod.case option.case parse_lines.simps simp_thms if_True if_False bool.case)
  have q: "cmd_ret A (''ip link show dev '' @ iface @ '' 2>/dev/null'') s =
      (Ok None, s\<lparr>ran := ran s @ [Asked (''ip link show dev '' @ iface @ '' 2>/dev/null'')]\<rparr>)"
    by (simp only: cmd_ret_def bindq_def ask_def assms(8) sum.case bindr.simps next_line_def quick_stream.simps list.case)
      (simp add: retq_def)
  have u: "up_steps A ?o iface t = (Fault, t\<lparr>ran := ran t @ [Ran (''ip link add '' @ iface @ '' type amneziawg''),
      Fed (''awg setconf '' @ iface @ '' /proc/self/fd/0'') []]\<rparr>)" for t
    using assms(9,10) by (simp add: up_steps_def add_if_def initial_options_def thenq_def bindq_def cmd_def set_config_def failq_def Let_def)
  have "quick_main A [prog, ''up'', arg] s = cmd_up A ?o iface s"
    by (simp add: quick_main_def auto_su_def assms(6) p thenq_def bindq_def retq_def failq_def)
  also have "\<dots> = (Fault, s\<lparr>ran := ran s @ [Asked (''ip link show dev '' @ iface @ '' 2>/dev/null''),
      Ran (''ip link add '' @ iface @ '' type amneziawg''), Fed (''awg setconf '' @ iface @ '' /proc/self/fd/0'') []], cleanup_iface := Some iface\<rparr>)"
    by (simp only: cmd_up_def bindq_def q bindr.simps u) simp
  finally show ?thesis by simp
qed

definition sample_long :: android where
  "sample_long = sample_android\<lparr>a_system := (\<lambda>h c. 0),
     a_open := (\<lambda>path. Inr \<lparr>qf_contents = replicate 65537 (CHR ''x''), qf_fstat = 0\<rparr>)\<rparr>"

theorem long_line_leaves_interface_witness:
  "fst (quick_main sample_long [''awg-quick'', ''up'', ''/wg.conf''] initial_state) = Fault"
proof -
  have "\<not> list_all iface_char ''/wg.conf''" by (simp add: slash_not_iface_char)
  then have "regexec regex_iface ''/wg.conf'' = None" using regex_iface_iff [of "''/wg.conf''"] by blast
  then have f: "find_file (a_open sample_long) ''/wg.conf'' =
      Ok (''/wg'' @ ''.conf'', \<lparr>qf_contents = replicate 65537 (CHR ''x''), qf_fstat = 0\<rparr>)"
    by (simp add: find_file_def sample_long_def)
  have l: "map cstr (getlines (qf_contents \<lparr>qf_contents = replicate 65537 (CHR ''x''), qf_fstat = 0\<rparr>)) = replicate 65537 (CHR ''x'') # []"
    using getlines_last [of "replicate 65537 (CHR ''x'')"] cstr_id [of "replicate 65537 (CHR ''x'')"] by auto
  have r: "end_run iface_char ''/wg'' = ''wg''" by (simp add: end_run_def iface_char_def is_c_alpha_def is_c_digit_def)
  show ?thesis
    using long_line_leaves_interface [OF f _ _ l, of "''wg''" initial_state "''awg-quick''"] r
    by (simp add: sample_long_def sample_android_def)
qed

end
