(* ===== verification/Quick_Users.thy ===== *)
theory Quick_Users
  imports Quick_Up
begin

text \<open>
  The users of the network in \<^verbatim>\<open>wg-quick/android.c\<close>: which users the selected applications have, and that the ranges
  in the commands are exactly the other users.
\<close>

section \<open>The selected applications\<close>

text \<open>The parts between commas; an empty rest has none.\<close>

function csplit :: "string \<Rightarrow> string list" where
  "csplit s = (if s = [] then [] else takeWhile (\<lambda>c. c \<noteq> CHR '','') s # csplit (drop 1 (dropWhile (\<lambda>c. c \<noteq> CHR '','') s)))"
  by pat_completeness auto
termination
proof (relation "measure length")
  fix s :: string
  assume "s \<noteq> []"
  then show "(drop 1 (dropWhile (\<lambda>c. c \<noteq> CHR '','') s), s) \<in> measure length"
    using length_dropWhile_le [of "\<lambda>c. c \<noteq> CHR '',''" s] by (cases s) auto
qed simp

declare csplit.simps [simp del]

lemma upto_comma_split:
  assumes "NUL \<notin> set s"
  shows "upto_comma (s @ NUL # r) = takeWhile (\<lambda>c. c \<noteq> CHR '','') s"
  using assms by (induction s) (auto simp: upto_comma_def)

lemma comma_cases:
  obtains "CHR '','' \<notin> set s" "takeWhile (\<lambda>c. c \<noteq> CHR '','') s = s" "dropWhile (\<lambda>c. c \<noteq> CHR '','') s = []"
  | a b where "s = a @ CHR '','' # b" "CHR '','' \<notin> set a" "takeWhile (\<lambda>c. c \<noteq> CHR '','') s = a"
      "dropWhile (\<lambda>c. c \<noteq> CHR '','') s = CHR '','' # b"
proof (cases "CHR '','' \<in> set s")
  case True
  then obtain a b where ab: "s = a @ CHR '','' # b" "CHR '','' \<notin> set a" by (meson split_list_first)
  then have "\<forall>c \<in> set a. c \<noteq> CHR '',''" by blast
  with ab that(2) [of a b] show thesis by (simp add: takeWhile_append2 dropWhile_append2)
next
  case False
  then have "\<forall>c \<in> set s. c \<noteq> CHR '',''" by blast
  with False that(1) show thesis by (simp add: takeWhile_eq_all_conv)
qed

lemma selected_step:
  assumes "NUL \<notin> set s" "s \<noteq> []"
  shows "selected (s @ NUL # r) =
    res_bind (selected (drop (Suc (length (takeWhile (\<lambda>c. c \<noteq> CHR '','') s))) (s @ NUL # r)))
      (\<lambda>ts. Ok (takeWhile (\<lambda>c. c \<noteq> CHR '','') s # ts))"
proof -
  have "s ! 0 \<noteq> NUL" using assms by (cases s) auto
  moreover have "length (takeWhile (\<lambda>c. c \<noteq> CHR '','') s) \<le> length s" by (rule length_takeWhile_le)
  ultimately show ?thesis using assms(2)
    by (subst selected.simps) (simp add: upto_comma_split [OF assms(1)] nth_append Let_def)
qed

lemma selected_end: "selected (NUL # r) = Ok []" "selected [] = Fault"
  by (subst selected.simps, simp add: upto_comma_def)+

text \<open>With a zero behind the zero of the string the loop sees the parts.\<close>

lemma selected_zero_behind: "NUL \<notin> set s \<Longrightarrow> selected (s @ NUL # NUL # r) = Ok (csplit s)"
proof (induction s rule: csplit.induct)
  case (1 s)
  show ?case
  proof (cases "s = []")
    case False
    note step = selected_step [OF 1(2) False, of "NUL # r"]
    show ?thesis
    proof (rule comma_cases [of s])
      assume c: "takeWhile (\<lambda>c. c \<noteq> CHR '','') s = s" "dropWhile (\<lambda>c. c \<noteq> CHR '','') s = []"
      then show ?thesis unfolding step csplit.simps [of s] c using False by (simp add: selected_end csplit.simps)
    next
      fix a b assume c: "s = a @ CHR '','' # b" "CHR '','' \<notin> set a" "takeWhile (\<lambda>c. c \<noteq> CHR '','') s = a"
        "dropWhile (\<lambda>c. c \<noteq> CHR '','') s = CHR '','' # b"
      have "selected (b @ NUL # NUL # r) = Ok (csplit b)" using 1 False c(1,4) by simp
      then show ?thesis unfolding step csplit.simps [of s] c(3,4) using False by (simp add: c(1))
    qed
  qed (simp add: selected_end csplit.simps)
qed

text \<open>When nothing can be read behind it, the loop runs out of the string unless a comma is its last character.\<close>

lemma selected_nothing_behind: "NUL \<notin> set s \<Longrightarrow> s \<noteq> [] \<Longrightarrow> last s \<noteq> CHR '','' \<Longrightarrow> selected (s @ [NUL]) = Fault"
proof (induction s rule: csplit.induct)
  case (1 s)
  note step = selected_step [OF 1(2,3), of "[]"]
  show ?case
  proof (rule comma_cases [of s])
    assume "takeWhile (\<lambda>c. c \<noteq> CHR '','') s = s"
    then show ?thesis unfolding step by (simp only:) (simp add: selected_end)
  next
    fix a b assume c: "s = a @ CHR '','' # b" "CHR '','' \<notin> set a" "takeWhile (\<lambda>c. c \<noteq> CHR '','') s = a"
      "dropWhile (\<lambda>c. c \<noteq> CHR '','') s = CHR '','' # b"
    have "b \<noteq> []" "last b \<noteq> CHR '',''" using 1(4) c(1) by (auto split: if_splits)
    then have "selected (b @ [NUL]) = Fault" using 1 c(1,4) by simp
    then show ?thesis unfolding step c(3) by (simp add: c(1))
  qed
qed

section \<open>The room in the array\<close>

lemma count_commas_zero: "NUL \<notin> set s \<Longrightarrow> count_commas (s @ NUL # r) = Ok (count_list s (CHR '',''))"
proof (induction s rule: csplit.induct)
  case (1 s)
  have u: "upto_comma (s @ NUL # r) = takeWhile (\<lambda>c. c \<noteq> CHR '','') s" by (rule upto_comma_split [OF 1(2)])
  show ?case
  proof (rule comma_cases [of s])
    assume c: "CHR '','' \<notin> set s" "takeWhile (\<lambda>c. c \<noteq> CHR '','') s = s"
    then show ?thesis by (subst count_commas.simps) (simp only: u Let_def c(2), simp add: count_notin c(1))
  next
    fix a b assume c: "s = a @ CHR '','' # b" "CHR '','' \<notin> set a" "takeWhile (\<lambda>c. c \<noteq> CHR '','') s = a"
      "dropWhile (\<lambda>c. c \<noteq> CHR '','') s = CHR '','' # b"
    have "count_commas (b @ NUL # r) = Ok (count_list b (CHR '',''))" using 1 c by simp
    moreover have "upto_comma (a @ CHR '','' # b @ NUL # r) = a" using u c by simp
    ultimately show ?thesis unfolding c(1) using c(2) by (subst count_commas.simps) (simp add: Let_def count_notin)
  qed
qed

lemma length_csplit: "length (csplit s) \<le> Suc (count_list s (CHR '',''))"
proof (induction s rule: csplit.induct)
  case (1 s)
  show ?case
  proof (cases "s = []")
    case False
    show ?thesis
    proof (rule comma_cases [of s])
      assume "dropWhile (\<lambda>c. c \<noteq> CHR '','') s = []"
      then show ?thesis unfolding csplit.simps [of s] by (simp only:) (simp add: csplit.simps [of "[]"])
    next
      fix a b assume c: "s = a @ CHR '','' # b" "dropWhile (\<lambda>c. c \<noteq> CHR '','') s = CHR '','' # b"
      with 1 [OF False] have "length (csplit b) \<le> Suc (count_list b (CHR '',''))" by simp
      then show ?thesis unfolding csplit.simps [of s] c(2) by (simp add: c(1))
    qed
  qed (simp add: csplit.simps)
qed

lemma parts_fit: "length (filter (\<lambda>t. t \<noteq> []) (csplit s)) \<le> Suc (count_list (drop 1 s) (CHR '',''))"
proof (cases s)
  case (Cons c r)
  show ?thesis
  proof (cases "c = CHR '',''")
    case True
    then have "csplit s = [] # csplit r" by (simp add: Cons csplit.simps [of "CHR '','' # r"])
    then show ?thesis using le_trans [OF length_filter_le [of "\<lambda>t. t \<noteq> []" "csplit r"] length_csplit [of r]] by (simp add: Cons)
  next
    case False
    then show ?thesis using le_trans [OF length_filter_le [of "\<lambda>t. t \<noteq> []" "csplit s"] length_csplit [of s]] by (simp add: Cons)
  qed
qed (simp add: csplit.simps)

definition uids_of :: "string list \<Rightarrow> string \<times> u32 \<Rightarrow> u32 list" where
  "uids_of ts p = map (\<lambda>_. snd p) (filter (\<lambda>t. t \<noteq> [] \<and> fst p = t) ts)"

lemma set_uids_of: "set (uids_of ts p) = (if fst p \<noteq> [] \<and> fst p \<in> set ts then {snd p} else {})"
  by (auto simp: uids_of_def)

lemma matches_fit:
  "distinct (map fst ps) \<Longrightarrow> length (concat (map (uids_of ts) ps)) \<le> length (filter (\<lambda>t. t \<noteq> [] \<and> t \<in> fst ` set ps) ts)"
proof (induction ps)
  case (Cons p ps)
  have "length (filter (\<lambda>t. t \<noteq> [] \<and> fst p = t) ts) + length (filter (\<lambda>t. t \<noteq> [] \<and> t \<in> fst ` set ps) ts) =
      length (filter (\<lambda>t. t \<noteq> [] \<and> t \<in> fst ` set (p # ps)) ts)"
    using Cons.prems by (induction ts) auto
  with Cons show ?case by (simp add: uids_of_def)
qed simp

lemma length_filter_conj: "length (filter (\<lambda>x. P x \<and> Q x) xs) \<le> length (filter P xs)"
  by (induction xs) auto

lemma res_fold_add_uids:
  assumes "selected block = Ok ts"
  shows "length uids + length (concat (map (uids_of ts) ps)) \<le> room \<Longrightarrow>
    res_fold (add_uids block room) uids ps = Ok (uids @ concat (map (uids_of ts) ps))"
proof (induction ps arbitrary: uids)
  case (Cons p ps)
  then show ?case by (cases p) (simp add: add_uids_def assms uids_of_def Let_def)
qed simp

section \<open>The order of users\<close>

definition small_uid :: "u32 \<Rightarrow> bool" where
  "small_uid u \<longleftrightarrow> unat u < 2 ^ 31"

lemma compare_uid_le:
  assumes "small_uid a" "small_uid b"
  shows "compare_uid a b \<le> 0 \<longleftrightarrow> unat a \<le> unat b"
proof -
  have "int (unat a) < 2 ^ 31" "int (unat b) < 2 ^ 31" using assms unfolding small_uid_def by (metis of_nat_less_iff of_nat_numeral of_nat_power)+
  then have t: "signed_take_bit 31 (int (unat a) - int (unat b)) = int (unat a) - int (unat b)"
    by (intro signed_take_bit_int_eq_self) linarith+
  have "a - b = word_of_int (int (unat a) - int (unat b))" by simp
  with t have "compare_uid a b = int (unat a) - int (unat b)" unfolding compare_uid_def by (simp only: sint_sbintrunc') simp
  then show ?thesis by linarith
qed

interpretation uids: strict_comparison compare_uid small_uid
  by unfold_locales (auto simp: compare_uid_le simp: word_unat_eq_iff)

lemma sorted_uids:
  assumes "\<forall>u \<in> set us. small_uid u"
  shows "sorted (map unat (qsort compare_uid us))"
proof -
  have "sorted_wrt (\<lambda>a b. compare_uid a b \<le> 0) (qsort compare_uid us)" using assms by (intro uids.sorted_qsort) blast
  moreover have "\<forall>u \<in> set (qsort compare_uid us). small_uid u" using assms by (simp add: uids.set_qsort)
  ultimately show ?thesis unfolding sorted_wrt_map
    by (elim sorted_wrt_mono_rel [rotated]) (simp add: compare_uid_le)
qed

section \<open>The list of users\<close>

lemma package_line_nonzero: "package_line line = Some (name, uid) \<Longrightarrow> uid \<noteq> 0"
  by (auto simp: package_line_def Let_def split: option.splits if_splits prod.splits)

abbreviation packages :: "quick_file \<Rightarrow> (string \<times> u32) list" where
  "packages f \<equiv> List.map_filter package_line (map cstr (getlines (qf_contents f)))"

text \<open>A package list with one package, and commands that all succeed.\<close>

definition sample_file :: quick_file where
  "sample_file = \<lparr>qf_contents = ''app 10001 x'' @ [NL], qf_fstat = 0\<rparr>"

definition sample_packages :: android where
  "sample_packages = sample_android\<lparr>a_open := (\<lambda>path. Inr sample_file),
     a_popen := (\<lambda>h c. Inr \<lparr>st_lines = [''200 0'' @ [NL]], st_errno = 0\<rparr>)\<rparr>"

lemma sample_package: "packages sample_file = [(''app'', 10001)]"
  by (simp add: sample_file_def cstr_def package_line_def strtou_def num_of_def is_digit_of_def digit_val_def is_c_space_def scan_prefix_def
      map_filter_simps)

text \<open>C36. The list of the users of the selected applications.  When the byte behind the zero of the string happens to be zero and the
  package list names no package twice, the list is the sorted users of the selected packages and fits its array.  In general the loop
  over the selection reads behind the end of the string: when nothing can be read there, the program dies as soon as there is a package.\<close>

theorem users_of_selection:
  assumes "NUL \<notin> set apps" "apps \<noteq> []" and "a_open A ''/data/system/packages.list'' = Inr f"
  shows "(a_behind A apps = NUL # r \<longrightarrow> distinct (map fst (packages f)) \<longrightarrow>
      (\<exists>us. get_uid_list A (Some apps) = Ok (qsort compare_uid us) \<and>
         set us = {u. \<exists>name. (name, u) \<in> set (packages f) \<and> name \<noteq> [] \<and> name \<in> set (csplit apps)} \<and>
         length us \<le> length (csplit apps))) \<and>
    (a_behind A apps = [] \<longrightarrow> last apps \<noteq> CHR '','' \<longrightarrow> packages f \<noteq> [] \<longrightarrow> get_uid_list A (Some apps) = Fault)"
proof (intro conjI impI)
  assume b: "a_behind A apps = NUL # r" and d: "distinct (map fst (packages f))"
  let ?us = "concat (map (uids_of (csplit apps)) (packages f))"
  have n: "count_commas (drop 1 (apps @ [NUL] @ NUL # r)) = Ok (count_list (drop 1 apps) (CHR '',''))"
    using count_commas_zero [of "drop 1 apps" "NUL # r"] assms(1,2) by (cases apps) auto
  have "length ?us \<le> length (filter (\<lambda>t. t \<noteq> []) (csplit apps))"
    using matches_fit [OF d, of "csplit apps"] by (rule le_trans) (rule length_filter_conj)
  then have l: "length ?us \<le> Suc (count_list (drop 1 apps) (CHR '',''))" "length ?us \<le> length (csplit apps)"
    using parts_fit [of apps] length_filter_le [of "\<lambda>t. t \<noteq> []" "csplit apps"] by linarith+
  have "get_uid_list A (Some apps) = Ok (qsort compare_uid ?us)"
    using l(1) selected_zero_behind [OF assms(1), of r] n
    by (simp add: get_uid_list_def assms(3) b res_fold_add_uids Let_def)
  moreover have "set ?us = {u. \<exists>name. (name, u) \<in> set (packages f) \<and> name \<noteq> [] \<and> name \<in> set (csplit apps)}"
    by (auto simp: set_uids_of split: if_splits)
  ultimately show "\<exists>us. get_uid_list A (Some apps) = Ok (qsort compare_uid us) \<and>
      set us = {u. \<exists>name. (name, u) \<in> set (packages f) \<and> name \<noteq> [] \<and> name \<in> set (csplit apps)} \<and> length us \<le> length (csplit apps)"
    using l(2) by blast
next
  assume b: "a_behind A apps = []" and c: "last apps \<noteq> CHR '',''" and p: "packages f \<noteq> []"
  have n: "count_commas (drop 1 (apps @ [NUL])) = Ok (count_list (drop 1 apps) (CHR '',''))"
    using count_commas_zero [of "drop 1 apps" "[]"] assms(1,2) by (cases apps) auto
  obtain q ps where "packages f = q # ps" using p by (cases "packages f") auto
  then show "get_uid_list A (Some apps) = Fault"
    using selected_nothing_behind [OF assms(1,2) c] n
    by (cases q) (simp add: get_uid_list_def assms(3) b add_uids_def Let_def)
qed

theorem users_of_selection_witness:
  "\<exists>us. get_uid_list sample_packages (Some ''app'') = Ok (qsort compare_uid us) \<and> set us = {10001}"
proof -
  have o: "a_open sample_packages ''/data/system/packages.list'' = Inr sample_file" "a_behind sample_packages ''app'' = NUL # []"
    by (simp_all add: sample_packages_def sample_android_def)
  show ?thesis using users_of_selection [OF _ _ o(1), of "''app''" "[]"] o(2)
    by (simp add: sample_package csplit.simps) blast
qed

section \<open>The ranges\<close>

text \<open>The ranges between the users of a list, and where the last one ends.\<close>

fun gaps :: "u32 list \<Rightarrow> u32 \<Rightarrow> (u32 \<times> u32) list \<times> u32" where
  "gaps [] start = ([], start)"
| "gaps (u # us) start = (if start > u - 1 then gaps us (u + 1) else apfst (Cons (start, u - 1)) (gaps us (u + 1)))"

definition covers :: "(u32 \<times> u32) list \<Rightarrow> nat \<Rightarrow> bool" where
  "covers rs n \<longleftrightarrow> (\<exists>(a, b) \<in> set rs. unat a \<le> n \<and> n \<le> unat b)"

lemma covers_simps [simp]:
  "\<not> covers [] n"
  "covers (r # rs) n \<longleftrightarrow> unat (fst r) \<le> n \<and> n \<le> unat (snd r) \<or> covers rs n"
  "covers (rs @ qs) n \<longleftrightarrow> covers rs n \<or> covers qs n"
  by (auto simp: covers_def)

lemma unat_pred: "u \<noteq> 0 \<Longrightarrow> unat (u - 1 :: u32) = unat u - 1"
  by (simp add: unat_minus_one)

lemma unat_succ: "unat u < 2 ^ 32 - 1 \<Longrightarrow> unat (u + 1 :: u32) = Suc (unat u)"
  by (simp add: unat_add_lem [THEN iffD1])

lemma gaps_cover:
  assumes "sorted (map unat us)" "\<forall>u \<in> set us. u \<noteq> 0 \<and> unat u < 2 ^ 32 - 1 \<and> unat start \<le> Suc (unat u)"
  shows "unat start \<le> unat (snd (gaps us start)) \<and>
    (\<forall>n. covers (fst (gaps us start)) n \<longleftrightarrow> unat start \<le> n \<and> n < unat (snd (gaps us start)) \<and> n \<notin> unat ` set us) \<and>
    unat (snd (gaps us start)) = (if us = [] then unat start else Suc (unat (last us)))"
  using assms
proof (induction us arbitrary: start)
  case (Cons u us)
  then have u: "u \<noteq> 0" "unat (u + 1) = Suc (unat u)" "unat (u - 1) = unat u - 1" "unat start \<le> Suc (unat u)"
    by (simp_all add: unat_succ unat_pred)
  have less: "start > u - 1 \<longleftrightarrow> unat u \<le> unat start" using u(1,3) unat_gt_0 [of u] by (simp add: word_less_nat_alt) linarith
  have IH: "unat (u + 1) \<le> unat (snd (gaps us (u + 1))) \<and>
      (\<forall>n. covers (fst (gaps us (u + 1))) n \<longleftrightarrow> unat (u + 1) \<le> n \<and> n < unat (snd (gaps us (u + 1))) \<and> n \<notin> unat ` set us) \<and>
      unat (snd (gaps us (u + 1))) = (if us = [] then unat (u + 1) else Suc (unat (last us)))"
    using Cons.prems by (intro Cons.IH) (auto simp: u)
  have out: "n \<notin> unat ` set us" if "n < unat u" for n using that Cons.prems(1) by auto
  show ?case
  proof (cases "unat u \<le> unat start")
    case True
    then have g: "gaps (u # us) start = gaps us (u + 1)" by (simp add: less)
    have "unat start \<le> n \<and> n \<noteq> unat u \<longleftrightarrow> Suc (unat u) \<le> n" for n using True u(4) by auto
    with IH u(2,4) show ?thesis unfolding g by auto
  next
    case False
    then have g: "gaps (u # us) start = apfst (Cons (start, u - 1)) (gaps us (u + 1))" by (simp add: less)
    have "unat start \<le> n \<and> n \<le> unat u - 1 \<longleftrightarrow> unat start \<le> n \<and> n < unat u" for n using False by auto
    with IH u(2,3,4) out False show ?thesis unfolding g by (auto simp: not_less not_less_eq_eq)
  qed
qed simp

section \<open>The commands\<close>

definition spaced :: "string list \<Rightarrow> string" where
  "spaced xs = (case joined None '' '' xs of None \<Rightarrow> [] | Some s \<Rightarrow> s)"

lemma joined_append: "joined d delim (xs @ [x]) = Some (concat_and_free (joined d delim xs) delim x)"
  by (simp add: joined_def)

lemma joined_None: "joined None delim xs = None \<longleftrightarrow> xs = []"
  by (cases xs rule: rev_exhaust) (simp_all add: joined_append)

definition users_event :: "u32 \<Rightarrow> string list \<Rightarrow> event" where
  "users_event netid g = Ndc (''ndc '' @ ''network users add '' @ udec (unat netid) @ '' '' @ spaced g)"

text \<open>Both loops hand over texts; the loop for excluded applications hands over the texts of the gaps.\<close>

fun text_loop :: "android \<Rightarrow> u32 \<Rightarrow> string list \<Rightarrow> nat \<Rightarrow> string option \<Rightarrow> string option quick" where
  "text_loop A netid [] args ranges = retq ranges"
| "text_loop A netid (x # xs) args ranges =
     bindq (flush_users A netid (Suc args) (Some (concat_and_free ranges '' '' x))) (text_loop A netid xs (Suc args))"

lemma bindq_assoc: "bindq (bindq m f) g = bindq m (\<lambda>x. bindq (f x) g)"
proof
  fix s
  obtain r t where "m s = (r, t)" by fastforce
  then show "bindq (bindq m f) g s = bindq m (\<lambda>x. bindq (f x) g) s" by (cases r) (simp_all add: bindq_def)
qed

lemma bindq_retq: "bindq (retq x) f = f x"
  by (simp add: bindq_def retq_def)

lemma exclude_loop_texts:
  "exclude_loop A netid us start args ranges =
     bindq (text_loop A netid (map (\<lambda>(a, b). print_range a b) (fst (gaps us start))) args ranges)
       (\<lambda>r. retq (snd (gaps us start), r))"
proof (induction us arbitrary: start args ranges)
  case (Cons u us)
  have "exclude_loop A netid us (u + 1) (Suc args) = (\<lambda>ranges.
      bindq (text_loop A netid (map (\<lambda>(a, b). print_range a b) (fst (gaps us (u + 1)))) (Suc args) ranges)
        (\<lambda>r. retq (snd (gaps us (u + 1)), r)))" by (rule ext) (rule Cons)
  then show ?case by (simp add: bindq_assoc Cons)
qed (simp add: bindq_retq)

lemma include_loop_texts: "include_loop A netid us args ranges = text_loop A netid (map (\<lambda>u. udec (unat u)) us) args ranges"
proof (induction us arbitrary: args ranges)
  case (Cons u us)
  have "include_loop A netid us (Suc args) = text_loop A netid (map (\<lambda>u. udec (unat u)) us) (Suc args)" by (rule ext) (rule Cons)
  then show ?case by simp
qed simp

lemma bindq_OkD: "bindq m f s = (Ok y, s') \<Longrightarrow> \<exists>x t. m s = (Ok x, t) \<and> f x t = (Ok y, s')"
  by (cases "fst (m s)"; cases "m s") (auto simp: bindq_def)

text \<open>Every eighteenth text completes a command.\<close>

lemma text_loop_run:
  assumes "text_loop A netid xs args (joined None '' '' p) s = (Ok r, s')" "length p = args mod 18"
  shows "\<exists>groups q. r = joined None '' '' q \<and> length q < 18 \<and> ran s' = ran s @ map (users_event netid) groups \<and>
    (\<forall>g \<in> set groups. length g = 18) \<and> concat groups @ q = p @ xs"
  using assms
proof (induction xs arbitrary: args p s)
  case Nil
  then show ?case by (intro exI [of _ "[]"] exI [of _ p]) (simp add: retq_def)
next
  case (Cons x xs)
  let ?p = "p @ [x]"
  from Cons.prems(1) obtain o1 t where f: "flush_users A netid (Suc args) (joined None '' '' ?p) s = (Ok o1, t)"
      "text_loop A netid xs (Suc args) o1 t = (Ok r, s')"
    by (auto simp: joined_append dest!: bindq_OkD)
  show ?case
  proof (cases "Suc args mod 18 = 0")
    case True
    then have p: "length ?p = 18" using Cons.prems(2) by (simp add: mod_Suc split: if_splits)
    let ?c = "''network users add '' @ udec (unat netid) @ '' '' @ spaced ?p"
    from True have "flush_users A netid (Suc args) (joined None '' '' ?p) s = thenq (cndc A ?c) (retq None) s"
      by (simp add: flush_users_def spaced_def)
    with f(1) have "o1 = None" "ran t = ran s @ [users_event netid ?p]"
      using cndc_event [of A ?c s] by (auto simp: thenq_def retq_def users_event_def dest!: bindq_OkD)
    moreover have "length [] = Suc args mod 18" using True by simp
    moreover have "text_loop A netid xs (Suc args) (joined None '' '' []) t = (Ok r, s')" using f(2) \<open>o1 = None\<close> by simp
    ultimately obtain groups q where "r = joined None '' '' q" "length q < 18" "ran s' = ran t @ map (users_event netid) groups"
        "\<forall>g \<in> set groups. length g = 18" "concat groups @ q = [] @ xs" using Cons.IH [of "Suc args" "[]" t] by blast
    then show ?thesis using p \<open>ran t = _\<close> by (intro exI [of _ "?p # groups"] exI [of _ q]) simp
  next
    case False
    then have "o1 = joined None '' '' ?p" "t = s" using f(1) by (auto simp: flush_users_def retq_def)
    moreover have "length ?p = Suc args mod 18" using False Cons.prems(2) by (simp add: mod_Suc split: if_splits)
    ultimately show ?thesis using Cons.IH [of "Suc args" ?p s] f(2) by simp
  qed
qed

lemma add_users_run:
  assumes "add_users A netid (joined None '' '' q) s = (Ok (), s')"
  shows "ran s' = ran s @ map (users_event netid) (if q = [] then [] else [q])"
proof (cases "q = []")
  case False
  then obtain v where "joined None '' '' q = Some v" using joined_None [of "'' ''" q] by (cases "joined None '' '' q") auto
  then show ?thesis using False assms cndc_event [of A "''network users add '' @ udec (unat netid) @ '' '' @ v" s]
    by (simp add: add_users_def users_event_def spaced_def)
qed (use assms in \<open>simp add: add_users_def retq_def\<close>)

lemma set_map_filter: "p \<in> set (List.map_filter f xs) \<longleftrightarrow> (\<exists>x \<in> set xs. f x = Some p)"
  by (induction xs) (auto simp: map_filter_simps split: option.splits)

lemma get_uid_list_values:
  assumes "get_uid_list A apps = Ok uids" and "\<forall>u \<in> set uids. unat u \<le> 99998"
  shows "sorted (map unat uids)" and "\<forall>u \<in> set uids. u \<noteq> 0"
proof -
  have fold: "res_fold (add_uids block room) us ps = Ok us' \<Longrightarrow> set us' \<subseteq> set us \<union> snd ` set ps" for block room us ps us'
  proof (induction ps arbitrary: us)
    case (Cons p ps)
    then obtain t where t: "add_uids block room us p = Ok t" "res_fold (add_uids block room) t ps = Ok us'"
      by (auto simp: res_simps)
    then have "set t \<subseteq> insert (snd p) (set us)"
      by (cases p) (auto simp: add_uids_def Let_def res_simps split: if_splits)
    with Cons.IH [OF t(2)] show ?case by auto
  qed simp
  have "\<exists>us. uids = qsort compare_uid us \<and> 0 \<notin> set us"
  proof (cases apps)
    case None
    with assms(1) show ?thesis by (intro exI [of _ "[]"]) (simp add: get_uid_list_def qsort_def)
  next
    case (Some a)
    show ?thesis
    proof (cases "a_open A ''/data/system/packages.list''")
      case (Inl e)
      with assms(1) Some show ?thesis by (auto simp: get_uid_list_def Let_def res_simps)
    next
      case (Inr f)
      with assms(1) Some obtain block room us where "uids = qsort compare_uid us" "res_fold (add_uids block room) [] (packages f) = Ok us"
        by (auto simp: get_uid_list_def Let_def res_simps split: if_splits)
      moreover have "0 \<notin> snd ` set (packages f)" by (auto simp: set_map_filter dest!: package_line_nonzero)
      ultimately show ?thesis using fold by fastforce
    qed
  qed
  then obtain us where us: "uids = qsort compare_uid us" "0 \<notin> set us" by blast
  have "\<forall>u \<in> set us. small_uid u" using assms(2) us(1) uids.set_qsort by (fastforce simp: small_uid_def)
  then show "sorted (map unat uids)" "\<forall>u \<in> set uids. u \<noteq> 0" using us sorted_uids uids.set_qsort by auto
qed

section \<open>Property\<close>

lemma regroup: "concat groups @ q = map f xs \<Longrightarrow> \<exists>gs p. groups = map (map f) gs \<and> q = map f p \<and> concat gs @ p = xs"
proof (induction groups arbitrary: xs)
  case (Cons g groups)
  then have "g @ (concat groups @ q) = map f xs" by simp
  then obtain a b where ab: "xs = a @ b" "g = map f a" "concat groups @ q = map f b" by (metis append_eq_map_conv)
  from Cons.IH [OF ab(3)] obtain gs p where "groups = map (map f) gs" "q = map f p" "concat gs @ p = b" by blast
  with ab show ?case by (intro exI [of _ "a # gs"] exI [of _ p]) simp
qed auto

lemma print_range_to_end: "start < 99999 \<Longrightarrow> udec (unat start) @ ''-99999'' = print_range start 99999"
  by (auto simp: print_range_def print_num.simps [of 10 99999] print_num.simps [of 10 9999] print_num.simps [of 10 999]
      print_num.simps [of 10 99] print_num.simps [of 10 9] digit_char_def char_of_def bit_0)

text \<open>C11. With excluded applications, or none, the commands give the network exactly the other users up to 99999: as ranges in
  groups of at most eighteen, which leave out the users of the list and no others.  The one exception is user 99999, who is left
  out together with user 99998.\<close>

theorem excluded_users_left_out:
  assumes "get_uid_list A excluded = Ok uids" "\<forall>u \<in> set uids. unat u \<le> 99998"
    and "set_users A netid excluded None s = (Ok (), s')"
  shows "\<exists>groups. ran s' = ran s @ map (\<lambda>g. users_event netid (map (\<lambda>(a, b). print_range a b) g)) groups \<and>
    (\<forall>g \<in> set groups. 1 \<le> length g \<and> length g \<le> 18) \<and>
    (\<forall>n. covers (concat groups) n \<longleftrightarrow> n \<le> 99999 \<and> n \<notin> unat ` set uids \<and> \<not> (n = 99999 \<and> 99998 \<in> unat ` set uids))"
proof -
  let ?t = "map (\<lambda>(a, b). print_range a b)"
  note v = get_uid_list_values [OF assms(1,2)]
  obtain rs fin where g: "gaps uids 0 = (rs, fin)" by fastforce
  define rs' where "rs' = (if fin < 99999 then rs @ [(fin, 99999)] else rs)"
  have "\<forall>u \<in> set uids. u \<noteq> 0 \<and> unat u < 2 ^ 32 - 1 \<and> unat (0 :: u32) \<le> Suc (unat u)"
    using assms(2) v(2) by fastforce
  from gaps_cover [OF v(1) this] g have c: "\<forall>n. covers rs n \<longleftrightarrow> n < unat fin \<and> n \<notin> unat ` set uids"
      "unat fin = (if uids = [] then 0 else Suc (unat (last uids)))" by simp_all
  have last: "unat u < unat fin" if "u \<in> set uids" for u
    using that c(2) v(1) by (cases uids rule: rev_exhaust) (auto simp: sorted_append less_Suc_eq_le)
  have fin: "unat fin \<le> 99999" using c(2) assms(2) by simp
  have fin': "unat fin = 99999 \<longleftrightarrow> 99998 \<in> unat ` set uids"
  proof
    assume "unat fin = 99999"
    then have "uids \<noteq> []" "unat (last uids) = 99998" using c(2) by (auto split: if_splits)
    then show "99998 \<in> unat ` set uids" by (metis imageI last_in_set)
  qed (use last fin in fastforce)
  have cov: "covers rs' n \<longleftrightarrow> n \<le> 99999 \<and> n \<notin> unat ` set uids \<and> \<not> (n = 99999 \<and> 99998 \<in> unat ` set uids)" for n
    using c(1) fin fin' by (auto simp: rs'_def word_less_nat_alt not_less image_iff dest: last)
  from assms(3) obtain r t where l: "text_loop A netid (?t rs) 0 (joined None '' '' []) s = (Ok r, t)"
      "add_users A netid (if fin < 99999 then Some (concat_and_free r '' '' (udec (unat fin) @ ''-99999'')) else r) t = (Ok (), s')"
    by (auto simp: set_users_def assms(1) exclude_loop_texts g bindq_assoc bindq_retq failq_def cong: if_cong dest!: bindq_OkD)
  from text_loop_run [OF l(1)] obtain groups q where q: "r = joined None '' '' q" "length q < 18"
      "ran t = ran s @ map (users_event netid) groups" "\<forall>g \<in> set groups. length g = 18" "concat groups @ q = ?t rs" by auto
  obtain gs p where gs: "groups = map ?t gs" "q = ?t p" "concat gs @ p = rs" using regroup [OF q(5)] by blast
  let ?p = "if fin < 99999 then p @ [(fin, 99999)] else p"
  have "(if fin < 99999 then Some (concat_and_free r '' '' (udec (unat fin) @ ''-99999'')) else r) = joined None '' '' (?t ?p)"
    by (simp add: q(1) gs(2) joined_append print_range_to_end)
  with add_users_run [of A netid "?t ?p" t s'] l(2) have "ran s' = ran t @ map (users_event netid) (if ?p = [] then [] else [?t ?p])"
    by (simp only: map_is_Nil_conv)
  then have "ran s' = ran s @ map (\<lambda>g. users_event netid (?t g)) (gs @ (if ?p = [] then [] else [?p]))"
    by (simp add: q(3) gs(1))
  moreover have "\<forall>g \<in> set (gs @ (if ?p = [] then [] else [?p])). 1 \<le> length g \<and> length g \<le> 18"
    using q(2,4) by (auto simp: gs Suc_le_eq)
  moreover have "concat (gs @ (if ?p = [] then [] else [?p])) = rs'" by (simp add: rs'_def gs(3) [symmetric])
  ultimately show ?thesis using cov by (intro exI [of _ "gs @ (if ?p = [] then [] else [?p])"]) (simp only: simp_thms)
qed

lemma sample_uids: "get_uid_list sample_packages (Some ''app'') = Ok [10001]"
proof -
  have o: "a_open sample_packages ''/data/system/packages.list'' = Inr sample_file" "a_behind sample_packages ''app'' = [NUL]"
    by (simp_all add: sample_packages_def sample_android_def)
  have c: "csplit ''app'' = [''app'']" by (simp add: csplit.simps)
  have "selected (''app'' @ [NUL, NUL]) = Ok [''app'']" using selected_zero_behind [of "''app''" "[]"] by (simp add: c)
  then show ?thesis using count_commas_zero [of "''pp''" "[NUL]"]
    by (simp add: get_uid_list_def o sample_package add_uids_def qsort_def Let_def)
qed

lemma sample_ndc: "cndc sample_packages c s = (Ok (), s\<lparr>ran := ran s @ [Ndc (''ndc '' @ c)]\<rparr>)"
proof -
  have "sint (atoi (''200 0'' @ [NL])) = 200"
    by (simp add: atoi_def strtoll_def num_of_def is_digit_of_def digit_val_def is_c_space_def scan_prefix_def)
  then show ?thesis unfolding cndc_def Let_def
    by (simp add: bindq_def ask_def next_line_def retq_def sample_packages_def)
qed

theorem excluded_users_left_out_witness:
  "\<exists>groups. ran (snd (set_users sample_packages 4660 (Some ''app'') None initial_state)) =
       map (\<lambda>g. users_event 4660 (map (\<lambda>(a, b). print_range a b) g)) groups \<and>
     (\<forall>n. covers (concat groups) n \<longleftrightarrow> n \<le> 99999 \<and> n \<noteq> 10001)"
proof -
  let ?s = "snd (set_users sample_packages 4660 (Some ''app'') None initial_state)"
  have "set_users sample_packages 4660 (Some ''app'') None initial_state = (Ok (), ?s)"
    by (simp add: set_users_def sample_uids failq_def bindq_def flush_users_def retq_def add_users_def sample_ndc)
  from excluded_users_left_out [OF sample_uids _ this] show ?thesis by (simp add: initial_state_def) blast
qed

end
