(* ===== verification/Spec2Isabelle.thy ===== *)
theory Spec2Isabelle
  imports Prelude Ctype Encoding Containers Sysdeps Config_Values Config Setconf Showconf Highlighter Highlight_Config Ipc_Uapi Ipc_Roundtrip Netlink Ipc_Linux
    Linux_Set Linux_Roundtrip Terminal Show Curve25519_Spec Curve25519_Hacl64 Curve25519_Fiat32 Keys Curve25519_Agree Curve25519_Base Wg
    Quick_Regex Quick_Options Quick Quick_Up Quick_Users
begin

text \<open>
  A verification of the configuration tools of the tunnel that the application carries:
  \<^verbatim>\<open>src/android/tunnel/tools/amneziawg-tools\<close>, written in C.  Paths below are relative to it.

  \<^bold>\<open>The program.\<close>  The tool reads a configuration from a file (\<^verbatim>\<open>setconf\<close>, \<^verbatim>\<open>addconf\<close>,
  \<^verbatim>\<open>syncconf\<close>) or from its arguments (\<^verbatim>\<open>set\<close>) into a device with its peers and hands the device
  to the tunnel; it asks the tunnel for its device and prints it as a configuration (\<^verbatim>\<open>showconf\<close>)
  or for people and scripts (\<^verbatim>\<open>show\<close>).  The tunnel is either a process behind a Unix socket or the
  kernel.  It generates keys and computes public keys.  A library for editors finds the parts of a configuration and marks errors.
  A second program (\<^verbatim>\<open>wg-quick\<close> for Android) reads a configuration file with settings of its own and runs the commands of
  the system that bring an interface up, or take it down.

  \<^bold>\<open>Theories and sources.\<close>
  \<^item> \<open>Prelude\<close>: machine integers, the outcome type of C functions, the C string library, scanning
    and printing of numbers, loops with an invariant (the locale \<open>step_invariant\<close>).
  \<^item> \<open>Ctype\<close> (\<^verbatim>\<open>src/ctype.h\<close>), \<open>Encoding\<close> (\<^verbatim>\<open>src/encoding.c\<close>): character classes, and keys as base64
    and hexadecimal text by branch-free arithmetic.  The arithmetic is the lookup in the alphabet, the
    decoders accept exactly what the encoders give.
  \<^item> \<open>Containers\<close> (\<^verbatim>\<open>src/containers.h\<close>): devices, peers and allowed addresses with their flags and lists.
  \<^item> \<open>Sysdeps\<close>: the resolver, address conversion, environment and files, as arguments.
  \<^item> \<open>Config_Values\<close>, \<open>Config\<close> (\<^verbatim>\<open>src/config.c\<close>): the parsers of single values, and the readers of lines
    and of arguments with their context.  They never follow a null pointer, keep the tail pointers right,
    return unless endless retries are asked for, and ignore case and comments.
  \<^item> \<open>Setconf\<close> (\<^verbatim>\<open>src/setconf.c\<close>, \<^verbatim>\<open>src/set.c\<close>), \<open>Showconf\<close> (\<^verbatim>\<open>src/showconf.c\<close>): the commands.  A refused
    file changes nothing, synchronising removes exactly the stale peers, and what \<^verbatim>\<open>showconf\<close> prints is
    read back as the same device.
  \<^item> \<open>Highlighter\<close>, \<open>Highlight_Config\<close> (\<^verbatim>\<open>contrib/highlighter\<close>): the value predicates and the state machine
    of the editor library, and the program that colours a file.  The spans are ordered and inside the file;
    the predicates are compared with the parsers of the tool.
  \<^item> \<open>Ipc_Uapi\<close>, \<open>Ipc_Roundtrip\<close> (\<^verbatim>\<open>src/ipc-uapi.h\<close>, \<^verbatim>\<open>src/ipc-uapi-unix.h\<close>, \<^verbatim>\<open>src/ipc.c\<close>): the text protocol, the
    list of interfaces and the choice of the backend.  What is written for a device is read as that device.
  \<^item> \<open>Netlink\<close> (\<^verbatim>\<open>src/netlink.h\<close>), \<open>Ipc_Linux\<close> (\<^verbatim>\<open>src/ipc-linux.h\<close>): the messages to and from the kernel, byte by byte: the
    builders and readers of attributes, the loop over received messages, the division of a device into messages that
    fit a buffer, the callbacks that read a device, the joining of the parts of a peer, the list of interfaces.  \<open>Linux_Set\<close> describes the
    messages of a run as fragments of peers (the relation \<open>sent\<close>) and shows that the loop ends and when it
    overflows; \<open>Linux_Roundtrip\<close> shows that reading them gives the device again.
  \<^item> \<open>Terminal\<close> (\<^verbatim>\<open>src/terminal.c\<close>), \<open>Show\<close> (\<^verbatim>\<open>src/show.c\<close>): colours and the three kinds of output.
  \<^item> \<open>Curve25519_Spec\<close>: the Montgomery ladder of RFC 7748 on integers, and the contract of field arithmetic on limbs with bounds (the
    locale \<open>limb_field\<close>), which both implementations interpret.  \<open>Curve25519_Hacl64\<close> (\<^verbatim>\<open>src/curve25519-hacl64.h\<close>): the
    field arithmetic on five limbs in 64-bit and 128-bit words, with the bound on the limbs before and after each
    operation that excludes overflow, the ladder and the encodings; the result is that of the specification.
    \<open>Curve25519_Fiat32\<close> (\<^verbatim>\<open>src/curve25519-fiat32.h\<close>) is the same for ten limbs in 32-bit words.  The first implementation goes
    through 256 bits of the scalar, of which the top one is zero, the second one through 255 as the RFC does; \<open>Curve25519_Agree\<close> shows
    that they give the same bytes where Fermat's theorem holds for the coordinate of the point, and \<open>Curve25519_Base\<close> computes that it does for the
    point 9, so that every public key is that of the RFC.
  \<^item> \<open>Keys\<close> (\<^verbatim>\<open>src/curve25519.c\<close>, \<^verbatim>\<open>src/genkey.c\<close>, \<^verbatim>\<open>src/pubkey.c\<close>), \<open>Wg\<close> (\<^verbatim>\<open>src/wg.c\<close>): random bytes, the commands for keys, and
    the program with its table of subcommands.  \<^verbatim>\<open>pubkey\<close> reads what \<^verbatim>\<open>genkey\<close> prints, and every row
    of the table can be reached.
  \<^item> \<open>Quick_Regex\<close>, \<open>Quick_Options\<close>, \<open>Quick\<close> (\<^verbatim>\<open>src/wg-quick/android.c\<close>): the regular expressions that the program uses, finding
    and reading the file, and the commands that it runs, in a monad over the history of commands with the two
    flags of the program.  What the system answers is any function of the history.  \<open>Quick_Up\<close> shows, with a frame rule for the
    history, that a failure on the way up removes the interface again, what the shell sees of the
    configuration, and what the expressions match; \<open>Quick_Users\<close> which users get into the network.

  \<^bold>\<open>State and effects.\<close>  A structure is a record, a linked list an Isabelle list, a pointer into a list an
  index, a null pointer \<^term>\<open>None\<close>.  A function that can fail returns \<^typ>\<open>('e, 'a) res\<close>: success, failure with
  its diagnostic, \<^verbatim>\<open>exit\<close>, no return at all, or a fault, which is a null pointer followed or a write outside
  a block.  What the operating system does is an argument of the definitions that use it; each property
  names what it relies on, and its witness instantiates it.  The output of a command is the text it writes to
  the standard output; messages on the standard error are left out except as diagnostics.

  \<^bold>\<open>Loops.\<close>  Loops over strings and lists are total functions with a measure.  The resolution of a name may
  retry for ever and is a partial function to options, so that not returning is \<^term>\<open>None\<close>, as are the loops that
  receive from the kernel and the choice of a network number in \<^verbatim>\<open>wg-quick\<close>; that the loop of \<^verbatim>\<open>kernel_set_device\<close> ends with a kernel that acknowledges is proved.

  \<^bold>\<open>Assumptions.\<close>  The platform is LP64 and little-endian.  Allocation succeeds except in the list of interfaces, where the
  allocator is an argument.

  \<^bold>\<open>Not modelled.\<close>  Releasing memory; messages on the standard error; the backends of other systems
  (\<^verbatim>\<open>src/ipc-windows.h\<close>, \<^verbatim>\<open>src/ipc-freebsd.h\<close>, \<^verbatim>\<open>src/ipc-openbsd.h\<close>); the embeddable library, which repeats the
  kernel backend; the fuzzing harnesses and small
  contributed programs; the parts of the application in Dart, Java, Kotlin and Go.
\<close>

end
